(* ===== verification/Prelude.thy ===== *)
theory Prelude
  imports "HOL-Library.Word"
begin

text \<open>
  Shared vocabulary of the development: the fixed-width integer types of the C++ code, its
  error codes, the early-return idiom (\<open>VerifyOrReturnError\<close>, \<open>ReturnErrorOnFailure\<close>) as a
  sum type, the little-endian byte encodings of \<^verbatim>\<open>src/lib/core/CHIPEncoding.h\<close> with the
  sequential reader of \<^verbatim>\<open>src/lib/support/BufferReader.h\<close>, and the flag sets of
  \<^verbatim>\<open>src/lib/support/BitFlags.h\<close>.  The collection \<open>result_simps\<close> holds the rewrite rules that
  evaluate a chain of early returns, \<open>codec_simps\<close> the rules that evaluate a reader on an
  encoded buffer.
\<close>

unbundle bit_operations_syntax

named_theorems result_simps \<open>evaluation of chains of early returns\<close>
named_theorems codec_simps \<open>evaluation of readers on encoded buffers\<close>

section \<open>Integer types and error codes\<close>

type_synonym u8 = "8 word"
type_synonym u16 = "16 word"
type_synonym u32 = "32 word"
type_synonym u64 = "64 word"
type_synonym bytes = "u8 list"

type_synonym NodeId = u64
type_synonym FabricIndex = u8
type_synonym GroupId = u16
type_synonym EndpointId = u16
type_synonym ClusterId = u32
type_synonym AttributeId = u32
type_synonym DeviceTypeId = u32

text \<open>
  The error codes the modelled code returns, under their names in
  \<^verbatim>\<open>src/lib/core/CHIPError.h\<close> and \<^verbatim>\<open>src/ble/BleError.h\<close>.  \<open>DIE\<close> is not an error code: it is the outcome of a failed
  \<open>VerifyOrDie\<close>, which aborts the process.
\<close>

datatype chip_error =
    CHIP_ERROR_INCORRECT_STATE
  | CHIP_ERROR_INVALID_ARGUMENT
  | CHIP_ERROR_INTERNAL
  | CHIP_ERROR_NO_MEMORY
  | CHIP_ERROR_BUFFER_TOO_SMALL
  | CHIP_ERROR_NOT_FOUND
  | CHIP_ERROR_NOT_IMPLEMENTED
  | CHIP_ERROR_ACCESS_DENIED
  | CHIP_ERROR_SENTINEL
  | CHIP_ERROR_KEY_NOT_FOUND
  | CHIP_ERROR_READ_FAILED
  | CHIP_ERROR_VERSION_MISMATCH
  | CHIP_ERROR_DUPLICATE_MESSAGE_RECEIVED
  | CHIP_ERROR_MESSAGE_COUNTER_EXHAUSTED
  | CHIP_ERROR_TOO_MANY_PEER_NODES
  | CHIP_ERROR_PERSISTED_STORAGE_VALUE_NOT_FOUND
  | CHIP_ERROR_PERSISTED_STORAGE_FAILED
  | CHIP_ERROR_INVALID_INTEGER_VALUE
  | CHIP_ERROR_INVALID_STRING_LENGTH
  | CHIP_ERROR_INTEGRITY_CHECK_FAILED
  | CHIP_ERROR_WRONG_ENCRYPTION_TYPE
  | CHIP_ERROR_WRONG_ENCRYPTION_TYPE_FROM_PEER
  | CHIP_ERROR_INVALID_MESSAGE_LENGTH
  | CHIP_ERROR_MESSAGE_INCOMPLETE
  | CHIP_ERROR_INBOUND_MESSAGE_TOO_BIG
  | CHIP_ERROR_OUTBOUND_MESSAGE_TOO_BIG
  | CHIP_ERROR_ENDPOINT_POOL_FULL
  | CHIP_ERROR_INVALID_TLV_TAG
  | CHIP_ERROR_INVALID_TLV_ELEMENT
  | CHIP_ERROR_WRONG_TLV_TYPE
  | CHIP_ERROR_TLV_CONTAINER_OPEN
  | CHIP_ERROR_TLV_UNDERRUN
  | CHIP_ERROR_UNEXPECTED_TLV_ELEMENT
  | CHIP_ERROR_UNKNOWN_IMPLICIT_TLV_TAG
  | CHIP_END_OF_TLV
  | CHIP_ERROR_MESSAGE_TOO_LONG
  | BLE_ERROR_INVALID_ACK
  | BLE_ERROR_REASSEMBLER_MISSING_DATA
  | BLE_ERROR_INVALID_BTP_HEADER_FLAGS
  | BLE_ERROR_INVALID_BTP_SEQUENCE_NUMBER
  | BLE_ERROR_REASSEMBLER_INCORRECT_STATE
  | BLE_ERROR_INVALID_MESSAGE
  | BLE_ERROR_INVALID_FRAGMENT_SIZE
  | BLE_ERROR_INCOMPATIBLE_PROTOCOL_VERSIONS
  | BLE_ERROR_NO_CONNECTION_RECEIVED_CALLBACK
  | BLE_ERROR_NO_CONNECT_COMPLETE_CALLBACK
  | BLE_ERROR_GATT_SUBSCRIBE_FAILED
  | BLE_ERROR_GATT_WRITE_FAILED
  | BLE_ERROR_GATT_INDICATE_FAILED
  | BLE_ERROR_CHIPOBLE_PROTOCOL_ABORT
  | BLE_ERROR_REMOTE_DEVICE_DISCONNECTED
  | BLE_ERROR_APP_CLOSED_CONNECTION
  | BLE_ERROR_CENTRAL_UNSUBSCRIBED
  | BLE_ERROR_GATT_UNSUBSCRIBE_FAILED
  | BLE_ERROR_CONNECT_TIMED_OUT
  | BLE_ERROR_RECEIVE_TIMED_OUT
  | BLE_ERROR_FRAGMENT_ACK_TIMED_OUT
  | DIE

type_synonym 'a result = "chip_error + 'a"

section \<open>Early returns\<close>

text \<open>\<open>rbind\<close> is \<open>ReturnErrorOnFailure\<close>: the first error ends the function.\<close>

definition rbind :: "'e + 'a \<Rightarrow> ('a \<Rightarrow> 'e + 'b) \<Rightarrow> 'e + 'b" where
  "rbind m f = (case m of Inl e \<Rightarrow> Inl e | Inr x \<Rightarrow> f x)"

text \<open>\<open>verify b e k\<close> is \<open>VerifyOrReturnError(b, e)\<close> followed by \<open>k\<close>.\<close>

definition verify :: "bool \<Rightarrow> 'e \<Rightarrow> 'e + 'a \<Rightarrow> 'e + 'a" where
  "verify b e k = (if b then k else Inl e)"

definition isOk :: "'e + 'a \<Rightarrow> bool" where
  "isOk r = (case r of Inl _ \<Rightarrow> False | Inr _ \<Rightarrow> True)"

lemma rbind_simps [simp, result_simps]:
  "rbind (Inl e) f = Inl e"
  "rbind (Inr x) f = f x"
  by (simp_all add: rbind_def)

lemma verify_simps [simp, result_simps]:
  "verify True e k = k"
  "verify False e k = Inl e"
  by (simp_all add: verify_def)

lemma isOk_simps [simp, result_simps]:
  "isOk (Inl e) = False"
  "isOk (Inr x) = True"
  by (simp_all add: isOk_def)

lemma rbind_eq_Inr [result_simps]: "rbind m f = Inr y \<longleftrightarrow> (\<exists>x. m = Inr x \<and> f x = Inr y)"
  by (cases m) auto

lemma rbind_eq_Inl: "rbind m f = Inl e \<longleftrightarrow> m = Inl e \<or> (\<exists>x. m = Inr x \<and> f x = Inl e)"
  by (cases m) auto

lemma verify_eq_Inr [simp, result_simps]: "verify b e k = Inr y \<longleftrightarrow> b \<and> k = Inr y"
  by (simp add: verify_def)

lemma verify_eq_Inl: "verify b e k = Inl e' \<longleftrightarrow> (\<not> b \<and> e = e') \<or> (b \<and> k = Inl e')"
  by (auto simp: verify_def)

lemma isOk_iff: "isOk r \<longleftrightarrow> (\<exists>x. r = Inr x)"
  by (cases r) auto

lemma rbind_cong [fundef_cong]:
  "m = m' \<Longrightarrow> (\<And>x. m' = Inr x \<Longrightarrow> f x = f' x) \<Longrightarrow> rbind m f = rbind m' f'"
  by (cases m') auto

lemma verify_cong [fundef_cong]:
  "b = b' \<Longrightarrow> e = e' \<Longrightarrow> (b' \<Longrightarrow> k = k') \<Longrightarrow> verify b e k = verify b' e' k'"
  by (auto simp: verify_def)

section \<open>Little-endian encodings\<close>

text \<open>
  \<open>le_bytes n w\<close> are the \<open>n\<close> bytes \<open>LittleEndian::Write8/16/32/64\<close> stores for \<open>w\<close>;
  \<open>le_word\<close> is the value \<open>LittleEndian::Read\<close> assembles from them.
\<close>

definition le_bytes :: "nat \<Rightarrow> 'a::len word \<Rightarrow> bytes" where
  "le_bytes n w = map (\<lambda>i. ucast (drop_bit (8 * i) w)) [0..<n]"

fun le_word :: "bytes \<Rightarrow> 'a::len word" where
  "le_word [] = 0"
| "le_word (b # bs) = ucast b OR push_bit 8 (le_word bs)"

lemma length_le_bytes [simp]: "length (le_bytes n w) = n"
  by (simp add: le_bytes_def)

lemma le_bytes_Nil [simp]: "le_bytes n w = [] \<longleftrightarrow> n = 0"
  by (simp add: le_bytes_def)

lemma bit_le_word:
  "bit (le_word bs :: 'a::len word) i \<longleftrightarrow>
     i < LENGTH('a) \<and> i div 8 < length bs \<and> bit (bs ! (i div 8)) (i mod 8)"
proof (induction bs arbitrary: i)
  case Nil
  then show ?case by simp
next
  case (Cons b bs)
  show ?case
  proof (cases "i < 8")
    case True
    then show ?thesis by (auto simp: bit_or_iff bit_push_bit_iff bit_ucast_iff)
  next
    case False
    then have "\<not> bit b i"
      using bit_imp_le_length [of b i] by auto
    moreover have "(i - 8) div 8 = i div 8 - 1" "(i - 8) mod 8 = i mod 8"
      using False by (auto simp: le_div_geq le_mod_geq)
    moreover have "i div 8 = Suc (i div 8 - 1)"
      using False by (simp add: le_div_geq)
    ultimately show ?thesis
      using False Cons.IH [of "i - 8"]
      by (cases "i div 8") (auto simp: bit_or_iff bit_push_bit_iff bit_ucast_iff)
  qed
qed

lemma le_word_bytes [simp, codec_simps]:
  fixes w :: "'a::len word"
  assumes "LENGTH('a) \<le> 8 * n"
  shows "le_word (le_bytes n w) = w"
proof (rule bit_word_eqI)
  fix i assume i: "i < LENGTH('a)"
  then have "i div 8 < n" using assms by linarith
  then show "bit (le_word (le_bytes n w) :: 'a word) i = bit w i"
    using i by (simp add: bit_le_word le_bytes_def bit_ucast_iff bit_drop_bit_eq)
qed

section \<open>The sequential reader\<close>

text \<open>
  \<open>Encoding::LittleEndian::Reader\<close>: the octets read so far and the octets left.  A failed
  read sets the status to \<open>CHIP_ERROR_BUFFER_TOO_SMALL\<close> and makes every later read fail; the
  code that uses it tests the status after each read (or chain of reads), so a failed read
  is the error value of the result.
\<close>

record reader =
  octetsRead :: nat
  avail :: bytes

definition Reader :: "bytes \<Rightarrow> reader" where
  "Reader buf = \<lparr>octetsRead = 0, avail = buf\<rparr>"

definition readWord :: "nat \<Rightarrow> reader \<Rightarrow> ('a::len word \<times> reader) result" where
  "readWord n r =
     (if length (avail r) < n then Inl CHIP_ERROR_BUFFER_TOO_SMALL
      else Inr (le_word (take n (avail r)),
                \<lparr>octetsRead = octetsRead r + n, avail = drop n (avail r)\<rparr>))"

definition Read8 :: "reader \<Rightarrow> (u8 \<times> reader) result" where
  "Read8 = readWord 1"

definition Read16 :: "reader \<Rightarrow> (u16 \<times> reader) result" where
  "Read16 = readWord 2"

definition Read32 :: "reader \<Rightarrow> (u32 \<times> reader) result" where
  "Read32 = readWord 4"

definition Read64 :: "reader \<Rightarrow> (u64 \<times> reader) result" where
  "Read64 = readWord 8"

text \<open>\<open>Skip(len)\<close> moves at most to the end of the buffer.\<close>

definition Skip :: "nat \<Rightarrow> reader \<Rightarrow> reader" where
  "Skip n r = (let k = min n (length (avail r))
               in \<lparr>octetsRead = octetsRead r + k, avail = drop k (avail r)\<rparr>)"

lemma readWord_le_bytes [codec_simps]:
  fixes w :: "'a::len word"
  assumes "LENGTH('a) \<le> 8 * n"
  shows "readWord n \<lparr>octetsRead = k, avail = le_bytes n w @ rest\<rparr>
           = Inr (w, \<lparr>octetsRead = k + n, avail = rest\<rparr>)"
  using assms by (simp add: readWord_def)

lemma readWord_total:
  assumes "readWord n r = Inr (w, r')"
  shows "octetsRead r' + length (avail r') = octetsRead r + length (avail r)
         \<and> octetsRead r' = octetsRead r + n"
  using assms by (auto simp: readWord_def split: if_splits)

lemma Read_le_bytes [simp, codec_simps]:
  "Read8 \<lparr>octetsRead = k, avail = le_bytes 1 b @ rest\<rparr> = Inr (b, \<lparr>octetsRead = k + 1, avail = rest\<rparr>)"
  "Read16 \<lparr>octetsRead = k, avail = le_bytes 2 h @ rest\<rparr> = Inr (h, \<lparr>octetsRead = k + 2, avail = rest\<rparr>)"
  "Read32 \<lparr>octetsRead = k, avail = le_bytes 4 w @ rest\<rparr> = Inr (w, \<lparr>octetsRead = k + 4, avail = rest\<rparr>)"
  "Read64 \<lparr>octetsRead = k, avail = le_bytes 8 d @ rest\<rparr> = Inr (d, \<lparr>octetsRead = k + 8, avail = rest\<rparr>)"
  by (simp_all add: Read8_def Read16_def Read32_def Read64_def readWord_le_bytes)

lemma Read8_le_bytes [simp, codec_simps]:
  "Read8 \<lparr>octetsRead = k, avail = le_bytes (Suc 0) b @ rest\<rparr> = Inr (b, \<lparr>octetsRead = Suc k, avail = rest\<rparr>)"
  using Read_le_bytes(1) [of k b rest] by simp

section \<open>Flag sets\<close>

text \<open>\<open>BitFlags\<close>: \<open>Has\<close>, \<open>HasAll\<close>, \<open>Set(flag)\<close>, \<open>Clear(flag)\<close> and \<open>Set(flag, isSet)\<close>.\<close>

definition Has :: "'a::len word \<Rightarrow> 'a word \<Rightarrow> bool" where
  "Has v flag \<longleftrightarrow> v AND flag \<noteq> 0"

definition HasAll :: "'a::len word \<Rightarrow> 'a word \<Rightarrow> bool" where
  "HasAll v flags \<longleftrightarrow> v AND flags = flags"

definition HasOnly :: "'a::len word \<Rightarrow> 'a word \<Rightarrow> bool" where
  "HasOnly v flags \<longleftrightarrow> v AND flags = v"

definition SetFlag :: "'a::len word \<Rightarrow> 'a word \<Rightarrow> bool \<Rightarrow> 'a word" where
  "SetFlag v flag isSet = (if isSet then v OR flag else v AND NOT flag)"

end
