(* ===== verification/Relay_App.thy ===== *)
theory Relay_App
  imports Prelude
begin

text \<open>
  The application of the relay: \<^verbatim>\<open>AppTask.cpp\<close>, \<^verbatim>\<open>AppTask.h\<close>, \<^verbatim>\<open>ZclCallbacks.cpp\<close> and
  \<^verbatim>\<open>demo_pwm.c\<close> of \<^verbatim>\<open>examples/lighting-app/thirdreality\<close> and the colour LED of
  \<^verbatim>\<open>examples/platform/bouffalolab/common/plat/LEDWidget.cpp\<close>, in the configuration of the
  \<^verbatim>\<open>bl602\<close> target (\<open>BL602_NIGHT_LIGHT\<close>, no \<open>BOOT_PIN_RESET\<close>).

  The GPIO driver is not part of the repository: the model keeps the sequence of commands the
  program gives it, and what it reads from a pin is an argument (\<open>pinIn\<close>), as are the clock and
  the number of fabrics.  The task notification of FreeRTOS is its value and its pending mark.
  The on/off attributes are a map of the endpoints that have one.
\<close>

section \<open>Constants\<close>

definition APP_EVENT_TIMER :: u32 where "APP_EVENT_TIMER = 0x10"
definition APP_EVENT_BTN_SHORT :: u32 where "APP_EVENT_BTN_SHORT = 0x20"
definition APP_EVENT_FACTORY_RESET :: u32 where "APP_EVENT_FACTORY_RESET = 0x40"
definition APP_EVENT_LIGHTING_ONOFF :: u32 where "APP_EVENT_LIGHTING_ONOFF = 0x10000"
definition APP_EVENT_LIGHTING_LEVEL :: u32 where "APP_EVENT_LIGHTING_LEVEL = 0x20000"
definition APP_EVENT_LIGHTING_COLOR :: u32 where "APP_EVENT_LIGHTING_COLOR = 0x40000"
definition APP_EVENT_LIGHTING_MASK :: u32 where
  "APP_EVENT_LIGHTING_MASK = APP_EVENT_LIGHTING_ONOFF OR APP_EVENT_LIGHTING_LEVEL OR APP_EVENT_LIGHTING_COLOR"
definition APP_EVENT_IDENTIFY_START :: u32 where "APP_EVENT_IDENTIFY_START = 0x1000000"
definition APP_EVENT_IDENTIFY_IDENTIFY :: u32 where "APP_EVENT_IDENTIFY_IDENTIFY = 0x2000000"
definition APP_EVENT_IDENTIFY_STOP :: u32 where "APP_EVENT_IDENTIFY_STOP = 0x4000000"
definition APP_EVENT_IDENTIFY_MASK :: u32 where
  "APP_EVENT_IDENTIFY_MASK = APP_EVENT_IDENTIFY_START OR APP_EVENT_IDENTIFY_IDENTIFY OR APP_EVENT_IDENTIFY_STOP"
definition APP_EVENT_ALL_MASK :: u32 where
  "APP_EVENT_ALL_MASK = APP_EVENT_LIGHTING_MASK OR APP_EVENT_TIMER OR APP_EVENT_BTN_SHORT OR APP_EVENT_IDENTIFY_MASK"

definition APP_BUTTON_PRESS_LONG :: u64 where "APP_BUTTON_PRESS_LONG = 5000"
definition APP_REBOOT_RESET_COUNT :: u32 where "APP_REBOOT_RESET_COUNT = 7"

definition TR_RELAY_REL1 :: u8 where "TR_RELAY_REL1 = 14"
definition TR_RELAY_REL2 :: u8 where "TR_RELAY_REL2 = 12"
definition TR_RELAY_REL3 :: u8 where "TR_RELAY_REL3 = 4"
definition TR_RELAY_REL1IN :: u8 where "TR_RELAY_REL1IN = 17"
definition TR_RELAY_REL2IN :: u8 where "TR_RELAY_REL2IN = 11"
definition TR_RELAY_REL3IN :: u8 where "TR_RELAY_REL3IN = 5"
definition TR_RELAY_UP :: u8 where "TR_RELAY_UP = 1"
definition TR_RELAY_DOWN :: u8 where "TR_RELAY_DOWN = 0"

definition OnOffId :: ClusterId where "OnOffId = 6"
definition OnOffAttributeId :: AttributeId where "OnOffAttributeId = 0"
definition IdentifyId :: ClusterId where "IdentifyId = 3"

section \<open>The colour LED\<close>

abbreviation (input) PWM_DUTY_CYCLE :: nat where "PWM_DUTY_CYCLE \<equiv> 10000"

text \<open>\<open>demo_hosal_pwm_change_param\<close>: the outputs are active low.\<close>

definition pwm_change_param :: "nat \<Rightarrow> nat" where
  "pwm_change_param duty = (if duty > PWM_DUTY_CYCLE then 0 else PWM_DUTY_CYCLE - duty)"

text \<open>\<open>set_color\<close>: the duty cycles of blue, red and green.  No intermediate value leaves its C type
  (the largest is 255 * 10000), so natural numbers do.\<close>

definition set_color :: "u8 \<Rightarrow> u8 \<Rightarrow> u8 \<Rightarrow> nat list" where
  "set_color currLevel currHue currSat =
     (let hue = unat currHue * 360 div 254;
          sat0 = unat currSat * 100 div 254;
          level = (if 1 \<le> unat currLevel \<and> unat currLevel \<le> 5 then 0 else unat currLevel);
          sat = (if sat0 > 100 then 100 else sat0);
          i = hue div 60; rgb_max = level; rgb_min = rgb_max * (100 - sat) div 100;
          diff = hue mod 60; rgb_adj = (rgb_max - rgb_min) * diff div 60;
          (red, green, blue) =
            (if i = 0 then (rgb_max, rgb_min + rgb_adj, rgb_min)
             else if i = 1 then (rgb_max - rgb_adj, rgb_max, rgb_min)
             else if i = 2 then (rgb_min, rgb_max, rgb_min + rgb_adj)
             else if i = 3 then (rgb_min, rgb_max - rgb_adj, rgb_max)
             else if i = 4 then (rgb_min + rgb_adj, rgb_min, rgb_max)
             else (rgb_max, rgb_min, rgb_max - rgb_adj))
      in map (\<lambda>c. pwm_change_param (c * PWM_DUTY_CYCLE div 254)) [blue, red, green])"

record ColorLEDWidget =
  mOnoff :: u8
  light_v :: u8
  light_h :: u8
  light_s :: u8
  pwm :: "nat list"

definition LED_Init :: "ColorLEDWidget \<Rightarrow> ColorLEDWidget" where
  "LED_Init l = l\<lparr>mOnoff := 0, light_v := 0, light_s := 0, light_h := 0\<rparr>"

definition LED_SetOnoff :: "bool \<Rightarrow> ColorLEDWidget \<Rightarrow> ColorLEDWidget" where
  "LED_SetOnoff state l =
     l\<lparr>mOnoff := (if state then 1 else 0),
       pwm := (if state then set_color (if light_v l = 0 then 254 else light_v l) (light_h l) (light_s l)
               else set_color 0 (light_h l) (light_s l))\<rparr>"

text \<open>\<open>SetOnoff(1 - mOnoff)\<close>: the argument is converted to bool.\<close>

definition LED_Toggle :: "ColorLEDWidget \<Rightarrow> ColorLEDWidget" where
  "LED_Toggle l = LED_SetOnoff (1 - mOnoff l \<noteq> 0) l"

definition LED_SetColor :: "u8 \<Rightarrow> u8 \<Rightarrow> u8 \<Rightarrow> ColorLEDWidget \<Rightarrow> ColorLEDWidget" where
  "LED_SetColor level hue sat l =
     l\<lparr>pwm := set_color level hue sat, light_v := level, light_h := hue, light_s := sat,
       mOnoff := (if level > 0 then 1 else 0)\<rparr>"

section \<open>State of the application\<close>

datatype gpioCmd =
    EnableOutput u8 u8 u8
  | OutputSet u8 u8
  | EnableInput u8 u8 u8

record appEnv =
  fabricCount :: u8
  now :: u64
  pinIn :: "u8 \<Rightarrow> u8"
  levelOk :: bool
  hueOk :: bool
  satOk :: bool

record relayApp =
  mEndpointId :: EndpointId
  mTimerIntvl :: u32
  mButtonPressedTime :: u64
  u8Config :: u8
  u8LedState :: u8
  sLightLED :: ColorLEDWidget
  gpio :: "gpioCmd list"
  notified :: u32
  pending :: bool
  timerPeriod :: "u32 option"
  fctRst :: u8
  gpioCount :: u8
  identifyState :: u32
  buttonOnoff :: bool
  resetCntStored :: "u32 option"
  factoryResets :: nat
  onOff :: "EndpointId \<Rightarrow> bool option"
  endpointEnabled :: "EndpointId \<Rightarrow> bool"

definition gpioCmds :: "gpioCmd list \<Rightarrow> relayApp \<Rightarrow> relayApp" where
  "gpioCmds cs st = st\<lparr>gpio := gpio st @ cs\<rparr>"

definition PostEvent :: "u32 \<Rightarrow> relayApp \<Rightarrow> relayApp" where
  "PostEvent event st = st\<lparr>notified := notified st OR event, pending := True\<rparr>"

definition SetColor :: "u8 \<Rightarrow> u8 \<Rightarrow> u8 \<Rightarrow> relayApp \<Rightarrow> relayApp" where
  "SetColor level hue sat st = st\<lparr>sLightLED := LED_SetColor level hue sat (sLightLED st)\<rparr>"

definition ToggleLED :: "relayApp \<Rightarrow> relayApp" where
  "ToggleLED st = st\<lparr>sLightLED := LED_Toggle (sLightLED st)\<rparr>"

text \<open>\<open>set_color\<close> called past the LED object changes the outputs only.\<close>

definition rawColor :: "u8 \<Rightarrow> u8 \<Rightarrow> u8 \<Rightarrow> relayApp \<Rightarrow> relayApp" where
  "rawColor level hue sat st = st\<lparr>sLightLED := (sLightLED st)\<lparr>pwm := set_color level hue sat\<rparr>\<rparr>"

definition InitiateFactoryReset :: "relayApp \<Rightarrow> relayApp" where
  "InitiateFactoryReset st = st\<lparr>factoryResets := factoryResets st + 1\<rparr>"

definition SetEndpointId :: "EndpointId \<Rightarrow> relayApp \<Rightarrow> relayApp" where
  "SetEndpointId ep st = (if mEndpointId st \<noteq> - 1 then st\<lparr>mEndpointId := ep\<rparr> else st)"

section \<open>Relays\<close>

text \<open>The second reading of the pin only decides whether a line is logged.\<close>

definition TRRelayControl :: "appEnv \<Rightarrow> u8 \<Rightarrow> u8 \<Rightarrow> u8 \<Rightarrow> relayApp \<Rightarrow> relayApp" where
  "TRRelayControl env pinOut inPin upDown st =
     (let notUp = (if upDown = 0 then 1 else 0); gpioValue = pinIn env inPin in
      gpioCmds ([EnableOutput pinOut upDown notUp, OutputSet pinOut upDown, EnableInput inPin notUp upDown] @
        (if upDown \<noteq> 0 then (if gpioValue = 0 then [OutputSet pinOut upDown] else [])
         else (if gpioValue \<noteq> 0 then [OutputSet pinOut upDown] else []))) st)"

definition SetLedState :: "u8 \<Rightarrow> bool \<Rightarrow> relayApp \<Rightarrow> u8 \<times> relayApp" where
  "SetLedState endpt onoff st =
     (let m = push_bit (unat endpt - 1) 1;
          s = (if onoff then u8LedState st OR m else u8LedState st AND NOT m)
      in (s, st\<lparr>u8LedState := s\<rparr>))"

text \<open>What the callback does for one endpoint and its relay.\<close>

definition relayOn :: "appEnv \<Rightarrow> u8 \<Rightarrow> u8 \<Rightarrow> u8 \<Rightarrow> relayApp \<Rightarrow> relayApp" where
  "relayOn env pinOut inPin endpt st =
     rawColor 6 84 254 (snd (SetLedState endpt True (TRRelayControl env pinOut inPin TR_RELAY_UP st)))"

definition relayOff :: "appEnv \<Rightarrow> u8 \<Rightarrow> u8 \<Rightarrow> u8 \<Rightarrow> relayApp \<Rightarrow> relayApp" where
  "relayOff env pinOut inPin endpt st =
     (case SetLedState endpt False (TRRelayControl env pinOut inPin TR_RELAY_DOWN st) of
        (s, st1) \<Rightarrow> if s = 0 then rawColor 0 0 0 st1 else st1)"

definition MatterPostAttributeChangeCallback ::
    "appEnv \<Rightarrow> EndpointId \<Rightarrow> ClusterId \<Rightarrow> AttributeId \<Rightarrow> u8 \<Rightarrow> relayApp \<Rightarrow> relayApp" where
  "MatterPostAttributeChangeCallback env endpoint clusterId attributeId val st =
     (if clusterId = OnOffId \<and> attributeId = OnOffAttributeId then
        (let st1 = PostEvent APP_EVENT_LIGHTING_ONOFF st; u8cfg = u8Config st1 in
         if val > 0 then
           (if endpoint = 1 then relayOn env TR_RELAY_REL1 TR_RELAY_REL1IN 1 st1
            else if endpoint = 2 then
              (if u8cfg = 2 \<or> u8cfg = 4 then relayOn env TR_RELAY_REL2 TR_RELAY_REL2IN 2 st1
               else if u8cfg = 3 then relayOn env TR_RELAY_REL3 TR_RELAY_REL3IN 2 st1 else st1)
            else if endpoint = 3 \<and> u8cfg = 4 then relayOn env TR_RELAY_REL3 TR_RELAY_REL3IN 3 st1
            else st1)
         else
           (if endpoint = 1 then relayOff env TR_RELAY_REL1 TR_RELAY_REL1IN 1 st1
            else if endpoint = 2 then
              (if u8cfg = 2 \<or> u8cfg = 4 then relayOff env TR_RELAY_REL2 TR_RELAY_REL2IN 2 st1
               else if u8cfg = 3 then relayOff env TR_RELAY_REL3 TR_RELAY_REL3IN 2 st1 else st1)
            else if endpoint = 3 \<and> u8cfg = 4 then relayOff env TR_RELAY_REL3 TR_RELAY_REL3IN 3 st1
            else st1))
      else if clusterId = IdentifyId then PostEvent APP_EVENT_IDENTIFY_IDENTIFY st
      else st)"

text \<open>The accessors of the on/off attribute: an endpoint that is disabled or has no such attribute is
  an error (\<open>None\<close>) and nothing changes.  A write stores the value and calls the callback.\<close>

definition OnOff_Get :: "EndpointId \<Rightarrow> relayApp \<Rightarrow> bool option" where
  "OnOff_Get ep st = (if endpointEnabled st ep then onOff st ep else None)"

definition OnOff_Set :: "appEnv \<Rightarrow> EndpointId \<Rightarrow> bool \<Rightarrow> relayApp \<Rightarrow> relayApp" where
  "OnOff_Set env ep v st =
     (if OnOff_Get ep st = None then st
      else MatterPostAttributeChangeCallback env ep OnOffId OnOffAttributeId (if v then 1 else 0)
             (st\<lparr>onOff := (onOff st)(ep := Some v)\<rparr>))"

section \<open>The application task\<close>

definition OptionRead :: "appEnv \<Rightarrow> relayApp \<Rightarrow> relayApp" where
  "OptionRead env st =
     (let st1 = gpioCmds [EnableInput 20 0 1, EnableInput 0 0 1] st;
          v1 = pinIn env 20; v2 = pinIn env 0;
          cfg = (if v1 = 1 \<and> v2 = 1 then 1 else if v1 = 1 \<and> v2 = 0 then 2
                 else if v1 = 0 \<and> v2 = 1 then 3 else if v1 = 0 \<and> v2 = 0 then 4 else u8Config st1);
          en = endpointEnabled st1
      in st1\<lparr>u8Config := cfg,
             endpointEnabled :=
               (if cfg = 1 then en(2 := False, 3 := False)
                else if cfg = 2 \<or> cfg = 3 then en(3 := False) else en)\<rparr>)"

definition LightingUpdate :: "appEnv \<Rightarrow> u32 \<Rightarrow> relayApp \<Rightarrow> relayApp" where
  "LightingUpdate env status st =
     (if APP_EVENT_LIGHTING_MASK AND status \<noteq> 0 then
        (if fabricCount env \<noteq> 0 then
           (let cfg = u8Config st;
                onoff2 = (if cfg = 2 \<or> cfg = 3 \<or> cfg = 4 then OnOff_Get 2 st else Some False);
                onoff3 = (if cfg = 4 then OnOff_Get 3 st else Some False);
                onoff = OnOff_Get (mEndpointId st) st
            in case (onoff2, onoff3, onoff) of
                 (Some b2, Some b3, Some b1) \<Rightarrow>
                   if levelOk env \<and> hueOk env \<and> satOk env
                   then (if \<not> b1 \<and> \<not> b2 \<and> \<not> b3 then SetColor 0 0 0 st else SetColor 36 84 254 st)
                   else st
               | _ \<Rightarrow> st)
         else SetColor 36 170 254 st)
      else st)"

text \<open>\<open>StartTimer\<close>: changing the period also starts the timer.\<close>

definition StartTimer :: "relayApp \<Rightarrow> relayApp" where
  "StartTimer st =
     (let i = (if mTimerIntvl st = 0 then 1000 else mTimerIntvl st)
      in st\<lparr>mTimerIntvl := i, timerPeriod := Some i\<rparr>)"

text \<open>\<open>TimerEventHandler\<close> in its three parts: the confirmation of a factory reset, the
  indicator and the restored outputs, and the reset input with the counter of the first ticks.\<close>

definition confirmReset :: "appEnv \<Rightarrow> relayApp \<Rightarrow> relayApp" where
  "confirmReset env st =
     (if mButtonPressedTime st \<noteq> 0 then
        (if now env - mButtonPressedTime st > APP_BUTTON_PRESS_LONG
         then PostEvent APP_EVENT_FACTORY_RESET (st\<lparr>mButtonPressedTime := 0\<rparr>)
         else SetColor 254 0 210 st)
      else st)"

definition readOr :: "bool option \<Rightarrow> bool" where
  "readOr v = (case v of Some b \<Rightarrow> b | None \<Rightarrow> False)"

definition restoreOutputs :: "appEnv \<Rightarrow> relayApp \<Rightarrow> relayApp" where
  "restoreOutputs env st =
     (let ep = mEndpointId st; cfg = u8Config st;
          onoff = readOr (OnOff_Get ep st);
          onoff2 = (if cfg = 2 \<or> cfg = 3 \<or> cfg = 4 then readOr (OnOff_Get 2 st) else False);
          onoff3 = (if cfg = 4 then readOr (OnOff_Get 3 st) else False);
          st1 = OnOff_Set env ep onoff st;
          st2 = (if cfg = 2 \<or> cfg = 3 \<or> cfg = 4 then OnOff_Set env 2 onoff2 st1 else st1);
          st3 = (if cfg = 4 then OnOff_Set env 3 onoff3 st2 else st2)
      in if \<not> onoff \<and> \<not> onoff2 \<and> \<not> onoff3 then SetColor 0 84 254 st3 else SetColor 36 84 254 st3)"

definition resetInput :: "appEnv \<Rightarrow> relayApp \<Rightarrow> relayApp" where
  "resetInput env st =
     (let st1 = (if gpioCount st < 10 \<and> pinIn env 2 = 0
                 then (let s = st\<lparr>gpioCount := 0, fctRst := fctRst st + 1\<rparr>
                       in if fctRst s > 6
                          then InitiateFactoryReset (SetColor 36 0 254 (SetColor 0 0 254 s)) else s)
                 else st);
          st2 = (if gpioCount st1 = 10 then st1\<lparr>resetCntStored := Some 0\<rparr> else st1)
      in st2\<lparr>gpioCount := gpioCount st2 + 1\<rparr>)"

definition TimerEventHandler :: "appEnv \<Rightarrow> relayApp \<Rightarrow> relayApp" where
  "TimerEventHandler env st =
     (let st1 = confirmReset env st in
      StartTimer
        (if gpioCount st1 < 120 then
           resetInput env
             (let st2 = gpioCmds [EnableInput 2 1 0] st1 in
              if fabricCount env = 0
              then (if gpioCount st2 mod 2 = 0 then SetColor 36 170 254 st2 else SetColor 0 170 254 st2)
              else if gpioCount st2 > 10 then restoreOutputs env st2 else st2)
         else st1))"

definition IdentifyHandleOp :: "u32 \<Rightarrow> relayApp \<Rightarrow> relayApp" where
  "IdentifyHandleOp event st =
     (let st1 = (if APP_EVENT_IDENTIFY_START AND event \<noteq> 0 then st\<lparr>identifyState := 1\<rparr> else st);
          st2 = (if APP_EVENT_IDENTIFY_IDENTIFY AND event \<noteq> 0 \<and> identifyState st1 \<noteq> 0 then ToggleLED st1 else st1)
      in if APP_EVENT_IDENTIFY_STOP AND event \<noteq> 0
         then PostEvent APP_EVENT_LIGHTING_MASK (st2\<lparr>identifyState := 0\<rparr>) else st2)"

definition buttonShort :: "appEnv \<Rightarrow> relayApp \<Rightarrow> relayApp" where
  "buttonShort env st =
     (if fabricCount env \<noteq> 0
      then (let ep = mEndpointId st;
                b = \<not> (case OnOff_Get ep st of Some b \<Rightarrow> b | None \<Rightarrow> buttonOnoff st)
            in OnOff_Set env ep b (st\<lparr>buttonOnoff := b\<rparr>))
      else ToggleLED st)"

text \<open>\<open>AppTaskMain\<close> up to the suspension of the task, after its resumption, and one turn of its loop,
  which waits for a notification and clears the bits of \<open>APP_EVENT_ALL_MASK\<close>.\<close>

definition AppTask_start :: "appEnv \<Rightarrow> relayApp \<Rightarrow> relayApp" where
  "AppTask_start env st =
     (let st1 = st\<lparr>sLightLED := LED_Init (sLightLED st)\<rparr>;
          resetCnt = (case resetCntStored st1 of None \<Rightarrow> 0 | Some c \<Rightarrow> c);
          st2 = (if resetCnt \<ge> APP_REBOOT_RESET_COUNT - 1
                 then (SetColor 34 0 254 st1)\<lparr>mButtonPressedTime := now env + 1, resetCntStored := Some 0\<rparr>
                 else (SetColor 34 170 254 st1)\<lparr>mButtonPressedTime := 0, resetCntStored := Some (resetCnt + 1)\<rparr>)
      in PostEvent APP_EVENT_LIGHTING_MASK (PostEvent APP_EVENT_TIMER st2))"

definition AppTask_resume :: "appEnv \<Rightarrow> relayApp \<Rightarrow> relayApp" where
  "AppTask_resume env st = OptionRead env (st\<lparr>u8Config := 11\<rparr>)"

definition handleEvents :: "appEnv \<Rightarrow> u32 \<Rightarrow> relayApp \<Rightarrow> relayApp" where
  "handleEvents env appEvent st1 =
     (let st2 = (if APP_EVENT_LIGHTING_MASK AND appEvent \<noteq> 0 then LightingUpdate env appEvent st1 else st1);
          st3 = (if APP_EVENT_BTN_SHORT AND appEvent \<noteq> 0 then buttonShort env st2 else st2);
          st4 = (if APP_EVENT_IDENTIFY_MASK AND appEvent \<noteq> 0 then IdentifyHandleOp appEvent st3 else st3)
      in if APP_EVENT_FACTORY_RESET AND appEvent \<noteq> 0 then InitiateFactoryReset st4 else st4)"

definition AppTask_turn :: "appEnv \<Rightarrow> relayApp \<Rightarrow> relayApp" where
  "AppTask_turn env st =
     (if \<not> pending st then st
      else
        (let appEvent = notified st;
             st1 = st\<lparr>notified := notified st AND NOT APP_EVENT_ALL_MASK, pending := False\<rparr>
         in TimerEventHandler env (handleEvents env appEvent st1)))"

text \<open>The static data at power-on, with what is in flash: the reset counter and the attributes.\<close>

definition powerOn :: "u32 option \<Rightarrow> (EndpointId \<Rightarrow> bool option) \<Rightarrow> relayApp" where
  "powerOn cnt attrs =
     \<lparr>mEndpointId = 1, mTimerIntvl = 0, mButtonPressedTime = 0, u8Config = 0xFF, u8LedState = 0,
      sLightLED = \<lparr>mOnoff = 0, light_v = 0, light_h = 0, light_s = 0, pwm = []\<rparr>, gpio = [], notified = 0,
      pending = False, timerPeriod = None, fctRst = 0, gpioCount = 0, identifyState = 0, buttonOnoff = False,
      resetCntStored = cnt, factoryResets = 0, onOff = attrs, endpointEnabled = (\<lambda>_. True)\<rparr>"

section \<open>Runs\<close>

text \<open>What can happen to the application: a cluster server writes an on/off attribute, the timer
  expires, Identify starts, changes or stops, the platform asks for a refresh, a button handler
  asks for a factory reset, the colour cluster is initialised, or the task takes a turn.\<close>

datatype relayOp =
    OpSet appEnv EndpointId bool
  | OpTimer
  | OpIdentifyStart
  | OpIdentifyStop
  | OpIdentifyAttribute appEnv EndpointId AttributeId u8
  | OpRefresh
  | OpButtonReset
  | OpColorInit EndpointId
  | OpTurn appEnv

fun stepRelay :: "relayOp \<Rightarrow> relayApp \<Rightarrow> relayApp" where
  "stepRelay (OpSet env ep v) st = OnOff_Set env ep v st"
| "stepRelay OpTimer st = PostEvent APP_EVENT_TIMER st"
| "stepRelay OpIdentifyStart st = PostEvent APP_EVENT_IDENTIFY_START st"
| "stepRelay OpIdentifyStop st = PostEvent APP_EVENT_IDENTIFY_STOP st"
| "stepRelay (OpIdentifyAttribute env ep a v) st = MatterPostAttributeChangeCallback env ep IdentifyId a v st"
| "stepRelay OpRefresh st = PostEvent APP_EVENT_LIGHTING_MASK st"
| "stepRelay OpButtonReset st = PostEvent APP_EVENT_FACTORY_RESET st"
| "stepRelay (OpColorInit ep) st = SetEndpointId ep st"
| "stepRelay (OpTurn env) st = AppTask_turn env st"

text \<open>A run from power-on: \<open>ops1\<close> happen while the task is suspended, \<open>ops2\<close> after it read the
  configuration pins.\<close>

definition runRelay ::
    "u32 option \<Rightarrow> (EndpointId \<Rightarrow> bool option) \<Rightarrow> appEnv \<Rightarrow> relayOp list \<Rightarrow> appEnv \<Rightarrow> relayOp list \<Rightarrow> relayApp" where
  "runRelay cnt attrs env1 ops1 env2 ops2 =
     fold stepRelay ops2 (AppTask_resume env2 (fold stepRelay ops1 (AppTask_start env1 (powerOn cnt attrs))))"

section \<open>Which relay belongs to which endpoint\<close>

definition relayPin :: "u8 \<Rightarrow> EndpointId \<Rightarrow> u8 option" where
  "relayPin cfg ep =
     (if ep = 1 then Some TR_RELAY_REL1
      else if ep = 2 then (if cfg = 2 \<or> cfg = 4 then Some TR_RELAY_REL2 else if cfg = 3 then Some TR_RELAY_REL3 else None)
      else if ep = 3 \<and> cfg = 4 then Some TR_RELAY_REL3
      else None)"

lemmas relay_pins = TR_RELAY_REL1_def TR_RELAY_REL2_def TR_RELAY_REL3_def

lemma relayPin_inj: "relayPin cfg ep = Some p \<Longrightarrow> relayPin cfg ep' = Some p \<Longrightarrow> ep = ep'"
  by (auto simp: relayPin_def relay_pins split: if_splits)

text \<open>The level last commanded on a pin.\<close>

definition outStep :: "u8 \<Rightarrow> gpioCmd \<Rightarrow> u8 option \<Rightarrow> u8 option" where
  "outStep pin c acc = (case c of OutputSet p v \<Rightarrow> if p = pin then Some v else acc | _ \<Rightarrow> acc)"

definition lastOut :: "u8 \<Rightarrow> gpioCmd list \<Rightarrow> u8 option" where
  "lastOut pin cs = fold (outStep pin) cs None"

lemma lastOut_append: "lastOut pin (cs @ ds) = fold (outStep pin) ds (lastOut pin cs)"
  by (simp add: lastOut_def)

lemma lastOut_inputs [simp]:
  "lastOut pin (cs @ [EnableInput a b c]) = lastOut pin cs"
  "lastOut pin (cs @ [EnableInput a b c, EnableInput a' b' c']) = lastOut pin cs"
  by (simp_all add: lastOut_append outStep_def)

lemma TRRelayControl_out:
  "lastOut pin (gpio (TRRelayControl env p q u st)) = (if pin = p then Some u else lastOut pin (gpio st))"
  by (auto simp: TRRelayControl_def gpioCmds_def Let_def lastOut_append outStep_def)

text \<open>The part of the state the relays depend on.\<close>

definition core where
  "core st = (\<lambda>pin. lastOut pin (gpio st), u8LedState st, onOff st, endpointEnabled st, u8Config st)"

definition relayOk :: "relayApp \<Rightarrow> bool" where
  "relayOk st \<longleftrightarrow>
     (\<forall>ep pin v. relayPin (u8Config st) ep = Some pin \<longrightarrow> lastOut pin (gpio st) = Some v \<longrightarrow>
        (\<exists>b. onOff st ep = Some b \<and> v = (if b then 1 else 0))) \<and>
     (\<forall>pin. lastOut pin (gpio st) \<noteq> None \<longrightarrow> (\<exists>ep. relayPin (u8Config st) ep = Some pin)) \<and>
     (\<forall>n. bit (u8LedState st) n \<longleftrightarrow>
        (\<exists>ep pin. unat ep = Suc n \<and> relayPin (u8Config st) ep = Some pin \<and> lastOut pin (gpio st) = Some 1))"

lemma relayOk_cong: "core st' = core st \<Longrightarrow> relayOk st' = relayOk st"
proof -
  assume c: "core st' = core st"
  then have "(\<lambda>pin. lastOut pin (gpio st')) = (\<lambda>pin. lastOut pin (gpio st))" by (simp add: core_def)
  then have "lastOut pin (gpio st') = lastOut pin (gpio st)" for pin by (rule fun_cong)
  then show ?thesis using c by (simp add: core_def relayOk_def)
qed

lemma core_simps [simp]:
  "core (PostEvent e st) = core st" "core (SetColor a b c st) = core st" "core (ToggleLED st) = core st"
  "core (rawColor a b c st) = core st" "core (InitiateFactoryReset st) = core st" "core (StartTimer st) = core st"
  "core (SetEndpointId ep st) = core st" "core (gpioCmds [EnableInput a b c] st) = core st"
  "core (st\<lparr>buttonOnoff := x\<rparr>) = core st" "core (st\<lparr>identifyState := y\<rparr>) = core st"
  "core (st\<lparr>mButtonPressedTime := t\<rparr>) = core st" "core (st\<lparr>resetCntStored := r\<rparr>) = core st"
  "core (st\<lparr>gpioCount := g\<rparr>) = core st" "core (st\<lparr>gpioCount := g, fctRst := f\<rparr>) = core st"
  "core (st\<lparr>notified := n, pending := pe\<rparr>) = core st" "core (st\<lparr>sLightLED := l\<rparr>) = core st"
  "core (st\<lparr>mButtonPressedTime := t, resetCntStored := r\<rparr>) = core st"
  by (simp_all add: core_def PostEvent_def SetColor_def ToggleLED_def rawColor_def InitiateFactoryReset_def StartTimer_def
      SetEndpointId_def gpioCmds_def Let_def)

lemma core_parts [simp]:
  "core (IdentifyHandleOp e st) = core st" "core (confirmReset env st) = core st" "core (resetInput env st) = core st"
  by (simp_all add: IdentifyHandleOp_def confirmReset_def resetInput_def Let_def)

lemma core_LightingUpdate [simp]: "core (LightingUpdate env e st) = core st"
  by (simp add: LightingUpdate_def Let_def split: option.split)

lemma core_start [simp]: "core (AppTask_start env st) = core st"
  by (simp add: AppTask_start_def Let_def)

definition ledAfter :: "nat \<Rightarrow> bool \<Rightarrow> u8 \<Rightarrow> u8" where
  "ledAfter k v l = (if v then l OR push_bit k 1 else l AND NOT (push_bit k 1))"

lemma core_relay:
  "core (relayOn env p q e st) =
     ((\<lambda>pin. lastOut pin (gpio st))(p := Some 1), ledAfter (unat e - 1) True (u8LedState st), onOff st, endpointEnabled st, u8Config st)"
  "core (relayOff env p q e st) =
     ((\<lambda>pin. lastOut pin (gpio st))(p := Some 0), ledAfter (unat e - 1) False (u8LedState st), onOff st, endpointEnabled st, u8Config st)"
proof -
  have c: "core (snd (SetLedState e v (TRRelayControl env p q u st))) =
      ((\<lambda>pin. lastOut pin (gpio st))(p := Some u), ledAfter (unat e - 1) v (u8LedState st), onOff st, endpointEnabled st, u8Config st)" for v u
    using TRRelayControl_out [of _ env p q u st]
    by (auto simp: core_def SetLedState_def Let_def ledAfter_def fun_eq_iff) (simp_all add: TRRelayControl_def gpioCmds_def Let_def)
  show "core (relayOn env p q e st) =
     ((\<lambda>pin. lastOut pin (gpio st))(p := Some 1), ledAfter (unat e - 1) True (u8LedState st), onOff st, endpointEnabled st, u8Config st)"
    using c [of True TR_RELAY_UP] by (simp add: relayOn_def TR_RELAY_UP_def)
  show "core (relayOff env p q e st) =
     ((\<lambda>pin. lastOut pin (gpio st))(p := Some 0), ledAfter (unat e - 1) False (u8LedState st), onOff st, endpointEnabled st, u8Config st)"
    using c [of False TR_RELAY_DOWN]
    by (cases "SetLedState e False (TRRelayControl env p q TR_RELAY_DOWN st)") (simp add: relayOff_def TR_RELAY_DOWN_def)
qed

lemma PostEvent_fields [simp]:
  "gpio (PostEvent e st) = gpio st" "u8LedState (PostEvent e st) = u8LedState st" "onOff (PostEvent e st) = onOff st"
  "endpointEnabled (PostEvent e st) = endpointEnabled st" "u8Config (PostEvent e st) = u8Config st"
  by (simp_all add: PostEvent_def)

text \<open>The effect of a write of the attribute on the relays: exactly the relay of that endpoint is
  driven, to the value written.\<close>

lemma callback_core:
  "core (MatterPostAttributeChangeCallback env ep OnOffId OnOffAttributeId (if v then 1 else 0) st) =
     (case relayPin (u8Config st) ep of
        None \<Rightarrow> core st
      | Some p \<Rightarrow> ((\<lambda>pin. lastOut pin (gpio st))(p := Some (if v then 1 else 0)),
                   ledAfter (unat ep - 1) v (u8LedState st), onOff st, endpointEnabled st, u8Config st))"
  by (cases v) (auto simp: MatterPostAttributeChangeCallback_def Let_def relayPin_def core_relay)

lemma relayOk_core:
  assumes "core st' = ((\<lambda>pin. lastOut pin (gpio st))(p := Some (if v then 1 else 0)),
      ledAfter (unat ep - 1) v (u8LedState st), (onOff st)(ep := Some v), endpointEnabled st, u8Config st)"
    and "relayPin (u8Config st) ep = Some p" "relayOk st"
  shows "relayOk st'"
proof -
  have o: "lastOut pin (gpio st') = (if pin = p then Some (if v then 1 else 0) else lastOut pin (gpio st))" for pin
    using assms(1) by (auto simp: core_def fun_eq_iff dest: fun_cong [where x = pin])
  have f: "u8LedState st' = ledAfter (unat ep - 1) v (u8LedState st)" "onOff st' = (onOff st)(ep := Some v)"
    "u8Config st' = u8Config st" using assms(1) by (auto simp: core_def)
  have e: "unat ep = Suc (unat ep - 1)" "unat ep - 1 < 8"
    using assms(2) by (auto simp: relayPin_def split: if_splits)
  have other: "q \<noteq> p" if "relayPin (u8Config st) ep' = Some q" "ep' \<noteq> ep" for ep' q
    using relayPin_inj assms(2) that by blast
  have ledbit: "bit (u8LedState st') n = (if n = unat ep - 1 then v else bit (u8LedState st) n)" for n
    using e(2) unfolding f(1) ledAfter_def by (auto simp: bit_simps dest: bit_imp_le_length)
  have "\<exists>b. onOff st' ep' = Some b \<and> w = (if b then 1 else 0)"
    if "relayPin (u8Config st) ep' = Some q" "lastOut q (gpio st') = Some w" for ep' q w
  proof (cases "ep' = ep")
    case True
    then show ?thesis using that assms(2) o f(2) by auto
  next
    case False
    then show ?thesis using that o other f(2) assms(3) by (simp add: relayOk_def)
  qed
  moreover have "bit (u8LedState st') n \<longleftrightarrow>
      (\<exists>ep' q. unat ep' = Suc n \<and> relayPin (u8Config st) ep' = Some q \<and> lastOut q (gpio st') = Some 1)" for n
  proof (cases "n = unat ep - 1")
    case True
    then have "unat ep' = Suc n \<longleftrightarrow> ep' = ep" for ep' :: EndpointId using e(1) by (metis word_unat_eq_iff)
    then show ?thesis using ledbit True assms(2) o by auto
  next
    case False
    then have "unat ep' = Suc n \<Longrightarrow> ep' \<noteq> ep" for ep' using e(1) by auto
    then show ?thesis using ledbit [of n] False o other assms(3) unfolding relayOk_def by (metis (no_types, lifting))
  qed
  moreover have "\<exists>ep'. relayPin (u8Config st) ep' = Some q" if "lastOut q (gpio st') \<noteq> None" for q
    using that o assms(2,3) unfolding relayOk_def by metis
  ultimately show ?thesis using f(3) unfolding relayOk_def by simp
qed

lemma relayOk_Set: "relayOk st \<Longrightarrow> relayOk (OnOff_Set env ep v st)"
proof (cases "OnOff_Get ep st")
  case (Some old)
  assume ok: "relayOk st"
  let ?s = "st\<lparr>onOff := (onOff st)(ep := Some v)\<rparr>"
  have set: "OnOff_Set env ep v st = MatterPostAttributeChangeCallback env ep OnOffId OnOffAttributeId (if v then 1 else 0) ?s"
    using Some by (simp add: OnOff_Set_def)
  show ?thesis
  proof (cases "relayPin (u8Config st) ep")
    case None
    have "relayOk ?s" using ok None unfolding relayOk_def by auto
    moreover have "core (OnOff_Set env ep v st) = core ?s" unfolding set callback_core using None by simp
    ultimately show ?thesis using relayOk_cong by blast
  next
    case (Some p)
    have "core (OnOff_Set env ep v st) = ((\<lambda>pin. lastOut pin (gpio st))(p := Some (if v then 1 else 0)),
        ledAfter (unat ep - 1) v (u8LedState st), (onOff st)(ep := Some v), endpointEnabled st, u8Config st)"
      unfolding set callback_core by (simp add: Some)
    then show ?thesis using relayOk_core Some ok by blast
  qed
qed (simp add: OnOff_Set_def)

lemma relayOk_simps [simp]:
  "relayOk (PostEvent e st) = relayOk st" "relayOk (SetColor a b c st) = relayOk st" "relayOk (ToggleLED st) = relayOk st"
  "relayOk (InitiateFactoryReset st) = relayOk st" "relayOk (StartTimer st) = relayOk st"
  "relayOk (SetEndpointId ep st) = relayOk st" "relayOk (gpioCmds [EnableInput a b c] st) = relayOk st"
  "relayOk (st\<lparr>buttonOnoff := x\<rparr>) = relayOk st" "relayOk (st\<lparr>notified := n, pending := pe\<rparr>) = relayOk st"
  "relayOk (IdentifyHandleOp e st) = relayOk st" "relayOk (confirmReset env st) = relayOk st"
  "relayOk (resetInput env st) = relayOk st" "relayOk (LightingUpdate env e st) = relayOk st"
  "relayOk (AppTask_start env st) = relayOk st"
  by (rule relayOk_cong, simp)+

lemma relayOk_restore: "relayOk st \<Longrightarrow> relayOk (restoreOutputs env st)"
  by (simp add: restoreOutputs_def Let_def relayOk_Set)

lemma relayOk_Timer: "relayOk st \<Longrightarrow> relayOk (TimerEventHandler env st)"
  by (simp add: TimerEventHandler_def Let_def relayOk_restore)

lemma relayOk_turn: "relayOk st \<Longrightarrow> relayOk (AppTask_turn env st)"
  by (simp add: AppTask_turn_def handleEvents_def Let_def relayOk_Timer relayOk_Set buttonShort_def)

lemma relayOk_step: "relayOk st \<Longrightarrow> relayOk (stepRelay op st)"
  by (cases op) (simp_all add: relayOk_Set relayOk_turn MatterPostAttributeChangeCallback_def IdentifyId_def OnOffId_def)

section \<open>What the parts leave alone\<close>

lemma relay_frame [simp]:
  "gpioCount (relayOn env p q e st) = gpioCount st" "gpioCount (relayOff env p q e st) = gpioCount st"
  "mEndpointId (relayOn env p q e st) = mEndpointId st" "mEndpointId (relayOff env p q e st) = mEndpointId st"
  "factoryResets (relayOn env p q e st) = factoryResets st" "factoryResets (relayOff env p q e st) = factoryResets st"
  "fctRst (relayOn env p q e st) = fctRst st" "fctRst (relayOff env p q e st) = fctRst st"
  "mButtonPressedTime (relayOn env p q e st) = mButtonPressedTime st"
  "mButtonPressedTime (relayOff env p q e st) = mButtonPressedTime st"
  "notified (relayOn env p q e st) = notified st" "notified (relayOff env p q e st) = notified st"
  "onOff (relayOn env p q e st) = onOff st" "onOff (relayOff env p q e st) = onOff st"
  "endpointEnabled (relayOn env p q e st) = endpointEnabled st" "endpointEnabled (relayOff env p q e st) = endpointEnabled st"
  "resetCntStored (relayOn env p q e st) = resetCntStored st" "resetCntStored (relayOff env p q e st) = resetCntStored st"
  "u8Config (relayOn env p q e st) = u8Config st" "u8Config (relayOff env p q e st) = u8Config st"
  by (simp_all add: relayOn_def relayOff_def rawColor_def SetLedState_def TRRelayControl_def gpioCmds_def Let_def)

lemma PostEvent_frame [simp]:
  "gpioCount (PostEvent e st) = gpioCount st" "mEndpointId (PostEvent e st) = mEndpointId st"
  "factoryResets (PostEvent e st) = factoryResets st" "fctRst (PostEvent e st) = fctRst st"
  "resetCntStored (PostEvent e st) = resetCntStored st" "mButtonPressedTime (PostEvent e st) = mButtonPressedTime st" "notified (PostEvent e st) = notified st OR e"
  "pending (PostEvent e st)"
  by (simp_all add: PostEvent_def)

lemma OnOff_Set_frame [simp]:
  "gpioCount (OnOff_Set env ep v st) = gpioCount st" "mEndpointId (OnOff_Set env ep v st) = mEndpointId st"
  "factoryResets (OnOff_Set env ep v st) = factoryResets st" "fctRst (OnOff_Set env ep v st) = fctRst st"
  "resetCntStored (OnOff_Set env ep v st) = resetCntStored st"
  "mButtonPressedTime (OnOff_Set env ep v st) = mButtonPressedTime st"
  "endpointEnabled (OnOff_Set env ep v st) = endpointEnabled st" "u8Config (OnOff_Set env ep v st) = u8Config st"
  "onOff (OnOff_Set env ep v st) = (if OnOff_Get ep st = None then onOff st else (onOff st)(ep := Some v))"
  "notified (OnOff_Set env ep v st) =
     (if OnOff_Get ep st = None then notified st else notified st OR APP_EVENT_LIGHTING_ONOFF)"
  by (simp_all add: OnOff_Set_def MatterPostAttributeChangeCallback_def Let_def OnOffId_def OnOffAttributeId_def)

lemma LED_frame [simp]:
  "gpioCount (SetColor a b c st) = gpioCount st" "mEndpointId (SetColor a b c st) = mEndpointId st"
  "factoryResets (SetColor a b c st) = factoryResets st" "fctRst (SetColor a b c st) = fctRst st"
  "resetCntStored (SetColor a b c st) = resetCntStored st"
  "mButtonPressedTime (SetColor a b c st) = mButtonPressedTime st" "notified (SetColor a b c st) = notified st"
  "u8Config (SetColor a b c st) = u8Config st" "onOff (SetColor a b c st) = onOff st"
  "endpointEnabled (SetColor a b c st) = endpointEnabled st" "gpio (SetColor a b c st) = gpio st"
  by (simp_all add: SetColor_def)

lemma Toggle_frame [simp]:
  "gpioCount (ToggleLED st) = gpioCount st" "mEndpointId (ToggleLED st) = mEndpointId st"
  "factoryResets (ToggleLED st) = factoryResets st" "fctRst (ToggleLED st) = fctRst st"
  "resetCntStored (ToggleLED st) = resetCntStored st"
  "mButtonPressedTime (ToggleLED st) = mButtonPressedTime st" "notified (ToggleLED st) = notified st"
  "u8Config (ToggleLED st) = u8Config st" "onOff (ToggleLED st) = onOff st"
  "endpointEnabled (ToggleLED st) = endpointEnabled st" "gpio (ToggleLED st) = gpio st"
  by (simp_all add: ToggleLED_def)

lemma gpioCmds_frame [simp]:
  "gpioCount (gpioCmds cs st) = gpioCount st" "mEndpointId (gpioCmds cs st) = mEndpointId st"
  "factoryResets (gpioCmds cs st) = factoryResets st" "fctRst (gpioCmds cs st) = fctRst st"
  "resetCntStored (gpioCmds cs st) = resetCntStored st"
  "mButtonPressedTime (gpioCmds cs st) = mButtonPressedTime st" "notified (gpioCmds cs st) = notified st"
  "u8Config (gpioCmds cs st) = u8Config st" "onOff (gpioCmds cs st) = onOff st"
  "endpointEnabled (gpioCmds cs st) = endpointEnabled st" "gpio (gpioCmds cs st) = gpio st @ cs"
  by (simp_all add: gpioCmds_def)

lemma Lighting_frame [simp]:
  "gpioCount (LightingUpdate env e st) = gpioCount st" "mEndpointId (LightingUpdate env e st) = mEndpointId st"
  "factoryResets (LightingUpdate env e st) = factoryResets st" "fctRst (LightingUpdate env e st) = fctRst st"
  "resetCntStored (LightingUpdate env e st) = resetCntStored st"
  "mButtonPressedTime (LightingUpdate env e st) = mButtonPressedTime st"
  "notified (LightingUpdate env e st) = notified st" "u8Config (LightingUpdate env e st) = u8Config st"
  "onOff (LightingUpdate env e st) = onOff st" "endpointEnabled (LightingUpdate env e st) = endpointEnabled st"
  "gpio (LightingUpdate env e st) = gpio st"
  by (simp_all add: LightingUpdate_def Let_def split: option.split)

lemma restore_frame [simp]:
  "gpioCount (restoreOutputs env st) = gpioCount st" "mEndpointId (restoreOutputs env st) = mEndpointId st"
  "factoryResets (restoreOutputs env st) = factoryResets st" "fctRst (restoreOutputs env st) = fctRst st"
  "resetCntStored (restoreOutputs env st) = resetCntStored st"
  "mButtonPressedTime (restoreOutputs env st) = mButtonPressedTime st"
  "endpointEnabled (restoreOutputs env st) = endpointEnabled st" "u8Config (restoreOutputs env st) = u8Config st"
  by (simp_all add: restoreOutputs_def Let_def)

lemma Identify_frame [simp]:
  "gpioCount (IdentifyHandleOp e st) = gpioCount st" "mEndpointId (IdentifyHandleOp e st) = mEndpointId st"
  "factoryResets (IdentifyHandleOp e st) = factoryResets st" "fctRst (IdentifyHandleOp e st) = fctRst st"
  "resetCntStored (IdentifyHandleOp e st) = resetCntStored st"
  "mButtonPressedTime (IdentifyHandleOp e st) = mButtonPressedTime st"
  "u8Config (IdentifyHandleOp e st) = u8Config st" "onOff (IdentifyHandleOp e st) = onOff st"
  "endpointEnabled (IdentifyHandleOp e st) = endpointEnabled st" "gpio (IdentifyHandleOp e st) = gpio st"
  by (simp_all add: IdentifyHandleOp_def Let_def)

lemma button_frame [simp]:
  "gpioCount (buttonShort env st) = gpioCount st" "factoryResets (buttonShort env st) = factoryResets st"
  "fctRst (buttonShort env st) = fctRst st" "mButtonPressedTime (buttonShort env st) = mButtonPressedTime st"
  "resetCntStored (buttonShort env st) = resetCntStored st" "u8Config (buttonShort env st) = u8Config st"
  by (simp_all add: buttonShort_def Let_def)

lemma events_frame [simp]:
  "gpioCount (handleEvents env e st) = gpioCount st" "fctRst (handleEvents env e st) = fctRst st"
  "mButtonPressedTime (handleEvents env e st) = mButtonPressedTime st"
  "resetCntStored (handleEvents env e st) = resetCntStored st" "u8Config (handleEvents env e st) = u8Config st"
  by (simp_all add: handleEvents_def InitiateFactoryReset_def Let_def)

section \<open>Factory reset\<close>

lemma event_bits:
  "APP_EVENT_FACTORY_RESET AND e \<noteq> 0 \<longleftrightarrow> bit e 6" "APP_EVENT_BTN_SHORT AND e \<noteq> 0 \<longleftrightarrow> bit e 5"
  using and_exp_eq_0_iff_not_bit [of e 6] and_exp_eq_0_iff_not_bit [of e 5]
  by (simp_all add: APP_EVENT_FACTORY_RESET_def APP_EVENT_BTN_SHORT_def and.commute)

lemmas event_masks = APP_EVENT_TIMER_def APP_EVENT_LIGHTING_MASK_def APP_EVENT_LIGHTING_ONOFF_def APP_EVENT_LIGHTING_LEVEL_def
  APP_EVENT_LIGHTING_COLOR_def APP_EVENT_IDENTIFY_START_def APP_EVENT_IDENTIFY_IDENTIFY_def APP_EVENT_IDENTIFY_STOP_def

text \<open>Nothing asks for a factory reset.\<close>

definition quiet :: "relayApp \<Rightarrow> bool" where
  "quiet st \<longleftrightarrow> factoryResets st = 0 \<and> \<not> bit (notified st) 6 \<and> mButtonPressedTime st = 0 \<and> fctRst st = 0"

fun quietOp :: "relayOp \<Rightarrow> bool" where
  "quietOp OpButtonReset = False"
| "quietOp (OpTurn env) = (pinIn env 2 \<noteq> 0)"
| "quietOp _ = True"

lemma quiet_Post [simp]: "\<not> bit e 6 \<Longrightarrow> quiet (PostEvent e st) = quiet st"
  by (simp add: quiet_def bit_or_iff)

lemma event_bits_clear [simp]:
  "\<not> bit APP_EVENT_TIMER 6" "\<not> bit APP_EVENT_LIGHTING_MASK 6" "\<not> bit APP_EVENT_LIGHTING_ONOFF 6"
  "\<not> bit APP_EVENT_IDENTIFY_START 6" "\<not> bit APP_EVENT_IDENTIFY_IDENTIFY 6" "\<not> bit APP_EVENT_IDENTIFY_STOP 6"
  "\<not> bit APP_EVENT_TIMER 5" "\<not> bit APP_EVENT_LIGHTING_MASK 5" "\<not> bit APP_EVENT_LIGHTING_ONOFF 5"
  "\<not> bit APP_EVENT_FACTORY_RESET 5" "bit APP_EVENT_FACTORY_RESET 6"
  by (simp_all add: event_masks APP_EVENT_FACTORY_RESET_def)

lemma quiet_simps [simp]:
  "quiet (SetColor a b c st) = quiet st" "quiet (ToggleLED st) = quiet st" "quiet (gpioCmds cs st) = quiet st"
  "quiet (LightingUpdate env e st) = quiet st" "quiet (OnOff_Set env ep v st) = quiet st"
  "quiet (st\<lparr>buttonOnoff := x\<rparr>) = quiet st" "quiet (st\<lparr>identifyState := y\<rparr>) = quiet st"
  "quiet (StartTimer st) = quiet st" "quiet (SetEndpointId ep st) = quiet st"
  by (simp_all add: quiet_def bit_or_iff StartTimer_def SetEndpointId_def Let_def)

lemma quiet_parts:
  "quiet (buttonShort env st) = quiet st" "quiet (IdentifyHandleOp e st) = quiet st"
  "quiet (restoreOutputs env st) = quiet st"
  by (simp_all add: buttonShort_def IdentifyHandleOp_def restoreOutputs_def Let_def)

lemma quiet_Timer: "quiet st \<Longrightarrow> pinIn env 2 \<noteq> 0 \<Longrightarrow> quiet (TimerEventHandler env st)"
proof -
  assume q: "quiet st" and p: "pinIn env 2 \<noteq> 0"
  have "quiet (resetInput env s) = quiet s" for s using p by (simp add: resetInput_def Let_def quiet_def)
  moreover have "confirmReset env st = st" using q by (simp add: confirmReset_def quiet_def)
  ultimately show ?thesis using q by (simp add: TimerEventHandler_def Let_def quiet_parts)
qed

lemma quiet_turn: "quiet st \<Longrightarrow> pinIn env 2 \<noteq> 0 \<Longrightarrow> quiet (AppTask_turn env st)"
proof -
  assume q: "quiet st" and p: "pinIn env 2 \<noteq> 0"
  have c: "quiet (st\<lparr>notified := notified st AND NOT APP_EVENT_ALL_MASK, pending := False\<rparr>)"
    using q by (simp add: quiet_def bit_and_iff)
  have "\<not> bit (notified st) 6" using q by (simp add: quiet_def)
  then show ?thesis
    using q c by (simp add: AppTask_turn_def handleEvents_def Let_def event_bits quiet_Timer [OF _ p] quiet_parts)
qed

lemma quiet_step: "quiet st \<Longrightarrow> quietOp op \<Longrightarrow> quiet (stepRelay op st)"
  by (cases op) (auto simp: quiet_turn MatterPostAttributeChangeCallback_def IdentifyId_def OnOffId_def)

lemma quiet_run: "quiet st \<Longrightarrow> list_all quietOp ops \<Longrightarrow> quiet (fold stepRelay ops st)"
  by (induction ops arbitrary: st) (auto intro: quiet_step)

lemma quiet_start: "cnt = None \<or> (\<exists>c. cnt = Some c \<and> c < 6) \<Longrightarrow> quiet (AppTask_start env (powerOn cnt attrs))"
  by (auto simp: AppTask_start_def Let_def powerOn_def APP_REBOOT_RESET_COUNT_def not_le [symmetric]) (simp_all add: quiet_def SetColor_def)

lemma quiet_resume: "quiet (AppTask_resume env st) = quiet st"
  by (simp add: AppTask_resume_def OptionRead_def Let_def quiet_def)

lemma cfg_step: "u8Config (stepRelay op st) = u8Config st"
proof (cases op)
  case (OpTurn env)
  have "u8Config (TimerEventHandler env s) = u8Config s" for s
    by (simp add: TimerEventHandler_def StartTimer_def resetInput_def confirmReset_def InitiateFactoryReset_def Let_def)
  then show ?thesis using OpTurn by (simp add: AppTask_turn_def Let_def)
qed (simp_all add: SetEndpointId_def MatterPostAttributeChangeCallback_def IdentifyId_def OnOffId_def)

lemma cfg_run: "u8Config (fold stepRelay ops st) = u8Config st"
  by (induction ops arbitrary: st) (simp_all add: cfg_step)

lemma relayOk_run: "relayOk st \<Longrightarrow> relayOk (fold stepRelay ops st)"
  by (induction ops arbitrary: st) (simp_all add: relayOk_step)

text \<open>Before the configuration is known only the first relay belongs to an endpoint, so that reading
  the configuration does not take a relay away from its endpoint.\<close>

lemma relayOk_resume:
  assumes "relayOk st" "u8Config st = 0xFF"
  shows "relayOk (AppTask_resume env st)"
proof -
  let ?st = "AppTask_resume env st"
  have o: "lastOut pin (gpio ?st) = lastOut pin (gpio st)" for pin
    by (simp add: AppTask_resume_def OptionRead_def Let_def)
  have f: "onOff ?st = onOff st" "u8LedState ?st = u8LedState st"
    by (simp_all add: AppTask_resume_def OptionRead_def Let_def gpioCmds_def)
  have old: "relayPin 0xFF ep = (if ep = 1 then Some TR_RELAY_REL1 else None)" for ep by (simp add: relayPin_def)
  have one: "relayPin cfg 1 = Some TR_RELAY_REL1" for cfg by (simp add: relayPin_def)
  note ok = assms(1) [unfolded relayOk_def assms(2)]
  have pin1: "pin = TR_RELAY_REL1" if "lastOut pin (gpio st) \<noteq> None" for pin
    using ok that by (auto simp: old split: if_splits)
  have drv: "relayPin cfg ep = Some pin \<and> lastOut pin (gpio st) = Some v \<longleftrightarrow>
      ep = 1 \<and> pin = TR_RELAY_REL1 \<and> lastOut pin (gpio st) = Some v" for cfg ep pin v
    using pin1 [of pin] relayPin_inj [of cfg ep TR_RELAY_REL1 1] one by auto
  have old1: "relayPin 0xFF ep = Some pin \<and> X \<longleftrightarrow> ep = 1 \<and> pin = TR_RELAY_REL1 \<and> X" for ep pin X by (auto simp: old)
  have "\<exists>b. onOff st ep = Some b \<and> v = (if b then 1 else 0)"
    if "relayPin (u8Config ?st) ep = Some pin" "lastOut pin (gpio st) = Some v" for ep pin v
    using ok drv [of "u8Config ?st" ep pin v] that old by auto
  moreover have "\<exists>ep. relayPin (u8Config ?st) ep = Some pin" if "lastOut pin (gpio st) \<noteq> None" for pin
    using pin1 [OF that] one by blast
  moreover have "bit (u8LedState st) n \<longleftrightarrow>
      (\<exists>ep pin. unat ep = Suc n \<and> relayPin (u8Config ?st) ep = Some pin \<and> lastOut pin (gpio st) = Some 1)" for n
    unfolding drv using ok by (simp add: old1)
  ultimately show ?thesis unfolding relayOk_def o f by blast
qed

lemma relayOk_power: "relayOk (powerOn cnt attrs)"
  by (simp add: relayOk_def powerOn_def lastOut_def)

lemma relayOk_runRelay: "relayOk (runRelay cnt attrs env1 ops1 env2 ops2)"
proof -
  have "u8Config (fold stepRelay ops1 (AppTask_start env1 (powerOn cnt attrs))) = 0xFF"
    by (simp add: cfg_run AppTask_start_def Let_def powerOn_def)
  then show ?thesis unfolding runRelay_def by (intro relayOk_run relayOk_resume) (simp_all add: relayOk_power)
qed

section \<open>Counting power cycles\<close>

fun isTurn :: "relayOp \<Rightarrow> bool" where
  "isTurn (OpTurn env) = True"
| "isTurn _ = False"

lemma unat_inc: "unat (x + 1 :: u8) \<le> unat x + 1"
  by (simp add: unat_word_ariths)

lemma Timer_count:
  "unat (gpioCount (TimerEventHandler env st)) \<le> unat (gpioCount st) + 1 \<and>
   (unat (gpioCount st) < 10 \<longrightarrow> resetCntStored (TimerEventHandler env st) = resetCntStored st)"
proof -
  have r: "unat (gpioCount (resetInput env s)) \<le> unat (gpioCount s) + 1 \<and>
      (unat (gpioCount s) < 10 \<longrightarrow> resetCntStored (resetInput env s) = resetCntStored s)" for s
    using unat_inc [of "gpioCount s"] by (auto simp: resetInput_def Let_def InitiateFactoryReset_def word_less_nat_alt)
  have c: "gpioCount (confirmReset env st) = gpioCount st" "resetCntStored (confirmReset env st) = resetCntStored st"
    by (simp_all add: confirmReset_def)
  have t: "gpioCount (StartTimer s) = gpioCount s" "resetCntStored (StartTimer s) = resetCntStored s" for s
    by (simp_all add: StartTimer_def Let_def)
  define s where "s = (let st2 = gpioCmds [EnableInput 2 1 0] (confirmReset env st) in
              if fabricCount env = 0
              then (if gpioCount st2 mod 2 = 0 then SetColor 36 170 254 st2 else SetColor 0 170 254 st2)
              else if gpioCount st2 > 10 then restoreOutputs env st2 else st2)"
  have s: "gpioCount s = gpioCount st" "resetCntStored s = resetCntStored st" by (simp_all add: s_def Let_def c)
  have "TimerEventHandler env st = StartTimer (if gpioCount st < 120 then resetInput env s else confirmReset env st)"
    unfolding TimerEventHandler_def s_def Let_def c ..
  then show ?thesis using r [of s] s c t by simp
qed

lemma count_step:
  "unat (gpioCount (stepRelay op st)) \<le> unat (gpioCount st) + (if isTurn op then 1 else 0) \<and>
   (unat (gpioCount st) < 10 \<longrightarrow> resetCntStored (stepRelay op st) = resetCntStored st)"
proof (cases op)
  case (OpTurn env)
  let ?s = "handleEvents env (notified st) (st\<lparr>notified := notified st AND NOT APP_EVENT_ALL_MASK, pending := False\<rparr>)"
  show ?thesis using OpTurn Timer_count [of env ?s] by (simp add: AppTask_turn_def Let_def)
qed (simp_all add: SetEndpointId_def MatterPostAttributeChangeCallback_def IdentifyId_def OnOffId_def)

lemma count_run:
  "unat (gpioCount st) + length (filter isTurn ops) \<le> 10 \<Longrightarrow> resetCntStored (fold stepRelay ops st) = resetCntStored st \<and>
     unat (gpioCount (fold stepRelay ops st)) \<le> unat (gpioCount st) + length (filter isTurn ops)"
proof (induction ops arbitrary: st)
  case (Cons op ops)
  show ?case
  proof (cases "isTurn op")
    case True
    then show ?thesis using Cons.IH [of "stepRelay op st"] count_step [of op st] Cons.prems by simp
  next
    case False
    then have "resetCntStored (stepRelay op st) = resetCntStored st"
      by (cases op) (simp_all add: SetEndpointId_def MatterPostAttributeChangeCallback_def IdentifyId_def OnOffId_def)
    then show ?thesis using False Cons.IH [of "stepRelay op st"] count_step [of op st] Cons.prems by simp
  qed
qed simp

lemma start_fields:
  "gpioCount (AppTask_start env (powerOn cnt attrs)) = 0"
  "resetCntStored (AppTask_start env (powerOn cnt attrs)) =
     (let c = (case cnt of None \<Rightarrow> 0 | Some c \<Rightarrow> c) in Some (if c \<ge> 6 then 0 else c + 1))"
  by (simp_all add: AppTask_start_def powerOn_def Let_def APP_REBOOT_RESET_COUNT_def)

lemma resume_fields [simp]:
  "gpioCount (AppTask_resume env st) = gpioCount st" "resetCntStored (AppTask_resume env st) = resetCntStored st"
  "mButtonPressedTime (AppTask_resume env st) = mButtonPressedTime st" "notified (AppTask_resume env st) = notified st"
  "mEndpointId (AppTask_resume env st) = mEndpointId st" "onOff (AppTask_resume env st) = onOff st"
  "pending (AppTask_resume env st) = pending st" "factoryResets (AppTask_resume env st) = factoryResets st"
  by (simp_all add: AppTask_resume_def OptionRead_def Let_def gpioCmds_def)

text \<open>A short run leaves the counter of power cycles one higher.\<close>

lemma short_run:
  assumes "length (filter isTurn ops1) + length (filter isTurn ops2) \<le> 10"
  shows "resetCntStored (runRelay cnt attrs env1 ops1 env2 ops2) =
     (let c = (case cnt of None \<Rightarrow> 0 | Some c \<Rightarrow> c) in Some (if c \<ge> 6 then 0 else c + 1))"
proof -
  let ?s = "AppTask_start env1 (powerOn cnt attrs)"
  have 1: "resetCntStored (fold stepRelay ops1 ?s) = resetCntStored ?s"
    "unat (gpioCount (fold stepRelay ops1 ?s)) \<le> length (filter isTurn ops1)"
    using count_run [of ?s ops1] assms by (simp_all add: start_fields(1))
  then have "resetCntStored (runRelay cnt attrs env1 ops1 env2 ops2) = resetCntStored ?s"
    unfolding runRelay_def using count_run [of "AppTask_resume env2 (fold stepRelay ops1 ?s)" ops2] assms by simp
  then show ?thesis using start_fields(2) by simp
qed

section \<open>A confirmed reset is carried out\<close>

definition armed :: "relayApp \<Rightarrow> bool" where
  "armed st \<longleftrightarrow> bit (notified st) 6 \<and> pending st"

lemma armed_Post [simp]: "armed st \<Longrightarrow> armed (PostEvent e st)" "armed (PostEvent APP_EVENT_FACTORY_RESET st)"
  by (simp_all add: armed_def bit_or_iff)

lemma pending_Set: "pending st \<Longrightarrow> pending (OnOff_Set env ep v st)"
proof -
  assume p: "pending st"
  have "pending (relayOn env a b c s) = pending s" "pending (relayOff env a b c s) = pending s" for a b c s
    by (simp_all add: relayOn_def relayOff_def rawColor_def SetLedState_def TRRelayControl_def gpioCmds_def Let_def)
  then show ?thesis
    using p by (simp add: OnOff_Set_def MatterPostAttributeChangeCallback_def Let_def OnOffId_def OnOffAttributeId_def)
qed

lemma armed_keeps [simp]:
  "armed st \<Longrightarrow> armed (OnOff_Set env ep v st)" "armed (SetColor a b c st) = armed st" "armed (gpioCmds cs st) = armed st"
  "armed (StartTimer st) = armed st" "armed (InitiateFactoryReset st) = armed st"
  "armed (st\<lparr>gpioCount := g\<rparr>) = armed st" "armed (st\<lparr>resetCntStored := r\<rparr>) = armed st"
  "armed (st\<lparr>gpioCount := g, fctRst := f\<rparr>) = armed st"
  using pending_Set [of st env ep v]
  by (auto simp: armed_def bit_or_iff SetColor_def gpioCmds_def StartTimer_def InitiateFactoryReset_def Let_def)

lemma armed_parts [simp]: "armed st \<Longrightarrow> armed (restoreOutputs env st)" "armed st \<Longrightarrow> armed (resetInput env st)"
  by (simp_all add: restoreOutputs_def resetInput_def Let_def)

lemma Timer_resets: "factoryResets s \<le> factoryResets (TimerEventHandler env s)"
proof -
  have r: "factoryResets (resetInput env s) \<ge> factoryResets s" for s
    by (simp add: resetInput_def InitiateFactoryReset_def Let_def)
  have c: "factoryResets (confirmReset env s) = factoryResets s" for s by (simp add: confirmReset_def)
  show ?thesis
    using r [of "gpioCmds [EnableInput 2 1 0] (confirmReset env s)"]
      r [of "SetColor 36 170 254 (gpioCmds [EnableInput 2 1 0] (confirmReset env s))"]
      r [of "SetColor 0 170 254 (gpioCmds [EnableInput 2 1 0] (confirmReset env s))"]
      r [of "restoreOutputs env (gpioCmds [EnableInput 2 1 0] (confirmReset env s))"]
    by (simp add: TimerEventHandler_def StartTimer_def Let_def c)
qed

lemma events_resets: "factoryResets s + (if bit e 6 then 1 else 0) \<le> factoryResets (handleEvents env e s)"
  by (simp add: handleEvents_def event_bits InitiateFactoryReset_def Let_def)

lemma turn_resets:
  assumes "armed st"
  shows "factoryResets (AppTask_turn env st) \<ge> 1"
proof -
  let ?s = "st\<lparr>notified := notified st AND NOT APP_EVENT_ALL_MASK, pending := False\<rparr>"
  have "1 \<le> factoryResets (handleEvents env (notified st) ?s)"
    using events_resets [of ?s "notified st" env] assms by (simp add: armed_def)
  then show ?thesis
    using assms Timer_resets [of "handleEvents env (notified st) ?s" env] by (simp add: AppTask_turn_def Let_def armed_def)
qed

lemma turn_keeps_resets: "factoryResets st \<le> factoryResets (AppTask_turn env st)"
proof -
  let ?s = "st\<lparr>notified := notified st AND NOT APP_EVENT_ALL_MASK, pending := False\<rparr>"
  show ?thesis
    using events_resets [of ?s "notified st" env] Timer_resets [of "handleEvents env (notified st) ?s" env]
    by (auto simp: AppTask_turn_def Let_def split: if_splits)
qed

lemma step_keeps_resets: "factoryResets st \<le> factoryResets (stepRelay op st)"
  by (cases op) (simp_all add: turn_keeps_resets SetEndpointId_def MatterPostAttributeChangeCallback_def IdentifyId_def OnOffId_def)

text \<open>The confirmation is done or on its way; a reset whose confirmation has begun at time \<open>t\<close> stays so until then.\<close>

definition confirmed :: "relayApp \<Rightarrow> bool" where
  "confirmed st \<longleftrightarrow> 1 \<le> factoryResets st \<or> armed st"

definition begun :: "u64 \<Rightarrow> relayApp \<Rightarrow> bool" where
  "begun t st \<longleftrightarrow> confirmed st \<or> mButtonPressedTime st = t"

lemma Timer_begun:
  assumes "mButtonPressedTime s = t" "t \<noteq> 0"
  shows "if now env - t > APP_BUTTON_PRESS_LONG then armed (TimerEventHandler env s) else mButtonPressedTime (TimerEventHandler env s) = t"
proof (cases "now env - t > APP_BUTTON_PRESS_LONG")
  case True
  then show ?thesis using assms by (simp add: TimerEventHandler_def confirmReset_def Let_def)
next
  case False
  have r: "mButtonPressedTime (resetInput env s) = mButtonPressedTime s" for s
    by (simp add: resetInput_def InitiateFactoryReset_def Let_def)
  have "mButtonPressedTime (confirmReset env s) = t" using False assms by (simp add: confirmReset_def)
  then show ?thesis using False by (simp add: TimerEventHandler_def StartTimer_def r Let_def)
qed

lemma turn_begun:
  assumes "begun t st" "t \<noteq> 0"
  shows "begun t (AppTask_turn env st)" "now env - t > APP_BUTTON_PRESS_LONG \<Longrightarrow> pending st \<Longrightarrow> confirmed (AppTask_turn env st)"
proof -
  let ?s = "handleEvents env (notified st) (st\<lparr>notified := notified st AND NOT APP_EVENT_ALL_MASK, pending := False\<rparr>)"
  have c: "confirmed st \<Longrightarrow> confirmed (AppTask_turn env st)"
    using turn_resets [of st env] turn_keeps_resets [of st env] by (auto simp: confirmed_def)
  have t: "mButtonPressedTime st = t \<Longrightarrow> mButtonPressedTime ?s = t" by simp
  show "begun t (AppTask_turn env st)"
    using c assms Timer_begun [OF t assms(2), of env]
    by (cases "pending st") (auto simp: begun_def confirmed_def AppTask_turn_def Let_def split: if_splits)
  show "confirmed (AppTask_turn env st)" if "now env - t > APP_BUTTON_PRESS_LONG" "pending st"
    using that c assms Timer_begun [OF t assms(2), of env] by (auto simp: begun_def confirmed_def AppTask_turn_def Let_def)
qed

lemma confirmed_step: "confirmed st \<Longrightarrow> confirmed (stepRelay op st)"
  using step_keeps_resets [of st op] turn_resets [of st]
  by (cases op) (auto simp: confirmed_def MatterPostAttributeChangeCallback_def IdentifyId_def OnOffId_def SetEndpointId_def armed_def bit_or_iff pending_Set)

lemma begun_step:
  assumes "begun t st" "t \<noteq> 0"
  shows "begun t (stepRelay op st)"
proof (cases op)
  case (OpTurn env)
  then show ?thesis using turn_begun(1) [OF assms] by simp
qed (use assms(1) confirmed_step [of st op] in
  \<open>auto simp: begun_def MatterPostAttributeChangeCallback_def IdentifyId_def OnOffId_def SetEndpointId_def\<close>)

lemma confirmed_run: "confirmed st \<Longrightarrow> confirmed (fold stepRelay ops st)"
  by (induction ops arbitrary: st) (simp_all add: confirmed_step)

lemma begun_run: "begun t st \<Longrightarrow> t \<noteq> 0 \<Longrightarrow> begun t (fold stepRelay ops st)"
  by (induction ops arbitrary: st) (simp_all add: begun_step)

section \<open>The outputs are restored\<close>

lemma callback_out:
  "lastOut pin (gpio (MatterPostAttributeChangeCallback env ep OnOffId OnOffAttributeId (if v then 1 else 0) st)) =
     (if relayPin (u8Config st) ep = Some pin then Some (if v then 1 else 0) else lastOut pin (gpio st))"
proof -
  have f: "fst (core s) pin = lastOut pin (gpio s)" for s by (simp add: core_def)
  show ?thesis unfolding f [symmetric] callback_core by (cases "relayPin (u8Config st) ep") (auto simp: f)
qed

text \<open>Writing back the value that was read changes no attribute and drives the relay.\<close>

definition refresh :: "appEnv \<Rightarrow> EndpointId \<Rightarrow> relayApp \<Rightarrow> relayApp" where
  "refresh env ep st = OnOff_Set env ep (readOr (OnOff_Get ep st)) st"

lemma refresh_frame [simp]:
  "onOff (refresh env ep st) = onOff st" "endpointEnabled (refresh env ep st) = endpointEnabled st"
  "u8Config (refresh env ep st) = u8Config st" "OnOff_Get e (refresh env ep st) = OnOff_Get e st"
  "bit (notified (refresh env ep st)) 5 = bit (notified st) 5"
proof -
  show 1: "onOff (refresh env ep st) = onOff st"
    by (auto simp: refresh_def readOr_def OnOff_Get_def fun_upd_idem split: option.splits if_splits)
  show "endpointEnabled (refresh env ep st) = endpointEnabled st" by (simp add: refresh_def)
  then show "OnOff_Get e (refresh env ep st) = OnOff_Get e st" using 1 by (simp add: OnOff_Get_def)
qed (simp_all add: refresh_def bit_or_iff)

lemma refresh_out:
  "lastOut pin (gpio (refresh env ep st)) =
     (if OnOff_Get ep st \<noteq> None \<and> relayPin (u8Config st) ep = Some pin
      then Some (if readOr (OnOff_Get ep st) then 1 else 0) else lastOut pin (gpio st))"
proof (cases "OnOff_Get ep st")
  case (Some b)
  then show ?thesis using callback_out [of pin env ep b "st\<lparr>onOff := (onOff st)(ep := Some b)\<rparr>"]
    by (simp add: refresh_def OnOff_Set_def readOr_def)
qed (simp add: refresh_def OnOff_Set_def)

lemma Set_refresh: "v = readOr (OnOff_Get ep st) \<Longrightarrow> OnOff_Set env ep v st = refresh env ep st"
  by (simp add: refresh_def)

lemma restore_refresh:
  "\<exists>l h c. restoreOutputs env st = SetColor l h c
     (let cfg = u8Config st;
          st1 = refresh env (mEndpointId st) st;
          st2 = (if cfg = 2 \<or> cfg = 3 \<or> cfg = 4 then refresh env 2 st1 else st1)
      in if cfg = 4 then refresh env 3 st2 else st2)"
  by (cases "u8Config st = 4"; cases "u8Config st = 2 \<or> u8Config st = 3")
    (auto simp: restoreOutputs_def Let_def Set_refresh)

text \<open>The relay of the endpoint shows its attribute.\<close>

definition shown :: "relayApp \<Rightarrow> EndpointId \<Rightarrow> bool" where
  "shown st ep \<longleftrightarrow> (case (relayPin (u8Config st) ep, OnOff_Get ep st) of
     (Some pin, Some b) \<Rightarrow> lastOut pin (gpio st) = Some (if b then 1 else 0) | _ \<Rightarrow> True)"

lemma shown_refresh [simp]: "shown (refresh env ep st) ep" "shown st e \<Longrightarrow> shown (refresh env ep st) e"
proof -
  show "shown (refresh env ep st) ep" by (simp add: shown_def refresh_out readOr_def split: option.split)
  show "shown (refresh env ep st) e" if "shown st e"
    using that relayPin_inj [of "u8Config st" e _ ep]
    by (auto simp: shown_def refresh_out readOr_def split: option.splits)
qed

lemma shown_cong: "core st' = core st \<Longrightarrow> shown st' ep = shown st ep"
proof -
  assume c: "core st' = core st"
  then have "(\<lambda>pin. lastOut pin (gpio st')) = (\<lambda>pin. lastOut pin (gpio st))" by (simp add: core_def)
  then have "lastOut pin (gpio st') = lastOut pin (gpio st)" for pin by (rule fun_cong)
  then show ?thesis using c by (simp add: core_def shown_def OnOff_Get_def split: option.split)
qed

lemma shown_simps [simp]:
  "shown (SetColor l h c st) ep = shown st ep" "shown (StartTimer st) ep = shown st ep"
  "shown (resetInput env st) ep = shown st ep"
  by (rule shown_cong, simp)+

lemma shown_none: "relayPin (u8Config st) ep = None \<Longrightarrow> shown st ep"
  by (simp add: shown_def)

lemma restore_out: "mEndpointId st = 1 \<Longrightarrow> shown (restoreOutputs env st) ep"
proof (cases "relayPin (u8Config st) ep")
  case (Some pin)
  assume "mEndpointId st = 1"
  then obtain l h c where r: "restoreOutputs env st = SetColor l h c
     (let cfg = u8Config st; st1 = refresh env 1 st;
          st2 = (if cfg = 2 \<or> cfg = 3 \<or> cfg = 4 then refresh env 2 st1 else st1)
      in if cfg = 4 then refresh env 3 st2 else st2)"
    using restore_refresh [of env st] by auto
  have "ep = 1 \<or> ep = 2 \<and> (u8Config st = 2 \<or> u8Config st = 3 \<or> u8Config st = 4) \<or> ep = 3 \<and> u8Config st = 4"
    using Some by (auto simp: relayPin_def split: if_splits)
  then show ?thesis by (elim disjE) (auto simp: r Let_def)
qed (simp add: shown_none)

lemma restore_keeps [simp]:
  "onOff (restoreOutputs env st) = onOff st" "bit (notified (restoreOutputs env st)) 5 = bit (notified st) 5"
proof -
  obtain l h c where "restoreOutputs env st = SetColor l h c
     (let cfg = u8Config st; st1 = refresh env (mEndpointId st) st;
          st2 = (if cfg = 2 \<or> cfg = 3 \<or> cfg = 4 then refresh env 2 st1 else st1)
      in if cfg = 4 then refresh env 3 st2 else st2)"
    using restore_refresh [of env st] by blast
  then show "onOff (restoreOutputs env st) = onOff st" "bit (notified (restoreOutputs env st)) 5 = bit (notified st) 5"
    by (simp_all add: Let_def)
qed

text \<open>The state \<open>k\<close> turns after the start, when nothing else happens.\<close>

definition settled :: "(EndpointId \<Rightarrow> bool option) \<Rightarrow> nat \<Rightarrow> relayApp \<Rightarrow> bool" where
  "settled attrs k st \<longleftrightarrow> unat (gpioCount st) = k \<and> mEndpointId st = 1 \<and> onOff st = attrs \<and> \<not> bit (notified st) 5"

lemma settled_simps [simp]:
  "settled attrs k (SetColor a b c st) = settled attrs k st" "settled attrs k (gpioCmds cs st) = settled attrs k st"
  "settled attrs k (LightingUpdate env e st) = settled attrs k st"
  "settled attrs k (PostEvent APP_EVENT_TIMER st) = settled attrs k st"
  "settled attrs k (restoreOutputs env st) = settled attrs k st" "settled attrs k (StartTimer st) = settled attrs k st"
  "settled attrs k (InitiateFactoryReset st) = settled attrs k st"
  "settled attrs k (AppTask_resume env st) = settled attrs k st"
  by (simp_all add: settled_def bit_or_iff StartTimer_def InitiateFactoryReset_def Let_def)

lemma settled_confirm: "settled attrs k st \<Longrightarrow> settled attrs k (confirmReset env st)"
  by (simp add: settled_def confirmReset_def bit_or_iff)

lemma settled_resetInput:
  "settled attrs k st \<Longrightarrow> k < 120 \<Longrightarrow> pinIn env 2 \<noteq> 0 \<Longrightarrow> settled attrs (Suc k) (resetInput env st)"
  by (auto simp: settled_def resetInput_def Let_def unat_word_ariths)

lemma settled_Timer:
  assumes "settled attrs k st" "k < 120" "pinIn env 2 \<noteq> 0" "fabricCount env \<noteq> 0"
  shows "settled attrs (Suc k) (TimerEventHandler env st)" "k > 10 \<Longrightarrow> shown (TimerEventHandler env st) ep"
proof -
  let ?s = "gpioCmds [EnableInput 2 1 0] (confirmReset env st)"
  have s: "settled attrs k ?s" using settled_confirm [OF assms(1)] by simp
  then have c: "gpioCount ?s < 120" "10 < gpioCount ?s \<longleftrightarrow> 10 < k" "mEndpointId ?s = 1"
    using assms(2) by (auto simp: settled_def word_less_nat_alt)
  have t: "TimerEventHandler env st = StartTimer (resetInput env (if 10 < k then restoreOutputs env ?s else ?s))"
    using c assms(4) by (simp add: TimerEventHandler_def Let_def)
  show "settled attrs (Suc k) (TimerEventHandler env st)" unfolding t using s settled_resetInput assms(2,3) by simp
  show "shown (TimerEventHandler env st) ep" if "k > 10" unfolding t using that restore_out [OF c(3)] by simp
qed

lemma settled_turn:
  assumes "settled attrs k st" "k < 120" "pinIn env 2 \<noteq> 0" "fabricCount env \<noteq> 0"
  shows "settled attrs (Suc k) (AppTask_turn env (PostEvent APP_EVENT_TIMER st)) \<and>
         (k > 10 \<longrightarrow> shown (AppTask_turn env (PostEvent APP_EVENT_TIMER st)) ep)"
proof -
  define st0 where "st0 = PostEvent APP_EVENT_TIMER st"
  define st1 where "st1 = st0\<lparr>notified := notified st0 AND NOT APP_EVENT_ALL_MASK, pending := False\<rparr>"
  have b: "\<not> bit (notified st0) 5" using assms(1) by (simp add: st0_def settled_def bit_or_iff)
  have "settled attrs k (IdentifyHandleOp e s) = settled attrs k s" for e s
    by (simp add: settled_def IdentifyHandleOp_def Let_def bit_or_iff)
  moreover have "settled attrs k st1" using assms(1) by (simp add: st1_def st0_def settled_def bit_and_iff bit_or_iff)
  ultimately have h: "settled attrs k (handleEvents env (notified st0) st1)"
    using b by (simp add: handleEvents_def Let_def event_bits)
  have "AppTask_turn env st0 = TimerEventHandler env (handleEvents env (notified st0) st1)"
    by (simp add: AppTask_turn_def st1_def st0_def Let_def)
  then show ?thesis using settled_Timer [OF h assms(2-4)] by (simp add: st0_def)
qed

lemma settled_run:
  assumes "settled attrs k st" "k + length envs \<le> 120" "list_all (\<lambda>e. pinIn e 2 \<noteq> 0 \<and> fabricCount e \<noteq> 0) envs"
  shows "settled attrs (k + length envs) (fold stepRelay (concat (map (\<lambda>e. [OpTimer, OpTurn e]) envs)) st) \<and>
    (envs \<noteq> [] \<and> k + length envs > 11 \<longrightarrow> shown (fold stepRelay (concat (map (\<lambda>e. [OpTimer, OpTurn e]) envs)) st) ep)"
  using assms
proof (induction envs arbitrary: k st)
  case (Cons e envs)
  let ?st = "AppTask_turn e (PostEvent APP_EVENT_TIMER st)"
  have t: "settled attrs (Suc k) ?st" "k > 10 \<Longrightarrow> shown ?st ep" using settled_turn Cons.prems by auto
  show ?case
  proof (cases "envs = []")
    case True
    then show ?thesis using t by simp
  next
    case False
    then show ?thesis using Cons.IH [OF t(1)] Cons.prems by simp
  qed
qed simp

text \<open>A power cycle: the counter in flash before and after a run that is cut off.\<close>

type_synonym boot = "(EndpointId \<Rightarrow> bool option) \<times> appEnv \<times> relayOp list \<times> appEnv \<times> relayOp list"

fun powerCycle :: "boot \<Rightarrow> u32 option \<Rightarrow> u32 option" where
  "powerCycle (attrs, env1, ops1, env2, ops2) cnt = resetCntStored (runRelay cnt attrs env1 ops1 env2 ops2)"

fun shortBoot :: "boot \<Rightarrow> bool" where
  "shortBoot (attrs, env1, ops1, env2, ops2) \<longleftrightarrow> length (filter isTurn ops1) + length (filter isTurn ops2) \<le> 10"

lemma powerCycle_short: "shortBoot b \<Longrightarrow> powerCycle b cnt =
    (let c = (case cnt of None \<Rightarrow> 0 | Some c \<Rightarrow> c) in Some (if c \<ge> 6 then 0 else c + 1))"
  by (cases b) (simp add: short_run)

lemma six_cycles:
  assumes "length boots = 6" "list_all shortBoot boots"
  shows "fold powerCycle boots None = Some 6"
proof -
  obtain b1 b2 b3 b4 b5 b6 where b: "boots = [b1, b2, b3, b4, b5, b6]"
    using assms(1) by (auto simp: eval_nat_numeral length_Suc_conv)
  show ?thesis using assms(2) by (simp add: b powerCycle_short word_le_nat_alt)
qed

section \<open>Properties of the relay\<close>

text \<open>
  C4. The relays follow their switches: in every run from power-on, whatever is written to the
  attributes and in whatever order the task takes its turns, the level last commanded on the
  relay of an endpoint is the current value of the endpoint's on/off attribute, only relays that
  belong to an endpoint of the configuration are driven, and bit \<open>n\<close> of the LED state is set exactly
  if the relay of endpoint \<open>n + 1\<close> is on.
\<close>

theorem relay_follows_switch: "relayOk (runRelay cnt attrs env1 ops1 env2 ops2)"
  by (rule relayOk_runRelay)

text \<open>
  C7. After a restart the relays come back: with the device commissioned and its reset input
  released, and nothing happening but the ticks of the timer and the turns of the task, twelve turns of the task after it read its configuration every endpoint's relay has
  been driven to the attribute stored in flash.
\<close>

theorem relays_restored_after_boot:
  assumes "length envs = 12" "list_all (\<lambda>e. pinIn e 2 \<noteq> 0 \<and> fabricCount e \<noteq> 0) envs"
  shows "onOff (runRelay cnt attrs env1 [] env2 (concat (map (\<lambda>e. [OpTimer, OpTurn e]) envs))) = attrs \<and>
         shown (runRelay cnt attrs env1 [] env2 (concat (map (\<lambda>e. [OpTimer, OpTurn e]) envs))) ep"
proof -
  have "settled attrs 0 (AppTask_start env1 (powerOn cnt attrs))"
    by (simp add: settled_def AppTask_start_def powerOn_def Let_def bit_or_iff)
  then have "settled attrs 0 (AppTask_resume env2 (AppTask_start env1 (powerOn cnt attrs)))" by simp
  from settled_run [OF this _ assms(2), of ep] assms(1) show ?thesis
    unfolding runRelay_def by (auto simp: settled_def)
qed

definition demoEnv :: appEnv where
  "demoEnv = \<lparr>fabricCount = 1, now = 6000, pinIn = (\<lambda>_. 1), levelOk = True, hueOk = True, satOk = True\<rparr>"

theorem relays_restored_after_boot_witness:
  "shown (runRelay None (\<lambda>_. Some True) demoEnv [] demoEnv
     (concat (map (\<lambda>e. [OpTimer, OpTurn e]) (replicate 12 demoEnv)))) 1"
  using relays_restored_after_boot [of "replicate 12 demoEnv" None "\<lambda>_. Some True" demoEnv demoEnv 1]
  by (simp add: demoEnv_def list_all_iff)

text \<open>
  C6. No factory reset out of the blue: if fewer than six power cycles were counted, the reset input
  stays released and no button handler asks for it, no run initiates a factory reset.
\<close>

theorem no_spontaneous_factory_reset:
  assumes "cnt = None \<or> (\<exists>c. cnt = Some c \<and> c < 6)" "list_all quietOp ops1" "list_all quietOp ops2"
  shows "factoryResets (runRelay cnt attrs env1 ops1 env2 ops2) = 0"
  using quiet_run [OF _ assms(3)] quiet_run [OF quiet_start [OF assms(1)] assms(2)] quiet_resume
  unfolding runRelay_def quiet_def by blast

theorem no_spontaneous_factory_reset_witness:
  "factoryResets (runRelay (Some 5) (\<lambda>_. Some True) demoEnv [OpSet demoEnv 1 False] demoEnv [OpTimer, OpTurn demoEnv]) = 0"
  using no_spontaneous_factory_reset [of "Some 5" "[OpSet demoEnv 1 False]" "[OpTimer, OpTurn demoEnv]"]
  by (simp add: demoEnv_def)

text \<open>
  C5. Seven short power cycles reset the device: after six runs from an empty counter, each cut off
  within ten turns of the task, the seventh start begins a reset.  Whatever happens then, however many turns the task takes
  before the time is over, the tick more than \<open>APP_BUTTON_PRESS_LONG\<close> milliseconds after the start confirms the reset at the latest,
  and the next turn after it has initiated the factory reset.
\<close>

theorem seven_power_cycles_reset:
  assumes "length boots = 6" "list_all shortBoot boots"
    and "now env1 + 1 \<noteq> 0" "now env - (now env1 + 1) > APP_BUTTON_PRESS_LONG"
  shows "factoryResets (runRelay (fold powerCycle boots None) attrs env1 ops1 env2
           (ops2 @ [OpTimer, OpTurn env] @ ops3 @ [OpTurn env'])) \<ge> 1"
proof -
  let ?t = "now env1 + 1" and ?s = "AppTask_start env1 (powerOn (Some 6) attrs)"
  have "mButtonPressedTime ?s = ?t" by (simp add: AppTask_start_def powerOn_def Let_def APP_REBOOT_RESET_COUNT_def)
  then have "begun ?t (fold stepRelay ops1 ?s)" using begun_run assms(3) by (simp add: begun_def)
  moreover have "begun ?t (AppTask_resume env2 st) = begun ?t st" for st by (simp add: begun_def confirmed_def armed_def)
  ultimately have "begun ?t (fold stepRelay ops2 (AppTask_resume env2 (fold stepRelay ops1 ?s)))" (is "begun _ ?u")
    using begun_run assms(3) by simp
  then have "begun ?t (PostEvent APP_EVENT_TIMER ?u)" using begun_step [of ?t ?u OpTimer] assms(3) by simp
  then have "confirmed (AppTask_turn env (PostEvent APP_EVENT_TIMER ?u))" using turn_begun(2) assms(3,4) by simp
  then have "confirmed (fold stepRelay ops3 (AppTask_turn env (PostEvent APP_EVENT_TIMER ?u)))" (is "confirmed ?v")
    by (rule confirmed_run)
  then have "1 \<le> factoryResets (AppTask_turn env' ?v)"
    using turn_resets [of ?v env'] turn_keeps_resets [of ?v env'] by (auto simp: confirmed_def)
  then show ?thesis using six_cycles [OF assms(1,2)] by (simp add: runRelay_def)
qed

theorem seven_power_cycles_reset_witness:
  "factoryResets (runRelay (fold powerCycle (replicate 6 (\<lambda>_. Some True, demoEnv, [], demoEnv, [OpTurn demoEnv])) None)
     (\<lambda>_. Some True) (demoEnv\<lparr>now := 10\<rparr>) [] demoEnv
     ([OpTurn (demoEnv\<lparr>now := 2000\<rparr>)] @ [OpTimer, OpTurn demoEnv] @ [] @ [OpTurn demoEnv])) \<ge> 1"
  by (rule seven_power_cycles_reset) (simp_all add: demoEnv_def APP_BUTTON_PRESS_LONG_def list_all_iff)

end
