(* ===== verification/OnOff_Server.thy ===== *)
theory OnOff_Server
  imports Relay_App
begin

text \<open>
  The On/Off cluster server of \<^verbatim>\<open>src/app/clusters/on-off-server/on-off-server.cpp\<close>, without the
  Scenes, Mode Select and Mode Base plugins, which the relay does not have.  The on/off attributes
  are those of \<open>Relay_App\<close>, so that a write of an attribute drives the relay.  The server asks Level
  Control for an effect; which endpoints have it and what it does are the arguments \<open>lvl\<close> and
  \<open>eff\<close>, for which \<open>Level_Control\<close> gives the definitions.  The other attributes of an endpoint can
  be read and written exactly if its on/off attribute can.
\<close>

section \<open>State\<close>

record onOffEp =
  onTime :: u16
  offWaitTime :: u16
  globalSceneControl :: bool
  featureMap :: u32
  startUpOnOff :: "u8 option"
  startUpNonVolatile :: bool

record onOffEffect =
  address :: nat
  mEndpoint :: EndpointId
  hasTrigger :: bool
  mEffectIdentifier :: u8
  mEffectVariant :: u8

record onOffServer =
  app :: relayApp
  oo :: "EndpointId \<Rightarrow> onOffEp"
  ooTimer :: "EndpointId \<Rightarrow> u32 option"
  nextDesiredOnWithTimedOffTimestamp :: u64
  effects :: "onOffEffect list"
  triggered :: "onOffEffect list"

datatype zclStatus = ZclSuccess | ZclUnsupportedAttribute

datatype imStatus = Success | Failure | InvalidCommand | UnsupportedEndpoint | UnsupportedCommand | UnsupportedAttribute

definition ToInteractionModelStatus :: "zclStatus \<Rightarrow> imStatus" where
  "ToInteractionModelStatus s = (case s of ZclSuccess \<Rightarrow> Success | ZclUnsupportedAttribute \<Rightarrow> UnsupportedAttribute)"

type_synonym CommandId = u32

definition cmdOff :: CommandId where "cmdOff = 0"
definition cmdOn :: CommandId where "cmdOn = 1"
definition cmdToggle :: CommandId where "cmdToggle = 2"

definition ON_OFF_UPDATE_TIME_MS :: u64 where "ON_OFF_UPDATE_TIME_MS = 100"
definition MIN_ON_OFF_TIME_VALUE :: u16 where "MIN_ON_OFF_TIME_VALUE = 1"
definition MAX_ON_OFF_TIME_VALUE :: u16 where "MAX_ON_OFF_TIME_VALUE = 0xFFFF"

definition isServed :: "EndpointId \<Rightarrow> 'a onOffServer_scheme \<Rightarrow> bool" where
  "isServed ep st \<longleftrightarrow> OnOff_Get ep (app st) \<noteq> None"

definition setOO :: "EndpointId \<Rightarrow> (onOffEp \<Rightarrow> onOffEp) \<Rightarrow> 'a onOffServer_scheme \<Rightarrow> 'a onOffServer_scheme" where
  "setOO ep f st = (if isServed ep st then st\<lparr>oo := (oo st)(ep := f (oo st ep))\<rparr> else st)"

definition setApp :: "appEnv \<Rightarrow> EndpointId \<Rightarrow> bool \<Rightarrow> 'a onOffServer_scheme \<Rightarrow> 'a onOffServer_scheme" where
  "setApp env ep v st = st\<lparr>app := OnOff_Set env ep v (app st)\<rparr>"

section \<open>Features and timers\<close>

definition HasFeature :: "EndpointId \<Rightarrow> u32 \<Rightarrow> 'a onOffServer_scheme \<Rightarrow> bool" where
  "HasFeature ep feature st \<longleftrightarrow> isServed ep st \<and> featureMap (oo st ep) AND feature \<noteq> 0"

definition SupportsLightingApplications :: "EndpointId \<Rightarrow> 'a onOffServer_scheme \<Rightarrow> bool" where
  "SupportsLightingApplications ep st = HasFeature ep 1 st"

text \<open>The control object of an endpoint exists if the endpoint serves the cluster; starting a timer
  for it again replaces the delay.\<close>

definition scheduleTimerCallbackMs :: "EndpointId \<Rightarrow> u32 \<Rightarrow> 'a onOffServer_scheme \<Rightarrow> 'a onOffServer_scheme" where
  "scheduleTimerCallbackMs ep delay st = (if isServed ep st then st\<lparr>ooTimer := (ooTimer st)(ep := Some delay)\<rparr> else st)"

definition cancelEndpointTimerCallback :: "EndpointId \<Rightarrow> 'a onOffServer_scheme \<Rightarrow> 'a onOffServer_scheme" where
  "cancelEndpointTimerCallback ep st = (if isServed ep st then st\<lparr>ooTimer := (ooTimer st)(ep := None)\<rparr> else st)"

definition calculateNextWaitTimeMS :: "appEnv \<Rightarrow> 'a onOffServer_scheme \<Rightarrow> u32 \<times> 'a onOffServer_scheme" where
  "calculateNextWaitTimeMS env st =
     (let nxt = nextDesiredOnWithTimedOffTimestamp st;
          waitTime =
            (if now env > nxt
             then (let latency = now env - nxt in
                   if latency \<ge> ON_OFF_UPDATE_TIME_MS then 1 else ON_OFF_UPDATE_TIME_MS - latency)
             else ON_OFF_UPDATE_TIME_MS)
      in (ucast waitTime, st\<lparr>nextDesiredOnWithTimedOffTimestamp := nxt + ON_OFF_UPDATE_TIME_MS\<rparr>))"

section \<open>Setting the value\<close>

definition setOnOffValue ::
    "('a onOffServer_scheme \<Rightarrow> EndpointId \<Rightarrow> bool) \<Rightarrow> (appEnv \<Rightarrow> EndpointId \<Rightarrow> bool \<Rightarrow> 'a onOffServer_scheme \<Rightarrow> 'a onOffServer_scheme) \<Rightarrow>
     appEnv \<Rightarrow> EndpointId \<Rightarrow> CommandId \<Rightarrow> bool \<Rightarrow> 'a onOffServer_scheme \<Rightarrow> zclStatus \<times> 'a onOffServer_scheme" where
  "setOnOffValue lvl eff env ep command initiatedByLevelChange st =
     (case OnOff_Get ep (app st) of
        None \<Rightarrow> (ZclUnsupportedAttribute, st)
      | Some currentValue \<Rightarrow>
          if (\<not> currentValue \<and> command = cmdOff) \<or> (currentValue \<and> command = cmdOn) then (ZclSuccess, st)
          else if \<not> currentValue then
            (let st1 =
                   (if SupportsLightingApplications ep st
                    then (let s = (if onTime (oo st ep) = 0
                                   then cancelEndpointTimerCallback ep (setOO ep (offWaitTime_update (\<lambda>_. 0)) st)
                                   else st)
                          in setOO ep (globalSceneControl_update (\<lambda>_. True)) s)
                    else st);
                 st2 = setApp env ep True st1
             in (ZclSuccess, if \<not> initiatedByLevelChange \<and> lvl st2 ep then eff env ep True st2 else st2))
          else if \<not> initiatedByLevelChange \<and> lvl st ep then (ZclSuccess, eff env ep False st)
          else
            (let st1 = setApp env ep False st
             in (ZclSuccess,
                 if SupportsLightingApplications ep st1 then setOO ep (onTime_update (\<lambda>_. 0)) st1 else st1)))"

definition getOnOffValueForStartUp :: "EndpointId \<Rightarrow> 'a onOffServer_scheme \<Rightarrow> bool option" where
  "getOnOffValueForStartUp ep st =
     map_option
       (\<lambda>previous. case startUpOnOff (oo st ep) of
          None \<Rightarrow> previous
        | Some v \<Rightarrow> if v = 0 then False else if v = 1 then True else if v = 2 then \<not> previous else previous)
       (OnOff_Get ep (app st))"

text \<open>The value is passed where a command id is expected: false is Off and true is On.\<close>

definition initOnOffServer ::
    "('a onOffServer_scheme \<Rightarrow> EndpointId \<Rightarrow> bool) \<Rightarrow> (appEnv \<Rightarrow> EndpointId \<Rightarrow> bool \<Rightarrow> 'a onOffServer_scheme \<Rightarrow> 'a onOffServer_scheme) \<Rightarrow>
     appEnv \<Rightarrow> EndpointId \<Rightarrow> 'a onOffServer_scheme \<Rightarrow> 'a onOffServer_scheme" where
  "initOnOffServer lvl eff env ep st =
     (if SupportsLightingApplications ep st \<and> startUpNonVolatile (oo st ep)
      then (case getOnOffValueForStartUp ep st of
              None \<Rightarrow> st
            | Some v \<Rightarrow> snd (setOnOffValue lvl eff env ep (if v then 1 else 0) True st))
      else st)"

section \<open>Commands\<close>

definition onOffServerShutdown :: "EndpointId \<Rightarrow> 'a onOffServer_scheme \<Rightarrow> 'a onOffServer_scheme" where
  "onOffServerShutdown ep st = cancelEndpointTimerCallback ep st"

definition offCommand where
  "offCommand lvl eff env ep st = apfst ToInteractionModelStatus (setOnOffValue lvl eff env ep cmdOff False st)"

definition onCommand where
  "onCommand lvl eff env ep st = apfst ToInteractionModelStatus (setOnOffValue lvl eff env ep cmdOn False st)"

definition toggleCommand where
  "toggleCommand lvl eff env ep st = apfst ToInteractionModelStatus (setOnOffValue lvl eff env ep cmdToggle False st)"

definition inst :: "EndpointId \<Rightarrow> onOffEffect list \<Rightarrow> onOffEffect option" where
  "inst ep es = find (\<lambda>e. mEndpoint e = ep) es"

text \<open>An effect object registers itself when it is constructed and leaves the list when it is destroyed.\<close>

definition reg :: "onOffEffect \<Rightarrow> 'a onOffServer_scheme \<Rightarrow> 'a onOffServer_scheme" where
  "reg e st = st\<lparr>effects := e # effects st\<rparr>"

fun unlinkEffect :: "nat \<Rightarrow> onOffEffect list \<Rightarrow> onOffEffect list" where
  "unlinkEffect a [] = []"
| "unlinkEffect a (e # es) = (if address e = a then es else e # unlinkEffect a es)"

definition unreg :: "nat \<Rightarrow> 'a onOffServer_scheme \<Rightarrow> 'a onOffServer_scheme" where
  "unreg a st = st\<lparr>effects := unlinkEffect a (effects st)\<rparr>"

fun updateFirst :: "('a \<Rightarrow> bool) \<Rightarrow> ('a \<Rightarrow> 'a) \<Rightarrow> 'a list \<Rightarrow> 'a list" where
  "updateFirst P f [] = []"
| "updateFirst P f (x # xs) = (if P x then f x # xs else x # updateFirst P f xs)"

definition triggerEffect :: "EndpointId \<Rightarrow> u8 \<Rightarrow> u8 \<Rightarrow> 'a onOffServer_scheme \<Rightarrow> 'a onOffServer_scheme" where
  "triggerEffect ep effectId effectVariant st =
     (case inst ep (effects st) of
        None \<Rightarrow> st
      | Some e \<Rightarrow>
          if hasTrigger e
          then (let e' = e\<lparr>mEffectIdentifier := effectId, mEffectVariant := effectVariant\<rparr>
                in st\<lparr>effects := updateFirst (\<lambda>e. mEndpoint e = ep) (\<lambda>_. e') (effects st),
                      triggered := triggered st @ [e']\<rparr>)
          else st)"

definition offWithEffectCommand where
  "offWithEffectCommand lvl eff env ep effectId effectVariant st =
     (if SupportsLightingApplications ep st
      then (let isOnBeforeCommand = readOr (OnOff_Get ep (app st));
                st1 = (if globalSceneControl (oo st ep) then setOO ep (globalSceneControl_update (\<lambda>_. False)) st else st);
                st2 = (if isOnBeforeCommand then triggerEffect ep effectId effectVariant st1 else st1)
            in apfst ToInteractionModelStatus (setOnOffValue lvl eff env ep cmdOff False st2))
      else (UnsupportedCommand, st))"

definition OnWithRecallGlobalSceneCommand where
  "OnWithRecallGlobalSceneCommand lvl eff env ep st =
     (if \<not> SupportsLightingApplications ep st then (UnsupportedCommand, st)
      else if globalSceneControl (oo st ep) then (Success, st)
      else (Success, snd (setOnOffValue lvl eff env ep cmdOn False
                            (setOO ep (globalSceneControl_update (\<lambda>_. True)) st))))"

definition OnWithTimedOffCommand where
  "OnWithTimedOffCommand lvl eff env ep onOffControl onT offWaitT st =
     (if \<not> isServed ep st then (UnsupportedEndpoint, st)
      else if \<not> SupportsLightingApplications ep st then (UnsupportedCommand, st)
      else
        (let isOn = readOr (OnOff_Get ep (app st)) in
         if onOffControl AND (1 :: u8) \<noteq> 0 \<and> \<not> isOn then (Success, st)
         else
           (let currentOffWaitTime = offWaitTime (oo st ep); currentOnTime = onTime (oo st ep);
                (st1, onT1, offT1) =
                  (if currentOffWaitTime > 0 \<and> \<not> isOn
                   then (let newOffWaitTime = min currentOffWaitTime offWaitT
                         in (setOO ep (offWaitTime_update (\<lambda>_. newOffWaitTime)) st, currentOnTime, newOffWaitTime))
                   else (let newOnTime = max currentOnTime onT
                         in (snd (setOnOffValue lvl eff env ep cmdOn False
                               (setOO ep (offWaitTime_update (\<lambda>_. offWaitT)) (setOO ep (onTime_update (\<lambda>_. newOnTime)) st))),
                             newOnTime, offWaitT)))
            in (Success,
                if onT1 < MAX_ON_OFF_TIME_VALUE \<and> offT1 < MAX_ON_OFF_TIME_VALUE
                then scheduleTimerCallbackMs ep (ucast ON_OFF_UPDATE_TIME_MS)
                       (st1\<lparr>nextDesiredOnWithTimedOffTimestamp := now env + ON_OFF_UPDATE_TIME_MS\<rparr>)
                else st1))))"

definition updateOnOffTimeCommand where
  "updateOnOffTimeCommand lvl eff env ep st =
     (if readOr (OnOff_Get ep (app st))
      then (let (wait, st1) = calculateNextWaitTimeMS env st;
                st2 = scheduleTimerCallbackMs ep wait st1;
                t0 = onTime (oo st2 ep);
                (t, st3) = (if t0 > 0 then (t0 - 1, setOO ep (onTime_update (\<lambda>_. t0 - 1)) st2) else (t0, st2))
            in if t = 0
               then snd (setOnOffValue lvl eff env ep cmdOff False (setOO ep (offWaitTime_update (\<lambda>_. 0)) st3))
               else st3)
      else
        (let t0 = (if isServed ep st then offWaitTime (oo st ep) else 0);
             (t, st1) = (if t0 > 0 then (t0 - 1, setOO ep (offWaitTime_update (\<lambda>_. t0 - 1)) st) else (t0, st))
         in if t > 0
            then (let (wait, st2) = calculateNextWaitTimeMS env st1 in scheduleTimerCallbackMs ep wait st2)
            else cancelEndpointTimerCallback ep st1))"

text \<open>The timer of an endpoint expires.\<close>

definition onOffTimerFires where
  "onOffTimerFires lvl eff env ep st =
     (if ooTimer st ep = None then st
      else updateOnOffTimeCommand lvl eff env ep (st\<lparr>ooTimer := (ooTimer st)(ep := None)\<rparr>))"

section \<open>What the server writes\<close>

lemma OnOff_Get_Set [simp]:
  "OnOff_Get e (OnOff_Set env ep v st) =
     (if e = ep then map_option (\<lambda>_. v) (OnOff_Get ep st) else OnOff_Get e st)"
  by (auto simp: OnOff_Get_def)

lemma Set_out: "OnOff_Get ep st \<noteq> None \<Longrightarrow> lastOut pin (gpio (OnOff_Set env ep v st)) =
     (if relayPin (u8Config st) ep = Some pin then Some (if v then 1 else 0) else lastOut pin (gpio st))"
  unfolding OnOff_Set_def using callback_out [of pin env ep v "st\<lparr>onOff := (onOff st)(ep := Some v)\<rparr>"]
  by (simp only: if_False) simp

lemma shown_Set: "OnOff_Get ep st \<noteq> None \<Longrightarrow> shown (OnOff_Set env ep v st) ep"
  by (auto simp: shown_def Set_out split: option.split)

lemma app_simps [simp]:
  "app (setOO ep f st) = app st" "app (cancelEndpointTimerCallback ep st) = app st"
  "app (scheduleTimerCallbackMs ep d st) = app st" "app (setApp env ep v st) = OnOff_Set env ep v (app st)"
  "app (snd (calculateNextWaitTimeMS env st)) = app st" "app (triggerEffect ep a b st) = app st"
  by (simp_all add: setOO_def cancelEndpointTimerCallback_def scheduleTimerCallbackMs_def setApp_def
      calculateNextWaitTimeMS_def triggerEffect_def Let_def split: option.split)

lemma served_simps [simp]:
  "isServed e (setOO ep f st) = isServed e st" "isServed e (setApp env ep v st) = isServed e st"
  "isServed e (cancelEndpointTimerCallback ep st) = isServed e st"
  "isServed e (scheduleTimerCallbackMs ep d st) = isServed e st"
  by (auto simp: isServed_def)

section \<open>The contract with Level Control\<close>

text \<open>An invariant that reads nothing of the server's own bookkeeping and survives writes of the on/off
  attribute.  The effect must keep it; when it is asked to turn on, the attribute is already on.\<close>

locale level_effect =
  fixes lvl :: "'a onOffServer_scheme \<Rightarrow> EndpointId \<Rightarrow> bool"
    and eff :: "appEnv \<Rightarrow> EndpointId \<Rightarrow> bool \<Rightarrow> 'a onOffServer_scheme \<Rightarrow> 'a onOffServer_scheme"
    and inv :: "'a onOffServer_scheme \<Rightarrow> bool"
  assumes inv_app: "inv st \<Longrightarrow> inv (st\<lparr>app := OnOff_Set env ep v (app st)\<rparr>)"
    and inv_oo: "inv (st\<lparr>oo := x\<rparr>) = inv st"
    and inv_ooTimer: "inv (st\<lparr>ooTimer := t\<rparr>) = inv st"
    and inv_next: "inv (st\<lparr>nextDesiredOnWithTimedOffTimestamp := n\<rparr>) = inv st"
    and inv_effects: "inv (st\<lparr>effects := es\<rparr>) = inv st"
    and inv_triggered: "inv (st\<lparr>triggered := es\<rparr>) = inv st"
    and eff_off: "inv st \<Longrightarrow> inv (eff env ep False st)"
    and eff_on: "inv st \<Longrightarrow> OnOff_Get ep (app st) = Some True \<Longrightarrow> inv (eff env ep True st)"
begin

lemma inv_setOO [simp]: "inv (setOO ep f st) = inv st"
  by (simp add: setOO_def inv_oo)

lemma inv_setApp: "inv st \<Longrightarrow> inv (setApp env ep v st)"
  by (simp add: setApp_def inv_app)

lemma inv_timers [simp]:
  "inv (cancelEndpointTimerCallback ep st) = inv st" "inv (scheduleTimerCallbackMs ep d st) = inv st"
  "inv (st\<lparr>nextDesiredOnWithTimedOffTimestamp := n\<rparr>) = inv st" "inv (st\<lparr>ooTimer := t\<rparr>) = inv st"
  by (simp_all add: cancelEndpointTimerCallback_def scheduleTimerCallbackMs_def inv_ooTimer inv_next)

lemma inv_trigger [simp]: "inv (triggerEffect ep a b st) = inv st"
  by (simp add: triggerEffect_def Let_def inv_effects inv_triggered split: option.split)

lemma inv_wait [simp]: "inv (snd (calculateNextWaitTimeMS env st)) = inv st"
  by (simp add: calculateNextWaitTimeMS_def Let_def)

lemma set_inv: "inv st \<Longrightarrow> inv (snd (setOnOffValue lvl eff env ep c b st))"
proof -
  assume i: "inv st"
  have on: "inv (eff env ep True (setApp env ep True s))" if "inv s" "OnOff_Get ep (app s) \<noteq> None" for s
    using that by (auto intro!: eff_on inv_setApp)
  show ?thesis
  proof (cases "OnOff_Get ep (app st)")
    case (Some v)
    then show ?thesis using i
      by (cases v) (auto simp: setOnOffValue_def Let_def intro!: on inv_setApp eff_off)
  qed (simp add: setOnOffValue_def i)
qed

lemma init_inv: "inv st \<Longrightarrow> inv (initOnOffServer lvl eff env ep st)"
  by (simp add: initOnOffServer_def set_inv split: option.split)

lemma commands_inv:
  "inv st \<Longrightarrow> inv (snd (offCommand lvl eff env ep st))"
  "inv st \<Longrightarrow> inv (snd (onCommand lvl eff env ep st))"
  "inv st \<Longrightarrow> inv (snd (toggleCommand lvl eff env ep st))"
  "inv st \<Longrightarrow> inv (snd (offWithEffectCommand lvl eff env ep a b st))"
  "inv st \<Longrightarrow> inv (snd (OnWithRecallGlobalSceneCommand lvl eff env ep st))"
  "inv st \<Longrightarrow> inv (snd (OnWithTimedOffCommand lvl eff env ep ctl t w st))"
  by (auto simp: offCommand_def onCommand_def toggleCommand_def offWithEffectCommand_def Let_def
      OnWithRecallGlobalSceneCommand_def OnWithTimedOffCommand_def set_inv split: prod.split)

lemma update_inv: "inv st \<Longrightarrow> inv (updateOnOffTimeCommand lvl eff env ep st)"
proof -
  assume i: "inv st"
  obtain w s where w: "calculateNextWaitTimeMS env st = (w, s)" by fastforce
  then have "inv s" using i inv_wait [of env st] by simp
  then show ?thesis using i
    by (auto simp: updateOnOffTimeCommand_def w Let_def set_inv split: prod.split)
       (use inv_wait in \<open>metis snd_conv inv_setOO\<close>)+
qed

lemma bookkeeping_inv [simp]:
  "inv (onOffServerShutdown ep st) = inv st" "inv (reg e st) = inv st" "inv (unreg a st) = inv st"
  by (simp_all add: onOffServerShutdown_def reg_def unreg_def inv_effects)

lemma timer_inv: "inv st \<Longrightarrow> inv (onOffTimerFires lvl eff env ep st)"
  by (simp add: onOffTimerFires_def update_inv)

end

end
