(* ===== verification/Level_Control.thy ===== *)
theory Level_Control
  imports OnOff_Server
begin

text \<open>
  The Level Control cluster server of \<^verbatim>\<open>src/app/clusters/level-control/level-control.cpp\<close>.  Level Control
  and On/Off call each other: this theory calls \<open>setOnOffValue\<close> of \<open>OnOff_Server\<close> with
  \<open>initiatedByLevelChange\<close> set, in which case it asks for no effect; the effect callback defined
  here is what the commands of the On/Off server are then given.  A failed \<open>assert\<close> and a division by
  zero are values of the type \<open>fault\<close>.  The coupled colour temperature and the Scenes plugin, and
  logging, are left out.
\<close>

section \<open>State\<close>

record CallbackScheduleState =
  idealTimestamp :: u64
  runTime :: u32

record EmberAfLevelControlState =
  commandId :: CommandId
  moveToLevel :: u8
  increasing :: bool
  onLevelState :: u8
  minLevel :: u8
  maxLevel :: u8
  storedLevel :: u16
  eventDurationMs :: u32
  transitionTimeMs :: u32
  elapsedTimeMs :: u32
  callbackSchedule :: CallbackScheduleState

text \<open>An endpoint with the cluster has a place in the state table and the attributes: \<open>None\<close> is an
  attribute that is absent or cannot be read, \<open>Some None\<close> a null value.  The code asks whether the optional
  attributes \<open>OnOffTransitionTime\<close> and \<open>OnLevel\<close> are present before it reads them; for these \<open>None\<close> is
  absence, and the two flags say whether an attribute that is present can be read.\<close>

record levelEp = EmberAfLevelControlState +
  CurrentLevel :: "u8 option option"
  RemainingTime :: "u16 option"
  MinLevel :: "u8 option"
  MaxLevel :: "u8 option"
  Options :: "u8 option"
  OnOffTransitionTime :: "u16 option"
  OnOffTransitionTimeReadable :: bool
  OnLevel :: "u8 option option"
  OnLevelReadable :: bool
  DefaultMoveRate :: "u8 option option"
  StartUpCurrentLevel :: "u8 option option"
  FeatureMap :: u32
  startUpLevelNonVolatile :: bool

record device = onOffServer +
  levels :: "EndpointId \<Rightarrow> levelEp option"
  levelTimer :: "EndpointId \<Rightarrow> u32 option"

datatype fault = AssertFailed | DivideByZero

definition cmdMoveToLevel :: CommandId where "cmdMoveToLevel = 0"
definition cmdMove :: CommandId where "cmdMove = 1"
definition cmdStep :: CommandId where "cmdStep = 2"
definition cmdStop :: CommandId where "cmdStop = 3"
definition cmdMoveToLevelWithOnOff :: CommandId where "cmdMoveToLevelWithOnOff = 4"
definition cmdMoveWithOnOff :: CommandId where "cmdMoveWithOnOff = 5"
definition cmdStepWithOnOff :: CommandId where "cmdStepWithOnOff = 6"
definition cmdStopWithOnOff :: CommandId where "cmdStopWithOnOff = 7"

definition PLUGIN_MINIMUM_LEVEL :: u8 where "PLUGIN_MINIMUM_LEVEL = 0"
definition PLUGIN_MAXIMUM_LEVEL :: u8 where "PLUGIN_MAXIMUM_LEVEL = 254"
definition FASTEST_TRANSITION_TIME_MS :: u32 where "FASTEST_TRANSITION_TIME_MS = 0"
definition MILLISECOND_TICKS_PER_SECOND :: u32 where "MILLISECOND_TICKS_PER_SECOND = 1000"
definition LEVEL_CONTROL_LIGHTING_MIN_LEVEL :: u8 where "LEVEL_CONTROL_LIGHTING_MIN_LEVEL = 1"
definition LEVEL_CONTROL_LIGHTING_MAX_LEVEL :: u8 where "LEVEL_CONTROL_LIGHTING_MAX_LEVEL = 0xFE"
definition INVALID_STORED_LEVEL :: u16 where "INVALID_STORED_LEVEL = 0xFFFF"
definition STARTUP_CURRENT_LEVEL_USE_DEVICE_MINIMUM :: u8 where "STARTUP_CURRENT_LEVEL_USE_DEVICE_MINIMUM = 0"

definition getState :: "EndpointId \<Rightarrow> device \<Rightarrow> levelEp option" where
  "getState ep st = (if endpointEnabled (app st) ep then levels st ep else None)"

definition updLevel :: "EndpointId \<Rightarrow> (levelEp \<Rightarrow> levelEp) \<Rightarrow> device \<Rightarrow> device" where
  "updLevel ep f st = (case getState ep st of None \<Rightarrow> st | Some s \<Rightarrow> st\<lparr>levels := (levels st)(ep \<mapsto> f s)\<rparr>)"

text \<open>A level of 255 is the stored form of null, which a write of a number refuses.  The first
  result says whether the write succeeded.\<close>

definition CurrentLevel_Set :: "EndpointId \<Rightarrow> u8 \<Rightarrow> device \<Rightarrow> bool \<times> device" where
  "CurrentLevel_Set ep v st =
     (case getState ep st of
        None \<Rightarrow> (False, st)
      | Some s \<Rightarrow>
          if v = 0xFF \<or> CurrentLevel s = None then (False, st)
          else (True, updLevel ep (CurrentLevel_update (\<lambda>_. Some (Some v))) st))"

text \<open>The attributes of the cluster that clients write.  A write fails if the attribute is absent; in a
  nullable attribute the number 255 is refused and null is stored.\<close>

definition writeLevelAttribute ::
    "EndpointId \<Rightarrow> (levelEp \<Rightarrow> bool) \<Rightarrow> (levelEp \<Rightarrow> levelEp) \<Rightarrow> device \<Rightarrow> bool \<times> device" where
  "writeLevelAttribute ep present f st =
     (case getState ep st of
        None \<Rightarrow> (False, st)
      | Some s \<Rightarrow> if present s then (True, updLevel ep f st) else (False, st))"

definition Options_Set :: "EndpointId \<Rightarrow> u8 \<Rightarrow> device \<Rightarrow> bool \<times> device" where
  "Options_Set ep v st = writeLevelAttribute ep (\<lambda>s. Options s \<noteq> None) (Options_update (\<lambda>_. Some v)) st"

definition OnOffTransitionTime_Set :: "EndpointId \<Rightarrow> u16 \<Rightarrow> device \<Rightarrow> bool \<times> device" where
  "OnOffTransitionTime_Set ep v st =
     writeLevelAttribute ep (\<lambda>s. OnOffTransitionTime s \<noteq> None) (OnOffTransitionTime_update (\<lambda>_. Some v)) st"

definition OnLevel_Set :: "EndpointId \<Rightarrow> u8 option \<Rightarrow> device \<Rightarrow> bool \<times> device" where
  "OnLevel_Set ep v st =
     (if v = Some 0xFF then (False, st)
      else writeLevelAttribute ep (\<lambda>s. OnLevel s \<noteq> None) (OnLevel_update (\<lambda>_. Some v)) st)"

definition DefaultMoveRate_Set :: "EndpointId \<Rightarrow> u8 option \<Rightarrow> device \<Rightarrow> bool \<times> device" where
  "DefaultMoveRate_Set ep v st =
     (if v = Some 0xFF then (False, st)
      else writeLevelAttribute ep (\<lambda>s. DefaultMoveRate s \<noteq> None) (DefaultMoveRate_update (\<lambda>_. Some v)) st)"

definition StartUpCurrentLevel_Set :: "EndpointId \<Rightarrow> u8 option \<Rightarrow> device \<Rightarrow> bool \<times> device" where
  "StartUpCurrentLevel_Set ep v st =
     (if v = Some 0xFF then (False, st)
      else writeLevelAttribute ep (\<lambda>s. StartUpCurrentLevel s \<noteq> None) (StartUpCurrentLevel_update (\<lambda>_. Some v)) st)"

definition LevelControlHasFeature :: "EndpointId \<Rightarrow> u32 \<Rightarrow> device \<Rightarrow> bool" where
  "LevelControlHasFeature ep feature st =
     (case getState ep st of None \<Rightarrow> False | Some s \<Rightarrow> FeatureMap s AND feature \<noteq> 0)"

definition LevelControlWithOnOffFeaturePresent :: "device \<Rightarrow> EndpointId \<Rightarrow> bool" where
  "LevelControlWithOnOffFeaturePresent st ep = LevelControlHasFeature ep 1 st"

section \<open>Timers\<close>

definition computeCallbackWaitTimeMs ::
    "u64 \<Rightarrow> u32 \<Rightarrow> CallbackScheduleState \<Rightarrow> u32 \<times> CallbackScheduleState" where
  "computeCallbackWaitTimeMs currentTime delay cs =
     (let ideal = (if runTime cs \<noteq> 0 then idealTimestamp cs else currentTime);
          waitTime =
            (if runTime cs \<noteq> 0 \<and> currentTime > idealTimestamp cs \<and> runTime cs < delay
             then (let latency = currentTime - idealTimestamp cs
                   in if latency \<ge> ucast delay then 0 else delay - ucast latency)
             else delay)
      in (waitTime, \<lparr>idealTimestamp = ideal + ucast delay, runTime = 0\<rparr>))"

definition scheduleLevelTimer :: "EndpointId \<Rightarrow> u32 \<Rightarrow> device \<Rightarrow> device" where
  "scheduleLevelTimer ep delay st = st\<lparr>levelTimer := (levelTimer st)(ep := Some delay)\<rparr>"

definition cancelLevelTimer :: "EndpointId \<Rightarrow> device \<Rightarrow> device" where
  "cancelLevelTimer ep st = st\<lparr>levelTimer := (levelTimer st)(ep := None)\<rparr>"

definition scheduleNext :: "u64 \<Rightarrow> EndpointId \<Rightarrow> device \<Rightarrow> device" where
  "scheduleNext t ep st =
     (case getState ep st of
        None \<Rightarrow> st
      | Some s \<Rightarrow>
          (let (wait, cs) = computeCallbackWaitTimeMs t (eventDurationMs s) (callbackSchedule s)
           in scheduleLevelTimer ep wait (updLevel ep (callbackSchedule_update (\<lambda>_. cs)) st)))"

definition writeRemainingTime :: "EndpointId \<Rightarrow> u16 \<Rightarrow> device \<Rightarrow> device" where
  "writeRemainingTime ep remainingTimeMs st =
     updLevel ep (RemainingTime_update (map_option (\<lambda>_. word_of_nat ((unat remainingTimeMs + 99) div 100)))) st"

definition setRunTime :: "EndpointId \<Rightarrow> u32 \<Rightarrow> device \<Rightarrow> device" where
  "setRunTime ep t st = updLevel ep (\<lambda>s. s\<lparr>callbackSchedule := (callbackSchedule s)\<lparr>runTime := t\<rparr>\<rparr>) st"

definition levelSetOnOffValue :: "appEnv \<Rightarrow> EndpointId \<Rightarrow> bool \<Rightarrow> device \<Rightarrow> device" where
  "levelSetOnOffValue env ep on st =
     (if isServed ep st
      then snd (setOnOffValue LevelControlWithOnOffFeaturePresent (\<lambda>_ _ _ s. s) env ep
                  (if on then cmdOn else cmdOff) True st)
      else st)"

section \<open>The tick\<close>

text \<open>The next level, \<open>None\<close> if an assertion fails.\<close>

definition nextLevel :: "levelEp \<Rightarrow> u8 \<Rightarrow> u8 option" where
  "nextLevel s cur =
     (if transitionTimeMs s = 0 then Some (moveToLevel s)
      else if increasing s then (if cur < maxLevel s \<and> cur < moveToLevel s then Some (cur + 1) else None)
      else (if minLevel s < cur \<and> moveToLevel s < cur then Some (cur - 1) else None))"

definition finishTick :: "EndpointId \<Rightarrow> device \<Rightarrow> device" where
  "finishTick ep st = writeRemainingTime ep 0 (setRunTime ep 0 st)"

definition atTarget :: "appEnv \<Rightarrow> EndpointId \<Rightarrow> levelEp \<Rightarrow> u8 \<Rightarrow> device \<Rightarrow> device" where
  "atTarget env ep s new st =
     (let st1 = (if commandId s = cmdMoveToLevelWithOnOff \<or> commandId s = cmdMoveWithOnOff \<or> commandId s = cmdStepWithOnOff
                 then levelSetOnOffValue env ep (new \<noteq> minLevel s) st else st);
          st2 = (if storedLevel s \<noteq> INVALID_STORED_LEVEL then snd (CurrentLevel_Set ep (ucast (storedLevel s)) st1) else st1)
      in finishTick ep st2)"

text \<open>The clock is read three times: when the callback starts (\<open>now env\<close>), when it ends (\<open>tEnd\<close>) and
  when the next one is scheduled (\<open>tNext\<close>).\<close>

definition TickCallback :: "appEnv \<Rightarrow> u64 \<Rightarrow> u64 \<Rightarrow> EndpointId \<Rightarrow> device \<Rightarrow> fault + device" where
  "TickCallback env tEnd tNext ep st =
     (case getState ep st of
        None \<Rightarrow> Inr st
      | Some s0 \<Rightarrow>
          (let s = s0\<lparr>elapsedTimeMs := elapsedTimeMs s0 + eventDurationMs s0\<rparr>;
               st1 = updLevel ep (\<lambda>_. s) st
           in case CurrentLevel s of
                Some (Some cur) \<Rightarrow>
                  (case nextLevel s cur of
                     None \<Rightarrow> Inl AssertFailed
                   | Some new \<Rightarrow>
                       (case CurrentLevel_Set ep new st1 of
                          (ok, st2) \<Rightarrow>
                            if \<not> ok then Inr (finishTick ep st2)
                            else if new = moveToLevel s then Inr (atTarget env ep s new st2)
                            else Inr (scheduleNext tNext ep
                                   (writeRemainingTime ep (ucast (transitionTimeMs s - elapsedTimeMs s))
                                      (setRunTime ep (ucast (tEnd - now env)) st2)))))
              | _ \<Rightarrow> Inr (finishTick ep st1)))"

text \<open>The timer of an endpoint expires.\<close>

definition levelTimerFires :: "appEnv \<Rightarrow> u64 \<Rightarrow> u64 \<Rightarrow> EndpointId \<Rightarrow> device \<Rightarrow> fault + device" where
  "levelTimerFires env tEnd tNext ep st =
     (if levelTimer st ep = None then Inr st else TickCallback env tEnd tNext ep (cancelLevelTimer ep st))"

section \<open>Commands\<close>

definition shouldExecuteIfOff :: "EndpointId \<Rightarrow> CommandId \<Rightarrow> u8 option \<Rightarrow> u8 option \<Rightarrow> device \<Rightarrow> bool" where
  "shouldExecuteIfOff ep cmd optionsMask optionsOverride st =
     (case Option.bind (getState ep st) Options of
        None \<Rightarrow> True
      | Some opts \<Rightarrow>
          if cmd > cmdStop then True
          else (case OnOff_Get ep (app st) of
                  None \<Rightarrow> True
                | Some on \<Rightarrow>
                    if on then True
                    else (case (optionsMask, optionsOverride) of
                            (Some om, Some ov) \<Rightarrow> if bit om 0 then bit ov 0 else bit opts 0
                          | _ \<Rightarrow> bit opts 0)))"

text \<open>The end of every handler that starts a transition.\<close>

definition startTransition :: "appEnv \<Rightarrow> EndpointId \<Rightarrow> u32 \<Rightarrow> u32 \<Rightarrow> u16 \<Rightarrow> device \<Rightarrow> device" where
  "startTransition env ep transition eventDuration stored st =
     scheduleNext (now env) ep
       (setRunTime ep 0
         (updLevel ep (\<lambda>s. s\<lparr>transitionTimeMs := transition, eventDurationMs := eventDuration,
                             elapsedTimeMs := 0, storedLevel := stored\<rparr>) st))"

text \<open>If the level is decreasing, the on/off attribute is left unchanged.\<close>

definition turnWithLevel :: "appEnv \<Rightarrow> EndpointId \<Rightarrow> bool \<Rightarrow> u8 \<Rightarrow> u8 \<Rightarrow> u8 \<Rightarrow> device \<Rightarrow> device" where
  "turnWithLevel env ep withOnOff cur target lowest st =
     (if cur \<le> target \<and> withOnOff then levelSetOnOffValue env ep (target \<noteq> lowest) st else st)"

definition decisecondsToMs :: "u16 \<Rightarrow> u32" where
  "decisecondsToMs t = ucast t * MILLISECOND_TICKS_PER_SECOND div 10"

definition moveTarget :: "levelEp \<Rightarrow> u8 \<Rightarrow> u8" where
  "moveTarget s level =
     (if maxLevel s \<le> level then maxLevel s else if level \<le> minLevel s then minLevel s else level)"

text \<open>The transition time of the command, or of the attribute; \<open>None\<close> if the attribute cannot be read.\<close>

definition transitionFor :: "levelEp \<Rightarrow> u16 option \<Rightarrow> u32 option" where
  "transitionFor s transitionTimeDs =
     (case transitionTimeDs of
        None \<Rightarrow> (case OnOffTransitionTime s of
                   None \<Rightarrow> Some FASTEST_TRANSITION_TIME_MS
                 | Some t \<Rightarrow> if OnOffTransitionTimeReadable s then Some (decisecondsToMs t) else None)
      | Some t \<Rightarrow> Some (decisecondsToMs t))"

text \<open>The step size is never zero where \<open>moveToLevelHandler\<close> divides by it.\<close>

definition moveToLevelHandler ::
    "appEnv \<Rightarrow> EndpointId \<Rightarrow> CommandId \<Rightarrow> u8 \<Rightarrow> u16 option \<Rightarrow> u8 option \<Rightarrow> u8 option \<Rightarrow> u16 \<Rightarrow> device \<Rightarrow> imStatus \<times> device" where
  "moveToLevelHandler env ep cmd level transitionTimeDs optionsMask optionsOverride stored st =
     (case getState ep st of
        None \<Rightarrow> (Failure, st)
      | Some s \<Rightarrow>
          if level > PLUGIN_MAXIMUM_LEVEL then (InvalidCommand, st)
          else if \<not> shouldExecuteIfOff ep cmd optionsMask optionsOverride st then (Success, st)
          else
            (let st1 = cancelLevelTimer ep st in
             case CurrentLevel s of
               None \<Rightarrow> (UnsupportedAttribute, st1)
             | Some None \<Rightarrow> (Failure, st1)
             | Some (Some cur) \<Rightarrow>
                 (let target = moveTarget s level;
                      st2 = updLevel ep (\<lambda>s. s\<lparr>commandId := cmd, moveToLevel := target\<rparr>) st1;
                      st3 = turnWithLevel env ep (cmd = cmdMoveToLevelWithOnOff) cur target (minLevel s) st2
                  in if cur = target then (Success, st3)
                     else
                       (let actualStepSize = (if cur < target then target - cur else cur - target);
                            st4 = updLevel ep (increasing_update (\<lambda>_. cur < target)) st3
                        in case transitionFor s transitionTimeDs of
                             None \<Rightarrow> (UnsupportedAttribute, st4)
                           | Some transition \<Rightarrow>
                               (let st5 = startTransition env ep transition (transition div ucast actualStepSize) stored st4
                                in (Success,
                                    if cmd = cmdMoveToLevelWithOnOff \<and> target \<noteq> minLevel s \<and> SupportsLightingApplications ep st5
                                    then setOO ep (globalSceneControl_update (\<lambda>_. True)) st5 else st5))))))"

definition MoveToLevel where
  "MoveToLevel env ep level transitionTime optionsMask optionsOverride st =
     moveToLevelHandler env ep cmdMoveToLevel level transitionTime (Some optionsMask) (Some optionsOverride)
       INVALID_STORED_LEVEL st"

definition MoveToLevelWithOnOff where
  "MoveToLevelWithOnOff env ep level transitionTime optionsMask optionsOverride st =
     moveToLevelHandler env ep cmdMoveToLevelWithOnOff level transitionTime (Some optionsMask) (Some optionsOverride)
       INVALID_STORED_LEVEL st"

text \<open>The duration of one step of a Move command; \<open>Inr None\<close> means that there is nothing to do.\<close>

definition moveDuration :: "u8 option \<Rightarrow> u8 option option \<Rightarrow> fault + u32 option" where
  "moveDuration rate defaultRate =
     (case rate of
        None \<Rightarrow>
          (case defaultRate of
             Some (Some r) \<Rightarrow> if r = 0 then Inr None else Inr (Some (MILLISECOND_TICKS_PER_SECOND div ucast r))
           | _ \<Rightarrow> Inr (Some FASTEST_TRANSITION_TIME_MS))
      | Some r \<Rightarrow> if r = 0 then Inl DivideByZero else Inr (Some (MILLISECOND_TICKS_PER_SECOND div ucast r)))"

definition moveHandler ::
    "appEnv \<Rightarrow> EndpointId \<Rightarrow> CommandId \<Rightarrow> u8 \<Rightarrow> u8 option \<Rightarrow> u8 option \<Rightarrow> u8 option \<Rightarrow> device \<Rightarrow> fault + imStatus \<times> device" where
  "moveHandler env ep cmd moveMode rate optionsMask optionsOverride st =
     (case getState ep st of
        None \<Rightarrow> Inr (Failure, st)
      | Some s \<Rightarrow>
          if \<not> shouldExecuteIfOff ep cmd optionsMask optionsOverride st then Inr (Success, st)
          else
            (let st1 = cancelLevelTimer ep st in
             case CurrentLevel s of
               None \<Rightarrow> Inr (UnsupportedAttribute, st1)
             | Some None \<Rightarrow> Inr (Failure, st1)
             | Some (Some cur) \<Rightarrow>
                 (let st2 = updLevel ep (commandId_update (\<lambda>_. cmd)) st1 in
                  if moveMode \<noteq> 0 \<and> moveMode \<noteq> 1 then Inr (InvalidCommand, st2)
                  else
                    (let up = (moveMode = 0);
                         target = (if up then maxLevel s else minLevel s);
                         difference = (if up then maxLevel s - cur else cur - minLevel s);
                         st3 = updLevel ep (\<lambda>s. s\<lparr>increasing := up, moveToLevel := target\<rparr>) st2;
                         st4 = turnWithLevel env ep (cmd = cmdMoveWithOnOff) cur target (minLevel s) st3
                     in if cur = target then Inr (Success, st4)
                        else (case moveDuration rate (DefaultMoveRate s) of
                                Inl f \<Rightarrow> Inl f
                              | Inr None \<Rightarrow> Inr (Success, st4)
                              | Inr (Some d) \<Rightarrow>
                                  Inr (Success, startTransition env ep (ucast difference * d) d INVALID_STORED_LEVEL st4))))))"

text \<open>Target and size of a step; the comparisons are on \<open>int\<close>.\<close>

definition stepTarget :: "levelEp \<Rightarrow> u8 \<Rightarrow> bool \<Rightarrow> u8 \<Rightarrow> u8 \<times> u8" where
  "stepTarget s cur up stepSize =
     (if up
      then (if uint (maxLevel s) - uint cur < uint stepSize then (maxLevel s, maxLevel s - cur) else (cur + stepSize, stepSize))
      else (if uint cur - uint (minLevel s) < uint stepSize then (minLevel s, cur - minLevel s) else (cur - stepSize, stepSize)))"

definition stepTransition :: "u16 option \<Rightarrow> u8 \<Rightarrow> u8 \<Rightarrow> fault + u32" where
  "stepTransition transitionTimeDs stepSize actualStepSize =
     (case transitionTimeDs of
        None \<Rightarrow> Inr FASTEST_TRANSITION_TIME_MS
      | Some t \<Rightarrow>
          if stepSize \<noteq> actualStepSize
          then (if stepSize = 0 then Inl DivideByZero
                else Inr (decisecondsToMs t * ucast actualStepSize div ucast stepSize))
          else Inr (decisecondsToMs t))"

definition stepHandler ::
    "appEnv \<Rightarrow> EndpointId \<Rightarrow> CommandId \<Rightarrow> u8 \<Rightarrow> u8 \<Rightarrow> u16 option \<Rightarrow> u8 option \<Rightarrow> u8 option \<Rightarrow> device \<Rightarrow> fault + imStatus \<times> device" where
  "stepHandler env ep cmd stepMode stepSize transitionTimeDs optionsMask optionsOverride st =
     (case getState ep st of
        None \<Rightarrow> Inr (Failure, st)
      | Some s \<Rightarrow>
          if \<not> shouldExecuteIfOff ep cmd optionsMask optionsOverride st then Inr (Success, st)
          else
            (let st1 = cancelLevelTimer ep st in
             case CurrentLevel s of
               None \<Rightarrow> Inr (UnsupportedAttribute, st1)
             | Some None \<Rightarrow> Inr (Failure, st1)
             | Some (Some cur) \<Rightarrow>
                 (let st2 = updLevel ep (commandId_update (\<lambda>_. cmd)) st1 in
                  if stepMode \<noteq> 0 \<and> stepMode \<noteq> 1 then Inr (InvalidCommand, st2)
                  else
                    (let up = (stepMode = 0);
                         (target, actualStepSize) = stepTarget s cur up stepSize;
                         st3 = updLevel ep (\<lambda>s. s\<lparr>increasing := up, moveToLevel := target\<rparr>) st2;
                         st4 = turnWithLevel env ep (cmd = cmdStepWithOnOff) cur target (minLevel s) st3
                     in if cur = target then Inr (Success, st4)
                        else (case stepTransition transitionTimeDs stepSize actualStepSize of
                                Inl f \<Rightarrow> Inl f
                              | Inr t \<Rightarrow>
                                  if actualStepSize = 0 then Inl DivideByZero
                                  else Inr (Success, startTransition env ep t (t div ucast actualStepSize)
                                                       INVALID_STORED_LEVEL st4))))))"

definition stopHandler :: "EndpointId \<Rightarrow> CommandId \<Rightarrow> u8 option \<Rightarrow> u8 option \<Rightarrow> device \<Rightarrow> imStatus \<times> device" where
  "stopHandler ep cmd optionsMask optionsOverride st =
     (case getState ep st of
        None \<Rightarrow> (Failure, st)
      | Some s \<Rightarrow>
          if \<not> shouldExecuteIfOff ep cmd optionsMask optionsOverride st then (Success, st)
          else (Success, writeRemainingTime ep 0 (cancelLevelTimer ep st)))"

section \<open>The effect of an On or Off command\<close>

definition LevelControlEffectCallback :: "appEnv \<Rightarrow> EndpointId \<Rightarrow> bool \<Rightarrow> device \<Rightarrow> device" where
  "LevelControlEffectCallback env ep newValue st =
     (case getState ep st of
        None \<Rightarrow> st
      | Some s \<Rightarrow>
          (case CurrentLevel s of
             Some (Some cur) \<Rightarrow>
               if OnLevel s \<noteq> None \<and> \<not> OnLevelReadable s then st
               else if OnOffTransitionTime s \<noteq> None \<and> \<not> OnOffTransitionTimeReadable s then st
               else
                 (let (resolved, useOnLevel) =
                        (case OnLevel s of Some (Some l) \<Rightarrow> (l, True) | _ \<Rightarrow> (cur, False));
                      transitionTime = OnOffTransitionTime s
                  in if newValue
                     then (case CurrentLevel_Set ep (minLevel s) st of
                             (ok, st1) \<Rightarrow>
                               if ok then snd (moveToLevelHandler env ep cmdMoveToLevel resolved transitionTime None None
                                                 INVALID_STORED_LEVEL st1)
                               else st1)
                     else snd (moveToLevelHandler env ep cmdMoveToLevelWithOnOff (minLevel s) transitionTime None None
                                 (if useOnLevel then INVALID_STORED_LEVEL else ucast cur) st))
           | _ \<Rightarrow> st))"

section \<open>Start and shutdown\<close>

definition levelRange :: "levelEp \<Rightarrow> u8 \<times> u8" where
  "levelRange s =
     (let lo = (case MinLevel s of None \<Rightarrow> PLUGIN_MINIMUM_LEVEL | Some v \<Rightarrow> v);
          hi = (case MaxLevel s of None \<Rightarrow> PLUGIN_MAXIMUM_LEVEL | Some v \<Rightarrow> v)
      in if FeatureMap s AND 2 \<noteq> 0
         then (if lo < LEVEL_CONTROL_LIGHTING_MIN_LEVEL then LEVEL_CONTROL_LIGHTING_MIN_LEVEL else lo,
               if hi > LEVEL_CONTROL_LIGHTING_MAX_LEVEL then LEVEL_CONTROL_LIGHTING_MAX_LEVEL else hi)
         else (lo, hi))"

definition initLevels :: "EndpointId \<Rightarrow> device \<Rightarrow> device" where
  "initLevels ep st = updLevel ep (\<lambda>s. s\<lparr>minLevel := fst (levelRange s), maxLevel := snd (levelRange s)\<rparr>) st"

text \<open>The level the server starts with: the level to start with, or the previous one.\<close>

definition startLevel :: "levelEp \<Rightarrow> u8 option \<Rightarrow> u8 option" where
  "startLevel s previous =
     (case StartUpCurrentLevel s of
        Some (Some v) \<Rightarrow>
          if v = STARTUP_CURRENT_LEVEL_USE_DEVICE_MINIMUM then Some (minLevel s)
          else if v < minLevel s then Some (minLevel s)
          else if v > maxLevel s then Some (maxLevel s) else Some v
      | _ \<Rightarrow> previous)"

definition applyStartUp :: "EndpointId \<Rightarrow> levelEp \<Rightarrow> u8 option \<Rightarrow> device \<Rightarrow> u8 option \<times> device" where
  "applyStartUp ep s previous st =
     (if startUpLevelNonVolatile s \<and> StartUpCurrentLevel s \<noteq> None
      then (let l = startLevel s previous
            in (l, case l of Some v \<Rightarrow> snd (CurrentLevel_Set ep v st)
                   | None \<Rightarrow> updLevel ep (CurrentLevel_update (\<lambda>_. Some None)) st))
      else (previous, st))"

definition levelServerInit :: "EndpointId \<Rightarrow> device \<Rightarrow> device" where
  "levelServerInit ep st =
     (let st1 = initLevels ep st in
      case getState ep st1 of
        None \<Rightarrow> st1
      | Some s \<Rightarrow>
          (case CurrentLevel s of
             None \<Rightarrow> st1
           | Some previous \<Rightarrow>
               (let (current, st2) = applyStartUp ep s previous st1
                in case current of
                     None \<Rightarrow> snd (CurrentLevel_Set ep (minLevel s) st2)
                   | Some v \<Rightarrow>
                       if v < minLevel s then snd (CurrentLevel_Set ep (minLevel s) st2)
                       else if v > maxLevel s then snd (CurrentLevel_Set ep (maxLevel s) st2)
                       else st2)))"

definition levelServerShutdown :: "EndpointId \<Rightarrow> device \<Rightarrow> device" where
  "levelServerShutdown ep st = cancelLevelTimer ep st"

section \<open>What the parts leave alone\<close>

lemma served_frames [simp]:
  "levels (setOO ep f st) = levels st" "levels (setApp env ep v st) = levels st"
  "levels (cancelEndpointTimerCallback ep st) = levels st"
  "levelTimer (setOO ep f st) = levelTimer st" "levelTimer (setApp env ep v st) = levelTimer st"
  "levelTimer (cancelEndpointTimerCallback ep st) = levelTimer st"
  by (simp_all add: setOO_def setApp_def cancelEndpointTimerCallback_def)

lemma set_frames [simp]:
  "levels (snd (setOnOffValue lvl eff env ep c True st)) = levels st"
  "levelTimer (snd (setOnOffValue lvl eff env ep c True st)) = levelTimer st"
  "endpointEnabled (app (snd (setOnOffValue lvl eff env ep c True st))) = endpointEnabled (app st)"
  by (simp_all add: setOnOffValue_def Let_def split: option.split)

lemma levelSet_frames [simp]:
  "levels (levelSetOnOffValue env ep v st) = levels st"
  "levelTimer (levelSetOnOffValue env ep v st) = levelTimer st"
  "endpointEnabled (app (levelSetOnOffValue env ep v st)) = endpointEnabled (app st)"
  by (simp_all add: levelSetOnOffValue_def)

lemma levelSet_value:
  "OnOff_Get ep (app (levelSetOnOffValue env ep v st)) = map_option (\<lambda>_. v) (OnOff_Get ep (app st))"
  by (cases v; cases "OnOff_Get ep (app st)")
     (auto simp: levelSetOnOffValue_def isServed_def setOnOffValue_def Let_def cmdOn_def cmdOff_def)

lemma levelSet_shown:
  "shown (app st) ep \<or> OnOff_Get ep (app st) = Some (\<not> v) \<Longrightarrow> shown (app (levelSetOnOffValue env ep v st)) ep"
  by (cases v; cases "OnOff_Get ep (app st)")
     (auto simp: levelSetOnOffValue_def isServed_def setOnOffValue_def Let_def shown_Set cmdOn_def cmdOff_def)

lemma levelSet_relayOk: "relayOk (app st) \<Longrightarrow> relayOk (app (levelSetOnOffValue env ep v st))"
  by (simp add: levelSetOnOffValue_def setOnOffValue_def Let_def relayOk_Set split: option.split)

lemma timer_frames [simp]:
  "levels (cancelLevelTimer ep st) = levels st" "app (cancelLevelTimer ep st) = app st"
  "levels (scheduleLevelTimer ep d st) = levels st" "app (scheduleLevelTimer ep d st) = app st"
  "levelTimer (cancelLevelTimer ep st) = (levelTimer st)(ep := None)"
  "levelTimer (scheduleLevelTimer ep d st) = (levelTimer st)(ep := Some d)"
  by (simp_all add: cancelLevelTimer_def scheduleLevelTimer_def)

lemma updLevel_frames [simp]:
  "app (updLevel ep f st) = app st" "levelTimer (updLevel ep f st) = levelTimer st"
  "oo (updLevel ep f st) = oo st"
  by (simp_all add: updLevel_def split: option.split)

lemma levels_updLevel:
  "levels (updLevel ep f st) =
     (if endpointEnabled (app st) ep then (levels st)(ep := map_option f (levels st ep)) else levels st)"
  by (auto simp: updLevel_def getState_def split: option.split)

lemma getState_simps [simp]:
  "getState e (updLevel ep f st) = (if e = ep then map_option f (getState ep st) else getState e st)"
  "getState e (cancelLevelTimer ep st) = getState e st" "getState e (scheduleLevelTimer ep d st) = getState e st"
  "getState e (levelSetOnOffValue env ep v st) = getState e st" "getState e (setOO ep g st) = getState e st"
  "getState e (setApp env ep v st) = getState e st"
  by (auto simp: getState_def levels_updLevel)

lemma getState_levels: "getState ep st = Some s \<Longrightarrow> levels st ep = Some s"
  by (simp add: getState_def split: if_splits)

text \<open>Only the level data and the timer of the endpoint are touched.\<close>

definition only :: "EndpointId \<Rightarrow> device \<Rightarrow> device \<Rightarrow> bool" where
  "only ep st st' \<longleftrightarrow> (\<forall>e. e \<noteq> ep \<longrightarrow> levels st' e = levels st e \<and> levelTimer st' e = levelTimer st e) \<and>
     endpointEnabled (app st') = endpointEnabled (app st)"

lemma only_refl [simp]: "only ep st st"
  by (simp add: only_def)

lemma only_trans: "only ep st st' \<Longrightarrow> only ep st' st'' \<Longrightarrow> only ep st st''"
  by (simp add: only_def)

lemma only_basic [simp]:
  "only ep st (updLevel ep f st')= only ep st st'" "only ep st (cancelLevelTimer ep st') = only ep st st'"
  "only ep st (scheduleLevelTimer ep d st') = only ep st st'"
  "only ep st (levelSetOnOffValue env e v st') = only ep st st'" "only ep st (setOO e g st') = only ep st st'"
  by (auto simp: only_def levels_updLevel)

lemma only_parts [simp]:
  "only ep st (writeRemainingTime ep r st') = only ep st st'" "only ep st (setRunTime ep t st') = only ep st st'"
  "only ep st (scheduleNext u ep st') = only ep st st'" "only ep st (finishTick ep st') = only ep st st'"
  "only ep st (startTransition env ep a b c st') = only ep st st'"
  "only ep st (snd (CurrentLevel_Set ep v st')) = only ep st st'"
  by (simp_all add: writeRemainingTime_def setRunTime_def scheduleNext_def finishTick_def startTransition_def
      CurrentLevel_Set_def split: option.split prod.split)

lemma part_app [simp]:
  "app (writeRemainingTime ep r st) = app st" "app (setRunTime ep t st) = app st" "app (finishTick ep st) = app st"
  "app (scheduleNext u ep st) = app st" "app (startTransition env ep a b c st) = app st"
  "app (snd (CurrentLevel_Set ep v st)) = app st"
  by (simp_all add: writeRemainingTime_def setRunTime_def scheduleNext_def finishTick_def startTransition_def
      CurrentLevel_Set_def split: option.split prod.split)

lemma part_timer [simp]:
  "levelTimer (writeRemainingTime ep r st) = levelTimer st" "levelTimer (setRunTime ep t st) = levelTimer st"
  "levelTimer (finishTick ep st) = levelTimer st" "levelTimer (snd (CurrentLevel_Set ep v st)) = levelTimer st"
  by (simp_all add: writeRemainingTime_def setRunTime_def finishTick_def CurrentLevel_Set_def split: option.split)

lemma turn_frames [simp]:
  "levels (turnWithLevel env ep w c t l st) = levels st" "levelTimer (turnWithLevel env ep w c t l st) = levelTimer st"
  "only e st' (turnWithLevel env ep w c t l st) = only e st' st"
  "getState e (turnWithLevel env ep w c t l st) = getState e st"
  by (simp_all add: turnWithLevel_def)

section \<open>The invariant\<close>

text \<open>What holds of a transition that a timer is driving from level \<open>cur\<close>, and of an endpoint with
  timer \<open>tm\<close>.\<close>

definition moving :: "levelEp \<Rightarrow> u8 \<Rightarrow> bool" where
  "moving s cur \<longleftrightarrow> minLevel s \<le> moveToLevel s \<and> moveToLevel s \<le> maxLevel s \<and> moveToLevel s \<noteq> cur \<and>
     (transitionTimeMs s \<noteq> 0 \<longrightarrow> increasing s = (cur < moveToLevel s)) \<and>
     (storedLevel s = INVALID_STORED_LEVEL \<or>
      (\<exists>l. storedLevel s = ucast l \<and> minLevel s \<le> l \<and> l \<le> maxLevel s))"

definition readable :: "levelEp \<Rightarrow> bool" where
  "readable s \<longleftrightarrow> OnOffTransitionTimeReadable s \<and> OnLevelReadable s"

lemma readable_simps [simp]:
  "readable (s\<lparr>CurrentLevel := a\<rparr>) = readable s" "readable (s\<lparr>elapsedTimeMs := b\<rparr>) = readable s"
  "readable (RemainingTime_update t s) = readable s" "readable (s\<lparr>callbackSchedule := d\<rparr>) = readable s"
  "readable (s\<lparr>commandId := e\<rparr>) = readable s" "readable (s\<lparr>moveToLevel := l\<rparr>) = readable s"
  "readable (s\<lparr>increasing := i\<rparr>) = readable s" "readable (s\<lparr>storedLevel := x\<rparr>) = readable s"
  "readable (s\<lparr>transitionTimeMs := tt\<rparr>) = readable s" "readable (s\<lparr>eventDurationMs := ed\<rparr>) = readable s"
  "readable (s\<lparr>minLevel := lo\<rparr>) = readable s" "readable (s\<lparr>maxLevel := hi\<rparr>) = readable s"
  by (simp_all add: readable_def)

lemma transitionFor_readable:
  "readable s \<Longrightarrow> transitionFor s t =
     Some (case if t = None then OnOffTransitionTime s else t of None \<Rightarrow> FASTEST_TRANSITION_TIME_MS | Some t \<Rightarrow> decisecondsToMs t)"
  by (simp add: transitionFor_def readable_def split: option.split)

definition epOk :: "bool \<Rightarrow> levelEp \<Rightarrow> bool" where
  "epOk run s \<longleftrightarrow> minLevel s \<le> maxLevel s \<and> maxLevel s \<le> 254 \<and> OnLevel s \<noteq> Some (Some 255) \<and> readable s \<and>
     (\<exists>cur. CurrentLevel s = Some (Some cur) \<and> minLevel s \<le> cur \<and> cur \<le> maxLevel s \<and> (run \<longrightarrow> moving s cur))"

definition levelsOk :: "device \<Rightarrow> bool" where
  "levelsOk st \<longleftrightarrow> (\<forall>ep s. levels st ep = Some s \<longrightarrow> epOk (levelTimer st ep \<noteq> None) s)"

lemma moving_simps [simp]:
  "moving (s\<lparr>CurrentLevel := a\<rparr>) cur = moving s cur" "moving (s\<lparr>elapsedTimeMs := b\<rparr>) cur = moving s cur"
  "moving (s\<lparr>RemainingTime := c\<rparr>) cur = moving s cur" "moving (s\<lparr>callbackSchedule := d\<rparr>) cur = moving s cur"
  by (simp_all add: moving_def)

lemma levelsOkD: "levelsOk st \<Longrightarrow> getState ep st = Some s \<Longrightarrow> epOk (levelTimer st ep \<noteq> None) s"
  by (simp add: levelsOk_def getState_levels)

lemma levelsOk_only:
  assumes "levelsOk st" "only ep st st'" "getState ep st \<noteq> None"
    "\<And>s. getState ep st' = Some s \<Longrightarrow> epOk (levelTimer st' ep \<noteq> None) s"
  shows "levelsOk st'"
  unfolding levelsOk_def
proof (intro allI impI)
  fix e s assume s: "levels st' e = Some s"
  show "epOk (levelTimer st' e \<noteq> None) s"
  proof (cases "e = ep")
    case True
    have "endpointEnabled (app st') ep" using assms(2,3) by (simp add: only_def getState_def split: if_splits)
    then show ?thesis using assms(4) [of s] s True by (simp add: getState_def)
  qed (use assms(1,2) s in \<open>simp add: only_def levelsOk_def\<close>)
qed

lemma levelsOk_cong: "levels st' = levels st \<Longrightarrow> levelTimer st' = levelTimer st \<Longrightarrow> levelsOk st' = levelsOk st"
  by (simp add: levelsOk_def)

lemma epOk_idle: "epOk r s \<Longrightarrow> epOk False s"
  by (auto simp: epOk_def)

lemma levelsOk_cancel: "levelsOk st \<Longrightarrow> levelsOk (cancelLevelTimer ep st)"
  using epOk_idle by (auto simp: levelsOk_def)

lemma levelsOk_set [simp]: "levelsOk (levelSetOnOffValue env ep v st) = levelsOk st" "levelsOk (setOO ep f st) = levelsOk st"
  by (simp_all add: levelsOk_def)

lemma levelsOk_idle:
  assumes "levelsOk st" "only ep st st'" "getState ep st = Some s" "getState ep st' = Some s'" "epOk False s'"
    "levelTimer st' ep = None"
  shows "levelsOk st'"
  by (rule levelsOk_only [OF assms(1,2)]) (use assms in simp_all)

lemma epOk_fields [simp]:
  "epOk False (s\<lparr>commandId := c\<rparr>) = epOk False s" "epOk False (s\<lparr>moveToLevel := l\<rparr>) = epOk False s"
  "epOk False (s\<lparr>increasing := b\<rparr>) = epOk False s" "epOk r (RemainingTime_update t s) = epOk r s"
  "epOk r (s\<lparr>callbackSchedule := cs\<rparr>) = epOk r s" "epOk r (s\<lparr>elapsedTimeMs := t'\<rparr>) = epOk r s"
  by (simp_all add: epOk_def moving_def)

lemma startTransition_state:
  "getState ep (startTransition env ep t d stored st) =
     map_option (\<lambda>s. s\<lparr>transitionTimeMs := t, eventDurationMs := d, elapsedTimeMs := 0, storedLevel := stored,
       callbackSchedule := \<lparr>idealTimestamp = now env + ucast d, runTime = 0\<rparr>\<rparr>) (getState ep st)"
  "getState ep st \<noteq> None \<Longrightarrow> levelTimer (startTransition env ep t d stored st) = (levelTimer st)(ep := Some d)"
  by (cases "getState ep st"; simp add: startTransition_def scheduleNext_def setRunTime_def
        computeCallbackWaitTimeMs_def Let_def)+

lemma startTransition_ok:
  assumes "levelsOk st" "only ep st st'" "getState ep st = Some s0" "getState ep st' = Some s" "epOk False s"
    "CurrentLevel s = Some (Some cur)" "moving (s\<lparr>transitionTimeMs := t, storedLevel := stored\<rparr>) cur"
  shows "levelsOk (startTransition env ep t d stored st')"
proof (rule levelsOk_only [OF assms(1)])
  fix s' assume "getState ep (startTransition env ep t d stored st') = Some s'"
  then have s': "s' = s\<lparr>transitionTimeMs := t, eventDurationMs := d, elapsedTimeMs := 0, storedLevel := stored,
       callbackSchedule := \<lparr>idealTimestamp = now env + ucast d, runTime = 0\<rparr>\<rparr>"
    using assms(4) by (simp add: startTransition_state)
  show "epOk (levelTimer (startTransition env ep t d stored st') ep \<noteq> None) s'"
    unfolding s' using assms(4-7) by (simp add: startTransition_state epOk_def moving_def)
qed (use assms(2,3) in simp_all)

section \<open>Every operation keeps the invariant\<close>

lemma moveTarget_range: "minLevel s \<le> maxLevel s \<Longrightarrow> minLevel s \<le> moveTarget s l \<and> moveTarget s l \<le> maxLevel s"
  by (auto simp: moveTarget_def)

definition storedOk :: "levelEp \<Rightarrow> u16 \<Rightarrow> bool" where
  "storedOk s x \<longleftrightarrow> x = INVALID_STORED_LEVEL \<or> (\<exists>l. x = ucast l \<and> minLevel s \<le> l \<and> l \<le> maxLevel s)"

lemma moveToLevel_ok:
  assumes ok: "levelsOk (cancelLevelTimer ep st)" and stored: "\<And>s. getState ep st = Some s \<Longrightarrow> storedOk s stored"
    and early: "levelsOk st \<or> getState ep st \<noteq> None \<and> level \<le> PLUGIN_MAXIMUM_LEVEL \<and> shouldExecuteIfOff ep cmd om ov st"
  shows "levelsOk (snd (moveToLevelHandler env ep cmd level t om ov stored st))"
proof (cases "getState ep st")
  case (Some s)
  have s0: "getState ep (cancelLevelTimer ep st) = Some s" using Some by simp
  from levelsOkD [OF ok s0] obtain cur where c: "CurrentLevel s = Some (Some cur)" "epOk False s"
      "minLevel s \<le> maxLevel s" "minLevel s \<le> cur" "cur \<le> maxLevel s"
    using epOk_idle by (auto simp: epOk_def)
  let ?t = "moveTarget s level"
  let ?s2 = "updLevel ep (\<lambda>s. s\<lparr>commandId := cmd, moveToLevel := ?t\<rparr>) (cancelLevelTimer ep st)"
  let ?s3 = "turnWithLevel env ep (cmd = cmdMoveToLevelWithOnOff) cur ?t (minLevel s) ?s2"
  have s3: "only ep (cancelLevelTimer ep st) ?s3" "getState ep ?s3 = Some (s\<lparr>commandId := cmd, moveToLevel := ?t\<rparr>)" "levelTimer ?s3 ep = None"
    using Some by simp_all
  have "levelsOk ?s3" by (rule levelsOk_idle [OF ok s3(1) s0 s3(2)]) (use c s3 in simp_all)
  moreover have "levelsOk (startTransition env ep tr d stored (updLevel ep (increasing_update (\<lambda>_. cur < ?t)) ?s3))"
    if "cur \<noteq> ?t" for tr d
    by (rule startTransition_ok [OF ok _ s0, where s = "s\<lparr>commandId := cmd, moveToLevel := ?t, increasing := cur < ?t\<rparr>" and cur = cur])
       (use that c Some moveTarget_range [of s level] stored [OF Some] in \<open>simp_all add: moving_def storedOk_def\<close>)
  moreover have "readable s" using c(2) by (simp add: epOk_def)
  ultimately show ?thesis using early Some c
    by (auto simp: moveToLevelHandler_def Let_def transitionFor_readable)
qed (use early in \<open>auto simp: moveToLevelHandler_def\<close>)

lemma only_moveToLevel [simp]: "only ep st (snd (moveToLevelHandler env ep cmd level t om ov stored st))"
  by (simp add: moveToLevelHandler_def Let_def split: option.split)

text \<open>The common part of Move and Step: aim at a level in range, in the direction of that level.\<close>

definition aimAt where
  "aimAt env ep cmd w cur up target lowest st =
     turnWithLevel env ep w cur target lowest
       (updLevel ep (\<lambda>s. s\<lparr>increasing := up, moveToLevel := target\<rparr>)
         (updLevel ep (commandId_update (\<lambda>_. cmd)) (cancelLevelTimer ep st)))"

lemma aimAt_frames [simp]:
  "only ep st' (aimAt env ep cmd w cur up target lo st) = only ep st' st"
  "getState ep (aimAt env ep cmd w cur up target lo st) =
     map_option (\<lambda>s. s\<lparr>commandId := cmd, increasing := up, moveToLevel := target\<rparr>) (getState ep st)"
  "levelTimer (aimAt env ep cmd w cur up target lo st) ep = None"
  by (cases "getState ep st"; simp add: aimAt_def)+

lemma aim_ok:
  assumes ok: "levelsOk st" and s: "getState ep st = Some s"
    and cur: "CurrentLevel s = Some (Some cur)"
    and target: "minLevel s \<le> target" "target \<le> maxLevel s"
    and up: "cur \<noteq> target \<Longrightarrow> up = (cur < target)"
  shows "levelsOk (aimAt env ep cmd w cur up target lo st)"
    and "cur \<noteq> target \<Longrightarrow>
      levelsOk (startTransition env ep t d INVALID_STORED_LEVEL (aimAt env ep cmd w cur up target lo st))"
proof -
  have e: "epOk False s" using levelsOkD [OF ok s] epOk_idle by blast
  show "levelsOk (aimAt env ep cmd w cur up target lo st)"
    by (rule levelsOk_idle [OF ok _ s, where s' = "s\<lparr>commandId := cmd, increasing := up, moveToLevel := target\<rparr>"])
       (use s e in simp_all)
  show "levelsOk (startTransition env ep t d INVALID_STORED_LEVEL (aimAt env ep cmd w cur up target lo st))"
    if "cur \<noteq> target"
    by (rule startTransition_ok [OF ok _ s, where s = "s\<lparr>commandId := cmd, increasing := up, moveToLevel := target\<rparr>"
          and cur = cur]) (use that s e cur target up in \<open>simp_all add: moving_def\<close>)
qed

lemma rangeD:
  assumes "levelsOk st" "getState ep st = Some s"
  obtains cur where "CurrentLevel s = Some (Some cur)" "epOk False s" "minLevel s \<le> maxLevel s" "maxLevel s \<le> 254"
    "minLevel s \<le> cur" "cur \<le> maxLevel s"
  using levelsOkD [OF assms] epOk_idle unfolding epOk_def by blast

lemma levelsOk_command: "levelsOk st \<Longrightarrow> levelsOk (updLevel ep (commandId_update (\<lambda>_. c)) (cancelLevelTimer ep st))"
proof (cases "getState ep st")
  case (Some s)
  assume ok: "levelsOk st"
  show ?thesis by (rule levelsOk_idle [OF ok _ Some]) (use Some levelsOkD [OF ok Some] epOk_idle in \<open>auto\<close>)
qed (simp add: updLevel_def levelsOk_cancel)

lemma move_ok:
  assumes ok: "levelsOk st" and run: "moveHandler env ep cmd mode rate om ov st = Inr (status, st')"
  shows "levelsOk st'"
proof (cases "getState ep st")
  case (Some s)
  from rangeD [OF ok Some] obtain cur where c: "CurrentLevel s = Some (Some cur)" "minLevel s \<le> maxLevel s"
    "minLevel s \<le> cur" "cur \<le> maxLevel s" by blast
  let ?w = "cmd = cmdMoveWithOnOff"
  have up: "levelsOk (aimAt env ep cmd ?w cur True (maxLevel s) (minLevel s) st)"
      "cur \<noteq> maxLevel s \<Longrightarrow> levelsOk (startTransition env ep t d INVALID_STORED_LEVEL
         (aimAt env ep cmd ?w cur True (maxLevel s) (minLevel s) st))" for t d
    by (rule aim_ok [OF ok Some c(1)]; use c in auto)+
  have down: "levelsOk (aimAt env ep cmd ?w cur False (minLevel s) (minLevel s) st)"
      "cur \<noteq> minLevel s \<Longrightarrow> levelsOk (startTransition env ep t d INVALID_STORED_LEVEL
         (aimAt env ep cmd ?w cur False (minLevel s) (minLevel s) st))" for t d
    by (rule aim_ok [OF ok Some c(1)]; use c in auto)+
  show ?thesis using run Some c(1) ok up down
    by (auto simp: moveHandler_def Let_def aimAt_def levelsOk_command split: if_splits sum.splits option.splits)
qed (use assms in \<open>simp add: moveHandler_def\<close>)

lemma stepTarget_range:
  assumes "minLevel s \<le> cur" "cur \<le> maxLevel s" "stepTarget s cur up sz = (t, a)"
  shows "minLevel s \<le> t \<and> t \<le> maxLevel s" "cur \<noteq> t \<Longrightarrow> up = (cur < t)" "cur \<noteq> t \<Longrightarrow> a \<noteq> 0 \<and> sz \<noteq> 0"
proof -
  have u: "uint x - uint y < uint z \<longleftrightarrow> unat x < unat y + unat z" for x y z :: u8
    unfolding uint_nat by linarith
  have add: "unat (cur + sz) = unat cur + unat sz" if "\<not> unat (maxLevel s) < unat cur + unat sz"
    using that unsigned_less [of "maxLevel s", where 'a = nat] by (subst unat_add_lem [symmetric]) simp
  have sub: "unat (cur - sz) = unat cur - unat sz" if "\<not> unat cur < unat (minLevel s) + unat sz"
    using that by (intro unat_sub) (simp add: word_le_nat_alt)
  have nz: "x - y \<noteq> 0" if "y \<noteq> x" for x y :: u8 using that by simp
  note n = word_le_nat_alt word_less_nat_alt
  show "minLevel s \<le> t \<and> t \<le> maxLevel s" using assms add sub
    by (auto simp: stepTarget_def u n split: if_splits)
  have "if up then cur \<le> t else t \<le> cur" using assms add sub
    by (auto simp: stepTarget_def u n split: if_splits)
  then show "up = (cur < t)" if "cur \<noteq> t" using that by (simp split: if_splits)
  show "a \<noteq> 0 \<and> sz \<noteq> 0" if "cur \<noteq> t" using that assms
    by (auto simp: stepTarget_def word_le_def split: if_splits)
qed

lemma step_ok:
  assumes ok: "levelsOk st" and run: "stepHandler env ep cmd mode sz t om ov st = Inr (status, st')"
  shows "levelsOk st'"
proof (cases "getState ep st")
  case (Some s)
  from rangeD [OF ok Some] obtain cur where c: "CurrentLevel s = Some (Some cur)" "minLevel s \<le> cur" "cur \<le> maxLevel s"
    by blast
  let ?up = "mode = 0" and ?w = "cmd = cmdStepWithOnOff"
  obtain target a where t: "stepTarget s cur ?up sz = (target, a)" by fastforce
  note r = stepTarget_range [OF c(2,3) t]
  have aim: "levelsOk (aimAt env ep cmd ?w cur ?up target (minLevel s) st)"
      "cur \<noteq> target \<Longrightarrow> levelsOk (startTransition env ep x d INVALID_STORED_LEVEL
         (aimAt env ep cmd ?w cur ?up target (minLevel s) st))" for x d
    by (rule aim_ok [OF ok Some c(1)]; use r in blast)+
  show ?thesis using run Some c(1) ok aim
    by (auto simp: stepHandler_def Let_def aimAt_def levelsOk_command t split: if_splits sum.splits option.splits)
qed (use assms in \<open>simp add: stepHandler_def\<close>)

lemma step_total: "levelsOk st \<Longrightarrow> \<exists>r. stepHandler env ep cmd mode sz t om ov st = Inr r"
proof (cases "getState ep st")
  case (Some s)
  assume ok: "levelsOk st"
  from rangeD [OF ok Some] obtain cur where c: "CurrentLevel s = Some (Some cur)" "minLevel s \<le> cur" "cur \<le> maxLevel s"
    by blast
  obtain target a where u: "stepTarget s cur (mode = 0) sz = (target, a)" by fastforce
  show ?thesis using c(1) Some stepTarget_range(3) [OF c(2,3) u]
    by (simp add: stepHandler_def Let_def u stepTransition_def split: option.split)
qed (simp add: stepHandler_def)

lemma move_total: "rate \<noteq> Some 0 \<Longrightarrow> \<exists>r. moveHandler env ep cmd mode rate om ov st = Inr r"
  by (simp add: moveHandler_def Let_def moveDuration_def split: option.split)

lemma stop_ok: "levelsOk st \<Longrightarrow> levelsOk (snd (stopHandler ep cmd om ov st))"
proof (cases "getState ep st")
  case (Some s)
  assume ok: "levelsOk st"
  have "levelsOk (writeRemainingTime ep 0 (cancelLevelTimer ep st))"
    by (rule levelsOk_only [OF ok, of ep])
      (use Some levelsOkD [OF ok Some] epOk_idle in \<open>auto simp: writeRemainingTime_def split: option.splits\<close>)
  then show ?thesis using ok Some by (simp add: stopHandler_def)
qed (simp add: stopHandler_def)

lemma u8_le_254: "l \<le> 254" if "l \<noteq> 255" for l :: u8
proof -
  have m: "(255 :: u8) = - 1" by simp
  have "l < 255" using that unfolding m by (simp add: word_order.not_eq_extremum [symmetric])
  then show ?thesis by (simp add: word_le_nat_alt word_less_nat_alt)
qed

lemma effect_ok:
  assumes ok: "levelsOk st" and on: "v \<Longrightarrow> OnOff_Get ep (app st) = Some True"
  shows "levelsOk (LevelControlEffectCallback env ep v st)"
proof (cases "getState ep st")
  case (Some s)
  from rangeD [OF ok Some] obtain cur where c: "CurrentLevel s = Some (Some cur)" "epOk False s"
    "minLevel s \<le> maxLevel s" "maxLevel s \<le> 254" "minLevel s \<le> cur" "cur \<le> maxLevel s" by blast
  have lo: "minLevel s \<noteq> 255" "cur \<le> 254" using c(3,4,5,6) by (auto simp: word_le_nat_alt)
  show ?thesis
  proof (cases v)
    case True
    let ?s = "updLevel ep (CurrentLevel_update (\<lambda>_. Some (Some (minLevel s)))) st"
    have s1: "levelsOk (cancelLevelTimer ep ?s)"
      by (rule levelsOk_idle [OF ok _ Some]) (use Some c in \<open>auto simp: epOk_def\<close>)
    have "l \<le> PLUGIN_MAXIMUM_LEVEL" if "OnLevel s = Some (Some l) \<or> l = cur" for l
      using that u8_le_254 c(2) lo by (auto simp: epOk_def PLUGIN_MAXIMUM_LEVEL_def)
    then have "levelsOk (snd (moveToLevelHandler env ep cmdMoveToLevel l t None None INVALID_STORED_LEVEL ?s))"
      if "OnLevel s = Some (Some l) \<or> l = cur" for l t
      by (intro moveToLevel_ok [OF s1])
         (use that on True Some in \<open>auto simp: storedOk_def shouldExecuteIfOff_def split: option.split\<close>)
    then show ?thesis using True Some c(1) lo ok
      by (simp add: LevelControlEffectCallback_def CurrentLevel_Set_def Let_def split: option.split prod.split)
  next
    case False
    have "levelsOk (snd (moveToLevelHandler env ep cmdMoveToLevelWithOnOff (minLevel s) t None None x st))"
      if "x = INVALID_STORED_LEVEL \<or> x = ucast cur" for t x
      by (rule moveToLevel_ok [OF levelsOk_cancel [OF ok]]) (use that Some c ok in \<open>auto simp: storedOk_def\<close>)
    then show ?thesis using False Some c(1) ok
      by (simp add: LevelControlEffectCallback_def Let_def split: option.split prod.split)
  qed
qed (simp add: LevelControlEffectCallback_def ok)

section \<open>One tick\<close>

lemma nextLevel_elapsed [simp]: "nextLevel (s\<lparr>elapsedTimeMs := x\<rparr>) cur = nextLevel s cur"
  by (simp add: nextLevel_def)

text \<open>How far a transition has to go.\<close>

definition togo :: "levelEp \<Rightarrow> u8 \<Rightarrow> nat" where
  "togo s cur = (if cur < moveToLevel s then unat (moveToLevel s) - unat cur else unat cur - unat (moveToLevel s))"

lemma next_moving:
  assumes "moving s cur" "minLevel s \<le> cur" "cur \<le> maxLevel s"
  obtains new where "nextLevel s cur = Some new" "minLevel s \<le> new" "new \<le> maxLevel s"
    "new = moveToLevel s \<or> moving s new \<and> togo s new < togo s cur"
proof (cases "transitionTimeMs s = 0")
  case True
  then show ?thesis using assms that by (auto simp: nextLevel_def moving_def)
next
  case False
  note n = word_le_nat_alt word_less_nat_alt
  show ?thesis
  proof (cases "cur < moveToLevel s")
    case up: True
    have u: "unat (cur + 1) = unat cur + 1"
      using up unsigned_less [of "moveToLevel s", where 'a = nat]
      by (subst unat_add_lem [THEN iffD1]) (auto simp: n)
    have "cur + 1 \<le> moveToLevel s" using up u by (simp add: n)
    then have "cur + 1 = moveToLevel s \<or> cur + 1 < moveToLevel s" by auto
    then show ?thesis using assms up False u
      by (intro that [of "cur + 1"]) (auto simp: nextLevel_def moving_def togo_def n)
  next
    case down: False
    then have d: "moveToLevel s < cur" using assms(1) by (auto simp: moving_def)
    have u: "unat (cur - 1) = unat cur - 1" using d by (intro unat_minus_one) auto
    have "moveToLevel s \<le> cur - 1" using d u by (simp add: n)
    then have "cur - 1 = moveToLevel s \<or> moveToLevel s < cur - 1" by auto
    then show ?thesis using assms d False u
      by (intro that [of "cur - 1"]) (auto simp: nextLevel_def moving_def togo_def n)
  qed
qed

definition ticked :: "EndpointId \<Rightarrow> levelEp \<Rightarrow> u8 \<Rightarrow> device \<Rightarrow> device" where
  "ticked ep s new st = updLevel ep (\<lambda>_. s\<lparr>elapsedTimeMs := elapsedTimeMs s + eventDurationMs s, CurrentLevel := Some (Some new)\<rparr>) st"

lemma ticked_frames [simp]:
  "app (ticked ep s new st) = app st" "levelTimer (ticked ep s new st) = levelTimer st"
  "only ep st' (ticked ep s new st) = only ep st' st"
  "getState ep st \<noteq> None \<Longrightarrow> getState ep (ticked ep s new st) =
     Some (s\<lparr>elapsedTimeMs := elapsedTimeMs s + eventDurationMs s, CurrentLevel := Some (Some new)\<rparr>)"
  by (auto simp: ticked_def)

lemma updLevel_twice: "updLevel ep f (updLevel ep g st) = updLevel ep (\<lambda>s. f (g s)) st"
  by (cases "getState ep st") (auto simp: updLevel_def getState_def split: if_splits)

lemma tick_eq:
  assumes "getState ep st = Some s" "CurrentLevel s = Some (Some cur)" "nextLevel s cur = Some new" "new \<noteq> 255"
  shows "TickCallback env tEnd tNext ep st =
    Inr (let s' = s\<lparr>elapsedTimeMs := elapsedTimeMs s + eventDurationMs s\<rparr>; st2 = ticked ep s new st in
         if new = moveToLevel s then atTarget env ep s' new st2
         else scheduleNext tNext ep
                (writeRemainingTime ep (ucast (transitionTimeMs s - elapsedTimeMs s')) (setRunTime ep (ucast (tEnd - now env)) st2)))"
  using assms by (simp add: TickCallback_def CurrentLevel_Set_def ticked_def updLevel_twice Let_def)

lemma continue_state:
  assumes "getState ep st = Some s"
  obtains rt cs d where
    "getState ep (scheduleNext u ep (writeRemainingTime ep r (setRunTime ep q st))) =
       Some (s\<lparr>RemainingTime := rt, callbackSchedule := cs\<rparr>)"
    "levelTimer (scheduleNext u ep (writeRemainingTime ep r (setRunTime ep q st))) = (levelTimer st)(ep := Some d)"
proof -
  obtain w cs where "computeCallbackWaitTimeMs u (eventDurationMs s) ((callbackSchedule s)\<lparr>runTime := q\<rparr>) = (w, cs)" by fastforce
  then show ?thesis using assms
    by (intro that [of cs "map_option (\<lambda>_. word_of_nat ((unat r + 99) div 100)) (RemainingTime s)" w])
       (simp_all add: scheduleNext_def writeRemainingTime_def setRunTime_def)
qed

lemma finish_state:
  assumes "getState ep st = Some s"
  obtains rt cs where "getState ep (finishTick ep st) = Some (s\<lparr>RemainingTime := rt, callbackSchedule := cs\<rparr>)"
  using assms by (intro that [of "(callbackSchedule s)\<lparr>runTime := 0\<rparr>" "map_option (\<lambda>_. 0) (RemainingTime s)"])
    (simp_all add: finishTick_def writeRemainingTime_def setRunTime_def)

definition withOnOff :: "levelEp \<Rightarrow> bool" where
  "withOnOff s \<longleftrightarrow> commandId s = cmdMoveToLevelWithOnOff \<or> commandId s = cmdMoveWithOnOff \<or> commandId s = cmdStepWithOnOff"

lemma atTarget_state:
  assumes "getState ep st = Some s" "CurrentLevel s = Some (Some new)"
    "storedLevel s = INVALID_STORED_LEVEL \<or> storedLevel s = ucast l \<and> l \<le> 254"
  obtains rt cs where
    "getState ep (atTarget env ep s new st) =
       Some (s\<lparr>CurrentLevel := Some (Some (if storedLevel s = INVALID_STORED_LEVEL then new else l)), RemainingTime := rt, callbackSchedule := cs\<rparr>)"
    "app (atTarget env ep s new st) = (if withOnOff s then app (levelSetOnOffValue env ep (new \<noteq> minLevel s) st) else app st)"
    "only ep st (atTarget env ep s new st)" "levelTimer (atTarget env ep s new st) = levelTimer st"
proof -
  let ?l = "if storedLevel s = INVALID_STORED_LEVEL then new else l"
  let ?s1 = "if withOnOff s then levelSetOnOffValue env ep (new \<noteq> minLevel s) st else st"
  let ?s2 = "if storedLevel s \<noteq> INVALID_STORED_LEVEL then snd (CurrentLevel_Set ep (ucast (storedLevel s)) ?s1) else ?s1"
  have "l \<noteq> 255" if "l \<le> 254" using that by (auto simp: word_le_nat_alt)
  then have g: "getState ep ?s2 = Some (s\<lparr>CurrentLevel := Some (Some ?l)\<rparr>)"
    using assms by (auto simp: CurrentLevel_Set_def ucast_down_ucast_id is_down)
  have eq: "atTarget env ep s new st = finishTick ep ?s2" by (simp add: atTarget_def withOnOff_def Let_def)
  obtain rt cs where r: "getState ep (finishTick ep ?s2) = Some (s\<lparr>CurrentLevel := Some (Some ?l), RemainingTime := rt, callbackSchedule := cs\<rparr>)"
    by (rule finish_state [OF g]) simp
  show ?thesis by (rule that [of cs rt]) (use r in \<open>simp_all add: eq\<close>)
qed

text \<open>What a transition does not change.\<close>

definition config where
  "config s = (minLevel s, maxLevel s, OnLevel s, OnOffTransitionTime s, readable s, Options s, FeatureMap s)"

lemma config_simps [simp]:
  "config (s\<lparr>CurrentLevel := a\<rparr>) = config s" "config (s\<lparr>RemainingTime := b\<rparr>) = config s"
  "config (s\<lparr>callbackSchedule := c\<rparr>) = config s" "config (s\<lparr>elapsedTimeMs := d\<rparr>) = config s"
  "config (s\<lparr>commandId := e\<rparr>) = config s" "config (s\<lparr>moveToLevel := f\<rparr>) = config s"
  "config (s\<lparr>increasing := g\<rparr>) = config s" "config (s\<lparr>transitionTimeMs := h\<rparr>) = config s"
  "config (s\<lparr>eventDurationMs := i\<rparr>) = config s" "config (s\<lparr>storedLevel := j\<rparr>) = config s"
  by (simp_all add: config_def)

text \<open>The end of a transition: the timer is off, the level is the target or the level to go back to, and
  a command \<open>WithOnOff\<close> has set the on/off attribute.\<close>

definition reached :: "EndpointId \<Rightarrow> levelEp \<Rightarrow> device \<Rightarrow> device \<Rightarrow> bool" where
  "reached ep s st st' \<longleftrightarrow>
     levelTimer st' ep = None \<and>
     (\<exists>s'. getState ep st' = Some s' \<and> config s' = config s \<and>
        CurrentLevel s' = Some (Some (if storedLevel s = INVALID_STORED_LEVEL then moveToLevel s else ucast (storedLevel s)))) \<and>
     OnOff_Get ep (app st') = (if withOnOff s then map_option (\<lambda>_. moveToLevel s \<noteq> minLevel s) (OnOff_Get ep (app st))
                               else OnOff_Get ep (app st)) \<and>
     (shown (app st) ep \<or> withOnOff s \<and> OnOff_Get ep (app st) = Some (moveToLevel s = minLevel s) \<longrightarrow> shown (app st') ep)"

text \<open>Another transition state with the same plan.\<close>

definition continues :: "levelEp \<Rightarrow> levelEp \<Rightarrow> bool" where
  "continues s s' \<longleftrightarrow> config s' = config s \<and> moveToLevel s' = moveToLevel s \<and> storedLevel s' = storedLevel s \<and>
     commandId s' = commandId s"

lemma stored_level:
  assumes "moving s cur" "maxLevel s \<le> 254"
  shows "\<exists>l. (storedLevel s = INVALID_STORED_LEVEL \<or> storedLevel s = ucast l \<and> l \<le> 254) \<and>
    (storedLevel s \<noteq> INVALID_STORED_LEVEL \<longrightarrow> minLevel s \<le> l \<and> l \<le> maxLevel s \<and> ucast (storedLevel s) = l)"
proof (cases "storedLevel s = INVALID_STORED_LEVEL")
  case False
  then obtain l where l: "storedLevel s = ucast l" "minLevel s \<le> l" "l \<le> maxLevel s"
    using assms(1) by (auto simp: moving_def)
  moreover have "l \<le> 254" using l(3) assms(2) by (rule order_trans)
  ultimately show ?thesis by (intro exI [of _ l]) (simp add: ucast_down_ucast_id is_down)
qed simp

lemma tick_ok:
  assumes ok: "levelsOk st" and s: "getState ep st = Some s" and t: "levelTimer st ep \<noteq> None"
    and cur: "CurrentLevel s = Some (Some cur)"
  obtains st' where "levelTimerFires env tEnd tNext ep st = Inr st'" "only ep st st'" "levelsOk st'"
    "relayOk (app st) \<longrightarrow> relayOk (app st')"
    "reached ep s st st' \<or>
     (\<exists>s' new. getState ep st' = Some s' \<and> continues s s' \<and> CurrentLevel s' = Some (Some new) \<and>
        togo s new < togo s cur \<and> levelTimer st' ep \<noteq> None \<and> app st' = app st)"
proof -
  let ?c = "cancelLevelTimer ep st"
  have c: "minLevel s \<le> maxLevel s" "maxLevel s \<le> 254" "minLevel s \<le> cur" "cur \<le> maxLevel s" "moving s cur"
    and e: "epOk False s"
    using levelsOkD [OF ok s] t cur epOk_idle by (auto simp: epOk_def)
  obtain new where n: "nextLevel s cur = Some new" "minLevel s \<le> new" "new \<le> maxLevel s"
    "new = moveToLevel s \<or> moving s new \<and> togo s new < togo s cur" by (rule next_moving [OF c(5,3,4)])
  have n255: "new \<noteq> 255" using n(3) c(2) by (auto simp: word_le_nat_alt)
  have sc: "getState ep ?c = Some s" using s by simp
  let ?s = "s\<lparr>elapsedTimeMs := elapsedTimeMs s + eventDurationMs s\<rparr>"
  let ?s2 = "s\<lparr>elapsedTimeMs := elapsedTimeMs s + eventDurationMs s, CurrentLevel := Some (Some new)\<rparr>"
  let ?st2 = "ticked ep s new ?c"
  have g2: "getState ep ?st2 = Some ?s2" using s by simp
  note fire = levelTimerFires_def tick_eq [OF sc cur n(1) n255] Let_def
  show ?thesis
  proof (cases "new = moveToLevel s")
    case True
    obtain l where l: "storedLevel ?s2 = INVALID_STORED_LEVEL \<or> storedLevel ?s2 = ucast l \<and> l \<le> 254"
        "storedLevel s \<noteq> INVALID_STORED_LEVEL \<Longrightarrow> minLevel s \<le> l \<and> l \<le> maxLevel s \<and> ucast (storedLevel s) = l"
      using stored_level [OF c(5,2)] by auto
    have at: "atTarget env ep ?s new ?st2 = atTarget env ep ?s2 new ?st2" by (simp add: atTarget_def Let_def)
    obtain rt cs where r:
      "getState ep (atTarget env ep ?s2 new ?st2) =
         Some (?s2\<lparr>CurrentLevel := Some (Some (if storedLevel ?s2 = INVALID_STORED_LEVEL then new else l)), RemainingTime := rt, callbackSchedule := cs\<rparr>)"
      "app (atTarget env ep ?s2 new ?st2) = (if withOnOff ?s2 then app (levelSetOnOffValue env ep (new \<noteq> minLevel ?s2) ?st2) else app ?st2)"
      "only ep ?st2 (atTarget env ep ?s2 new ?st2)" "levelTimer (atTarget env ep ?s2 new ?st2) = levelTimer ?st2"
      by (rule atTarget_state [OF g2 _ l(1)]) simp_all
    have o: "only ep st (atTarget env ep ?s2 new ?st2)" by (rule only_trans [OF _ r(3)]) simp
    have w: "withOnOff ?s2 = withOnOff s" by (simp add: withOnOff_def)
    show ?thesis
    proof (rule that [of "atTarget env ep ?s2 new ?st2"])
      show "levelTimerFires env tEnd tNext ep st = Inr (atTarget env ep ?s2 new ?st2)"
        unfolding fire at [symmetric] using t True by auto
      show "levelsOk (atTarget env ep ?s2 new ?st2)"
        by (rule levelsOk_idle [OF ok o s r(1)]) (use e n l(2) r(4) c in \<open>auto simp: epOk_def\<close>)
      have "reached ep s st (atTarget env ep ?s2 new ?st2)"
        using r True l(2) w levelSet_value [of ep env _ ?st2] levelSet_shown [of ?st2 ep "new \<noteq> minLevel s" env]
        by (auto simp: reached_def)
      then show "reached ep s st (atTarget env ep ?s2 new ?st2) \<or>
        (\<exists>s' x. getState ep (atTarget env ep ?s2 new ?st2) = Some s' \<and> continues s s' \<and> CurrentLevel s' = Some (Some x) \<and>
          togo s x < togo s cur \<and> levelTimer (atTarget env ep ?s2 new ?st2) ep \<noteq> None \<and>
          app (atTarget env ep ?s2 new ?st2) = app st)" ..
      show "relayOk (app st) \<longrightarrow> relayOk (app (atTarget env ep ?s2 new ?st2))"
        using r(2) levelSet_relayOk [of ?st2] by simp
    qed (rule o)
  next
    case False
    let ?st3 = "scheduleNext tNext ep
                (writeRemainingTime ep (ucast (transitionTimeMs s - elapsedTimeMs ?s)) (setRunTime ep (ucast (tEnd - now env)) ?st2))"
    obtain rt cs d where r: "getState ep ?st3 = Some (?s2\<lparr>RemainingTime := rt, callbackSchedule := cs\<rparr>)"
      "levelTimer ?st3 = (levelTimer ?st2)(ep := Some d)" by (rule continue_state [OF g2])
    show ?thesis
    proof (rule that [of ?st3])
      show "levelTimerFires env tEnd tNext ep st = Inr ?st3" using t False by (auto simp: fire)
      show o: "only ep st ?st3" by simp
      show "levelsOk ?st3"
        by (rule levelsOk_only [OF ok o]) (use s r c e n False in \<open>auto simp: epOk_def\<close>)
      show "reached ep s st ?st3 \<or> (\<exists>s' new. getState ep ?st3 = Some s' \<and> continues s s' \<and> CurrentLevel s' = Some (Some new) \<and>
        togo s new < togo s cur \<and> levelTimer ?st3 ep \<noteq> None \<and> app ?st3 = app st)"
        using r n(4) False by (auto simp: continues_def)
    qed simp
  qed
qed

lemma fires_ok:
  assumes ok: "levelsOk st"
  obtains st' where "levelTimerFires env tEnd tNext ep st = Inr st'" "levelsOk st'" "relayOk (app st) \<longrightarrow> relayOk (app st')"
proof (cases "levelTimer st ep = None \<or> getState ep st = None")
  case True
  then show ?thesis using ok levelsOk_cancel [OF ok, of ep]
    by (intro that [of "if levelTimer st ep = None then st else cancelLevelTimer ep st"])
       (auto simp: levelTimerFires_def TickCallback_def)
next
  case False
  then obtain s where s: "getState ep st = Some s" by auto
  obtain cur where "CurrentLevel s = Some (Some cur)" by (rule rangeD [OF ok s])
  then show ?thesis using tick_ok [OF ok s, of cur] False that by metis
qed

section \<open>A transition ends\<close>

text \<open>The timer of the endpoint fires once for every entry of the list, unless it is idle.\<close>

fun runTicks :: "EndpointId \<Rightarrow> (appEnv \<times> u64 \<times> u64) list \<Rightarrow> device \<Rightarrow> fault + device" where
  "runTicks ep [] st = Inr st"
| "runTicks ep ((env, tEnd, tNext) # cs) st = rbind (levelTimerFires env tEnd tNext ep st) (runTicks ep cs)"

lemma runTicks_idle: "levelTimer st ep = None \<Longrightarrow> runTicks ep cs st = Inr st"
  by (induction cs) (auto simp: levelTimerFires_def)

lemma continues_reached:
  "continues s s' \<Longrightarrow> app st1 = app st \<Longrightarrow> reached ep s' st1 st' = reached ep s st st'"
  by (auto simp: continues_def reached_def config_def withOnOff_def)

lemma continues_togo: "continues s s' \<Longrightarrow> togo s' x = togo s x"
  by (simp add: continues_def togo_def)

lemma transition_ends:
  assumes "levelsOk st" "getState ep st = Some s" "levelTimer st ep \<noteq> None" "CurrentLevel s = Some (Some cur)"
    "togo s cur \<le> length cs"
  shows "\<exists>st'. runTicks ep cs st = Inr st' \<and> levelsOk st' \<and> only ep st st' \<and> reached ep s st st' \<and>
    (relayOk (app st) \<longrightarrow> relayOk (app st'))"
  using assms
proof (induction cs arbitrary: st s cur)
  case Nil
  then have "moving s cur" using levelsOkD [OF Nil.prems(1,2)] by (auto simp: epOk_def)
  then have "moveToLevel s \<noteq> cur" by (simp add: moving_def)
  then have "togo s cur > 0" by (auto simp: togo_def word_less_nat_alt not_less) (meson le_antisym not_le unsigned_word_eqI)
  then show ?case using Nil by simp
next
  case (Cons c cs)
  obtain env a b where c: "c = (env, a, b)" by (cases c)
  obtain st1 where r: "levelTimerFires env a b ep st = Inr st1" "only ep st st1" "levelsOk st1"
    "relayOk (app st) \<longrightarrow> relayOk (app st1)"
    "reached ep s st st1 \<or> (\<exists>s' new. getState ep st1 = Some s' \<and> continues s s' \<and> CurrentLevel s' = Some (Some new) \<and>
        togo s new < togo s cur \<and> levelTimer st1 ep \<noteq> None \<and> app st1 = app st)"
    by (rule tick_ok [OF Cons.prems(1-4), of env a b])
  from r(5) show ?case
  proof
    assume d: "reached ep s st st1"
    then have "runTicks ep (c # cs) st = Inr st1" using r(1) by (simp add: c runTicks_idle reached_def)
    then show ?thesis using r d by blast
  next
    assume "\<exists>s' new. getState ep st1 = Some s' \<and> continues s s' \<and> CurrentLevel s' = Some (Some new) \<and>
        togo s new < togo s cur \<and> levelTimer st1 ep \<noteq> None \<and> app st1 = app st"
    then obtain s' new where n: "getState ep st1 = Some s'" "continues s s'" "CurrentLevel s' = Some (Some new)"
      "togo s new < togo s cur" "levelTimer st1 ep \<noteq> None" "app st1 = app st" by blast
    have "togo s' new \<le> length cs" using n(4) Cons.prems(5) continues_togo [OF n(2)] by simp
    from Cons.IH [OF r(3) n(1,5,3) this] obtain st' where "runTicks ep cs st1 = Inr st'" "levelsOk st'" "only ep st1 st'"
      "reached ep s' st1 st'" "relayOk (app st1) \<longrightarrow> relayOk (app st')" by blast
    then show ?thesis using r(1,2,4) continues_reached [OF n(2,6)] only_trans by (auto simp: c)
  qed
qed

section \<open>Attribute writes\<close>

lemma write_ok:
  assumes ok: "levelsOk st" and f: "\<And>r s. epOk r s \<Longrightarrow> epOk r (f s)"
  shows "levelsOk (snd (writeLevelAttribute ep present f st))"
proof (cases "getState ep st")
  case (Some s)
  have "levelsOk (updLevel ep f st)"
    by (rule levelsOk_only [OF ok]) (use Some f [OF levelsOkD [OF ok Some]] in auto)
  then show ?thesis using ok Some by (simp add: writeLevelAttribute_def)
qed (simp add: writeLevelAttribute_def ok)

lemma writes_ok:
  assumes "levelsOk st"
  shows "levelsOk (snd (Options_Set ep o' st))" "levelsOk (snd (OnOffTransitionTime_Set ep t st))"
    "levelsOk (snd (OnLevel_Set ep v st))" "levelsOk (snd (DefaultMoveRate_Set ep v st))"
    "levelsOk (snd (StartUpCurrentLevel_Set ep v st))"
  using assms
  by (auto simp: Options_Set_def OnOffTransitionTime_Set_def OnLevel_Set_def DefaultMoveRate_Set_def
      StartUpCurrentLevel_Set_def epOk_def moving_def readable_def intro!: write_ok)

lemma write_app [simp]:
  "app (snd (Options_Set ep o' st)) = app st" "app (snd (OnOffTransitionTime_Set ep t st)) = app st"
  "app (snd (OnLevel_Set ep v st)) = app st" "app (snd (DefaultMoveRate_Set ep v st)) = app st"
  "app (snd (StartUpCurrentLevel_Set ep v st)) = app st"
  by (simp_all add: Options_Set_def OnOffTransitionTime_Set_def OnLevel_Set_def DefaultMoveRate_Set_def
      StartUpCurrentLevel_Set_def writeLevelAttribute_def split: option.split)

section \<open>The start\<close>

text \<open>The attributes an endpoint starts with: a readable level, optional attributes that can be read where
  they are present, an \<open>OnLevel\<close> that is not the null value and a range that is not empty.\<close>

definition usable :: "levelEp \<Rightarrow> bool" where
  "usable s \<longleftrightarrow> CurrentLevel s \<noteq> None \<and> readable s \<and> OnLevel s \<noteq> Some (Some 255) \<and>
     fst (levelRange s) \<le> snd (levelRange s) \<and> snd (levelRange s) \<le> 254"

lemma applyStartUp_state:
  assumes "getState ep st = Some s" "CurrentLevel s = Some previous" "applyStartUp ep s previous st = (c, st2)"
  obtains x where "getState ep st2 = Some (s\<lparr>CurrentLevel := Some x\<rparr>)" "\<And>v. c = Some v \<Longrightarrow> v \<noteq> 255 \<Longrightarrow> x = Some v"
proof (cases "startUpLevelNonVolatile s \<and> StartUpCurrentLevel s \<noteq> None \<and> startLevel s previous \<noteq> Some 255")
  case True
  then show ?thesis using assms
    by (intro that [of "startLevel s previous"]) (auto simp: applyStartUp_def Let_def CurrentLevel_Set_def split: option.split)
next
  case False
  have "s\<lparr>CurrentLevel := Some previous\<rparr> = s" using assms(2) by (cases s) simp
  then show ?thesis using assms False
    by (intro that [of previous]) (auto simp: applyStartUp_def Let_def CurrentLevel_Set_def split: if_splits)
qed

lemma init_ok:
  assumes s: "getState ep st = Some s" and u: "usable s"
  obtains s' where "getState ep (levelServerInit ep st) = Some s'" "epOk False s'"
proof -
  let ?s = "s\<lparr>minLevel := fst (levelRange s), maxLevel := snd (levelRange s)\<rparr>"
  let ?st = "initLevels ep st"
  obtain previous where p: "CurrentLevel s = Some previous" using u by (auto simp: usable_def)
  obtain c st2 where c: "applyStartUp ep ?s previous ?st = (c, st2)" by fastforce
  have g: "getState ep ?st = Some ?s" using s by (simp add: initLevels_def)
  obtain x where x: "getState ep st2 = Some (?s\<lparr>CurrentLevel := Some x\<rparr>)" "\<And>v. c = Some v \<Longrightarrow> v \<noteq> 255 \<Longrightarrow> x = Some v"
    by (rule applyStartUp_state [OF g _ c]) (use p in simp_all)
  have r: "minLevel ?s \<le> maxLevel ?s" "maxLevel ?s \<le> 254" "minLevel ?s \<noteq> 255" "maxLevel ?s \<noteq> 255"
    using u by (auto simp: usable_def word_le_nat_alt)
  have keep: "epOk False (?s\<lparr>CurrentLevel := Some (Some v)\<rparr>)" if "minLevel ?s \<le> v" "v \<le> maxLevel ?s" for v
    using that r u by (simp add: epOk_def usable_def)
  have init: "levelServerInit ep st =
     (case c of None \<Rightarrow> snd (CurrentLevel_Set ep (minLevel ?s) st2)
      | Some v \<Rightarrow> if v < minLevel ?s then snd (CurrentLevel_Set ep (minLevel ?s) st2)
                  else if v > maxLevel ?s then snd (CurrentLevel_Set ep (maxLevel ?s) st2) else st2)"
    using g p c by (simp add: levelServerInit_def Let_def)
  have set: "getState ep (snd (CurrentLevel_Set ep v st2)) = Some (?s\<lparr>CurrentLevel := Some (Some v)\<rparr>)" if "v \<noteq> 255" for v
    using that x(1) by (simp add: CurrentLevel_Set_def)
  show ?thesis
  proof (cases "\<exists>v. c = Some v \<and> minLevel ?s \<le> v \<and> v \<le> maxLevel ?s")
    case True
    then obtain v where v: "c = Some v" "minLevel ?s \<le> v" "v \<le> maxLevel ?s" by blast
    moreover have "v \<noteq> 255" using v(3) r(2) by (auto simp: word_le_nat_alt)
    ultimately show ?thesis using x keep [of v] by (intro that [of "?s\<lparr>CurrentLevel := Some (Some v)\<rparr>"]) (auto simp: init)
  next
    case False
    then have "levelServerInit ep st = snd (CurrentLevel_Set ep (minLevel ?s) st2) \<or>
               levelServerInit ep st = snd (CurrentLevel_Set ep (maxLevel ?s) st2)"
      unfolding init by (cases c) auto
    then show ?thesis using set [OF r(3)] set [OF r(4)] keep [of "minLevel ?s"] keep [of "maxLevel ?s"] r(1)
      by (elim disjE) (auto intro: that)
  qed
qed

lemma only_init [simp]: "only ep st (levelServerInit ep st)" "levelTimer (levelServerInit ep st) = levelTimer st"
    "app (levelServerInit ep st) = app st"
  by (simp_all add: levelServerInit_def applyStartUp_def initLevels_def Let_def split: option.split prod.split)

end
