(* ===== verification/Relay_Device.thy ===== *)
theory Relay_Device
  imports Level_Control
begin

text \<open>
  The relay as a whole: the application task, the On/Off server and the Level Control server on one
  state, driven by commands, timers and the application's own events.  The On/Off server is given
  the effect callback of Level Control, the contract \<open>level_effect\<close> of \<open>OnOff_Server\<close> is discharged for
  it, and the properties that need all three parts are stated here.
\<close>

section \<open>Operations\<close>

datatype devOp =
    Off appEnv EndpointId
  | On appEnv EndpointId
  | Toggle appEnv EndpointId
  | OffWithEffect appEnv EndpointId u8 u8
  | OnWithRecallGlobalScene appEnv EndpointId
  | OnWithTimedOff appEnv EndpointId u8 u16 u16
  | OnOffTimer appEnv EndpointId
  | LevelMoveTo appEnv EndpointId bool u8 "u16 option" u8 u8
  | LevelMove appEnv EndpointId bool u8 "u8 option" u8 u8
  | LevelStep appEnv EndpointId bool u8 u8 "u16 option" u8 u8
  | LevelStop EndpointId bool u8 u8
  | LevelTimer appEnv u64 u64 EndpointId
  | LevelShutdown EndpointId
  | OnOffShutdown EndpointId
  | RegisterEffect onOffEffect
  | UnregisterEffect nat
  | WriteOptions EndpointId u8
  | WriteOnOffTransitionTime EndpointId u16
  | WriteOnLevel EndpointId "u8 option"
  | WriteDefaultMoveRate EndpointId "u8 option"
  | WriteStartUpCurrentLevel EndpointId "u8 option"
  | WriteOnTime EndpointId u16
  | WriteOffWaitTime EndpointId u16
  | WriteStartUpOnOff EndpointId "u8 option"
  | App relayOp

abbreviation "onOffOp f \<equiv> f LevelControlWithOnOffFeaturePresent LevelControlEffectCallback"

text \<open>The flag of a level command says whether it is the variant with On/Off.\<close>

fun stepDevice :: "devOp \<Rightarrow> device \<Rightarrow> fault + device" where
  "stepDevice (Off env ep) st = Inr (snd (onOffOp offCommand env ep st))"
| "stepDevice (On env ep) st = Inr (snd (onOffOp onCommand env ep st))"
| "stepDevice (Toggle env ep) st = Inr (snd (onOffOp toggleCommand env ep st))"
| "stepDevice (OffWithEffect env ep a b) st = Inr (snd (onOffOp offWithEffectCommand env ep a b st))"
| "stepDevice (OnWithRecallGlobalScene env ep) st = Inr (snd (onOffOp OnWithRecallGlobalSceneCommand env ep st))"
| "stepDevice (OnWithTimedOff env ep c t w) st = Inr (snd (onOffOp OnWithTimedOffCommand env ep c t w st))"
| "stepDevice (OnOffTimer env ep) st = Inr (onOffOp onOffTimerFires env ep st)"
| "stepDevice (LevelMoveTo env ep w l t om ov) st =
     Inr (snd (if w then MoveToLevelWithOnOff env ep l t om ov st else MoveToLevel env ep l t om ov st))"
| "stepDevice (LevelMove env ep w m r om ov) st =
     rbind (moveHandler env ep (if w then cmdMoveWithOnOff else cmdMove) m r (Some om) (Some ov) st) (\<lambda>x. Inr (snd x))"
| "stepDevice (LevelStep env ep w m n t om ov) st =
     rbind (stepHandler env ep (if w then cmdStepWithOnOff else cmdStep) m n t (Some om) (Some ov) st) (\<lambda>x. Inr (snd x))"
| "stepDevice (LevelStop ep w om ov) st =
     Inr (snd (stopHandler ep (if w then cmdStopWithOnOff else cmdStop) (Some om) (Some ov) st))"
| "stepDevice (LevelTimer env a b ep) st = levelTimerFires env a b ep st"
| "stepDevice (LevelShutdown ep) st = Inr (levelServerShutdown ep st)"
| "stepDevice (OnOffShutdown ep) st = Inr (onOffServerShutdown ep st)"
| "stepDevice (RegisterEffect e) st = Inr (reg e st)"
| "stepDevice (UnregisterEffect a) st = Inr (unreg a st)"
| "stepDevice (WriteOptions ep v) st = Inr (snd (Options_Set ep v st))"
| "stepDevice (WriteOnOffTransitionTime ep v) st = Inr (snd (OnOffTransitionTime_Set ep v st))"
| "stepDevice (WriteOnLevel ep v) st = Inr (snd (OnLevel_Set ep v st))"
| "stepDevice (WriteDefaultMoveRate ep v) st = Inr (snd (DefaultMoveRate_Set ep v st))"
| "stepDevice (WriteStartUpCurrentLevel ep v) st = Inr (snd (StartUpCurrentLevel_Set ep v st))"
| "stepDevice (WriteOnTime ep v) st = Inr (setOO ep (onTime_update (\<lambda>_. v)) st)"
| "stepDevice (WriteOffWaitTime ep v) st = Inr (setOO ep (offWaitTime_update (\<lambda>_. v)) st)"
| "stepDevice (WriteStartUpOnOff ep v) st = Inr (setOO ep (startUpOnOff_update (\<lambda>_. v)) st)"
| "stepDevice (App op) st = Inr (st\<lparr>app := stepRelay op (app st)\<rparr>)"

text \<open>The start: both servers initialise every endpoint.\<close>

definition bootDevice :: "appEnv \<Rightarrow> EndpointId list \<Rightarrow> device \<Rightarrow> device" where
  "bootDevice env eps st = fold (onOffOp initOnOffServer env) eps (fold levelServerInit eps st)"

section \<open>The invariant of the device\<close>

definition deviceOk :: "device \<Rightarrow> bool" where
  "deviceOk st \<longleftrightarrow> relayOk (app st) \<and> levelsOk st"

lemma moveToLevel_relayOk:
  "relayOk (app st) \<Longrightarrow> relayOk (app (snd (moveToLevelHandler env ep cmd l t om ov x st)))"
  by (simp add: moveToLevelHandler_def Let_def turnWithLevel_def levelSet_relayOk split: option.split)

lemma effect_relayOk: "relayOk (app st) \<Longrightarrow> relayOk (app (LevelControlEffectCallback env ep v st))"
  by (auto simp: LevelControlEffectCallback_def CurrentLevel_Set_def Let_def moveToLevel_relayOk
      split: option.split prod.split)

interpretation relay: level_effect LevelControlWithOnOffFeaturePresent LevelControlEffectCallback deviceOk
proof
  fix st :: device and env ep v
  show "deviceOk st \<Longrightarrow> deviceOk (st\<lparr>app := OnOff_Set env ep v (app st)\<rparr>)"
    by (simp add: deviceOk_def relayOk_Set levelsOk_def)
  show "deviceOk st \<Longrightarrow> deviceOk (LevelControlEffectCallback env ep False st)"
    by (simp add: deviceOk_def effect_ok effect_relayOk)
  show "deviceOk st \<Longrightarrow> OnOff_Get ep (app st) = Some True \<Longrightarrow> deviceOk (LevelControlEffectCallback env ep True st)"
    by (simp add: deviceOk_def effect_ok effect_relayOk)
qed (simp_all add: deviceOk_def levelsOk_def)

lemma turn_relayOk: "relayOk (app st) \<Longrightarrow> relayOk (app (turnWithLevel env ep w c t l st))"
  by (simp add: turnWithLevel_def levelSet_relayOk)

lemma move_relayOk:
  "moveHandler env ep cmd m r om ov st = Inr (x, st') \<Longrightarrow> relayOk (app st) \<Longrightarrow> relayOk (app st')"
  by (auto simp: moveHandler_def Let_def turn_relayOk split: option.splits if_splits sum.splits)

lemma step_relayOk:
  "stepHandler env ep cmd m n t om ov st = Inr (x, st') \<Longrightarrow> relayOk (app st) \<Longrightarrow> relayOk (app st')"
  by (auto simp: stepHandler_def Let_def turn_relayOk split: option.splits if_splits sum.splits prod.splits)

lemma stop_app: "app (snd (stopHandler ep cmd om ov st)) = app st"
  by (simp add: stopHandler_def split: option.split)

lemma device_writes:
  assumes "deviceOk st"
  shows "deviceOk (snd (Options_Set ep x st))" "deviceOk (snd (OnOffTransitionTime_Set ep t st))"
    "deviceOk (snd (OnLevel_Set ep v st))" "deviceOk (snd (DefaultMoveRate_Set ep v st))"
    "deviceOk (snd (StartUpCurrentLevel_Set ep v st))"
  using assms by (simp_all add: deviceOk_def writes_ok)

text \<open>A Move command with rate zero divides by zero; every other operation succeeds.\<close>

fun sound :: "devOp \<Rightarrow> bool" where
  "sound (LevelMove env ep w m r om ov) \<longleftrightarrow> r \<noteq> Some 0"
| "sound _ \<longleftrightarrow> True"

lemma op_ok:
  assumes "deviceOk st" "sound op"
  shows "\<exists>st'. stepDevice op st = Inr st' \<and> deviceOk st'"
proof (cases op)
  case (LevelMove env ep w m r om ov)
  let ?c = "if w then cmdMoveWithOnOff else cmdMove"
  obtain x st' where "moveHandler env ep ?c m r (Some om) (Some ov) st = Inr (x, st')"
    using move_total [of r env ep ?c m "Some om" "Some ov" st] assms(2) LevelMove by auto
  then show ?thesis using assms(1) LevelMove move_ok move_relayOk by (auto simp: deviceOk_def)
next
  case (LevelStep env ep w m n t om ov)
  let ?c = "if w then cmdStepWithOnOff else cmdStep"
  obtain x st' where "stepHandler env ep ?c m n t (Some om) (Some ov) st = Inr (x, st')"
    using step_total [of st env ep ?c m n t "Some om" "Some ov"] assms(1) by (auto simp: deviceOk_def)
  then show ?thesis using assms(1) LevelStep step_ok step_relayOk by (auto simp: deviceOk_def)
next
  case (LevelTimer env a b ep)
  then show ?thesis using assms(1) fires_ok [of st env a b ep] by (auto simp: deviceOk_def)
next
  case (LevelMoveTo env ep w l t om ov)
  then show ?thesis using assms(1)
    by (auto simp: deviceOk_def MoveToLevel_def MoveToLevelWithOnOff_def moveToLevel_relayOk storedOk_def
        intro!: moveToLevel_ok levelsOk_cancel)
next
  case (LevelStop ep w om ov)
  then show ?thesis using assms(1) by (simp add: deviceOk_def stop_ok stop_app)
next
  case (App op)
  then show ?thesis using assms(1) by (auto simp: deviceOk_def relayOk_step levelsOk_def)
next
  case (LevelShutdown ep)
  then show ?thesis using assms(1) by (auto simp: deviceOk_def levelServerShutdown_def levelsOk_cancel)
qed (use assms(1) relay.commands_inv relay.timer_inv in
      \<open>auto simp: device_writes\<close>)

text \<open>At power-on no timer runs and every endpoint with the cluster is usable; initialising the endpoints
  establishes the invariant.\<close>

definition atPowerOn :: "EndpointId list \<Rightarrow> device \<Rightarrow> bool" where
  "atPowerOn eps st \<longleftrightarrow> relayOk (app st) \<and> (\<forall>ep. levelTimer st ep = None) \<and>
     (\<forall>ep s. levels st ep = Some s \<longrightarrow> ep \<in> set eps \<and> endpointEnabled (app st) ep \<and> usable s)"

definition initialised :: "EndpointId set \<Rightarrow> device \<Rightarrow> bool" where
  "initialised D st \<longleftrightarrow> relayOk (app st) \<and> (\<forall>ep. levelTimer st ep = None) \<and>
     (\<forall>ep s. levels st ep = Some s \<longrightarrow> endpointEnabled (app st) ep \<and> (if ep \<in> D then epOk False s else usable s))"

lemma init_absent: "levels st ep = None \<Longrightarrow> levelServerInit ep st = st"
  by (simp add: levelServerInit_def initLevels_def updLevel_def getState_def)

lemma initialised_step:
  assumes i: "initialised D st" and ep: "ep \<notin> D"
  shows "initialised (insert ep D) (levelServerInit ep st)"
proof -
  have o: "only ep st (levelServerInit ep st)" by simp
  have a: "epOk False s" if "levels (levelServerInit ep st) ep = Some s" for s
  proof (cases "levels st ep")
    case (Some s0)
    then have g: "getState ep st = Some s0" "usable s0" using i ep by (auto simp: initialised_def getState_def)
    obtain s' where "getState ep (levelServerInit ep st) = Some s'" "epOk False s'" by (rule init_ok [OF g])
    then show ?thesis using that by (simp add: getState_levels)
  next
    case None
    then show ?thesis using that by (simp add: init_absent)
  qed
  have b: "endpointEnabled (app st) ep" if "levels (levelServerInit ep st) ep = Some s" for s
    using that i by (cases "levels st ep") (auto simp: initialised_def init_absent)
  have "endpointEnabled (app st) e \<and> (if e \<in> insert ep D then epOk False s else usable s)"
    if "levels (levelServerInit ep st) e = Some s" for e s
    using that a b i o by (cases "e = ep") (auto simp: initialised_def only_def)
  then show ?thesis using i by (simp add: initialised_def)
qed

lemma initialised_boot:
  "distinct eps \<Longrightarrow> set eps \<inter> D = {} \<Longrightarrow> initialised D st \<Longrightarrow> initialised (set eps \<union> D) (fold levelServerInit eps st)"
proof (induction eps arbitrary: D st)
  case (Cons ep eps)
  then have "initialised (set eps \<union> insert ep D) (fold levelServerInit eps (levelServerInit ep st))"
    by (intro Cons.IH initialised_step) auto
  then show ?case by simp
qed simp

lemma boot_ok:
  assumes "atPowerOn eps st" "distinct eps"
  shows "deviceOk (bootDevice env eps st)"
proof -
  have i0: "initialised {} st" using assms(1) by (auto simp: atPowerOn_def initialised_def)
  have dom: "levels (fold levelServerInit xs st') ep = None" if "levels st' ep = None" for xs st' ep
    using that
  proof (induction xs arbitrary: st')
    case (Cons x xs)
    have "levels (levelServerInit x st') ep = None"
    proof (cases "ep = x")
      case True
      then show ?thesis using Cons.prems by (simp add: init_absent)
    qed (use only_init(1) [of x st'] Cons.prems in \<open>simp add: only_def\<close>)
    then show ?case using Cons.IH by simp
  qed simp
  let ?st = "fold levelServerInit eps st"
  have i: "initialised (set eps) ?st" using initialised_boot [OF assms(2) _ i0] by simp
  have "deviceOk ?st" unfolding deviceOk_def levelsOk_def
  proof (intro conjI allI impI)
    show "relayOk (app ?st)" using i by (simp add: initialised_def)
    fix ep s assume s: "levels ?st ep = Some s"
    then have "ep \<in> set eps" using dom [of st ep eps] assms(1) by (cases "levels st ep") (auto simp: atPowerOn_def)
    then show "epOk (levelTimer ?st ep \<noteq> None) s" using i s by (simp add: initialised_def)
  qed
  moreover have "deviceOk (fold (onOffOp initOnOffServer env) xs st')" if "deviceOk st'" for xs st'
    using that by (induction xs arbitrary: st') (auto simp: relay.init_inv)
  ultimately show ?thesis by (simp add: bootDevice_def)
qed

text \<open>The states the device can be in.  The application may be in any state that satisfies its invariant when
  the servers start; every run of the task leads to such a state (\<open>relayOk_runRelay\<close>).\<close>

inductive reachable :: "device \<Rightarrow> bool" where
  boot: "atPowerOn eps st \<Longrightarrow> distinct eps \<Longrightarrow> reachable (bootDevice env eps st)"
| step: "reachable st \<Longrightarrow> sound op \<Longrightarrow> stepDevice op st = Inr st' \<Longrightarrow> reachable st'"

lemma reachable_ok: "reachable st \<Longrightarrow> deviceOk st"
proof (induction rule: reachable.induct)
  case (step st op st')
  then show ?case using op_ok [of st op] by auto
qed (rule boot_ok)

section \<open>Off and on\<close>

lemma levelSet_app:
  "app (levelSetOnOffValue env ep v st) =
     (if OnOff_Get ep (app st) = Some (\<not> v) then OnOff_Set env ep v (app st) else app st)"
  by (cases v; cases "OnOff_Get ep (app st)")
     (auto simp: levelSetOnOffValue_def isServed_def setOnOffValue_def Let_def cmdOn_def cmdOff_def)

lemma moveToLevel_starts:
  fixes env :: appEnv and t :: "u16 option" and stored :: u16
  assumes s: "getState ep st = Some s" "CurrentLevel s = Some (Some cur)"
    and x: "level \<le> PLUGIN_MAXIMUM_LEVEL" "shouldExecuteIfOff ep cmd om ov st" and rd: "readable s"
  defines "target \<equiv> moveTarget s level"
  defines "st' \<equiv> snd (moveToLevelHandler env ep cmd level t om ov stored st)"
  shows "cur = target \<Longrightarrow> levelTimer st' ep = None \<and> getState ep st' = Some (s\<lparr>commandId := cmd, moveToLevel := target\<rparr>)"
    and "cur \<noteq> target \<Longrightarrow> levelTimer st' ep \<noteq> None \<and> (\<exists>s'. getState ep st' = Some s' \<and> config s' = config s \<and>
           CurrentLevel s' = Some (Some cur) \<and> moveToLevel s' = target \<and> storedLevel s' = stored \<and> commandId s' = cmd)"
    and "app st' = app (turnWithLevel env ep (cmd = cmdMoveToLevelWithOnOff) cur target (minLevel s) st)"
  unfolding st'_def target_def using s x
  by (auto simp: moveToLevelHandler_def Let_def transitionFor_readable [OF rd] startTransition_state turnWithLevel_def levelSet_app)

lemma togo_le: "cur \<le> 254 \<Longrightarrow> moveToLevel s \<le> 254 \<Longrightarrow> togo s cur \<le> 254"
  by (auto simp: togo_def word_le_nat_alt)

lemma moveTarget_min: "minLevel s \<le> maxLevel s \<Longrightarrow> moveTarget s (minLevel s) = minLevel s"
  by (auto simp: moveTarget_def)

lemma moveTarget_in: "minLevel s \<le> l \<Longrightarrow> l \<le> maxLevel s \<Longrightarrow> moveTarget s l = l"
  by (auto simp: moveTarget_def)

text \<open>Once a move to a level has been set up, the ticks bring it to its end; a move that is already there
  has nothing left to do.\<close>

lemma moveToLevel_ends:
  assumes ok: "levelsOk (snd (moveToLevelHandler env ep cmd level t om ov stored st))" (is "levelsOk ?st")
    and s: "getState ep st = Some s" "CurrentLevel s = Some (Some cur)" "cur \<le> 254"
    and x: "level \<le> PLUGIN_MAXIMUM_LEVEL" "shouldExecuteIfOff ep cmd om ov st"
    and r: "minLevel s \<le> maxLevel s" "maxLevel s \<le> 254"
    and n: "254 \<le> length cs" "cur \<noteq> moveTarget s level" and rd: "readable s"
  obtains st' s' where "runTicks ep cs ?st = Inr st'" "levelsOk st'" "only ep ?st st'"
    "reached ep s' ?st st'" "relayOk (app ?st) \<longrightarrow> relayOk (app st')" "config s' = config s"
    "moveToLevel s' = moveTarget s level" "storedLevel s' = stored" "commandId s' = cmd"
proof -
  from moveToLevel_starts(2) [OF s(1,2) x rd n(2), of env t stored] obtain s' where s': "levelTimer ?st ep \<noteq> None"
    "getState ep ?st = Some s'" "config s' = config s" "CurrentLevel s' = Some (Some cur)"
    "moveToLevel s' = moveTarget s level" "storedLevel s' = stored" "commandId s' = cmd" by blast
  have "moveToLevel s' \<le> 254" using moveTarget_range [OF r(1), of level] r(2) s'(5) by auto
  then have "togo s' cur \<le> length cs" using togo_le [OF s(3)] n(1) by (meson order_trans)
  from transition_ends [OF ok s'(2,1,4) this] show ?thesis using that s' by blast
qed

lemma rangeD':
  assumes "levelsOk st" "getState ep st = Some s" "CurrentLevel s = Some (Some cur)"
  shows "minLevel s \<le> maxLevel s" "maxLevel s \<le> 254" "minLevel s \<le> cur" "cur \<le> maxLevel s" "cur \<le> 254" "readable s"
  using rangeD [OF assms(1,2)] assms(3) order_trans [of cur "maxLevel s" 254] by (auto simp: epOk_def)

lemma stored_valid: "ucast (c :: u8) \<noteq> INVALID_STORED_LEVEL"
proof
  assume "ucast c = INVALID_STORED_LEVEL"
  then have "unat (ucast c :: u16) = 65535" by (simp add: INVALID_STORED_LEVEL_def)
  moreover have "unat (ucast c :: u16) < 256"
    using unsigned_less [of c, where 'a = nat] by (simp add: unsigned_ucast_eq take_bit_nat_eq_self)
  ultimately show False by simp
qed

lemma reachedD:
  "reached ep s st st' \<Longrightarrow> \<exists>s'. getState ep st' = Some s' \<and> config s' = config s \<and>
     CurrentLevel s' = Some (Some (if storedLevel s = INVALID_STORED_LEVEL then moveToLevel s else ucast (storedLevel s)))"
  by (simp add: reached_def)

lemma feature_frames [simp]:
  "LevelControlWithOnOffFeaturePresent (setApp env ep v st) e = LevelControlWithOnOffFeaturePresent st e"
  "LevelControlWithOnOffFeaturePresent (setOO ep f st) e = LevelControlWithOnOffFeaturePresent st e"
  "LevelControlWithOnOffFeaturePresent (cancelEndpointTimerCallback ep st) e = LevelControlWithOnOffFeaturePresent st e"
  by (simp_all add: LevelControlWithOnOffFeaturePresent_def LevelControlHasFeature_def getState_def)

lemma off_is_effect:
  "OnOff_Get ep (app st) = Some True \<Longrightarrow> LevelControlWithOnOffFeaturePresent st ep \<Longrightarrow>
     snd (onOffOp offCommand env ep st) = LevelControlEffectCallback env ep False st"
  by (simp add: offCommand_def setOnOffValue_def cmdOff_def cmdOn_def)

abbreviation "noOnLevel s \<equiv> OnLevel s = None \<or> OnLevel s = Some None"

lemma effect_off:
  "getState ep st = Some s \<Longrightarrow> CurrentLevel s = Some (Some cur) \<Longrightarrow> readable s \<Longrightarrow>
     LevelControlEffectCallback env ep False st =
       snd (moveToLevelHandler env ep cmdMoveToLevelWithOnOff (minLevel s) (OnOffTransitionTime s) None None
              (if noOnLevel s then ucast cur else INVALID_STORED_LEVEL) st)"
  by (auto simp: LevelControlEffectCallback_def readable_def Let_def split: option.split)

lemma off_ends:
  assumes ok: "levelsOk st" and on: "OnOff_Get ep (app st) = Some True" and f: "LevelControlWithOnOffFeaturePresent st ep"
    and s: "getState ep st = Some s" "CurrentLevel s = Some (Some cur)" and n: "254 \<le> length cs"
  obtains st' s' where "runTicks ep cs (snd (onOffOp offCommand env ep st)) = Inr st'" "levelsOk st'"
    "relayOk (app st) \<longrightarrow> relayOk (app st')" "OnOff_Get ep (app st') = Some False" "shown (app st') ep"
    "levelTimer st' ep = None" "getState ep st' = Some s'" "config s' = config s"
    "CurrentLevel s' = Some (Some (if noOnLevel s then cur else minLevel s))"
proof -
  let ?x = "if noOnLevel s then ucast cur else INVALID_STORED_LEVEL"
  let ?st = "snd (moveToLevelHandler env ep cmdMoveToLevelWithOnOff (minLevel s) (OnOffTransitionTime s) None None ?x st)"
  have eq: "snd (onOffOp offCommand env ep st) = ?st"
    using off_is_effect [OF on f] effect_off [OF s rangeD'(6) [OF ok s]] by simp
  note c = rangeD' [OF ok s]
  have x: "minLevel s \<le> PLUGIN_MAXIMUM_LEVEL" "shouldExecuteIfOff ep cmdMoveToLevelWithOnOff None None st"
    using c by (auto simp: PLUGIN_MAXIMUM_LEVEL_def shouldExecuteIfOff_def cmdStop_def cmdMoveToLevelWithOnOff_def
        split: option.split)
  have t: "moveTarget s (minLevel s) = minLevel s" by (rule moveTarget_min [OF c(1)])
  note st = moveToLevel_starts [OF s x c(6), where env = env and t = "OnOffTransitionTime s" and stored = ?x, unfolded t]
  have ok': "levelsOk ?st" using effect_ok [OF ok, of False ep env] effect_off [OF s c(6)] by simp
  have rok: "relayOk (app st) \<longrightarrow> relayOk (app ?st)" using moveToLevel_relayOk by blast
  show ?thesis
  proof (cases "cur = minLevel s")
    case True
    have app: "app ?st = OnOff_Set env ep False (app st)" using st(3) True on by (simp add: turnWithLevel_def levelSet_app)
    show ?thesis
      by (rule that [of ?st "s\<lparr>commandId := cmdMoveToLevelWithOnOff, moveToLevel := minLevel s\<rparr>", unfolded eq]) (use st(1) True app on ok' rok s in
          \<open>auto simp: runTicks_idle intro: shown_Set\<close>)
  next
    case False
    then have t': "cur \<noteq> moveTarget s (minLevel s)" "\<not> cur \<le> minLevel s" using t c(3) by auto
    have app: "app ?st = app st" using st(3) t'(2) by (simp add: turnWithLevel_def)
    obtain st' s1 where r: "runTicks ep cs ?st = Inr st'" "levelsOk st'" "only ep ?st st'"
      "reached ep s1 ?st st'" "relayOk (app ?st) \<longrightarrow> relayOk (app st')" "config s1 = config s"
      "moveToLevel s1 = moveTarget s (minLevel s)" "storedLevel s1 = ?x" "commandId s1 = cmdMoveToLevelWithOnOff"
      by (rule moveToLevel_ends [OF ok' s c(5) x c(1,2) n t'(1) c(6)])
    have w: "withOnOff s1" "moveToLevel s1 = minLevel s1" using r(6,7,9) t by (auto simp: withOnOff_def config_def)
    from reachedD [OF r(4), unfolded r(7,8) t] obtain s' where s': "getState ep st' = Some s'" "config s' = config s1"
      "CurrentLevel s' = Some (Some (if ?x = INVALID_STORED_LEVEL then minLevel s else ucast ?x))" by blast
    show ?thesis
      by (rule that [of st' s', unfolded eq]) (use r s' w on app rok in
          \<open>auto simp: reached_def stored_valid ucast_down_ucast_id is_down\<close>)
  qed
qed

lemma on_is_effect:
  assumes "OnOff_Get ep (app st) = Some False" "LevelControlWithOnOffFeaturePresent st ep"
  obtains st2 where "snd (onOffOp onCommand env ep st) = LevelControlEffectCallback env ep True st2"
    "levels st2 = levels st" "levelTimer st2 = levelTimer st" "app st2 = OnOff_Set env ep True (app st)"
    "\<forall>e. getState e st2 = getState e st"
proof -
  let ?st1 = "if SupportsLightingApplications ep st
     then setOO ep (globalSceneControl_update (\<lambda>_. True))
            (if onTime (oo st ep) = 0 then cancelEndpointTimerCallback ep (setOO ep (offWaitTime_update (\<lambda>_. 0)) st) else st)
     else st"
  let ?st2 = "setApp env ep True ?st1"
  have st: "levels ?st2 = levels st" "levelTimer ?st2 = levelTimer st" "app ?st2 = OnOff_Set env ep True (app st)" by simp_all
  then have g: "getState e ?st2 = getState e st" for e by (simp add: getState_def)
  have "snd (onOffOp onCommand env ep st) = LevelControlEffectCallback env ep True ?st2"
    using assms by (simp add: onCommand_def setOnOffValue_def cmdOff_def cmdOn_def Let_def)
  then show ?thesis using that st g by blast
qed

lemma effect_on:
  "getState ep st = Some s \<Longrightarrow> CurrentLevel s = Some (Some cur) \<Longrightarrow> minLevel s \<noteq> 255 \<Longrightarrow> noOnLevel s \<Longrightarrow> readable s \<Longrightarrow>
     LevelControlEffectCallback env ep True st =
       snd (moveToLevelHandler env ep cmdMoveToLevel cur (OnOffTransitionTime s) None None INVALID_STORED_LEVEL
              (updLevel ep (CurrentLevel_update (\<lambda>_. Some (Some (minLevel s)))) st))"
  by (auto simp: LevelControlEffectCallback_def CurrentLevel_Set_def readable_def Let_def split: option.split)

lemma on_ends:
  assumes ok: "levelsOk st" and off: "OnOff_Get ep (app st) = Some False" and f: "LevelControlWithOnOffFeaturePresent st ep"
    and s: "getState ep st = Some s" "CurrentLevel s = Some (Some cur)" and none: "noOnLevel s" and n: "254 \<le> length cs"
  obtains st' s' where "runTicks ep cs (snd (onOffOp onCommand env ep st)) = Inr st'"
    "OnOff_Get ep (app st') = Some True" "shown (app st') ep" "getState ep st' = Some s'" "CurrentLevel s' = Some (Some cur)"
proof -
  obtain st2 where st2: "snd (onOffOp onCommand env ep st) = LevelControlEffectCallback env ep True st2"
    "levels st2 = levels st" "levelTimer st2 = levelTimer st" "app st2 = OnOff_Set env ep True (app st)"
    "\<forall>e. getState e st2 = getState e st" by (rule on_is_effect [OF off f, of env])
  note c = rangeD' [OF ok s]
  let ?s3 = "s\<lparr>CurrentLevel := Some (Some (minLevel s))\<rparr>"
  let ?st3 = "updLevel ep (CurrentLevel_update (\<lambda>_. Some (Some (minLevel s)))) st2"
  let ?st = "snd (moveToLevelHandler env ep cmdMoveToLevel cur (OnOffTransitionTime s) None None INVALID_STORED_LEVEL ?st3)"
  have s2: "getState ep st2 = Some s" using s st2(5) by simp
  have min: "minLevel s \<noteq> 255" "minLevel s \<le> 254" using order_trans [OF c(1,2)] by (auto simp: word_le_nat_alt)
  have eq: "snd (onOffOp onCommand env ep st) = ?st"
    unfolding st2(1) by (rule effect_on [OF s2 s(2) min(1) none c(6)])
  have on: "OnOff_Get ep (app st2) = Some True" "shown (app st2) ep" using off st2(4) by (auto intro: shown_Set)
  have ok': "levelsOk ?st"
    using effect_ok [of st2 True ep env] ok levelsOk_cong [OF st2(2,3)] on effect_on [OF s2 s(2) min(1) none c(6)] by simp
  have s3: "getState ep ?st3 = Some ?s3" "CurrentLevel ?s3 = Some (Some (minLevel s))" using s2 by simp_all
  have x: "cur \<le> PLUGIN_MAXIMUM_LEVEL" "shouldExecuteIfOff ep cmdMoveToLevel None None ?st3"
    using c(5) on by (auto simp: PLUGIN_MAXIMUM_LEVEL_def shouldExecuteIfOff_def split: option.split)
  have t: "moveTarget ?s3 cur = cur" by (rule moveTarget_in) (use c in simp_all)
  have w: "cmdMoveToLevel \<noteq> cmdMoveToLevelWithOnOff" by (simp add: cmdMoveToLevel_def cmdMoveToLevelWithOnOff_def)
  have rd: "readable ?s3" using c(6) by simp
  note st = moveToLevel_starts [OF s3 x rd, where env = env and t = "OnOffTransitionTime s" and stored = INVALID_STORED_LEVEL, unfolded t]
  have app: "app ?st = app st2" using st(3) w by (simp add: turnWithLevel_def)
  show ?thesis
  proof (cases "minLevel s = cur")
    case True
    show ?thesis by (rule that [of ?st "?s3\<lparr>commandId := cmdMoveToLevel, moveToLevel := cur\<rparr>", unfolded eq])
        (use st(1) True app on in \<open>auto simp: runTicks_idle\<close>)
  next
    case False
    then have t': "minLevel s \<noteq> moveTarget ?s3 cur" using t by simp
    obtain st' s1 where r: "runTicks ep cs ?st = Inr st'" "levelsOk st'" "only ep ?st st'"
      "reached ep s1 ?st st'" "relayOk (app ?st) \<longrightarrow> relayOk (app st')" "config s1 = config ?s3"
      "moveToLevel s1 = moveTarget ?s3 cur" "storedLevel s1 = INVALID_STORED_LEVEL" "commandId s1 = cmdMoveToLevel"
      by (rule moveToLevel_ends [OF ok' s3 min(2) x _ _ n t' rd]) (use c in simp_all)
    have "\<not> withOnOff s1" using r(9) by (simp add: withOnOff_def cmdMoveToLevel_def cmdMoveToLevelWithOnOff_def
        cmdMoveWithOnOff_def cmdStepWithOnOff_def)
    moreover obtain s' where "getState ep st' = Some s'" "CurrentLevel s' = Some (Some cur)"
      using reachedD [OF r(4), unfolded r(7,8) t] by auto
    ultimately show ?thesis
      by (intro that [of st' s', unfolded eq]) (use r(1,4) on app in \<open>auto simp: reached_def\<close>)
  qed
qed

section \<open>The on/off timer during a fade\<close>

text \<open>The device is on, its on-time is over, and its level is above the minimum.\<close>

definition fading :: "EndpointId \<Rightarrow> levelEp \<Rightarrow> u8 \<Rightarrow> device \<Rightarrow> bool" where
  "fading ep s0 cur st \<longleftrightarrow> OnOff_Get ep (app st) = Some True \<and> LevelControlWithOnOffFeaturePresent st ep \<and>
     ooTimer st ep \<noteq> None \<and> onTime (oo st ep) = 0 \<and>
     (\<exists>s. getState ep st = Some s \<and> config s = config s0 \<and> CurrentLevel s = Some (Some cur)) \<and>
     minLevel s0 \<le> maxLevel s0 \<and> maxLevel s0 \<le> 254 \<and> minLevel s0 < cur \<and> readable s0"

lemma wait_le: "fst (calculateNextWaitTimeMS env st) \<le> 100"
proof -
  have u: "ucast (x :: u64) \<le> (100 :: u32)" if "x \<le> 100" for x
  proof -
    have "unat x \<le> 100" using that by (simp add: word_le_nat_alt)
    then show ?thesis by (simp add: word_le_nat_alt unsigned_ucast_eq take_bit_nat_eq_self)
  qed
  have "100 - l \<le> (100 :: u64)" if "l < 100" for l :: u64
    using that by (simp add: word_le_nat_alt word_less_nat_alt unat_sub)
  then show ?thesis by (auto simp: calculateNextWaitTimeMS_def Let_def ON_OFF_UPDATE_TIME_MS_def intro!: u)
qed

lemma fade_frames [simp]:
  "ooTimer (updLevel ep f st) = ooTimer st" "ooTimer (cancelLevelTimer ep st) = ooTimer st"
  "ooTimer (scheduleLevelTimer ep d st) = ooTimer st" "oo (cancelLevelTimer ep st) = oo st"
  "oo (scheduleLevelTimer ep d st) = oo st" "oo (startTransition env ep a b c st) = oo st"
  "ooTimer (startTransition env ep a b c st) = ooTimer st"
  by (simp_all add: updLevel_def cancelLevelTimer_def scheduleLevelTimer_def startTransition_def scheduleNext_def
      setRunTime_def split: option.split prod.split)

lemma fade_starts:
  fixes env :: appEnv
  assumes s: "getState ep st = Some s" "CurrentLevel s = Some (Some cur)" "minLevel s \<le> maxLevel s" "maxLevel s \<le> 254"
    "minLevel s < cur" and t: "OnOffTransitionTime s = Some t" and rd: "readable s"
  defines "st' \<equiv> LevelControlEffectCallback env ep False st"
  shows "app st' = app st" "oo st' = oo st" "ooTimer st' = ooTimer st"
    "levelTimer st' ep = Some (decisecondsToMs t div ucast (cur - minLevel s))"
    "\<exists>s'. getState ep st' = Some s' \<and> config s' = config s \<and> CurrentLevel s' = Some (Some cur)"
proof -
  have x: "minLevel s \<le> PLUGIN_MAXIMUM_LEVEL" "shouldExecuteIfOff ep cmdMoveToLevelWithOnOff None None st"
    using order_trans [OF s(3,4)] by (auto simp: PLUGIN_MAXIMUM_LEVEL_def shouldExecuteIfOff_def cmdStop_def
        cmdMoveToLevelWithOnOff_def split: option.split)
  have m: "moveTarget s (minLevel s) = minLevel s" "cur \<noteq> minLevel s" "\<not> cur \<le> minLevel s" "\<not> cur < minLevel s"
    using moveTarget_min [OF s(3)] s(5) by auto
  have eq: "st' = startTransition env ep (decisecondsToMs t) (decisecondsToMs t div ucast (cur - minLevel s))
      (if noOnLevel s then ucast cur else INVALID_STORED_LEVEL)
      (updLevel ep (increasing_update (\<lambda>_. False)) (updLevel ep (\<lambda>s'. s'\<lparr>commandId := cmdMoveToLevelWithOnOff, moveToLevel := minLevel s\<rparr>)
        (cancelLevelTimer ep st)))"
    unfolding st'_def effect_off [OF s(1,2) rd] using s(1,2) x m t
    by (auto simp: moveToLevelHandler_def Let_def transitionFor_readable [OF rd] turnWithLevel_def)
  show "app st' = app st" "oo st' = oo st" "ooTimer st' = ooTimer st"
    "levelTimer st' ep = Some (decisecondsToMs t div ucast (cur - minLevel s))"
    "\<exists>s'. getState ep st' = Some s' \<and> config s' = config s \<and> CurrentLevel s' = Some (Some cur)"
    unfolding eq using s(1,2) by (simp_all add: startTransition_state)
qed

lemma getState_same: "app st' = app st \<Longrightarrow> levels st' = levels st \<Longrightarrow> getState ep st' = getState ep st"
  by (simp add: getState_def)

lemma update_expired:
  assumes "OnOff_Get ep (app st) = Some True" "LevelControlWithOnOffFeaturePresent st ep" "onTime (oo st ep) = 0" "ooTimer st ep \<noteq> None"
  obtains st1 w where "onOffOp onOffTimerFires env ep st = LevelControlEffectCallback env ep False st1"
    "app st1 = app st" "ooTimer st1 ep = Some w" "w \<le> 100" "onTime (oo st1 ep) = 0" "levels st1 = levels st"
proof -
  let ?st0 = "st\<lparr>ooTimer := (ooTimer st)(ep := None)\<rparr>"
  obtain w st2 where w: "calculateNextWaitTimeMS env ?st0 = (w, st2)" by fastforce
  let ?st1 = "setOO ep (offWaitTime_update (\<lambda>_. 0)) (scheduleTimerCallbackMs ep w st2)"
  have st2: "app st2 = app st" "oo st2 = oo st" "levels st2 = levels st"
    using w by (auto simp: calculateNextWaitTimeMS_def Let_def)
  have served: "isServed ep st2" using st2 assms(1) by (simp add: isServed_def)
  have a: "app ?st1 = app st" "ooTimer ?st1 ep = Some w" "onTime (oo ?st1 ep) = 0" "levels ?st1 = levels st"
    using served st2 assms(3) by (simp_all add: scheduleTimerCallbackMs_def setOO_def isServed_def)
  have f: "LevelControlWithOnOffFeaturePresent ?st1 ep"
    using assms(2) getState_same [OF a(1,4), of ep] by (simp only: LevelControlWithOnOffFeaturePresent_def LevelControlHasFeature_def)
  have o: "onTime (oo (scheduleTimerCallbackMs ep w st2) ep) = 0"
    using st2 assms(3) by (simp add: scheduleTimerCallbackMs_def)
  have "onOffOp onOffTimerFires env ep st = snd (onOffOp setOnOffValue env ep cmdOff False ?st1)"
    using assms(1,4) w o by (auto simp: onOffTimerFires_def updateOnOffTimeCommand_def readOr_def Let_def)
  also have "\<dots> = LevelControlEffectCallback env ep False ?st1"
    using a(1) assms(1) f by (simp add: setOnOffValue_def cmdOff_def cmdOn_def)
  finally show ?thesis using that [of ?st1 w] a wait_le [of env ?st0] w by simp
qed

lemma fading_fires:
  fixes env :: appEnv
  assumes f: "fading ep s0 cur st" and t: "OnOffTransitionTime s0 = Some t"
  defines "st' \<equiv> onOffOp onOffTimerFires env ep st"
  shows "fading ep s0 cur st'" "levelTimer st' ep = Some (decisecondsToMs t div ucast (cur - minLevel s0))"
    "\<exists>w\<le>100. ooTimer st' ep = Some w"
proof -
  obtain s where s: "getState ep st = Some s" "config s = config s0" "CurrentLevel s = Some (Some cur)"
    using f by (auto simp: fading_def)
  obtain st1 w where st1: "st' = LevelControlEffectCallback env ep False st1" "app st1 = app st" "ooTimer st1 ep = Some w"
      "w \<le> 100" "onTime (oo st1 ep) = 0" "levels st1 = levels st"
    unfolding st'_def by (rule update_expired [of ep st env]) (use f in \<open>auto simp: fading_def\<close>)
  have g: "getState ep st1 = Some s" using s(1) getState_same [OF st1(2,6), of ep] by simp
  have c: "minLevel s = minLevel s0" "minLevel s \<le> maxLevel s" "maxLevel s \<le> 254" "minLevel s < cur" "OnOffTransitionTime s = Some t" "readable s"
    using s(2) f t by (auto simp: config_def fading_def)
  note fs = fade_starts [OF g s(3) c(2-6), of env, folded st1(1)]
  have feat: "LevelControlWithOnOffFeaturePresent st' ep"
    using fs(5) s f by (auto simp: LevelControlWithOnOffFeaturePresent_def LevelControlHasFeature_def fading_def config_def)
  show "levelTimer st' ep = Some (decisecondsToMs t div ucast (cur - minLevel s0))" using fs(4) c(1) by simp
  show "\<exists>w\<le>100. ooTimer st' ep = Some w" using fs(3) st1(3,4) by auto
  show "fading ep s0 cur st'" using f fs st1 s feat by (auto simp: fading_def)
qed

lemma fading_run:
  "fading ep s0 cur st \<Longrightarrow> OnOffTransitionTime s0 = Some t \<Longrightarrow>
     fading ep s0 cur (fold (\<lambda>env. onOffOp onOffTimerFires env ep) envs st)"
  by (induction envs arbitrary: st) (auto intro: fading_fires(1))

section \<open>A sample device\<close>

definition demoLevel :: levelEp where
  "demoLevel = \<lparr>commandId = 0, moveToLevel = 0, increasing = False, onLevelState = 0, minLevel = 1, maxLevel = 254,
     storedLevel = 0, eventDurationMs = 0, transitionTimeMs = 0, elapsedTimeMs = 0,
     callbackSchedule = \<lparr>idealTimestamp = 0, runTime = 0\<rparr>,
     CurrentLevel = Some (Some 200), RemainingTime = Some 0, MinLevel = Some 1, MaxLevel = Some 254, Options = Some 0,
     OnOffTransitionTime = Some 300, OnOffTransitionTimeReadable = True, OnLevel = Some None, OnLevelReadable = True, DefaultMoveRate = Some (Some 50),
     StartUpCurrentLevel = Some None, FeatureMap = 3, startUpLevelNonVolatile = True\<rparr>"

definition demoDevice :: device where
  "demoDevice = \<lparr>app = powerOn None [1 \<mapsto> True],
     oo = \<lambda>_. \<lparr>onTime = 0, offWaitTime = 0, globalSceneControl = True, featureMap = 1, startUpOnOff = None,
               startUpNonVolatile = True\<rparr>,
     ooTimer = \<lambda>_. None, nextDesiredOnWithTimedOffTimestamp = 0, effects = [], triggered = [],
     levels = [1 \<mapsto> demoLevel], levelTimer = \<lambda>_. None\<rparr>"

lemma power_fields [simp]: "endpointEnabled (powerOn cnt attrs) = (\<lambda>_. True)" "OnOff_Get ep (powerOn cnt attrs) = attrs ep"
  by (simp_all add: powerOn_def OnOff_Get_def)

lemma demo_atPowerOn: "atPowerOn [1] demoDevice"
  by (auto simp: atPowerOn_def demoDevice_def relayOk_power usable_def readable_def levelRange_def demoLevel_def
      LEVEL_CONTROL_LIGHTING_MIN_LEVEL_def LEVEL_CONTROL_LIGHTING_MAX_LEVEL_def Let_def split: if_splits)

text \<open>Starting the sample device leaves its level data and its on/off attribute as they were.\<close>

definition demoStart :: device where
  "demoStart = bootDevice demoEnv [1] demoDevice"

lemma demo_reachable: "reachable demoStart"
  unfolding demoStart_def by (rule reachable.boot [OF demo_atPowerOn]) simp

lemma demo_fields [simp]:
  "app demoDevice = powerOn None [1 \<mapsto> True]" "getState 1 demoDevice = Some demoLevel"
  "featureMap (oo demoDevice ep) = 1" "startUpOnOff (oo demoDevice ep) = None" "levelTimer demoDevice ep = None"
  by (simp_all add: demoDevice_def getState_def)

lemma demo_upd: "f demoLevel = demoLevel \<Longrightarrow> updLevel 1 f demoDevice = demoDevice"
  by (simp add: updLevel_def) (simp add: demoDevice_def)

lemma demo_level_init: "levelServerInit 1 demoDevice = demoDevice"
proof -
  have r: "levelRange demoLevel = (1, 254)"
    by (simp add: levelRange_def demoLevel_def LEVEL_CONTROL_LIGHTING_MIN_LEVEL_def LEVEL_CONTROL_LIGHTING_MAX_LEVEL_def)
  have i: "initLevels 1 demoDevice = demoDevice"
    unfolding initLevels_def by (rule demo_upd) (simp add: r, simp add: demoLevel_def)
  have c: "CurrentLevel_Set 1 200 demoDevice = (True, demoDevice)"
    using demo_upd [of "CurrentLevel_update (\<lambda>_. Some (Some 200))"] by (simp add: CurrentLevel_Set_def demoLevel_def)
  have "applyStartUp 1 demoLevel (Some 200) demoDevice = (Some 200, demoDevice)"
    by (simp add: applyStartUp_def startLevel_def demoLevel_def c)
  then show ?thesis by (simp add: levelServerInit_def i) (simp add: demoLevel_def)
qed

lemma demo_start: "demoStart = demoDevice"
  by (simp add: demoStart_def bootDevice_def demo_level_init initOnOffServer_def getOnOffValueForStartUp_def
      setOnOffValue_def cmdOff_def cmdOn_def)

lemma demo_oo: "onTime (oo demoDevice ep) = 0" "offWaitTime (oo demoDevice ep) = 0"
  by (simp_all add: demoDevice_def)

lemma demo_feature: "LevelControlWithOnOffFeaturePresent demoDevice 1"
  by (simp add: LevelControlWithOnOffFeaturePresent_def LevelControlHasFeature_def demoLevel_def)

lemma demo_level_fields:
  "CurrentLevel demoLevel = Some (Some 200)" "OnLevel demoLevel = Some None" "minLevel demoLevel = 1"
  "OnOffTransitionTime demoLevel = Some 300" "maxLevel demoLevel = 254"
  by (simp_all add: demoLevel_def)

section \<open>Properties\<close>

text \<open>
  C1.  In every state the device can reach, every operation except a Move command with rate zero
  completes: no assertion of the tick fails and nothing is divided by zero.  The current level of
  every endpoint is within the limits of the endpoint, and the relays follow their attributes.
\<close>

theorem device_operations_safe:
  assumes "reachable st" "sound op"
  shows "\<exists>st'. stepDevice op st = Inr st' \<and> relayOk (app st') \<and>
    (\<forall>ep s. levels st' ep = Some s \<longrightarrow>
       (\<exists>cur. CurrentLevel s = Some (Some cur) \<and> minLevel s \<le> cur \<and> cur \<le> maxLevel s))"
proof -
  obtain st' where "stepDevice op st = Inr st'" "deviceOk st'" using op_ok [OF reachable_ok [OF assms(1)] assms(2)] by blast
  moreover have "\<exists>cur. CurrentLevel s = Some (Some cur) \<and> minLevel s \<le> cur \<and> cur \<le> maxLevel s"
    if "levels st' ep = Some s" for ep s
    using that calculation(2) unfolding deviceOk_def levelsOk_def epOk_def by blast
  ultimately show ?thesis by (auto simp: deviceOk_def)
qed

theorem device_operations_safe_witness:
  "\<exists>st'. stepDevice (LevelStep demoEnv 1 True 1 250 (Some 20) 0 0) demoStart = Inr st' \<and> relayOk (app st')"
  using device_operations_safe [OF demo_reachable, of "LevelStep demoEnv 1 True 1 250 (Some 20) 0 0"] by auto

text \<open>
  C2.  An Off command on a reachable, switched-on endpoint with Level Control turns it off: after at most
  254 expiries of the level timer, with whatever clock readings, no assertion has failed, the on/off
  attribute is off, the timer is idle and the relay of the endpoint has been driven low.
\<close>

theorem off_switches_relay_off:
  assumes "reachable st" "OnOff_Get ep (app st) = Some True" "LevelControlWithOnOffFeaturePresent st ep" "254 \<le> length cs"
  shows "\<exists>st'. runTicks ep cs (snd (offCommand LevelControlWithOnOffFeaturePresent LevelControlEffectCallback env ep st)) = Inr st' \<and>
    OnOff_Get ep (app st') = Some False \<and> levelTimer st' ep = None \<and>
    (\<forall>pin. relayPin (u8Config (app st')) ep = Some pin \<longrightarrow> lastOut pin (gpio (app st')) = Some 0)"
proof -
  have ok: "levelsOk st" using reachable_ok [OF assms(1)] by (simp add: deviceOk_def)
  obtain s where s: "getState ep st = Some s"
    using assms(3) by (auto simp: LevelControlWithOnOffFeaturePresent_def LevelControlHasFeature_def split: option.splits)
  obtain cur where cur: "CurrentLevel s = Some (Some cur)" by (rule rangeD [OF ok s])
  obtain st' s' where "runTicks ep cs (snd (onOffOp offCommand env ep st)) = Inr st'" "levelsOk st'"
    "relayOk (app st) \<longrightarrow> relayOk (app st')" "OnOff_Get ep (app st') = Some False" "shown (app st') ep"
    "levelTimer st' ep = None" "getState ep st' = Some s'" "config s' = config s"
    "CurrentLevel s' = Some (Some (if noOnLevel s then cur else minLevel s))"
    by (rule off_ends [OF ok assms(2,3) s cur assms(4)])
  then show ?thesis by (auto simp: shown_def)
qed

theorem off_switches_relay_off_witness:
  "\<exists>st'. runTicks 1 (replicate 254 (demoEnv, 0, 0))
      (snd (offCommand LevelControlWithOnOffFeaturePresent LevelControlEffectCallback demoEnv 1 demoStart)) = Inr st' \<and>
    OnOff_Get 1 (app st') = Some False \<and> levelTimer st' 1 = None"
  using off_switches_relay_off [OF demo_reachable, of 1 "replicate 254 (demoEnv, 0, 0)" demoEnv]
  by (auto simp: demo_start demo_feature)

text \<open>
  Off and then On bring the endpoint back: without an \<open>OnLevel\<close>, the level after the On command is the
  level before the Off command, whatever the transition times are.
\<close>

theorem off_on_restores_level:
  assumes "reachable st" "OnOff_Get ep (app st) = Some True" "LevelControlWithOnOffFeaturePresent st ep"
    "getState ep st = Some s" "OnLevel s = None \<or> OnLevel s = Some None" "254 \<le> length cs1" "254 \<le> length cs2"
  shows "\<exists>st1 st2 s2.
    runTicks ep cs1 (snd (offCommand LevelControlWithOnOffFeaturePresent LevelControlEffectCallback env1 ep st)) = Inr st1 \<and>
    OnOff_Get ep (app st1) = Some False \<and>
    runTicks ep cs2 (snd (onCommand LevelControlWithOnOffFeaturePresent LevelControlEffectCallback env2 ep st1)) = Inr st2 \<and>
    OnOff_Get ep (app st2) = Some True \<and> getState ep st2 = Some s2 \<and> CurrentLevel s2 = CurrentLevel s"
proof -
  have ok: "levelsOk st" using reachable_ok [OF assms(1)] by (simp add: deviceOk_def)
  obtain cur where cur: "CurrentLevel s = Some (Some cur)" by (rule rangeD [OF ok assms(4)])
  obtain st1 s1 where r1: "runTicks ep cs1 (snd (onOffOp offCommand env1 ep st)) = Inr st1" "levelsOk st1"
    "relayOk (app st) \<longrightarrow> relayOk (app st1)" "OnOff_Get ep (app st1) = Some False" "shown (app st1) ep"
    "levelTimer st1 ep = None" "getState ep st1 = Some s1" "config s1 = config s"
    "CurrentLevel s1 = Some (Some (if noOnLevel s then cur else minLevel s))"
    by (rule off_ends [OF ok assms(2-4) cur assms(6)])
  have f: "LevelControlWithOnOffFeaturePresent st1 ep" "noOnLevel s1"
    using assms(3-5) r1(7,8) by (auto simp: LevelControlWithOnOffFeaturePresent_def LevelControlHasFeature_def config_def)
  have c1: "CurrentLevel s1 = Some (Some cur)" using r1(9) assms(5) by simp
  obtain st2 s2 where "runTicks ep cs2 (snd (onOffOp onCommand env2 ep st1)) = Inr st2"
    "OnOff_Get ep (app st2) = Some True" "shown (app st2) ep" "getState ep st2 = Some s2" "CurrentLevel s2 = Some (Some cur)"
    by (rule on_ends [OF r1(2,4) f(1) r1(7) c1 f(2) assms(7)])
  then show ?thesis using r1(1,4) cur by auto
qed

theorem off_on_restores_level_witness:
  "\<exists>st1 st2 s2.
    runTicks 1 (replicate 254 (demoEnv, 0, 0))
      (snd (offCommand LevelControlWithOnOffFeaturePresent LevelControlEffectCallback demoEnv 1 demoStart)) = Inr st1 \<and>
    runTicks 1 (replicate 254 (demoEnv, 0, 0))
      (snd (onCommand LevelControlWithOnOffFeaturePresent LevelControlEffectCallback demoEnv 1 st1)) = Inr st2 \<and>
    getState 1 st2 = Some s2 \<and> CurrentLevel s2 = Some (Some 200)"
  using off_on_restores_level [OF demo_reachable, of 1 demoLevel "replicate 254 (demoEnv, 0, 0)"
      "replicate 254 (demoEnv, 0, 0)" demoEnv demoEnv]
  by (auto simp: demo_start demo_feature demo_level_fields)

text \<open>
  A Move command with rate zero, on an endpoint whose level is not yet at the limit it would move
  to, divides by zero.  Only the default rate is checked for zero.
\<close>

theorem move_rate_zero_divides:
  assumes "getState ep st = Some s" "shouldExecuteIfOff ep cmd om ov st" "CurrentLevel s = Some (Some cur)"
    "mode = 0 \<and> cur \<noteq> maxLevel s \<or> mode = 1 \<and> cur \<noteq> minLevel s"
  shows "moveHandler env ep cmd mode (Some 0) om ov st = Inl DivideByZero"
  using assms by (auto simp: moveHandler_def moveDuration_def Let_def)

theorem move_rate_zero_divides_witness:
  "moveHandler demoEnv 1 cmdMove 0 (Some 0) (Some 0) (Some 0) demoStart = Inl DivideByZero"
proof -
  have "shouldExecuteIfOff 1 cmdMove (Some 0) (Some 0) demoDevice"
    by (simp add: shouldExecuteIfOff_def split: option.split)
  then show ?thesis
    using move_rate_zero_divides [of 1 demoDevice demoLevel cmdMove "Some 0" "Some 0" 200 0 demoEnv]
    by (simp add: demo_start demo_level_fields)
qed

text \<open>
  When the on-time of an endpoint is over, every expiry of the on/off timer starts the fade to the
  minimum level again.  If one step of the fade takes longer than 100 ms, the on/off timer, which is
  set to at most 100 ms, is always due first: after any number of its expiries the endpoint is still
  on, at the same level, and the on/off timer is due before the level timer.
\<close>

theorem expired_on_time_restarts_fade:
  assumes "reachable st" "OnOff_Get ep (app st) = Some True" "LevelControlWithOnOffFeaturePresent st ep"
    "ooTimer st ep \<noteq> None" "onTime (oo st ep) = 0" "getState ep st = Some s" "CurrentLevel s = Some (Some cur)"
    "OnOffTransitionTime s = Some t" "minLevel s < cur" "100 < decisecondsToMs t div ucast (cur - minLevel s)"
  shows "let st' = fold (\<lambda>env. onOffTimerFires LevelControlWithOnOffFeaturePresent LevelControlEffectCallback env ep) (envs @ [env]) st
    in OnOff_Get ep (app st') = Some True \<and>
       (\<exists>s'. getState ep st' = Some s' \<and> CurrentLevel s' = Some (Some cur)) \<and>
       (\<exists>w d. ooTimer st' ep = Some w \<and> levelTimer st' ep = Some d \<and> w < d)"
proof -
  have ok: "levelsOk st" using reachable_ok [OF assms(1)] by (simp add: deviceOk_def)
  have "fading ep s cur st" using assms rangeD' [OF ok assms(6,7)] by (auto simp: fading_def)
  then have f: "fading ep s cur (fold (\<lambda>env. onOffOp onOffTimerFires env ep) envs st)"
    by (rule fading_run [OF _ assms(8)])
  note n = fading_fires [OF f assms(8), of env]
  show ?thesis using n assms(10) by (auto simp: fading_def Let_def intro: le_less_trans)
qed

text \<open>On with timed off, with an on-time of zero, on the sample device.\<close>

definition demoTimed :: device where
  "demoTimed = snd (OnWithTimedOffCommand LevelControlWithOnOffFeaturePresent LevelControlEffectCallback demoEnv 1 0 0 0 demoDevice)"

lemma demoTimed_eq:
  "demoTimed = scheduleTimerCallbackMs 1 100 (setOO 1 (offWaitTime_update (\<lambda>_. 0)) (setOO 1 (onTime_update (\<lambda>_. 0)) demoDevice)
     \<lparr>nextDesiredOnWithTimedOffTimestamp := now demoEnv + 100\<rparr>)"
  by (simp add: demoTimed_def OnWithTimedOffCommand_def setOnOffValue_def isServed_def SupportsLightingApplications_def
      HasFeature_def readOr_def Let_def MAX_ON_OFF_TIME_VALUE_def ON_OFF_UPDATE_TIME_MS_def cmdOn_def cmdOff_def demo_oo)

lemma demoTimed_fields:
  "app demoTimed = app demoDevice" "ooTimer demoTimed 1 = Some 100" "onTime (oo demoTimed 1) = 0"
  "getState 1 demoTimed = Some demoLevel"
  by (simp_all add: demoTimed_eq scheduleTimerCallbackMs_def setOO_def isServed_def demo_oo getState_same [of _ demoDevice])

lemma demoTimed_reachable: "reachable demoTimed"
  by (rule reachable.step [OF demo_reachable, of "OnWithTimedOff demoEnv 1 0 0 0"]) (simp_all add: demoTimed_def demo_start)

theorem expired_on_time_restarts_fade_witness:
  "OnOff_Get 1 (app (fold (\<lambda>env. onOffTimerFires LevelControlWithOnOffFeaturePresent LevelControlEffectCallback env 1)
     (replicate 1000 demoEnv @ [demoEnv]) demoTimed)) = Some True"
proof -
  have d: "(100 :: u32) < decisecondsToMs 300 div ucast (200 - 1 :: u8)"
    by (simp add: decisecondsToMs_def MILLISECOND_TICKS_PER_SECOND_def)
  show ?thesis
    using expired_on_time_restarts_fade [OF demoTimed_reachable, of 1 demoLevel 200 300 "replicate 1000 demoEnv" demoEnv] d
    by (simp add: demoTimed_fields demo_level_fields Let_def demo_feature
        LevelControlWithOnOffFeaturePresent_def LevelControlHasFeature_def demoLevel_def del: replicate.simps fold_append)
qed

end
