(* ===== verification/Device_Identity.thy ===== *)
theory Device_Identity
  imports Prelude
begin

text \<open>
  The identity the relay derives from its MAC address at start: \<open>get_mac_init\<close> of
  \<^verbatim>\<open>examples/lighting-app/thirdreality/common/AppTask.cpp\<close>, which computes the serial number
  \<open>sn_mac_g\<close> and the discriminator \<open>discriminator_mac_g\<close>.  The MAC address comes from the radio
  driver and is an argument; the bytes of an integer are those of the little-endian target.
  The four loops of the function are partial functions, so that not ending would be \<open>None\<close>, and
  so is a division by zero.
\<close>

section \<open>The serial number\<close>

definition hexDigit :: "u8 \<Rightarrow> char" where
  "hexDigit v = ''0123456789abcdef'' ! unat (v AND 0xF)"

text \<open>\<open>itoa(v, dst, 16)\<close> for a byte: no leading zero, then the terminating NUL.\<close>

definition itoa16 :: "u8 \<Rightarrow> string" where
  "itoa16 v = (if v < 16 then [hexDigit v] else [hexDigit (drop_bit 4 v), hexDigit v]) @ [CHR 0x00]"

definition writeAt :: "nat \<Rightarrow> 'a list \<Rightarrow> 'a list \<Rightarrow> 'a list" where
  "writeAt off s buf = take off buf @ s @ drop (off + length s) buf"

definition snBuffer :: "bytes \<Rightarrow> string \<Rightarrow> string" where
  "snBuffer mac buf =
     (let b = writeAt 0 (''3RM02-3354-'' @ [CHR 0x00]) buf;
          b = writeAt 11 (itoa16 (mac ! 5)) b;
          b = writeAt 13 (itoa16 (mac ! 4)) b;
          b = writeAt 15 (itoa16 (mac ! 3)) b;
          b = writeAt 17 (itoa16 (mac ! 2)) b;
          b = writeAt 19 (itoa16 (mac ! 1)) b;
          b = writeAt 21 (itoa16 (mac ! 0)) b
      in b[16 := CHR 0x00])"

text \<open>The string a reader of the buffer sees.\<close>

definition cString :: "string \<Rightarrow> string" where
  "cString buf = takeWhile (\<lambda>c. c \<noteq> CHR 0x00) buf"

section \<open>Setup code and discriminator\<close>

text \<open>\<open>*((uint8_t * )&x + k) ^= *(uint8_t * )&x\<close>: byte \<open>k\<close> is combined with the lowest byte.\<close>

definition xorByte :: "nat \<Rightarrow> 'a::len word \<Rightarrow> 'a word" where
  "xorByte k x = x XOR push_bit (8 * k) (x AND 0xFF)"

definition setup_pin_code_mac :: "bytes \<Rightarrow> u32" where
  "setup_pin_code_mac mac =
     (let m = (\<lambda>i. ucast (mac ! i) :: u32);
          p = ((push_bit 8 (m 0) + m 1) XOR (push_bit 8 (m 1) + m 2)) AND 0x7FFF;
          p = push_bit 12 p;
          p = p + (push_bit 4 (m 3) + drop_bit 4 (m 4 AND 0xF0) + 1)
      in xorByte 3 (xorByte 2 (xorByte 1 p)) AND 0x7FFFFFF)"

definition discriminator_mac :: "bytes \<Rightarrow> u16" where
  "discriminator_mac mac =
     (let m = (\<lambda>i. ucast (mac ! i) :: u16);
          d = push_bit 8 (m 4 AND 0x0F) + m 5 + 1
      in xorByte 1 d AND 0xFFF)"

text \<open>\<open>while(++x < 3);\<close> and \<open>while(--x > bound);\<close>\<close>

partial_function (option) incLoop :: "'a::len word \<Rightarrow> 'a word option" where
  "incLoop x = (let x' = x + 1 in if x' < 3 then incLoop x' else Some x')"

partial_function (option) decLoop :: "'a::len word \<Rightarrow> 'a word \<Rightarrow> 'a word option" where
  "decLoop bound x = (let x' = x - 1 in if x' > bound then decLoop bound x' else Some x')"

text \<open>\<open>get_mac_init\<close>: the final serial number and discriminator.  \<open>buf\<close> is what \<open>sn_mac_g\<close> held.\<close>

definition get_mac_init :: "bytes \<Rightarrow> string \<Rightarrow> (string \<times> u16) option" where
  "get_mac_init mac buf =
     Option.bind (incLoop (discriminator_mac mac)) (\<lambda>d.
     Option.bind (incLoop (setup_pin_code_mac mac)) (\<lambda>p.
     Option.bind (decLoop 0xFFF d) (\<lambda>d.
     Option.bind (decLoop 0x7FFFFFF p) (\<lambda>p.
     if d = 0 then None
     else
       (let d = (ucast (p mod ucast d) :: u16) in
        Option.bind (incLoop d) (\<lambda>d.
        Option.bind (decLoop 0xFFF d) (\<lambda>d. Some (snBuffer mac buf, d))))))))"

section \<open>The loops end\<close>

lemma incLoop_16 [simp]: "incLoop (x :: u16) = Some (if x + 1 < 3 then 3 else x + 1)"
proof -
  have step: "incLoop y = (if y + 1 < 3 then incLoop (y + 1) else Some (y + 1))" for y :: u16
    by (subst incLoop.simps) (simp add: Let_def)
  have "incLoop (2 :: u16) = Some 3" by (subst step) simp
  moreover from this have "incLoop (1 :: u16) = Some 3" by (subst step) simp
  moreover from this have "incLoop (0 :: u16) = Some 3" by (subst step) simp
  moreover have "x + 1 = 0 \<or> x + 1 = 1 \<or> x + 1 = 2" if "x + 1 < 3"
    using that unfolding word_less_nat_alt word_unat_eq_iff [of "x + 1"] by simp linarith
  ultimately show ?thesis using step [of x] by (cases "x + 1 < 3") auto
qed

lemma incLoop_32 [simp]: "incLoop (x :: u32) = Some (if x + 1 < 3 then 3 else x + 1)"
proof -
  have step: "incLoop y = (if y + 1 < 3 then incLoop (y + 1) else Some (y + 1))" for y :: u32
    by (subst incLoop.simps) (simp add: Let_def)
  have "incLoop (2 :: u32) = Some 3" by (subst step) simp
  moreover from this have "incLoop (1 :: u32) = Some 3" by (subst step) simp
  moreover from this have "incLoop (0 :: u32) = Some 3" by (subst step) simp
  moreover have "x + 1 = 0 \<or> x + 1 = 1 \<or> x + 1 = 2" if "x + 1 < 3"
    using that unfolding word_less_nat_alt word_unat_eq_iff [of "x + 1"] by simp linarith
  ultimately show ?thesis using step [of x] by (cases "x + 1 < 3") auto
qed

lemma decLoop_min: "decLoop b x = Some (min (x - 1) b)"
proof (induction "unat (x - 1)" arbitrary: x rule: less_induct)
  case less
  have step: "decLoop b x = (if x - 1 > b then decLoop b (x - 1) else Some (x - 1))"
    by (subst decLoop.simps) (simp add: Let_def)
  show ?case
  proof (cases "x - 1 > b")
    case True
    then have nz: "x - 1 \<noteq> 0" by auto
    then have u: "unat (x - 1 - 1) = unat (x - 1) - 1" by (rule unat_minus_one)
    have "unat (x - 1 - 1) < unat (x - 1)" using u nz by (simp add: unat_gt_0)
    moreover have "b \<le> x - 1 - 1" using True u by (simp add: word_le_nat_alt word_less_nat_alt)
    ultimately have "decLoop b (x - 1) = Some b" using less [of "x - 1"] by (simp add: min_absorb2)
    then show ?thesis using step True by (simp add: min_absorb2)
  next
    case False
    then show ?thesis by (simp add: step min_absorb1)
  qed
qed

text \<open>On a 12-bit value the two loops only raise 0 and 1 to 2.\<close>

lemma clamp_loops:
  fixes x :: u16
  assumes "x \<le> 0xFFF"
  shows "min ((if x + 1 < 3 then 3 else x + 1) - 1) 0xFFF = max x 2"
proof (cases "unat x < 2")
  case True
  then have "x = 0 \<or> x = 1" by (auto simp: word_unat_eq_iff)
  then show ?thesis by auto
next
  case False
  have "unat (x + 1) = unat x + 1"
    using assms by (subst unat_add_lem [THEN iffD1]) (simp_all add: word_le_nat_alt)
  then have "\<not> x + 1 < 3" using False by (simp add: word_less_nat_alt)
  moreover have "2 \<le> x" using False by (simp add: word_le_nat_alt)
  ultimately show ?thesis using assms by (simp add: min_def max_def)
qed

lemma get_mac_init_value:
  "\<exists>d. get_mac_init mac buf = Some (snBuffer mac buf, d) \<and> 2 \<le> d \<and> d \<le> 0xFFE"
proof -
  define d where "d = max (discriminator_mac mac) 2"
  define p where "p = min ((if setup_pin_code_mac mac + 1 < 3 then 3 else setup_pin_code_mac mac + 1) - 1) 0x7FFFFFF"
  define r where "r = (ucast (p mod ucast d) :: u16)"
  have "discriminator_mac mac \<le> 0xFFF" unfolding discriminator_mac_def Let_def by (rule word_and_le1)
  note 1 = clamp_loops [OF this, folded d_def]
  have d: "2 \<le> d" "d \<le> 0xFFF" using \<open>discriminator_mac mac \<le> 0xFFF\<close> by (auto simp: d_def)
  then have dn: "2 \<le> unat d" "unat d \<le> 0xFFF" by (simp_all add: word_le_nat_alt)
  have "unat (ucast d :: u32) = unat d" using dn by (simp add: unsigned_ucast_eq take_bit_nat_eq_self)
  then have "unat (p mod ucast d) = unat p mod unat d" by (simp add: unat_mod_distrib)
  then have "unat (p mod ucast d) < unat d" using dn by simp
  then have "unat r < unat d" unfolding r_def using dn
    by (simp add: unsigned_ucast_eq unsigned_take_bit_eq take_bit_nat_eq_self)
  then have rn: "unat r \<le> 0xFFE" using dn by simp
  then have "r \<le> 0xFFF" by (simp add: word_le_nat_alt)
  note 2 = clamp_loops [OF this]
  have "d \<noteq> 0" using d by auto
  then have "get_mac_init mac buf = Some (snBuffer mac buf, max r 2)"
    unfolding get_mac_init_def incLoop_16 incLoop_32 bind.bind_lunit decLoop_min 1 p_def [symmetric] Let_def r_def [symmetric] 2
    by simp
  moreover have "max r 2 \<le> 0xFFE" using rn by (auto simp: word_le_nat_alt max_def)
  ultimately show ?thesis by simp
qed

section \<open>The serial number\<close>

lemma writeAt_length [simp]: "off + length s \<le> length buf \<Longrightarrow> length (writeAt off s buf) = length buf"
  by (simp add: writeAt_def)

lemma take_writeAt: "n \<le> off \<Longrightarrow> off \<le> length buf \<Longrightarrow> take n (writeAt off s buf) = take n buf"
  by (simp add: writeAt_def min_def)

lemma hexDigit_not_nul: "hexDigit v \<noteq> CHR 0x00"
proof -
  have "unat (v AND 0xF) < 16" using word_and_le1 [of v "0xF"] by (simp add: word_le_nat_alt less_Suc_eq_le)
  then have "hexDigit v \<in> set ''0123456789abcdef''" unfolding hexDigit_def by (intro nth_mem) simp
  then show ?thesis by auto
qed

lemma length_itoa16: "length (itoa16 v) \<le> 3" "0 < length (itoa16 v)"
  by (simp_all add: itoa16_def)

lemma snBuffer_length: "length buf = 24 \<Longrightarrow> length (snBuffer mac buf) = 24"
  using length_itoa16(1) [of "mac ! 0"] length_itoa16(1) [of "mac ! 1"] length_itoa16(1) [of "mac ! 2"]
    length_itoa16(1) [of "mac ! 3"] length_itoa16(1) [of "mac ! 4"] length_itoa16(1) [of "mac ! 5"]
  by (simp add: snBuffer_def Let_def)

text \<open>The writes after offset 15 do not change what is before, and the last store ends the string.\<close>

lemma take_update_end: "n < length xs \<Longrightarrow> take (Suc n) (xs[n := x]) = take n xs @ [x]"
  by (simp add: take_Suc_conv_app_nth)

lemma snBuffer_front:
  assumes "length buf = 24"
  shows "take 17 (snBuffer mac buf) =
    take 16 (writeAt 15 (itoa16 (mac ! 3)) (writeAt 13 (itoa16 (mac ! 4)) (writeAt 11 (itoa16 (mac ! 5))
      (writeAt 0 (''3RM02-3354-'' @ [CHR 0x00]) buf)))) @ [CHR 0x00]"
proof -
  let ?b = "writeAt 15 (itoa16 (mac ! 3)) (writeAt 13 (itoa16 (mac ! 4)) (writeAt 11 (itoa16 (mac ! 5))
      (writeAt 0 (''3RM02-3354-'' @ [CHR 0x00]) buf)))"
  let ?c = "writeAt 21 (itoa16 (mac ! 0)) (writeAt 19 (itoa16 (mac ! 1)) (writeAt 17 (itoa16 (mac ! 2)) ?b))"
  note l = length_itoa16(1) [of "mac ! 0"] length_itoa16(1) [of "mac ! 1"] length_itoa16(1) [of "mac ! 2"]
    length_itoa16(1) [of "mac ! 3"] length_itoa16(1) [of "mac ! 4"] length_itoa16(1) [of "mac ! 5"]
  have len: "length ?b = 24" "length ?c = 24" using assms l by simp_all
  have "take 16 ?c = take 16 ?b" using len l assms by (simp add: take_writeAt)
  moreover have "take 17 (?c[16 := CHR 0x00]) = take 16 ?c @ [CHR 0x00]"
    using take_update_end [of 16 ?c "CHR 0x00"] len(2) by (simp only: eval_nat_numeral) simp
  ultimately show ?thesis by (simp add: snBuffer_def Let_def)
qed

lemma cString_front: "CHR 0x00 \<in> set (take n buf) \<Longrightarrow> cString buf = cString (take n buf)"
  using takeWhile_append1 [of "CHR 0x00" "take n buf" "\<lambda>c. c \<noteq> CHR 0x00" "drop n buf"] by (simp add: cString_def)

text \<open>
  The serial number of the relay, exactly: the prefix and then the last bytes of the MAC address
  in hexadecimal, without leading zeros; the buffer keeps its 24 characters.  A byte below 16
  ends the serial number early, so that it does not identify the device: with the last byte
  below 16 it is the prefix and one digit, whatever the other five bytes are.
\<close>

theorem serial_number_exact:
  assumes "length buf = 24"
  shows "length (snBuffer mac buf) = 24 \<and>
     cString (snBuffer mac buf) = ''3RM02-3354-'' @
       (if mac ! 5 < 16 then [hexDigit (mac ! 5)]
        else [hexDigit (drop_bit 4 (mac ! 5)), hexDigit (mac ! 5)] @
          (if mac ! 4 < 16 then [hexDigit (mac ! 4)]
           else [hexDigit (drop_bit 4 (mac ! 4)), hexDigit (mac ! 4), hd (itoa16 (mac ! 3))]))"
proof -
  have nul: "CHR 0x00 \<in> set (take 17 (snBuffer mac buf))" by (simp add: snBuffer_front [OF assms])
  obtain buf' where buf: "writeAt 0 (''3RM02-3354-'' @ [CHR 0x00]) buf = ''3RM02-3354-'' @ CHR 0x00 # buf'"
    "length buf' = 12" using assms by (simp add: writeAt_def)
  obtain x0 x1 x2 x3 x4 x5 xs where x: "buf' = x0 # x1 # x2 # x3 # x4 # x5 # xs"
    using buf(2) by (auto simp: eval_nat_numeral length_Suc_conv)
  have "cString (snBuffer mac buf) = cString (take 17 (snBuffer mac buf))" using nul by (rule cString_front)
  then show ?thesis
    using snBuffer_length [OF assms] unfolding snBuffer_front [OF assms] buf(1) x
    by (auto simp: writeAt_def cString_def hexDigit_not_nul itoa16_def)
qed

theorem serial_number_exact_witness:
  "cString (snBuffer [1, 2, 3, 4, 5, 6] (replicate 24 CHR 0x00)) = ''3RM02-3354-6''"
proof -
  have "hexDigit 6 = CHR ''6''" by (simp add: hexDigit_def)
  then show ?thesis using serial_number_exact [of "replicate 24 (CHR 0x00)" "[1, 2, 3, 4, 5, 6]"] by simp
qed

text \<open>
  C36. \<open>get_mac_init\<close> returns for every MAC address: its four loops end, the modulus is never zero, and
  the discriminator it leaves is between 2 and 0xFFE, so that the configured discriminator, one
  less, is a 12-bit value.
\<close>

theorem mac_discriminator_terminates:
  "\<exists>d. get_mac_init mac buf = Some (snBuffer mac buf, d) \<and> 2 \<le> d \<and> d \<le> 0xFFE \<and> d - 1 \<le> 0xFFF"
proof -
  obtain d where d: "get_mac_init mac buf = Some (snBuffer mac buf, d)" "2 \<le> d" "d \<le> 0xFFE"
    using get_mac_init_value by blast
  have "d \<noteq> 0" using d(2) by auto
  then have "unat (d - 1) = unat d - 1" by (rule unat_minus_one)
  then have "d - 1 \<le> 0xFFF" using d(3) by (simp add: word_le_nat_alt)
  then show ?thesis using d by blast
qed

end
