(* ===== verification/Access_Store.thy ===== *)
theory Access_Store
  imports Prelude
begin

text \<open>
  The access control list of \<^verbatim>\<open>src/access/examples/ExampleAccessControlDelegate.cpp\<close>: the storage
  of subjects, targets and entries, the list itself (\<open>EntryStorage::acl\<close>), and the pools of
  storages, entry delegates and iterator delegates through which entry objects and iterators
  refer to it.  Pointers are explicit: a storage is referred to by its place in the list or in
  the pool, an entry object is a number, and its delegate is a place in the delegate pool or the
  default delegate.
\<close>

section \<open>Types\<close>

datatype AuthMode = kNone | kPase | kCase | kGroup
datatype Privilege = kView | kProxyView | kOperate | kManage | kAdminister

record Target =
  flags :: u32
  cluster :: ClusterId
  endpoint :: EndpointId
  deviceType :: DeviceTypeId

definition kCluster :: u32 where "kCluster = 1"
definition kEndpoint :: u32 where "kEndpoint = 2"
definition kDeviceType :: u32 where "kDeviceType = 4"

abbreviation (input) kMaxSubjects :: nat where "kMaxSubjects \<equiv> 4"
abbreviation (input) kMaxTargets :: nat where "kMaxTargets \<equiv> 3"
abbreviation (input) kEntriesPerFabric :: nat where "kEntriesPerFabric \<equiv> 4"
abbreviation (input) kAclSize :: nat where "kAclSize \<equiv> 24"

section \<open>Subjects\<close>

text \<open>\<open>SubjectStorage\<close> is its node id; the undefined node id 0 is the empty storage.\<close>

type_synonym SubjectStorage = NodeId

definition Subject_IsEmpty :: "SubjectStorage \<Rightarrow> bool" where
  "Subject_IsEmpty s \<longleftrightarrow> s = 0"

definition Subject_Get :: "SubjectStorage \<Rightarrow> NodeId result" where
  "Subject_Get s = (if \<not> Subject_IsEmpty s then Inr s else Inl CHIP_ERROR_SENTINEL)"

definition Subject_Set :: "NodeId \<Rightarrow> SubjectStorage \<Rightarrow> unit result \<times> SubjectStorage" where
  "Subject_Set node s =
     (if \<not> Subject_IsEmpty s
      then (if node \<noteq> 0 then (Inr (), node) else (Inl CHIP_ERROR_INVALID_ARGUMENT, s))
      else (Inl CHIP_ERROR_SENTINEL, s))"

definition Subject_Add :: "NodeId \<Rightarrow> SubjectStorage \<Rightarrow> unit result \<times> SubjectStorage" where
  "Subject_Add node s = (if node \<noteq> 0 then (Inr (), node) else (Inl CHIP_ERROR_INVALID_ARGUMENT, s))"

section \<open>Targets\<close>

record TargetStorage =
  mCluster :: ClusterId
  mDeviceType :: DeviceTypeId

definition kClusterEmpty :: ClusterId where "kClusterEmpty = 0xFFFFFFFF"
definition kDeviceTypeEmpty :: DeviceTypeId where "kDeviceTypeEmpty = 0xFFFFFFFF"
definition kEndpointMagic :: DeviceTypeId where "kEndpointMagic = 0x0000EEEE"

definition Target_IsEmpty :: "TargetStorage \<Rightarrow> bool" where
  "Target_IsEmpty t \<longleftrightarrow> mCluster t = kClusterEmpty \<and> mDeviceType t = kDeviceTypeEmpty"

definition Target_Clear :: TargetStorage where
  "Target_Clear = \<lparr>mCluster = kClusterEmpty, mDeviceType = kDeviceTypeEmpty\<rparr>"

definition IsValidCluster :: "ClusterId \<Rightarrow> bool" where
  "IsValidCluster c \<longleftrightarrow>
     (let ident = c AND 0x0000FFFF; vendor = c AND 0xFFFF0000 in
      (ident \<le> 0x7FFF \<or> (0xFC00 \<le> ident \<and> ident \<le> 0xFFFE)) \<and> vendor \<le> 0xFFFE0000)"

definition IsValidDeviceType :: "DeviceTypeId \<Rightarrow> bool" where
  "IsValidDeviceType d \<longleftrightarrow>
     (let ident = d AND 0x0000FFFF; vendor = d AND 0xFFFF0000 in ident \<le> 0xBFFF \<and> vendor \<le> 0xFFFE0000)"

definition Target_IsValid :: "Target \<Rightarrow> bool" where
  "Target_IsValid t \<longleftrightarrow>
     (let kNotAll = kEndpoint OR kDeviceType; kAtLeastOne = kNotAll OR kCluster; kNoFlags = NOT kAtLeastOne in
      flags t AND kNoFlags = 0 \<and> flags t AND kAtLeastOne \<noteq> 0 \<and> flags t AND kNotAll \<noteq> kNotAll \<and>
      \<not> (flags t AND kCluster \<noteq> 0 \<and> \<not> IsValidCluster (cluster t)) \<and>
      \<not> (flags t AND kDeviceType \<noteq> 0 \<and> \<not> IsValidDeviceType (deviceType t)))"

text \<open>\<open>Decode\<close> writes the parts that are present over a target the caller provides.\<close>

definition Target_Decode :: "TargetStorage \<Rightarrow> Target \<Rightarrow> Target" where
  "Target_Decode s t =
     (let t0 = t\<lparr>flags := 0\<rparr>;
          t1 = (if mCluster s \<noteq> kClusterEmpty then t0\<lparr>cluster := mCluster s, flags := flags t0 OR kCluster\<rparr> else t0)
      in if mDeviceType s \<noteq> kDeviceTypeEmpty
         then (if mDeviceType s AND 0x0000FFFF = kEndpointMagic
               then t1\<lparr>endpoint := ucast (drop_bit 16 (mDeviceType s)), flags := flags t1 OR kEndpoint\<rparr>
               else t1\<lparr>deviceType := mDeviceType s, flags := flags t1 OR kDeviceType\<rparr>)
         else t1)"

definition Target_Encode :: "Target \<Rightarrow> TargetStorage" where
  "Target_Encode t =
     \<lparr>mCluster = (if flags t AND kCluster \<noteq> 0 then cluster t else kClusterEmpty),
      mDeviceType =
        (if flags t AND kEndpoint \<noteq> 0 then push_bit 16 (ucast (endpoint t)) OR kEndpointMagic
         else if flags t AND kDeviceType \<noteq> 0 then deviceType t
         else kDeviceTypeEmpty)\<rparr>"

definition Target_Get :: "TargetStorage \<Rightarrow> Target \<Rightarrow> Target result" where
  "Target_Get s t = (if \<not> Target_IsEmpty s then Inr (Target_Decode s t) else Inl CHIP_ERROR_SENTINEL)"

definition Target_Set :: "Target \<Rightarrow> TargetStorage \<Rightarrow> unit result \<times> TargetStorage" where
  "Target_Set t s =
     (if \<not> Target_IsEmpty s
      then (if Target_IsValid t then (Inr (), Target_Encode t) else (Inl CHIP_ERROR_INVALID_ARGUMENT, s))
      else (Inl CHIP_ERROR_SENTINEL, s))"

definition Target_Add :: "Target \<Rightarrow> TargetStorage \<Rightarrow> unit result \<times> TargetStorage" where
  "Target_Add t s =
     (if Target_IsValid t then (Inr (), Target_Encode t) else (Inl CHIP_ERROR_INVALID_ARGUMENT, s))"

section \<open>Entries\<close>

record EntryStorage =
  mInUse :: bool
  mFabricIndex :: FabricIndex
  mAuthMode :: AuthMode
  mPrivilege :: Privilege
  mSubjects :: "SubjectStorage list"
  mTargets :: "TargetStorage list"

definition Entry_Clear :: EntryStorage where
  "Entry_Clear =
     \<lparr>mInUse = False, mFabricIndex = 0, mAuthMode = kPase, mPrivilege = kView,
      mSubjects = replicate kMaxSubjects 0, mTargets = replicate kMaxTargets Target_Clear\<rparr>"

definition Entry_Init :: "EntryStorage \<Rightarrow> EntryStorage" where
  "Entry_Init s = (if \<not> mInUse s then Entry_Clear\<lparr>mInUse := True\<rparr> else s)"

text \<open>Counting stops at the first empty place.\<close>

definition GetSubjectCount :: "EntryStorage \<Rightarrow> nat" where
  "GetSubjectCount s = length (takeWhile (\<lambda>x. \<not> Subject_IsEmpty x) (mSubjects s))"

definition GetSubject :: "EntryStorage \<Rightarrow> nat \<Rightarrow> NodeId result" where
  "GetSubject s index =
     (if index < kMaxSubjects then Subject_Get (mSubjects s ! index) else Inl CHIP_ERROR_SENTINEL)"

definition SetSubject :: "nat \<Rightarrow> NodeId \<Rightarrow> EntryStorage \<Rightarrow> unit result \<times> EntryStorage" where
  "SetSubject index subject s =
     (if index < kMaxSubjects
      then (case Subject_Set subject (mSubjects s ! index) of
              (r, x) \<Rightarrow> (r, s\<lparr>mSubjects := (mSubjects s)[index := x]\<rparr>))
      else (Inl CHIP_ERROR_SENTINEL, s))"

definition AddSubject :: "NodeId \<Rightarrow> EntryStorage \<Rightarrow> nat result \<times> EntryStorage" where
  "AddSubject subject s =
     (let count = GetSubjectCount s in
      if count < kMaxSubjects
      then (case Subject_Add subject (mSubjects s ! count) of
              (r, x) \<Rightarrow> (rbind r (\<lambda>_. Inr count), s\<lparr>mSubjects := (mSubjects s)[count := x]\<rparr>))
      else (Inl CHIP_ERROR_BUFFER_TOO_SMALL, s))"

text \<open>\<open>memmove\<close> of \<open>n\<close> elements from \<open>index + 1\<close> to \<open>index\<close>, then the last place is cleared if
  all were in use.\<close>

definition removeShift :: "nat \<Rightarrow> nat \<Rightarrow> nat \<Rightarrow> 'a \<Rightarrow> 'a list \<Rightarrow> 'a list" where
  "removeShift maxLen count index cleared xs =
     (let n = min count (maxLen - 1) - index;
          moved = take index xs @ take n (drop (index + 1) xs) @ drop (index + n) xs
      in if count = maxLen then moved[maxLen - 1 := cleared] else moved)"

definition RemoveSubject :: "nat \<Rightarrow> EntryStorage \<Rightarrow> unit result \<times> EntryStorage" where
  "RemoveSubject index s =
     (let count = GetSubjectCount s in
      if index < count
      then (Inr (), s\<lparr>mSubjects := removeShift kMaxSubjects count index 0 (mSubjects s)\<rparr>)
      else (Inl CHIP_ERROR_SENTINEL, s))"

definition GetTargetCount :: "EntryStorage \<Rightarrow> nat" where
  "GetTargetCount s = length (takeWhile (\<lambda>x. \<not> Target_IsEmpty x) (mTargets s))"

definition GetTarget :: "EntryStorage \<Rightarrow> nat \<Rightarrow> Target \<Rightarrow> Target result" where
  "GetTarget s index target =
     (if index < kMaxTargets then Target_Get (mTargets s ! index) target else Inl CHIP_ERROR_SENTINEL)"

definition SetTarget :: "nat \<Rightarrow> Target \<Rightarrow> EntryStorage \<Rightarrow> unit result \<times> EntryStorage" where
  "SetTarget index target s =
     (if index < kMaxTargets
      then (case Target_Set target (mTargets s ! index) of
              (r, x) \<Rightarrow> (r, s\<lparr>mTargets := (mTargets s)[index := x]\<rparr>))
      else (Inl CHIP_ERROR_SENTINEL, s))"

definition AddTarget :: "Target \<Rightarrow> EntryStorage \<Rightarrow> nat result \<times> EntryStorage" where
  "AddTarget target s =
     (let count = GetTargetCount s in
      if count < kMaxTargets
      then (case Target_Add target (mTargets s ! count) of
              (r, x) \<Rightarrow> (rbind r (\<lambda>_. Inr count), s\<lparr>mTargets := (mTargets s)[count := x]\<rparr>))
      else (Inl CHIP_ERROR_BUFFER_TOO_SMALL, s))"

definition RemoveTarget :: "nat \<Rightarrow> EntryStorage \<Rightarrow> unit result \<times> EntryStorage" where
  "RemoveTarget index s =
     (let count = GetTargetCount s in
      if index < count
      then (Inr (), s\<lparr>mTargets := removeShift kMaxTargets count index Target_Clear (mTargets s)\<rparr>)
      else (Inl CHIP_ERROR_SENTINEL, s))"

section \<open>Lists, pools and delegates\<close>

datatype storageRef = InAcl nat | InPool nat

record EntryDelegate =
  mEntry :: nat
  mStorage :: "storageRef option"

text \<open>The position of an iterator: \<open>None\<close> is the null pointer, \<open>Some kAclSize\<close> the end.\<close>

record EntryIteratorDelegate =
  iInUse :: bool
  mFabricFiltered :: bool
  iFabricIndex :: FabricIndex
  position :: "nat option"

record aclState =
  acl :: "EntryStorage list"
  pool :: "EntryStorage list"
  delegates :: "EntryDelegate list"
  iterators :: "EntryIteratorDelegate list"
  entryDelegate :: "nat \<Rightarrow> nat option"
  iteratorDelegate :: "nat \<Rightarrow> nat option"

fun firstIndex :: "('a \<Rightarrow> bool) \<Rightarrow> 'a list \<Rightarrow> nat option" where
  "firstIndex P [] = None"
| "firstIndex P (x # xs) = (if P x then Some 0 else map_option Suc (firstIndex P xs))"

definition FindUnusedInAcl :: "aclState \<Rightarrow> nat option" where
  "FindUnusedInAcl st = firstIndex (\<lambda>s. \<not> mInUse s) (acl st)"

datatype ConvertDirection = kAbsoluteToRelative | kRelativeToAbsolute

fun ConvertIndexLoop ::
    "EntryStorage list \<Rightarrow> nat \<Rightarrow> nat \<Rightarrow> nat \<Rightarrow> FabricIndex \<Rightarrow> ConvertDirection \<Rightarrow> nat option" where
  "ConvertIndexLoop [] index absoluteIndex relativeIndex fabricIndex direction = None"
| "ConvertIndexLoop (s # ss) index absoluteIndex relativeIndex fabricIndex direction =
     (if \<not> mInUse s then None
      else if mFabricIndex s = fabricIndex
      then (if index = (case direction of kAbsoluteToRelative \<Rightarrow> absoluteIndex | kRelativeToAbsolute \<Rightarrow> relativeIndex)
            then Some (case direction of kAbsoluteToRelative \<Rightarrow> relativeIndex | kRelativeToAbsolute \<Rightarrow> absoluteIndex)
            else ConvertIndexLoop ss index (absoluteIndex + 1) (relativeIndex + 1) fabricIndex direction)
      else ConvertIndexLoop ss index (absoluteIndex + 1) relativeIndex fabricIndex direction)"

definition ConvertIndex :: "aclState \<Rightarrow> nat \<Rightarrow> FabricIndex \<Rightarrow> ConvertDirection \<Rightarrow> nat" where
  "ConvertIndex st index fabricIndex direction =
     (case ConvertIndexLoop (acl st) index 0 0 fabricIndex direction of
        Some toIndex \<Rightarrow> toIndex | None \<Rightarrow> length (acl st))"

definition FindUsedInAcl :: "aclState \<Rightarrow> nat \<Rightarrow> FabricIndex option \<Rightarrow> nat option" where
  "FindUsedInAcl st index fabricIndex =
     (let i = (case fabricIndex of None \<Rightarrow> index | Some f \<Rightarrow> ConvertIndex st index f kRelativeToAbsolute) in
      if i < length (acl st) \<and> mInUse (acl st ! i) then Some i else None)"

definition getStorage :: "aclState \<Rightarrow> storageRef \<Rightarrow> EntryStorage" where
  "getStorage st ref = (case ref of InAcl i \<Rightarrow> acl st ! i | InPool i \<Rightarrow> pool st ! i)"

definition putStorage :: "storageRef \<Rightarrow> EntryStorage \<Rightarrow> aclState \<Rightarrow> aclState" where
  "putStorage ref s st =
     (case ref of InAcl i \<Rightarrow> st\<lparr>acl := (acl st)[i := s]\<rparr> | InPool i \<Rightarrow> st\<lparr>pool := (pool st)[i := s]\<rparr>)"

definition EntryStorage_Find :: "aclState \<Rightarrow> storageRef option \<Rightarrow> storageRef option" where
  "EntryStorage_Find st candidate =
     (case candidate of
        Some (InPool i) \<Rightarrow> Some (InPool i)
      | _ \<Rightarrow> map_option InPool (firstIndex (\<lambda>s. \<not> mInUse s) (pool st)))"

definition EntryDelegate_Find :: "aclState \<Rightarrow> nat \<Rightarrow> nat option" where
  "EntryDelegate_Find st e =
     (case entryDelegate st e of
        Some d \<Rightarrow> Some d
      | None \<Rightarrow> firstIndex (\<lambda>d. mStorage d = None) (delegates st))"

definition updDelegate :: "nat \<Rightarrow> (EntryDelegate \<Rightarrow> EntryDelegate) \<Rightarrow> aclState \<Rightarrow> aclState" where
  "updDelegate d f st = st\<lparr>delegates := (delegates st)[d := f (delegates st ! d)]\<rparr>"

text \<open>\<open>EntryStorage::Release\<close> and \<open>EntryDelegate::Release\<close>: only pool storage is given back.  A delegate
  without storage, whose null \<open>mStorage\<close> the source dereferences, is not released in any reachable state: an entry
  object refers to a delegate exactly if that has storage (\<open>linked\<close> in \<open>Access_Control\<close>).\<close>

definition Storage_Release :: "storageRef \<Rightarrow> aclState \<Rightarrow> aclState" where
  "Storage_Release ref st =
     (case ref of InAcl _ \<Rightarrow> st | InPool _ \<Rightarrow> putStorage ref ((getStorage st ref)\<lparr>mInUse := False\<rparr>) st)"

definition EntryDelegate_Release :: "nat \<Rightarrow> aclState \<Rightarrow> aclState" where
  "EntryDelegate_Release d st =
     (case mStorage (delegates st ! d) of
        None \<Rightarrow> st
      | Some ref \<Rightarrow> updDelegate d (mStorage_update (\<lambda>_. None)) (Storage_Release ref st))"

definition SetDelegate :: "nat \<Rightarrow> nat \<Rightarrow> aclState \<Rightarrow> aclState" where
  "SetDelegate e d st =
     (let st1 = (case entryDelegate st e of None \<Rightarrow> st | Some d0 \<Rightarrow> EntryDelegate_Release d0 st)
      in st1\<lparr>entryDelegate := (entryDelegate st1)(e := Some d)\<rparr>)"

definition ResetDelegate :: "nat \<Rightarrow> aclState \<Rightarrow> aclState" where
  "ResetDelegate e st =
     (let st1 = (case entryDelegate st e of None \<Rightarrow> st | Some d0 \<Rightarrow> EntryDelegate_Release d0 st)
      in st1\<lparr>entryDelegate := (entryDelegate st1)(e := None)\<rparr>)"

definition EntryDelegate_Init :: "nat \<Rightarrow> nat \<Rightarrow> storageRef \<Rightarrow> aclState \<Rightarrow> aclState" where
  "EntryDelegate_Init d e ref st =
     (let st1 = SetDelegate e d st;
          st2 = putStorage ref (Entry_Init (getStorage st1 ref)) st1
      in updDelegate d (\<lambda>_. \<lparr>mEntry = e, mStorage = Some ref\<rparr>) st2)"

definition EnsureStorageInPool :: "nat \<Rightarrow> aclState \<Rightarrow> unit result \<times> aclState" where
  "EnsureStorageInPool d st =
     (case mStorage (delegates st ! d) of
        None \<Rightarrow> (Inl DIE, st)
      | Some (InPool _) \<Rightarrow> (Inr (), st)
      | Some (InAcl i) \<Rightarrow>
          (case EntryStorage_Find st None of
             Some ref \<Rightarrow> (Inr (), updDelegate d (mStorage_update (\<lambda>_. Some ref)) (putStorage ref (acl st ! i) st))
           | None \<Rightarrow> (Inl CHIP_ERROR_BUFFER_TOO_SMALL, st)))"

text \<open>A setter of an entry object: the default delegate implements none; a delegate first moves to
  storage in the pool, so that the list is not changed through an entry object.\<close>

definition Entry_Modify :: "nat \<Rightarrow> (EntryStorage \<Rightarrow> 'a result \<times> EntryStorage) \<Rightarrow> aclState \<Rightarrow> 'a result \<times> aclState" where
  "Entry_Modify e f st =
     (case entryDelegate st e of
        None \<Rightarrow> (Inl CHIP_ERROR_NOT_IMPLEMENTED, st)
      | Some d \<Rightarrow>
          (case EnsureStorageInPool d st of
             (Inl err, st1) \<Rightarrow> (Inl err, st1)
           | (Inr _, st1) \<Rightarrow>
               (case mStorage (delegates st1 ! d) of
                  None \<Rightarrow> (Inl DIE, st1)
                | Some ref \<Rightarrow> (case f (getStorage st1 ref) of (r, s) \<Rightarrow> (r, putStorage ref s st1)))))"

definition SetAuthMode :: "AuthMode \<Rightarrow> EntryStorage \<Rightarrow> unit result \<times> EntryStorage" where
  "SetAuthMode a s = (Inr (), s\<lparr>mAuthMode := a\<rparr>)"

definition SetFabricIndex :: "FabricIndex \<Rightarrow> EntryStorage \<Rightarrow> unit result \<times> EntryStorage" where
  "SetFabricIndex f s = (Inr (), s\<lparr>mFabricIndex := f\<rparr>)"

definition SetPrivilege :: "Privilege \<Rightarrow> EntryStorage \<Rightarrow> unit result \<times> EntryStorage" where
  "SetPrivilege p s = (Inr (), s\<lparr>mPrivilege := p\<rparr>)"

definition Entry_Storage :: "nat \<Rightarrow> aclState \<Rightarrow> EntryStorage option" where
  "Entry_Storage e st =
     Option.bind (entryDelegate st e) (\<lambda>d. map_option (getStorage st) (mStorage (delegates st ! d)))"

section \<open>The delegate of the access control\<close>

definition Delegate_Init :: "aclState \<Rightarrow> aclState" where
  "Delegate_Init st = st\<lparr>acl := map (\<lambda>_. Entry_Clear) (acl st)\<rparr>"

definition GetEntryCountFabric :: "aclState \<Rightarrow> FabricIndex \<Rightarrow> nat" where
  "GetEntryCountFabric st fabric =
     length (filter (\<lambda>s. mFabricIndex s = fabric) (takeWhile mInUse (acl st)))"

definition GetEntryCount :: "aclState \<Rightarrow> nat" where
  "GetEntryCount st = length (takeWhile mInUse (acl st))"

definition PrepareEntry :: "nat \<Rightarrow> aclState \<Rightarrow> unit result \<times> aclState" where
  "PrepareEntry e st =
     (case EntryDelegate_Find st e of
        Some d \<Rightarrow>
          (case EntryStorage_Find st (mStorage (delegates st ! d)) of
             Some ref \<Rightarrow> (Inr (), EntryDelegate_Init d e ref st)
           | None \<Rightarrow> (Inl CHIP_ERROR_BUFFER_TOO_SMALL, st))
      | None \<Rightarrow> (Inl CHIP_ERROR_BUFFER_TOO_SMALL, st))"

text \<open>\<open>Copy\<close> with fast copy only: an entry without a delegate of the pool is a fatal error.\<close>

definition Copy :: "nat \<Rightarrow> aclState \<Rightarrow> EntryStorage result" where
  "Copy e st = (case Entry_Storage e st of Some s \<Rightarrow> Inr s | None \<Rightarrow> Inl DIE)"

definition Delegate_CreateEntry :: "nat \<Rightarrow> aclState \<Rightarrow> (nat \<times> FabricIndex) result \<times> aclState" where
  "Delegate_CreateEntry e st =
     (case FindUnusedInAcl st of
        None \<Rightarrow> (Inl CHIP_ERROR_BUFFER_TOO_SMALL, st)
      | Some i \<Rightarrow>
          (case Copy e st of
             Inl err \<Rightarrow> (Inl err, st)
           | Inr s \<Rightarrow>
               let st1 = st\<lparr>acl := (acl st)[i := s]\<rparr> in
               (Inr (ConvertIndex st1 i (mFabricIndex s) kAbsoluteToRelative, mFabricIndex s), st1)))"

definition Delegate_ReadEntry :: "nat \<Rightarrow> nat \<Rightarrow> FabricIndex option \<Rightarrow> aclState \<Rightarrow> unit result \<times> aclState" where
  "Delegate_ReadEntry index e fabricIndex st =
     (case FindUsedInAcl st index fabricIndex of
        Some i \<Rightarrow>
          (case EntryDelegate_Find st e of
             Some d \<Rightarrow> (Inr (), EntryDelegate_Init d e (InAcl i) st)
           | None \<Rightarrow> (Inl CHIP_ERROR_BUFFER_TOO_SMALL, st))
      | None \<Rightarrow> (Inl CHIP_ERROR_SENTINEL, st))"

definition Delegate_UpdateEntry :: "nat \<Rightarrow> nat \<Rightarrow> FabricIndex option \<Rightarrow> aclState \<Rightarrow> unit result \<times> aclState" where
  "Delegate_UpdateEntry index e fabricIndex st =
     (case FindUsedInAcl st index fabricIndex of
        Some i \<Rightarrow>
          (case Copy e st of
             Inl err \<Rightarrow> (Inl err, st)
           | Inr s \<Rightarrow> (Inr (), st\<lparr>acl := (acl st)[i := s]\<rparr>))
      | None \<Rightarrow> (Inl CHIP_ERROR_SENTINEL, st))"

definition FixBeforeDelete :: "nat \<Rightarrow> nat \<Rightarrow> aclState \<Rightarrow> aclState" where
  "FixBeforeDelete storage d st =
     (if mStorage (delegates st ! d) = Some (InAcl storage) then snd (EnsureStorageInPool d st) else st)"

definition FixAfterDelete :: "nat \<Rightarrow> nat \<Rightarrow> aclState \<Rightarrow> aclState" where
  "FixAfterDelete storage d st =
     (case mStorage (delegates st ! d) of
        Some (InAcl i) \<Rightarrow>
          if i = storage then ResetDelegate (mEntry (delegates st ! d)) st
          else if storage < i then updDelegate d (mStorage_update (\<lambda>_. Some (InAcl (i - 1)))) st
          else st
      | _ \<Rightarrow> st)"

definition Iterator_FixAfterDelete :: "nat \<Rightarrow> nat \<Rightarrow> EntryIteratorDelegate \<Rightarrow> EntryIteratorDelegate" where
  "Iterator_FixAfterDelete aclLen storage it =
     (case position it of
        Some p \<Rightarrow>
          if storage \<le> p \<and> p < aclLen
          then it\<lparr>position := (if p = 0 then None else Some (p - 1))\<rparr> else it
      | None \<Rightarrow> it)"

text \<open>The loop that copies each storage over its predecessor and clears the last one in use.\<close>

function shiftDown :: "nat \<Rightarrow> EntryStorage list \<Rightarrow> EntryStorage list" where
  "shiftDown storage l =
     (if storage < length l
      then (if storage + 1 < length l \<and> mInUse (l ! (storage + 1))
            then shiftDown (storage + 1) (l[storage := l ! (storage + 1)])
            else l[storage := Entry_Clear])
      else l)"
  by auto

termination shiftDown
  by (relation "measure (\<lambda>(i, l). length l - i)") auto

declare shiftDown.simps [simp del]

text \<open>After the deletion the delegates are fixed for the storage at \<open>acl + index\<close>, with the index
  the caller passed, also when it is relative to a fabric.\<close>

definition Delegate_DeleteEntry :: "nat \<Rightarrow> FabricIndex option \<Rightarrow> aclState \<Rightarrow> unit result \<times> aclState" where
  "Delegate_DeleteEntry index fabricIndex st =
     (case FindUsedInAcl st index fabricIndex of
        Some storage \<Rightarrow>
          let st1 = fold (FixBeforeDelete storage) [0..<length (delegates st)] st;
              st2 = st1\<lparr>acl := shiftDown storage (acl st1)\<rparr>;
              st3 = fold (FixAfterDelete index) [0..<length (delegates st2)] st2
          in (Inr (), st3\<lparr>iterators := map (Iterator_FixAfterDelete (length (acl st3)) index) (iterators st3)\<rparr>)
      | None \<Rightarrow> (Inl CHIP_ERROR_SENTINEL, st))"

definition Iterator_Find :: "aclState \<Rightarrow> nat \<Rightarrow> nat option" where
  "Iterator_Find st it =
     (case iteratorDelegate st it of
        Some d \<Rightarrow> Some d
      | None \<Rightarrow> firstIndex (\<lambda>d. \<not> iInUse d) (iterators st))"

definition Delegate_Entries :: "nat \<Rightarrow> FabricIndex option \<Rightarrow> aclState \<Rightarrow> unit result \<times> aclState" where
  "Delegate_Entries it fabricIndex st =
     (case Iterator_Find st it of
        Some d \<Rightarrow>
          (Inr (), st\<lparr>iterators := (iterators st)[d := (iterators st ! d)
              \<lparr>iInUse := True, mFabricFiltered := fabricIndex \<noteq> None,
               iFabricIndex := (case fabricIndex of None \<Rightarrow> iFabricIndex (iterators st ! d) | Some f \<Rightarrow> f),
               position := None\<rparr>],
             iteratorDelegate := (iteratorDelegate st)(it := Some d)\<rparr>)
      | None \<Rightarrow> (Inl CHIP_ERROR_BUFFER_TOO_SMALL, st))"

text \<open>The loop of \<open>Next\<close>: the next position in use that passes the filter, from position \<open>p\<close> on.\<close>

function seekUsed :: "EntryStorage list \<Rightarrow> FabricIndex option \<Rightarrow> nat \<Rightarrow> nat" where
  "seekUsed l filt p =
     (if p \<ge> length l \<or> \<not> mInUse (l ! p) then length l
      else if (case filt of None \<Rightarrow> False | Some f \<Rightarrow> mFabricIndex (l ! p) \<noteq> f) then seekUsed l filt (p + 1)
      else p)"
  by auto

termination seekUsed
  by (relation "measure (\<lambda>(l, _, p). length l - p)") auto

declare seekUsed.simps [simp del]

definition Iterator_Next :: "nat \<Rightarrow> nat \<Rightarrow> aclState \<Rightarrow> unit result \<times> aclState" where
  "Iterator_Next d e st =
     (let it = iterators st ! d;
          start = (case position it of None \<Rightarrow> 0 | Some p \<Rightarrow> if p < length (acl st) then p + 1 else p);
          p = seekUsed (acl st) (if mFabricFiltered it then Some (iFabricIndex it) else None) start;
          st1 = st\<lparr>iterators := (iterators st)[d := it\<lparr>position := Some p\<rparr>]\<rparr>
      in if p = length (acl st) then (Inl CHIP_ERROR_SENTINEL, st1)
         else case EntryDelegate_Find st1 e of
                Some dd \<Rightarrow> (Inr (), EntryDelegate_Init dd e (InAcl p) st1)
              | None \<Rightarrow> (Inl CHIP_ERROR_BUFFER_TOO_SMALL, st1))"

definition Iterator_Release :: "nat \<Rightarrow> aclState \<Rightarrow> aclState" where
  "Iterator_Release d st = st\<lparr>iterators := (iterators st)[d := (iterators st ! d)\<lparr>iInUse := False\<rparr>]\<rparr>"

section \<open>The list behind the storage\<close>

text \<open>The entries in use are the prefix of the storage; \<open>aclOk\<close> says nothing is in use after it.\<close>

definition usedEntries :: "aclState \<Rightarrow> EntryStorage list" where
  "usedEntries st = takeWhile mInUse (acl st)"

definition aclOk :: "aclState \<Rightarrow> bool" where
  "aclOk st \<longleftrightarrow> list_all (\<lambda>s. \<not> mInUse s) (dropWhile mInUse (acl st))"

definition ofFabric :: "FabricIndex \<Rightarrow> EntryStorage list \<Rightarrow> EntryStorage list" where
  "ofFabric f l = filter (\<lambda>s. mFabricIndex s = f) l"

definition fabricEntries :: "aclState \<Rightarrow> FabricIndex \<Rightarrow> EntryStorage list" where
  "fabricEntries st f = ofFabric f (usedEntries st)"

definition removeNth :: "nat \<Rightarrow> 'a list \<Rightarrow> 'a list" where
  "removeNth k xs = take k xs @ drop (Suc k) xs"

lemma acl_split: "aclOk st \<Longrightarrow> \<exists>V. acl st = usedEntries st @ V \<and> list_all (\<lambda>s. \<not> mInUse s) V"
  unfolding aclOk_def usedEntries_def by (metis takeWhile_dropWhile_id)

lemma usedEntries_in_use: "list_all mInUse (usedEntries st)"
  by (auto simp: usedEntries_def list_all_iff dest: set_takeWhileD)

lemma takeWhile_prefix:
  "list_all P U \<Longrightarrow> list_all (\<lambda>s. \<not> P s) V \<Longrightarrow> takeWhile P (U @ V) = U \<and> dropWhile P (U @ V) = V"
  by (induction U) (cases V; auto)+

lemma acl_eqI:
  assumes "acl st = U @ V" "list_all mInUse U" "list_all (\<lambda>s. \<not> mInUse s) V"
  shows "usedEntries st = U \<and> aclOk st"
  using takeWhile_prefix [OF assms(2,3)] assms by (simp add: usedEntries_def aclOk_def)

lemma usedEntries_cong: "acl st' = acl st \<Longrightarrow> usedEntries st' = usedEntries st \<and> aclOk st' = aclOk st"
  by (simp add: usedEntries_def aclOk_def)

section \<open>Index conversion\<close>

lemma ex_shift: "(\<exists>j. i = a + j \<and> Q j) \<longleftrightarrow> i = a \<and> Q 0 \<or> (\<exists>j. i = Suc a + j \<and> Q (Suc j))"
proof
  assume "\<exists>j. i = a + j \<and> Q j"
  then obtain j where "i = a + j" "Q j" by blast
  then show "i = a \<and> Q 0 \<or> (\<exists>j. i = Suc a + j \<and> Q (Suc j))" by (cases j) auto
next
  assume "i = a \<and> Q 0 \<or> (\<exists>j. i = Suc a + j \<and> Q (Suc j))"
  then show "\<exists>j. i = a + j \<and> Q j" by (metis add.right_neutral add_Suc_shift)
qed

lemma relative_to_absolute:
  "ConvertIndexLoop l (r + k) a r f kRelativeToAbsolute = Some i \<longleftrightarrow>
     (\<exists>j. i = a + j \<and> j < length (takeWhile mInUse l) \<and> mFabricIndex (l ! j) = f \<and>
          length (ofFabric f (take j l)) = k)"
proof (induction l arbitrary: r k a)
  case (Cons s l)
  let ?P = "\<lambda>l k j. j < length (takeWhile mInUse l) \<and> mFabricIndex (l ! j) = f \<and> length (ofFabric f (take j l)) = k"
  show ?case
  proof (cases "mInUse s")
    case True
    have split: "(\<exists>j. i = a + j \<and> ?P (s # l) k j) \<longleftrightarrow>
        i = a \<and> ?P (s # l) k 0 \<or> (\<exists>j. i = Suc a + j \<and> ?P (s # l) k (Suc j))" for i k
      by (rule ex_shift)
    show ?thesis
    proof (cases "mFabricIndex s = f")
      case fab: True
      show ?thesis
      proof (cases k)
        case 0
        have "\<not> ?P (s # l) 0 (Suc j)" for j using fab by (simp add: ofFabric_def)
        then have "(\<exists>j. i = a + j \<and> ?P (s # l) k j) \<longleftrightarrow> i = a"
          unfolding split using 0 True fab by (auto simp: ofFabric_def)
        then show ?thesis using True fab 0 by auto
      next
        case (Suc k')
        then show ?thesis using True fab split Cons.IH [of "Suc r" k' "Suc a"]
          by (auto simp: ofFabric_def)
      qed
    next
      case False
      then show ?thesis using True split Cons.IH [of r k "Suc a"] by (auto simp: ofFabric_def)
    qed
  next
    case False
    then show ?thesis by simp
  qed
qed simp

lemma relative_to_absolute_None:
  "ConvertIndexLoop l (r + k) a r f kRelativeToAbsolute = None \<longleftrightarrow> length (ofFabric f (takeWhile mInUse l)) \<le> k"
proof (induction l arbitrary: r k a)
  case (Cons s l)
  show ?case
  proof (cases "mInUse s \<and> mFabricIndex s = f")
    case True
    then show ?thesis using Cons.IH [of "Suc r" "k - 1" "Suc a"] by (cases k) (auto simp: ofFabric_def)
  next
    case False
    then show ?thesis using Cons.IH [of r k "Suc a"] by (auto simp: ofFabric_def)
  qed
qed (simp add: ofFabric_def)

lemma absolute_to_relative:
  "j < length (takeWhile mInUse l) \<Longrightarrow> mFabricIndex (l ! j) = f \<Longrightarrow>
     ConvertIndexLoop l (a + j) a r f kAbsoluteToRelative = Some (r + length (ofFabric f (take j l)))"
proof (induction l arbitrary: j a r)
  case (Cons s l)
  then have u: "mInUse s" by (auto split: if_splits)
  show ?case
  proof (cases j)
    case 0
    then show ?thesis using Cons.prems u by (simp add: ofFabric_def)
  next
    case (Suc j')
    then have "j' < length (takeWhile mInUse l)" "mFabricIndex (l ! j') = f" using Cons.prems u by auto
    then show ?thesis
      using Cons.IH [of j' "Suc a" "Suc r"] Cons.IH [of j' "Suc a" r] Suc u by (auto simp: ofFabric_def)
  qed
qed simp

text \<open>The place of the \<open>k\<close>-th entry of a fabric.\<close>

lemma FindUsed_fabric:
  assumes "FindUsedInAcl st k (Some f) = Some i"
  shows "i < length (usedEntries st) \<and> mFabricIndex (usedEntries st ! i) = f \<and>
         length (ofFabric f (take i (usedEntries st))) = k"
proof -
  let ?U = "takeWhile mInUse (acl st)"
  obtain i' where i': "ConvertIndexLoop (acl st) (0 + k) 0 0 f kRelativeToAbsolute = Some i'" "i = i'"
    using assms by (auto simp: FindUsedInAcl_def ConvertIndex_def Let_def split: if_splits option.splits)
  then have "i < length ?U" "mFabricIndex (acl st ! i) = f" "length (ofFabric f (take i (acl st))) = k"
    using relative_to_absolute [of "acl st" 0 k 0 f i] by auto
  moreover have "take i ?U = take i (acl st)"
    using \<open>i < length ?U\<close> takeWhile_eq_take [of mInUse "acl st"] by (metis less_imp_le min.absorb1 take_take)
  ultimately show ?thesis by (simp add: usedEntries_def takeWhile_nth)
qed

lemma FindUsed_fabric_None:
  "FindUsedInAcl st k (Some f) = None \<longleftrightarrow> length (fabricEntries st f) \<le> k"
proof -
  let ?c = "ConvertIndexLoop (acl st) k 0 0 f kRelativeToAbsolute"
  have "i < length (acl st) \<and> mInUse (acl st ! i)" if "?c = Some i" for i
  proof -
    have "i < length (takeWhile mInUse (acl st))" using relative_to_absolute [of "acl st" 0 k 0 f i] that by auto
    then show ?thesis by (metis length_takeWhile_le nth_mem order_less_le_trans set_takeWhileD takeWhile_nth)
  qed
  then have "FindUsedInAcl st k (Some f) = None \<longleftrightarrow> ?c = None"
    by (cases ?c) (auto simp: FindUsedInAcl_def ConvertIndex_def)
  then show ?thesis
    using relative_to_absolute_None [of "acl st" 0 k 0 f] by (simp add: fabricEntries_def usedEntries_def)
qed

section \<open>Effects on the list\<close>

text \<open>No operation on delegates changes the list.\<close>

lemma putStorage_acl [simp]: "acl (putStorage (InPool i) s st) = acl st"
  by (simp add: putStorage_def)

lemma updDelegate_acl [simp]: "acl (updDelegate d f st) = acl st"
  by (simp add: updDelegate_def)

lemma Release_acl [simp]: "acl (EntryDelegate_Release d st) = acl st"
  by (auto simp: EntryDelegate_Release_def Storage_Release_def split: option.splits storageRef.splits)

lemma SetDelegate_acl [simp]: "acl (SetDelegate e d st) = acl st" "acl (ResetDelegate e st) = acl st"
  by (auto simp: SetDelegate_def ResetDelegate_def Let_def split: option.splits)

lemma Find_pool: "EntryStorage_Find st None = Some ref \<Longrightarrow> \<exists>i. ref = InPool i"
  by (auto simp: EntryStorage_Find_def)

lemma EnsureStorageInPool_acl [simp]: "acl (snd (EnsureStorageInPool d st)) = acl st"
  by (auto simp: EnsureStorageInPool_def split: option.splits storageRef.splits dest: Find_pool)

lemma Ensure_in_pool:
  assumes "EnsureStorageInPool d st = (Inr (), st1)" "mStorage (delegates st1 ! d) = Some ref" "d < length (delegates st)"
  shows "\<exists>i. ref = InPool i"
  using assms
  by (auto simp: EnsureStorageInPool_def updDelegate_def putStorage_def split: option.splits storageRef.splits
      dest!: Find_pool)

lemma EntryDelegate_Init_acl:
  assumes "i < length (acl st) \<Longrightarrow> mInUse (acl st ! i)"
  shows "acl (EntryDelegate_Init d e (InAcl i) st) = acl st"
  using assms by (cases "i < length (acl st)")
    (simp_all add: EntryDelegate_Init_def Let_def putStorage_def getStorage_def Entry_Init_def list_update_beyond)

lemma EntryDelegate_Init_pool_acl [simp]: "acl (EntryDelegate_Init d e (InPool i) st) = acl st"
  by (simp add: EntryDelegate_Init_def Let_def)

lemma fold_acl:
  "(\<And>x st. acl (f x st) = acl st) \<Longrightarrow> acl (fold f xs st) = acl st"
  by (induction xs arbitrary: st) auto

lemma FixBeforeDelete_acl [simp]: "acl (FixBeforeDelete i d st) = acl st"
  by (simp add: FixBeforeDelete_def)

lemma FixAfterDelete_acl [simp]: "acl (FixAfterDelete i d st) = acl st"
  by (auto simp: FixAfterDelete_def split: option.splits storageRef.splits)

lemma shiftDown_list:
  "list_all mInUse ys \<Longrightarrow> list_all (\<lambda>s. \<not> mInUse s) V \<Longrightarrow>
     shiftDown (length xs) (xs @ y # ys @ V) = xs @ ys @ Entry_Clear # V"
proof (induction ys arbitrary: xs y)
  case Nil
  then show ?case by (cases V) (auto simp: shiftDown.simps nth_append)
next
  case (Cons z zs)
  have "shiftDown (length xs) (xs @ y # (z # zs) @ V) = shiftDown (length (xs @ [z])) ((xs @ [z]) @ z # zs @ V)"
    using Cons.prems by (subst shiftDown.simps) (simp add: nth_append)
  then show ?case using Cons.IH [of "xs @ [z]" z] Cons.prems by simp
qed

lemma DeleteEntry_acl:
  assumes "aclOk st" "FindUsedInAcl st k fi = Some i" "i < length (usedEntries st)"
  shows "fst (Delegate_DeleteEntry k fi st) = Inr () \<and> aclOk (snd (Delegate_DeleteEntry k fi st)) \<and>
         usedEntries (snd (Delegate_DeleteEntry k fi st)) = removeNth i (usedEntries st)"
proof -
  let ?U = "usedEntries st"
  obtain V where V: "acl st = ?U @ V" "list_all (\<lambda>s. \<not> mInUse s) V" using acl_split [OF assms(1)] by blast
  have U: "?U = take i ?U @ ?U ! i # drop (Suc i) ?U" using assms(3) by (rule id_take_nth_drop)
  have use: "list_all mInUse (drop (Suc i) ?U)" "list_all mInUse (take i ?U)"
    using usedEntries_in_use [of st] by (auto simp: list_all_iff dest: in_set_dropD in_set_takeD)
  have "acl st = take i ?U @ ?U ! i # drop (Suc i) ?U @ V" using V(1) U by (metis append.assoc append_Cons)
  then have "shiftDown i (acl st) = take i ?U @ drop (Suc i) ?U @ Entry_Clear # V"
    using shiftDown_list [OF use(1) V(2), of "take i ?U" "?U ! i"] assms(3) by simp
  then have "acl (snd (Delegate_DeleteEntry k fi st)) = removeNth i ?U @ (Entry_Clear # V)"
    using assms(2) by (simp add: Delegate_DeleteEntry_def Let_def fold_acl removeNth_def)
  moreover have "list_all mInUse (removeNth i ?U)" using use by (simp add: removeNth_def)
  moreover have "list_all (\<lambda>s. \<not> mInUse s) (Entry_Clear # V)" using V(2) by (simp add: Entry_Clear_def)
  moreover have "fst (Delegate_DeleteEntry k fi st) = Inr ()" using assms(2) by (simp add: Delegate_DeleteEntry_def Let_def)
  ultimately show ?thesis using acl_eqI by blast
qed

lemma ofFabric_remove:
  assumes "i < length U" "mFabricIndex (U ! i) = f" "length (ofFabric f (take i U)) = k"
  shows "ofFabric g (removeNth i U) = (if g = f then removeNth k (ofFabric f U) else ofFabric g U) \<and>
         k < length (ofFabric f U) \<and> ofFabric f U ! k = U ! i"
proof -
  have U: "U = take i U @ U ! i # drop (Suc i) U" using assms(1) by (rule id_take_nth_drop)
  have f: "ofFabric h U = ofFabric h (take i U) @ (if h = f then [U ! i] else []) @ ofFabric h (drop (Suc i) U)" for h
    using assms(2) by (subst U) (simp add: ofFabric_def)
  show ?thesis
    using assms(3) f [of f] f [of g] by (auto simp: removeNth_def ofFabric_def nth_append)
qed

lemma ofFabric_update:
  assumes "i < length U" "mFabricIndex (U ! i) = f" "length (ofFabric f (take i U)) = k" "mFabricIndex x = f"
  shows "ofFabric g (U[i := x]) = (if g = f then (ofFabric f U)[k := x] else ofFabric g U)"
proof -
  have U: "U = take i U @ U ! i # drop (Suc i) U" using assms(1) by (rule id_take_nth_drop)
  have u: "U[i := x] = take i U @ x # drop (Suc i) U" using assms(1) by (simp add: upd_conv_take_nth_drop)
  have "ofFabric h U = ofFabric h (take i U) @ (if h = f then [U ! i] else []) @ ofFabric h (drop (Suc i) U)" for h
    using assms(2) by (subst U) (simp add: ofFabric_def)
  then show ?thesis
    unfolding u using assms(3,4) by (auto simp: ofFabric_def list_update_append)
qed

text \<open>Deletion of the \<open>k\<close>-th entry of a fabric.\<close>

lemma delete_fabric:
  assumes "aclOk st" "k < length (fabricEntries st f)"
  shows "fst (Delegate_DeleteEntry k (Some f) st) = Inr () \<and> aclOk (snd (Delegate_DeleteEntry k (Some f) st)) \<and>
         fabricEntries (snd (Delegate_DeleteEntry k (Some f) st)) g =
           (if g = f then removeNth k (fabricEntries st f) else fabricEntries st g)"
proof -
  obtain i where i: "FindUsedInAcl st k (Some f) = Some i"
    using FindUsed_fabric_None [of st k f] assms(2) by (cases "FindUsedInAcl st k (Some f)") auto
  note p = FindUsed_fabric [OF i]
  note d = DeleteEntry_acl [OF assms(1) i]
  show ?thesis using d p ofFabric_remove [of i "usedEntries st" f k g] by (simp add: fabricEntries_def)
qed

lemma delete_missing:
  "length (fabricEntries st f) \<le> k \<Longrightarrow> Delegate_DeleteEntry k (Some f) st = (Inl CHIP_ERROR_SENTINEL, st)"
  using FindUsed_fabric_None [of st k f] by (simp add: Delegate_DeleteEntry_def)

lemma update_fabric:
  assumes "aclOk st" "k < length (fabricEntries st f)" "Copy e st = Inr s" "mInUse s" "mFabricIndex s = f"
  shows "fst (Delegate_UpdateEntry k e (Some f) st) = Inr () \<and> aclOk (snd (Delegate_UpdateEntry k e (Some f) st)) \<and>
         fabricEntries (snd (Delegate_UpdateEntry k e (Some f) st)) g =
           (if g = f then (fabricEntries st f)[k := s] else fabricEntries st g)"
proof -
  obtain i where i: "FindUsedInAcl st k (Some f) = Some i"
    using FindUsed_fabric_None [of st k f] assms(2) by (cases "FindUsedInAcl st k (Some f)") auto
  note p = FindUsed_fabric [OF i]
  obtain V where V: "acl st = usedEntries st @ V" "list_all (\<lambda>s. \<not> mInUse s) V" using acl_split [OF assms(1)] by blast
  have "acl (snd (Delegate_UpdateEntry k e (Some f) st)) = (usedEntries st)[i := s] @ V"
    using i p assms(3) V(1) by (simp add: Delegate_UpdateEntry_def list_update_append)
  moreover have "list_all mInUse ((usedEntries st)[i := s])"
    using usedEntries_in_use [of st] assms(4) set_update_subset_insert [of "usedEntries st" i s]
    by (auto simp: list_all_iff)
  ultimately have "usedEntries (snd (Delegate_UpdateEntry k e (Some f) st)) = (usedEntries st)[i := s]"
      "aclOk (snd (Delegate_UpdateEntry k e (Some f) st))"
    using acl_eqI V(2) by blast+
  then show ?thesis
    using p ofFabric_update [of i "usedEntries st" f k s g] assms(5) i assms(3)
    by (simp add: fabricEntries_def Delegate_UpdateEntry_def)
qed

lemma firstIndex_Some: "firstIndex P xs = Some i \<longleftrightarrow> i < length xs \<and> P (xs ! i) \<and> (\<forall>j < i. \<not> P (xs ! j))"
proof (induction xs arbitrary: i)
  case (Cons x xs)
  show ?case
  proof (cases i)
    case 0
    then show ?thesis by auto
  next
    case (Suc i')
    then show ?thesis using Cons.IH [of i'] by (auto simp: less_Suc_eq_0_disj)
  qed
qed simp

lemma firstIndex_None: "firstIndex P xs = None \<longleftrightarrow> (\<forall>x \<in> set xs. \<not> P x)"
  by (induction xs) auto

lemma FindUnused_place:
  assumes "aclOk st" "FindUnusedInAcl st = Some i"
  shows "i = length (usedEntries st)"
proof -
  obtain V where V: "acl st = usedEntries st @ V" "list_all (\<lambda>s. \<not> mInUse s) V" using acl_split [OF assms(1)] by blast
  note f = assms(2) [unfolded FindUnusedInAcl_def firstIndex_Some]
  have "\<not> i < length (usedEntries st)"
    using f V(1) usedEntries_in_use [of st] by (auto simp: nth_append list_all_length)
  moreover have "\<not> length (usedEntries st) < i"
  proof
    assume u: "length (usedEntries st) < i"
    then have "mInUse (V ! 0)" using f V(1) by (auto simp: nth_append)
    moreover have "V \<noteq> []" using f u V(1) by (cases V) auto
    ultimately show False using V(2) by (cases V) auto
  qed
  ultimately show ?thesis by simp
qed

text \<open>A new entry goes after the entries in use; its index is the last one of its fabric.\<close>

lemma create_fabric:
  assumes "aclOk st" "FindUnusedInAcl st = Some i" "Copy e st = Inr s" "mInUse s"
  shows "fst (Delegate_CreateEntry e st) = Inr (length (fabricEntries st (mFabricIndex s)), mFabricIndex s) \<and>
         aclOk (snd (Delegate_CreateEntry e st)) \<and>
         fabricEntries (snd (Delegate_CreateEntry e st)) g =
           (if g = mFabricIndex s then fabricEntries st g @ [s] else fabricEntries st g)"
proof -
  obtain V where V: "acl st = usedEntries st @ V" "list_all (\<lambda>s. \<not> mInUse s) V" using acl_split [OF assms(1)] by blast
  have i: "i = length (usedEntries st)" using FindUnused_place [OF assms(1,2)] .
  have "i < length (acl st)" using assms(2) by (simp add: FindUnusedInAcl_def firstIndex_Some)
  then obtain v V' where V': "V = v # V'" using V(1) i by (cases V) auto
  let ?st = "st\<lparr>acl := (acl st)[i := s]\<rparr>"
  have r: "Delegate_CreateEntry e st = (Inr (ConvertIndex ?st i (mFabricIndex s) kAbsoluteToRelative, mFabricIndex s), ?st)"
    using assms by (simp add: Delegate_CreateEntry_def Let_def)
  have a: "acl ?st = (usedEntries st @ [s]) @ V'" using V(1) i V' by simp
  have use: "list_all mInUse (usedEntries st @ [s])" using usedEntries_in_use [of st] assms(4) by simp
  have U: "usedEntries ?st = usedEntries st @ [s]" "aclOk ?st"
    using acl_eqI [OF a use] V(2) V' by simp_all
  have "ConvertIndexLoop (acl ?st) (0 + i) 0 0 (mFabricIndex s) kAbsoluteToRelative =
          Some (0 + length (ofFabric (mFabricIndex s) (take i (acl ?st))))"
    using U(1) a i by (intro absolute_to_relative) (simp_all add: usedEntries_def nth_append)
  then have "ConvertIndex ?st i (mFabricIndex s) kAbsoluteToRelative = length (fabricEntries st (mFabricIndex s))"
    using a i V(1) by (simp add: ConvertIndex_def fabricEntries_def)
  then show ?thesis using r U by (simp add: fabricEntries_def ofFabric_def)
qed

section \<open>Deleting all entries of a fabric\<close>

text \<open>
  What the access control asks of a delegate that holds the list: the number of entries of a
  fabric, and deletion of one of them, which leaves the other entries and their order alone.
  \<open>deleteDown\<close> is the loop of \<open>AccessControl::DeleteAllEntriesForFabric\<close>; it keeps the first error.
\<close>

fun deleteDown :: "(nat \<Rightarrow> 's \<Rightarrow> unit result \<times> 's) \<Rightarrow> nat \<Rightarrow> unit result \<Rightarrow> 's \<Rightarrow> unit result \<times> 's" where
  "deleteDown del 0 stickyError s = (stickyError, s)"
| "deleteDown del (Suc aclCount) stickyError s =
     (case del aclCount s of
        (err, s') \<Rightarrow> deleteDown del aclCount (if isOk stickyError then err else stickyError) s')"

locale acl_delegate =
  fixes ok :: "'s \<Rightarrow> bool" and entriesOf :: "'s \<Rightarrow> FabricIndex \<Rightarrow> 'e list"
    and countOf :: "'s \<Rightarrow> FabricIndex \<Rightarrow> nat" and deleteAt :: "nat \<Rightarrow> FabricIndex \<Rightarrow> 's \<Rightarrow> unit result \<times> 's"
  assumes countOf: "countOf s f = length (entriesOf s f)"
    and deleteAt: "ok s \<Longrightarrow> k < length (entriesOf s f) \<Longrightarrow>
      fst (deleteAt k f s) = Inr () \<and> ok (snd (deleteAt k f s)) \<and>
      entriesOf (snd (deleteAt k f s)) g = (if g = f then removeNth k (entriesOf s f) else entriesOf s g)"
begin

lemma deleteDown_all:
  "ok s \<Longrightarrow> countOf s f = n \<Longrightarrow>
     fst (deleteDown (\<lambda>k. deleteAt k f) n (Inr ()) s) = Inr () \<and> ok (snd (deleteDown (\<lambda>k. deleteAt k f) n (Inr ()) s)) \<and>
     entriesOf (snd (deleteDown (\<lambda>k. deleteAt k f) n (Inr ()) s)) g = (if g = f then [] else entriesOf s g)"
proof (induction n arbitrary: s)
  case 0
  then show ?case by (simp add: countOf)
next
  case (Suc n)
  then have n: "n < length (entriesOf s f)" by (simp add: countOf)
  obtain s' where s': "deleteAt n f s = (Inr (), s')" using deleteAt [OF Suc.prems(1) n] by (cases "deleteAt n f s") auto
  have d: "ok s'" "entriesOf s' h = (if h = f then removeNth n (entriesOf s f) else entriesOf s h)" for h
    using deleteAt [OF Suc.prems(1) n] s' by auto
  then have "countOf s' f = n" using Suc.prems(2) n by (simp add: countOf removeNth_def)
  from Suc.IH [OF d(1) this] show ?case using s' d(2) by simp
qed

end

interpretation example: acl_delegate aclOk fabricEntries GetEntryCountFabric
  "\<lambda>k f. Delegate_DeleteEntry k (Some f)"
  by unfold_locales
    (simp add: GetEntryCountFabric_def fabricEntries_def usedEntries_def ofFabric_def, rule delete_fabric)

section \<open>Targets: storage round trip\<close>

definition sameTarget :: "Target \<Rightarrow> Target \<Rightarrow> bool" where
  "sameTarget a b \<longleftrightarrow> flags a = flags b \<and>
     (flags a AND kCluster \<noteq> 0 \<longrightarrow> cluster a = cluster b) \<and>
     (flags a AND kEndpoint \<noteq> 0 \<longrightarrow> endpoint a = endpoint b) \<and>
     (flags a AND kDeviceType \<noteq> 0 \<longrightarrow> deviceType a = deviceType b)"

lemma low_bits_only: "(f :: u32) AND NOT (mask 3) = 0 \<Longrightarrow> take_bit 3 f = f"
proof (rule bit_word_eqI)
  fix n assume f: "f AND NOT (mask 3) = 0" and n: "n < LENGTH(32)"
  have "\<not> bit (f AND NOT (mask 3)) n" unfolding f by simp
  then show "bit (take_bit 3 f) n = bit f n" using n by (auto simp: bit_simps)
qed

lemma flags_cases:
  assumes "Target_IsValid t"
  shows "flags t = 1 \<or> flags t = 2 \<or> flags t = 3 \<or> flags t = 4 \<or> flags t = 5"
proof -
  let ?f = "flags t"
  have v: "?f AND NOT 7 = 0" "?f AND 7 \<noteq> 0" "?f AND 6 \<noteq> 6"
    using assms by (simp_all add: Target_IsValid_def kCluster_def kEndpoint_def kDeviceType_def)
  have "?f AND NOT (mask 3) = 0" using v(1) by (simp add: mask_eq_exp_minus_1)
  then have "take_bit 3 ?f = ?f" by (rule low_bits_only)
  then have "uint ?f = take_bit 3 (uint ?f)" by (metis unsigned_take_bit_eq)
  then have "uint ?f < 8" using take_bit_int_less_exp [of 3 "uint ?f"] by simp
  moreover have "0 \<le> uint ?f" by simp
  ultimately have "uint ?f \<in> {0, 1, 2, 3, 4, 5, 6, 7}" unfolding insert_iff empty_iff by presburger
  then have "?f \<in> {0, 1, 2, 3, 4, 5, 6, 7}" by (auto simp: word_uint_eq_iff)
  then show ?thesis using v(2,3) by auto
qed

lemma endpoint_code:
  fixes ep :: u16
  defines "c \<equiv> push_bit 16 (ucast ep :: u32) OR 0xEEEE"
  shows "c AND 0xFFFF = 0xEEEE" "ucast (drop_bit 16 c) = ep" "c \<noteq> 0xFFFFFFFF"
proof -
  have m: "x AND 0xFFFF = take_bit 16 x" for x :: u32 by (simp add: take_bit_eq_mask mask_eq_exp_minus_1)
  show 1: "c AND 0xFFFF = 0xEEEE" unfolding m c_def by (simp add: take_bit_or take_bit_push_bit)
  have "drop_bit 16 c = drop_bit 16 (push_bit 16 (ucast ep))" unfolding c_def by (simp add: drop_bit_or)
  moreover have "ucast (drop_bit 16 (push_bit 16 (ucast ep :: u32))) = ep"
    by (rule bit_word_eqI) (auto simp: bit_simps)
  ultimately show "ucast (drop_bit 16 c) = ep" by simp
  show "c \<noteq> 0xFFFFFFFF" using 1 by auto
qed

text \<open>
  A target survives its packed storage: what \<open>Add\<close> or \<open>Set\<close> stored for a valid target is not
  empty and is read back with the same flags and the same cluster, endpoint and device type
  wherever the flags say they are present, for every value of the fields.
\<close>

theorem target_storage_roundtrip:
  assumes "Target_IsValid t"
  shows "\<exists>t'. Target_Get (Target_Encode t) t0 = Inr t' \<and> sameTarget t t'"
proof -
  have c: "cluster t \<noteq> 0xFFFFFFFF" if "flags t AND 1 \<noteq> 0"
    using assms that by (auto simp: Target_IsValid_def kCluster_def IsValidCluster_def Let_def)
  have d: "deviceType t \<noteq> 0xFFFFFFFF" "deviceType t AND 0xFFFF \<noteq> 0xEEEE" if "flags t AND 4 \<noteq> 0"
    using assms that by (auto simp: Target_IsValid_def kDeviceType_def IsValidDeviceType_def Let_def)
  note e = endpoint_code [of "endpoint t"]
  note defs = Target_Get_def Target_IsEmpty_def Target_Decode_def Target_Encode_def sameTarget_def Let_def
    kCluster_def kEndpoint_def kDeviceType_def kClusterEmpty_def kDeviceTypeEmpty_def kEndpointMagic_def
  from flags_cases [OF assms] show ?thesis
    using c d e by (elim disjE) (simp_all add: defs)
qed

theorem target_storage_roundtrip_witness:
  "\<exists>t'. Target_Get (Target_Encode \<lparr>flags = 3, cluster = 6, endpoint = 0xEEEE, deviceType = 0\<rparr>)
      \<lparr>flags = 0, cluster = 0, endpoint = 0, deviceType = 0\<rparr> = Inr t' \<and>
     sameTarget \<lparr>flags = 3, cluster = 6, endpoint = 0xEEEE, deviceType = 0\<rparr> t'"
proof -
  have "Target_IsValid \<lparr>flags = 3, cluster = 6, endpoint = 0xEEEE, deviceType = 0\<rparr>" by code_simp
  then show ?thesis by (rule target_storage_roundtrip)
qed

end
