(* ===== verification/Access_Control.thy ===== *)
theory Access_Control
  imports Access_Store
begin

text \<open>
  The access control module of \<^verbatim>\<open>src/access/AccessControl.cpp\<close> over the list of \<open>Access_Store\<close>:
  validation of entries, creation, update and deletion with notification of the listeners, and
  the check of a request against the entries of the requester's fabric.  The node id ranges of
  \<^verbatim>\<open>src/lib/core/NodeId.h\<close> and the CASE authenticated tags of \<^verbatim>\<open>src/lib/core/CASEAuthTag.h\<close> that
  it uses are included.
\<close>

section \<open>Node ids and CASE authenticated tags\<close>

definition IsOperationalNodeId :: "NodeId \<Rightarrow> bool" where
  "IsOperationalNodeId n \<longleftrightarrow> n \<noteq> 0 \<and> n \<le> 0xFFFFFFEFFFFFFFFF"

definition IsGroupId :: "NodeId \<Rightarrow> bool" where
  "IsGroupId n \<longleftrightarrow> n \<ge> 0xFFFFFFFFFFFF0000"

definition IsCASEAuthTag :: "NodeId \<Rightarrow> bool" where
  "IsCASEAuthTag n \<longleftrightarrow> n \<ge> 0xFFFFFFFD00000000 \<and> n \<le> 0xFFFFFFFDFFFFFFFF"

definition GroupIdFromNodeId :: "NodeId \<Rightarrow> GroupId" where
  "GroupIdFromNodeId n = ucast (n AND 0xFFFF)"

definition IsValidGroupId :: "GroupId \<Rightarrow> bool" where
  "IsValidGroupId g \<longleftrightarrow> g \<noteq> 0"

type_synonym CASEAuthTag = u32

definition CASEAuthTagFromNodeId :: "NodeId \<Rightarrow> CASEAuthTag" where
  "CASEAuthTagFromNodeId n = ucast (n AND 0xFFFFFFFF)"

definition GetCASEAuthTagIdentifier :: "CASEAuthTag \<Rightarrow> u16" where
  "GetCASEAuthTagIdentifier c = ucast (drop_bit 16 (c AND 0xFFFF0000))"

definition GetCASEAuthTagVersion :: "CASEAuthTag \<Rightarrow> u16" where
  "GetCASEAuthTagVersion c = ucast (c AND 0x0000FFFF)"

type_synonym CATValues = "CASEAuthTag list"

definition CheckSubjectAgainstCATs :: "CATValues \<Rightarrow> NodeId \<Rightarrow> bool" where
  "CheckSubjectAgainstCATs cats subject \<longleftrightarrow>
     IsCASEAuthTag subject \<and>
     (let catFromSubject = CASEAuthTagFromNodeId subject in
      list_ex (\<lambda>catFromNoc. catFromNoc \<noteq> 0 \<and>
        GetCASEAuthTagIdentifier catFromNoc = GetCASEAuthTagIdentifier catFromSubject \<and>
        GetCASEAuthTagVersion catFromSubject > 0 \<and>
        GetCASEAuthTagVersion catFromNoc \<ge> GetCASEAuthTagVersion catFromSubject) cats)"

definition IsValidCaseNodeId :: "NodeId \<Rightarrow> bool" where
  "IsValidCaseNodeId n \<longleftrightarrow>
     IsOperationalNodeId n \<or> (IsCASEAuthTag n \<and> GetCASEAuthTagVersion (CASEAuthTagFromNodeId n) \<noteq> 0)"

definition IsValidGroupNodeId :: "NodeId \<Rightarrow> bool" where
  "IsValidGroupNodeId n \<longleftrightarrow> IsGroupId n \<and> IsValidGroupId (GroupIdFromNodeId n)"

section \<open>Identifiers of the data model\<close>

definition IsValidClusterId :: "ClusterId \<Rightarrow> bool" where
  "IsValidClusterId c \<longleftrightarrow>
     (let ident = (ucast (c AND 0xFFFF) :: u16); vendor = (ucast (drop_bit 16 c) :: u16) in
      (vendor = 0 \<and> ident \<le> 0x7FFF) \<or> (vendor \<ge> 1 \<and> vendor \<le> 0xFFFE \<and> ident \<ge> 0xFC00 \<and> ident \<le> 0xFFFE))"

definition IsValidDeviceTypeId :: "DeviceTypeId \<Rightarrow> bool" where
  "IsValidDeviceTypeId d \<longleftrightarrow> d AND 0xFFFF0000 \<le> 0xFFFE0000 \<and> d AND 0x0000FFFF \<le> 0xBFFF"

definition IsValidEndpointId :: "EndpointId \<Rightarrow> bool" where
  "IsValidEndpointId e \<longleftrightarrow> e \<noteq> 0xFFFF"

section \<open>Privileges and validation\<close>

fun CheckRequestPrivilegeAgainstEntryPrivilege :: "Privilege \<Rightarrow> Privilege \<Rightarrow> bool" where
  "CheckRequestPrivilegeAgainstEntryPrivilege request kView = (request = kView)"
| "CheckRequestPrivilegeAgainstEntryPrivilege request kProxyView = (request = kProxyView \<or> request = kView)"
| "CheckRequestPrivilegeAgainstEntryPrivilege request kOperate = (request = kOperate \<or> request = kView)"
| "CheckRequestPrivilegeAgainstEntryPrivilege request kManage =
     (request = kManage \<or> request = kOperate \<or> request = kView)"
| "CheckRequestPrivilegeAgainstEntryPrivilege request kAdminister =
     (request = kAdminister \<or> request = kManage \<or> request = kOperate \<or> request = kView \<or> request = kProxyView)"

definition uninitTarget :: Target where
  "uninitTarget = \<lparr>flags = 0, cluster = 0, endpoint = 0, deviceType = 0\<rparr>"

definition validSubject :: "AuthMode \<Rightarrow> NodeId \<Rightarrow> bool" where
  "validSubject authMode subject \<longleftrightarrow>
     (authMode = kCase \<and> IsValidCaseNodeId subject) \<or> (authMode = kGroup \<and> IsValidGroupNodeId subject)"

definition validTarget :: "Target \<Rightarrow> bool" where
  "validTarget t \<longleftrightarrow>
     (let kHasCluster = (flags t AND kCluster \<noteq> 0); kHasEndpoint = (flags t AND kEndpoint \<noteq> 0);
          kHasDeviceType = (flags t AND kDeviceType \<noteq> 0) in
      (kHasCluster \<or> kHasEndpoint \<or> kHasDeviceType) \<and> \<not> (kHasEndpoint \<and> kHasDeviceType) \<and>
      (\<not> kHasCluster \<or> IsValidClusterId (cluster t)) \<and>
      (\<not> kHasEndpoint \<or> IsValidEndpointId (endpoint t)) \<and>
      (\<not> kHasDeviceType \<or> IsValidDeviceTypeId (deviceType t)))"

text \<open>\<open>IsValid\<close> on the storage an entry object refers to; an entry object without a delegate has
  no storage and fails at the first getter.\<close>

definition IsValid :: "EntryStorage option \<Rightarrow> bool" where
  "IsValid entry =
     (case entry of
        None \<Rightarrow> False
      | Some s \<Rightarrow>
          mFabricIndex s \<noteq> 0 \<and>
          (mAuthMode s = kCase \<or> (mAuthMode s = kGroup \<and> mPrivilege s \<noteq> kAdminister)) \<and>
          list_all (\<lambda>i. case GetSubject s i of Inl _ \<Rightarrow> False | Inr subject \<Rightarrow> validSubject (mAuthMode s) subject)
            [0..<GetSubjectCount s] \<and>
          list_all (\<lambda>i. case GetTarget s i uninitTarget of Inl _ \<Rightarrow> False | Inr target \<Rightarrow> validTarget target)
            [0..<GetTargetCount s])"

section \<open>Check\<close>

record SubjectDescriptor =
  fabricIndex :: FabricIndex
  authMode :: AuthMode
  subject :: NodeId
  cats :: CATValues

record RequestPath =
  pathCluster :: ClusterId
  pathEndpoint :: EndpointId

text \<open>The loop over the subjects: an error, or whether one matched.\<close>

fun subjectLoop :: "SubjectDescriptor \<Rightarrow> EntryStorage \<Rightarrow> nat list \<Rightarrow> bool result" where
  "subjectLoop sd s [] = Inr False"
| "subjectLoop sd s (i # is) =
     rbind (GetSubject s i) (\<lambda>subj.
       if IsOperationalNodeId subj then
         verify (mAuthMode s = kCase) CHIP_ERROR_INCORRECT_STATE
           (if subj = subject sd then Inr True else subjectLoop sd s is)
       else if IsCASEAuthTag subj then
         verify (mAuthMode s = kCase) CHIP_ERROR_INCORRECT_STATE
           (if CheckSubjectAgainstCATs (cats sd) subj then Inr True else subjectLoop sd s is)
       else if IsGroupId subj then
         verify (mAuthMode s = kGroup) CHIP_ERROR_INCORRECT_STATE
           (if subj = subject sd then Inr True else subjectLoop sd s is)
       else Inl CHIP_ERROR_INCORRECT_STATE)"

definition targetMatches :: "(DeviceTypeId \<Rightarrow> EndpointId \<Rightarrow> bool) \<Rightarrow> RequestPath \<Rightarrow> Target \<Rightarrow> bool" where
  "targetMatches IsDeviceTypeOnEndpoint path t \<longleftrightarrow>
     \<not> (flags t AND kCluster \<noteq> 0 \<and> cluster t \<noteq> pathCluster path) \<and>
     \<not> (flags t AND kEndpoint \<noteq> 0 \<and> endpoint t \<noteq> pathEndpoint path) \<and>
     \<not> (flags t AND kDeviceType \<noteq> 0 \<and> \<not> IsDeviceTypeOnEndpoint (deviceType t) (pathEndpoint path))"

fun targetLoop ::
    "(DeviceTypeId \<Rightarrow> EndpointId \<Rightarrow> bool) \<Rightarrow> RequestPath \<Rightarrow> EntryStorage \<Rightarrow> nat list \<Rightarrow> bool result" where
  "targetLoop resolver path s [] = Inr False"
| "targetLoop resolver path s (i # is) =
     rbind (GetTarget s i uninitTarget) (\<lambda>t.
       if targetMatches resolver path t then Inr True else targetLoop resolver path s is)"

text \<open>One turn of the loop over the entries: \<open>Inr True\<close> allows, \<open>Inr False\<close> goes on.\<close>

definition checkEntry ::
    "(DeviceTypeId \<Rightarrow> EndpointId \<Rightarrow> bool) \<Rightarrow> SubjectDescriptor \<Rightarrow> RequestPath \<Rightarrow> Privilege \<Rightarrow> EntryStorage \<Rightarrow> bool result" where
  "checkEntry resolver sd path requestPrivilege s =
     verify (mAuthMode s = kCase \<or> mAuthMode s = kGroup) CHIP_ERROR_INCORRECT_STATE
       (if mAuthMode s \<noteq> authMode sd then Inr False
        else if \<not> CheckRequestPrivilegeAgainstEntryPrivilege requestPrivilege (mPrivilege s) then Inr False
        else
          rbind (if GetSubjectCount s > 0 then subjectLoop sd s [0..<GetSubjectCount s] else Inr True) (\<lambda>subjectMatched.
            if \<not> subjectMatched then Inr False
            else
              rbind (if GetTargetCount s > 0 then targetLoop resolver path s [0..<GetTargetCount s] else Inr True)
                Inr))"

text \<open>
  The loop of \<open>Check\<close>.  Its entry object is number 0, and the iterator is the one \<open>Entries\<close> set up.
  The loop ends when \<open>Next\<close> does not succeed.  \<open>fuel\<close> bounds the number of turns; one more than
  the size of the list is always enough, since each turn moves the iterator forward.
\<close>

fun entriesLoop ::
    "nat \<Rightarrow> (DeviceTypeId \<Rightarrow> EndpointId \<Rightarrow> bool) \<Rightarrow> SubjectDescriptor \<Rightarrow> RequestPath \<Rightarrow> Privilege \<Rightarrow>
     nat \<Rightarrow> aclState \<Rightarrow> unit result \<times> aclState" where
  "entriesLoop 0 resolver sd path priv d st = (Inl CHIP_ERROR_INTERNAL, st)"
| "entriesLoop (Suc fuel) resolver sd path priv d st =
     (case Iterator_Next d 0 st of
        (Inl _, st1) \<Rightarrow> (Inl CHIP_ERROR_ACCESS_DENIED, st1)
      | (Inr _, st1) \<Rightarrow>
          (case Entry_Storage 0 st1 of
             None \<Rightarrow> (Inl CHIP_ERROR_NOT_IMPLEMENTED, st1)
           | Some s \<Rightarrow>
               (case checkEntry resolver sd path priv s of
                  Inl e \<Rightarrow> (Inl e, st1)
                | Inr True \<Rightarrow> (Inr (), st1)
                | Inr False \<Rightarrow> entriesLoop fuel resolver sd path priv d st1)))"

record AccessControl =
  initialized :: bool
  listeners :: "nat list"

text \<open>\<open>EntryIterator::ResetDelegate\<close>, and the destructors of the local entry object and of the local
  iterator of \<open>Check\<close>.\<close>

definition Iterator_ResetDelegate :: "nat \<Rightarrow> aclState \<Rightarrow> aclState" where
  "Iterator_ResetDelegate it st =
     (let st1 = (case iteratorDelegate st it of None \<Rightarrow> st | Some d \<Rightarrow> Iterator_Release d st)
      in st1\<lparr>iteratorDelegate := (iteratorDelegate st1)(it := None)\<rparr>)"

definition destroyLocals :: "nat \<Rightarrow> aclState \<Rightarrow> aclState" where
  "destroyLocals d st =
     (let st1 = ResetDelegate 0 st; st2 = Iterator_Release d st1
      in st2\<lparr>iteratorDelegate := (iteratorDelegate st2)(0 := None)\<rparr>)"

text \<open>\<open>Check\<close>; the delegate of \<open>Access_Store\<close> leaves the decision to it
  (\<open>CHIP_ERROR_NOT_IMPLEMENTED\<close>).\<close>

definition Check ::
    "AccessControl \<Rightarrow> (DeviceTypeId \<Rightarrow> EndpointId \<Rightarrow> bool) \<Rightarrow> SubjectDescriptor \<Rightarrow> RequestPath \<Rightarrow> Privilege \<Rightarrow>
     aclState \<Rightarrow> unit result \<times> aclState" where
  "Check ac resolver sd path priv st =
     (if \<not> initialized ac then (Inl CHIP_ERROR_INCORRECT_STATE, st)
      else if authMode sd = kPase then (Inr (), st)
      else case Delegate_Entries 0 (Some (fabricIndex sd)) st of
             (Inl e, st1) \<Rightarrow> (Inl e, st1)
           | (Inr _, st1) \<Rightarrow>
               (case iteratorDelegate st1 0 of
                  None \<Rightarrow> (Inl CHIP_ERROR_SENTINEL, st1)
                | Some d \<Rightarrow>
                    (case entriesLoop (length (acl st) + 1) resolver sd path priv d st1 of
                       (r, st2) \<Rightarrow> (r, destroyLocals d st2))))"

section \<open>Entries and listeners\<close>

datatype ChangeType = kAdded | kRemoved | kUpdated

text \<open>A notification: listener, fabric, index, the entry if one is passed, and the change.\<close>

type_synonym notification = "nat \<times> FabricIndex \<times> nat \<times> EntryStorage option \<times> ChangeType"

definition NotifyEntryChanged ::
    "AccessControl \<Rightarrow> FabricIndex \<Rightarrow> nat \<Rightarrow> EntryStorage option \<Rightarrow> ChangeType \<Rightarrow> notification list" where
  "NotifyEntryChanged ac fabric index entry change = map (\<lambda>l. (l, fabric, index, entry, change)) (listeners ac)"

definition AddEntryListener :: "nat \<Rightarrow> AccessControl \<Rightarrow> AccessControl" where
  "AddEntryListener l ac =
     (if l \<in> set (listeners ac) then ac else ac\<lparr>listeners := listeners ac @ [l]\<rparr>)"

definition RemoveEntryListener :: "nat \<Rightarrow> AccessControl \<Rightarrow> AccessControl" where
  "RemoveEntryListener l ac = ac\<lparr>listeners := remove1 l (listeners ac)\<rparr>"

definition AccessControl_Init :: "AccessControl \<Rightarrow> aclState \<Rightarrow> unit result \<times> AccessControl \<times> aclState" where
  "AccessControl_Init ac st =
     (if initialized ac then (Inl CHIP_ERROR_INCORRECT_STATE, ac, st)
      else (Inr (), ac\<lparr>initialized := True\<rparr>, Delegate_Init st))"

definition AccessControl_Finish :: "AccessControl \<Rightarrow> AccessControl" where
  "AccessControl_Finish ac = ac\<lparr>initialized := False\<rparr>"

text \<open>The result of \<open>CreateEntry\<close> is the index of the new entry.  The delegate writes the entry's own
  fabric index over the argument, so that is the fabric of the notification.\<close>

definition CreateEntry ::
    "AccessControl \<Rightarrow> FabricIndex \<Rightarrow> nat \<Rightarrow> aclState \<Rightarrow> nat result \<times> aclState \<times> notification list" where
  "CreateEntry ac fabric e st =
     (if \<not> initialized ac then (Inl CHIP_ERROR_INCORRECT_STATE, st, [])
      else if \<not> GetEntryCountFabric st fabric + 1 \<le> kEntriesPerFabric then (Inl CHIP_ERROR_BUFFER_TOO_SMALL, st, [])
      else if \<not> IsValid (Entry_Storage e st) then (Inl CHIP_ERROR_INVALID_ARGUMENT, st, [])
      else case Delegate_CreateEntry e st of
             (Inl err, st1) \<Rightarrow> (Inl err, st1, [])
           | (Inr (i, fab), st1) \<Rightarrow> (Inr i, st1, NotifyEntryChanged ac fab i (Entry_Storage e st1) kAdded))"

definition UpdateEntry ::
    "AccessControl \<Rightarrow> FabricIndex \<Rightarrow> nat \<Rightarrow> nat \<Rightarrow> aclState \<Rightarrow> unit result \<times> aclState \<times> notification list" where
  "UpdateEntry ac fabric index e st =
     (if \<not> initialized ac then (Inl CHIP_ERROR_INCORRECT_STATE, st, [])
      else if \<not> IsValid (Entry_Storage e st) then (Inl CHIP_ERROR_INVALID_ARGUMENT, st, [])
      else case Delegate_UpdateEntry index e (Some fabric) st of
             (Inl err, st1) \<Rightarrow> (Inl err, st1, [])
           | (Inr _, st1) \<Rightarrow> (Inr (), st1, NotifyEntryChanged ac fabric index (Entry_Storage e st1) kUpdated))"

text \<open>\<open>DeleteEntry\<close>: with listeners the entry is first read into a local entry object (number 0); it
  is passed to the listeners unless it lost its delegate.\<close>

definition DeleteEntry ::
    "AccessControl \<Rightarrow> FabricIndex \<Rightarrow> nat \<Rightarrow> aclState \<Rightarrow> unit result \<times> aclState \<times> notification list" where
  "DeleteEntry ac fabric index st =
     (if \<not> initialized ac then (Inl CHIP_ERROR_INCORRECT_STATE, st, [])
      else
        (case (if listeners ac \<noteq> [] then Delegate_ReadEntry index 0 (Some fabric) st
               else (Inl CHIP_ERROR_SENTINEL, st)) of
           (r, st1) \<Rightarrow>
             (case Delegate_DeleteEntry index (Some fabric) st1 of
                (Inl err, st2) \<Rightarrow> (Inl err, ResetDelegate 0 st2, [])
              | (Inr _, st2) \<Rightarrow>
                  (Inr (), ResetDelegate 0 st2,
                   NotifyEntryChanged ac fabric index (if isOk r then Entry_Storage 0 st2 else None) kRemoved))))"

definition DeleteAllEntriesForFabric :: "AccessControl \<Rightarrow> FabricIndex \<Rightarrow> aclState \<Rightarrow> unit result \<times> aclState" where
  "DeleteAllEntriesForFabric ac fabric st =
     (if \<not> initialized ac then (Inl CHIP_ERROR_INCORRECT_STATE, st)
      else deleteDown (\<lambda>index st. case DeleteEntry ac fabric index st of (r, st', _) \<Rightarrow> (r, st'))
             (GetEntryCountFabric st fabric) (Inr ()) st)"

section \<open>The iteration of the check\<close>

lemma seekUsed_spec:
  fixes l f
  defines "U \<equiv> takeWhile mInUse l"
  assumes "p \<le> length U"
  shows "(ofFabric f (drop p U) = [] \<and> seekUsed l (Some f) p = length l) \<or>
         (\<exists>q. p \<le> q \<and> q < length U \<and> mInUse (l ! q) \<and> seekUsed l (Some f) p = q \<and> q < length l \<and>
              ofFabric f (drop p U) = l ! q # ofFabric f (drop (Suc q) U))"
  using assms(2)
proof (induction "length U - p" arbitrary: p)
  case 0
  have "p \<ge> length l \<or> \<not> mInUse (l ! p)"
    using 0 nth_length_takeWhile [of mInUse l] by (cases "p < length l") (auto simp: U_def)
  then show ?case using 0 by (auto simp: seekUsed.simps ofFabric_def)
next
  case (Suc n)
  have p: "p < length U" using Suc by simp
  have q: "mInUse (l ! p)" "p < length l" "U ! p = l ! p"
    using p length_takeWhile_le [of mInUse l] nth_mem [of p U] set_takeWhileD [of _ mInUse l]
    by (auto simp: U_def takeWhile_nth)
  have d: "drop p U = l ! p # drop (Suc p) U" using p q(3) Cons_nth_drop_Suc by metis
  show ?case
  proof (cases "mFabricIndex (l ! p) = f")
    case True
    then have "seekUsed l (Some f) p = p" using q by (simp add: seekUsed.simps)
    then show ?thesis using p q d True by (auto simp: ofFabric_def)
  next
    case False
    then have "seekUsed l (Some f) p = seekUsed l (Some f) (Suc p)" using q by (simp add: seekUsed.simps [of l "Some f" p])
    moreover have "ofFabric f (drop p U) = ofFabric f (drop (Suc p) U)" using d False by (simp add: ofFabric_def)
    ultimately show ?thesis using Suc.hyps(1) [of "Suc p"] Suc.hyps(2) p by fastforce
  qed
qed

text \<open>The local entry object has, or can get, a delegate.\<close>

definition canRead :: "aclState \<Rightarrow> bool" where
  "canRead st \<longleftrightarrow> (case EntryDelegate_Find st 0 of None \<Rightarrow> False | Some d \<Rightarrow> d < length (delegates st))"

lemma Find_iterators [simp]:
  "EntryDelegate_Find (st\<lparr>iterators := x\<rparr>) e = EntryDelegate_Find st e"
  "EntryDelegate_Find (st\<lparr>iteratorDelegate := y\<rparr>) e = EntryDelegate_Find st e"
  "EntryDelegate_Find (st\<lparr>iterators := x, iteratorDelegate := y\<rparr>) e = EntryDelegate_Find st e"
  by (simp_all add: EntryDelegate_Find_def split: option.split)

lemma canRead_iterators [simp]:
  "canRead (st\<lparr>iterators := x\<rparr>) = canRead st" "canRead (st\<lparr>iterators := x, iteratorDelegate := y\<rparr>) = canRead st"
  by (simp_all add: canRead_def split: option.split)

lemma Release_keeps [simp]:
  "length (delegates (EntryDelegate_Release d st)) = length (delegates st)"
  "iterators (EntryDelegate_Release d st) = iterators st"
  "entryDelegate (EntryDelegate_Release d st) = entryDelegate st"
  "iteratorDelegate (EntryDelegate_Release d st) = iteratorDelegate st"
  by (auto simp: EntryDelegate_Release_def Storage_Release_def updDelegate_def putStorage_def
      split: option.splits storageRef.splits)

lemma SetDelegate_keeps [simp]:
  "length (delegates (SetDelegate e d st)) = length (delegates st)"
  "iterators (SetDelegate e d st) = iterators st"
  "entryDelegate (SetDelegate e d st) = (entryDelegate st)(e := Some d)"
  "iteratorDelegate (SetDelegate e d st) = iteratorDelegate st"
  by (auto simp: SetDelegate_def Let_def split: option.splits)

lemma Init_acl_ref:
  assumes "p < length (acl st)" "mInUse (acl st ! p)" "d < length (delegates st)"
  shows "acl (EntryDelegate_Init d e (InAcl p) st) = acl st"
    "iterators (EntryDelegate_Init d e (InAcl p) st) = iterators st"
    "iteratorDelegate (EntryDelegate_Init d e (InAcl p) st) = iteratorDelegate st"
    "Entry_Storage e (EntryDelegate_Init d e (InAcl p) st) = Some (acl st ! p)"
    "e = 0 \<Longrightarrow> canRead (EntryDelegate_Init d e (InAcl p) st)"
  using assms
  by (simp_all add: EntryDelegate_Init_acl)
    (simp_all add: EntryDelegate_Init_def Let_def updDelegate_def putStorage_def getStorage_def Entry_Init_def
      Entry_Storage_def canRead_def EntryDelegate_Find_def)

text \<open>What one call of \<open>Next\<close> does, with the iterator at \<open>start\<close>.\<close>

definition startOf :: "nat \<Rightarrow> aclState \<Rightarrow> nat" where
  "startOf d st = (case position (iterators st ! d) of None \<Rightarrow> 0
     | Some p \<Rightarrow> if p < length (acl st) then p + 1 else p)"

definition iterOf :: "nat \<Rightarrow> FabricIndex \<Rightarrow> aclState \<Rightarrow> bool" where
  "iterOf d f st \<longleftrightarrow> d < length (iterators st) \<and> mFabricFiltered (iterators st ! d) \<and>
     iFabricIndex (iterators st ! d) = f \<and> startOf d st \<le> length (usedEntries st)"

lemma Next_spec:
  assumes it: "iterOf d f st" and r: "canRead st"
  shows "(ofFabric f (drop (startOf d st) (usedEntries st)) = [] \<and> isOk (fst (Iterator_Next d 0 st)) = False \<and>
            acl (snd (Iterator_Next d 0 st)) = acl st) \<or>
         (\<exists>s st1. Iterator_Next d 0 st = (Inr (), st1) \<and> acl st1 = acl st \<and> Entry_Storage 0 st1 = Some s \<and>
            ofFabric f (drop (startOf d st) (usedEntries st)) = s # ofFabric f (drop (startOf d st1) (usedEntries st1)) \<and>
            iterOf d f st1 \<and> canRead st1)"
proof -
  let ?l = "acl st"
  define st0 where "st0 p = st\<lparr>iterators := (iterators st)[d := (iterators st ! d)\<lparr>position := Some p\<rparr>]\<rparr>" for p
  have d: "d < length (iterators st)" and itf: "mFabricFiltered (iterators st ! d)" "iFabricIndex (iterators st ! d) = f"
    using it by (simp_all add: iterOf_def)
  have n: "Iterator_Next d 0 st = (let p = seekUsed ?l (Some f) (startOf d st) in
      if p = length ?l then (Inl CHIP_ERROR_SENTINEL, st0 p)
      else case EntryDelegate_Find (st0 p) 0 of
             Some dd \<Rightarrow> (Inr (), EntryDelegate_Init dd 0 (InAcl p) (st0 p))
           | None \<Rightarrow> (Inl CHIP_ERROR_BUFFER_TOO_SMALL, st0 p))"
    unfolding Iterator_Next_def startOf_def st0_def Let_def itf(2) itf(1) [THEN eqTrueI] if_True ..
  have s: "startOf d st \<le> length (takeWhile mInUse ?l)" using it by (simp add: iterOf_def usedEntries_def)
  from seekUsed_spec [OF s, of f] show ?thesis
  proof (elim disjE conjE exE)
    assume "ofFabric f (drop (startOf d st) (takeWhile mInUse ?l)) = []" "seekUsed ?l (Some f) (startOf d st) = length ?l"
    then show ?thesis using n by (simp add: usedEntries_def st0_def)
  next
    fix q assume q: "startOf d st \<le> q" "q < length (takeWhile mInUse ?l)" "mInUse (?l ! q)"
      "seekUsed ?l (Some f) (startOf d st) = q" "q < length ?l"
      "ofFabric f (drop (startOf d st) (takeWhile mInUse ?l)) = ?l ! q # ofFabric f (drop (Suc q) (takeWhile mInUse ?l))"
    have "EntryDelegate_Find (st0 q) 0 = EntryDelegate_Find st 0" by (simp add: st0_def)
    then obtain dd where dd: "EntryDelegate_Find (st0 q) 0 = Some dd" "dd < length (delegates (st0 q))"
      using r by (auto simp: canRead_def st0_def split: option.splits)
    have acl0: "acl (st0 q) = ?l" by (simp add: st0_def)
    let ?st1 = "EntryDelegate_Init dd 0 (InAcl q) (st0 q)"
    note i = Init_acl_ref [of q "st0 q" dd 0, unfolded acl0, OF q(5,3) dd(2)]
    have p: "iterators ?st1 ! d = (iterators st ! d)\<lparr>position := Some q\<rparr>" "length (iterators ?st1) = length (iterators st)"
      using i(2) d by (simp_all add: st0_def)
    have st1: "startOf d ?st1 = Suc q" using p(1) i(1) q(5) by (simp add: startOf_def)
    then have "iterOf d f ?st1" using p it i(1) q(2) by (simp add: iterOf_def usedEntries_def)
    then show ?thesis using n q(4-6) dd(1) i st1 by (simp add: usedEntries_def)
  qed
qed

text \<open>The decision over a list of entries: the first entry that allows or fails decides.\<close>

fun decide ::
    "(DeviceTypeId \<Rightarrow> EndpointId \<Rightarrow> bool) \<Rightarrow> SubjectDescriptor \<Rightarrow> RequestPath \<Rightarrow> Privilege \<Rightarrow>
     EntryStorage list \<Rightarrow> unit result" where
  "decide resolver sd path priv [] = Inl CHIP_ERROR_ACCESS_DENIED"
| "decide resolver sd path priv (s # ss) =
     (case checkEntry resolver sd path priv s of
        Inl e \<Rightarrow> Inl e
      | Inr True \<Rightarrow> Inr ()
      | Inr False \<Rightarrow> decide resolver sd path priv ss)"

lemma entriesLoop_decides:
  assumes "iterOf d f st" "canRead st" "length (ofFabric f (drop (startOf d st) (usedEntries st))) < fuel"
  shows "fst (entriesLoop fuel resolver sd path priv d st) =
           decide resolver sd path priv (ofFabric f (drop (startOf d st) (usedEntries st))) \<and>
         acl (snd (entriesLoop fuel resolver sd path priv d st)) = acl st"
  using assms
proof (induction fuel arbitrary: st)
  case (Suc fuel)
  from Next_spec [OF Suc.prems(1,2)] show ?case
  proof (elim disjE conjE exE)
    assume "ofFabric f (drop (startOf d st) (usedEntries st)) = []" "isOk (fst (Iterator_Next d 0 st)) = False"
      "acl (snd (Iterator_Next d 0 st)) = acl st"
    then show ?thesis by (auto simp: isOk_def split: prod.splits sum.splits)
  next
    fix s st1 assume n: "Iterator_Next d 0 st = (Inr (), st1)" "acl st1 = acl st" "Entry_Storage 0 st1 = Some s"
      "ofFabric f (drop (startOf d st) (usedEntries st)) = s # ofFabric f (drop (startOf d st1) (usedEntries st1))"
      "iterOf d f st1" "canRead st1"
    have "length (ofFabric f (drop (startOf d st1) (usedEntries st1))) < fuel" using Suc.prems(3) n(4) by simp
    from Suc.IH [OF n(5,6) this] show ?thesis using n(1-4) by (auto split: sum.splits bool.splits)
  qed
qed simp

definition canIterate :: "aclState \<Rightarrow> bool" where
  "canIterate st \<longleftrightarrow> (case Iterator_Find st 0 of None \<Rightarrow> False | Some d \<Rightarrow> d < length (iterators st))"

lemma destroyLocals_acl [simp]: "acl (destroyLocals d st) = acl st"
  by (simp add: destroyLocals_def Iterator_Release_def Let_def)

text \<open>With a free entry delegate and a free iterator, \<open>Check\<close> is the decision over the entries of the
  subject's fabric, and the list is not changed.\<close>

lemma Check_decides:
  assumes "initialized ac" "canIterate st" "canRead st"
  shows "fst (Check ac resolver sd path priv st) =
           (if authMode sd = kPase then Inr () else decide resolver sd path priv (fabricEntries st (fabricIndex sd))) \<and>
         acl (snd (Check ac resolver sd path priv st)) = acl st"
proof (cases "authMode sd = kPase")
  case False
  obtain d where d: "Iterator_Find st 0 = Some d" "d < length (iterators st)"
    using assms(2) by (auto simp: canIterate_def split: option.splits)
  let ?f = "fabricIndex sd"
  define st1 where "st1 = snd (Delegate_Entries 0 (Some ?f) st)"
  have e: "Delegate_Entries 0 (Some ?f) st = (Inr (), st1)" "iteratorDelegate st1 0 = Some d"
    using d(1) by (simp_all add: st1_def Delegate_Entries_def)
  have it: "iterOf d ?f st1" "startOf d st1 = 0" "canRead st1" "acl st1 = acl st"
    using d assms(3)
    by (simp_all add: st1_def Delegate_Entries_def iterOf_def startOf_def)
  have U: "usedEntries st1 = usedEntries st" using it(4) by (simp add: usedEntries_def)
  have "length (ofFabric ?f (drop (startOf d st1) (usedEntries st1))) < length (acl st) + 1"
    using U it(2) length_filter_le [of _ "usedEntries st"] length_takeWhile_le [of mInUse "acl st"]
    by (simp add: ofFabric_def usedEntries_def less_Suc_eq_le) (meson le_trans length_filter_le)
  note c = entriesLoop_decides [OF it(1,3) this, of resolver sd path priv]
  obtain r st2 where r: "entriesLoop (length (acl st) + 1) resolver sd path priv d st1 = (r, st2)" by fastforce
  show ?thesis
    using False assms(1) e it(2,4) U c r by (simp add: Check_def fabricEntries_def del: entriesLoop.simps)
qed (simp add: Check_def assms(1))

text \<open>Without them it fails.\<close>

lemma Check_no_iterator:
  assumes "initialized ac" "Iterator_Find st 0 = None"
  shows "Check ac resolver sd path priv st = (if authMode sd = kPase then Inr () else Inl CHIP_ERROR_BUFFER_TOO_SMALL, st)"
  using assms by (simp add: Check_def Delegate_Entries_def)

lemma Check_no_delegate:
  assumes "initialized ac" "EntryDelegate_Find st 0 = None"
  shows "fst (Check ac resolver sd path priv st) =
           (if authMode sd = kPase then Inr () else if Iterator_Find st 0 = None then Inl CHIP_ERROR_BUFFER_TOO_SMALL
            else Inl CHIP_ERROR_ACCESS_DENIED) \<and>
         acl (snd (Check ac resolver sd path priv st)) = acl st"
proof (cases "Iterator_Find st 0")
  case None
  then show ?thesis using Check_no_iterator [OF assms(1)] by simp
next
  case (Some d)
  have n: "\<exists>e st2. Iterator_Next d 0 st1 = (Inl e, st2) \<and> acl st2 = acl st1" if "EntryDelegate_Find st1 0 = None" for st1
    using that by (simp add: Iterator_Next_def Let_def)
  have l: "fst (entriesLoop (Suc n) resolver sd path priv d st1) = Inl CHIP_ERROR_ACCESS_DENIED \<and>
    acl (snd (entriesLoop (Suc n) resolver sd path priv d st1)) = acl st1" if "EntryDelegate_Find st1 0 = None" for st1 n
    using n [OF that] by auto
  obtain st1 where e: "Delegate_Entries 0 (Some (fabricIndex sd)) st = (Inr (), st1)" "iteratorDelegate st1 0 = Some d"
    "EntryDelegate_Find st1 0 = None" "acl st1 = acl st"
    using Some assms(2) by (simp add: Delegate_Entries_def)
  obtain r st2 where r: "entriesLoop (Suc (length (acl st))) resolver sd path priv d st1 = (r, st2)" by fastforce
  show ?thesis
    using Some assms(1) e(1,2,4) r l [OF e(3), of "length (acl st)"] by (simp add: Check_def del: entriesLoop.simps)
qed

section \<open>The decision on valid entries\<close>

definition subjectsOf :: "EntryStorage \<Rightarrow> NodeId list" where
  "subjectsOf s = takeWhile (\<lambda>x. \<not> Subject_IsEmpty x) (mSubjects s)"

definition targetsOf :: "EntryStorage \<Rightarrow> Target list" where
  "targetsOf s = map (\<lambda>t. Target_Decode t uninitTarget) (takeWhile (\<lambda>x. \<not> Target_IsEmpty x) (mTargets s))"

definition sized :: "EntryStorage \<Rightarrow> bool" where
  "sized s \<longleftrightarrow> length (mSubjects s) = kMaxSubjects \<and> length (mTargets s) = kMaxTargets"

definition subjectMatches :: "SubjectDescriptor \<Rightarrow> NodeId \<Rightarrow> bool" where
  "subjectMatches sd subj \<longleftrightarrow> (if IsCASEAuthTag subj then CheckSubjectAgainstCATs (cats sd) subj else subj = subject sd)"

text \<open>What it means that an entry allows a request.\<close>

definition entryAllows ::
    "(DeviceTypeId \<Rightarrow> EndpointId \<Rightarrow> bool) \<Rightarrow> SubjectDescriptor \<Rightarrow> RequestPath \<Rightarrow> Privilege \<Rightarrow> EntryStorage \<Rightarrow> bool" where
  "entryAllows resolver sd path priv s \<longleftrightarrow>
     mAuthMode s = authMode sd \<and> CheckRequestPrivilegeAgainstEntryPrivilege priv (mPrivilege s) \<and>
     (subjectsOf s = [] \<or> list_ex (subjectMatches sd) (subjectsOf s)) \<and>
     (targetsOf s = [] \<or> list_ex (targetMatches resolver path) (targetsOf s))"

lemma takeWhile_upt: "map ((!) xs) [0..<length (takeWhile P xs)] = takeWhile P xs"
  by (rule nth_equalityI) (auto simp: takeWhile_nth)

lemma GetSubject_used:
  assumes "sized s" "i < GetSubjectCount s"
  shows "GetSubject s i = Inr (subjectsOf s ! i)"
proof -
  have "i < length (subjectsOf s)" using assms(2) by (simp add: subjectsOf_def GetSubjectCount_def)
  then have "subjectsOf s ! i = mSubjects s ! i" "\<not> Subject_IsEmpty (subjectsOf s ! i)" "i < length (mSubjects s)"
    using nth_mem [of i "subjectsOf s"] length_takeWhile_le [of "\<lambda>x. \<not> Subject_IsEmpty x" "mSubjects s"]
    by (auto simp: subjectsOf_def takeWhile_nth dest: set_takeWhileD)
  then show ?thesis using assms(1) by (simp add: GetSubject_def Subject_Get_def sized_def)
qed

lemma GetTarget_used:
  assumes "sized s" "i < GetTargetCount s"
  shows "GetTarget s i uninitTarget = Inr (targetsOf s ! i)"
proof -
  let ?T = "takeWhile (\<lambda>x. \<not> Target_IsEmpty x) (mTargets s)"
  have i: "i < length ?T" using assms(2) by (simp add: GetTargetCount_def)
  then have "?T ! i = mTargets s ! i" "\<not> Target_IsEmpty (?T ! i)" "i < length (mTargets s)"
    using nth_mem [of i ?T] length_takeWhile_le [of "\<lambda>x. \<not> Target_IsEmpty x" "mTargets s"]
    by (auto simp: takeWhile_nth dest: set_takeWhileD)
  then show ?thesis using assms(1) i by (simp add: GetTarget_def Target_Get_def targetsOf_def sized_def)
qed

lemma counts: "GetSubjectCount s = length (subjectsOf s)" "GetTargetCount s = length (targetsOf s)"
  by (simp_all add: GetSubjectCount_def subjectsOf_def GetTargetCount_def targetsOf_def)

lemma validSubject_kind:
  assumes "validSubject m subj"
  shows "(IsOperationalNodeId subj \<and> \<not> IsCASEAuthTag subj \<and> m = kCase) \<or>
         (\<not> IsOperationalNodeId subj \<and> IsCASEAuthTag subj \<and> m = kCase) \<or>
         (\<not> IsOperationalNodeId subj \<and> \<not> IsCASEAuthTag subj \<and> IsGroupId subj \<and> m = kGroup)"
proof -
  have "IsOperationalNodeId subj \<Longrightarrow> \<not> IsCASEAuthTag subj" "IsGroupId subj \<Longrightarrow> \<not> IsOperationalNodeId subj \<and> \<not> IsCASEAuthTag subj"
    by (auto simp: IsOperationalNodeId_def IsCASEAuthTag_def IsGroupId_def word_le_def)
  then show ?thesis
    using assms by (auto simp: validSubject_def IsValidCaseNodeId_def IsValidGroupNodeId_def)
qed

lemma subjectLoop_valid:
  assumes "sized s" "list_all (\<lambda>i. i < GetSubjectCount s \<and> validSubject (mAuthMode s) (subjectsOf s ! i)) is"
  shows "subjectLoop sd s is = Inr (list_ex (\<lambda>i. subjectMatches sd (subjectsOf s ! i)) is)"
  using assms(2)
proof (induction "is")
  case (Cons i "is")
  then have g: "GetSubject s i = Inr (subjectsOf s ! i)" "validSubject (mAuthMode s) (subjectsOf s ! i)"
    using GetSubject_used [OF assms(1)] by auto
  show ?case
    using validSubject_kind [OF g(2)] Cons g(1) by (auto simp: subjectMatches_def)
qed simp

lemma targetLoop_used:
  assumes "sized s" "list_all (\<lambda>i. i < GetTargetCount s) is"
  shows "targetLoop resolver path s is = Inr (list_ex (\<lambda>i. targetMatches resolver path (targetsOf s ! i)) is)"
  using assms(2)
proof (induction "is")
  case (Cons i "is")
  then show ?case using GetTarget_used [OF assms(1), of i] by auto
qed simp

lemma list_ex_upt: "list_ex (\<lambda>i. P (xs ! i)) [0..<length xs] = list_ex P xs"
  by (auto simp: list_ex_iff in_set_conv_nth Bex_def) 

lemma valid_parts:
  assumes "IsValid (Some s)" "sized s"
  shows "mAuthMode s = kCase \<or> mAuthMode s = kGroup"
    "mAuthMode s = kGroup \<Longrightarrow> mPrivilege s \<noteq> kAdminister"
    "i < GetSubjectCount s \<Longrightarrow> validSubject (mAuthMode s) (subjectsOf s ! i)"
  using assms GetSubject_used [OF assms(2)] by (auto simp: IsValid_def list_all_iff)

lemma checkEntry_valid:
  assumes "IsValid (Some s)" "sized s"
  shows "checkEntry resolver sd path priv s = Inr (entryAllows resolver sd path priv s)"
proof -
  note v = valid_parts [OF assms]
  have subj: "subjectLoop sd s [0..<GetSubjectCount s] = Inr (list_ex (subjectMatches sd) (subjectsOf s))"
    using subjectLoop_valid [OF assms(2), of "[0..<GetSubjectCount s]" sd] v(3)
    by (simp add: list_all_iff list_ex_upt counts)
  have targ: "targetLoop resolver path s [0..<GetTargetCount s] = Inr (list_ex (targetMatches resolver path) (targetsOf s))"
    using targetLoop_used [OF assms(2), of "[0..<GetTargetCount s]" resolver path]
    by (simp add: list_all_iff list_ex_upt counts)
  show ?thesis
    using v(1) by (auto simp: checkEntry_def entryAllows_def subj targ) (auto simp: counts)
qed

lemma decide_valid:
  assumes "list_all (\<lambda>s. IsValid (Some s) \<and> sized s) ss"
  shows "decide resolver sd path priv ss =
           (if list_ex (entryAllows resolver sd path priv) ss then Inr () else Inl CHIP_ERROR_ACCESS_DENIED)"
  using assms by (induction ss) (auto simp: checkEntry_valid split: bool.splits)

lemma decide_allows:
  "decide resolver sd path priv ss = Inr () \<Longrightarrow> \<exists>s \<in> set ss. checkEntry resolver sd path priv s = Inr True"
  by (induction ss) (auto split: sum.splits bool.splits)

section \<open>Sequences of operations\<close>

text \<open>The changes of an entry object, and the operations of the module and of the entry objects.\<close>

datatype entryChange =
    ChangeAuthMode AuthMode
  | ChangeFabric FabricIndex
  | ChangePrivilege Privilege
  | ChangeSubject nat NodeId
  | AppendSubject NodeId
  | DropSubject nat
  | ChangeTarget nat Target
  | AppendTarget Target
  | DropTarget nat

fun applyChange :: "entryChange \<Rightarrow> EntryStorage \<Rightarrow> unit result \<times> EntryStorage" where
  "applyChange (ChangeAuthMode a) s = SetAuthMode a s"
| "applyChange (ChangeFabric f) s = SetFabricIndex f s"
| "applyChange (ChangePrivilege p) s = SetPrivilege p s"
| "applyChange (ChangeSubject i n) s = SetSubject i n s"
| "applyChange (AppendSubject n) s = apfst (\<lambda>r. rbind r (\<lambda>_. Inr ())) (AddSubject n s)"
| "applyChange (DropSubject i) s = RemoveSubject i s"
| "applyChange (ChangeTarget i t) s = SetTarget i t s"
| "applyChange (AppendTarget t) s = apfst (\<lambda>r. rbind r (\<lambda>_. Inr ())) (AddTarget t s)"
| "applyChange (DropTarget i) s = RemoveTarget i s"

datatype aclOp =
    OpPrepare nat
  | OpChange nat entryChange
  | OpRead FabricIndex nat nat
  | OpRelease nat
  | OpCreate FabricIndex nat
  | OpUpdate FabricIndex nat nat
  | OpDelete FabricIndex nat
  | OpDeleteAll FabricIndex
  | OpEntries nat FabricIndex
  | OpNext nat nat
  | OpEndIteration nat
  | OpCheck "DeviceTypeId \<Rightarrow> EndpointId \<Rightarrow> bool" SubjectDescriptor RequestPath Privilege

fun stepAcl :: "AccessControl \<Rightarrow> aclOp \<Rightarrow> aclState \<Rightarrow> aclState" where
  "stepAcl ac (OpPrepare e) st = snd (PrepareEntry e st)"
| "stepAcl ac (OpChange e c) st = snd (Entry_Modify e (applyChange c) st)"
| "stepAcl ac (OpRead f i e) st = snd (Delegate_ReadEntry i e (Some f) st)"
| "stepAcl ac (OpRelease e) st = ResetDelegate e st"
| "stepAcl ac (OpCreate f e) st = fst (snd (CreateEntry ac f e st))"
| "stepAcl ac (OpUpdate f i e) st = fst (snd (UpdateEntry ac f i e st))"
| "stepAcl ac (OpDelete f i) st = fst (snd (DeleteEntry ac f i st))"
| "stepAcl ac (OpDeleteAll f) st = snd (DeleteAllEntriesForFabric ac f st)"
| "stepAcl ac (OpEntries it f) st = snd (Delegate_Entries it (Some f) st)"
| "stepAcl ac (OpNext d e) st = snd (Iterator_Next d e st)"
| "stepAcl ac (OpEndIteration it) st = Iterator_ResetDelegate it st"
| "stepAcl ac (OpCheck resolver sd path priv) st = snd (Check ac resolver sd path priv st)"

text \<open>The invariant: every storage has its size, every entry in use in the list is valid, and every
  reference is in range.\<close>

definition refOk :: "aclState \<Rightarrow> storageRef \<Rightarrow> bool" where
  "refOk st ref = (case ref of InAcl i \<Rightarrow> i < length (acl st) | InPool i \<Rightarrow> i < length (pool st))"

definition stateOk :: "aclState \<Rightarrow> bool" where
  "stateOk st \<longleftrightarrow>
     (\<forall>s \<in> set (acl st) \<union> set (pool st). sized s) \<and>
     (\<forall>s \<in> set (acl st). mInUse s \<longrightarrow> IsValid (Some s)) \<and>
     (\<forall>d \<in> set (delegates st). \<forall>r. mStorage d = Some r \<longrightarrow> refOk st r) \<and>
     (\<forall>e d. entryDelegate st e = Some d \<longrightarrow> d < length (delegates st))"

lemma set_update_cases: "x \<in> set (xs[i := y]) \<Longrightarrow> x = y \<or> x \<in> set xs"
  using set_update_subset_insert by fastforce

lemma refOk_cong: "length (acl st') = length (acl st) \<Longrightarrow> length (pool st') = length (pool st) \<Longrightarrow> refOk st' r = refOk st r"
  by (simp add: refOk_def split: storageRef.split)

lemma stateOk_put_acl:
  assumes "stateOk st" "sized s" "mInUse s \<Longrightarrow> IsValid (Some s)"
  shows "stateOk (st\<lparr>acl := (acl st)[i := s]\<rparr>)"
  using assms refOk_cong [of "st\<lparr>acl := (acl st)[i := s]\<rparr>" st]
  by (auto simp: stateOk_def dest!: set_update_cases)

lemma stateOk_put_pool:
  assumes "stateOk st" "sized s"
  shows "stateOk (putStorage (InPool i) s st)"
  using assms refOk_cong [of "putStorage (InPool i) s st" st]
  by (auto simp: stateOk_def putStorage_def dest!: set_update_cases)

lemma stateOk_delegate:
  assumes "stateOk st" "\<And>r. mStorage (f (delegates st ! d)) = Some r \<Longrightarrow> refOk st r"
  shows "stateOk (updDelegate d f st)"
  using assms refOk_cong [of "updDelegate d f st" st]
  by (auto simp: stateOk_def updDelegate_def dest!: set_update_cases)

lemma stateOk_entry:
  "stateOk st \<Longrightarrow> (\<And>d. x = Some d \<Longrightarrow> d < length (delegates st)) \<Longrightarrow> m = (entryDelegate st)(e := x) \<Longrightarrow>
     stateOk (st\<lparr>entryDelegate := m\<rparr>)"
  using refOk_cong [of "st\<lparr>entryDelegate := m\<rparr>" st] by (auto simp: stateOk_def)

lemma refOk_iterators [simp]:
  "refOk (st\<lparr>iterators := x\<rparr>) r = refOk st r" "refOk (st\<lparr>iterators := x, iteratorDelegate := y\<rparr>) r = refOk st r"
  "refOk (st\<lparr>iteratorDelegate := y\<rparr>) r = refOk st r"
  by (simp_all add: refOk_def split: storageRef.split)

lemma stateOk_iterators [simp]:
  "stateOk (st\<lparr>iterators := x\<rparr>) = stateOk st" "stateOk (st\<lparr>iterators := x, iteratorDelegate := y\<rparr>) = stateOk st"
  "stateOk (st\<lparr>iteratorDelegate := y\<rparr>) = stateOk st"
  by (simp_all add: stateOk_def)

lemma stateOk_storage: "stateOk st \<Longrightarrow> refOk st ref \<Longrightarrow> sized (getStorage st ref)"
  by (auto simp: stateOk_def refOk_def getStorage_def split: storageRef.splits)

lemma stateOk_delegateD: "stateOk st \<Longrightarrow> d < length (delegates st) \<Longrightarrow> mStorage (delegates st ! d) = Some r \<Longrightarrow> refOk st r"
  by (auto simp: stateOk_def)

lemma stateOk_entryD: "stateOk st \<Longrightarrow> entryDelegate st e = Some d \<Longrightarrow> d < length (delegates st)"
  by (auto simp: stateOk_def)

lemma sized_simps [simp]: "sized Entry_Clear" "sized (s\<lparr>mInUse := b\<rparr>) = sized s" "sized s \<Longrightarrow> sized (Entry_Init s)"
  by (auto simp: sized_def Entry_Clear_def Entry_Init_def)

text \<open>Lengths the primitives keep.\<close>

lemma putStorage_lengths [simp]:
  "length (acl (putStorage r s st)) = length (acl st)" "length (pool (putStorage r s st)) = length (pool st)"
  "delegates (putStorage r s st) = delegates st" "entryDelegate (putStorage r s st) = entryDelegate st"
  by (simp_all add: putStorage_def split: storageRef.splits)

lemma updDelegate_lengths [simp]:
  "pool (updDelegate d f st) = pool st" "length (delegates (updDelegate d f st)) = length (delegates st)"
  "entryDelegate (updDelegate d f st) = entryDelegate st"
  by (simp_all add: updDelegate_def)

lemma refOk_put [simp]: "refOk (putStorage r s st) r' = refOk st r'" "refOk (updDelegate d f st) r' = refOk st r'"
  by (rule refOk_cong; simp)+

lemma pool_Release [simp]: "length (pool (EntryDelegate_Release d st)) = length (pool st)"
  by (auto simp: EntryDelegate_Release_def Storage_Release_def split: option.splits storageRef.splits)

lemma refOk_Release [simp]: "refOk (EntryDelegate_Release d st) r = refOk st r"
  by (rule refOk_cong; simp)

lemma stateOk_Release:
  assumes "stateOk st" "d < length (delegates st)"
  shows "stateOk (EntryDelegate_Release d st)"
proof (cases "mStorage (delegates st ! d)")
  case (Some r)
  note r = stateOk_delegateD [OF assms Some]
  have "stateOk (Storage_Release r st)"
    using assms(1) stateOk_put_pool stateOk_storage [OF assms(1) r] by (auto simp: Storage_Release_def split: storageRef.splits)
  then show ?thesis using Some by (auto simp: EntryDelegate_Release_def intro: stateOk_delegate)
qed (use assms(1) in \<open>simp add: EntryDelegate_Release_def\<close>)

lemma stateOk_SetDelegate: "stateOk st \<Longrightarrow> d < length (delegates st) \<Longrightarrow> stateOk (SetDelegate e d st)"
  by (auto simp: SetDelegate_def Let_def split: option.split
      intro!: stateOk_entry [where x = "Some d" and e = e] stateOk_Release dest: stateOk_entryD)

lemma stateOk_ResetDelegate: "stateOk st \<Longrightarrow> stateOk (ResetDelegate e st)"
  by (auto simp: ResetDelegate_def Let_def split: option.split
      intro!: stateOk_entry [where x = None and e = e] stateOk_Release dest: stateOk_entryD)

lemma pool_SetDelegate [simp]:
  "length (pool (SetDelegate e d st)) = length (pool st)" "length (pool (ResetDelegate e st)) = length (pool st)"
  by (auto simp: SetDelegate_def ResetDelegate_def Let_def split: option.split)

lemma refOk_SetDelegate [simp]: "refOk (SetDelegate e d st) r = refOk st r" "refOk (ResetDelegate e st) r = refOk st r"
  by (rule refOk_cong; simp)+

lemma ResetDelegate_lengths [simp]: "length (delegates (ResetDelegate e st)) = length (delegates st)"
  by (auto simp: ResetDelegate_def Let_def split: option.split)

lemma stateOk_Init:
  assumes "stateOk st" "d < length (delegates st)" "refOk st ref"
    and "\<And>i. ref = InAcl i \<Longrightarrow> mInUse (acl st ! i)"
  shows "stateOk (EntryDelegate_Init d e ref st)"
proof -
  let ?st1 = "SetDelegate e d st"
  have 1: "stateOk ?st1" "refOk ?st1 ref" using stateOk_SetDelegate assms(1-3) by auto
  have "stateOk (putStorage ref (Entry_Init (getStorage ?st1 ref)) ?st1)"
  proof (cases ref)
    case (InAcl i)
    then have "Entry_Init (getStorage ?st1 ref) = acl st ! i" using assms(4) by (simp add: getStorage_def Entry_Init_def)
    then have "putStorage ref (Entry_Init (getStorage ?st1 ref)) ?st1 = ?st1"
      using InAcl by (simp add: putStorage_def)
    then show ?thesis using 1 by simp
  next
    case (InPool i)
    then show ?thesis using 1 stateOk_put_pool stateOk_storage by simp
  qed
  then show ?thesis using assms(3) by (auto simp: EntryDelegate_Init_def Let_def intro!: stateOk_delegate)
qed

lemma firstIndex_bound: "firstIndex P xs = Some i \<Longrightarrow> i < length xs"
  by (simp add: firstIndex_Some)

lemma Find_delegate_bound: "stateOk st \<Longrightarrow> EntryDelegate_Find st e = Some d \<Longrightarrow> d < length (delegates st)"
  by (auto simp: EntryDelegate_Find_def split: option.splits dest: stateOk_entryD firstIndex_bound)

lemma Find_storage_ok:
  assumes "EntryStorage_Find st c = Some ref" "\<And>r. c = Some r \<Longrightarrow> refOk st r"
  shows "refOk st ref \<and> (\<exists>i. ref = InPool i)"
  using assms by (auto simp: EntryStorage_Find_def refOk_def split: option.splits storageRef.splits dest: firstIndex_bound)

lemma stateOk_Ensure:
  assumes "stateOk st" "d < length (delegates st)"
  shows "stateOk (snd (EnsureStorageInPool d st)) \<and> length (delegates (snd (EnsureStorageInPool d st))) = length (delegates st)"
proof (cases "\<exists>i ref. mStorage (delegates st ! d) = Some (InAcl i) \<and> EntryStorage_Find st None = Some ref")
  case True
  then obtain i ref where i: "mStorage (delegates st ! d) = Some (InAcl i)" "EntryStorage_Find st None = Some ref" by blast
  have s: "sized (acl st ! i)"
    using stateOk_storage [OF assms(1) stateOk_delegateD [OF assms i(1)]] by (simp add: getStorage_def)
  obtain j where j: "ref = InPool j" "refOk st ref" using Find_storage_ok [OF i(2)] by auto
  have "stateOk (putStorage ref (acl st ! i) st)" using stateOk_put_pool [OF assms(1) s] j by simp
  then have "stateOk (updDelegate d (mStorage_update (\<lambda>_. Some ref)) (putStorage ref (acl st ! i) st))"
    using j(2) by (intro stateOk_delegate) simp_all
  then show ?thesis using i by (simp add: EnsureStorageInPool_def)
next
  case False
  then have "snd (EnsureStorageInPool d st) = st"
    by (auto simp add: EnsureStorageInPool_def split: option.split storageRef.split)
  then show ?thesis using assms by simp
qed

text \<open>The deletion and its fix-ups.\<close>

lemma shiftDown_set: "set (shiftDown i l) \<subseteq> insert Entry_Clear (set l) \<and> length (shiftDown i l) = length l"
proof (induction i l rule: shiftDown.induct)
  case (1 i l)
  show ?case
  proof (cases "i < length l \<and> Suc i < length l \<and> mInUse (l ! Suc i)")
    case True
    then have "set (l[i := l ! Suc i]) \<subseteq> set l" by (auto dest!: set_update_cases)
    moreover have "shiftDown i l = shiftDown (i + 1) (l[i := l ! (i + 1)])"
      using True by (subst shiftDown.simps) simp
    moreover have "set (shiftDown (i + 1) (l[i := l ! (i + 1)])) \<subseteq> insert Entry_Clear (set (l[i := l ! (i + 1)])) \<and>
        length (shiftDown (i + 1) (l[i := l ! (i + 1)])) = length l" using 1 True by simp
    ultimately show ?thesis by auto
  next
    case False
    then have "shiftDown i l = (if i < length l then l[i := Entry_Clear] else l)" by (subst shiftDown.simps) auto
    then show ?thesis using set_update_subset_insert [of l i Entry_Clear] by auto
  qed
qed

lemma stateOk_shiftDown: "stateOk st \<Longrightarrow> stateOk (st\<lparr>acl := shiftDown i (acl st)\<rparr>)"
proof -
  assume s: "stateOk st"
  have set: "set (shiftDown i (acl st)) \<subseteq> insert Entry_Clear (set (acl st))" "length (shiftDown i (acl st)) = length (acl st)"
    using shiftDown_set by auto
  have "\<not> mInUse Entry_Clear" by (simp add: Entry_Clear_def)
  then show ?thesis
    using s set refOk_cong [of "st\<lparr>acl := shiftDown i (acl st)\<rparr>" st] by (auto simp: stateOk_def dest!: subsetD [OF set(1)])
qed

lemma fold_inv:
  assumes "\<And>x s. P s \<Longrightarrow> x \<in> set xs \<Longrightarrow> P (f x s)" "P s"
  shows "P (fold f xs s)"
  using assms by (induction xs arbitrary: s) auto

definition okN :: "nat \<Rightarrow> aclState \<Rightarrow> bool" where
  "okN n st \<longleftrightarrow> stateOk st \<and> length (delegates st) = n"

lemma okN_FixBefore: "okN n st \<Longrightarrow> d < n \<Longrightarrow> okN n (FixBeforeDelete i d st)"
  using stateOk_Ensure by (auto simp: okN_def FixBeforeDelete_def)

lemma okN_FixAfter:
  assumes "okN n st" "d < n"
  shows "okN n (FixAfterDelete i d st)"
proof (cases "\<exists>j. mStorage (delegates st ! d) = Some (InAcl j) \<and> i \<le> j")
  case True
  then obtain j where j: "mStorage (delegates st ! d) = Some (InAcl j)" "i \<le> j" by blast
  have s: "stateOk st" "d < length (delegates st)" using assms by (simp_all add: okN_def)
  have "j < length (acl st)" using stateOk_delegateD [OF s j(1)] by (simp add: refOk_def)
  then have "stateOk (updDelegate d (mStorage_update (\<lambda>_. Some (InAcl (j - 1)))) st)"
    using s(1) by (intro stateOk_delegate) (auto simp: refOk_def)
  then show ?thesis
    using j assms stateOk_ResetDelegate [OF s(1)] by (simp add: FixAfterDelete_def okN_def)
next
  case False
  then have "FixAfterDelete i d st = st"
    by (auto simp add: FixAfterDelete_def split: option.split storageRef.split)
  then show ?thesis using assms by simp
qed

lemma stateOk_Delete: "stateOk st \<Longrightarrow> stateOk (snd (Delegate_DeleteEntry k fi st))"
proof (cases "FindUsedInAcl st k fi")
  case (Some i)
  assume s: "stateOk st"
  define n where "n = length (delegates st)"
  define st1 where "st1 = fold (FixBeforeDelete i) [0..<n] st"
  define st2 where "st2 = st1\<lparr>acl := shiftDown i (acl st1)\<rparr>"
  have "okN n st1" unfolding st1_def using s
    by (intro fold_inv [where P = "okN n"]) (auto simp: okN_FixBefore, simp add: okN_def n_def)
  then have "okN n st2" using stateOk_shiftDown by (simp add: st2_def okN_def)
  then have "okN n (fold (FixAfterDelete k) [0..<n] st2)" by (intro fold_inv [where P = "okN n"]) (auto simp: okN_FixAfter)
  moreover have "length (delegates st2) = n" using \<open>okN n st2\<close> by (simp add: okN_def)
  ultimately show ?thesis
    using Some by (simp add: Delegate_DeleteEntry_def Let_def okN_def st1_def st2_def n_def)
qed (simp add: Delegate_DeleteEntry_def)

text \<open>The other operations.\<close>

lemma length_removeShift:
  "length xs = m \<Longrightarrow> count \<le> m \<Longrightarrow> i < count \<Longrightarrow> length (removeShift m count i x xs) = m"
  by (auto simp: removeShift_def Let_def min_def)

lemma count_bounds: "sized s \<Longrightarrow> GetSubjectCount s \<le> kMaxSubjects" "sized s \<Longrightarrow> GetTargetCount s \<le> kMaxTargets"
  using length_takeWhile_le [of "\<lambda>x. \<not> Subject_IsEmpty x" "mSubjects s"]
    length_takeWhile_le [of "\<lambda>x. \<not> Target_IsEmpty x" "mTargets s"]
  by (auto simp: sized_def GetSubjectCount_def GetTargetCount_def)

lemma sized_change: "sized s \<Longrightarrow> sized (snd (applyChange c s))"
  using count_bounds [of s]
  by (cases c)
    (auto simp: SetAuthMode_def SetFabricIndex_def SetPrivilege_def SetSubject_def AddSubject_def RemoveSubject_def
      SetTarget_def AddTarget_def RemoveTarget_def sized_def Let_def length_removeShift split: prod.splits)

lemma stateOk_Modify:
  assumes "stateOk st" "\<And>s. sized s \<Longrightarrow> sized (snd (f s))"
  shows "stateOk (snd (Entry_Modify e f st))"
proof (cases "entryDelegate st e")
  case (Some d)
  have d: "d < length (delegates st)" using stateOk_entryD [OF assms(1) Some] .
  obtain r st1 where e: "EnsureStorageInPool d st = (r, st1)" by fastforce
  have ok: "stateOk st1" "d < length (delegates st1)" using stateOk_Ensure [OF assms(1) d] e d by auto
  show ?thesis
  proof (cases "isOk r \<and> mStorage (delegates st1 ! d) \<noteq> None")
    case True
    then obtain ref where r: "r = Inr ()" "mStorage (delegates st1 ! d) = Some ref" by (auto simp: isOk_iff)
    then obtain i where i: "ref = InPool i" using Ensure_in_pool e d by blast
    have "sized (snd (f (getStorage st1 ref)))"
      using assms(2) stateOk_storage [OF ok(1) stateOk_delegateD [OF ok r(2)]] by blast
    then show ?thesis
      using Some e r i stateOk_put_pool [OF ok(1)] by (simp add: Entry_Modify_def split: prod.split) auto
  next
    case False
    then show ?thesis using Some e ok(1) by (auto simp: Entry_Modify_def isOk_def split: sum.splits option.splits)
  qed
qed (use assms(1) in \<open>simp add: Entry_Modify_def\<close>)

lemma stateOk_Prepare: "stateOk st \<Longrightarrow> stateOk (snd (PrepareEntry e st))"
proof (cases "EntryDelegate_Find st e")
  case (Some d)
  assume s: "stateOk st"
  have d: "d < length (delegates st)" using Find_delegate_bound [OF s Some] .
  show ?thesis
  proof (cases "EntryStorage_Find st (mStorage (delegates st ! d))")
    case None
    then show ?thesis using Some s by (simp add: PrepareEntry_def)
  next
    case ref: (Some ref)
    obtain i where r: "refOk st ref" "ref = InPool i" using Find_storage_ok [OF ref] stateOk_delegateD [OF s d] by blast
    have "stateOk (EntryDelegate_Init d e ref st)" using r(2) by (intro stateOk_Init [OF s d r(1)]) simp
    then show ?thesis using Some ref by (simp add: PrepareEntry_def)
  qed
qed (simp add: PrepareEntry_def)

lemma FindUsed_bound: "FindUsedInAcl st k fi = Some i \<Longrightarrow> i < length (acl st) \<and> mInUse (acl st ! i)"
  by (auto simp: FindUsedInAcl_def Let_def split: if_splits)

lemma stateOk_Read: "stateOk st \<Longrightarrow> stateOk (snd (Delegate_ReadEntry k e fi st))"
  using stateOk_Init [of st _ "InAcl _" e] Find_delegate_bound [of st e] FindUsed_bound [of st k fi]
  by (simp add: Delegate_ReadEntry_def refOk_def split: option.split)

lemma Entry_Storage_sized: "stateOk st \<Longrightarrow> Entry_Storage e st = Some s \<Longrightarrow> sized s"
  by (auto simp: Entry_Storage_def bind_eq_Some_conv intro: stateOk_storage stateOk_delegateD dest: stateOk_entryD)

lemma stateOk_Create: "stateOk st \<Longrightarrow> stateOk (fst (snd (CreateEntry ac f e st)))"
  using stateOk_put_acl Entry_Storage_sized [of st e]
  by (auto simp: CreateEntry_def Delegate_CreateEntry_def Copy_def Let_def split: option.split sum.split prod.split)

lemma stateOk_Update: "stateOk st \<Longrightarrow> stateOk (fst (snd (UpdateEntry ac f k e st)))"
  using stateOk_put_acl Entry_Storage_sized [of st e]
  by (auto simp: UpdateEntry_def Delegate_UpdateEntry_def Copy_def Let_def split: option.split sum.split prod.split)

lemma stateOk_DeleteEntry: "stateOk st \<Longrightarrow> stateOk (fst (snd (DeleteEntry ac f k st)))"
proof -
  assume s: "stateOk st"
  define p where "p = (if listeners ac \<noteq> [] then Delegate_ReadEntry k 0 (Some f) st else (Inl CHIP_ERROR_SENTINEL, st))"
  have "stateOk (snd p)" using s stateOk_Read by (simp add: p_def)
  then have "stateOk (ResetDelegate 0 (snd (Delegate_DeleteEntry k (Some f) (snd p))))"
    by (intro stateOk_ResetDelegate stateOk_Delete)
  then show ?thesis
    using s by (auto simp: DeleteEntry_def p_def [symmetric] split: prod.split sum.split)
qed

lemma deleteDown_inv:
  assumes "\<And>k s. P s \<Longrightarrow> P (snd (del k s))" "P s"
  shows "P (snd (deleteDown del n r s))"
  using assms(2)
proof (induction n arbitrary: r s)
  case (Suc n)
  then show ?case using assms(1) [OF Suc.prems, of n] by (cases "del n s") auto
qed simp

lemma stateOk_DeleteAll: "stateOk st \<Longrightarrow> stateOk (snd (DeleteAllEntriesForFabric ac f st))"
proof -
  assume s: "stateOk st"
  have "stateOk (snd (case DeleteEntry ac f k s of (r, s', _) \<Rightarrow> (r, s')))" if "stateOk s" for k s
    using stateOk_DeleteEntry [OF that, of ac f k] by (auto split: prod.split)
  then show ?thesis
    using s deleteDown_inv [of stateOk "\<lambda>k st. case DeleteEntry ac f k st of (r, st', _) \<Rightarrow> (r, st')"]
    by (simp add: DeleteAllEntriesForFabric_def)
qed

lemma seekUsed_cases: "seekUsed l filt p = length l \<or> seekUsed l filt p < length l \<and> mInUse (l ! seekUsed l filt p)"
  by (induction l filt p rule: seekUsed.induct) (subst (1 2 3) seekUsed.simps, auto)

lemma stateOk_Next:
  assumes "stateOk st"
  shows "stateOk (snd (Iterator_Next d e st))"
proof -
  define start where "start =
    (case position (iterators st ! d) of None \<Rightarrow> 0 | Some p \<Rightarrow> if p < length (acl st) then p + 1 else p)"
  define p where "p = seekUsed (acl st)
    (if mFabricFiltered (iterators st ! d) then Some (iFabricIndex (iterators st ! d)) else None) start"
  define its where "its = (iterators st)[d := (iterators st ! d)\<lparr>position := Some p\<rparr>]"
  have n: "Iterator_Next d e st =
      (if p = length (acl st) then (Inl CHIP_ERROR_SENTINEL, st\<lparr>iterators := its\<rparr>)
       else case EntryDelegate_Find (st\<lparr>iterators := its\<rparr>) e of
              Some dd \<Rightarrow> (Inr (), EntryDelegate_Init dd e (InAcl p) (st\<lparr>iterators := its\<rparr>))
            | None \<Rightarrow> (Inl CHIP_ERROR_BUFFER_TOO_SMALL, st\<lparr>iterators := its\<rparr>))"
    unfolding Iterator_Next_def Let_def its_def p_def start_def ..
  have p: "p < length (acl st) \<and> mInUse (acl st ! p)" if "p \<noteq> length (acl st)"
    using seekUsed_cases that unfolding p_def by blast
  have "stateOk (EntryDelegate_Init dd e (InAcl p) (st\<lparr>iterators := its\<rparr>))"
    if dd: "EntryDelegate_Find st e = Some dd" and q: "p \<noteq> length (acl st)" for dd
    using assms p [OF q] Find_delegate_bound [OF assms dd] by (intro stateOk_Init) (simp_all add: refOk_def)
  then show ?thesis using assms n by (simp split: option.split)
qed

lemma stateOk_Entries: "stateOk st \<Longrightarrow> stateOk (snd (Delegate_Entries it fi st))"
  by (simp add: Delegate_Entries_def split: option.split)

lemma stateOk_entriesLoop: "stateOk st \<Longrightarrow> stateOk (snd (entriesLoop fuel resolver sd path priv d st))"
proof (induction fuel arbitrary: st)
  case (Suc fuel)
  show ?case using stateOk_Next [OF Suc.prems, of d 0] Suc.IH by (auto split: prod.split sum.split option.split bool.split)
qed simp

lemma stateOk_destroyLocals: "stateOk st \<Longrightarrow> stateOk (destroyLocals d st)"
  using stateOk_ResetDelegate [of st 0] by (simp add: destroyLocals_def Iterator_Release_def Let_def)

lemma stateOk_Check: "stateOk st \<Longrightarrow> stateOk (snd (Check ac resolver sd path priv st))"
proof -
  assume s: "stateOk st"
  obtain r st1 where e: "Delegate_Entries 0 (Some (fabricIndex sd)) st = (r, st1)" by fastforce
  then have "stateOk st1" using stateOk_Entries [OF s, of 0 "Some (fabricIndex sd)"] by simp
  then have "stateOk (destroyLocals d st2)" if "entriesLoop n resolver sd path priv d st1 = (r2, st2)" for d n r2 st2
    using stateOk_entriesLoop [OF \<open>stateOk st1\<close>, of n resolver sd path priv d] that by (simp add: stateOk_destroyLocals)
  then show ?thesis
    using s e \<open>stateOk st1\<close> by (auto simp: Check_def simp del: entriesLoop.simps split: prod.split sum.split option.split)
qed

lemma stateOk_step: "stateOk st \<Longrightarrow> stateOk (stepAcl ac op st)"
proof (cases op)
  case (OpEndIteration d)
  assume "stateOk st"
  then show ?thesis using OpEndIteration by (simp add: Iterator_ResetDelegate_def Iterator_Release_def Let_def split: option.split)
qed (auto intro: stateOk_Prepare stateOk_Modify sized_change stateOk_Read stateOk_ResetDelegate stateOk_Create
      stateOk_Update stateOk_DeleteEntry stateOk_DeleteAll stateOk_Next stateOk_Entries stateOk_Check)

section \<open>Entry objects and their delegates\<close>

text \<open>An entry object and a delegate refer to each other, and exactly the delegates that are in use have
  storage; an iterator refers to one of the iterator delegates.  \<open>EntryDelegate::Release\<close> and the
  accessors of \<open>EntryDelegate\<close> dereference \<open>mStorage\<close>; in a linked state it is not null there.\<close>

definition holder :: "EntryDelegate list \<Rightarrow> nat \<Rightarrow> nat option" where
  "holder ds d = (if d < length ds \<and> mStorage (ds ! d) \<noteq> None then Some (mEntry (ds ! d)) else None)"

definition linked :: "aclState \<Rightarrow> bool" where
  "linked st \<longleftrightarrow> (\<forall>e d. entryDelegate st e = Some d \<longleftrightarrow> holder (delegates st) d = Some e) \<and>
     (\<forall>it d. iteratorDelegate st it = Some d \<longrightarrow> d < length (iterators st))"

lemma holder_update:
  "holder (ds[i := x]) d = (if d = i \<and> i < length ds then (if mStorage x = None then None else Some (mEntry x)) else holder ds d)"
  by (cases "d = i") (simp_all add: holder_def)

lemma holder_Some: "holder ds d = Some e \<longleftrightarrow> d < length ds \<and> mStorage (ds ! d) \<noteq> None \<and> mEntry (ds ! d) = e"
  by (simp add: holder_def)

lemma linkedD:
  assumes "linked st"
  shows "entryDelegate st e = Some d \<Longrightarrow> d < length (delegates st) \<and> mStorage (delegates st ! d) \<noteq> None \<and> mEntry (delegates st ! d) = e"
    "iteratorDelegate st it = Some d \<Longrightarrow> d < length (iterators st)"
  using assms by (simp_all add: linked_def holder_Some)

lemma putStorage_fields [simp]:
  "iterators (putStorage r s st) = iterators st" "iteratorDelegate (putStorage r s st) = iteratorDelegate st"
  "iterators (updDelegate d f st) = iterators st" "iteratorDelegate (updDelegate d f st) = iteratorDelegate st"
  by (simp_all add: putStorage_def updDelegate_def split: storageRef.split)

lemma Storage_Release_fields [simp]:
  "delegates (Storage_Release r st) = delegates st" "entryDelegate (Storage_Release r st) = entryDelegate st"
  by (simp_all add: Storage_Release_def split: storageRef.split)

lemma Release_delegates: "mStorage (delegates st ! d) \<noteq> None \<Longrightarrow>
    delegates (EntryDelegate_Release d st) = (delegates st)[d := (delegates st ! d)\<lparr>mStorage := None\<rparr>]"
  by (auto simp: EntryDelegate_Release_def updDelegate_def)

text \<open>An entry object gives its delegate back, or gets one.\<close>

lemma linked_off:
  assumes "linked st" "entryDelegate st e = Some d" "entryDelegate st' = (entryDelegate st)(e := None)"
    and "delegates st' = (delegates st)[d := x]" "mStorage x = None"
    and "iteratorDelegate st' = iteratorDelegate st" "iterators st' = iterators st"
  shows "linked st'"
proof -
  have h: "entryDelegate st e' = Some d' \<longleftrightarrow> holder (delegates st) d' = Some e'" for e' d' using assms(1) by (simp add: linked_def)
  have d: "d < length (delegates st)" using linkedD(1) [OF assms(1,2)] by simp
  have "entryDelegate st' e' = Some d' \<longleftrightarrow> holder (delegates st') d' = Some e'" for e' d'
    using h [of e' d'] h [of e d'] h [of e' d] assms(2,5) d unfolding assms(3,4) holder_update by auto
  then show ?thesis using assms(1,6,7) by (simp add: linked_def)
qed

lemma linked_on:
  assumes "linked st" "entryDelegate st e = Some d \<or> entryDelegate st e = None \<and> d < length (delegates st) \<and> mStorage (delegates st ! d) = None"
    and "entryDelegate st' = (entryDelegate st)(e := Some d)"
    and "delegates st' = (delegates st)[d := x]" "mStorage x \<noteq> None" "mEntry x = e"
    and "iteratorDelegate st' = iteratorDelegate st" "iterators st' = iterators st"
  shows "linked st'"
proof -
  have h: "entryDelegate st e' = Some d' \<longleftrightarrow> holder (delegates st) d' = Some e'" for e' d' using assms(1) by (simp add: linked_def)
  have d: "d < length (delegates st)" using linkedD(1) [OF assms(1), of e d] assms(2) by blast
  have "holder (delegates st) d = Some e \<or> holder (delegates st) d = None" using assms(2) h by (auto simp: holder_def)
  then have "entryDelegate st' e' = Some d' \<longleftrightarrow> holder (delegates st') d' = Some e'" for e' d'
    using h [of e' d'] h [of e d'] h [of e' d] assms(2,5,6) d unfolding assms(3,4) holder_update by auto
  then show ?thesis using assms(1,7,8) by (simp add: linked_def)
qed

lemma linked_Reset:
  assumes "linked st"
  shows "linked (ResetDelegate e st)"
proof (cases "entryDelegate st e")
  case None
  then have "ResetDelegate e st = st\<lparr>entryDelegate := entryDelegate st\<rparr>" by (simp add: ResetDelegate_def fun_upd_idem)
  then show ?thesis using assms by simp
next
  case (Some d)
  then show ?thesis
    using Release_delegates [of st d] linkedD(1) [OF assms Some]
    by (intro linked_off [OF assms Some, where x = "(delegates st ! d)\<lparr>mStorage := None\<rparr>"])
      (simp_all add: ResetDelegate_def Let_def)
qed

lemma linked_Init:
  assumes "linked st" "EntryDelegate_Find st e = Some d"
  shows "linked (EntryDelegate_Init d e ref st)"
proof -
  have f: "entryDelegate st e = Some d \<or> entryDelegate st e = None \<and> d < length (delegates st) \<and> mStorage (delegates st ! d) = None"
    using assms(2) by (auto simp: EntryDelegate_Find_def firstIndex_Some split: option.splits)
  then have "(delegates (SetDelegate e d st))[d := x] = (delegates st)[d := x]" for x
    using Release_delegates [of st d] linkedD(1) [OF assms(1), of e d] by (auto simp: SetDelegate_def Let_def)
  then show ?thesis
    by (intro linked_on [OF assms(1) f, where x = "\<lparr>mEntry = e, mStorage = Some ref\<rparr>"])
      (simp_all add: EntryDelegate_Init_def Let_def, simp add: updDelegate_def)
qed

lemma linked_acl [simp]: "linked (st\<lparr>acl := x\<rparr>) = linked st" "linked (putStorage r s st) = linked st"
  by (simp_all add: linked_def)

lemma linked_iterators: "linked st \<Longrightarrow> length x = length (iterators st) \<Longrightarrow> linked (st\<lparr>iterators := x\<rparr>)"
  by (simp add: linked_def)

lemma linked_upd:
  assumes "linked st" "mStorage (delegates st ! d) \<noteq> None"
  shows "linked (updDelegate d (mStorage_update (\<lambda>_. Some r)) st)"
proof -
  have "holder ((delegates st)[d := (delegates st ! d)\<lparr>mStorage := Some r\<rparr>]) = holder (delegates st)"
    using assms(2) by (intro ext) (simp add: holder_update, simp add: holder_def)
  then show ?thesis using assms(1) by (simp add: linked_def updDelegate_def)
qed

lemma linked_Ensure: "linked st \<Longrightarrow> linked (snd (EnsureStorageInPool d st))"
  by (simp add: EnsureStorageInPool_def linked_upd split: option.split storageRef.split)

lemma linked_Delete: "linked st \<Longrightarrow> linked (snd (Delegate_DeleteEntry k fi st))"
proof -
  assume l: "linked st"
  have b: "linked (FixBeforeDelete i d s)" if "linked s" for i d s
    using that linked_Ensure by (simp add: FixBeforeDelete_def)
  have a: "linked (FixAfterDelete i d s)" if "linked s" for i d s
    using that linked_Reset linked_upd by (simp add: FixAfterDelete_def split: option.split storageRef.split)
  show ?thesis
    using l by (auto simp: Delegate_DeleteEntry_def Let_def intro!: linked_iterators fold_inv [where P = linked] a b split: option.split)
qed

lemma linked_Modify: "linked st \<Longrightarrow> linked (snd (Entry_Modify e f st))"
  using linked_Ensure [of st]
  by (auto simp: Entry_Modify_def split: option.split prod.split sum.split) (metis snd_conv)+

lemma linked_Read: "linked st \<Longrightarrow> linked (snd (Delegate_ReadEntry k e fi st))"
  by (simp add: Delegate_ReadEntry_def linked_Init split: option.split)

lemma linked_Prepare: "linked st \<Longrightarrow> linked (snd (PrepareEntry e st))"
  by (simp add: PrepareEntry_def linked_Init split: option.split)

lemma linked_Create: "linked st \<Longrightarrow> linked (fst (snd (CreateEntry ac f e st)))"
  by (auto simp: CreateEntry_def Delegate_CreateEntry_def Let_def split: option.split sum.split prod.split)

lemma linked_Update: "linked st \<Longrightarrow> linked (fst (snd (UpdateEntry ac f k e st)))"
  by (auto simp: UpdateEntry_def Delegate_UpdateEntry_def Let_def split: option.split sum.split prod.split)

lemma linked_DeleteEntry: "linked st \<Longrightarrow> linked (fst (snd (DeleteEntry ac f k st)))"
proof -
  assume s: "linked st"
  define p where "p = (if listeners ac \<noteq> [] then Delegate_ReadEntry k 0 (Some f) st else (Inl CHIP_ERROR_SENTINEL, st))"
  have "linked (snd p)" using s linked_Read by (simp add: p_def)
  then have "linked (ResetDelegate 0 (snd (Delegate_DeleteEntry k (Some f) (snd p))))" by (intro linked_Reset linked_Delete)
  then show ?thesis using s by (auto simp: DeleteEntry_def p_def [symmetric] split: prod.split sum.split)
qed

lemma linked_DeleteAll: "linked st \<Longrightarrow> linked (snd (DeleteAllEntriesForFabric ac f st))"
proof -
  assume s: "linked st"
  have "linked (snd (case DeleteEntry ac f k s of (r, s', _) \<Rightarrow> (r, s')))" if "linked s" for k s
    using linked_DeleteEntry [OF that, of ac f k] by (auto split: prod.split)
  then show ?thesis
    using s deleteDown_inv [of linked "\<lambda>k st. case DeleteEntry ac f k st of (r, st', _) \<Rightarrow> (r, st')"]
    by (simp add: DeleteAllEntriesForFabric_def)
qed

lemma linked_Next: "linked st \<Longrightarrow> linked (snd (Iterator_Next d e st))"
  by (auto simp: Iterator_Next_def Let_def intro!: linked_iterators linked_Init split: option.split)

lemma Iterator_Find_bound: "linked st \<Longrightarrow> Iterator_Find st it = Some d \<Longrightarrow> d < length (iterators st)"
  by (auto simp: Iterator_Find_def split: option.splits dest: linkedD(2) firstIndex_bound)

lemma linked_Entries: "linked st \<Longrightarrow> linked (snd (Delegate_Entries it fi st))"
  using Iterator_Find_bound [of st it] by (auto simp: Delegate_Entries_def linked_def split: option.split)

lemma linked_iterator_reset: "linked st \<Longrightarrow> linked ((Iterator_Release d st)\<lparr>iteratorDelegate := (iteratorDelegate st)(it := None)\<rparr>)"
  by (simp add: Iterator_Release_def linked_def)

lemma linked_endIteration: "linked st \<Longrightarrow> linked (Iterator_ResetDelegate it st)"
  using linked_iterator_reset [where st = st and it = it]
  by (auto simp: Iterator_ResetDelegate_def Iterator_Release_def fun_upd_idem split: option.split)

lemma linked_entriesLoop: "linked st \<Longrightarrow> linked (snd (entriesLoop fuel resolver sd path priv d st))"
proof (induction fuel arbitrary: st)
  case (Suc fuel)
  show ?case using linked_Next [OF Suc.prems, of d 0] Suc.IH by (auto split: prod.split sum.split option.split bool.split)
qed simp

lemma linked_Check: "linked st \<Longrightarrow> linked (snd (Check ac resolver sd path priv st))"
proof -
  assume s: "linked st"
  obtain r st1 where e: "Delegate_Entries 0 (Some (fabricIndex sd)) st = (r, st1)" by fastforce
  then have l: "linked st1" using linked_Entries [OF s, of 0 "Some (fabricIndex sd)"] by simp
  have "linked (destroyLocals d st2)" if "entriesLoop n resolver sd path priv d st1 = (r2, st2)" for d n r2 st2
    using linked_entriesLoop [OF l, of n resolver sd path priv d] that linked_iterator_reset [OF linked_Reset [of st2 0], where d = d and it = 0]
    by (simp add: destroyLocals_def Iterator_Release_def Let_def)
  then show ?thesis
    using s e l by (auto simp: Check_def simp del: entriesLoop.simps split: prod.split sum.split option.split)
qed

lemma linked_step: "linked st \<Longrightarrow> linked (stepAcl ac op st)"
  by (cases op) (auto intro: linked_Prepare linked_Modify linked_Read linked_Reset linked_Create linked_Update
      linked_DeleteEntry linked_DeleteAll linked_Next linked_Entries linked_endIteration linked_Check)

section \<open>From the start of the program\<close>

text \<open>The static arrays before \<open>Init\<close>: nothing is in use, no entry object and no iterator has a
  delegate.  (The bytes of storage that is not in use are never read: \<open>Init\<close> clears it.)\<close>

definition staticAcl :: aclState where
  "staticAcl =
     \<lparr>acl = replicate kAclSize Entry_Clear, pool = [Entry_Clear], delegates = [\<lparr>mEntry = 0, mStorage = None\<rparr>],
      iterators = [\<lparr>iInUse = False, mFabricFiltered = False, iFabricIndex = 0, position = None\<rparr>],
      entryDelegate = (\<lambda>_. None), iteratorDelegate = (\<lambda>_. None)\<rparr>"

definition runAcl :: "AccessControl \<Rightarrow> aclOp list \<Rightarrow> aclState" where
  "runAcl ac ops = fold (stepAcl ac) ops (Delegate_Init staticAcl)"

lemma stateOk_run: "stateOk (runAcl ac ops)"
proof -
  have "stateOk (Delegate_Init staticAcl)"
    by (auto simp: stateOk_def staticAcl_def Delegate_Init_def) (simp add: Entry_Clear_def)
  then show ?thesis unfolding runAcl_def by (intro fold_inv [where P = stateOk]) (auto intro: stateOk_step)
qed

lemma linked_run: "linked (runAcl ac ops)"
proof -
  have "linked (Delegate_Init staticAcl)" by (simp add: linked_def staticAcl_def Delegate_Init_def holder_def)
  then show ?thesis unfolding runAcl_def by (intro fold_inv [where P = linked]) (auto intro: linked_step)
qed

lemma stateOk_fabric: "stateOk st \<Longrightarrow> list_all (\<lambda>s. IsValid (Some s) \<and> sized s) (fabricEntries st f)"
  by (auto simp: stateOk_def fabricEntries_def ofFabric_def usedEntries_def list_all_iff dest: set_takeWhileD)

text \<open>The second provider of the interface of \<open>acl_delegate\<close>: deletion through the module, which reads
  the entry for its listeners first.\<close>

lemma Read_acl [simp]: "acl (snd (Delegate_ReadEntry k e fi st)) = acl st"
  using FindUsed_bound [of st k fi] by (auto simp: Delegate_ReadEntry_def EntryDelegate_Init_acl split: option.split)

lemma fabricEntries_cong: "acl st' = acl st \<Longrightarrow> fabricEntries st' f = fabricEntries st f"
  by (simp add: fabricEntries_def usedEntries_def)

lemma DeleteEntry_module:
  assumes "initialized ac"
  shows "\<exists>st1. acl st1 = acl st \<and> fst (DeleteEntry ac f k st) = fst (Delegate_DeleteEntry k (Some f) st1) \<and>
     acl (fst (snd (DeleteEntry ac f k st))) = acl (snd (Delegate_DeleteEntry k (Some f) st1))"
proof -
  let ?p = "if listeners ac \<noteq> [] then Delegate_ReadEntry k 0 (Some f) st else (Inl CHIP_ERROR_SENTINEL, st)"
  have a: "acl (snd ?p) = acl st" by simp
  obtain r st1 where p: "?p = (r, st1)" by fastforce
  have "DeleteEntry ac f k st =
      (case Delegate_DeleteEntry k (Some f) st1 of
         (Inl err, st2) \<Rightarrow> (Inl err, ResetDelegate 0 st2, [])
       | (Inr _, st2) \<Rightarrow> (Inr (), ResetDelegate 0 st2,
           NotifyEntryChanged ac f k (if isOk r then Entry_Storage 0 st2 else None) kRemoved))"
    unfolding DeleteEntry_def p using assms by simp
  then show ?thesis using a p by (intro exI [of _ st1]) (auto split: prod.split sum.split)
qed

lemma module_delete_fabric:
  assumes "initialized ac" "aclOk st" "k < length (fabricEntries st f)"
  shows "fst (DeleteEntry ac f k st) = Inr () \<and> aclOk (fst (snd (DeleteEntry ac f k st))) \<and>
         fabricEntries (fst (snd (DeleteEntry ac f k st))) g =
           (if g = f then removeNth k (fabricEntries st f) else fabricEntries st g)"
proof -
  obtain st1 where 1: "acl st1 = acl st" "fst (DeleteEntry ac f k st) = fst (Delegate_DeleteEntry k (Some f) st1)"
     "acl (fst (snd (DeleteEntry ac f k st))) = acl (snd (Delegate_DeleteEntry k (Some f) st1))"
    using DeleteEntry_module [OF assms(1)] by blast
  have c: "aclOk st1" "fabricEntries st1 h = fabricEntries st h" for h
    using usedEntries_cong [OF 1(1)] fabricEntries_cong [OF 1(1)] assms(2) by auto
  show ?thesis
    using delete_fabric [OF c(1), of k f g] assms(3) 1(2) fabricEntries_cong [OF 1(3)] usedEntries_cong [OF 1(3)] c(2) by simp
qed

lemma module_delete_missing:
  assumes "initialized ac" "length (fabricEntries st f) \<le> k"
  shows "fst (DeleteEntry ac f k st) = Inl CHIP_ERROR_SENTINEL \<and> fabricEntries (fst (snd (DeleteEntry ac f k st))) = fabricEntries st"
proof -
  obtain st1 where 1: "acl st1 = acl st" "fst (DeleteEntry ac f k st) = fst (Delegate_DeleteEntry k (Some f) st1)"
     "acl (fst (snd (DeleteEntry ac f k st))) = acl (snd (Delegate_DeleteEntry k (Some f) st1))"
    using DeleteEntry_module [OF assms(1)] by blast
  then show ?thesis
    using delete_missing [of st1 f k] assms(2) fabricEntries_cong [OF 1(1)] fabricEntries_cong [OF 1(3)] by auto
qed

definition moduleDelete :: "AccessControl \<Rightarrow> nat \<Rightarrow> FabricIndex \<Rightarrow> aclState \<Rightarrow> unit result \<times> aclState" where
  "moduleDelete ac k f st = (case DeleteEntry ac f k st of (r, st', _) \<Rightarrow> (r, st'))"

interpretation module: acl_delegate aclOk fabricEntries GetEntryCountFabric "moduleDelete (ac\<lparr>initialized := True\<rparr>)" for ac
proof unfold_locales
  show "GetEntryCountFabric s f = length (fabricEntries s f)" for s f by (rule example.countOf)
  fix s f k g assume "aclOk s" "k < length (fabricEntries s f)"
  then show "fst (moduleDelete (ac\<lparr>initialized := True\<rparr>) k f s) = Inr () \<and>
      aclOk (snd (moduleDelete (ac\<lparr>initialized := True\<rparr>) k f s)) \<and>
      fabricEntries (snd (moduleDelete (ac\<lparr>initialized := True\<rparr>) k f s)) g =
        (if g = f then removeNth k (fabricEntries s f) else fabricEntries s g)"
    using module_delete_fabric [of "ac\<lparr>initialized := True\<rparr>" s k f g] by (auto simp: moduleDelete_def split: prod.split)
qed

lemma DeleteAll_exact:
  assumes "initialized ac" "aclOk st"
  shows "fst (DeleteAllEntriesForFabric ac f st) = Inr () \<and> aclOk (snd (DeleteAllEntriesForFabric ac f st)) \<and>
         fabricEntries (snd (DeleteAllEntriesForFabric ac f st)) g = (if g = f then [] else fabricEntries st g)"
proof -
  have ac: "ac\<lparr>initialized := True\<rparr> = ac" using assms(1) by simp
  have "DeleteAllEntriesForFabric ac f st = deleteDown (\<lambda>k. moduleDelete ac k f) (GetEntryCountFabric st f) (Inr ()) st"
    using assms(1) by (simp add: DeleteAllEntriesForFabric_def moduleDelete_def [abs_def])
  then show ?thesis using module.deleteDown_all [OF assms(2), of f _ ac g, unfolded ac] by simp
qed

text \<open>A request that passes the loop passed one of the entries in use.\<close>

lemma Next_ok:
  assumes "stateOk st" "Iterator_Next d 0 st = (Inr r, st1)"
  shows "\<exists>p. p < length (acl st) \<and> mInUse (acl st ! p) \<and> Entry_Storage 0 st1 = Some (acl st ! p) \<and> acl st1 = acl st"
proof -
  obtain p its dd where p: "EntryDelegate_Find (st\<lparr>iterators := its\<rparr>) 0 = Some dd"
      "st1 = EntryDelegate_Init dd 0 (InAcl p) (st\<lparr>iterators := its\<rparr>)" "p < length (acl st)" "mInUse (acl st ! p)"
    using assms(2) seekUsed_cases [of "acl st"]
    by (simp add: Iterator_Next_def Let_def split: if_splits option.splits) metis+
  have dd: "dd < length (delegates (st\<lparr>iterators := its\<rparr>))" using Find_delegate_bound [of st 0 dd] assms(1) p(1) by simp
  show ?thesis using Init_acl_ref [of p "st\<lparr>iterators := its\<rparr>" dd 0] p(2-4) dd by auto
qed

lemma entriesLoop_allows:
  assumes "stateOk st" "fst (entriesLoop fuel resolver sd path priv d st) = Inr ()"
  shows "\<exists>s \<in> set (acl st). mInUse s \<and> checkEntry resolver sd path priv s = Inr True"
  using assms
proof (induction fuel arbitrary: st)
  case (Suc fuel)
  obtain r st1 where n: "Iterator_Next d 0 st = (Inr r, st1)"
    using Suc.prems(2) by (cases "Iterator_Next d 0 st"; cases "fst (Iterator_Next d 0 st)") auto
  obtain p where p: "p < length (acl st)" "mInUse (acl st ! p)" "Entry_Storage 0 st1 = Some (acl st ! p)" "acl st1 = acl st"
    using Next_ok [OF Suc.prems(1) n] by blast
  have ok: "stateOk st1" using stateOk_Next [OF Suc.prems(1), of d 0] n by simp
  show ?case
  proof (cases "checkEntry resolver sd path priv (acl st ! p) = Inr True")
    case True
    then show ?thesis using p by auto
  next
    case False
    then have "fst (entriesLoop fuel resolver sd path priv d st1) = Inr ()"
      using Suc.prems(2) n p(3) by (auto split: sum.splits bool.splits)
    then show ?thesis using Suc.IH [OF ok] p(4) by simp
  qed
qed simp

lemma Check_allows:
  assumes "stateOk st" "authMode sd \<noteq> kPase" "fst (Check ac resolver sd path priv st) = Inr ()"
  shows "\<exists>s. mInUse s \<and> IsValid (Some s) \<and> sized s \<and> entryAllows resolver sd path priv s"
proof -
  obtain r st1 where e: "Delegate_Entries 0 (Some (fabricIndex sd)) st = (r, st1)" by fastforce
  have ok: "stateOk st1" using stateOk_Entries [OF assms(1), of 0 "Some (fabricIndex sd)"] e by simp
  obtain n d where "fst (entriesLoop n resolver sd path priv d st1) = Inr ()"
    using assms(2,3) e by (auto simp: Check_def simp del: entriesLoop.simps split: if_splits sum.splits option.splits prod.splits) (metis fst_conv)
  then obtain s where s: "s \<in> set (acl st1)" "mInUse s" "checkEntry resolver sd path priv s = Inr True"
    using entriesLoop_allows [OF ok] by blast
  then have v: "IsValid (Some s)" "sized s" using ok by (auto simp: stateOk_def)
  then show ?thesis using s checkEntry_valid [OF v] by auto
qed

section \<open>Properties of the module\<close>

text \<open>
  C11. Whatever sequence of operations runs after \<open>Init\<close> -- preparing, changing, reading and releasing
  entry objects, creating, updating and deleting entries, deleting all entries of a fabric,
  iterating and checking -- every entry in use in the list is valid, every storage has room for
  exactly its subjects and targets, and every delegate refers to storage that exists.  Entry
  objects and delegates refer to each other, so no entry object is left with a delegate whose storage is null.
\<close>

theorem acl_stays_valid: "stateOk (runAcl ac ops) \<and> linked (runAcl ac ops)"
  by (simp add: stateOk_run linked_run)

text \<open>
  C9. \<open>Check\<close> decides exactly as specified, in any state the operations reach: a PASE session passes.
  Any other request needs an iterator delegate, without which the answer is
  \<open>CHIP_ERROR_BUFFER_TOO_SMALL\<close>, and passes if and only if an entry delegate is free for the local entry object and one
  of the entries of its own fabric has its authentication mode, a privilege that includes the
  requested one, no subjects or a matching one, and no targets or a matching one; otherwise the
  answer is \<open>CHIP_ERROR_ACCESS_DENIED\<close>.  The list is not changed.
\<close>

theorem access_check_exact:
  assumes "initialized ac"
  shows "fst (Check ac resolver sd path priv (runAcl ac ops)) =
           (if authMode sd = kPase then Inr ()
            else if Iterator_Find (runAcl ac ops) 0 = None then Inl CHIP_ERROR_BUFFER_TOO_SMALL
            else if EntryDelegate_Find (runAcl ac ops) 0 \<noteq> None \<and>
               list_ex (entryAllows resolver sd path priv) (fabricEntries (runAcl ac ops) (fabricIndex sd))
            then Inr () else Inl CHIP_ERROR_ACCESS_DENIED) \<and>
         acl (snd (Check ac resolver sd path priv (runAcl ac ops))) = acl (runAcl ac ops)"
proof (cases "canIterate (runAcl ac ops) \<and> canRead (runAcl ac ops)")
  case True
  then obtain d d' where "Iterator_Find (runAcl ac ops) 0 = Some d" "EntryDelegate_Find (runAcl ac ops) 0 = Some d'"
    by (auto simp: canIterate_def canRead_def split: option.splits)
  then show ?thesis
    using Check_decides [OF assms, of "runAcl ac ops"] True decide_valid [OF stateOk_fabric [OF stateOk_run]] by simp
next
  case False
  then have "Iterator_Find (runAcl ac ops) 0 = None \<or> EntryDelegate_Find (runAcl ac ops) 0 = None"
    using Iterator_Find_bound [OF linked_run] Find_delegate_bound [OF stateOk_run]
    by (auto simp: canIterate_def canRead_def split: option.splits)
  then show ?thesis
    using Check_no_iterator [OF assms] Check_no_delegate [OF assms] by auto
qed

theorem access_check_exact_witness:
  "fst (Check \<lparr>initialized = True, listeners = []\<rparr> (\<lambda>_ _. False)
     \<lparr>fabricIndex = 1, authMode = kCase, subject = 5, cats = []\<rparr> \<lparr>pathCluster = 6, pathEndpoint = 1\<rparr> kOperate
     (runAcl \<lparr>initialized = True, listeners = []\<rparr>
        [OpPrepare 1, OpChange 1 (ChangeAuthMode kCase), OpChange 1 (ChangeFabric 1),
         OpChange 1 (ChangePrivilege kManage), OpChange 1 (AppendSubject 5), OpCreate 1 1, OpRelease 1])) = Inr ()"
proof -
  let ?ac = "\<lparr>initialized = True, listeners = []\<rparr>"
  let ?ops = "[OpPrepare 1, OpChange 1 (ChangeAuthMode kCase), OpChange 1 (ChangeFabric 1),
         OpChange 1 (ChangePrivilege kManage), OpChange 1 (AppendSubject 5), OpCreate 1 1, OpRelease 1]"
  let ?sd = "\<lparr>fabricIndex = 1, authMode = kCase, subject = 5, cats = []\<rparr>"
  have "Iterator_Find (runAcl ?ac ?ops) 0 \<noteq> None" "EntryDelegate_Find (runAcl ?ac ?ops) 0 \<noteq> None"
    "list_ex (entryAllows (\<lambda>_ _. False) ?sd \<lparr>pathCluster = 6, pathEndpoint = 1\<rparr> kOperate)
       (fabricEntries (runAcl ?ac ?ops) 1)"
    by code_simp+
  then show ?thesis using access_check_exact [of ?ac "\<lambda>_ _. False" ?sd _ _ ?ops] by simp
qed

text \<open>
  C10. A group message never has administer privilege: in any state the operations reach, \<open>Check\<close> of
  a request that needs it from a subject authenticated as a group does not succeed, whatever
  entries were created or updated and whatever handles are outstanding.
\<close>

theorem group_never_administers:
  assumes "authMode sd = kGroup"
  shows "fst (Check ac resolver sd path kAdminister (runAcl ac ops)) \<noteq> Inr ()"
proof
  assume a: "fst (Check ac resolver sd path kAdminister (runAcl ac ops)) = Inr ()"
  have "authMode sd \<noteq> kPase" using assms by simp
  then obtain s where s: "IsValid (Some s)" "sized s" "entryAllows resolver sd path kAdminister s"
    using Check_allows [OF stateOk_run _ a] by blast
  then have "mPrivilege s = kAdminister" by (cases "mPrivilege s") (auto simp: entryAllows_def)
  then show False using valid_parts(2) [OF s(1,2)] s(3) assms by (simp add: entryAllows_def)
qed

theorem group_never_administers_witness:
  "fst (Check \<lparr>initialized = True, listeners = []\<rparr> (\<lambda>_ _. False)
     \<lparr>fabricIndex = 1, authMode = kGroup, subject = 0xFFFFFFFFFFFF0005, cats = []\<rparr>
     \<lparr>pathCluster = 6, pathEndpoint = 1\<rparr> kAdminister
     (runAcl \<lparr>initialized = True, listeners = []\<rparr>
        [OpPrepare 1, OpChange 1 (ChangeAuthMode kGroup), OpChange 1 (ChangeFabric 1),
         OpChange 1 (ChangePrivilege kAdminister), OpCreate 1 1, OpRelease 1])) \<noteq> Inr ()"
  by (rule group_never_administers) simp

text \<open>
  Removing a fabric takes its access away and nobody else's: after \<open>DeleteAllEntriesForFabric\<close>
  every request of that fabric that is not on a PASE session is denied, and every request of
  another fabric is decided as before.
\<close>

theorem removed_fabric_loses_access:
  assumes "initialized ac" "aclOk st" "canIterate st" "canRead st"
    and "canIterate (snd (DeleteAllEntriesForFabric ac f st))" "canRead (snd (DeleteAllEntriesForFabric ac f st))"
    and "authMode sd \<noteq> kPase"
  shows "fst (Check ac resolver sd path priv (snd (DeleteAllEntriesForFabric ac f st))) =
           (if fabricIndex sd = f then Inl CHIP_ERROR_ACCESS_DENIED else fst (Check ac resolver sd path priv st))"
  using Check_decides [OF assms(1,5,6)] Check_decides [OF assms(1,3,4)] DeleteAll_exact [OF assms(1,2)] assms(7)
  by simp

definition demoEntry :: "FabricIndex \<Rightarrow> NodeId \<Rightarrow> EntryStorage" where
  "demoEntry f n = Entry_Clear\<lparr>mInUse := True, mFabricIndex := f, mAuthMode := kCase, mPrivilege := kManage,
     mSubjects := [n, 0, 0, 0]\<rparr>"

definition demoAcl :: aclState where
  "demoAcl = staticAcl\<lparr>acl := [demoEntry 1 5, demoEntry 1 6, demoEntry 2 7] @ replicate 21 Entry_Clear\<rparr>"

theorem removed_fabric_loses_access_witness:
  "fst (Check \<lparr>initialized = True, listeners = [1]\<rparr> (\<lambda>_ _. False)
     \<lparr>fabricIndex = 1, authMode = kCase, subject = 5, cats = []\<rparr> \<lparr>pathCluster = 6, pathEndpoint = 1\<rparr> kOperate
     (snd (DeleteAllEntriesForFabric \<lparr>initialized = True, listeners = [1]\<rparr> 1 demoAcl))) = Inl CHIP_ERROR_ACCESS_DENIED"
proof -
  let ?ac = "\<lparr>initialized = True, listeners = [1]\<rparr>"
  have "aclOk demoAcl" "canIterate demoAcl" "canRead demoAcl" "canIterate (snd (DeleteAllEntriesForFabric ?ac 1 demoAcl))"
    "canRead (snd (DeleteAllEntriesForFabric ?ac 1 demoAcl))"
    by code_simp+
  then show ?thesis
    using removed_fabric_loses_access [of ?ac demoAcl 1 "\<lparr>fabricIndex = 1, authMode = kCase, subject = 5, cats = []\<rparr>"]
    by simp
qed

text \<open>
  C12. The three changes of the module act on the lists of entries per fabric as on plain lists.  For
  a valid entry of fabric \<open>f\<close>: creation appends it to the list of \<open>f\<close> and answers its index, unless
  the fabric or the whole list is full; update replaces the entry at the index; deletion removes
  it; an index past the end is \<open>CHIP_ERROR_SENTINEL\<close>.  The lists of other fabrics, and on an error all
  lists, stay as they are, and entries in use stay contiguous.
\<close>

theorem acl_changes_refine:
  assumes "initialized ac" "aclOk st" "Entry_Storage e st = Some s" "mInUse s" "IsValid (Some s)" "mFabricIndex s = f"
  shows "(case CreateEntry ac f e st of (r, st', _) \<Rightarrow>
           if length (fabricEntries st f) < kEntriesPerFabric \<and> FindUnusedInAcl st \<noteq> None
           then r = Inr (length (fabricEntries st f)) \<and> aclOk st' \<and>
                fabricEntries st' = (fabricEntries st)(f := fabricEntries st f @ [s])
           else r = Inl CHIP_ERROR_BUFFER_TOO_SMALL \<and> st' = st) \<and>
         (case UpdateEntry ac f k e st of (r, st', _) \<Rightarrow>
           if k < length (fabricEntries st f)
           then r = Inr () \<and> aclOk st' \<and> fabricEntries st' = (fabricEntries st)(f := (fabricEntries st f)[k := s])
           else r = Inl CHIP_ERROR_SENTINEL \<and> st' = st) \<and>
         (case DeleteEntry ac f k st of (r, st', _) \<Rightarrow>
           if k < length (fabricEntries st f)
           then r = Inr () \<and> aclOk st' \<and> fabricEntries st' = (fabricEntries st)(f := removeNth k (fabricEntries st f))
           else r = Inl CHIP_ERROR_SENTINEL \<and> fabricEntries st' = fabricEntries st)"
proof (intro conjI)
  have copy: "Copy e st = Inr s" using assms(3) by (simp add: Copy_def)
  show "case CreateEntry ac f e st of (r, st', _) \<Rightarrow>
           if length (fabricEntries st f) < kEntriesPerFabric \<and> FindUnusedInAcl st \<noteq> None
           then r = Inr (length (fabricEntries st f)) \<and> aclOk st' \<and>
                fabricEntries st' = (fabricEntries st)(f := fabricEntries st f @ [s])
           else r = Inl CHIP_ERROR_BUFFER_TOO_SMALL \<and> st' = st"
  proof (cases "FindUnusedInAcl st")
    case (Some i)
    note c = create_fabric [OF assms(2) Some copy assms(4)]
    obtain st1 where st1: "Delegate_CreateEntry e st = (Inr (length (fabricEntries st f), f), st1)"
      using c assms(6) by (cases "Delegate_CreateEntry e st") auto
    then show ?thesis
      using c assms example.countOf [of st f] Some by (auto simp: CreateEntry_def fun_eq_iff)
  qed (use assms in \<open>simp add: CreateEntry_def Delegate_CreateEntry_def\<close>)
  show "case UpdateEntry ac f k e st of (r, st', _) \<Rightarrow>
           if k < length (fabricEntries st f)
           then r = Inr () \<and> aclOk st' \<and> fabricEntries st' = (fabricEntries st)(f := (fabricEntries st f)[k := s])
           else r = Inl CHIP_ERROR_SENTINEL \<and> st' = st"
  proof (cases "k < length (fabricEntries st f)")
    case True
    note u = update_fabric [OF assms(2) True copy assms(4,6)]
    obtain st1 where "Delegate_UpdateEntry k e (Some f) st = (Inr (), st1)"
      using u by (cases "Delegate_UpdateEntry k e (Some f) st") auto
    then show ?thesis using u assms True by (auto simp: UpdateEntry_def fun_eq_iff)
  next
    case False
    then have "Delegate_UpdateEntry k e (Some f) st = (Inl CHIP_ERROR_SENTINEL, st)"
      using FindUsed_fabric_None [of st k f] by (simp add: Delegate_UpdateEntry_def)
    then show ?thesis using assms False by (simp add: UpdateEntry_def)
  qed
  show "case DeleteEntry ac f k st of (r, st', _) \<Rightarrow>
           if k < length (fabricEntries st f)
           then r = Inr () \<and> aclOk st' \<and> fabricEntries st' = (fabricEntries st)(f := removeNth k (fabricEntries st f))
           else r = Inl CHIP_ERROR_SENTINEL \<and> fabricEntries st' = fabricEntries st"
    using module_delete_fabric [OF assms(1,2), of k f] module_delete_missing [OF assms(1), of st f k]
    by (cases "DeleteEntry ac f k st") (auto simp: fun_eq_iff)
qed

theorem acl_changes_refine_witness:
  "fst (CreateEntry \<lparr>initialized = True, listeners = []\<rparr> 1 1
     (snd (Entry_Modify 1 (applyChange (ChangeAuthMode kCase)) (snd (Entry_Modify 1 (applyChange (ChangeFabric 1))
        (snd (PrepareEntry 1 demoAcl))))))) = Inr 2"
proof -
  let ?ac = "\<lparr>initialized = True, listeners = []\<rparr>"
  let ?st = "snd (Entry_Modify 1 (applyChange (ChangeAuthMode kCase)) (snd (Entry_Modify 1 (applyChange (ChangeFabric 1))
        (snd (PrepareEntry 1 demoAcl)))))"
  let ?s = "Entry_Clear\<lparr>mInUse := True, mFabricIndex := 1, mAuthMode := kCase\<rparr>"
  have "aclOk ?st" "Entry_Storage 1 ?st = Some ?s" "mInUse ?s" "IsValid (Some ?s)" "mFabricIndex ?s = 1"
    "length (fabricEntries ?st 1) = 2" "FindUnusedInAcl ?st = Some 3"
    by code_simp+
  then show ?thesis using acl_changes_refine [of ?ac ?st 1 ?s 1 0] by (auto split: prod.splits)
qed

text \<open>
  Deleting an entry of one fabric can make an outstanding entry object of another fabric refer to
  a different entry.  \<open>DeleteEntry\<close> of the delegate fixes the outstanding delegates for the storage at
  \<open>acl + index\<close>, but with a fabric index the deleted storage is elsewhere: with two entries of fabric
  1 and one of fabric 2, an object that read the second entry of fabric 1 reads the first one once
  the only entry of fabric 2 is deleted.
\<close>

theorem delete_misdirects_handle:
  "\<exists>st st'. stateOk st \<and> aclOk st \<and>
     Delegate_ReadEntry 1 9 (Some 1) demoAcl = (Inr (), st) \<and>
     Entry_Storage 9 st = Some (fabricEntries st 1 ! 1) \<and>
     Delegate_DeleteEntry 0 (Some 2) st = (Inr (), st') \<and>
     fabricEntries st' 1 = fabricEntries st 1 \<and>
     Entry_Storage 9 st' = Some (fabricEntries st 1 ! 0) \<and> fabricEntries st 1 ! 0 \<noteq> fabricEntries st 1 ! 1"
proof -
  let ?r = "Delegate_ReadEntry 1 9 (Some 1) demoAcl"
  let ?d = "Delegate_DeleteEntry 0 (Some 2) (snd ?r)"
  have "stateOk demoAcl"
    by (auto simp: stateOk_def demoAcl_def staticAcl_def) (simp_all add: demoEntry_def Entry_Clear_def sized_def, code_simp+)
  then have "stateOk (snd ?r)" by (rule stateOk_Read)
  moreover have "aclOk (snd ?r)" "fst ?r = Inr ()" "Entry_Storage 9 (snd ?r) = Some (fabricEntries (snd ?r) 1 ! 1)"
    "fst ?d = Inr ()" "fabricEntries (snd ?d) 1 = fabricEntries (snd ?r) 1"
    "Entry_Storage 9 (snd ?d) = Some (fabricEntries (snd ?r) 1 ! 0)"
    "fabricEntries (snd ?r) 1 ! 0 \<noteq> fabricEntries (snd ?r) 1 ! 1"
    by code_simp+
  ultimately show ?thesis by (metis prod.collapse)
qed

end
