(* ===== verification/Peer_Counter.thy ===== *)
theory Peer_Counter
  imports Prelude
begin

text \<open>
  Message counters of \<^verbatim>\<open>src/transport\<close>: the sender side (\<open>GlobalUnencryptedMessageCounter\<close>
  and \<open>LocalSessionMessageCounter\<close> of \<^verbatim>\<open>MessageCounter.h\<close>) and the receiver side
  (\<open>PeerMessageCounter.h\<close>: the highest counter seen and a bit window over the 32 counters
  before it), with the verify-then-commit sequence of
  \<open>SessionManager::SecureUnicastMessageDispatch\<close>.  The locale \<open>replay_filter\<close> states what a
  receiver promises to the layers above (an accepted counter is never accepted again) and is
  interpreted on the unicast receiver.
\<close>

section \<open>Sender counters\<close>

definition kMessageCounterRandomInitMask :: u32 where
  "kMessageCounterRandomInitMask = 0x0FFFFFFF"

definition kMessageCounterMax :: u32 where
  "kMessageCounterMax = 0xFFFFFFFF"

text \<open>\<open>GetRandU32()\<close> is the argument \<open>rnd\<close>.\<close>

definition GetDefaultInitialValuePredecessor :: "u32 \<Rightarrow> u32" where
  "GetDefaultInitialValuePredecessor rnd = rnd AND kMessageCounterRandomInitMask"

text \<open>The state of both sender counters is \<open>mLastUsedValue\<close>.\<close>

definition GlobalUnencrypted_AdvanceAndConsume :: "u32 \<Rightarrow> u32 result \<times> u32" where
  "GlobalUnencrypted_AdvanceAndConsume mLastUsedValue =
     (let v = mLastUsedValue + 1 in (Inr v, v))"

definition LocalSession_AdvanceAndConsume :: "u32 \<Rightarrow> u32 result \<times> u32" where
  "LocalSession_AdvanceAndConsume mLastUsedValue =
     (if mLastUsedValue = kMessageCounterMax
      then (Inl CHIP_ERROR_MESSAGE_COUNTER_EXHAUSTED, mLastUsedValue)
      else (let v = mLastUsedValue + 1 in (Inr v, v)))"

text \<open>The counters handed out by \<open>n\<close> successive calls.\<close>

fun LocalSession_consume_n :: "nat \<Rightarrow> u32 \<Rightarrow> u32 list" where
  "LocalSession_consume_n 0 v0 = []"
| "LocalSession_consume_n (Suc n) v0 =
     (case LocalSession_AdvanceAndConsume v0 of
        (Inl e, v1) \<Rightarrow> LocalSession_consume_n n v1
      | (Inr v, v1) \<Rightarrow> v # LocalSession_consume_n n v1)"

section \<open>Receiver counter\<close>

definition CHIP_CONFIG_MESSAGE_COUNTER_WINDOW_SIZE :: nat where
  "CHIP_CONFIG_MESSAGE_COUNTER_WINDOW_SIZE = 32"

text \<open>
  \<open>std::bitset<32>\<close> is a 32-bit word: bit \<open>i\<close> of the window stands for the counter
  \<open>mMaxCounter - 1 - i\<close>.
\<close>

record synced =
  mMaxCounter :: u32
  mWindow :: u32

datatype peer_counter = NotSynced | SyncInProcess bytes | Synced synced

datatype position = BeforeWindow | InWindow | MaxCounter | FutureCounter

definition Reset :: "peer_counter \<Rightarrow> peer_counter" where
  "Reset pc = NotSynced"

definition SyncStarting :: "peer_counter \<Rightarrow> bytes \<Rightarrow> peer_counter result" where
  "SyncStarting pc challenge =
     (case pc of NotSynced \<Rightarrow> Inr (SyncInProcess challenge) | _ \<Rightarrow> Inl DIE)"

definition SyncFailed :: "peer_counter \<Rightarrow> peer_counter" where
  "SyncFailed pc = Reset pc"

definition VerifyChallenge :: "peer_counter \<Rightarrow> u32 \<Rightarrow> bytes \<Rightarrow> unit result \<times> peer_counter" where
  "VerifyChallenge pc counter challenge =
     (case pc of
        SyncInProcess mChallenge \<Rightarrow>
          (if mChallenge \<noteq> challenge then (Inl CHIP_ERROR_INVALID_ARGUMENT, pc)
           else (Inr (), Synced \<lparr>mMaxCounter = counter, mWindow = 0\<rparr>))
      | _ \<Rightarrow> (Inl CHIP_ERROR_INCORRECT_STATE, pc))"

definition SetCounter :: "peer_counter \<Rightarrow> u32 \<Rightarrow> peer_counter" where
  "SetCounter pc value = Synced \<lparr>mMaxCounter = value, mWindow = 0\<rparr>"

definition ClassifyNonFutureCounter :: "synced \<Rightarrow> u32 \<Rightarrow> position" where
  "ClassifyNonFutureCounter s counter =
     (if counter = mMaxCounter s then MaxCounter
      else (let offset = mMaxCounter s - counter in
        if unat offset \<le> CHIP_CONFIG_MESSAGE_COUNTER_WINDOW_SIZE then InWindow
        else BeforeWindow))"

definition ClassifyWithoutRollover :: "synced \<Rightarrow> u32 \<Rightarrow> position" where
  "ClassifyWithoutRollover s counter =
     (if counter > mMaxCounter s then FutureCounter else ClassifyNonFutureCounter s counter)"

definition futureCounterWindow :: u32 where
  "futureCounterWindow = push_bit 31 1 - 1"

definition ClassifyWithRollover :: "synced \<Rightarrow> u32 \<Rightarrow> position" where
  "ClassifyWithRollover s counter =
     (let counterIncrease = counter - mMaxCounter s in
      if counterIncrease \<ge> 1 \<and> counterIncrease \<le> futureCounterWindow then FutureCounter
      else ClassifyNonFutureCounter s counter)"

text \<open>\<open>mWindow.test(offset - 1)\<close> for the offset of a counter below the maximum.\<close>

definition windowTest :: "synced \<Rightarrow> u32 \<Rightarrow> bool" where
  "windowTest s counter = bit (mWindow s) (unat (mMaxCounter s - counter - 1))"

definition VerifyPositionEncrypted :: "synced \<Rightarrow> position \<Rightarrow> u32 \<Rightarrow> unit result" where
  "VerifyPositionEncrypted s pos counter =
     (case pos of
        FutureCounter \<Rightarrow> Inr ()
      | InWindow \<Rightarrow> (if windowTest s counter then Inl CHIP_ERROR_DUPLICATE_MESSAGE_RECEIVED else Inr ())
      | _ \<Rightarrow> Inl CHIP_ERROR_DUPLICATE_MESSAGE_RECEIVED)"

definition VerifyPositionUnencrypted :: "synced \<Rightarrow> position \<Rightarrow> u32 \<Rightarrow> unit result" where
  "VerifyPositionUnencrypted s pos counter =
     (case pos of
        MaxCounter \<Rightarrow> Inl CHIP_ERROR_DUPLICATE_MESSAGE_RECEIVED
      | InWindow \<Rightarrow> (if windowTest s counter then Inl CHIP_ERROR_DUPLICATE_MESSAGE_RECEIVED else Inr ())
      | _ \<Rightarrow> Inr ())"

definition VerifyGroup :: "peer_counter \<Rightarrow> u32 \<Rightarrow> unit result" where
  "VerifyGroup pc counter =
     (case pc of
        Synced s \<Rightarrow> VerifyPositionEncrypted s (ClassifyWithRollover s counter) counter
      | _ \<Rightarrow> Inl CHIP_ERROR_INCORRECT_STATE)"

definition VerifyOrTrustFirstGroup :: "peer_counter \<Rightarrow> u32 \<Rightarrow> unit result \<times> peer_counter" where
  "VerifyOrTrustFirstGroup pc counter =
     (case pc of
        NotSynced \<Rightarrow> (Inr (), SetCounter pc counter)
      | Synced s \<Rightarrow> (VerifyGroup pc counter, pc)
      | SyncInProcess _ \<Rightarrow> (Inl DIE, pc))"

definition VerifyEncryptedUnicast :: "peer_counter \<Rightarrow> u32 \<Rightarrow> unit result" where
  "VerifyEncryptedUnicast pc counter =
     (case pc of
        Synced s \<Rightarrow> VerifyPositionEncrypted s (ClassifyWithoutRollover s counter) counter
      | _ \<Rightarrow> Inl CHIP_ERROR_INCORRECT_STATE)"

definition VerifyUnencrypted :: "peer_counter \<Rightarrow> u32 \<Rightarrow> unit result \<times> peer_counter" where
  "VerifyUnencrypted pc counter =
     (case pc of
        NotSynced \<Rightarrow> (Inr (), SetCounter pc counter)
      | Synced s \<Rightarrow> (VerifyPositionUnencrypted s (ClassifyWithRollover s counter) counter, pc)
      | SyncInProcess _ \<Rightarrow> (Inl DIE, pc))"

definition CommitWithPosition :: "synced \<Rightarrow> position \<Rightarrow> u32 \<Rightarrow> synced" where
  "CommitWithPosition s pos counter =
     (case pos of
        InWindow \<Rightarrow> s\<lparr>mWindow := set_bit (unat (mMaxCounter s - counter - 1)) (mWindow s)\<rparr>
      | MaxCounter \<Rightarrow> s
      | _ \<Rightarrow> (let shift = counter - mMaxCounter s in
           \<lparr>mMaxCounter = counter,
            mWindow = (if unat shift > CHIP_CONFIG_MESSAGE_COUNTER_WINDOW_SIZE then 0
                       else set_bit (unat (shift - 1)) (push_bit (unat shift) (mWindow s)))\<rparr>))"

text \<open>The commits are only reached once synced; elsewhere they would write an inactive union
  member, and the model leaves the counter alone.\<close>

definition CommitWithRollover :: "peer_counter \<Rightarrow> u32 \<Rightarrow> peer_counter" where
  "CommitWithRollover pc counter =
     (case pc of Synced s \<Rightarrow> Synced (CommitWithPosition s (ClassifyWithRollover s counter) counter)
      | _ \<Rightarrow> pc)"

definition CommitWithoutRollover :: "peer_counter \<Rightarrow> u32 \<Rightarrow> peer_counter" where
  "CommitWithoutRollover pc counter =
     (case pc of Synced s \<Rightarrow> Synced (CommitWithPosition s (ClassifyWithoutRollover s counter) counter)
      | _ \<Rightarrow> pc)"

definition CommitGroup :: "peer_counter \<Rightarrow> u32 \<Rightarrow> peer_counter" where
  "CommitGroup = CommitWithRollover"

definition CommitEncryptedUnicast :: "peer_counter \<Rightarrow> u32 \<Rightarrow> peer_counter" where
  "CommitEncryptedUnicast = CommitWithoutRollover"

definition CommitUnencrypted :: "peer_counter \<Rightarrow> u32 \<Rightarrow> peer_counter" where
  "CommitUnencrypted = CommitWithRollover"

text \<open>
  The counter part of \<open>SessionManager::SecureUnicastMessageDispatch\<close> for a message that
  decrypted: verify, and commit unless it is a duplicate.  The result is \<open>Some\<close> of the
  duplicate flag the exchange layer is given, \<open>None\<close> when the message is dropped.
\<close>

definition unicastCounterDispatch ::
    "peer_counter \<Rightarrow> u32 \<Rightarrow> bool \<Rightarrow> bool option \<times> peer_counter" where
  "unicastCounterDispatch pc counter needsAck =
     (case VerifyEncryptedUnicast pc counter of
        Inl CHIP_ERROR_DUPLICATE_MESSAGE_RECEIVED \<Rightarrow>
          (if needsAck then Some True else None, pc)
      | Inl e \<Rightarrow> (None, pc)
      | Inr _ \<Rightarrow> (Some False, CommitEncryptedUnicast pc counter))"

fun unicastDispatch_all :: "peer_counter \<Rightarrow> (u32 \<times> bool) list \<Rightarrow> u32 list" where
  "unicastDispatch_all pc [] = []"
| "unicastDispatch_all pc ((c, needsAck) # ms) =
     (case unicastCounterDispatch pc c needsAck of
        (fresh, pc') \<Rightarrow>
          (if fresh = Some False then [c] else []) @ unicastDispatch_all pc' ms)"

text \<open>
  The counter part of \<open>SessionManager::SecureGroupMessageDispatch\<close> for messages of one peer
  that decrypted: trust the first counter, verify the others, commit what was accepted.
\<close>

definition groupCounterDispatch :: "peer_counter \<Rightarrow> u32 \<Rightarrow> bool \<times> peer_counter" where
  "groupCounterDispatch pc counter =
     (case VerifyOrTrustFirstGroup pc counter of
        (Inl e, pc') \<Rightarrow> (False, pc')
      | (Inr _, pc') \<Rightarrow> (True, CommitGroup pc' counter))"

fun groupDispatch_all :: "peer_counter \<Rightarrow> u32 list \<Rightarrow> u32 list" where
  "groupDispatch_all pc [] = []"
| "groupDispatch_all pc (c # cs) =
     (case groupCounterDispatch pc c of
        (fresh, pc') \<Rightarrow> (if fresh then [c] else []) @ groupDispatch_all pc' cs)"

text \<open>
  The counter part of \<open>SessionManager::UnauthenticatedMessageDispatch\<close>: duplicates are passed
  on with the duplicate flag, anything else is committed.
\<close>

definition unauthenticatedCounterDispatch ::
    "peer_counter \<Rightarrow> u32 \<Rightarrow> bool result \<times> peer_counter" where
  "unauthenticatedCounterDispatch pc counter =
     (case VerifyUnencrypted pc counter of
        (Inl e, pc') \<Rightarrow>
          (if e = CHIP_ERROR_DUPLICATE_MESSAGE_RECEIVED then Inr True else Inl e, pc')
      | (Inr _, pc') \<Rightarrow> (Inr False, CommitUnencrypted pc' counter))"

section \<open>The contract of a replay filter\<close>

text \<open>
  A receiver offers \<open>accepts\<close> (is this counter new?) and \<open>commit\<close> (record it).  Two laws make
  it a replay filter: committing an accepted counter makes it unacceptable, and no later
  accepted commit makes a rejected counter acceptable again.
\<close>

locale replay_filter =
  fixes ok :: "'s \<Rightarrow> bool"
    and accepts :: "'s \<Rightarrow> 'c \<Rightarrow> bool"
    and commit :: "'s \<Rightarrow> 'c \<Rightarrow> 's"
  assumes ok_commit: "ok s \<Longrightarrow> accepts s c \<Longrightarrow> ok (commit s c)"
    and commit_rejects: "ok s \<Longrightarrow> accepts s c \<Longrightarrow> \<not> accepts (commit s c) c"
    and commit_keeps_rejected:
      "ok s \<Longrightarrow> accepts s c \<Longrightarrow> \<not> accepts s d \<Longrightarrow> \<not> accepts (commit s c) d"
begin

fun run :: "'s \<Rightarrow> 'c list \<Rightarrow> 'c list" where
  "run s [] = []"
| "run s (c # cs) = (if accepts s c then c # run (commit s c) cs else run s cs)"

lemma rejected_never_accepted: "ok s \<Longrightarrow> \<not> accepts s d \<Longrightarrow> d \<notin> set (run s cs)"
  by (induction cs arbitrary: s) (auto simp: ok_commit commit_keeps_rejected)

lemma run_distinct: "ok s \<Longrightarrow> distinct (run s cs)"
  by (induction cs arbitrary: s) (auto simp: ok_commit commit_rejects rejected_never_accepted)

end

section \<open>Refinement to a set of seen counters\<close>

text \<open>
  The abstract receiver remembers the highest counter and the set of all counters it has
  accepted; it accepts a counter above the highest one, or one at most 32 below it that it
  has not seen.
\<close>

record seen_set =
  highest :: nat
  seen :: "nat set"

definition spec_accepts :: "seen_set \<Rightarrow> nat \<Rightarrow> bool" where
  "spec_accepts sp c \<longleftrightarrow> highest sp < c \<or> (highest sp - c \<le> 32 \<and> c \<notin> seen sp)"

definition spec_commit :: "seen_set \<Rightarrow> nat \<Rightarrow> seen_set" where
  "spec_commit sp c = \<lparr>highest = max (highest sp) c, seen = insert c (seen sp)\<rparr>"

definition window_rel :: "peer_counter \<Rightarrow> seen_set \<Rightarrow> bool" where
  "window_rel pc sp \<longleftrightarrow>
     (\<exists>s. pc = Synced s \<and> highest sp = unat (mMaxCounter s) \<and> highest sp \<in> seen sp \<and>
       (\<forall>c\<in>seen sp. c \<le> highest sp) \<and>
       (\<forall>c < highest sp. highest sp - c \<le> 32 \<longrightarrow>
          bit (mWindow s) (highest sp - c - 1) = (c \<in> seen sp)))"

lemma unat_diff_below:
  fixes m c :: u32
  assumes "c < m"
  shows "unat (m - c) = unat m - unat c" "unat (m - c - 1) = unat m - unat c - 1"
proof -
  show a: "unat (m - c) = unat m - unat c"
    using assms by (simp add: unat_sub order.strict_implies_order)
  have "unat c < unat m" using assms by (simp add: word_less_nat_alt)
  then have "1 \<le> m - c" using a by (simp add: word_le_nat_alt)
  then show "unat (m - c - 1) = unat m - unat c - 1"
    using a by (simp add: unat_sub)
qed

lemma VerifyEncryptedUnicast_iff:
  "VerifyEncryptedUnicast (Synced s) c = Inr () \<longleftrightarrow>
     unat (mMaxCounter s) < unat c \<or>
     (unat c < unat (mMaxCounter s) \<and> unat (mMaxCounter s) - unat c \<le> 32 \<and>
      \<not> bit (mWindow s) (unat (mMaxCounter s) - unat c - 1))"
proof -
  consider "mMaxCounter s < c" | "c = mMaxCounter s" | "c < mMaxCounter s"
    by (meson linorder_less_linear)
  then show ?thesis
  proof cases
    case 1
    then show ?thesis
      by (simp add: VerifyEncryptedUnicast_def ClassifyWithoutRollover_def
          VerifyPositionEncrypted_def word_less_nat_alt)
  next
    case 2
    then show ?thesis
      by (simp add: VerifyEncryptedUnicast_def ClassifyWithoutRollover_def
          VerifyPositionEncrypted_def ClassifyNonFutureCounter_def)
  next
    case 3
    then have "\<not> mMaxCounter s < c" "c \<noteq> mMaxCounter s" "unat c < unat (mMaxCounter s)"
      by (auto simp: word_less_nat_alt)
    with 3 show ?thesis
      by (simp add: VerifyEncryptedUnicast_def ClassifyWithoutRollover_def
          VerifyPositionEncrypted_def ClassifyNonFutureCounter_def Let_def windowTest_def
          unat_diff_below CHIP_CONFIG_MESSAGE_COUNTER_WINDOW_SIZE_def)
  qed
qed

lemma window_rel_start: "window_rel (SetCounter pc v) \<lparr>highest = unat v, seen = {unat v}\<rparr>"
  by (auto simp: window_rel_def SetCounter_def)

lemma window_rel_exists: "\<exists>sp. window_rel (Synced s) sp"
proof -
  let ?m = "unat (mMaxCounter s)"
  let ?S = "insert ?m {c. c < ?m \<and> bit (mWindow s) (?m - c - 1)}"
  have "window_rel (Synced s) \<lparr>highest = ?m, seen = ?S\<rparr>"
    by (auto simp: window_rel_def)
  then show ?thesis ..
qed

lemma window_rel_accepts:
  assumes "window_rel pc sp"
  shows "VerifyEncryptedUnicast pc c = Inr () \<longleftrightarrow> spec_accepts sp (unat c)"
proof -
  obtain s where s: "pc = Synced s" "highest sp = unat (mMaxCounter s)" "highest sp \<in> seen sp"
    "\<forall>c < highest sp. highest sp - c \<le> 32 \<longrightarrow> bit (mWindow s) (highest sp - c - 1) = (c \<in> seen sp)"
    using assms by (auto simp: window_rel_def)
  consider "highest sp < unat c" | "unat c = highest sp" | "unat c < highest sp" by linarith
  then show ?thesis
    by cases (use s in \<open>auto simp: VerifyEncryptedUnicast_iff spec_accepts_def\<close>)
qed

lemma window_rel_commit_future:
  assumes rel: "window_rel (Synced s) sp" and fut: "mMaxCounter s < c"
  shows "window_rel (Synced (CommitWithPosition s FutureCounter c)) (spec_commit sp (unat c))"
proof -
  let ?m = "unat (mMaxCounter s)" and ?c = "unat c"
  let ?k = "?c - ?m"
  have mc: "?m < ?c" using fut by (simp add: word_less_nat_alt)
  have k: "unat (c - mMaxCounter s) = ?k" "unat (c - mMaxCounter s - 1) = ?k - 1"
    using unat_diff_below [OF fut] by auto
  have h: "highest sp = ?m" and hm: "?m \<in> seen sp" and below: "\<And>d. d \<in> seen sp \<Longrightarrow> d \<le> ?m"
    and win: "\<And>d. d < ?m \<Longrightarrow> ?m - d \<le> 32 \<Longrightarrow> bit (mWindow s) (?m - d - 1) = (d \<in> seen sp)"
    using rel by (auto simp: window_rel_def)
  let ?w = "mWindow (CommitWithPosition s FutureCounter c)"
  have w: "?w = (if ?k > 32 then 0 else set_bit (?k - 1) (push_bit ?k (mWindow s)))"
    by (simp add: CommitWithPosition_def Let_def k CHIP_CONFIG_MESSAGE_COUNTER_WINDOW_SIZE_def)
  have bits: "bit ?w (?c - d - 1) = (d \<in> insert ?c (seen sp))" if d: "d < ?c" "?c - d \<le> 32" for d
  proof (cases "?k > 32")
    case True
    then have "d \<notin> seen sp" using d mc below [of d] by linarith
    with True d show ?thesis by (simp add: w)
  next
    case False
    consider "d < ?m" | "d = ?m" | "?m < d" by linarith
    then show ?thesis
    proof cases
      case 1
      then have "?c - d - 1 \<noteq> ?k - 1" "?k \<le> ?c - d - 1" "?c - d - 1 - ?k = ?m - d - 1" "?c - d - 1 < 32"
        using mc d by linarith+
      then show ?thesis using False 1 d win [of d] mc
        by (simp add: w bit_set_bit_iff bit_push_bit_iff)
    next
      case 2
      then have "?c - d - 1 = ?k - 1" "?c - d - 1 < 32" using mc d by linarith+
      then show ?thesis using False 2 hm by (simp add: w bit_set_bit_iff)
    next
      case 3
      then have "?c - d - 1 \<noteq> ?k - 1" "\<not> ?k \<le> ?c - d - 1" "d \<notin> seen sp"
        using mc d below [of d] by linarith+
      then show ?thesis using False d by (simp add: w bit_set_bit_iff bit_push_bit_iff)
    qed
  qed
  have "mMaxCounter (CommitWithPosition s FutureCounter c) = c"
    by (simp add: CommitWithPosition_def Let_def)
  then show ?thesis
    using bits mc h below by (auto simp: window_rel_def spec_commit_def max_def intro: less_imp_le le_less_trans)
qed

lemma window_rel_commit_past:
  assumes rel: "window_rel (Synced s) sp" and c: "c < mMaxCounter s" and near: "unat (mMaxCounter s) - unat c \<le> 32"
  shows "window_rel (Synced (CommitWithPosition s InWindow c)) (spec_commit sp (unat c))"
proof -
  let ?m = "unat (mMaxCounter s)"
  have mc: "unat c < ?m" using c by (simp add: word_less_nat_alt)
  have w: "CommitWithPosition s InWindow c = s\<lparr>mWindow := set_bit (?m - unat c - 1) (mWindow s)\<rparr>"
    using unat_diff_below [OF c] by (simp add: CommitWithPosition_def)
  have "bit (set_bit (?m - unat c - 1) (mWindow s)) (?m - d - 1) = (d \<in> insert (unat c) (seen sp))"
    if d: "d < ?m" "?m - d \<le> 32" for d
  proof -
    have "?m - d - 1 = ?m - unat c - 1 \<longleftrightarrow> d = unat c" "?m - d - 1 < 32"
      using d mc by linarith+
    moreover have "bit (mWindow s) (?m - d - 1) = (d \<in> seen sp)"
      using rel d by (auto simp: window_rel_def)
    ultimately show ?thesis by (auto simp: bit_set_bit_iff)
  qed
  then show ?thesis
    using rel mc by (auto simp: w window_rel_def spec_commit_def max_def)
qed

lemma window_rel_commit:
  assumes rel: "window_rel pc sp" and ok: "VerifyEncryptedUnicast pc c = Inr ()"
  shows "window_rel (CommitEncryptedUnicast pc c) (spec_commit sp (unat c))"
proof -
  obtain s where s: "pc = Synced s" using rel by (auto simp: window_rel_def)
  show ?thesis
  proof (cases "mMaxCounter s < c")
    case True
    then show ?thesis
      using window_rel_commit_future [of s sp c] rel
      by (simp add: s CommitEncryptedUnicast_def CommitWithoutRollover_def ClassifyWithoutRollover_def)
  next
    case False
    then have "c < mMaxCounter s" "unat (mMaxCounter s) - unat c \<le> 32"
      using ok by (auto simp: s VerifyEncryptedUnicast_iff word_less_nat_alt)
    moreover from this have "ClassifyWithoutRollover s c = InWindow"
      by (auto simp: ClassifyWithoutRollover_def ClassifyNonFutureCounter_def Let_def unat_diff_below
          CHIP_CONFIG_MESSAGE_COUNTER_WINDOW_SIZE_def)
    ultimately show ?thesis
      using window_rel_commit_past [of s sp c] rel
      by (simp add: s CommitEncryptedUnicast_def CommitWithoutRollover_def)
  qed
qed

section \<open>The unicast receiver is a replay filter\<close>

definition isSynced :: "peer_counter \<Rightarrow> bool" where
  "isSynced pc = (case pc of Synced _ \<Rightarrow> True | _ \<Rightarrow> False)"

lemma isSynced_rel: "isSynced pc \<longleftrightarrow> (\<exists>sp. window_rel pc sp)"
proof
  assume "isSynced pc"
  then show "\<exists>sp. window_rel pc sp"
    using window_rel_exists by (auto simp: isSynced_def split: peer_counter.splits)
qed (auto simp: isSynced_def window_rel_def)

lemma spec_commit_rejects: "c \<in> seen (spec_commit sp c) \<and> \<not> spec_accepts (spec_commit sp c) c"
  by (auto simp: spec_commit_def spec_accepts_def)

lemma spec_commit_keeps_rejected: "\<not> spec_accepts sp d \<Longrightarrow> \<not> spec_accepts (spec_commit sp c) d"
  by (auto simp: spec_commit_def spec_accepts_def)

interpretation unicast: replay_filter isSynced "\<lambda>pc c. VerifyEncryptedUnicast pc c = Inr ()" CommitEncryptedUnicast
proof unfold_locales
  fix pc :: peer_counter and c d :: u32
  assume "isSynced pc" and acc: "VerifyEncryptedUnicast pc c = Inr ()"
  then obtain sp where rel: "window_rel pc sp" by (auto simp: isSynced_rel)
  note rel' = window_rel_commit [OF rel acc]
  show "isSynced (CommitEncryptedUnicast pc c)" using rel' by (auto simp: isSynced_rel)
  show "VerifyEncryptedUnicast (CommitEncryptedUnicast pc c) c \<noteq> Inr ()"
    using window_rel_accepts [OF rel'] spec_commit_rejects by simp
  assume "VerifyEncryptedUnicast pc d \<noteq> Inr ()"
  then show "VerifyEncryptedUnicast (CommitEncryptedUnicast pc c) d \<noteq> Inr ()"
    using window_rel_accepts [OF rel'] window_rel_accepts [OF rel] spec_commit_keeps_rejected by simp
qed

lemma unicastDispatch_all_run:
  "isSynced pc \<Longrightarrow> unicastDispatch_all pc ms = unicast.run pc (map fst ms)"
proof (induction ms arbitrary: pc)
  case Nil
  then show ?case by simp
next
  case (Cons m ms)
  obtain c ack where m: "m = (c, ack)" by (cases m)
  show ?case
  proof (cases "VerifyEncryptedUnicast pc c")
    case (Inl e)
    then show ?thesis
      using Cons by (cases e) (auto simp: m unicastCounterDispatch_def)
  next
    case (Inr u)
    then have "VerifyEncryptedUnicast pc c = Inr ()" by simp
    moreover from this have "isSynced (CommitEncryptedUnicast pc c)"
      using Cons.prems by (simp add: unicast.ok_commit)
    ultimately show ?thesis
      using Cons.IH by (auto simp: m unicastCounterDispatch_def)
  qed
qed

section \<open>Group receivers: the window across the 32-bit rollover\<close>

text \<open>
  Seen from a base counter \<open>b\<close>, as long as all counters lie in the \<open>2 ^ 31\<close> values from \<open>b\<close>
  on, the rollover-aware receiver behaves as the unicast receiver on the distances from \<open>b\<close>.
\<close>

definition from_base :: "u32 \<Rightarrow> peer_counter \<Rightarrow> peer_counter" where
  "from_base b pc =
     (case pc of Synced s \<Rightarrow> Synced (s\<lparr>mMaxCounter := mMaxCounter s - b\<rparr>) | _ \<Rightarrow> pc)"

definition in_span :: "u32 \<Rightarrow> u32 \<Rightarrow> bool" where
  "in_span b c \<longleftrightarrow> unat (c - b) < 2 ^ 31"

definition group_ok :: "u32 \<Rightarrow> peer_counter \<Rightarrow> bool" where
  "group_ok b pc = (case pc of Synced s \<Rightarrow> in_span b (mMaxCounter s) | _ \<Rightarrow> False)"

lemma futureCounterWindow_val: "futureCounterWindow = 0x7FFFFFFF"
  by (simp add: futureCounterWindow_def)

lemma rollover_future_iff:
  fixes m c :: u32
  assumes "unat m < 2 ^ 31" "unat c < 2 ^ 31"
  shows "(1 \<le> c - m \<and> c - m \<le> futureCounterWindow) = (m < c)"
proof -
  have w: "unat futureCounterWindow = 2147483647" by (simp add: futureCounterWindow_val)
  have d: "unat (c - m) = (if unat m \<le> unat c then unat c - unat m
                            else unat c + 4294967296 - unat m)"
    by (simp add: unat_sub_if')
  have b: "unat m < 2147483648" "unat c < 2147483648" using assms by simp_all
  show ?thesis
    unfolding word_le_nat_alt word_less_nat_alt w d using b by auto
qed

lemma base_cancel:
  fixes m c b :: u32
  shows "m - b - (c - b) = m - c"
  by simp

lemma classify_from_base:
  assumes "in_span b (mMaxCounter s)" "in_span b c"
  shows "ClassifyWithRollover s c
           = ClassifyWithoutRollover (s\<lparr>mMaxCounter := mMaxCounter s - b\<rparr>) (c - b)"
proof -
  have "(1 \<le> c - mMaxCounter s \<and> c - mMaxCounter s \<le> futureCounterWindow)
          = (mMaxCounter s - b < c - b)"
    using rollover_future_iff [of "mMaxCounter s - b" "c - b"] assms
    unfolding in_span_def base_cancel by blast
  moreover have "ClassifyNonFutureCounter (s\<lparr>mMaxCounter := mMaxCounter s - b\<rparr>) (c - b)
                   = ClassifyNonFutureCounter s c"
    by (cases s) (simp add: ClassifyNonFutureCounter_def Let_def)
  ultimately show ?thesis
    by (cases s) (simp only: ClassifyWithRollover_def ClassifyWithoutRollover_def Let_def
        synced.select_convs synced.update_convs)
qed

lemma position_from_base:
  "VerifyPositionEncrypted (s\<lparr>mMaxCounter := mMaxCounter s - b\<rparr>) pos (c - b)
     = VerifyPositionEncrypted s pos c"
  by (cases s; cases pos) (simp_all only: VerifyPositionEncrypted_def position.case windowTest_def
      synced.select_convs synced.update_convs base_cancel)

lemma commit_from_base:
  "CommitWithPosition (s\<lparr>mMaxCounter := mMaxCounter s - b\<rparr>) pos (c - b)
     = (CommitWithPosition s pos c)
         \<lparr>mMaxCounter := mMaxCounter (CommitWithPosition s pos c) - b\<rparr>"
  by (cases s; cases pos) (simp_all only: CommitWithPosition_def position.case Let_def
      synced.select_convs synced.update_convs base_cancel)

lemma group_from_base:
  assumes "group_ok b pc" "in_span b c"
  shows "VerifyGroup pc c = VerifyEncryptedUnicast (from_base b pc) (c - b)"
    and "from_base b (CommitGroup pc c) = CommitEncryptedUnicast (from_base b pc) (c - b)"
    and "group_ok b (CommitGroup pc c)"
proof -
  obtain s where s: "pc = Synced s" "in_span b (mMaxCounter s)"
    using assms(1) by (auto simp: group_ok_def split: peer_counter.splits)
  note cl = classify_from_base [OF s(2) assms(2)]
  show "VerifyGroup pc c = VerifyEncryptedUnicast (from_base b pc) (c - b)"
    by (simp only: s(1) VerifyGroup_def VerifyEncryptedUnicast_def from_base_def cl
        peer_counter.case position_from_base)
  show "from_base b (CommitGroup pc c) = CommitEncryptedUnicast (from_base b pc) (c - b)"
    by (simp only: s(1) CommitGroup_def CommitEncryptedUnicast_def CommitWithRollover_def
        CommitWithoutRollover_def from_base_def cl peer_counter.case commit_from_base)
  show "group_ok b (CommitGroup pc c)"
    using s assms(2) by (simp add: CommitGroup_def CommitWithRollover_def group_ok_def
        CommitWithPosition_def Let_def split: position.splits)
qed

interpretation group: replay_filter "group_ok b"
    "\<lambda>pc c. in_span b c \<and> VerifyGroup pc c = Inr ()" CommitGroup for b
proof unfold_locales
  fix pc :: peer_counter and c d :: u32
  assume ok: "group_ok b pc" and acc: "in_span b c \<and> VerifyGroup pc c = Inr ()"
  have sy: "isSynced (from_base b pc)"
    using ok by (auto simp: group_ok_def isSynced_def from_base_def split: peer_counter.splits)
  have ac: "VerifyEncryptedUnicast (from_base b pc) (c - b) = Inr ()"
    using group_from_base(1) [OF ok, of c] acc by simp
  note comm = group_from_base(2,3) [OF ok, of c]
  show ok': "group_ok b (CommitGroup pc c)" using comm acc by simp
  show "\<not> (in_span b c \<and> VerifyGroup (CommitGroup pc c) c = Inr ())"
    using group_from_base(1) [OF ok', of c] comm acc unicast.commit_rejects [OF sy ac] by simp
  assume "\<not> (in_span b d \<and> VerifyGroup pc d = Inr ())"
  then show "\<not> (in_span b d \<and> VerifyGroup (CommitGroup pc c) d = Inr ())"
    using group_from_base(1) [OF ok', of d] group_from_base(1) [OF ok, of d] comm acc
      unicast.commit_keeps_rejected [OF sy ac, of "d - b"] by auto
qed

lemma groupDispatch_all_run:
  assumes "group_ok b pc" "\<forall>c\<in>set cs. in_span b c"
  shows "groupDispatch_all pc cs = group.run b pc cs"
  using assms
proof (induction cs arbitrary: pc)
  case Nil
  then show ?case by simp
next
  case (Cons c cs)
  from Cons.prems obtain s where s: "pc = Synced s"
    by (auto simp: group_ok_def split: peer_counter.splits)
  have c: "in_span b c" using Cons.prems by simp
  show ?case
  proof (cases "VerifyGroup pc c")
    case (Inl e)
    then show ?thesis
      using Cons by (auto simp: groupCounterDispatch_def VerifyOrTrustFirstGroup_def s)
  next
    case (Inr u)
    then have "VerifyGroup pc c = Inr ()" by simp
    then show ?thesis
      using Cons.IH [of "CommitGroup pc c"] Cons.prems c group_from_base(3) [OF Cons.prems(1) c]
      by (auto simp: groupCounterDispatch_def VerifyOrTrustFirstGroup_def s)
  qed
qed

lemma groupDispatch_first:
  "groupDispatch_all NotSynced (c # cs) = c # groupDispatch_all (SetCounter NotSynced c) cs"
  by (simp add: groupCounterDispatch_def VerifyOrTrustFirstGroup_def SetCounter_def CommitGroup_def
      CommitWithRollover_def ClassifyWithRollover_def ClassifyNonFutureCounter_def
      CommitWithPosition_def)

lemma group_first_rejected: "VerifyGroup (SetCounter pc c) c \<noteq> Inr ()"
  by (simp add: VerifyGroup_def SetCounter_def ClassifyWithRollover_def
      ClassifyNonFutureCounter_def VerifyPositionEncrypted_def)

lemma groupDispatch_distinct:
  assumes "\<forall>c\<in>set cs. in_span b c"
  shows "distinct (groupDispatch_all NotSynced cs)"
proof (cases cs)
  case (Cons c0 cs')
  have ok: "group_ok b (SetCounter NotSynced c0)"
    using assms Cons by (simp add: group_ok_def SetCounter_def)
  have "groupDispatch_all (SetCounter NotSynced c0) cs' = group.run b (SetCounter NotSynced c0) cs'"
    using groupDispatch_all_run [OF ok] assms Cons by simp
  then show ?thesis
    using group.run_distinct [OF ok] group.rejected_never_accepted [OF ok, of c0] group_first_rejected
    unfolding Cons groupDispatch_first by simp
qed simp

section \<open>In-order delivery\<close>

lemma LocalSession_advance:
  assumes "LocalSession_AdvanceAndConsume v0 = (Inr v, v1)"
  shows "unat v = Suc (unat v0) \<and> v1 = v"
proof -
  have ne: "v0 \<noteq> kMessageCounterMax" and v: "v = v0 + 1" "v1 = v"
    using assms by (auto simp: LocalSession_AdvanceAndConsume_def Let_def split: if_splits)
  have "1 + v0 \<noteq> 0"
  proof
    assume "1 + v0 = 0"
    then have "v0 = - 1" by (simp add: eq_neg_iff_add_eq_0 add.commute)
    with ne show False by (simp add: kMessageCounterMax_def)
  qed
  then show ?thesis using v by (simp add: unatSuc add.commute)
qed

lemma LocalSession_consume_n_Suc:
  "LocalSession_consume_n (Suc n) v0 =
     (if v0 = kMessageCounterMax then LocalSession_consume_n n v0
      else (v0 + 1) # LocalSession_consume_n n (v0 + 1))"
  by (simp add: LocalSession_AdvanceAndConsume_def Let_def)

lemma dispatch_in_order:
  assumes "mMaxCounter s \<le> v0"
  shows "unicastDispatch_all (Synced s) (map (\<lambda>c. (c, ack)) (LocalSession_consume_n n v0))
           = LocalSession_consume_n n v0"
  using assms
proof (induction n arbitrary: s v0)
  case 0
  then show ?case by simp
next
  case (Suc n)
  show ?case
  proof (cases "LocalSession_AdvanceAndConsume v0")
    case (Pair r v1)
    show ?thesis
    proof (cases r)
      case (Inl e)
      then have "v1 = v0"
        using Pair by (auto simp: LocalSession_AdvanceAndConsume_def Let_def split: if_splits)
      then show ?thesis using Pair Inl Suc by simp
    next
      case (Inr v)
      then have v: "unat v = Suc (unat v0)" "v1 = v"
        using LocalSession_advance Pair by auto
      then have fut: "mMaxCounter s < v"
        using Suc.prems by (simp add: word_less_nat_alt word_le_nat_alt)
      then have acc: "VerifyEncryptedUnicast (Synced s) v = Inr ()"
        by (simp add: VerifyEncryptedUnicast_iff word_less_nat_alt)
      have "CommitEncryptedUnicast (Synced s) v = Synced (CommitWithPosition s FutureCounter v)"
        using fut by (simp add: CommitEncryptedUnicast_def CommitWithoutRollover_def
            ClassifyWithoutRollover_def)
      moreover have "mMaxCounter (CommitWithPosition s FutureCounter v) \<le> v1"
        using v by (simp add: CommitWithPosition_def Let_def)
      ultimately show ?thesis
        using Suc.IH [of "CommitWithPosition s FutureCounter v" v1] Pair Inr acc
        by (simp add: unicastCounterDispatch_def)
    qed
  qed
qed

section \<open>Unencrypted sessions\<close>

lemma classify_ignores_window: "ClassifyWithRollover (s\<lparr>mWindow := w\<rparr>) c = ClassifyWithRollover s c"
  by (cases s) (simp add: ClassifyWithRollover_def ClassifyNonFutureCounter_def Let_def)

lemma committed_unencrypted_is_duplicate:
  "VerifyUnencrypted (CommitUnencrypted (Synced s) c) c
     = (Inl CHIP_ERROR_DUPLICATE_MESSAGE_RECEIVED, CommitUnencrypted (Synced s) c)"
proof (cases "ClassifyWithRollover s c = InWindow")
  case True
  let ?s = "CommitWithPosition s InWindow c"
  have ne: "c \<noteq> mMaxCounter s" and near: "unat (mMaxCounter s - c) \<le> 32"
    using True by (auto simp: ClassifyWithRollover_def ClassifyNonFutureCounter_def Let_def
        CHIP_CONFIG_MESSAGE_COUNTER_WINDOW_SIZE_def split: if_splits)
  have "unat (mMaxCounter s - c - 1) < 32"
    using near ne by (simp add: unat_minus_one)
  then have "windowTest ?s c"
    by (simp add: windowTest_def CommitWithPosition_def bit_set_bit_iff)
  moreover have "ClassifyWithRollover ?s c = InWindow"
    using True by (simp add: classify_ignores_window CommitWithPosition_def)
  ultimately show ?thesis
    using True by (simp add: VerifyUnencrypted_def CommitUnencrypted_def CommitWithRollover_def
        VerifyPositionUnencrypted_def)
next
  case False
  let ?s = "CommitWithPosition s (ClassifyWithRollover s c) c"
  have "ClassifyWithRollover s c = MaxCounter \<Longrightarrow> mMaxCounter s = c"
    by (auto simp: ClassifyWithRollover_def ClassifyNonFutureCounter_def Let_def split: if_splits)
  then have "mMaxCounter ?s = c"
    using False by (cases "ClassifyWithRollover s c") (auto simp: CommitWithPosition_def Let_def)
  then have "ClassifyWithRollover ?s c = MaxCounter"
    by (simp add: ClassifyWithRollover_def ClassifyNonFutureCounter_def)
  then show ?thesis
    by (simp add: VerifyUnencrypted_def CommitUnencrypted_def CommitWithRollover_def
        VerifyPositionUnencrypted_def)
qed

section \<open>Properties\<close>

text \<open>
  C3. No replay on a unicast session: whatever sequence of counters arrives (reordered,
  duplicated or forged, with or without an acknowledgement request), the counters handed to
  the exchange layer as fresh are pairwise distinct, and none is the counter the session was
  initialised with.
\<close>

theorem unicast_no_replay:
  "distinct (unicastDispatch_all (SetCounter pc v) ms) \<and>
   v \<notin> set (unicastDispatch_all (SetCounter pc v) ms)"
proof -
  have s: "isSynced (SetCounter pc v)" by (simp add: isSynced_def SetCounter_def)
  have "VerifyEncryptedUnicast (SetCounter pc v) v \<noteq> Inr ()"
    by (simp add: SetCounter_def VerifyEncryptedUnicast_iff)
  then show ?thesis
    using unicast.run_distinct [OF s] unicast.rejected_never_accepted [OF s]
    by (simp add: unicastDispatch_all_run [OF s])
qed

text \<open>
  C8. The bit window refines a set: against the receiver that remembers every counter it ever
  accepted, the window gives the same verdict on every counter, and committing an accepted
  counter keeps the two in step.
\<close>

theorem unicast_window_refines_seen_set:
  assumes "window_rel pc sp"
  shows "(VerifyEncryptedUnicast pc c = Inr () \<longleftrightarrow> spec_accepts sp (unat c)) \<and>
         (spec_accepts sp (unat c) \<longrightarrow>
            window_rel (CommitEncryptedUnicast pc c) (spec_commit sp (unat c)))"
  using window_rel_accepts [OF assms] window_rel_commit [OF assms] by blast

theorem unicast_window_refines_seen_set_witness:
  "window_rel (SetCounter NotSynced 7) \<lparr>highest = 7, seen = {7}\<rparr> \<and>
   VerifyEncryptedUnicast (SetCounter NotSynced 7) 9 = Inr () \<and>
   window_rel (CommitEncryptedUnicast (SetCounter NotSynced 7) 9)
     (spec_commit \<lparr>highest = 7, seen = {7}\<rparr> 9)"
proof -
  have r: "window_rel (SetCounter NotSynced 7) \<lparr>highest = 7, seen = {7}\<rparr>"
    using window_rel_start [of NotSynced 7] by simp
  have "spec_accepts \<lparr>highest = 7, seen = {7}\<rparr> 9" by (simp add: spec_accepts_def)
  then show ?thesis
    using unicast_window_refines_seen_set [OF r, of 9] r by simp
qed

text \<open>
  No replay on a group session, across the rollover of the 32-bit counter: from the first
  trusted message on, as long as all counters lie in one span of \<open>2 ^ 31\<close> consecutive
  values (modulo \<open>2 ^ 32\<close>), no counter is accepted twice.
\<close>

theorem group_no_replay:
  assumes "\<forall>c\<in>set cs. in_span b c"
  shows "distinct (groupDispatch_all NotSynced cs)"
  by (rule groupDispatch_distinct [OF assms])

theorem group_no_replay_witness:
  "groupDispatch_all NotSynced [0xFFFFFFFE, 1, 0xFFFFFFFF, 1, 0xFFFFFFFE] = [0xFFFFFFFE, 1, 0xFFFFFFFF] \<and>
   distinct (groupDispatch_all NotSynced [0xFFFFFFFE, 1, 0xFFFFFFFF, 1, 0xFFFFFFFE])"
proof -
  have h: "\<forall>c\<in>set [0xFFFFFFFE, 1, 0xFFFFFFFF, 1, 0xFFFFFFFE]. in_span 0xFFFFFFF0 c"
    by (simp add: in_span_def)
  have "groupDispatch_all NotSynced [0xFFFFFFFE, 1, 0xFFFFFFFF, 1, 0xFFFFFFFE] = [0xFFFFFFFE, 1, 0xFFFFFFFF]"
    by code_simp
  with group_no_replay [OF h] show ?thesis by blast
qed

text \<open>
  Nothing is lost without reordering: the counters a session hands out are strictly
  increasing, and a receiver whose highest counter is not above the sender's last used value
  accepts every one of them when they arrive in order.
\<close>

theorem in_order_delivery:
  assumes "mMaxCounter s \<le> v0"
  shows "unicastDispatch_all (Synced s) (map (\<lambda>c. (c, ack)) (LocalSession_consume_n n v0))
           = LocalSession_consume_n n v0 \<and>
         sorted_wrt (<) (LocalSession_consume_n n v0)"
proof -
  have low: "\<forall>v\<in>set (LocalSession_consume_n n v0). v0 < v" for n v0
  proof (induction n arbitrary: v0)
    case (Suc n)
    have "v0 \<noteq> kMessageCounterMax \<Longrightarrow> v0 < v0 + 1"
      using LocalSession_advance [of v0 "v0 + 1" "v0 + 1"]
      by (simp add: LocalSession_AdvanceAndConsume_def word_less_nat_alt Let_def)
    then show ?case
      using Suc [of v0] Suc [of "v0 + 1"]
      by (auto simp: LocalSession_consume_n_Suc intro: less_trans simp del: LocalSession_consume_n.simps)
  qed simp
  have "sorted_wrt (<) (LocalSession_consume_n n v0)" for n v0
  proof (induction n arbitrary: v0)
    case (Suc n)
    then show ?case using low
      by (auto simp: LocalSession_consume_n_Suc simp del: LocalSession_consume_n.simps)
  qed simp
  then show ?thesis using dispatch_in_order [OF assms] by blast
qed

theorem in_order_delivery_witness:
  "unicastDispatch_all (Synced \<lparr>mMaxCounter = 0, mWindow = 0\<rparr>)
     (map (\<lambda>c. (c, True)) (LocalSession_consume_n 3 5)) = [6, 7, 8]"
proof -
  have "LocalSession_consume_n 3 5 = [6, 7, 8]" by code_simp
  then show ?thesis
    using in_order_delivery [of "\<lparr>mMaxCounter = 0, mWindow = 0\<rparr>" 5 True 3] by simp
qed

text \<open>
  On an unauthenticated session a retransmission of the message just processed is always
  passed on as a duplicate, without changing the counter state; this also holds for counters
  far behind the window, which the session accepts as a restart of the peer.
\<close>

theorem unauthenticated_retransmission_is_duplicate:
  assumes "unauthenticatedCounterDispatch pc c = (Inr dup, pc')"
  shows "unauthenticatedCounterDispatch pc' c = (Inr True, pc')"
proof (cases "fst (VerifyUnencrypted pc c)")
  case (Inl e)
  then have v: "VerifyUnencrypted pc c = (Inl e, pc)"
    by (cases pc) (simp_all add: VerifyUnencrypted_def)
  then have "e = CHIP_ERROR_DUPLICATE_MESSAGE_RECEIVED" "pc' = pc"
    using assms by (simp_all add: unauthenticatedCounterDispatch_def split: if_splits)
  then show ?thesis using v by (simp add: unauthenticatedCounterDispatch_def)
next
  case (Inr u)
  then obtain s where "VerifyUnencrypted pc c = (Inr (), Synced s)"
    by (cases pc) (auto simp: VerifyUnencrypted_def SetCounter_def)
  then have "pc' = CommitUnencrypted (Synced s) c"
    using assms by (simp add: unauthenticatedCounterDispatch_def)
  then show ?thesis
    using committed_unencrypted_is_duplicate [of s c] by (simp add: unauthenticatedCounterDispatch_def)
qed

theorem unauthenticated_retransmission_is_duplicate_witness:
  "unauthenticatedCounterDispatch (SetCounter NotSynced 1000) 3
     = (Inr False, Synced \<lparr>mMaxCounter = 3, mWindow = 0\<rparr>) \<and>
   unauthenticatedCounterDispatch (Synced \<lparr>mMaxCounter = 3, mWindow = 0\<rparr>) 3
     = (Inr True, Synced \<lparr>mMaxCounter = 3, mWindow = 0\<rparr>)"
proof -
  have h: "unauthenticatedCounterDispatch (SetCounter NotSynced 1000) 3
             = (Inr False, Synced \<lparr>mMaxCounter = 3, mWindow = 0\<rparr>)"
    by (simp add: unauthenticatedCounterDispatch_def VerifyUnencrypted_def SetCounter_def
        VerifyPositionUnencrypted_def CommitUnencrypted_def CommitWithRollover_def
        ClassifyWithRollover_def futureCounterWindow_val ClassifyNonFutureCounter_def
        CommitWithPosition_def CHIP_CONFIG_MESSAGE_COUNTER_WINDOW_SIZE_def)
  then show ?thesis using unauthenticated_retransmission_is_duplicate [OF h] by simp
qed

end
