(* ===== verification/Storage.thy ===== *)
theory Storage
  imports Peer_Counter
begin

text \<open>
  Counters that survive a reboot.  The interface \<open>PersistentStorageDelegate\<close>
  (\<^verbatim>\<open>src/lib/core/CHIPPersistentStorageDelegate.h\<close>) is the locale \<open>kv_storage\<close>, interpreted on
  the in-memory delegate of \<^verbatim>\<open>src/lib/support/TestPersistentStorageDelegate.h\<close>.  Its clients
  are \<open>PersistedCounter\<close> (\<^verbatim>\<open>src/lib/support/PersistedCounter.h\<close>) and
  \<open>GroupOutgoingCounters\<close> (\<^verbatim>\<open>src/transport/GroupPeerMessageCounter.cpp\<close>); both write a value
  ahead of the counters they hand out, so that no counter is handed out twice across reboots.
\<close>

section \<open>The in-memory delegate\<close>

record storage =
  mStorage :: "(string \<times> bytes) list"
  mPoisonKeys :: "string list"

text \<open>
  \<open>SyncGetKeyValue(key, buffer, size)\<close> for a non-null buffer; \<open>Inr v\<close> are the bytes copied to
  the buffer, the size being updated to their number.
\<close>

definition SyncGetKeyValue :: "storage \<Rightarrow> string \<Rightarrow> nat \<Rightarrow> bytes result" where
  "SyncGetKeyValue st key bufSize =
     (if key \<in> set (mPoisonKeys st) then Inl CHIP_ERROR_PERSISTED_STORAGE_FAILED
      else case map_of (mStorage st) key of
        None \<Rightarrow> Inl CHIP_ERROR_PERSISTED_STORAGE_VALUE_NOT_FOUND
      | Some value \<Rightarrow>
          (if int (length value) > 65535 then Inl CHIP_ERROR_PERSISTED_STORAGE_FAILED
           else if bufSize < length value then Inl CHIP_ERROR_BUFFER_TOO_SMALL
           else Inr value))"

definition SyncSetKeyValue :: "storage \<Rightarrow> string \<Rightarrow> bytes \<Rightarrow> unit result \<times> storage" where
  "SyncSetKeyValue st key value =
     (if key \<in> set (mPoisonKeys st) then (Inl CHIP_ERROR_PERSISTED_STORAGE_FAILED, st)
      else (Inr (), st\<lparr>mStorage := (key, value) # filter (\<lambda>e. fst e \<noteq> key) (mStorage st)\<rparr>))"

definition SyncDeleteKeyValue :: "storage \<Rightarrow> string \<Rightarrow> unit result \<times> storage" where
  "SyncDeleteKeyValue st key =
     (if key \<in> set (mPoisonKeys st) then (Inl CHIP_ERROR_PERSISTED_STORAGE_FAILED, st)
      else case map_of (mStorage st) key of
        None \<Rightarrow> (Inl CHIP_ERROR_PERSISTED_STORAGE_VALUE_NOT_FOUND, st)
      | Some _ \<Rightarrow> (Inr (), st\<lparr>mStorage := filter (\<lambda>e. fst e \<noteq> key) (mStorage st)\<rparr>))"

section \<open>The storage contract\<close>

text \<open>
  What the clients rely on: a successful write is read back, and a write touches no other key.
\<close>

locale kv_storage =
  fixes getKV :: "'s \<Rightarrow> string \<Rightarrow> nat \<Rightarrow> bytes result"
    and putKV :: "'s \<Rightarrow> string \<Rightarrow> bytes \<Rightarrow> unit result \<times> 's"
  assumes get_put: "putKV s k v = (Inr (), s') \<Longrightarrow> length v < 2 ^ 16 \<Longrightarrow> length v \<le> n \<Longrightarrow> getKV s' k n = Inr v"
    and get_put_other: "putKV s k v = (r, s') \<Longrightarrow> k' \<noteq> k \<Longrightarrow> getKV s' k' n = getKV s k' n"

lemma map_of_filter_other: "k \<noteq> k' \<Longrightarrow> map_of (filter (\<lambda>e. fst e \<noteq> k') xs) k = map_of xs k"
  by (induction xs) auto

interpretation test_storage: kv_storage SyncGetKeyValue SyncSetKeyValue
proof unfold_locales
  fix s s' :: storage and k k' :: string and v :: bytes and n and r
  show "SyncGetKeyValue s' k n = Inr v"
    if "SyncSetKeyValue s k v = (Inr (), s')" "length v < 2 ^ 16" "length v \<le> n"
    using that by (auto simp: SyncSetKeyValue_def SyncGetKeyValue_def split: if_splits)
  show "SyncGetKeyValue s' k' n = SyncGetKeyValue s k' n"
    if "SyncSetKeyValue s k v = (r, s')" "k' \<noteq> k"
    using that by (auto simp: SyncSetKeyValue_def SyncGetKeyValue_def map_of_filter_other
        split: if_splits)
qed

section \<open>Write-ahead counters\<close>

text \<open>
  A counter over a sequence of events: an event that \<open>uses\<close> the counter hands out \<open>cur\<close> and
  moves it up; any other event (a reboot) may move it up too, by at most \<open>epoch\<close>.  The laws
  hold below \<open>limit\<close>, where the fixed-width counter has not wrapped.  A step that failed is
  \<open>None\<close>.
\<close>

locale write_ahead =
  fixes inv :: "'t \<Rightarrow> bool"
    and cur :: "'t \<Rightarrow> nat"
    and step :: "'e \<Rightarrow> 't \<Rightarrow> 't option"
    and uses :: "'e \<Rightarrow> bool"
    and epoch limit :: nat
  assumes step_inv: "inv t \<Longrightarrow> cur t < limit \<Longrightarrow> step e t = Some t' \<Longrightarrow> inv t'"
    and step_up: "inv t \<Longrightarrow> cur t < limit \<Longrightarrow> step e t = Some t' \<Longrightarrow> cur t \<le> cur t' \<and> cur t' \<le> cur t + epoch"
    and step_use: "inv t \<Longrightarrow> cur t < limit \<Longrightarrow> step e t = Some t' \<Longrightarrow> uses e \<Longrightarrow> cur t < cur t'"
begin

fun handed_out :: "'t \<Rightarrow> 'e list \<Rightarrow> nat list option" where
  "handed_out t [] = Some []"
| "handed_out t (e # es) =
     (case step e t of
        None \<Rightarrow> None
      | Some t' \<Rightarrow> map_option (\<lambda>vs. if uses e then cur t # vs else vs) (handed_out t' es))"

lemma handed_out_increasing:
  assumes "inv t" "cur t + epoch * length es < limit" "handed_out t es = Some vs"
  shows "sorted_wrt (<) vs \<and> (\<forall>v\<in>set vs. cur t \<le> v)"
  using assms
proof (induction es arbitrary: t vs)
  case Nil
  then show ?case by simp
next
  case (Cons e es)
  then obtain t' vs' where st: "step e t = Some t'" and h: "handed_out t' es = Some vs'"
    and vs: "vs = (if uses e then cur t # vs' else vs')"
    by (auto split: option.splits)
  have lim: "cur t < limit" using Cons.prems(2) by simp
  note up = step_up [OF Cons.prems(1) lim st]
  have "cur t' + epoch * length es < limit" using up Cons.prems(2) by simp
  then have "sorted_wrt (<) vs' \<and> (\<forall>v\<in>set vs'. cur t' \<le> v)"
    using Cons.IH [OF step_inv [OF Cons.prems(1) lim st] _ h] by simp
  then show ?case
    using up step_use [OF Cons.prems(1) lim st] vs by (force split: if_splits)
qed

end

section \<open>PersistedCounter\<close>

text \<open>\<open>T\<close> is the type \<open>'a word\<close>; its size in bytes is \<open>LENGTH('a) div 8\<close>.\<close>

record 'v persisted =
  mCounterValue :: 'v
  mKey :: string
  mEpoch :: 'v
  mNextEpoch :: 'v

definition PersistNextEpochStart ::
    "('s \<Rightarrow> string \<Rightarrow> bytes \<Rightarrow> unit result \<times> 's) \<Rightarrow> 'a::len word persisted \<Rightarrow> 's \<Rightarrow> 'a word
       \<Rightarrow> unit result \<times> 'a word persisted \<times> 's" where
  "PersistNextEpochStart putKV p st aStartValue =
     (let p' = p\<lparr>mNextEpoch := aStartValue\<rparr>
      in case putKV st (mKey p') (le_bytes (LENGTH('a) div 8) aStartValue) of
           (r, st') \<Rightarrow> (r, p', st'))"

definition ReadStartValue ::
    "('s \<Rightarrow> string \<Rightarrow> nat \<Rightarrow> bytes result) \<Rightarrow> 'a::len word persisted \<Rightarrow> 's \<Rightarrow> 'a word result" where
  "ReadStartValue getKV p st =
     verify (mKey p \<noteq> []) CHIP_ERROR_INCORRECT_STATE
       (case getKV st (mKey p) (LENGTH('a) div 8) of
          Inl e \<Rightarrow> (if e = CHIP_ERROR_PERSISTED_STORAGE_VALUE_NOT_FOUND then Inr 0 else Inl e)
        | Inr v \<Rightarrow> (if length v \<noteq> LENGTH('a) div 8 then Inl CHIP_ERROR_INCORRECT_STATE
                   else Inr (le_word v)))"

definition PersistedCounter_Init ::
    "('s \<Rightarrow> string \<Rightarrow> nat \<Rightarrow> bytes result) \<Rightarrow> ('s \<Rightarrow> string \<Rightarrow> bytes \<Rightarrow> unit result \<times> 's)
       \<Rightarrow> 'a::len word persisted \<Rightarrow> 's \<Rightarrow> string \<Rightarrow> 'a word \<Rightarrow> unit result \<times> 'a word persisted \<times> 's" where
  "PersistedCounter_Init getKV putKV p st aKey aEpoch =
     (if aKey = [] then (Inl CHIP_ERROR_INVALID_ARGUMENT, p, st)
      else if \<not> aEpoch > 0 then (Inl CHIP_ERROR_INVALID_INTEGER_VALUE, p, st)
      else (let p1 = p\<lparr>mKey := aKey, mEpoch := aEpoch\<rparr> in
        case ReadStartValue getKV p1 st of
          Inl e \<Rightarrow> (Inl e, p1, st)
        | Inr startValue \<Rightarrow>
            (case PersistNextEpochStart putKV p1 st (startValue + aEpoch) of
               (Inl e, p2, st2) \<Rightarrow> (Inl e, p2, st2)
             | (Inr _, p2, st2) \<Rightarrow> (Inr (), p2\<lparr>mCounterValue := startValue\<rparr>, st2))))"

definition PersistedCounter_Advance ::
    "('s \<Rightarrow> string \<Rightarrow> bytes \<Rightarrow> unit result \<times> 's) \<Rightarrow> 'a::len word persisted \<Rightarrow> 's
       \<Rightarrow> unit result \<times> 'a word persisted \<times> 's" where
  "PersistedCounter_Advance putKV p st =
     (if mKey p = [] then (Inl CHIP_ERROR_INCORRECT_STATE, p, st)
      else (let p1 = p\<lparr>mCounterValue := mCounterValue p + 1\<rparr> in
        if mCounterValue p1 \<ge> mNextEpoch p1 then
          (case PersistNextEpochStart putKV p1 st (mNextEpoch p1 + mEpoch p1) of
             (Inl e, p2, st2) \<Rightarrow> (Inl e, p2, st2)
           | (Inr _, p2, st2) \<Rightarrow>
               (if mCounterValue p2 < mNextEpoch p2 then Inr () else Inl CHIP_ERROR_INTERNAL, p2, st2))
        else (Inr (), p1, st)))"

text \<open>
  Using the counter reads its value and advances it; a reboot initialises a new object on the
  same storage.
\<close>

datatype persisted_event = UseCounter | RebootCounter

definition persisted_step ::
    "('s \<Rightarrow> string \<Rightarrow> nat \<Rightarrow> bytes result) \<Rightarrow> ('s \<Rightarrow> string \<Rightarrow> bytes \<Rightarrow> unit result \<times> 's)
       \<Rightarrow> persisted_event \<Rightarrow> 'a::len word persisted \<times> 's \<Rightarrow> ('a word persisted \<times> 's) option" where
  "persisted_step getKV putKV e = (\<lambda>(p, st).
     case (case e of
             UseCounter \<Rightarrow> PersistedCounter_Advance putKV p st
           | RebootCounter \<Rightarrow> PersistedCounter_Init getKV putKV
               \<lparr>mCounterValue = 0, mKey = [], mEpoch = 0, mNextEpoch = 0\<rparr> st (mKey p) (mEpoch p)) of
       (Inl _, _) \<Rightarrow> None
     | (Inr _, t') \<Rightarrow> Some t')"

fun persisted_run ::
    "('s \<Rightarrow> string \<Rightarrow> nat \<Rightarrow> bytes result) \<Rightarrow> ('s \<Rightarrow> string \<Rightarrow> bytes \<Rightarrow> unit result \<times> 's)
       \<Rightarrow> 'a::len word persisted \<times> 's \<Rightarrow> persisted_event list \<Rightarrow> 'a word list option" where
  "persisted_run getKV putKV t [] = Some []"
| "persisted_run getKV putKV t (e # es) =
     (case persisted_step getKV putKV e t of
        None \<Rightarrow> None
      | Some t' \<Rightarrow> map_option (\<lambda>vs. if e = UseCounter then mCounterValue (fst t) # vs else vs)
                     (persisted_run getKV putKV t' es))"

definition persisted_ok ::
    "('s \<Rightarrow> string \<Rightarrow> nat \<Rightarrow> bytes result) \<Rightarrow> string \<Rightarrow> 'a::len word \<Rightarrow> 'a word persisted \<times> 's \<Rightarrow> bool" where
  "persisted_ok getKV k e = (\<lambda>(p, st).
     8 dvd LENGTH('a) \<and> LENGTH('a) < 2 ^ 16 \<and> mKey p = k \<and> k \<noteq> [] \<and> mEpoch p = e \<and> 0 < e \<and>
     getKV st k (LENGTH('a) div 8) = Inr (le_bytes (LENGTH('a) div 8) (mNextEpoch p)) \<and>
     unat (mCounterValue p) < unat (mNextEpoch p) \<and>
     unat (mNextEpoch p) \<le> unat (mCounterValue p) + unat e)"

lemma sorted_unat:
  fixes vs :: "'a::len word list"
  shows "sorted_wrt (<) (map unat vs) \<Longrightarrow> sorted_wrt (<) vs"
  unfolding sorted_wrt_map by (erule sorted_wrt_mono_rel [rotated]) (simp add: word_less_nat_alt)

lemma unat_plus_below:
  fixes a b :: "'a::len word"
  shows "unat a + unat b < 2 ^ LENGTH('a) \<Longrightarrow> unat (a + b) = unat a + unat b"
  using unat_add_lem by blast

lemma unat_Suc_below:
  fixes a :: "'a::len word"
  shows "Suc (unat a) < 2 ^ LENGTH('a) \<Longrightarrow> unat (a + 1) = Suc (unat a)"
  using unat_plus_below [of a 1] by simp

context kv_storage
begin

lemma persist_reads_back:
  fixes p :: "'a::len word persisted"
  assumes "PersistNextEpochStart putKV p st v = (Inr u, p', st')" "8 dvd LENGTH('a)" "LENGTH('a) < 2 ^ 16"
  shows "p' = p\<lparr>mNextEpoch := v\<rparr> \<and>
         getKV st' (mKey p) (LENGTH('a) div 8) = Inr (le_bytes (LENGTH('a) div 8) v)"
  using assms by (auto simp: PersistNextEpochStart_def Let_def split: prod.splits intro!: get_put)

lemma persisted_advance_ok:
  fixes p :: "'a::len word persisted"
  assumes ok: "persisted_ok getKV k e (p, st)"
    and lim: "unat (mCounterValue p) < 2 ^ LENGTH('a) - 2 * unat e"
    and adv: "PersistedCounter_Advance putKV p st = (Inr u, p', st')"
  shows "persisted_ok getKV k e (p', st') \<and> unat (mCounterValue p') = Suc (unat (mCounterValue p))"
proof -
  have e: "0 < unat e" using ok by (simp add: persisted_ok_def word_less_nat_alt)
  have c1: "unat (mCounterValue p + 1) = Suc (unat (mCounterValue p))"
    using lim e by (intro unat_Suc_below) linarith
  have ne: "unat (mNextEpoch p + e) = unat (mNextEpoch p) + unat e"
    using lim ok by (intro unat_plus_below) (auto simp: persisted_ok_def)
  show ?thesis
  proof (cases "mNextEpoch p \<le> mCounterValue p + 1")
    case False
    then show ?thesis
      using adv ok c1 by (auto simp: PersistedCounter_Advance_def Let_def persisted_ok_def word_le_nat_alt)
  next
    case True
    let ?p = "p\<lparr>mCounterValue := mCounterValue p + 1\<rparr>"
    from True adv ok have per: "PersistNextEpochStart putKV ?p st (mNextEpoch p + e) = (Inr (), p', st')"
      by (auto simp: PersistedCounter_Advance_def Let_def persisted_ok_def
          split: prod.splits sum.splits if_splits)
    have "p' = ?p\<lparr>mNextEpoch := mNextEpoch p + e\<rparr>"
      and "getKV st' k (LENGTH('a) div 8) = Inr (le_bytes (LENGTH('a) div 8) (mNextEpoch p + e))"
      using persist_reads_back [OF per] ok by (auto simp: persisted_ok_def)
    then show ?thesis
      using ok c1 ne True e by (auto simp: persisted_ok_def word_le_nat_alt)
  qed
qed

lemma persisted_init_ok:
  fixes p :: "'a::len word persisted"
  assumes ok: "persisted_ok getKV k e (p, st)"
    and lim: "unat (mCounterValue p) < 2 ^ LENGTH('a) - 2 * unat e"
    and ini: "PersistedCounter_Init getKV putKV p0 st (mKey p) (mEpoch p) = (Inr u, p', st')"
  shows "persisted_ok getKV k e (p', st') \<and> mCounterValue p' = mNextEpoch p"
proof -
  have key: "mKey p = k" "k \<noteq> []" "mEpoch p = e" "0 < e" and L: "8 dvd LENGTH('a)" "LENGTH('a) < 2 ^ 16"
    using ok by (auto simp: persisted_ok_def)
  let ?p = "p0\<lparr>mKey := k, mEpoch := e\<rparr>"
  have "ReadStartValue getKV ?p st = Inr (mNextEpoch p)"
    using ok L by (simp add: ReadStartValue_def persisted_ok_def)
  then obtain p2 where per: "PersistNextEpochStart putKV ?p st (mNextEpoch p + e) = (Inr (), p2, st')"
    and p': "p' = p2\<lparr>mCounterValue := mNextEpoch p\<rparr>"
    using ini key by (auto simp: PersistedCounter_Init_def Let_def split: prod.splits sum.splits)
  have ne: "unat (mNextEpoch p + e) = unat (mNextEpoch p) + unat e"
    using lim ok by (intro unat_plus_below) (auto simp: persisted_ok_def)
  have "p2 = ?p\<lparr>mNextEpoch := mNextEpoch p + e\<rparr>"
    and "getKV st' k (LENGTH('a) div 8) = Inr (le_bytes (LENGTH('a) div 8) (mNextEpoch p + e))"
    using persist_reads_back [OF per L] by auto
  then show ?thesis
    using key L ne by (auto simp: persisted_ok_def p' word_less_nat_alt)
qed

end

sublocale kv_storage \<subseteq> persisted: write_ahead "persisted_ok getKV k e"
    "\<lambda>t. unat (mCounterValue (fst t))" "persisted_step getKV putKV" "\<lambda>ev. ev = UseCounter"
    "unat e" "2 ^ LENGTH('a) - 2 * unat (e :: 'a::len word)" for k and e :: "'a::len word"
proof unfold_locales
  fix t t' :: "'a word persisted \<times> 's" and ev
  assume inv: "persisted_ok getKV k e t"
    and lim: "unat (mCounterValue (fst t)) < 2 ^ LENGTH('a) - 2 * unat e"
    and st: "persisted_step getKV putKV ev t = Some t'"
  obtain p s p' s' where t: "t = (p, s)" "t' = (p', s')" by (cases t; cases t')
  have "persisted_ok getKV k e t' \<and>
        (if ev = UseCounter then unat (mCounterValue p') = Suc (unat (mCounterValue p))
         else mCounterValue p' = mNextEpoch p)"
  proof (cases ev)
    case UseCounter
    then have "PersistedCounter_Advance putKV p s = (Inr (), p', s')"
      using st t by (auto simp: persisted_step_def split: prod.splits sum.splits)
    then show ?thesis
      using persisted_advance_ok [of k e p s] inv lim UseCounter unfolding t fst_conv by simp
  next
    case RebootCounter
    then obtain p0 where "PersistedCounter_Init getKV putKV p0 s (mKey p) (mEpoch p) = (Inr (), p', s')"
      using st t by (auto simp: persisted_step_def split: prod.splits sum.splits)
    then show ?thesis
      using persisted_init_ok [of k e p s p0] inv lim RebootCounter unfolding t fst_conv by simp
  qed
  moreover have "unat (mCounterValue p) < unat (mNextEpoch p)"
    "unat (mNextEpoch p) \<le> unat (mCounterValue p) + unat e"
    using inv t by (auto simp: persisted_ok_def)
  ultimately show "persisted_ok getKV k e t'"
    "unat (mCounterValue (fst t)) \<le> unat (mCounterValue (fst t')) \<and>
     unat (mCounterValue (fst t')) \<le> unat (mCounterValue (fst t)) + unat e"
    "ev = UseCounter \<Longrightarrow> unat (mCounterValue (fst t)) < unat (mCounterValue (fst t'))"
    by (auto simp: t split: if_splits)
qed

context kv_storage
begin

lemma persisted_run_handed_out:
  fixes e :: "'a::len word" and t :: "'a word persisted \<times> 's"
  shows "map_option (map unat) (persisted_run getKV putKV t es)
     = persisted.handed_out t es"
proof (induction es arbitrary: t)
  case (Cons ev es)
  show ?case
    by (cases "ev = UseCounter")
      (simp_all add: Cons.IH [symmetric] option.map_comp o_def split: option.splits)
qed simp

lemma persisted_increasing:
  fixes t :: "'a::len word persisted \<times> 's"
  assumes "persisted_ok getKV k e t"
    and "unat (mCounterValue (fst t)) + unat e * (length es + 2) < 2 ^ LENGTH('a)"
    and "persisted_run getKV putKV t es = Some vs"
  shows "sorted_wrt (<) vs"
proof -
  have "persisted.handed_out t es = Some (map unat vs)"
    using persisted_run_handed_out [of t es] assms(3) by simp
  moreover have "unat (mCounterValue (fst t)) + unat e * length es < 2 ^ LENGTH('a) - 2 * unat e"
    using assms(2) by (simp add: algebra_simps)
  ultimately have "sorted_wrt (<) (map unat vs)"
    using persisted.handed_out_increasing [OF assms(1)] by blast
  then show ?thesis by (rule sorted_unat)
qed

lemma persisted_first_init:
  fixes e :: "'a::len word"
  assumes "8 dvd LENGTH('a)" "LENGTH('a) < 2 ^ 16"
    and nf: "getKV st k (LENGTH('a) div 8) = Inl CHIP_ERROR_PERSISTED_STORAGE_VALUE_NOT_FOUND"
    and ini: "PersistedCounter_Init getKV putKV p0 st k e = (Inr u, p, st')"
  shows "persisted_ok getKV k e (p, st') \<and> mCounterValue p = 0"
proof -
  have k: "k \<noteq> []" "0 < e"
    using ini by (auto simp: PersistedCounter_Init_def split: if_splits)
  let ?p = "p0\<lparr>mKey := k, mEpoch := e\<rparr>"
  have "ReadStartValue getKV ?p st = Inr 0"
    using nf k by (simp add: ReadStartValue_def)
  then obtain p2 where per: "PersistNextEpochStart putKV ?p st (0 + e) = (Inr (), p2, st')"
    and p: "p = p2\<lparr>mCounterValue := 0\<rparr>"
    using ini k by (auto simp: PersistedCounter_Init_def Let_def split: prod.splits sum.splits)
  then show ?thesis
    using persist_reads_back [OF per assms(1,2)] k assms
    by (auto simp: persisted_ok_def word_less_nat_alt)
qed

end

section \<open>Outgoing group counters\<close>

definition GROUP_MSG_COUNTER_MIN_INCREMENT :: u32 where
  "GROUP_MSG_COUNTER_MIN_INCREMENT = 1000"

text \<open>\<open>mStorage\<close> is the delegate pointer; the model keeps whether it is set.\<close>

record outgoing =
  mGroupDataCounter :: u32
  mGroupControlCounter :: u32
  storageSet :: bool

definition counterKey :: "bool \<Rightarrow> string" where
  "counterKey isControl = (if isControl then ''g/gcc'' else ''g/gdc'')"

text \<open>
  Reading the stored bytes into the local \<open>temp\<close> overwrites as many of its bytes as were
  stored; \<open>junk\<close> is what it held before.  The second component of \<open>initialGroupCounter\<close> is
  \<open>temp\<close> afterwards.
\<close>

definition loadTemp :: "u32 \<Rightarrow> bytes \<Rightarrow> u32" where
  "loadTemp junk v = le_word (v @ drop (length v) (le_bytes 4 junk))"

definition initialGroupCounter ::
    "('s \<Rightarrow> string \<Rightarrow> nat \<Rightarrow> bytes result) \<Rightarrow> 's \<Rightarrow> bool \<Rightarrow> u32 \<Rightarrow> u32 \<Rightarrow> (u32 \<times> u32) result" where
  "initialGroupCounter getKV st isControl rnd junk =
     (case getKV st (counterKey isControl) 4 of
        Inl e \<Rightarrow> (if e = CHIP_ERROR_PERSISTED_STORAGE_VALUE_NOT_FOUND
                  then Inr ((rnd AND kMessageCounterRandomInitMask) + 1, junk) else Inl e)
      | Inr v \<Rightarrow> (let temp = loadTemp junk v in Inr (temp, temp)))"

text \<open>\<open>rndC\<close> and \<open>rndD\<close> are the values of the two calls of \<open>GetRandU32\<close>.\<close>

definition GroupOutgoingCounters_Init ::
    "('s \<Rightarrow> string \<Rightarrow> nat \<Rightarrow> bytes result) \<Rightarrow> ('s \<Rightarrow> string \<Rightarrow> bytes \<Rightarrow> unit result \<times> 's)
       \<Rightarrow> u32 \<Rightarrow> u32 \<Rightarrow> u32 \<Rightarrow> outgoing \<Rightarrow> 's \<Rightarrow> unit result \<times> outgoing \<times> 's" where
  "GroupOutgoingCounters_Init getKV putKV rndC rndD junk g st =
     (let g0 = g\<lparr>storageSet := True\<rparr> in
      case initialGroupCounter getKV st True rndC junk of
        Inl e \<Rightarrow> (Inl e, g0, st)
      | Inr (c, temp) \<Rightarrow>
        (let g1 = g0\<lparr>mGroupControlCounter := c\<rparr> in
         case initialGroupCounter getKV st False rndD temp of
           Inl e \<Rightarrow> (Inl e, g1, st)
         | Inr (d, _) \<Rightarrow>
           (let g2 = g1\<lparr>mGroupDataCounter := d\<rparr> in
            case putKV st (counterKey True) (le_bytes 4 (c + GROUP_MSG_COUNTER_MIN_INCREMENT)) of
              (Inl e, st1) \<Rightarrow> (Inl e, g2, st1)
            | (Inr _, st1) \<Rightarrow>
              (case putKV st1 (counterKey False) (le_bytes 4 (d + GROUP_MSG_COUNTER_MIN_INCREMENT)) of
                 (r, st2) \<Rightarrow> (r, g2, st2)))))"

definition GetCounter :: "outgoing \<Rightarrow> bool \<Rightarrow> u32" where
  "GetCounter g isControl = (if isControl then mGroupControlCounter g else mGroupDataCounter g)"

definition IncrementCounter ::
    "('s \<Rightarrow> string \<Rightarrow> nat \<Rightarrow> bytes result) \<Rightarrow> ('s \<Rightarrow> string \<Rightarrow> bytes \<Rightarrow> unit result \<times> 's)
       \<Rightarrow> bool \<Rightarrow> outgoing \<Rightarrow> 's \<Rightarrow> unit result \<times> outgoing \<times> 's" where
  "IncrementCounter getKV putKV isControl g st =
     (let g' = (if isControl then g\<lparr>mGroupControlCounter := mGroupControlCounter g + 1\<rparr>
                else g\<lparr>mGroupDataCounter := mGroupDataCounter g + 1\<rparr>);
          val = GetCounter g' isControl in
      if \<not> storageSet g' then (Inl CHIP_ERROR_PERSISTED_STORAGE_VALUE_NOT_FOUND, g', st)
      else case getKV st (counterKey isControl) 4 of
        Inl e \<Rightarrow> (Inl e, g', st)
      | Inr v \<Rightarrow>
          (if loadTemp 0 v = val
           then (case putKV st (counterKey isControl) (le_bytes 4 (val + GROUP_MSG_COUNTER_MIN_INCREMENT)) of
                   (r, st') \<Rightarrow> (r, g', st'))
           else (Inr (), g', st)))"

text \<open>
  The group part of \<open>SessionManager::PrepareMessage\<close> puts \<open>GetCounter\<close> into the header and
  calls \<open>IncrementCounter\<close>, whose result it ignores; \<open>SessionManager::Init\<close> runs at boot.
  A run returns the counters used, with their kind, and whether all storage calls succeeded.
\<close>

datatype group_event = SendGroup bool | RebootGroup u32 u32 u32

definition outgoing_reset :: outgoing where
  "outgoing_reset = \<lparr>mGroupDataCounter = 0, mGroupControlCounter = 0, storageSet = False\<rparr>"

definition outgoing_event ::
    "('s \<Rightarrow> string \<Rightarrow> nat \<Rightarrow> bytes result) \<Rightarrow> ('s \<Rightarrow> string \<Rightarrow> bytes \<Rightarrow> unit result \<times> 's)
       \<Rightarrow> group_event \<Rightarrow> outgoing \<times> 's \<Rightarrow> unit result \<times> outgoing \<times> 's" where
  "outgoing_event getKV putKV ev = (\<lambda>(g, st).
     case ev of
       SendGroup isControl \<Rightarrow> IncrementCounter getKV putKV isControl g st
     | RebootGroup rndC rndD junk \<Rightarrow> GroupOutgoingCounters_Init getKV putKV rndC rndD junk outgoing_reset st)"

fun outgoing_run ::
    "('s \<Rightarrow> string \<Rightarrow> nat \<Rightarrow> bytes result) \<Rightarrow> ('s \<Rightarrow> string \<Rightarrow> bytes \<Rightarrow> unit result \<times> 's)
       \<Rightarrow> outgoing \<times> 's \<Rightarrow> group_event list \<Rightarrow> (bool \<times> u32) list \<times> bool" where
  "outgoing_run getKV putKV t [] = ([], True)"
| "outgoing_run getKV putKV t (ev # evs) =
     (case outgoing_event getKV putKV ev t of
        (r, t') \<Rightarrow>
          (case outgoing_run getKV putKV t' evs of
             (us, ok) \<Rightarrow>
               ((case ev of SendGroup isControl \<Rightarrow> (isControl, GetCounter (fst t) isControl) # us
                 | _ \<Rightarrow> us), isOk r \<and> ok)))"

definition out_ok :: "('s \<Rightarrow> string \<Rightarrow> nat \<Rightarrow> bytes result) \<Rightarrow> bool \<Rightarrow> outgoing \<times> 's \<Rightarrow> bool" where
  "out_ok getKV c = (\<lambda>(g, st). storageSet g \<and>
     (\<exists>v :: u32. getKV st (counterKey c) 4 = Inr (le_bytes 4 v) \<and>
        unat (GetCounter g c) < unat v \<and> unat v \<le> unat (GetCounter g c) + 1000))"

definition outgoing_step ::
    "('s \<Rightarrow> string \<Rightarrow> nat \<Rightarrow> bytes result) \<Rightarrow> ('s \<Rightarrow> string \<Rightarrow> bytes \<Rightarrow> unit result \<times> 's)
       \<Rightarrow> group_event \<Rightarrow> outgoing \<times> 's \<Rightarrow> (outgoing \<times> 's) option" where
  "outgoing_step getKV putKV ev t =
     (case outgoing_event getKV putKV ev t of (Inl _, _) \<Rightarrow> None | (Inr _, t') \<Rightarrow> Some t')"

lemma counterKey_inj [simp]: "counterKey a = counterKey b \<longleftrightarrow> a = b"
  by (auto simp: counterKey_def)

lemma loadTemp_le_bytes [simp]: "loadTemp junk (le_bytes 4 v) = v"
  by (simp add: loadTemp_def)

lemma unat_increment [simp]: "unat GROUP_MSG_COUNTER_MIN_INCREMENT = 1000"
  by (simp add: GROUP_MSG_COUNTER_MIN_INCREMENT_def)

lemma GetCounter_increment:
  "GetCounter (if a then g\<lparr>mGroupControlCounter := mGroupControlCounter g + 1\<rparr>
               else g\<lparr>mGroupDataCounter := mGroupDataCounter g + 1\<rparr>) c
     = (if a = c then GetCounter g c + 1 else GetCounter g c)"
  by (auto simp: GetCounter_def)

context kv_storage
begin

lemma IncrementCounter_ok:
  assumes ok: "out_ok getKV c (g, st)" and lim: "unat (GetCounter g c) < 2 ^ 32 - 2000"
    and inc: "IncrementCounter getKV putKV a g st = (Inr u, g', st')"
  shows "out_ok getKV c (g', st') \<and>
         unat (GetCounter g' c) = (if a = c then Suc (unat (GetCounter g c)) else unat (GetCounter g c))"
proof -
  let ?g = "if a then g\<lparr>mGroupControlCounter := mGroupControlCounter g + 1\<rparr>
            else g\<lparr>mGroupDataCounter := mGroupDataCounter g + 1\<rparr>"
  obtain v :: u32 where v: "getKV st (counterKey c) 4 = Inr (le_bytes 4 v)"
    "unat (GetCounter g c) < unat v" "unat v \<le> unat (GetCounter g c) + 1000" and s: "storageSet g"
    using ok by (auto simp: out_ok_def)
  have s': "storageSet ?g" using s by auto
  have c1: "unat (GetCounter g c + 1) = Suc (unat (GetCounter g c))"
    using lim by (intro unat_Suc_below) simp
  show ?thesis
  proof (cases "a = c")
    case False
    then have "g' = ?g" "getKV st' (counterKey c) 4 = getKV st (counterKey c) 4"
      using inc s' get_put_other
      by (auto simp: IncrementCounter_def Let_def GetCounter_increment split: sum.splits if_splits prod.splits)
    then show ?thesis using False v s' by (auto simp: out_ok_def GetCounter_increment)
  next
    case True
    show ?thesis
    proof (cases "v = GetCounter g c + 1")
      case False
      then have "g' = ?g" "st' = st"
        using inc s' v True by (auto simp: IncrementCounter_def Let_def GetCounter_increment)
      moreover have "unat v \<noteq> Suc (unat (GetCounter g c))"
        using False c1 by (metis word_unat_eq_iff)
      ultimately show ?thesis
        using v s' True c1 by (auto simp: out_ok_def GetCounter_increment)
    next
      case eq: True
      let ?w = "GetCounter g c + 1 + GROUP_MSG_COUNTER_MIN_INCREMENT"
      have "putKV st (counterKey c) (le_bytes 4 ?w) = (Inr (), st')" and g': "g' = ?g"
        using inc s' v True eq
        by (auto simp: IncrementCounter_def Let_def GetCounter_increment split: prod.splits)
      then have "getKV st' (counterKey c) 4 = Inr (le_bytes 4 ?w)"
        by (auto intro: get_put)
      moreover have "unat ?w = unat (GetCounter g c + 1) + 1000"
        using unat_plus_below [of "GetCounter g c + 1" GROUP_MSG_COUNTER_MIN_INCREMENT] lim c1 by simp
      ultimately show ?thesis
        using g' s' True c1 by (auto simp: out_ok_def GetCounter_increment)
    qed
  qed
qed

lemma Init_writes_ahead:
  assumes "GroupOutgoingCounters_Init getKV putKV rndC rndD junk g st = (Inr u, g', st')"
  shows "storageSet g'"
    and "getKV st' (counterKey c) 4 = Inr (le_bytes 4 (GetCounter g' c + GROUP_MSG_COUNTER_MIN_INCREMENT))"
    and "\<exists>rnd junk' temp. initialGroupCounter getKV st c rnd junk' = Inr (GetCounter g' c, temp)"
proof -
  obtain x t y t2 st1 where
    x: "initialGroupCounter getKV st True rndC junk = Inr (x, t)" and
    y: "initialGroupCounter getKV st False rndD t = Inr (y, t2)" and
    p1: "putKV st (counterKey True) (le_bytes 4 (x + GROUP_MSG_COUNTER_MIN_INCREMENT)) = (Inr (), st1)" and
    p2: "putKV st1 (counterKey False) (le_bytes 4 (y + GROUP_MSG_COUNTER_MIN_INCREMENT)) = (Inr (), st')" and
    g': "g' = g\<lparr>storageSet := True, mGroupControlCounter := x, mGroupDataCounter := y\<rparr>"
    using assms by (auto simp: GroupOutgoingCounters_Init_def Let_def split: sum.splits prod.splits)
  show "storageSet g'" by (simp add: g')
  have "getKV st' (counterKey True) 4 = getKV st1 (counterKey True) 4"
    using get_put_other [OF p2, of "counterKey True"] by simp
  then show "getKV st' (counterKey c) 4 = Inr (le_bytes 4 (GetCounter g' c + GROUP_MSG_COUNTER_MIN_INCREMENT))"
    using get_put [OF p1] get_put [OF p2] by (cases c) (auto simp: g' GetCounter_def)
  show "\<exists>rnd junk' temp. initialGroupCounter getKV st c rnd junk' = Inr (GetCounter g' c, temp)"
    using x y by (cases c) (auto simp: g' GetCounter_def)
qed

lemma Init_out_ok:
  assumes ini: "GroupOutgoingCounters_Init getKV putKV rndC rndD junk g st = (Inr u, g', st')"
    and lim: "unat (GetCounter g' c) + 1000 < 2 ^ 32"
  shows "out_ok getKV c (g', st')"
proof -
  have "unat (GetCounter g' c + GROUP_MSG_COUNTER_MIN_INCREMENT) = unat (GetCounter g' c) + 1000"
    using unat_plus_below [of "GetCounter g' c" GROUP_MSG_COUNTER_MIN_INCREMENT] lim by simp
  then show ?thesis
    using Init_writes_ahead(1) [OF ini] Init_writes_ahead(2) [OF ini, of c]
    by (auto simp: out_ok_def)
qed

lemma outgoing_step_ok:
  assumes ok: "out_ok getKV c t" and lim: "unat (GetCounter (fst t) c) < 2 ^ 32 - 2000"
    and st: "outgoing_step getKV putKV ev t = Some t'"
  shows "out_ok getKV c t'"
    and "unat (GetCounter (fst t) c) \<le> unat (GetCounter (fst t') c)"
    and "unat (GetCounter (fst t') c) \<le> unat (GetCounter (fst t) c) + 1000"
    and "ev = SendGroup c \<Longrightarrow> unat (GetCounter (fst t) c) < unat (GetCounter (fst t') c)"
proof -
  obtain g s g' s' where t: "t = (g, s)" "t' = (g', s')" by (cases t; cases t')
  obtain v :: u32 where v: "getKV s (counterKey c) 4 = Inr (le_bytes 4 v)"
    "unat (GetCounter g c) < unat v" "unat v \<le> unat (GetCounter g c) + 1000"
    using ok by (auto simp: out_ok_def t)
  note lim' = lim [unfolded t fst_conv]
  have "out_ok getKV c t' \<and>
        (case ev of SendGroup a \<Rightarrow> unat (GetCounter g' c) = (if a = c then Suc (unat (GetCounter g c)) else unat (GetCounter g c))
         | RebootGroup _ _ _ \<Rightarrow> GetCounter g' c = v)"
  proof (cases ev)
    case (SendGroup a)
    then have "IncrementCounter getKV putKV a g s = (Inr (), g', s')"
      using st by (auto simp: outgoing_step_def outgoing_event_def t split: prod.splits sum.splits)
    then show ?thesis
      using IncrementCounter_ok [of c g s] ok lim' SendGroup by (simp add: t)
  next
    case (RebootGroup rc rd j)
    then have ini: "GroupOutgoingCounters_Init getKV putKV rc rd j outgoing_reset s = (Inr (), g', s')"
      using st by (auto simp: outgoing_step_def outgoing_event_def t split: prod.splits sum.splits)
    then have "GetCounter g' c = v"
      using Init_writes_ahead(3) [OF ini, of c] v(1) by (auto simp: initialGroupCounter_def)
    then show ?thesis
      using Init_out_ok [OF ini, of c] v lim' RebootGroup by (simp add: t)
  qed
  then show "out_ok getKV c t'"
    "unat (GetCounter (fst t) c) \<le> unat (GetCounter (fst t') c)"
    "unat (GetCounter (fst t') c) \<le> unat (GetCounter (fst t) c) + 1000"
    "ev = SendGroup c \<Longrightarrow> unat (GetCounter (fst t) c) < unat (GetCounter (fst t') c)"
    using v by (auto simp: t split: group_event.splits if_splits)
qed

end

sublocale kv_storage \<subseteq> outgoing: write_ahead "out_ok getKV c"
    "\<lambda>t. unat (GetCounter (fst t) c)" "outgoing_step getKV putKV" "\<lambda>ev. ev = SendGroup c"
    1000 "2 ^ 32 - 2000" for c
  by unfold_locales (use outgoing_step_ok in blast)+

definition usedCounters :: "bool \<Rightarrow> (bool \<times> u32) list \<Rightarrow> u32 list" where
  "usedCounters c us = map snd (filter (\<lambda>(a, _). a = c) us)"

context kv_storage
begin

lemma outgoing_run_handed_out:
  assumes "outgoing_run getKV putKV t evs = (us, True)"
  shows "outgoing.handed_out c t evs = Some (map unat (usedCounters c us))"
  using assms
proof (induction evs arbitrary: t us)
  case Nil
  then show ?case by (simp add: usedCounters_def)
next
  case (Cons ev evs)
  obtain r t' where ev: "outgoing_event getKV putKV ev t = (r, t')" by (cases "outgoing_event getKV putKV ev t")
  obtain us' ok where us': "outgoing_run getKV putKV t' evs = (us', ok)" by fastforce
  from Cons.prems ev us' have ok: "isOk r" "ok"
    and us: "us = (case ev of SendGroup a \<Rightarrow> (a, GetCounter (fst t) a) # us' | _ \<Rightarrow> us')"
    by auto
  have "outgoing_step getKV putKV ev t = Some t'"
    using ev ok by (cases r) (auto simp: outgoing_step_def)
  then show ?case
    using Cons.IH [of t' us'] us' ok us by (cases ev) (auto simp: usedCounters_def)
qed

lemma outgoing_increasing:
  assumes "out_ok getKV c t" "unat (GetCounter (fst t) c) + 1000 * length evs < 2 ^ 32 - 2000"
    and "outgoing_run getKV putKV t evs = (us, True)"
  shows "sorted_wrt (<) (map unat (usedCounters c us))"
  using outgoing.handed_out_increasing [OF assms(1) assms(2) outgoing_run_handed_out [OF assms(3)]]
  by blast

end

text \<open>A delegate whose next write fails when the flag is set.\<close>

definition flakyGet :: "bool \<times> storage \<Rightarrow> string \<Rightarrow> nat \<Rightarrow> bytes result" where
  "flakyGet s k n = SyncGetKeyValue (snd s) k n"

definition flakyPut :: "bool \<times> storage \<Rightarrow> string \<Rightarrow> bytes \<Rightarrow> unit result \<times> bool \<times> storage" where
  "flakyPut s k v =
     (if fst s then (Inl CHIP_ERROR_PERSISTED_STORAGE_FAILED, False, snd s)
      else case SyncSetKeyValue (snd s) k v of (r, st) \<Rightarrow> (r, False, st))"

interpretation flaky_storage: kv_storage flakyGet flakyPut
  by unfold_locales
    (auto simp: flakyGet_def flakyPut_def split: if_splits prod.splits
      intro: test_storage.get_put test_storage.get_put_other)

section \<open>Properties\<close>

text \<open>
  C35. No event number or counter value of a \<open>PersistedCounter\<close> is handed out twice across
  reboots: from the first initialisation on, for any sequence of uses and reboots in which
  every storage call succeeded and which is too short to exhaust the type, the values handed
  out are strictly increasing.
\<close>

theorem persisted_counter_no_reuse:
  fixes e :: "'a::len word"
  assumes "kv_storage getKV putKV" "8 dvd LENGTH('a)" "LENGTH('a) < 2 ^ 16"
    and "getKV st k (LENGTH('a) div 8) = Inl CHIP_ERROR_PERSISTED_STORAGE_VALUE_NOT_FOUND"
    and "PersistedCounter_Init getKV putKV p0 st k e = (Inr u, p, st')"
    and "unat e * (length es + 2) < 2 ^ LENGTH('a)"
    and "persisted_run getKV putKV (p, st') es = Some vs"
  shows "sorted_wrt (<) vs"
  using kv_storage.persisted_first_init [OF assms(1-5)] assms(6)
    kv_storage.persisted_increasing [OF assms(1) _ _ assms(7)] by force

theorem persisted_counter_no_reuse_witness:
  "\<exists>p st'. PersistedCounter_Init SyncGetKeyValue SyncSetKeyValue
       \<lparr>mCounterValue = 0, mKey = [], mEpoch = 0, mNextEpoch = 0\<rparr> \<lparr>mStorage = [], mPoisonKeys = []\<rparr>
       ''g/lec'' (3 :: u32) = (Inr (), p, st') \<and>
     persisted_run SyncGetKeyValue SyncSetKeyValue (p, st')
       [UseCounter, UseCounter, RebootCounter, UseCounter] = Some [0, 1, 3] \<and>
     sorted_wrt (<) [0, 1, 3 :: u32]"
proof -
  let ?start = "\<lparr>mCounterValue = 0, mKey = [], mEpoch = 0, mNextEpoch = 0\<rparr> :: u32 persisted"
  let ?p = "\<lparr>mCounterValue = 0, mKey = ''g/lec'', mEpoch = 3, mNextEpoch = 3\<rparr> :: u32 persisted"
  let ?st = "\<lparr>mStorage = [(''g/lec'', [3, 0, 0, 0])], mPoisonKeys = []\<rparr>"
  have ini: "PersistedCounter_Init SyncGetKeyValue SyncSetKeyValue ?start
               \<lparr>mStorage = [], mPoisonKeys = []\<rparr> ''g/lec'' 3 = (Inr (), ?p, ?st)"
    by code_simp
  have run: "persisted_run SyncGetKeyValue SyncSetKeyValue (?p, ?st)
       [UseCounter, UseCounter, RebootCounter, UseCounter] = Some [0, 1, 3]"
    by code_simp
  have nf: "SyncGetKeyValue \<lparr>mStorage = [], mPoisonKeys = []\<rparr> ''g/lec'' (LENGTH(32) div 8)
              = Inl CHIP_ERROR_PERSISTED_STORAGE_VALUE_NOT_FOUND"
    by (simp add: SyncGetKeyValue_def)
  have "sorted_wrt (<) [0, 1, 3 :: u32]"
    using persisted_counter_no_reuse [OF test_storage.kv_storage_axioms _ _ nf ini _ run] by simp
  with ini run show ?thesis by blast
qed

text \<open>
  C17. No outgoing group counter (control or data) is used twice across reboots: from a first
  boot on, for any sequence of up to four million sends and reboots in which every storage call
  succeeded, the counters of each kind are strictly increasing.
\<close>

theorem group_counters_no_reuse:
  assumes "kv_storage getKV putKV"
    and "getKV st (counterKey c) 4 = Inl CHIP_ERROR_PERSISTED_STORAGE_VALUE_NOT_FOUND"
    and "length evs \<le> 4000000"
    and "outgoing_run getKV putKV (g, st) (RebootGroup rndC rndD junk # evs) = (us, True)"
  shows "sorted_wrt (<) (usedCounters c us)"
proof -
  obtain r g' st' where ev: "outgoing_event getKV putKV (RebootGroup rndC rndD junk) (g, st) = (r, g', st')"
    by (metis prod.collapse)
  then have ini: "GroupOutgoingCounters_Init getKV putKV rndC rndD junk outgoing_reset st = (Inr (), g', st')"
    and run: "outgoing_run getKV putKV (g', st') evs = (us, True)"
    using assms(4) by (auto simp: outgoing_event_def isOk_iff split: prod.splits)
  obtain rnd where "GetCounter g' c = (rnd AND kMessageCounterRandomInitMask) + 1"
    using kv_storage.Init_writes_ahead(3) [OF assms(1) ini, of c] assms(2)
    by (auto simp: initialGroupCounter_def dest: sym)
  moreover have "unat (rnd AND kMessageCounterRandomInitMask) \<le> unat kMessageCounterRandomInitMask"
    using word_and_le1 word_le_nat_alt by blast
  ultimately have "unat (GetCounter g' c) \<le> 268435456"
    using unat_Suc_below [of "rnd AND kMessageCounterRandomInitMask"]
    by (simp add: kMessageCounterRandomInitMask_def)
  moreover from this have "out_ok getKV c (g', st')"
    by (intro kv_storage.Init_out_ok [OF assms(1) ini]) simp
  ultimately have "sorted_wrt (<) (map unat (usedCounters c us))"
    using kv_storage.outgoing_increasing [OF assms(1) _ _ run, of c] assms(3) by simp
  then show ?thesis by (rule sorted_unat)
qed

theorem group_counters_no_reuse_witness:
  "outgoing_run SyncGetKeyValue SyncSetKeyValue (outgoing_reset, \<lparr>mStorage = [], mPoisonKeys = []\<rparr>)
     (RebootGroup 7 9 0 # [SendGroup True, SendGroup False, SendGroup True, RebootGroup 1 2 3, SendGroup True])
     = ([(True, 8), (False, 10), (True, 9), (True, 1008)], True) \<and>
   sorted_wrt (<) (usedCounters True [(True, 8), (False, 10), (True, 9), (True, 1008)])"
proof -
  have run: "outgoing_run SyncGetKeyValue SyncSetKeyValue (outgoing_reset, \<lparr>mStorage = [], mPoisonKeys = []\<rparr>)
     (RebootGroup 7 9 0 # [SendGroup True, SendGroup False, SendGroup True, RebootGroup 1 2 3, SendGroup True])
     = ([(True, 8), (False, 10), (True, 9), (True, 1008)], True)"
    by code_simp
  have nf: "SyncGetKeyValue \<lparr>mStorage = [], mPoisonKeys = []\<rparr> (counterKey True) 4
              = Inl CHIP_ERROR_PERSISTED_STORAGE_VALUE_NOT_FOUND"
    by (simp add: SyncGetKeyValue_def)
  show ?thesis
    using group_counters_no_reuse [OF test_storage.kv_storage_axioms nf _ run] run by simp
qed

text \<open>While the counter is past the stored value, and has not come round to it, sending does not touch
  the storage.\<close>

lemma run_send:
  "fst (outgoing_run getKV putKV (g, st) (SendGroup c # evs)) =
     (c, GetCounter g c) # fst (outgoing_run getKV putKV (snd (IncrementCounter getKV putKV c g st)) evs)"
  by (simp add: outgoing_event_def split: prod.split)

lemma stale_sends:
  assumes "storageSet g" "GetCounter g c = v + of_nat k" "k + n < 2 ^ 32"
    and "getKV st (counterKey c) 4 = Inr (le_bytes 4 v)"
  shows "\<exists>g'. fst (outgoing_run getKV putKV (g, st) (replicate n (SendGroup c) @ evs)) =
           map (\<lambda>i. (c, v + of_nat (k + i))) [0..<n] @ fst (outgoing_run getKV putKV (g', st) evs)"
  using assms
proof (induction n arbitrary: g k)
  case 0
  then show ?case by auto
next
  case (Suc n)
  let ?g = "if c then g\<lparr>mGroupControlCounter := mGroupControlCounter g + 1\<rparr> else g\<lparr>mGroupDataCounter := mGroupDataCounter g + 1\<rparr>"
  have g: "storageSet ?g" "GetCounter ?g c = v + of_nat (Suc k)" using Suc.prems(1,2) by (simp_all add: GetCounter_increment)
  have k: "Suc k < 2 ^ 32" using Suc.prems(3) by simp
  then have "unat (of_nat (Suc k) :: u32) = Suc k" by (simp add: unat_of_nat del: of_nat_Suc)
  then have "(of_nat (Suc k) :: u32) \<noteq> 0" by (metis nat.distinct(1) unat_0)
  then have "IncrementCounter getKV putKV c g st = (Inr (), ?g, st)"
    using g Suc.prems(4) by (simp add: IncrementCounter_def Let_def del: of_nat_Suc)
  moreover obtain g' where "fst (outgoing_run getKV putKV (?g, st) (replicate n (SendGroup c) @ evs)) =
      map (\<lambda>i. (c, v + of_nat (Suc k + i))) [0..<n] @ fst (outgoing_run getKV putKV (g', st) evs)"
    using Suc.IH [OF g _ Suc.prems(4)] Suc.prems(3) by auto
  moreover have "map (\<lambda>i. (c, v + of_nat (k + i))) [0..<Suc n] = (c, v + of_nat k) # map (\<lambda>i. (c, v + of_nat (Suc k + i))) [0..<n]"
    by (simp add: map_upt_Suc del: upt_Suc)
  ultimately show ?case
    using Suc.prems(2) run_send [of getKV putKV g st c "replicate n (SendGroup c) @ evs"] by auto
qed

text \<open>
  C38. A failed write at the boundary is not made up for: when \<open>IncrementCounter\<close> reaches the
  stored value and the write of the next one fails, leaving the storage as it was, any number of further sends below \<open>2 ^ 32\<close> compare the
  counter with the stale stored value for equality and do not write again.  After a reboot at any of these
  points the counter restarts at the value the first of them used.
\<close>

theorem group_counter_reuse_after_failed_write:
  assumes "storageSet g" "GetCounter g c = x" "n < 2 ^ 32"
    and "getKV st (counterKey c) 4 = Inr (le_bytes 4 (x + 1))"
    and "putKV st (counterKey c) (le_bytes 4 (x + 1 + GROUP_MSG_COUNTER_MIN_INCREMENT)) = (Inl e, st')"
    and "getKV st' = getKV st"
    and "GroupOutgoingCounters_Init getKV putKV rndC rndD junk outgoing_reset st' = (Inr u, g', st'')"
    and "kv_storage getKV putKV"
  shows "usedCounters c (fst (outgoing_run getKV putKV (g, st)
           (SendGroup c # replicate n (SendGroup c) @ [RebootGroup rndC rndD junk, SendGroup c]))) =
         x # map (\<lambda>i. x + 1 + of_nat i) [0..<n] @ [x + 1]"
proof -
  let ?g = "if c then g\<lparr>mGroupControlCounter := mGroupControlCounter g + 1\<rparr> else g\<lparr>mGroupDataCounter := mGroupDataCounter g + 1\<rparr>"
  let ?evs = "[RebootGroup rndC rndD junk, SendGroup c]"
  have one: "snd (IncrementCounter getKV putKV c g st) = (?g, st')"
    using assms(1,2,4,5) by (cases c) (simp_all add: IncrementCounter_def Let_def GetCounter_def)
  have "storageSet ?g" "GetCounter ?g c = (x + 1) + of_nat 0" using assms(1,2) by (simp_all add: GetCounter_increment)
  then obtain h where h: "fst (outgoing_run getKV putKV (?g, st') (replicate n (SendGroup c) @ ?evs)) =
      map (\<lambda>i. (c, (x + 1) + of_nat (0 + i))) [0..<n] @ fst (outgoing_run getKV putKV (h, st') ?evs)"
    using stale_sends [of ?g c "x + 1" 0 n getKV st' putKV ?evs] assms(3,4,6) by fastforce
  have "GetCounter g' c = x + 1"
    using kv_storage.Init_writes_ahead(3) [OF assms(8,7), of c] assms(4,6)
    by (auto simp: initialGroupCounter_def Let_def)
  then have "fst (outgoing_run getKV putKV (h, st') ?evs) = [(c, x + 1)]"
    using assms(7) by (simp add: outgoing_event_def split: prod.splits)
  moreover have "usedCounters c (map (\<lambda>i. (c, f i)) [0..<n] @ us) = map f [0..<n] @ usedCounters c us" for f us
    by (simp add: usedCounters_def comp_def filter_True)
  ultimately show ?thesis
    using h assms(2) unfolding run_send one by (simp add: usedCounters_def)
qed

theorem group_counter_reuse_after_failed_write_witness:
  "usedCounters True (fst (outgoing_run flakyGet flakyPut
     (\<lparr>mGroupDataCounter = 1, mGroupControlCounter = 6, storageSet = True\<rparr>,
      True, \<lparr>mStorage = [(counterKey True, le_bytes 4 (7 :: u32))], mPoisonKeys = []\<rparr>)
     (SendGroup True # replicate 5000 (SendGroup True) @ [RebootGroup 1 2 3, SendGroup True]))) =
     6 # map (\<lambda>i. 6 + 1 + of_nat i) [0..<5000] @ [6 + 1]"
proof -
  let ?m = "\<lparr>mStorage = [(counterKey True, le_bytes 4 (7 :: u32))], mPoisonKeys = []\<rparr>"
  let ?m' = "\<lparr>mStorage = [(counterKey False, le_bytes 4 (1003 :: u32)),
                (counterKey True, le_bytes 4 (1007 :: u32))], mPoisonKeys = []\<rparr>"
  let ?g = "\<lparr>mGroupDataCounter = 1, mGroupControlCounter = 6, storageSet = True\<rparr>"
  let ?h = "\<lparr>mGroupDataCounter = 3, mGroupControlCounter = 7, storageSet = True\<rparr>"
  have get: "flakyGet (True, ?m) (counterKey True) 4 = Inr (le_bytes 4 (6 + 1 :: u32))"
    by code_simp
  have put: "flakyPut (True, ?m) (counterKey True) (le_bytes 4 (6 + 1 + GROUP_MSG_COUNTER_MIN_INCREMENT))
               = (Inl CHIP_ERROR_PERSISTED_STORAGE_FAILED, False, ?m)"
    by (simp add: flakyPut_def)
  have same: "flakyGet (False, ?m) = flakyGet (True, ?m)"
    by (simp add: flakyGet_def fun_eq_iff)
  have ini: "GroupOutgoingCounters_Init flakyGet flakyPut 1 2 3 outgoing_reset (False, ?m)
               = (Inr (), ?h, False, ?m')"
    by code_simp
  show ?thesis
    using group_counter_reuse_after_failed_write [of ?g True 6 5000, OF _ _ _ get put same ini
        flaky_storage.kv_storage_axioms] by (simp add: GetCounter_def)
qed

end
