(* ===== verification/Group_Peers.thy ===== *)
theory Group_Peers
  imports Peer_Counter "HOL-Library.Multiset"
begin

text \<open>
  The table of group message senders, \<open>GroupPeerTable\<close> of
  \<^verbatim>\<open>src/transport/GroupPeerMessageCounter.cpp\<close>: a fixed array of fabrics, each with a fixed array
  of control senders and one of data senders, every sender with its message counter.  Both
  levels are arrays whose used slots come first; the locale \<open>slots\<close> has the theory of such
  arrays.  The table refines a map from (fabric, node, kind) to counters, which is what the
  locale \<open>keyed_counters\<close> asks of it, and the dispatch of group messages is proved replay-free
  for every sender on that interface.
\<close>

section \<open>Arrays with their used slots first\<close>

text \<open>The inner loop of both compaction routines: the last used slot above index \<open>i\<close>.\<close>

definition lastUsedAbove :: "('a \<Rightarrow> bool) \<Rightarrow> 'a list \<Rightarrow> nat \<Rightarrow> nat option" where
  "lastUsedAbove used xs i = find (\<lambda>j. used (xs ! j)) (rev [Suc i..<length xs])"

text \<open>Move that slot to index \<open>i\<close> and leave a default-constructed one behind.\<close>

definition moveLastTo :: "'a \<Rightarrow> ('a \<Rightarrow> bool) \<Rightarrow> nat \<Rightarrow> 'a list \<Rightarrow> 'a list" where
  "moveLastTo blank used i xs =
     (case lastUsedAbove used xs i of None \<Rightarrow> xs | Some j \<Rightarrow> xs[i := xs ! j, j := blank])"

text \<open>The first slot that is unused or has the key.\<close>

definition firstFreeOrKey :: "('a \<Rightarrow> 'k) \<Rightarrow> 'k \<Rightarrow> 'k \<Rightarrow> 'a list \<Rightarrow> nat option" where
  "firstFreeOrKey keyOf undef k xs =
     find (\<lambda>i. keyOf (xs ! i) = undef \<or> keyOf (xs ! i) = k) [0..<length xs]"

definition firstKey :: "('a \<Rightarrow> 'k) \<Rightarrow> 'k \<Rightarrow> 'a list \<Rightarrow> nat option" where
  "firstKey keyOf k xs = find (\<lambda>i. keyOf (xs ! i) = k) [0..<length xs]"

lemma find_upt_eq: "i < n \<Longrightarrow> P i \<Longrightarrow> (\<And>j. j < i \<Longrightarrow> \<not> P j) \<Longrightarrow> find P [0..<n] = Some i"
  by (auto simp: find_Some_iff)

lemma find_rev_upt_eq:
  assumes "m \<le> j" "j < n" "P j" "\<And>k. j < k \<Longrightarrow> k < n \<Longrightarrow> \<not> P k"
  shows "find P (rev [m..<n]) = Some j"
proof -
  have "j \<le> n - 1" "0 < n" using assms(2) by auto
  have "rev [m..<n] ! (n - 1 - j) = j" if "m \<le> j" "j < n"
    using that by (simp add: rev_nth)
  moreover have "\<not> P (rev [m..<n] ! l)" if "l < n - 1 - j" for l
    using that assms by (simp add: rev_nth)
  ultimately show ?thesis
    unfolding find_Some_iff using assms by (intro exI [of _ "n - 1 - j"]) auto
qed

locale slots =
  fixes keyOf :: "'a \<Rightarrow> 'k" and undef :: 'k and blank :: 'a
  assumes blank_key [simp]: "keyOf blank = undef"
begin

definition layout :: "'a list \<Rightarrow> nat \<Rightarrow> 'a list \<Rightarrow> bool" where
  "layout us n xs \<longleftrightarrow> xs = us @ replicate (n - length us) blank \<and> length us \<le> n \<and>
     (\<forall>u\<in>set us. keyOf u \<noteq> undef) \<and> distinct (map keyOf us)"

definition lookup :: "'a list \<Rightarrow> 'k \<rightharpoonup> 'a" where
  "lookup xs k = (if k = undef then None else map_of (map (\<lambda>x. (keyOf x, x)) xs) k)"

lemma layout_length: "layout us n xs \<Longrightarrow> length xs = n"
  by (simp add: layout_def)

lemma layout_used: "layout us n xs \<Longrightarrow> j < n \<Longrightarrow> keyOf (xs ! j) \<noteq> undef \<longleftrightarrow> j < length us"
  by (auto simp: layout_def nth_append)

lemma map_of_blanks: "k \<noteq> undef \<Longrightarrow> map_of (replicate m (undef, blank)) k = None"
  by (auto simp: map_of_eq_None_iff)

lemma lookup_layout: "layout us n xs \<Longrightarrow> k \<noteq> undef \<Longrightarrow> lookup xs k = map_of (map (\<lambda>x. (keyOf x, x)) us) k"
  by (auto simp: lookup_def layout_def map_of_append map_of_blanks map_add_def split: option.splits)

lemma lookup_Some:
  assumes "layout us n xs" "i < length us"
  shows "lookup xs (keyOf (us ! i)) = Some (us ! i)"
proof -
  have "keyOf (us ! i) \<noteq> undef" using assms by (simp add: layout_def)
  moreover have "map_of (map (\<lambda>x. (keyOf x, x)) us) (keyOf (us ! i)) = Some (us ! i)"
    using assms by (intro map_of_is_SomeI) (auto simp: layout_def o_def)
  ultimately show ?thesis using lookup_layout [OF assms(1)] by simp
qed

lemma lookup_cases:
  assumes "layout us n xs" "k \<noteq> undef"
  obtains i where "i < length us" "keyOf (us ! i) = k" "lookup xs k = Some (us ! i)"
  | "k \<notin> keyOf ` set us" "lookup xs k = None"
proof (cases "k \<in> keyOf ` set us")
  case True
  then obtain i where "i < length us" "keyOf (us ! i) = k" by (auto simp: in_set_conv_nth)
  then show ?thesis using that(1) lookup_Some [OF assms(1)] by blast
next
  case False
  then have "lookup xs k = None"
    using lookup_layout [OF assms] by (auto simp: map_of_eq_None_iff image_image)
  then show ?thesis using that(2) False by blast
qed

lemma firstFreeOrKey_present:
  assumes "layout us n xs" "i < length us" "keyOf (us ! i) = k"
  shows "firstFreeOrKey keyOf undef k xs = Some i" "firstKey keyOf k xs = Some i"
proof -
  have xi: "xs ! j = us ! j" if "j < length us" for j
    using that assms(1) by (auto simp: layout_def nth_append)
  have "keyOf (us ! j) \<noteq> k" "keyOf (us ! j) \<noteq> undef" if "j < i" for j
    using that assms by (auto simp: layout_def distinct_conv_nth)
  then show "firstFreeOrKey keyOf undef k xs = Some i" "firstKey keyOf k xs = Some i"
    unfolding firstFreeOrKey_def firstKey_def
    using assms xi layout_length [OF assms(1)]
    by (auto intro!: find_upt_eq simp: layout_def)
qed

lemma firstFreeOrKey_absent:
  assumes "layout us n xs" "k \<notin> keyOf ` set us" "k \<noteq> undef"
  shows "firstFreeOrKey keyOf undef k xs = (if length us < n then Some (length us) else None)"
    and "firstKey keyOf k xs = None"
proof -
  have used: "keyOf (xs ! j) \<noteq> undef" "keyOf (xs ! j) \<noteq> k" if "j < length us" for j
    using that assms by (auto simp: layout_def nth_append)
  have free: "keyOf (xs ! j) = undef" if "length us \<le> j" "j < n" for j
    using layout_used [OF assms(1) that(2)] that(1) by auto
  show "firstFreeOrKey keyOf undef k xs = (if length us < n then Some (length us) else None)"
  proof (cases "length us < n")
    case True
    then show ?thesis
      unfolding firstFreeOrKey_def layout_length [OF assms(1)]
      using used free by (auto intro!: find_upt_eq)
  next
    case False
    then show ?thesis
      unfolding firstFreeOrKey_def layout_length [OF assms(1)]
      using used by (auto simp: find_None_iff)
  qed
  have "keyOf (xs ! j) \<noteq> k" if "j < n" for j
    using used free assms(3) that by (cases "j < length us") auto
  then show "firstKey keyOf k xs = None"
    unfolding firstKey_def layout_length [OF assms(1)] by (auto simp: find_None_iff)
qed

lemma lookup_iff:
  assumes "layout us n xs"
  shows "lookup xs k = Some x \<longleftrightarrow> x \<in> set us \<and> keyOf x = k"
proof
  assume l: "lookup xs k = Some x"
  then have "k \<noteq> undef" by (auto simp: lookup_def split: if_splits)
  then show "x \<in> set us \<and> keyOf x = k"
    using l lookup_layout [OF assms] by (auto dest: map_of_SomeD)
next
  assume "x \<in> set us \<and> keyOf x = k"
  then show "lookup xs k = Some x"
    using lookup_Some [OF assms] by (auto simp: in_set_conv_nth)
qed

lemma lookup_None: "layout us n xs \<Longrightarrow> k \<notin> keyOf ` set us \<Longrightarrow> lookup xs k = None"
  using lookup_iff by (metis image_eqI not_Some_eq)

lemma lookup_eqI:
  assumes "layout us n xs" "\<And>k x. m k = Some x \<longleftrightarrow> x \<in> set us \<and> keyOf x = k"
  shows "lookup xs = m"
proof
  fix k
  show "lookup xs k = m k"
    using lookup_iff [OF assms(1), of k] assms(2) [of k] by (metis not_Some_eq)
qed

lemma key_inj: "layout us n xs \<Longrightarrow> x \<in> set us \<Longrightarrow> y \<in> set us \<Longrightarrow> keyOf x = keyOf y \<Longrightarrow> x = y"
  by (metis lookup_iff option.inject)

lemma layout_add:
  assumes l: "layout us n xs" and "length us < n" "keyOf x \<noteq> undef" "keyOf x \<notin> keyOf ` set us"
  shows "layout (us @ [x]) n (xs[length us := x])"
    and "lookup (xs[length us := x]) = (lookup xs)(keyOf x \<mapsto> x)"
proof -
  have "replicate (n - length us) blank = blank # replicate (n - Suc (length us)) blank"
    using assms(2) by (metis Suc_diff_Suc replicate_Suc)
  then show l': "layout (us @ [x]) n (xs[length us := x])"
    using assms by (auto simp: layout_def list_update_append)
  show "lookup (xs[length us := x]) = (lookup xs)(keyOf x \<mapsto> x)"
    using assms(4) by (intro lookup_eqI [OF l']) (auto simp: lookup_iff [OF l] image_iff)
qed

lemma layout_update:
  assumes l: "layout us n xs" and i: "i < length us" and k: "keyOf x = keyOf (us ! i)"
  shows "layout (us[i := x]) n (xs[i := x])"
    and "lookup (xs[i := x]) = (lookup xs)(keyOf x \<mapsto> x)"
proof -
  have keys: "map keyOf (us[i := x]) = map keyOf us"
    using i k by (metis list_update_id map_update)
  then have "keyOf ` set (us[i := x]) = keyOf ` set us" by (metis list.set_map)
  then have "\<forall>u\<in>set (us[i := x]). keyOf u \<noteq> undef"
    using l by (metis image_iff layout_def)
  then show l': "layout (us[i := x]) n (xs[i := x])"
    using assms keys by (auto simp: layout_def list_update_append)
  have mem: "y \<in> set (us[i := x]) \<longleftrightarrow> y = x \<or> (y \<in> set us \<and> keyOf y \<noteq> keyOf x)" for y
  proof
    assume "y \<in> set (us[i := x])"
    then obtain j where "j < length us" "y = us[i := x] ! j" by (auto simp: in_set_conv_nth)
    then show "y = x \<or> (y \<in> set us \<and> keyOf y \<noteq> keyOf x)"
      using l i k by (cases "j = i") (auto simp: layout_def distinct_conv_nth)
  next
    assume "y = x \<or> (y \<in> set us \<and> keyOf y \<noteq> keyOf x)"
    then show "y \<in> set (us[i := x])"
      using i k by (metis in_set_conv_nth length_list_update nth_list_update_eq nth_list_update_neq)
  qed
  show "lookup (xs[i := x]) = (lookup xs)(keyOf x \<mapsto> x)"
    by (intro lookup_eqI [OF l']) (auto simp: lookup_iff [OF l] mem)
qed

lemma moveLastTo_full:
  assumes l: "layout us n xs" and "keyOf (xs ! i) = undef" "i < n"
  shows "moveLastTo blank (\<lambda>x. keyOf x \<noteq> undef) i xs = xs"
proof -
  have "length us \<le> i" using layout_used [OF l, of i] assms by auto
  then have "keyOf (xs ! j) = undef" if "i < j" "j < n" for j
    using layout_used [OF l, of j] that by auto
  then have "lastUsedAbove (\<lambda>x. keyOf x \<noteq> undef) xs i = None"
    using layout_length [OF l] by (auto simp: lastUsedAbove_def find_None_iff)
  then show ?thesis by (simp add: moveLastTo_def)
qed

lemma remove_slot:
  assumes l: "layout us n xs" and i: "i < length us"
  defines "us' \<equiv> (butlast us)[i := last us]"
  shows "moveLastTo blank (\<lambda>x. keyOf x \<noteq> undef) i (xs[i := blank])
           = us' @ replicate (n - length us') blank"
proof -
  let ?m = "length us - 1" and ?ys = "xs[i := blank]"
  have n: "length us \<le> n" "length xs = n" using l by (auto simp: layout_def)
  have ys: "?ys ! j = (if j = i then blank else xs ! j)" if "j < n" for j
    using that n by auto
  have us: "us = butlast us @ [last us]" using i by (cases us rule: rev_cases) auto
  have R: "us' @ replicate (n - length us') blank
             = (butlast us)[i := last us] @ blank # replicate (n - length us) blank"
    using i n by (simp add: us'_def Suc_diff_le flip: replicate_Suc)
  have used: "keyOf (?ys ! j) \<noteq> undef \<longleftrightarrow> j < length us \<and> j \<noteq> i" if "j < n" for j
    using layout_used [OF l that] ys [OF that] by auto
  have X: "?ys = us[i := blank] @ replicate (n - length us) blank"
    using l i by (auto simp: layout_def list_update_append)
  show ?thesis
  proof (cases "i = ?m")
    case True
    then have "keyOf (?ys ! j) = undef" if "i < j" "j < n" for j
      using used [of j] that by auto
    then have "lastUsedAbove (\<lambda>x. keyOf x \<noteq> undef) ?ys i = None"
      using n unfolding lastUsedAbove_def find_None_iff by auto
    moreover have "us[i := blank] = butlast us @ [blank]"
      using True i by (subst us) (simp add: list_update_append)
    ultimately show ?thesis
      unfolding R using True X by (simp add: moveLastTo_def list_update_beyond)
  next
    case False
    then have "lastUsedAbove (\<lambda>x. keyOf x \<noteq> undef) ?ys i = Some ?m"
    proof -
      have "keyOf (?ys ! ?m) \<noteq> undef" using used [of ?m] False i n by auto
      moreover have "\<not> keyOf (?ys ! k) \<noteq> undef" if "?m < k" "k < n" for k
        using used [of k] that by auto
      ultimately show ?thesis
        unfolding lastUsedAbove_def using False i n by (intro find_rev_upt_eq) simp_all
    qed
    moreover have "?ys ! ?m = last us"
    proof -
      have "us \<noteq> []" using i by auto
      then show ?thesis
        using ys [of ?m] False n i l by (auto simp: layout_def nth_append last_conv_nth)
    qed
    moreover have "?ys[i := last us, ?m := blank] = (butlast us)[i := last us] @ blank # replicate (n - length us) blank"
    proof -
      have "i < length us - Suc 0" using False i by simp
      then show ?thesis
        unfolding X by (subst us, subst us) (simp add: list_update_append)
    qed
    ultimately show ?thesis by (simp add: R moveLastTo_def)
  qed
qed

lemma removed_mset:
  assumes "i < length us"
  shows "mset (us ! i # (butlast us)[i := last us]) = mset us"
proof (cases us rule: rev_cases)
  case (snoc ys y)
  then show ?thesis
    using assms by (cases "i < length ys") (auto simp: mset_update nth_append list_update_beyond)
qed (use assms in auto)

lemma layout_remove:
  assumes l: "layout us n xs" and i: "i < length us"
  defines "us' \<equiv> (butlast us)[i := last us]"
  shows "layout us' n (moveLastTo blank (\<lambda>x. keyOf x \<noteq> undef) i (xs[i := blank]))"
    and "lookup (moveLastTo blank (\<lambda>x. keyOf x \<noteq> undef) i (xs[i := blank]))
           = (lookup xs)(keyOf (us ! i) := None)"
proof -
  have ms: "mset (us ! i # us') = mset us"
    unfolding us'_def by (rule removed_mset [OF i])
  then have "mset (map keyOf (us ! i # us')) = mset (map keyOf us)"
    by (metis mset_map)
  then have "distinct (map keyOf (us ! i # us'))"
    using l mset_eq_imp_distinct_iff by (metis layout_def)
  then have dk: "distinct (map keyOf us')" and ni: "us ! i \<notin> set us'" by auto
  have set': "set us' = set us - {us ! i}"
    using mset_eq_setD [OF ms] ni by auto
  have len: "length us' \<le> n" using l by (auto simp: us'_def layout_def)
  show l': "layout us' n (moveLastTo blank (\<lambda>x. keyOf x \<noteq> undef) i (xs[i := blank]))"
    unfolding layout_def remove_slot [OF l i, folded us'_def]
    using len dk set' l by (auto simp: layout_def)
  show "lookup (moveLastTo blank (\<lambda>x. keyOf x \<noteq> undef) i (xs[i := blank]))
           = (lookup xs)(keyOf (us ! i) := None)"
    using set' i key_inj [OF l] by (intro lookup_eqI [OF l']) (auto simp: lookup_iff [OF l])
qed

end

section \<open>Group dispatch on any store of counters\<close>

text \<open>
  What the dispatch of group messages needs of the table: \<open>access\<close> finds the sender's counter
  or adds a fresh one, and fails only for senders it does not know; \<open>deref\<close> reads through the
  returned reference and \<open>put\<close> writes through it.  The contents are the map \<open>cmap\<close>.
\<close>

locale keyed_counters =
  fixes inv :: "'t \<Rightarrow> bool"
    and cmap :: "'t \<Rightarrow> 'k \<rightharpoonup> peer_counter"
    and access :: "'t \<Rightarrow> 'k \<Rightarrow> 'e + 'r \<times> 't"
    and points :: "'t \<Rightarrow> 'r \<Rightarrow> 'k \<Rightarrow> bool"
    and deref :: "'t \<Rightarrow> 'r \<Rightarrow> peer_counter"
    and put :: "'t \<Rightarrow> 'r \<Rightarrow> peer_counter \<Rightarrow> 't"
  assumes access_ok: "inv t \<Longrightarrow> access t k = Inr (r, t') \<Longrightarrow> inv t' \<and> points t' r k \<and>
            cmap t' = (if cmap t k = None then (cmap t)(k \<mapsto> NotSynced) else cmap t)"
    and access_fails: "inv t \<Longrightarrow> access t k = Inl e \<Longrightarrow> cmap t k = None"
    and deref_ok: "points t r k \<Longrightarrow> cmap t k = Some (deref t r)"
    and put_ok: "points t r k \<Longrightarrow> inv (put t r pc) \<and> cmap (put t r pc) = (cmap t)(k \<mapsto> pc)"
begin

definition dispatch :: "'t \<Rightarrow> 'k \<Rightarrow> bool \<Rightarrow> u32 \<Rightarrow> bool \<times> 't" where
  "dispatch t k trustFirst c =
     (case access t k of
        Inl _ \<Rightarrow> (False, t)
      | Inr (r, t1) \<Rightarrow>
          (if \<not> trustFirst then (False, t1)
           else case groupCounterDispatch (deref t1 r) c of (fresh, pc) \<Rightarrow> (fresh, put t1 r pc)))"

fun run :: "'t \<Rightarrow> ('k \<times> bool \<times> u32) list \<Rightarrow> ('k \<times> u32) list" where
  "run t [] = []"
| "run t ((k, trustFirst, c) # ms) =
     (case dispatch t k trustFirst c of
        (fresh, t') \<Rightarrow> (if fresh then [(k, c)] else []) @ run t' ms)"

definition sent_by :: "'k \<Rightarrow> ('k \<times> bool \<times> u32) list \<Rightarrow> u32 list" where
  "sent_by k ms = map (\<lambda>(_, _, c). c) (filter (\<lambda>(a, trustFirst, _). a = k \<and> trustFirst) ms)"

definition accepted_of :: "'k \<Rightarrow> ('k \<times> u32) list \<Rightarrow> u32 list" where
  "accepted_of k us = map snd (filter (\<lambda>(a, _). a = k) us)"

lemma sent_by_Cons:
  "sent_by k ((a, tf, c) # ms) = (if a = k \<and> tf then c # sent_by k ms else sent_by k ms)"
  by (simp add: sent_by_def)

lemma accepted_of_Cons:
  "accepted_of k ((a, c) # us) = (if a = k then c # accepted_of k us else accepted_of k us)"
  by (simp add: accepted_of_def)

lemma dispatch_inv:
  assumes "inv t" "dispatch t k tf c = (fresh, t')"
  shows "inv t'"
proof (cases "access t k")
  case (Inr x)
  obtain r t1 where x: "x = (r, t1)" by (cases x)
  have ok: "points t1 r k" "inv t1"
    using access_ok [OF assms(1) Inr [unfolded x]] by auto
  then show ?thesis
    using assms(2) Inr x put_ok [OF ok(1)] by (auto simp: dispatch_def split: if_splits prod.splits)
qed (use assms in \<open>simp add: dispatch_def\<close>)

lemma dispatch_other:
  assumes "inv t" "dispatch t a tf c = (fresh, t')" "a \<noteq> k"
  shows "cmap t' k = cmap t k"
proof (cases "access t a")
  case (Inr x)
  obtain r t1 where x: "x = (r, t1)" by (cases x)
  have ok: "points t1 r a" "cmap t1 k = cmap t k"
    using access_ok [OF assms(1) Inr [unfolded x]] assms(3) by auto
  then show ?thesis
    using assms Inr x put_ok [OF ok(1)] by (auto simp: dispatch_def split: if_splits prod.splits)
qed (use assms in \<open>simp add: dispatch_def\<close>)

lemma dispatch_known:
  assumes i: "inv t" and "cmap t k = Some pc" and d: "dispatch t k tf c = (fresh, t')"
  shows "if tf then \<exists>pc'. groupCounterDispatch pc c = (fresh, pc') \<and> cmap t' k = Some pc'
         else \<not> fresh \<and> cmap t' k = Some pc"
proof (cases "access t k")
  case (Inl e)
  then show ?thesis using access_fails [OF i Inl] assms(2) by simp
next
  case (Inr x)
  obtain r t1 where x: "x = (r, t1)" by (cases x)
  note acc = access_ok [OF i Inr [unfolded x]]
  then have pt: "points t1 r k" "cmap t1 k = Some pc" using assms(2) by auto
  then have "deref t1 r = pc" using deref_ok by force
  then show ?thesis
    using d Inr x put_ok [OF pt(1)] pt(2) by (auto simp: dispatch_def split: prod.splits)
qed

lemma dispatch_unknown:
  assumes i: "inv t" and "cmap t k = None" and d: "dispatch t k tf c = (fresh, t')"
  shows "\<not> fresh \<and> cmap t' k = None \<or> \<not> tf \<and> \<not> fresh \<and> cmap t' k = Some NotSynced \<or>
         tf \<and> (\<exists>pc'. groupCounterDispatch NotSynced c = (fresh, pc') \<and> cmap t' k = Some pc')"
proof (cases "access t k")
  case (Inl e)
  then show ?thesis using d assms(2) by (simp add: dispatch_def)
next
  case (Inr x)
  obtain r t1 where x: "x = (r, t1)" by (cases x)
  note acc = access_ok [OF i Inr [unfolded x]]
  then have pt: "points t1 r k" "cmap t1 k = Some NotSynced" using assms(2) by auto
  then have "deref t1 r = NotSynced" using deref_ok by force
  then show ?thesis
    using d Inr x put_ok [OF pt(1)] pt(2) by (auto simp: dispatch_def split: prod.splits if_splits)
qed

lemma run_known:
  assumes "inv t" "cmap t k = Some pc"
  shows "accepted_of k (run t ms) = groupDispatch_all pc (sent_by k ms)"
  using assms
proof (induction ms arbitrary: t pc)
  case Nil
  then show ?case by (simp add: accepted_of_def sent_by_def)
next
  case (Cons m ms)
  obtain a tf c where m: "m = (a, tf, c)" by (cases m)
  obtain fresh t' where d: "dispatch t a tf c = (fresh, t')" by fastforce
  have i: "inv t'" using dispatch_inv [OF Cons.prems(1) d] .
  show ?case
  proof (cases "a = k")
    case True
    then show ?thesis
      using dispatch_known [OF Cons.prems d [unfolded True]] Cons.IH [OF i] d
      by (auto simp: m accepted_of_Cons sent_by_Cons split: if_splits)
  next
    case False
    then show ?thesis
      using dispatch_other [OF Cons.prems(1) d False] Cons.IH [OF i] Cons.prems(2) d
      by (auto simp: m accepted_of_Cons sent_by_Cons)
  qed
qed

lemma run_unknown:
  assumes "inv t" "cmap t k = None"
  shows "\<exists>cs. set cs \<subseteq> set (sent_by k ms) \<and> accepted_of k (run t ms) = groupDispatch_all NotSynced cs"
  using assms
proof (induction ms arbitrary: t)
  case Nil
  then show ?case by (auto simp: accepted_of_def sent_by_def intro: exI [of _ "[]"])
next
  case (Cons m ms)
  obtain a tf c where m: "m = (a, tf, c)" by (cases m)
  obtain fresh t' where d: "dispatch t a tf c = (fresh, t')" by fastforce
  have i: "inv t'" using dispatch_inv [OF Cons.prems(1) d] .
  have acc: "accepted_of k (run t (m # ms))
               = (if fresh \<and> a = k then [c] else []) @ accepted_of k (run t' ms)"
    using d by (simp add: m accepted_of_Cons)
  have sub: "set (sent_by k ms) \<subseteq> set (sent_by k (m # ms))" by (auto simp: m sent_by_Cons)
  show ?case
  proof (cases "a = k \<and> cmap t' k \<noteq> None")
    case False
    then have "cmap t' k = None \<and> \<not> (fresh \<and> a = k)"
      using dispatch_other [OF Cons.prems(1) d, of k] dispatch_unknown [OF Cons.prems, of tf c fresh t'] Cons.prems(2) d
      by (cases "a = k") auto
    then show ?thesis using Cons.IH [OF i] acc sub by auto
  next
    case True
    then consider "\<not> tf" "\<not> fresh" "cmap t' k = Some NotSynced"
      | pc' where "tf" "groupCounterDispatch NotSynced c = (fresh, pc')" "cmap t' k = Some pc'"
      using dispatch_unknown [OF Cons.prems, of tf c fresh t'] d by auto
    then show ?thesis
    proof cases
      case 1
      then show ?thesis
        using run_known [OF i 1(3), of ms] acc sub by auto
    next
      case 2
      have "accepted_of k (run t (m # ms)) = groupDispatch_all NotSynced (c # sent_by k ms)"
        using acc True run_known [OF i 2(3), of ms] 2(2) by simp
      moreover have "set (c # sent_by k ms) \<subseteq> set (sent_by k (m # ms))"
        using True 2(1) by (simp add: sent_by_Cons m)
      ultimately show ?thesis by blast
    qed
  qed
qed

end

section \<open>The table\<close>

definition CHIP_CONFIG_MAX_FABRICS :: nat where "CHIP_CONFIG_MAX_FABRICS = 6"
definition CHIP_CONFIG_MAX_GROUP_DATA_PEERS :: nat where "CHIP_CONFIG_MAX_GROUP_DATA_PEERS = 15"
definition CHIP_CONFIG_MAX_GROUP_CONTROL_PEERS :: nat where "CHIP_CONFIG_MAX_GROUP_CONTROL_PEERS = 2"

abbreviation kUndefinedFabricIndex :: FabricIndex where "kUndefinedFabricIndex \<equiv> 0"
abbreviation kUndefinedNodeId :: NodeId where "kUndefinedNodeId \<equiv> 0"

record GroupSender =
  mNodeId :: NodeId
  msgCounter :: peer_counter

record GroupFabric =
  mFabricIndex :: FabricIndex
  mControlPeerCount :: u8
  mDataPeerCount :: u8
  mDataGroupSenders :: "GroupSender list"
  mControlGroupSenders :: "GroupSender list"

definition newGroupSender :: GroupSender where
  "newGroupSender = \<lparr>mNodeId = kUndefinedNodeId, msgCounter = NotSynced\<rparr>"

definition newGroupFabric :: GroupFabric where
  "newGroupFabric =
     \<lparr>mFabricIndex = kUndefinedFabricIndex, mControlPeerCount = 0, mDataPeerCount = 0,
      mDataGroupSenders = replicate CHIP_CONFIG_MAX_GROUP_DATA_PEERS newGroupSender,
      mControlGroupSenders = replicate CHIP_CONFIG_MAX_GROUP_CONTROL_PEERS newGroupSender\<rparr>"

definition newTable :: "GroupFabric list" where
  "newTable = replicate CHIP_CONFIG_MAX_FABRICS newGroupFabric"

text \<open>The code has the same statements once for control and once for data senders.\<close>

definition senders :: "bool \<Rightarrow> GroupFabric \<Rightarrow> GroupSender list" where
  "senders isControl f = (if isControl then mControlGroupSenders f else mDataGroupSenders f)"

definition maxPeers :: "bool \<Rightarrow> nat" where
  "maxPeers isControl =
     (if isControl then CHIP_CONFIG_MAX_GROUP_CONTROL_PEERS else CHIP_CONFIG_MAX_GROUP_DATA_PEERS)"

definition setSenders :: "bool \<Rightarrow> GroupSender list \<Rightarrow> GroupFabric \<Rightarrow> GroupFabric" where
  "setSenders isControl xs f =
     (if isControl then f\<lparr>mControlGroupSenders := xs\<rparr> else f\<lparr>mDataGroupSenders := xs\<rparr>)"

definition addPeerCount :: "bool \<Rightarrow> u8 \<Rightarrow> GroupFabric \<Rightarrow> GroupFabric" where
  "addPeerCount isControl d f =
     (if isControl then f\<lparr>mControlPeerCount := mControlPeerCount f + d\<rparr>
      else f\<lparr>mDataPeerCount := mDataPeerCount f + d\<rparr>)"

text \<open>Write the node id into slot \<open>j\<close> and count it; the counter of the slot stays as it is.\<close>

definition addSender :: "bool \<Rightarrow> nat \<Rightarrow> NodeId \<Rightarrow> GroupFabric \<Rightarrow> GroupFabric" where
  "addSender isControl j nodeId f =
     addPeerCount isControl 1
       (setSenders isControl
          ((senders isControl f)[j := (senders isControl f ! j)\<lparr>mNodeId := nodeId\<rparr>]) f)"

text \<open>The pointer \<open>counter\<close> is the position of the sender: fabric slot, kind and sender slot.\<close>

type_synonym peer_ref = "nat \<times> bool \<times> nat"

definition FindOrAddPeer ::
    "GroupFabric list \<Rightarrow> FabricIndex \<Rightarrow> NodeId \<Rightarrow> bool \<Rightarrow> peer_ref result \<times> GroupFabric list" where
  "FindOrAddPeer T fabricIndex nodeId isControl =
     (if fabricIndex = kUndefinedFabricIndex \<or> nodeId = kUndefinedNodeId
      then (Inl CHIP_ERROR_INVALID_ARGUMENT, T)
      else case firstFreeOrKey mFabricIndex kUndefinedFabricIndex fabricIndex T of
        None \<Rightarrow> (Inl CHIP_ERROR_TOO_MANY_PEER_NODES, T)
      | Some i \<Rightarrow>
          (if mFabricIndex (T ! i) = kUndefinedFabricIndex
           then (Inr (i, isControl, 0),
                 T[i := addSender isControl 0 nodeId ((T ! i)\<lparr>mFabricIndex := fabricIndex\<rparr>)])
           else case firstFreeOrKey mNodeId kUndefinedNodeId nodeId (senders isControl (T ! i)) of
             None \<Rightarrow> (Inl CHIP_ERROR_TOO_MANY_PEER_NODES, T)
           | Some j \<Rightarrow>
               (if mNodeId (senders isControl (T ! i) ! j) = kUndefinedNodeId
                then (Inr (i, isControl, j), T[i := addSender isControl j nodeId (T ! i)])
                else (Inr (i, isControl, j), T))))"

definition CompactPeers :: "GroupSender list \<Rightarrow> nat \<Rightarrow> GroupSender list" where
  "CompactPeers xs n =
     fold (\<lambda>peerIndex ys.
             if mNodeId (ys ! peerIndex) \<noteq> kUndefinedNodeId then ys
             else moveLastTo newGroupSender (\<lambda>x. mNodeId x \<noteq> kUndefinedNodeId) peerIndex ys)
       [0..<n] xs"

definition RemoveSpecificPeer :: "GroupSender list \<Rightarrow> NodeId \<Rightarrow> nat \<Rightarrow> bool \<times> GroupSender list" where
  "RemoveSpecificPeer xs nodeId n =
     (case firstKey mNodeId nodeId (take n xs) of
        None \<Rightarrow> (False, xs)
      | Some i \<Rightarrow> (True, CompactPeers (xs[i := \<lparr>mNodeId = kUndefinedNodeId,
                                              msgCounter = Reset (msgCounter (xs ! i))\<rparr>]) n))"

definition RemoveAndCompactFabric :: "GroupFabric list \<Rightarrow> nat \<Rightarrow> GroupFabric list" where
  "RemoveAndCompactFabric T tableIndex =
     (if tableIndex \<ge> CHIP_CONFIG_MAX_FABRICS then T
      else moveLastTo newGroupFabric (\<lambda>f. mFabricIndex f \<noteq> kUndefinedFabricIndex) tableIndex
             (T[tableIndex := newGroupFabric]))"

definition RemovePeer ::
    "GroupFabric list \<Rightarrow> FabricIndex \<Rightarrow> NodeId \<Rightarrow> bool \<Rightarrow> unit result \<times> GroupFabric list" where
  "RemovePeer T fabricIndex nodeId isControl =
     (if fabricIndex = kUndefinedFabricIndex \<or> nodeId = kUndefinedNodeId
      then (Inl CHIP_ERROR_INVALID_ARGUMENT, T)
      else case firstKey mFabricIndex fabricIndex (take CHIP_CONFIG_MAX_FABRICS T) of
        None \<Rightarrow> (Inl CHIP_ERROR_NOT_FOUND, T)
      | Some it \<Rightarrow>
          (case RemoveSpecificPeer (senders isControl (T ! it)) nodeId (maxPeers isControl) of
             (False, _) \<Rightarrow> (Inl CHIP_ERROR_NOT_FOUND, T)
           | (True, xs) \<Rightarrow>
               (let f = addPeerCount isControl (- 1) (setSenders isControl xs (T ! it));
                    T' = T[it := f] in
                if mDataPeerCount f = 0 \<and> mControlPeerCount f = 0
                then (Inr (), RemoveAndCompactFabric T' it) else (Inr (), T'))))"

definition FabricRemoved :: "GroupFabric list \<Rightarrow> FabricIndex \<Rightarrow> unit result \<times> GroupFabric list" where
  "FabricRemoved T fabricIndex =
     (if fabricIndex = kUndefinedFabricIndex then (Inl CHIP_ERROR_INVALID_ARGUMENT, T)
      else case firstKey mFabricIndex fabricIndex (take CHIP_CONFIG_MAX_FABRICS T) of
        None \<Rightarrow> (Inl CHIP_ERROR_NOT_FOUND, T)
      | Some it \<Rightarrow> (Inr (), RemoveAndCompactFabric T it))"

text \<open>Reading and writing the counter the reference points to.\<close>

definition counterAt :: "GroupFabric list \<Rightarrow> peer_ref \<Rightarrow> peer_counter" where
  "counterAt T = (\<lambda>(i, isControl, j). msgCounter (senders isControl (T ! i) ! j))"

definition setCounterAt :: "GroupFabric list \<Rightarrow> peer_ref \<Rightarrow> peer_counter \<Rightarrow> GroupFabric list" where
  "setCounterAt T = (\<lambda>(i, isControl, j) pc.
     T[i := setSenders isControl
              ((senders isControl (T ! i))[j := (senders isControl (T ! i) ! j)\<lparr>msgCounter := pc\<rparr>])
              (T ! i)])"

text \<open>
  The counter part of \<open>SessionManager::SecureGroupMessageDispatch\<close>; \<open>trustFirst\<close> is the
  security policy of the key set the message was encrypted with.
\<close>

definition secureGroupDispatch ::
    "GroupFabric list \<Rightarrow> FabricIndex \<Rightarrow> NodeId \<Rightarrow> bool \<Rightarrow> bool \<Rightarrow> u32 \<Rightarrow> bool \<times> GroupFabric list" where
  "secureGroupDispatch T fabricIndex nodeId isControl trustFirst counter =
     (case FindOrAddPeer T fabricIndex nodeId isControl of
        (Inl _, T1) \<Rightarrow> (False, T1)
      | (Inr r, T1) \<Rightarrow>
          (if \<not> trustFirst then (False, T1)
           else case groupCounterDispatch (counterAt T1 r) counter of
             (fresh, pc) \<Rightarrow> (fresh, setCounterAt T1 r pc)))"

section \<open>The table refines a map\<close>

interpretation sndr: slots mNodeId kUndefinedNodeId newGroupSender
  by unfold_locales (simp add: newGroupSender_def)

interpretation fabs: slots mFabricIndex kUndefinedFabricIndex newGroupFabric
  by unfold_locales (simp add: newGroupFabric_def)

definition peerCount :: "bool \<Rightarrow> GroupFabric \<Rightarrow> u8" where
  "peerCount isControl f = (if isControl then mControlPeerCount f else mDataPeerCount f)"

definition senders_ok :: "GroupFabric \<Rightarrow> bool \<Rightarrow> GroupSender list \<Rightarrow> bool" where
  "senders_ok f c ss \<longleftrightarrow>
     sndr.layout ss (maxPeers c) (senders c f) \<and> peerCount c f = of_nat (length ss)"

definition fabric_ok :: "GroupFabric \<Rightarrow> bool" where
  "fabric_ok f \<longleftrightarrow> (\<forall>c. \<exists>ss. senders_ok f c ss)"

definition table_ok :: "GroupFabric list \<Rightarrow> bool" where
  "table_ok T \<longleftrightarrow> (\<exists>us. fabs.layout us CHIP_CONFIG_MAX_FABRICS T \<and>
     (\<forall>f\<in>set us. fabric_ok f \<and> (\<exists>c. peerCount c f \<noteq> 0)))"

definition sender_map :: "GroupFabric \<Rightarrow> NodeId \<times> bool \<rightharpoonup> peer_counter" where
  "sender_map f = (\<lambda>(n, c). map_option msgCounter (sndr.lookup (senders c f) n))"

definition peer_map :: "GroupFabric list \<Rightarrow> FabricIndex \<times> NodeId \<times> bool \<rightharpoonup> peer_counter" where
  "peer_map T = (\<lambda>(f, k). Option.bind (fabs.lookup T f) (\<lambda>g. sender_map g k))"

lemma sender_fields [simp]:
  "senders a (setSenders c xs f) = (if a = c then xs else senders a f)"
  "senders a (addPeerCount c d f) = senders a f"
  "senders a (f\<lparr>mFabricIndex := v\<rparr>) = senders a f"
  "peerCount a (setSenders c xs f) = peerCount a f"
  "peerCount a (addPeerCount c d f) = (if a = c then peerCount a f + d else peerCount a f)"
  "peerCount a (f\<lparr>mFabricIndex := v\<rparr>) = peerCount a f"
  "mFabricIndex (setSenders c xs f) = mFabricIndex f"
  "mFabricIndex (addPeerCount c d f) = mFabricIndex f"
  by (auto simp: senders_def setSenders_def addPeerCount_def peerCount_def)

lemma blank_sender: "mNodeId newGroupSender = 0" "msgCounter newGroupSender = NotSynced"
  by (simp_all add: newGroupSender_def)

lemma maxPeers_bounds: "0 < maxPeers c" "maxPeers c \<le> 15"
  by (auto simp: maxPeers_def CHIP_CONFIG_MAX_GROUP_DATA_PEERS_def CHIP_CONFIG_MAX_GROUP_CONTROL_PEERS_def)

lemma count_zero:
  assumes "senders_ok f c ss"
  shows "peerCount c f = 0 \<longleftrightarrow> ss = []"
proof -
  have "length ss \<le> 15"
    using assms maxPeers_bounds(2) [of c] by (auto simp: senders_ok_def sndr.layout_def)
  then have "unat (of_nat (length ss) :: u8) = length ss"
    by (simp add: unat_of_nat)
  then have "(of_nat (length ss) :: u8) = 0 \<longleftrightarrow> length ss = 0"
    by (simp only: unat_eq_zero [symmetric])
  then show ?thesis using assms by (simp add: senders_ok_def)
qed

lemma fabric_okI:
  assumes "senders_ok f c ss" "\<And>a. a \<noteq> c \<Longrightarrow> \<exists>ss. senders_ok f a ss"
  shows "fabric_ok f"
  unfolding fabric_ok_def
proof
  fix a
  show "\<exists>ss. senders_ok f a ss" using assms by (cases "a = c") auto
qed

lemma sender_map_eqI:
  assumes "\<And>n. map_option msgCounter (sndr.lookup (senders c f) n) = m (n, c)"
    and "\<And>a. a \<noteq> c \<Longrightarrow> senders a f = senders a g"
    and "\<And>n a. a \<noteq> c \<Longrightarrow> m (n, a) = sender_map g (n, a)"
  shows "sender_map f = m"
proof
  fix k :: "NodeId \<times> bool"
  obtain n a where k: "k = (n, a)" by (cases k)
  show "sender_map f k = m k"
    unfolding k using assms by (cases "a = c") (auto simp: sender_map_def)
qed

lemma addSender_ok:
  assumes f: "fabric_ok f" and ss: "senders_ok f c ss" and "length ss < maxPeers c"
    and n: "n \<noteq> 0" "n \<notin> mNodeId ` set ss"
  shows "fabric_ok (addSender c (length ss) n f)"
    and "senders_ok (addSender c (length ss) n f) c (ss @ [newGroupSender\<lparr>mNodeId := n\<rparr>])"
    and "sender_map (addSender c (length ss) n f) = (sender_map f)((n, c) \<mapsto> NotSynced)"
proof -
  let ?xs = "senders c f" and ?x = "newGroupSender\<lparr>mNodeId := n\<rparr>"
  have l: "sndr.layout ss (maxPeers c) ?xs" using ss by (simp add: senders_ok_def)
  have "?xs ! length ss = newGroupSender"
    using l assms(3) by (simp add: sndr.layout_def nth_append)
  then have s: "senders c (addSender c (length ss) n f) = ?xs[length ss := ?x]"
    by (simp add: addSender_def)
  have o: "senders a (addSender c (length ss) n f) = senders a f"
          "peerCount a (addSender c (length ss) n f) = peerCount a f" if "a \<noteq> c" for a
    using that by (simp_all add: addSender_def)
  note add = sndr.layout_add [OF l assms(3), of ?x]
  show ok: "senders_ok (addSender c (length ss) n f) c (ss @ [?x])"
    using add(1) n ss by (simp add: senders_ok_def s) (simp add: addSender_def)
  show "fabric_ok (addSender c (length ss) n f)"
    using fabric_okI [OF ok] f o unfolding fabric_ok_def senders_ok_def by metis
  show "sender_map (addSender c (length ss) n f) = (sender_map f)((n, c) \<mapsto> NotSynced)"
    using add(2) n by (intro sender_map_eqI [where c = c and g = f])
      (auto simp: s o sender_map_def blank_sender)
qed

definition putCounter :: "bool \<Rightarrow> nat \<Rightarrow> peer_counter \<Rightarrow> GroupFabric \<Rightarrow> GroupFabric" where
  "putCounter c j pc f = setSenders c ((senders c f)[j := (senders c f ! j)\<lparr>msgCounter := pc\<rparr>]) f"

lemma putCounter_ok:
  assumes f: "fabric_ok f" and ss: "senders_ok f c ss" and j: "j < length ss" "mNodeId (ss ! j) = n"
  shows "fabric_ok (putCounter c j pc f)"
    and "sender_map (putCounter c j pc f) = (sender_map f)((n, c) \<mapsto> pc)"
proof -
  let ?xs = "senders c f" and ?x = "(senders c f ! j)\<lparr>msgCounter := pc\<rparr>"
  have l: "sndr.layout ss (maxPeers c) ?xs" using ss by (simp add: senders_ok_def)
  have xj: "?xs ! j = ss ! j" using l j by (simp add: sndr.layout_def nth_append)
  note upd = sndr.layout_update [OF l j(1), of ?x]
  have ok: "senders_ok (putCounter c j pc f) c (ss[j := ?x])"
    using upd(1) ss xj by (simp add: senders_ok_def putCounter_def)
  show "fabric_ok (putCounter c j pc f)"
    using f by (intro fabric_okI [OF ok]) (auto simp: fabric_ok_def senders_ok_def putCounter_def)
  show "sender_map (putCounter c j pc f) = (sender_map f)((n, c) \<mapsto> pc)"
    using upd(2) j xj by (intro sender_map_eqI [where c = c and g = f])
      (auto simp: sender_map_def putCounter_def)
qed

lemma CompactPeers_moves_last:
  assumes l: "sndr.layout ss n xs" and i: "i < length ss"
  shows "CompactPeers (xs[i := newGroupSender]) n
           = moveLastTo newGroupSender (\<lambda>x. mNodeId x \<noteq> 0) i (xs[i := newGroupSender])"
proof -
  let ?step = "\<lambda>p ys. if mNodeId (ys ! p) \<noteq> 0 then ys
                     else moveLastTo newGroupSender (\<lambda>x. mNodeId x \<noteq> 0) p ys"
  let ?ys = "xs[i := newGroupSender]"
  let ?zs = "moveLastTo newGroupSender (\<lambda>x. mNodeId x \<noteq> 0) i ?ys"
  have n: "i < n" "length xs = n" using l i by (auto simp: sndr.layout_def)
  have "fold ?step [0..<k] ?ys = ?ys" if "k \<le> i" for k
    using that
  proof (induction k)
    case (Suc k)
    have "mNodeId (?ys ! k) \<noteq> 0"
      using sndr.layout_used [OF l, of k] Suc.prems i n by simp
    then show ?case using Suc by simp
  qed simp
  moreover have "?step i ?ys = ?zs"
    using n by (simp add: blank_sender)
  moreover have "fold ?step [Suc i..<n] ?zs = ?zs"
  proof -
    have keep: "fold ?step ps ?zs = ?zs" if "set ps \<subseteq> {..<n}" for ps
      using that sndr.moveLastTo_full [OF sndr.layout_remove(1) [OF l i]]
      by (induction ps) auto
    show ?thesis by (rule keep) auto
  qed
  moreover have "[0..<n] = [0..<i] @ i # [Suc i..<n]"
    using n(1) by (metis append.assoc less_imp_le_nat upt_conv_Cons upt_add_eq_append
        le_add_diff_inverse le0)
  ultimately show ?thesis by (simp add: CompactPeers_def)
qed

definition dropSender :: "bool \<Rightarrow> GroupSender list \<Rightarrow> GroupFabric \<Rightarrow> GroupFabric" where
  "dropSender c xs f = addPeerCount c (- 1) (setSenders c xs f)"

lemma dropSender_ok:
  assumes f: "fabric_ok f" and ss: "senders_ok f c ss" and j: "j < length ss" "mNodeId (ss ! j) = n"
  shows "\<exists>xs. RemoveSpecificPeer (senders c f) n (maxPeers c) = (True, xs) \<and>
              fabric_ok (dropSender c xs f) \<and>
              sender_map (dropSender c xs f) = (sender_map f)((n, c) := None)"
proof -
  let ?xs = "senders c f"
  have l: "sndr.layout ss (maxPeers c) ?xs" using ss by (simp add: senders_ok_def)
  let ?zs = "moveLastTo newGroupSender (\<lambda>x. mNodeId x \<noteq> 0) j (?xs[j := newGroupSender])"
  have "firstKey mNodeId n (take (maxPeers c) ?xs) = Some j"
    using sndr.firstFreeOrKey_present(2) [OF l j] sndr.layout_length [OF l] by simp
  then have rem: "RemoveSpecificPeer ?xs n (maxPeers c) = (True, ?zs)"
    using CompactPeers_moves_last [OF l j(1)]
    by (simp add: RemoveSpecificPeer_def Reset_def newGroupSender_def)
  note dr = sndr.layout_remove [OF l j(1)]
  have "of_nat (length ss) - 1 = (of_nat (length ss - 1) :: u8)"
    using j(1) by (simp add: of_nat_diff)
  then have ok: "senders_ok (dropSender c ?zs f) c ((butlast ss)[j := last ss])"
    using dr(1) ss by (simp add: senders_ok_def dropSender_def)
  have "fabric_ok (dropSender c ?zs f)"
    using f by (intro fabric_okI [OF ok]) (auto simp: fabric_ok_def senders_ok_def dropSender_def)
  moreover have "sender_map (dropSender c ?zs f) = (sender_map f)((n, c) := None)"
    using dr(2) j by (intro sender_map_eqI [where c = c and g = f])
      (auto simp: sender_map_def dropSender_def)
  ultimately show ?thesis using rem by blast
qed

definition table_with :: "GroupFabric list \<Rightarrow> GroupFabric list \<Rightarrow> bool" where
  "table_with us T \<longleftrightarrow> fabs.layout us CHIP_CONFIG_MAX_FABRICS T \<and>
     (\<forall>f\<in>set us. fabric_ok f \<and> (\<exists>c. peerCount c f \<noteq> 0))"

lemma table_ok_iff: "table_ok T \<longleftrightarrow> (\<exists>us. table_with us T)"
  by (simp add: table_ok_def table_with_def)

lemma peer_map_at:
  assumes "table_with us T" "i < length us"
  shows "peer_map T (mFabricIndex (us ! i), k) = sender_map (us ! i) k"
  using fabs.lookup_Some [of us CHIP_CONFIG_MAX_FABRICS T i] assms
  by (simp add: peer_map_def table_with_def)

lemma table_nth: "table_with us T \<Longrightarrow> i < length us \<Longrightarrow> T ! i = us ! i"
  by (simp add: table_with_def fabs.layout_def nth_append)

lemma table_update:
  assumes t: "table_with us T" and i: "i < length us" and g: "mFabricIndex g = mFabricIndex (us ! i)"
    and ok: "fabric_ok g" "\<exists>c. peerCount c g \<noteq> 0"
    and m: "sender_map g = (sender_map (us ! i))(k := v)"
  shows "table_with (us[i := g]) (T[i := g])"
    and "peer_map (T[i := g]) = (peer_map T)((mFabricIndex g, k) := v)"
proof -
  have l: "fabs.layout us CHIP_CONFIG_MAX_FABRICS T" using t by (simp add: table_with_def)
  note upd = fabs.layout_update [OF l i g]
  show "table_with (us[i := g]) (T[i := g])"
    using t upd(1) ok set_update_subset_insert [of us i g] by (auto simp: table_with_def)
  show "peer_map (T[i := g]) = (peer_map T)((mFabricIndex g, k) := v)"
    using upd(2) m peer_map_at [OF t i] g by (auto simp: peer_map_def fun_eq_iff)
qed

text \<open>\<open>refers T r k\<close>: the reference \<open>r\<close> points to the sender with key \<open>k\<close>.\<close>

definition refers :: "GroupFabric list \<Rightarrow> peer_ref \<Rightarrow> FabricIndex \<times> NodeId \<times> bool \<Rightarrow> bool" where
  "refers T = (\<lambda>(i, a, j) (f, n, c). a = c \<and>
     (\<exists>us ss. table_with us T \<and> i < length us \<and> mFabricIndex (us ! i) = f \<and>
        senders_ok (us ! i) c ss \<and> j < length ss \<and> mNodeId (ss ! j) = n))"

lemma refers_lookup:
  assumes "refers T r k"
  shows "peer_map T k = Some (counterAt T r)"
proof -
  obtain i c j f n us ss where r: "r = (i, c, j)" "k = (f, n, c)" and t: "table_with us T" and
    i: "i < length us" "mFabricIndex (us ! i) = f" and ss: "senders_ok (us ! i) c ss" and
    j: "j < length ss" "mNodeId (ss ! j) = n"
    using assms by (auto simp: refers_def split: prod.splits)
  have l: "sndr.layout ss (maxPeers c) (senders c (us ! i))" using ss by (simp add: senders_ok_def)
  have "senders c (us ! i) ! j = ss ! j" using l j by (simp add: sndr.layout_def nth_append)
  moreover have "sender_map (us ! i) (n, c) = Some (msgCounter (ss ! j))"
    using sndr.lookup_Some [OF l j(1)] j by (simp add: sender_map_def)
  ultimately show ?thesis
    using peer_map_at [OF t i(1)] i(2) table_nth [OF t i(1)] by (simp add: r counterAt_def)
qed

lemma setCounterAt_ok:
  assumes "refers T r k"
  shows "table_ok (setCounterAt T r pc)" "peer_map (setCounterAt T r pc) = (peer_map T)(k \<mapsto> pc)"
proof -
  obtain i c j f n us ss where r: "r = (i, c, j)" "k = (f, n, c)" and t: "table_with us T" and
    i: "i < length us" "mFabricIndex (us ! i) = f" and ss: "senders_ok (us ! i) c ss" and
    j: "j < length ss" "mNodeId (ss ! j) = n"
    using assms by (auto simp: refers_def split: prod.splits)
  let ?g = "putCounter c j pc (us ! i)"
  have T': "setCounterAt T r pc = T[i := ?g]"
    using table_nth [OF t i(1)] by (simp add: r setCounterAt_def putCounter_def)
  have f: "fabric_ok (us ! i)" "\<exists>c. peerCount c (us ! i) \<noteq> 0" using t i by (auto simp: table_with_def)
  note put = putCounter_ok [OF f(1) ss j]
  have "mFabricIndex ?g = mFabricIndex (us ! i)" "\<exists>c. peerCount c ?g \<noteq> 0"
    using f(2) by (auto simp: putCounter_def)
  note upd = table_update [OF t i(1) this(1) put(1) this(2) put(2)]
  show "table_ok (setCounterAt T r pc)" "peer_map (setCounterAt T r pc) = (peer_map T)(k \<mapsto> pc)"
    unfolding T' table_ok_iff using upd i(2) by (auto simp: r) (simp_all add: putCounter_def)
qed

lemma add_fabric:
  fixes c :: bool
  assumes t: "table_with us T" and free: "length us < CHIP_CONFIG_MAX_FABRICS"
    and new: "f \<noteq> 0" "f \<notin> mFabricIndex ` set us" and n: "n \<noteq> 0"
  defines "g \<equiv> addSender c 0 n (newGroupFabric\<lparr>mFabricIndex := f\<rparr>)"
  shows "table_with (us @ [g]) (T[length us := g])"
    and "peer_map (T[length us := g]) = (peer_map T)((f, n, c) \<mapsto> NotSynced)"
    and "senders_ok g c [newGroupSender\<lparr>mNodeId := n\<rparr>]"
    and "peer_map T (f, n, c) = None"
proof -
  let ?b = "newGroupFabric\<lparr>mFabricIndex := f\<rparr>"
  have l: "fabs.layout us CHIP_CONFIG_MAX_FABRICS T" using t by (simp add: table_with_def)
  have sb: "senders_ok ?b a []" for a
    by (simp add: senders_ok_def sndr.layout_def)
      (simp add: senders_def newGroupFabric_def maxPeers_def peerCount_def)
  then have fb: "fabric_ok ?b" unfolding fabric_ok_def by blast
  have idx: "mFabricIndex g = f" by (simp add: g_def addSender_def)
  have add: "fabric_ok g" "senders_ok g c [newGroupSender\<lparr>mNodeId := n\<rparr>]"
    "sender_map g = (sender_map ?b)((n, c) \<mapsto> NotSynced)"
    using addSender_ok [OF fb sb, of c n] maxPeers_bounds(1) [of c] n by (simp_all add: g_def)
  have "sender_map ?b k = None" for k
  proof (cases k)
    case (Pair m a)
    have "sndr.layout [] (maxPeers a) (senders a ?b)" using sb [of a] by (simp add: senders_ok_def)
    then show ?thesis
      using sndr.lookup_iff [of "[]" "maxPeers a" "senders a ?b" m]
      by (cases "sndr.lookup (senders a ?b) m") (auto simp: Pair sender_map_def)
  qed
  then have sm: "sender_map g = Map.empty((n, c) \<mapsto> NotSynced)" using add(3) by (simp add: fun_eq_iff)
  show "senders_ok g c [newGroupSender\<lparr>mNodeId := n\<rparr>]" by (rule add(2))
  note ins = fabs.layout_add [OF l free, of g]
  have "peerCount c g \<noteq> 0" using count_zero [OF add(2)] by simp
  then show "table_with (us @ [g]) (T[length us := g])"
    using ins(1) idx new t add(1) by (auto simp: table_with_def)
  have none: "fabs.lookup T f = None"
    by (rule fabs.lookup_None [OF l new(2)])
  show "peer_map (T[length us := g]) = (peer_map T)((f, n, c) \<mapsto> NotSynced)"
    using ins(2) idx new none sm by (auto simp: peer_map_def fun_eq_iff)
  show "peer_map T (f, n, c) = None" using none by (simp add: peer_map_def)
qed

lemma FindOrAdd_new_fabric:
  assumes t: "table_with us T" and k: "f \<noteq> 0" "n \<noteq> 0" and new: "f \<notin> mFabricIndex ` set us"
    and res: "FindOrAddPeer T f n c = (Inr r, T')"
  shows "table_ok T'" "refers T' r (f, n, c)"
    "peer_map T (f, n, c) = None" "peer_map T' = (peer_map T)((f, n, c) \<mapsto> NotSynced)"
proof -
  let ?g = "addSender c 0 n (newGroupFabric\<lparr>mFabricIndex := f\<rparr>)"
  have l: "fabs.layout us CHIP_CONFIG_MAX_FABRICS T" using t by (simp add: table_with_def)
  have scan: "firstFreeOrKey mFabricIndex 0 f T
                = (if length us < CHIP_CONFIG_MAX_FABRICS then Some (length us) else None)"
    using fabs.firstFreeOrKey_absent(1) [OF l new k(1)] .
  then have free: "length us < CHIP_CONFIG_MAX_FABRICS"
    using res k by (auto simp: FindOrAddPeer_def split: if_splits)
  have "T ! length us = newGroupFabric"
    using l free by (simp add: fabs.layout_def nth_append)
  then have r: "r = (length us, c, 0)" "T' = T[length us := ?g]"
    using res scan free k by (simp_all add: FindOrAddPeer_def newGroupFabric_def)
  note add = add_fabric [OF t free k(1) new k(2), of c]
  show "table_ok T'" using add(1) by (auto simp: r table_ok_iff)
  have "mFabricIndex ?g = f" by (simp add: addSender_def)
  then show "refers T' r (f, n, c)"
    using add(1,3) unfolding refers_def r
    by (auto simp: nth_append intro!: exI [of _ "us @ [?g]"] exI [of _ "[newGroupSender\<lparr>mNodeId := n\<rparr>]"])
  show "peer_map T (f, n, c) = None" "peer_map T' = (peer_map T)((f, n, c) \<mapsto> NotSynced)"
    using add(2,4) by (auto simp: r)
qed

lemma FindOrAdd_known_fabric:
  assumes t: "table_with us T" and k: "f \<noteq> 0" "n \<noteq> 0"
    and i: "i < length us" "mFabricIndex (us ! i) = f" and ss: "senders_ok (us ! i) c ss"
  shows "j < length ss \<Longrightarrow> mNodeId (ss ! j) = n \<Longrightarrow> FindOrAddPeer T f n c = (Inr (i, c, j), T)"
    and "n \<notin> mNodeId ` set ss \<Longrightarrow> FindOrAddPeer T f n c =
           (if length ss < maxPeers c
            then (Inr (i, c, length ss), T[i := addSender c (length ss) n (us ! i)])
            else (Inl CHIP_ERROR_TOO_MANY_PEER_NODES, T))"
proof -
  have l: "fabs.layout us CHIP_CONFIG_MAX_FABRICS T" using t by (simp add: table_with_def)
  have ls: "sndr.layout ss (maxPeers c) (senders c (us ! i))" using ss by (simp add: senders_ok_def)
  have scan: "firstFreeOrKey mFabricIndex 0 f T = Some i"
    using fabs.firstFreeOrKey_present(1) [OF l i] .
  have Ti: "T ! i = us ! i" by (rule table_nth [OF t i(1)])
  show "FindOrAddPeer T f n c = (Inr (i, c, j), T)" if j: "j < length ss" "mNodeId (ss ! j) = n"
  proof -
    have "senders c (us ! i) ! j = ss ! j" using ls j by (simp add: sndr.layout_def nth_append)
    then show ?thesis
      using scan sndr.firstFreeOrKey_present(1) [OF ls j] k i j by (simp add: FindOrAddPeer_def Ti)
  qed
  show "FindOrAddPeer T f n c =
           (if length ss < maxPeers c
            then (Inr (i, c, length ss), T[i := addSender c (length ss) n (us ! i)])
            else (Inl CHIP_ERROR_TOO_MANY_PEER_NODES, T))" if n: "n \<notin> mNodeId ` set ss"
  proof -
    have "mNodeId (senders c (us ! i) ! length ss) = 0" if "length ss < maxPeers c"
      using sndr.layout_used [OF ls that] by auto
    then show ?thesis
      using scan sndr.firstFreeOrKey_absent(1) [OF ls n k(2)] k i by (simp add: FindOrAddPeer_def Ti)
  qed
qed

lemma sender_map_absent:
  assumes "senders_ok g c ss" "n \<notin> mNodeId ` set ss"
  shows "sender_map g (n, c) = None"
  using assms sndr.lookup_None [of ss "maxPeers c" "senders c g" n]
  by (simp add: sender_map_def senders_ok_def)

lemma FindOrAdd_new_sender:
  assumes t: "table_with us T" and k: "f \<noteq> 0" "n \<noteq> 0"
    and i: "i < length us" "mFabricIndex (us ! i) = f" and ss: "senders_ok (us ! i) c ss"
    and n: "n \<notin> mNodeId ` set ss" and res: "FindOrAddPeer T f n c = (Inr r, T')"
  shows "table_ok T'" "refers T' r (f, n, c)"
    "peer_map T (f, n, c) = None" "peer_map T' = (peer_map T)((f, n, c) \<mapsto> NotSynced)"
proof -
  let ?g = "addSender c (length ss) n (us ! i)"
  have len: "length ss < maxPeers c" and r: "r = (i, c, length ss)" "T' = T[i := ?g]"
    using FindOrAdd_known_fabric(2) [OF t k i ss n] res by (auto split: if_splits)
  have f: "fabric_ok (us ! i)" using t i by (auto simp: table_with_def)
  note add = addSender_ok [OF f ss len k(2) n]
  have idx: "mFabricIndex ?g = mFabricIndex (us ! i)" by (simp add: addSender_def)
  have cnt: "\<exists>c. peerCount c ?g \<noteq> 0" using count_zero [OF add(2)] by auto
  note upd = table_update [OF t i(1) idx add(1) cnt add(3)]
  show "table_ok T'" using upd(1) by (auto simp: r table_ok_iff)
  show "refers T' r (f, n, c)"
    using upd(1) add(2) i idx unfolding refers_def r
    by (auto simp: nth_append intro!: exI [of _ "us[i := ?g]"] exI [of _ "ss @ [newGroupSender\<lparr>mNodeId := n\<rparr>]"])
  show "peer_map T (f, n, c) = None"
    using peer_map_at [OF t i(1), of "(n, c)"] i(2) sender_map_absent [OF ss n] by simp
  show "peer_map T' = (peer_map T)((f, n, c) \<mapsto> NotSynced)"
    using upd(2) idx i(2) by (simp add: r)
qed

lemma table_cases [consumes 1, case_names NoFabric NoSender Found]:
  assumes ok: "table_ok T"
  obtains (NoFabric) us where "table_with us T" "f \<notin> mFabricIndex ` set us"
  | (NoSender) us i ss where "table_with us T" "i < length us" "mFabricIndex (us ! i) = f"
      "senders_ok (us ! i) c ss" "n \<notin> mNodeId ` set ss"
  | (Found) us i ss j where "table_with us T" "i < length us" "mFabricIndex (us ! i) = f"
      "senders_ok (us ! i) c ss" "j < length ss" "mNodeId (ss ! j) = n"
proof -
  obtain us where t: "table_with us T" using ok by (auto simp: table_ok_iff)
  show ?thesis
  proof (cases "f \<in> mFabricIndex ` set us")
    case False
    then show ?thesis using NoFabric t by blast
  next
    case True
    then obtain i where i: "i < length us" "mFabricIndex (us ! i) = f" by (auto simp: in_set_conv_nth)
    then obtain ss where ss: "senders_ok (us ! i) c ss"
      using t nth_mem [OF i(1)] unfolding table_with_def fabric_ok_def by blast
    show ?thesis
    proof (cases "n \<in> mNodeId ` set ss")
      case True
      then obtain j where "j < length ss" "mNodeId (ss ! j) = n" by (auto simp: in_set_conv_nth)
      then show ?thesis using Found t i ss by blast
    next
      case False
      then show ?thesis using NoSender t i ss by blast
    qed
  qed
qed

lemma FindOrAddPeer_ok:
  assumes ok: "table_ok T" and res: "FindOrAddPeer T f n c = (Inr r, T')"
  shows "table_ok T' \<and> refers T' r (f, n, c) \<and>
         peer_map T' = (if peer_map T (f, n, c) = None
                        then (peer_map T)((f, n, c) \<mapsto> NotSynced) else peer_map T)"
proof -
  have k: "f \<noteq> 0" "n \<noteq> 0" using res by (auto simp: FindOrAddPeer_def split: if_splits)
  show ?thesis
    using ok
  proof (cases rule: table_cases [where f = f and n = n and c = c])
    case (NoFabric us)
    then show ?thesis using FindOrAdd_new_fabric [OF NoFabric(1) k NoFabric(2) res] by simp
  next
    case (NoSender us i ss)
    then show ?thesis using FindOrAdd_new_sender [OF NoSender(1) k NoSender(2-5) res] by simp
  next
    case (Found us i ss j)
    then have r: "r = (i, c, j)" "T' = T"
      using FindOrAdd_known_fabric(1) [OF Found(1) k Found(2-6)] res by auto
    have "refers T (i, c, j) (f, n, c)" using Found by (auto simp: refers_def)
    then show ?thesis using ok refers_lookup by (auto simp: r)
  qed
qed

lemma FindOrAddPeer_fail:
  assumes ok: "table_ok T" and res: "FindOrAddPeer T f n c = (Inl e, T')"
  shows "T' = T \<and> peer_map T (f, n, c) = None"
proof (cases "f = 0 \<or> n = 0")
  case True
  then show ?thesis
    using res by (auto simp: FindOrAddPeer_def peer_map_def fabs.lookup_def sender_map_def
        sndr.lookup_def Option.bind_eq_None_conv)
next
  case False
  then have k: "f \<noteq> 0" "n \<noteq> 0" by auto
  have T': "T' = T"
    using res k by (auto simp: FindOrAddPeer_def split: option.splits if_splits)
  show ?thesis
    using ok
  proof (cases rule: table_cases [where f = f and n = n and c = c])
    case (NoFabric us)
    then have "fabs.lookup T f = None" by (intro fabs.lookup_None) (auto simp: table_with_def)
    then show ?thesis using T' by (simp add: peer_map_def)
  next
    case (NoSender us i ss)
    then show ?thesis
      using peer_map_at [OF NoSender(1,2), of "(n, c)"] sender_map_absent [OF NoSender(4,5)] T' by simp
  next
    case (Found us i ss j)
    then show ?thesis using FindOrAdd_known_fabric(1) [OF Found(1) k Found(2-6)] res by simp
  qed
qed

lemma take_table: "table_with us T \<Longrightarrow> take CHIP_CONFIG_MAX_FABRICS T = T"
  using fabs.layout_length [of us CHIP_CONFIG_MAX_FABRICS T] by (simp add: table_with_def)

lemma drop_fabric:
  assumes t: "table_with us T" and i: "i < length us"
  shows "table_ok (RemoveAndCompactFabric T i)"
    and "peer_map (RemoveAndCompactFabric T i)
           = (\<lambda>(f, k). if f = mFabricIndex (us ! i) then None else peer_map T (f, k))"
proof -
  have l: "fabs.layout us CHIP_CONFIG_MAX_FABRICS T" using t by (simp add: table_with_def)
  have iM: "\<not> CHIP_CONFIG_MAX_FABRICS \<le> i" using l i by (auto simp: fabs.layout_def)
  note dr = fabs.layout_remove [OF l i]
  have "set ((butlast us)[i := last us]) \<subseteq> set us"
    using mset_eq_setD [OF fabs.removed_mset [OF i]] by auto
  then have "table_with ((butlast us)[i := last us]) (RemoveAndCompactFabric T i)"
    using t dr(1) iM by (auto simp: table_with_def RemoveAndCompactFabric_def)
  then show "table_ok (RemoveAndCompactFabric T i)" by (auto simp: table_ok_iff)
  show "peer_map (RemoveAndCompactFabric T i)
           = (\<lambda>(f, k). if f = mFabricIndex (us ! i) then None else peer_map T (f, k))"
    using dr(2) iM by (auto simp: peer_map_def RemoveAndCompactFabric_def fun_eq_iff)
qed

lemma empty_fabric:
  assumes "fabric_ok g" "mDataPeerCount g = 0" "mControlPeerCount g = 0"
  shows "sender_map g k = None"
proof (cases k)
  case (Pair n c)
  obtain ss where ss: "senders_ok g c ss" using assms(1) unfolding fabric_ok_def by blast
  then have "ss = []" using assms(2,3) count_zero [OF ss] by (simp add: peerCount_def split: if_splits)
  then show ?thesis using sender_map_absent [OF ss] by (simp add: Pair)
qed

lemma RemovePeer_found:
  assumes t: "table_with us T" and k: "f \<noteq> 0" "n \<noteq> 0"
    and i: "i < length us" "mFabricIndex (us ! i) = f" and ss: "senders_ok (us ! i) c ss"
    and j: "j < length ss" "mNodeId (ss ! j) = n"
  shows "\<exists>T'. RemovePeer T f n c = (Inr (), T') \<and> table_ok T' \<and>
              peer_map T' = (peer_map T)((f, n, c) := None)"
proof -
  have l: "fabs.layout us CHIP_CONFIG_MAX_FABRICS T" using t by (simp add: table_with_def)
  have fi: "fabric_ok (us ! i)" using t i by (auto simp: table_with_def)
  obtain xs where xs: "RemoveSpecificPeer (senders c (us ! i)) n (maxPeers c) = (True, xs)"
    and g: "fabric_ok (dropSender c xs (us ! i))"
    and m: "sender_map (dropSender c xs (us ! i)) = (sender_map (us ! i))((n, c) := None)"
    using dropSender_ok [OF fi ss j] by blast
  let ?g = "dropSender c xs (us ! i)"
  let ?empty = "mDataPeerCount ?g = 0 \<and> mControlPeerCount ?g = 0"
  have iM: "i < CHIP_CONFIG_MAX_FABRICS" using l i by (simp add: fabs.layout_def)
  have rm: "RemovePeer T f n c
              = (Inr (), if ?empty then RemoveAndCompactFabric T i else T[i := ?g])"
    using fabs.firstFreeOrKey_present(2) [OF l i] take_table [OF t] table_nth [OF t i(1)] xs k iM
    by (simp add: RemovePeer_def Let_def dropSender_def RemoveAndCompactFabric_def)
  show ?thesis
  proof (cases ?empty)
    case True
    then have "sender_map (us ! i) k' = None" if "k' \<noteq> (n, c)" for k'
      using empty_fabric [OF g, of k'] m that by simp
    then have "(\<lambda>(f, k). if f = mFabricIndex (us ! i) then None else peer_map T (f, k))
                 = (peer_map T)((f, n, c) := None)"
      using peer_map_at [OF t i(1)] i(2) by (auto simp: fun_eq_iff)
    then show ?thesis using drop_fabric [OF t i(1)] rm True by simp
  next
    case False
    have idx: "mFabricIndex ?g = mFabricIndex (us ! i)" by (simp add: dropSender_def)
    have "\<exists>c. peerCount c ?g \<noteq> 0" using False by (auto simp: peerCount_def split: if_splits)
    note upd = table_update [OF t i(1) idx g this m]
    show ?thesis using upd rm False idx i(2) by (auto simp: table_ok_iff)
  qed
qed

lemma RemovePeer_ok:
  assumes ok: "table_ok T" and k: "f \<noteq> 0" "n \<noteq> 0"
  shows "\<exists>T'. table_ok T' \<and> peer_map T' = (peer_map T)((f, n, c) := None) \<and>
     RemovePeer T f n c
       = (if peer_map T (f, n, c) = None then Inl CHIP_ERROR_NOT_FOUND else Inr (), T')"
    using ok
proof (cases rule: table_cases [where f = f and n = n and c = c])
  case (NoFabric us)
  then have l: "fabs.layout us CHIP_CONFIG_MAX_FABRICS T" by (simp add: table_with_def)
  have "peer_map T (f, n, c) = None"
    using fabs.lookup_None [OF l NoFabric(2)] by (simp add: peer_map_def)
  then show ?thesis
    using fabs.firstFreeOrKey_absent(2) [OF l NoFabric(2) k(1)] take_table [OF NoFabric(1)] k ok
    by (auto simp: RemovePeer_def fun_upd_idem_iff)
next
  case (NoSender us i ss)
  then have l: "fabs.layout us CHIP_CONFIG_MAX_FABRICS T" by (simp add: table_with_def)
  have ls: "sndr.layout ss (maxPeers c) (senders c (us ! i))" using NoSender by (simp add: senders_ok_def)
  have "peer_map T (f, n, c) = None"
    using peer_map_at [OF NoSender(1,2), of "(n, c)"] sender_map_absent [OF NoSender(4,5)] NoSender(3) by simp
  moreover have "RemoveSpecificPeer (senders c (us ! i)) n (maxPeers c) = (False, senders c (us ! i))"
    using sndr.firstFreeOrKey_absent(2) [OF ls NoSender(5) k(2)] sndr.layout_length [OF ls]
    by (simp add: RemoveSpecificPeer_def)
  ultimately show ?thesis
    using fabs.firstFreeOrKey_present(2) [OF l NoSender(2,3)] take_table [OF NoSender(1)]
      table_nth [OF NoSender(1,2)] k ok
    by (auto simp: RemovePeer_def fun_upd_idem_iff)
next
  case (Found us i ss j)
  then have "refers T (i, c, j) (f, n, c)" by (auto simp: refers_def)
  then show ?thesis using RemovePeer_found [OF Found(1) k Found(2-6)] refers_lookup by auto
qed

lemma FabricRemoved_ok:
  assumes ok: "table_ok T" and f: "f \<noteq> 0"
  shows "\<exists>r T'. FabricRemoved T f = (r, T') \<and> table_ok T' \<and>
           peer_map T' = (\<lambda>(f', k). if f' = f then None else peer_map T (f', k))"
  using ok
proof (cases rule: table_cases [where f = f and n = 0 and c = True])
  case (NoFabric us)
  then have l: "fabs.layout us CHIP_CONFIG_MAX_FABRICS T" by (simp add: table_with_def)
  have "FabricRemoved T f = (Inl CHIP_ERROR_NOT_FOUND, T)"
    using fabs.firstFreeOrKey_absent(2) [OF l NoFabric(2) f] take_table [OF NoFabric(1)] f
    by (simp add: FabricRemoved_def)
  moreover have "peer_map T (f, k) = None" for k
    using fabs.lookup_None [OF l NoFabric(2)] by (simp add: peer_map_def)
  ultimately show ?thesis using ok by (auto simp: fun_eq_iff)
next
  case (NoSender us i ss)
  then have l: "fabs.layout us CHIP_CONFIG_MAX_FABRICS T" by (simp add: table_with_def)
  then show ?thesis
    using fabs.firstFreeOrKey_present(2) [OF l NoSender(2,3)] take_table [OF NoSender(1)] f
      drop_fabric [OF NoSender(1,2)] NoSender(3) by (auto simp: FabricRemoved_def)
next
  case (Found us i ss j)
  then have l: "fabs.layout us CHIP_CONFIG_MAX_FABRICS T" by (simp add: table_with_def)
  then show ?thesis
    using fabs.firstFreeOrKey_present(2) [OF l Found(2,3)] take_table [OF Found(1)] f
      drop_fabric [OF Found(1,2)] Found(3) by (auto simp: FabricRemoved_def)
qed

section \<open>The table provides the store\<close>

definition accessPeer ::
    "GroupFabric list \<Rightarrow> FabricIndex \<times> NodeId \<times> bool \<Rightarrow> chip_error + peer_ref \<times> GroupFabric list" where
  "accessPeer T = (\<lambda>(f, n, c). case FindOrAddPeer T f n c of (Inl e, _) \<Rightarrow> Inl e | (Inr r, T') \<Rightarrow> Inr (r, T'))"

interpretation table: keyed_counters table_ok peer_map accessPeer refers counterAt setCounterAt
proof unfold_locales
  fix T T' :: "GroupFabric list" and k :: "FabricIndex \<times> NodeId \<times> bool" and r :: peer_ref and e pc
  obtain f n c where k: "k = (f, n, c)" by (cases k)
  show "table_ok T' \<and> refers T' r k \<and>
      peer_map T' = (if peer_map T k = None then (peer_map T)(k \<mapsto> NotSynced) else peer_map T)"
    if "table_ok T" "accessPeer T k = Inr (r, T')"
    using FindOrAddPeer_ok [of T f n c r T'] that
    by (simp add: accessPeer_def k split: prod.splits sum.splits)
  show "peer_map T k = None" if "table_ok T" "accessPeer T k = Inl e"
    using FindOrAddPeer_fail [of T f n c] that
    by (auto simp: accessPeer_def k split: prod.splits sum.splits)
  show "peer_map T k = Some (counterAt T r)" if "refers T r k"
    using refers_lookup [OF that] .
  show "table_ok (setCounterAt T r pc) \<and> peer_map (setCounterAt T r pc) = (peer_map T)(k \<mapsto> pc)"
    if "refers T r k"
    using setCounterAt_ok [OF that] by simp
qed

lemma newTable_ok: "table_ok newTable" "peer_map newTable k = None"
proof -
  have l: "fabs.layout [] CHIP_CONFIG_MAX_FABRICS newTable"
    by (simp add: fabs.layout_def newTable_def)
  then show "table_ok newTable" by (auto simp: table_ok_iff table_with_def)
  show "peer_map newTable k = None"
    using fabs.lookup_None [OF l] by (cases k) (simp add: peer_map_def)
qed

text \<open>A sequence of group messages: (fabric, node, kind), key policy and counter of each.\<close>

fun secureGroupDispatch_all ::
    "GroupFabric list \<Rightarrow> ((FabricIndex \<times> NodeId \<times> bool) \<times> bool \<times> u32) list
       \<Rightarrow> ((FabricIndex \<times> NodeId \<times> bool) \<times> u32) list" where
  "secureGroupDispatch_all T [] = []"
| "secureGroupDispatch_all T (((f, n, c), trustFirst, counter) # ms) =
     (case secureGroupDispatch T f n c trustFirst counter of
        (fresh, T') \<Rightarrow> (if fresh then [((f, n, c), counter)] else []) @ secureGroupDispatch_all T' ms)"

definition acceptedFrom :: "'k \<Rightarrow> ('k \<times> u32) list \<Rightarrow> u32 list" where
  "acceptedFrom k us = map snd (filter (\<lambda>(a, _). a = k) us)"

lemma dispatch_all_run:
  "table_ok T \<Longrightarrow> secureGroupDispatch_all T ms = table.run T ms"
proof (induction ms arbitrary: T)
  case (Cons m ms)
  obtain f n c tf v where m: "m = ((f, n, c), tf, v)" by (cases m) auto
  have d: "secureGroupDispatch T f n c tf v = table.dispatch T (f, n, c) tf v"
    using FindOrAddPeer_fail [OF Cons.prems, of f n c]
    by (auto simp: secureGroupDispatch_def table.dispatch_def accessPeer_def split: prod.splits sum.splits)
  obtain fresh T' where "table.dispatch T (f, n, c) tf v = (fresh, T')" by fastforce
  then show ?case using Cons.IH [OF table.dispatch_inv [OF Cons.prems]] d by (simp add: m)
qed simp

section \<open>Properties\<close>

text \<open>
  C16. Group messages of many senders, interleaved in any order, from an empty table: for every
  sender (fabric, node and kind of message) whose counters stay in one span of \<open>2 ^ 31\<close>
  values, no counter is accepted twice, however many senders there are and whatever the other
  senders do.
\<close>

theorem group_table_no_replay:
  assumes "\<forall>(a, _, c)\<in>set ms. a = k \<longrightarrow> in_span b c"
  shows "distinct (acceptedFrom k (secureGroupDispatch_all newTable ms))"
proof -
  obtain cs where cs: "set cs \<subseteq> set (table.sent_by k ms)"
    "table.accepted_of k (table.run newTable ms) = groupDispatch_all NotSynced cs"
    using table.run_unknown [OF newTable_ok, of k ms] by blast
  have "\<forall>c\<in>set cs. in_span b c"
    using cs(1) assms by (fastforce simp: table.sent_by_def)
  then show ?thesis
    using groupDispatch_distinct cs(2) dispatch_all_run [OF newTable_ok(1)]
    by (simp add: acceptedFrom_def table.accepted_of_def)
qed

theorem group_table_no_replay_witness:
  "acceptedFrom (1, 7, False) (secureGroupDispatch_all newTable
      [((1, 7, False), True, 5), ((2, 9, True), True, 5), ((1, 7, False), True, 5),
       ((1, 7, False), True, 6)]) = [5, 6] \<and>
   distinct (acceptedFrom (1, 7, False) (secureGroupDispatch_all newTable
      [((1, 7, False), True, 5), ((2, 9, True), True, 5), ((1, 7, False), True, 5),
       ((1, 7, False), True, 6)]))"
proof -
  let ?ms = "[((1, 7, False), True, 5), ((2, 9, True), True, 5), ((1, 7, False), True, 5),
       ((1, 7, False), True, 6)]"
  have h: "\<forall>(a, _, c)\<in>set ?ms. a = (1, 7, False) \<longrightarrow> in_span 0 c"
    by (simp add: in_span_def)
  have "acceptedFrom (1, 7, False) (secureGroupDispatch_all newTable ?ms) = [5, 6]"
    by code_simp
  then show ?thesis using group_table_no_replay [OF h] by simp
qed

text \<open>
  C34. The table is a map: from a well-formed table, \<open>FindOrAddPeer\<close> either returns a reference
  to the sender's own counter, adding a fresh one exactly when the sender was unknown and
  leaving all other senders' counters as they were, or, when it fails, the sender was unknown
  and nothing changed.  Well-formedness (used slots first, no duplicates, exact counts, no
  empty fabric) is kept.
\<close>

theorem find_or_add_refines_map:
  assumes "table_ok T" "FindOrAddPeer T f n c = (res, T')"
  shows "table_ok T' \<and>
    (case res of
       Inr r \<Rightarrow> peer_map T' (f, n, c) = Some (counterAt T' r) \<and>
         peer_map T' = (if peer_map T (f, n, c) = None
                        then (peer_map T)((f, n, c) \<mapsto> NotSynced) else peer_map T)
     | Inl e \<Rightarrow> T' = T \<and> peer_map T (f, n, c) = None)"
proof (cases res)
  case (Inl e)
  then show ?thesis using FindOrAddPeer_fail [of T f n c e T'] assms by simp
next
  case (Inr r)
  then show ?thesis
    using FindOrAddPeer_ok [of T f n c r T'] assms refers_lookup [of T' r "(f, n, c)"] by simp
qed

theorem find_or_add_refines_map_witness:
  "table_ok newTable \<and> fst (FindOrAddPeer newTable 1 7 False) = Inr (0, False, 0) \<and>
   table_ok (snd (FindOrAddPeer newTable 1 7 False)) \<and>
   peer_map (snd (FindOrAddPeer newTable 1 7 False)) = (peer_map newTable)((1, 7, False) \<mapsto> NotSynced)"
proof -
  have r: "fst (FindOrAddPeer newTable 1 7 False) = Inr (0, False, 0)" by code_simp
  have eq: "FindOrAddPeer newTable 1 7 False
         = (Inr (0, False, 0), snd (FindOrAddPeer newTable 1 7 False))"
    using r by (metis prod.collapse)
  show ?thesis
    using find_or_add_refines_map [OF newTable_ok(1) eq] newTable_ok r by simp
qed

text \<open>
  Removal is exact: \<open>RemovePeer\<close> succeeds exactly when the sender is in the table, deletes
  that sender and no other, and keeps the table well-formed, so that the compaction loses and
  duplicates nothing; \<open>FabricRemoved\<close> deletes exactly the senders of the fabric.
\<close>

theorem removal_is_exact:
  assumes "table_ok T" "f \<noteq> 0" "n \<noteq> 0"
  shows "(\<exists>T'. table_ok T' \<and> peer_map T' = (peer_map T)((f, n, c) := None) \<and>
            RemovePeer T f n c
              = (if peer_map T (f, n, c) = None then Inl CHIP_ERROR_NOT_FOUND else Inr (), T')) \<and>
         (\<exists>r T'. FabricRemoved T f = (r, T') \<and> table_ok T' \<and>
            peer_map T' = (\<lambda>(f', k). if f' = f then None else peer_map T (f', k)))"
  using RemovePeer_ok [OF assms] FabricRemoved_ok [OF assms(1,2)] by blast

theorem removal_is_exact_witness:
  "\<exists>T'. RemovePeer (snd (FindOrAddPeer newTable 1 7 False)) 1 7 False = (Inr (), T') \<and>
        table_ok T' \<and> peer_map T' (1, 7, False) = None"
proof -
  let ?T = "snd (FindOrAddPeer newTable 1 7 False)"
  have "fst (FindOrAddPeer newTable 1 7 False) = Inr (0, False, 0)" by code_simp
  then have "FindOrAddPeer newTable 1 7 False = (Inr (0, False, 0), ?T)"
    by (metis prod.collapse)
  then have ok: "table_ok ?T" "peer_map ?T (1, 7, False) = Some NotSynced"
    using FindOrAddPeer_ok [OF newTable_ok(1), of 1 7 False "(0, False, 0)" ?T] newTable_ok(2) by simp_all
  have "\<exists>T'. table_ok T' \<and> peer_map T' = (peer_map ?T)((1, 7, False) := None) \<and>
      RemovePeer ?T 1 7 False = (if peer_map ?T (1, 7, False) = None
        then Inl CHIP_ERROR_NOT_FOUND else Inr (), T')"
    using removal_is_exact [OF ok(1), of 1 7 False] by simp
  then show ?thesis using ok(2) by auto
qed

end
