(* ===== verification/Msg_Header.thy ===== *)
theory Msg_Header
  imports Prelude
begin

text \<open>
  The codecs of \<^verbatim>\<open>src/transport/raw/MessageHeader.cpp\<close>: the unencrypted packet header, the
  encrypted payload header and the message authentication code.  The properties are the round
  trip of each codec in front of any payload, the bounds of the decoders, and that a decoded
  packet header is well-formed.
\<close>

section \<open>Packet header\<close>

record PacketHeader =
  mMessageCounter :: u32
  mSourceNodeId :: "NodeId option"
  mDestinationNodeId :: "NodeId option"
  mDestinationGroupId :: "GroupId option"
  mSessionId :: u16
  mSessionType :: u8
  mMsgFlags :: u8
  mSecFlags :: u8

abbreviation kSourceNodeIdPresent :: u8 where "kSourceNodeIdPresent \<equiv> 0x04"
abbreviation kDestinationNodeIdPresent :: u8 where "kDestinationNodeIdPresent \<equiv> 0x01"
abbreviation kDestinationGroupIdPresent :: u8 where "kDestinationGroupIdPresent \<equiv> 0x02"
abbreviation kPrivacyFlag :: u8 where "kPrivacyFlag \<equiv> 0x80"
abbreviation kControlMsgFlag :: u8 where "kControlMsgFlag \<equiv> 0x40"
abbreviation kMsgExtensionFlag :: u8 where "kMsgExtensionFlag \<equiv> 0x20"
abbreviation kSessionTypeMask :: u8 where "kSessionTypeMask \<equiv> 0x03"
abbreviation kUnicastSession :: u8 where "kUnicastSession \<equiv> 0"
abbreviation kGroupSession :: u8 where "kGroupSession \<equiv> 1"
abbreviation kMsgHeaderVersion :: u8 where "kMsgHeaderVersion \<equiv> 0"
abbreviation kVersionMask :: u8 where "kVersionMask \<equiv> 0xF0"
abbreviation kMsgFlagsMask :: u8 where "kMsgFlagsMask \<equiv> 0x07"

definition newPacketHeader :: PacketHeader where
  "newPacketHeader =
     \<lparr>mMessageCounter = 0, mSourceNodeId = None, mDestinationNodeId = None,
      mDestinationGroupId = None, mSessionId = 0, mSessionType = kUnicastSession,
      mMsgFlags = 0, mSecFlags = 0\<rparr>"

definition SetSecurityFlags :: "u8 \<Rightarrow> PacketHeader \<Rightarrow> PacketHeader" where
  "SetSecurityFlags securityFlags h =
     h\<lparr>mSecFlags := securityFlags, mSessionType := securityFlags AND kSessionTypeMask\<rparr>"

definition IsSessionTypeValid :: "PacketHeader \<Rightarrow> bool" where
  "IsSessionTypeValid h \<longleftrightarrow> mSessionType h = kUnicastSession \<or> mSessionType h = kGroupSession"

definition IsGroupSession :: "PacketHeader \<Rightarrow> bool" where
  "IsGroupSession h \<longleftrightarrow> mSessionType h = kGroupSession"

definition IsUnicastSession :: "PacketHeader \<Rightarrow> bool" where
  "IsUnicastSession h \<longleftrightarrow> mSessionType h = kUnicastSession"

definition HasSourceNodeId :: "PacketHeader \<Rightarrow> bool" where
  "HasSourceNodeId h = Has (mMsgFlags h) kSourceNodeIdPresent"

definition HasDestinationNodeId :: "PacketHeader \<Rightarrow> bool" where
  "HasDestinationNodeId h = Has (mMsgFlags h) kDestinationNodeIdPresent"

definition HasDestinationGroupId :: "PacketHeader \<Rightarrow> bool" where
  "HasDestinationGroupId h = Has (mMsgFlags h) kDestinationGroupIdPresent"

definition IsSecureSessionControlMsg :: "PacketHeader \<Rightarrow> bool" where
  "IsSecureSessionControlMsg h = Has (mSecFlags h) kControlMsgFlag"

definition IsValidGroupMsg :: "PacketHeader \<Rightarrow> bool" where
  "IsValidGroupMsg h \<longleftrightarrow> IsGroupSession h \<and> HasSourceNodeId h \<and> HasDestinationGroupId h \<and>
     \<not> IsSecureSessionControlMsg h"

definition IsValidMCSPMsg :: "PacketHeader \<Rightarrow> bool" where
  "IsValidMCSPMsg h \<longleftrightarrow> IsGroupSession h \<and> HasSourceNodeId h \<and> HasDestinationNodeId h \<and>
     IsSecureSessionControlMsg h"

definition IsEncrypted :: "PacketHeader \<Rightarrow> bool" where
  "IsEncrypted h \<longleftrightarrow> \<not> (mSessionId h = 0 \<and> IsUnicastSession h)"

definition MICTagLength :: "PacketHeader \<Rightarrow> nat" where
  "MICTagLength h = (if IsEncrypted h then 16 else 0)"

definition SetSecureSessionControlMsg :: "bool \<Rightarrow> PacketHeader \<Rightarrow> PacketHeader" where
  "SetSecureSessionControlMsg b h = h\<lparr>mSecFlags := SetFlag (mSecFlags h) kControlMsgFlag b\<rparr>"

text \<open>The overloads taking an optional; the ones taking a value and the clearing ones are
  the cases \<open>Some\<close> and \<open>None\<close>.\<close>

definition SetSourceNodeId :: "NodeId option \<Rightarrow> PacketHeader \<Rightarrow> PacketHeader" where
  "SetSourceNodeId i h =
     h\<lparr>mSourceNodeId := i, mMsgFlags := SetFlag (mMsgFlags h) kSourceNodeIdPresent (i \<noteq> None)\<rparr>"

definition SetDestinationNodeId :: "NodeId option \<Rightarrow> PacketHeader \<Rightarrow> PacketHeader" where
  "SetDestinationNodeId i h =
     h\<lparr>mDestinationNodeId := i, mMsgFlags := SetFlag (mMsgFlags h) kDestinationNodeIdPresent (i \<noteq> None)\<rparr>"

definition SetDestinationGroupId :: "GroupId option \<Rightarrow> PacketHeader \<Rightarrow> PacketHeader" where
  "SetDestinationGroupId i h =
     h\<lparr>mDestinationGroupId := i, mMsgFlags := SetFlag (mMsgFlags h) kDestinationGroupIdPresent (i \<noteq> None)\<rparr>"

definition SetSessionType :: "u8 \<Rightarrow> PacketHeader \<Rightarrow> PacketHeader" where
  "SetSessionType ty h =
     h\<lparr>mSessionType := ty,
       mSecFlags := (mSecFlags h AND NOT kSessionTypeMask) OR (ty AND kSessionTypeMask)\<rparr>"

definition SetUnsecured :: "PacketHeader \<Rightarrow> PacketHeader" where
  "SetUnsecured h = h\<lparr>mSessionId := 0, mSessionType := kUnicastSession\<rparr>"

definition PrivacyHeaderLength :: "PacketHeader \<Rightarrow> nat" where
  "PrivacyHeaderLength h =
     4 + (if Has (mMsgFlags h) kSourceNodeIdPresent then 8 else 0)
       + (if Has (mMsgFlags h) kDestinationNodeIdPresent then 8
          else if Has (mMsgFlags h) kDestinationGroupIdPresent then 2 else 0)"

definition PayloadOffset :: "PacketHeader \<Rightarrow> nat" where
  "PayloadOffset h = 4 + PrivacyHeaderLength h"

definition PacketHeader_EncodeSizeBytes :: "PacketHeader \<Rightarrow> nat" where
  "PacketHeader_EncodeSizeBytes h =
     8 + (if mSourceNodeId h \<noteq> None then 8 else 0)
       + (if mDestinationNodeId h \<noteq> None then 8
          else if mDestinationGroupId h \<noteq> None then 2 else 0)"

definition DecodeFixedCommon :: "PacketHeader \<Rightarrow> reader \<Rightarrow> (PacketHeader \<times> reader) result" where
  "DecodeFixedCommon h r =
     rbind (Read8 r) (\<lambda>(msgFlags, r).
     verify (drop_bit 4 (msgFlags AND kVersionMask) = kMsgHeaderVersion) CHIP_ERROR_VERSION_MISMATCH (
     rbind (Read16 r) (\<lambda>(sessionId, r).
     rbind (Read8 r) (\<lambda>(securityFlags, r).
     Inr (SetSecurityFlags securityFlags (h\<lparr>mMsgFlags := msgFlags, mSessionId := sessionId\<rparr>), r)))))"

text \<open>The optional fields of \<open>Decode\<close>, in the order the code reads them.\<close>

definition decodeSource :: "PacketHeader \<Rightarrow> reader \<Rightarrow> (PacketHeader \<times> reader) result" where
  "decodeSource h r =
     (if Has (mMsgFlags h) kSourceNodeIdPresent
      then rbind (Read64 r) (\<lambda>(n, r). Inr (h\<lparr>mSourceNodeId := Some n\<rparr>, r))
      else Inr (h\<lparr>mSourceNodeId := None\<rparr>, r))"

definition decodeDestination :: "PacketHeader \<Rightarrow> reader \<Rightarrow> (PacketHeader \<times> reader) result" where
  "decodeDestination h r =
     (if HasAll (mMsgFlags h) (kDestinationNodeIdPresent OR kDestinationGroupIdPresent)
      then Inl CHIP_ERROR_INTERNAL
      else if Has (mMsgFlags h) kDestinationNodeIdPresent
      then rbind (Read64 r) (\<lambda>(n, r). Inr (h\<lparr>mDestinationNodeId := Some n, mDestinationGroupId := None\<rparr>, r))
      else if Has (mMsgFlags h) kDestinationGroupIdPresent
      then verify (mSessionType h = kGroupSession) CHIP_ERROR_INTERNAL
             (rbind (Read16 r) (\<lambda>(g, r). Inr (h\<lparr>mDestinationGroupId := Some g, mDestinationNodeId := None\<rparr>, r)))
      else Inr (h\<lparr>mDestinationNodeId := None, mDestinationGroupId := None\<rparr>, r))"

text \<open>Skipping an extension block: a 16-bit length and that many bytes.\<close>

definition skipExtension :: "bool \<Rightarrow> reader \<Rightarrow> reader result" where
  "skipExtension present r =
     (if present
      then rbind (Read16 r) (\<lambda>(n, r).
             verify (unat n \<le> length (avail r)) CHIP_ERROR_INTERNAL (Inr (Skip (unat n) r)))
      else Inr r)"

text \<open>\<open>Inr (h, n)\<close>: the decoded header and \<open>*decode_len\<close>.\<close>

definition PacketHeader_Decode :: "PacketHeader \<Rightarrow> bytes \<Rightarrow> (PacketHeader \<times> u16) result" where
  "PacketHeader_Decode h data =
     rbind (DecodeFixedCommon h (Reader data)) (\<lambda>(h, r).
     rbind (Read32 r) (\<lambda>(counter, r).
     rbind (decodeSource (h\<lparr>mMessageCounter := counter\<rparr>) r) (\<lambda>(h, r).
     verify (IsSessionTypeValid h) CHIP_ERROR_INTERNAL (
     rbind (decodeDestination h r) (\<lambda>(h, r).
     rbind (skipExtension (Has (mSecFlags h) kMsgExtensionFlag) r) (\<lambda>r.
     Inr (h, of_nat (octetsRead r))))))))"

definition encodedMsgFlags :: "PacketHeader \<Rightarrow> u8" where
  "encodedMsgFlags h =
     push_bit 4 kMsgHeaderVersion OR
     (SetFlag (SetFlag (SetFlag (mMsgFlags h) kSourceNodeIdPresent (mSourceNodeId h \<noteq> None))
        kDestinationNodeIdPresent (mDestinationNodeId h \<noteq> None))
        kDestinationGroupIdPresent (mDestinationGroupId h \<noteq> None) AND kMsgFlagsMask)"

definition optBytes :: "nat \<Rightarrow> 'a::len word option \<Rightarrow> bytes" where
  "optBytes n v = (case v of None \<Rightarrow> [] | Some w \<Rightarrow> le_bytes n w)"

text \<open>The bytes written at \<open>data\<close>, for a buffer of \<open>bufSize\<close> bytes.\<close>

definition PacketHeader_Encode :: "PacketHeader \<Rightarrow> nat \<Rightarrow> bytes result" where
  "PacketHeader_Encode h bufSize =
     verify (bufSize \<ge> PacketHeader_EncodeSizeBytes h) CHIP_ERROR_INVALID_ARGUMENT (
     verify (\<not> (mDestinationNodeId h \<noteq> None \<and> mDestinationGroupId h \<noteq> None)) CHIP_ERROR_INTERNAL (
     verify (IsSessionTypeValid h) CHIP_ERROR_INTERNAL (
     let out = le_bytes 1 (encodedMsgFlags h) @ le_bytes 2 (mSessionId h) @
               le_bytes 1 (mSecFlags h) @ le_bytes 4 (mMessageCounter h) @
               optBytes 8 (mSourceNodeId h) @
               (if mDestinationNodeId h \<noteq> None then optBytes 8 (mDestinationNodeId h)
                else optBytes 2 (mDestinationGroupId h)) in
     verify (length out = PacketHeader_EncodeSizeBytes h) CHIP_ERROR_INTERNAL (Inr out))))"

section \<open>Payload header\<close>

record PayloadHeader =
  mMessageType :: u8
  mExchangeID :: u16
  mVendorId :: u16
  mProtocolId :: u16
  mExchangeFlags :: u8
  mAckMessageCounter :: "u32 option"

abbreviation kExchangeFlag_Initiator :: u8 where "kExchangeFlag_Initiator \<equiv> 0x01"
abbreviation kExchangeFlag_AckMsg :: u8 where "kExchangeFlag_AckMsg \<equiv> 0x02"
abbreviation kExchangeFlag_NeedsAck :: u8 where "kExchangeFlag_NeedsAck \<equiv> 0x04"
abbreviation kExchangeFlag_SecuredExtension :: u8 where "kExchangeFlag_SecuredExtension \<equiv> 0x08"
abbreviation kExchangeFlag_VendorIdPresent :: u8 where "kExchangeFlag_VendorIdPresent \<equiv> 0x10"
abbreviation VendorId_Common :: u16 where "VendorId_Common \<equiv> 0"

definition HaveVendorId :: "PayloadHeader \<Rightarrow> bool" where
  "HaveVendorId h = Has (mExchangeFlags h) kExchangeFlag_VendorIdPresent"

definition SetProtocol :: "u16 \<Rightarrow> u16 \<Rightarrow> PayloadHeader \<Rightarrow> PayloadHeader" where
  "SetProtocol vendor protocol h =
     h\<lparr>mExchangeFlags := SetFlag (mExchangeFlags h) kExchangeFlag_VendorIdPresent (vendor \<noteq> VendorId_Common),
       mVendorId := vendor, mProtocolId := protocol\<rparr>"

definition SetMessageType :: "u16 \<Rightarrow> u16 \<Rightarrow> u8 \<Rightarrow> PayloadHeader \<Rightarrow> PayloadHeader" where
  "SetMessageType vendor protocol ty h = (SetProtocol vendor protocol h)\<lparr>mMessageType := ty\<rparr>"

definition SetInitiator :: "bool \<Rightarrow> PayloadHeader \<Rightarrow> PayloadHeader" where
  "SetInitiator b h = h\<lparr>mExchangeFlags := SetFlag (mExchangeFlags h) kExchangeFlag_Initiator b\<rparr>"

definition SetNeedsAck :: "bool \<Rightarrow> PayloadHeader \<Rightarrow> PayloadHeader" where
  "SetNeedsAck b h = h\<lparr>mExchangeFlags := SetFlag (mExchangeFlags h) kExchangeFlag_NeedsAck b\<rparr>"

definition SetAckMessageCounter :: "u32 option \<Rightarrow> PayloadHeader \<Rightarrow> PayloadHeader" where
  "SetAckMessageCounter i h =
     h\<lparr>mAckMessageCounter := i, mExchangeFlags := SetFlag (mExchangeFlags h) kExchangeFlag_AckMsg (i \<noteq> None)\<rparr>"

definition PayloadHeader_EncodeSizeBytes :: "PayloadHeader \<Rightarrow> nat" where
  "PayloadHeader_EncodeSizeBytes h =
     6 + (if HaveVendorId h then 2 else 0) + (if mAckMessageCounter h \<noteq> None then 4 else 0)"

definition decodeVendor :: "bool \<Rightarrow> reader \<Rightarrow> (u16 \<times> reader) result" where
  "decodeVendor present r = (if present then Read16 r else Inr (VendorId_Common, r))"

definition decodeAck :: "bool \<Rightarrow> reader \<Rightarrow> (u32 option \<times> reader) result" where
  "decodeAck present r =
     (if present then rbind (Read32 r) (\<lambda>(c, r). Inr (Some c, r)) else Inr (None, r))"

definition PayloadHeader_Decode :: "bytes \<Rightarrow> (PayloadHeader \<times> u16) result" where
  "PayloadHeader_Decode data =
     rbind (Read8 (Reader data)) (\<lambda>(flags, r).
     rbind (Read8 r) (\<lambda>(ty, r).
     rbind (Read16 r) (\<lambda>(exchange, r).
     rbind (decodeVendor (Has flags kExchangeFlag_VendorIdPresent) r) (\<lambda>(vendor, r).
     rbind (Read16 r) (\<lambda>(protocol, r).
     rbind (decodeAck (Has flags kExchangeFlag_AckMsg) r) (\<lambda>(ack, r).
     rbind (skipExtension (Has flags kExchangeFlag_SecuredExtension) r) (\<lambda>r.
     Inr (\<lparr>mMessageType = ty, mExchangeID = exchange, mVendorId = vendor, mProtocolId = protocol,
           mExchangeFlags = flags, mAckMessageCounter = ack\<rparr>, of_nat (octetsRead r)))))))))"

definition PayloadHeader_Encode :: "PayloadHeader \<Rightarrow> nat \<Rightarrow> bytes result" where
  "PayloadHeader_Encode h bufSize =
     verify (bufSize \<ge> PayloadHeader_EncodeSizeBytes h) CHIP_ERROR_INVALID_ARGUMENT (
     let out = le_bytes 1 (mExchangeFlags h) @ le_bytes 1 (mMessageType h) @ le_bytes 2 (mExchangeID h) @
               (if HaveVendorId h then le_bytes 2 (mVendorId h) else []) @
               le_bytes 2 (mProtocolId h) @ optBytes 4 (mAckMessageCounter h) in
     verify (length out = PayloadHeader_EncodeSizeBytes h) CHIP_ERROR_INTERNAL (Inr out))"

section \<open>Headers in packet buffers\<close>

text \<open>
  A packet buffer is the bytes from \<open>Start()\<close> on; \<open>reserve\<close> is the outcome of
  \<open>EnsureReservedSize\<close> for the header.
\<close>

definition PacketHeader_EncodeBeforeData :: "PacketHeader \<Rightarrow> bool \<Rightarrow> bytes \<Rightarrow> bytes result" where
  "PacketHeader_EncodeBeforeData h reserve buf =
     (let headerSize = PacketHeader_EncodeSizeBytes h in
      verify reserve CHIP_ERROR_NO_MEMORY (
      rbind (PacketHeader_Encode h (headerSize + length buf)) (\<lambda>out.
      verify (length out = headerSize) CHIP_ERROR_INTERNAL (Inr (out @ buf)))))"

definition PayloadHeader_EncodeBeforeData :: "PayloadHeader \<Rightarrow> bool \<Rightarrow> bytes \<Rightarrow> bytes result" where
  "PayloadHeader_EncodeBeforeData h reserve buf =
     (let headerSize = PayloadHeader_EncodeSizeBytes h in
      verify reserve CHIP_ERROR_NO_MEMORY (
      rbind (PayloadHeader_Encode h (headerSize + length buf)) (\<lambda>out.
      verify (length out = headerSize) CHIP_ERROR_INTERNAL (Inr (out @ buf)))))"

definition PacketHeader_DecodeAndConsume :: "PacketHeader \<Rightarrow> bytes \<Rightarrow> (PacketHeader \<times> bytes) result" where
  "PacketHeader_DecodeAndConsume h buf =
     rbind (PacketHeader_Decode h buf) (\<lambda>(h, n). Inr (h, drop (unat n) buf))"

definition PayloadHeader_DecodeAndConsume :: "bytes \<Rightarrow> (PayloadHeader \<times> bytes) result" where
  "PayloadHeader_DecodeAndConsume buf =
     rbind (PayloadHeader_Decode buf) (\<lambda>(h, n). Inr (h, drop (unat n) buf))"

section \<open>Message authentication code\<close>

text \<open>\<open>mTag\<close> is the 16-byte tag buffer; encoding copies its first bytes.\<close>

definition MAC_Decode :: "PacketHeader \<Rightarrow> bytes \<Rightarrow> (bytes \<times> nat) result" where
  "MAC_Decode h data =
     (let taglen = MICTagLength h in
      verify (taglen \<noteq> 0) CHIP_ERROR_WRONG_ENCRYPTION_TYPE_FROM_PEER (
      verify (length data \<ge> taglen) CHIP_ERROR_INVALID_ARGUMENT (
      Inr (take taglen data, taglen))))"

definition MAC_Encode :: "PacketHeader \<Rightarrow> bytes \<Rightarrow> nat \<Rightarrow> bytes result" where
  "MAC_Encode h mTag bufSize =
     (let taglen = MICTagLength h in
      verify (taglen \<noteq> 0) CHIP_ERROR_WRONG_ENCRYPTION_TYPE (
      verify (bufSize \<ge> taglen) CHIP_ERROR_INVALID_ARGUMENT (
      Inr (take taglen mTag))))"

section \<open>Flags\<close>

lemma encodedMsgFlags_eq:
  "encodedMsgFlags h = (if mSourceNodeId h \<noteq> None then 4 else 0) OR
     (if mDestinationNodeId h \<noteq> None then 1 else 0) OR (if mDestinationGroupId h \<noteq> None then 2 else 0)"
proof (rule bit_word_eqI)
  fix n :: nat assume "n < LENGTH(8)"
  then have "n \<in> {0, 1, 2, 3, 4, 5, 6, 7}" by auto
  then show "bit (encodedMsgFlags h) n = bit ((if mSourceNodeId h \<noteq> None then 4 else 0) OR
     (if mDestinationNodeId h \<noteq> None then 1 else 0) OR (if mDestinationGroupId h \<noteq> None then 2 else 0 :: u8)) n"
    by (auto simp: encodedMsgFlags_def SetFlag_def bit_or_iff bit_and_iff bit_not_iff)
qed

lemma encodedMsgFlags_decoded:
  "drop_bit 4 (encodedMsgFlags h AND kVersionMask) = 0"
  "Has (encodedMsgFlags h) kSourceNodeIdPresent \<longleftrightarrow> mSourceNodeId h \<noteq> None"
  "Has (encodedMsgFlags h) kDestinationNodeIdPresent \<longleftrightarrow> mDestinationNodeId h \<noteq> None"
  "Has (encodedMsgFlags h) kDestinationGroupIdPresent \<longleftrightarrow> mDestinationGroupId h \<noteq> None"
  by (auto simp: encodedMsgFlags_eq Has_def)

section \<open>Round trips\<close>

text \<open>
  Headers as the setters build them: the session type agrees with the security flags, no
  message extension block is announced, and a group destination only occurs in group sessions.
\<close>

definition packet_ok :: "PacketHeader \<Rightarrow> bool" where
  "packet_ok h \<longleftrightarrow> mSessionType h = mSecFlags h AND kSessionTypeMask \<and>
     \<not> Has (mSecFlags h) kMsgExtensionFlag \<and>
     (mDestinationGroupId h \<noteq> None \<longrightarrow> mSessionType h = kGroupSession)"

definition payload_ok :: "PayloadHeader \<Rightarrow> bool" where
  "payload_ok h \<longleftrightarrow> (HaveVendorId h = (mVendorId h \<noteq> VendorId_Common)) \<and>
     \<not> Has (mExchangeFlags h) kExchangeFlag_SecuredExtension \<and>
     Has (mExchangeFlags h) kExchangeFlag_AckMsg = (mAckMessageCounter h \<noteq> None)"

lemma decodeSource_optBytes:
  assumes "Has (mMsgFlags h) kSourceNodeIdPresent \<longleftrightarrow> src \<noteq> None"
  shows "decodeSource h \<lparr>octetsRead = k, avail = optBytes 8 src @ rest\<rparr>
           = Inr (h\<lparr>mSourceNodeId := src\<rparr>, \<lparr>octetsRead = k + length (optBytes 8 src), avail = rest\<rparr>)"
  using assms by (cases src) (auto simp: decodeSource_def optBytes_def)

lemma decodeDestination_optBytes:
  assumes "Has (mMsgFlags h) kDestinationNodeIdPresent \<longleftrightarrow> dst \<noteq> None"
    "Has (mMsgFlags h) kDestinationGroupIdPresent \<longleftrightarrow> grp \<noteq> None"
    "dst = None \<or> grp = None" "grp \<noteq> None \<longrightarrow> mSessionType h = kGroupSession"
  defines "out \<equiv> if dst \<noteq> None then optBytes 8 dst else optBytes 2 grp"
  shows "decodeDestination h \<lparr>octetsRead = k, avail = out @ rest\<rparr>
           = Inr (h\<lparr>mDestinationNodeId := dst, mDestinationGroupId := grp\<rparr>,
                  \<lparr>octetsRead = k + length out, avail = rest\<rparr>)"
proof -
  have "\<not> HasAll (mMsgFlags h) (kDestinationNodeIdPresent OR kDestinationGroupIdPresent)"
  proof
    assume "HasAll (mMsgFlags h) (kDestinationNodeIdPresent OR kDestinationGroupIdPresent)"
    then have eq: "mMsgFlags h AND 3 = 3" by (simp add: HasAll_def)
    have "(3 :: u8) AND 1 = 1" "(3 :: u8) AND 2 = 2" by simp_all
    then have "mMsgFlags h AND 1 = 1" "mMsgFlags h AND 2 = 2"
      by (metis eq and.assoc)+
    then show False using assms(1-3) by (auto simp: Has_def)
  qed
  then show ?thesis
    using assms by (cases dst; cases grp) (auto simp: decodeDestination_def optBytes_def)
qed

lemma Encode_ok:
  assumes "PacketHeader_Encode h n = Inr out"
  shows "out = le_bytes 1 (encodedMsgFlags h) @ le_bytes 2 (mSessionId h) @
               le_bytes 1 (mSecFlags h) @ le_bytes 4 (mMessageCounter h) @
               optBytes 8 (mSourceNodeId h) @
               (if mDestinationNodeId h \<noteq> None then optBytes 8 (mDestinationNodeId h)
                else optBytes 2 (mDestinationGroupId h))"
    and "length out = PacketHeader_EncodeSizeBytes h" and "IsSessionTypeValid h"
    and "mDestinationNodeId h = None \<or> mDestinationGroupId h = None"
  using assms by (auto simp: PacketHeader_Encode_def Let_def)

lemma PacketHeader_Decode_Encode:
  assumes ok: "packet_ok h" and enc: "PacketHeader_Encode h n = Inr out"
  shows "PacketHeader_Decode h0 (out @ rest)
           = Inr (h\<lparr>mMsgFlags := encodedMsgFlags h\<rparr>, of_nat (length out))"
proof -
  note e = Encode_ok [OF enc]
  have st: "mSecFlags h AND kSessionTypeMask = mSessionType h" "\<not> Has (mSecFlags h) kMsgExtensionFlag"
    "mDestinationGroupId h \<noteq> None \<longrightarrow> mSessionType h = kGroupSession"
    using ok by (auto simp: packet_ok_def)
  let ?dst = "if mDestinationNodeId h \<noteq> None then optBytes 8 (mDestinationNodeId h)
                else optBytes 2 (mDestinationGroupId h)"
  let ?tail = "optBytes 8 (mSourceNodeId h) @ ?dst @ rest"
  let ?h1 = "SetSecurityFlags (mSecFlags h) (h0\<lparr>mMsgFlags := encodedMsgFlags h, mSessionId := mSessionId h\<rparr>)"
  let ?h2 = "?h1\<lparr>mMessageCounter := mMessageCounter h\<rparr>"
  let ?h3 = "?h2\<lparr>mSourceNodeId := mSourceNodeId h\<rparr>"
  have 1: "DecodeFixedCommon h0 (Reader (out @ rest)) = Inr (?h1,
      \<lparr>octetsRead = 4, avail = le_bytes 4 (mMessageCounter h) @ ?tail\<rparr>)"
    using encodedMsgFlags_decoded(1) [of h] by (simp add: e(1) DecodeFixedCommon_def Reader_def)
  have f: "mMsgFlags ?h2 = encodedMsgFlags h" "mMsgFlags ?h3 = encodedMsgFlags h"
    "mSessionType ?h3 = mSessionType h"
    by (simp_all add: SetSecurityFlags_def st)
  have 2: "decodeSource ?h2 \<lparr>octetsRead = 8, avail = ?tail\<rparr>
      = Inr (?h3, \<lparr>octetsRead = 8 + length (optBytes 8 (mSourceNodeId h)), avail = ?dst @ rest\<rparr>)"
    by (rule decodeSource_optBytes) (simp only: f encodedMsgFlags_decoded)
  have 3: "decodeDestination ?h3 \<lparr>octetsRead = k, avail = ?dst @ rest\<rparr>
      = Inr (?h3\<lparr>mDestinationNodeId := mDestinationNodeId h, mDestinationGroupId := mDestinationGroupId h\<rparr>,
             \<lparr>octetsRead = k + length ?dst, avail = rest\<rparr>)" for k
    by (rule decodeDestination_optBytes) (use e(4) st(3) in \<open>simp_all only: f encodedMsgFlags_decoded\<close>)
  have v: "IsSessionTypeValid ?h3" using e(3) by (simp only: IsSessionTypeValid_def f)
  have "?h3\<lparr>mDestinationNodeId := mDestinationNodeId h, mDestinationGroupId := mDestinationGroupId h\<rparr>
          = h\<lparr>mMsgFlags := encodedMsgFlags h\<rparr>"
    by (cases h; cases h0) (use st(1) in \<open>simp add: SetSecurityFlags_def\<close>)
  then show ?thesis
    unfolding PacketHeader_Decode_def 1 using 2 3 v st(2)
    by (simp add: skipExtension_def e(1))
qed

lemma PayloadHeader_Decode_Encode:
  assumes ok: "payload_ok h" and enc: "PayloadHeader_Encode h n = Inr out"
  shows "PayloadHeader_Decode (out @ rest) = Inr (h, of_nat (length out))"
proof -
  have out: "out = le_bytes 1 (mExchangeFlags h) @ le_bytes 1 (mMessageType h) @ le_bytes 2 (mExchangeID h) @
               (if HaveVendorId h then le_bytes 2 (mVendorId h) else []) @
               le_bytes 2 (mProtocolId h) @ optBytes 4 (mAckMessageCounter h)"
    using enc by (simp add: PayloadHeader_Encode_def Let_def)
  have f: "Has (mExchangeFlags h) kExchangeFlag_VendorIdPresent = HaveVendorId h"
    "\<not> HaveVendorId h \<Longrightarrow> mVendorId h = VendorId_Common"
    "\<not> Has (mExchangeFlags h) kExchangeFlag_SecuredExtension"
    "Has (mExchangeFlags h) kExchangeFlag_AckMsg = (mAckMessageCounter h \<noteq> None)"
    using ok by (auto simp: payload_ok_def HaveVendorId_def)
  have vendor: "decodeVendor (HaveVendorId h)
      \<lparr>octetsRead = k, avail = (if HaveVendorId h then le_bytes 2 (mVendorId h) else []) @ xs\<rparr>
      = Inr (mVendorId h, \<lparr>octetsRead = k + (if HaveVendorId h then 2 else 0), avail = xs\<rparr>)" for k xs
    using f(2) by (simp add: decodeVendor_def)
  have ack: "decodeAck (mAckMessageCounter h \<noteq> None)
      \<lparr>octetsRead = k, avail = optBytes 4 (mAckMessageCounter h) @ xs\<rparr>
      = Inr (mAckMessageCounter h, \<lparr>octetsRead = k + length (optBytes 4 (mAckMessageCounter h)), avail = xs\<rparr>)" for k xs
    by (cases "mAckMessageCounter h") (simp_all add: decodeAck_def optBytes_def)
  show ?thesis
    unfolding PayloadHeader_Decode_def Reader_def out
    by (simp add: f vendor ack skipExtension_def del: not_None_eq)
qed

section \<open>What a decoder accepts\<close>

definition total :: "reader \<Rightarrow> nat" where
  "total r = octetsRead r + length (avail r)"

lemma Read_total:
  "Read8 r = Inr (b, r') \<Longrightarrow> total r' = total r"
  "Read16 r = Inr (w, r') \<Longrightarrow> total r' = total r"
  "Read32 r = Inr (d, r') \<Longrightarrow> total r' = total r"
  "Read64 r = Inr (q, r') \<Longrightarrow> total r' = total r"
  by (auto simp: Read8_def Read16_def Read32_def Read64_def total_def dest: readWord_total)

lemma Skip_total: "total (Skip n r) = total r"
  by (simp add: Skip_def total_def Let_def)

lemma skipExtension_total: "skipExtension b r = Inr r' \<Longrightarrow> total r' = total r"
  by (auto simp: skipExtension_def rbind_eq_Inr Skip_total Read_total split: if_splits)

lemma decodeSource_ok:
  assumes "decodeSource h r = Inr (h', r')"
  shows "total r' = total r \<and> (\<exists>s. h' = h\<lparr>mSourceNodeId := s\<rparr> \<and>
           (s \<noteq> None \<longleftrightarrow> Has (mMsgFlags h) kSourceNodeIdPresent) \<and>
           octetsRead r' = octetsRead r + (if s \<noteq> None then 8 else 0))"
proof (cases "Has (mMsgFlags h) kSourceNodeIdPresent")
  case True
  then obtain n where "Read64 r = Inr (n, r')" "h' = h\<lparr>mSourceNodeId := Some n\<rparr>"
    using assms by (auto simp: decodeSource_def rbind_eq_Inr)
  then show ?thesis
    using True Read_total(4) [of r n r'] by (auto simp: Read64_def dest: readWord_total)
qed (use assms in \<open>auto simp: decodeSource_def\<close>)

lemma HasAll_destinations:
  fixes f :: u8
  assumes "Has f kDestinationNodeIdPresent" "Has f kDestinationGroupIdPresent"
  shows "HasAll f (kDestinationNodeIdPresent OR kDestinationGroupIdPresent)"
proof -
  have b: "bit f 0" "bit f 1"
    using assms bit_iff_and_push_bit_not_eq_0 [of f 0] bit_iff_and_push_bit_not_eq_0 [of f 1]
    by (simp_all add: Has_def)
  have "f AND 3 = (3 :: u8)"
  proof (rule bit_word_eqI)
    fix n assume "n < LENGTH(8)"
    then have "n \<in> {0, 1, 2, 3, 4, 5, 6, 7}" by auto
    then show "bit (f AND 3) n = bit (3 :: u8) n" using b by (auto simp: bit_and_iff)
  qed
  then show ?thesis by (simp add: HasAll_def)
qed

lemma decodeDestination_ok:
  assumes "decodeDestination h r = Inr (h', r')"
  shows "total r' = total r \<and> (\<exists>d g. h' = h\<lparr>mDestinationNodeId := d, mDestinationGroupId := g\<rparr> \<and>
           (d \<noteq> None \<longleftrightarrow> Has (mMsgFlags h) kDestinationNodeIdPresent) \<and>
           (g \<noteq> None \<longleftrightarrow> Has (mMsgFlags h) kDestinationGroupIdPresent) \<and>
           \<not> (d \<noteq> None \<and> g \<noteq> None) \<and> (g \<noteq> None \<longrightarrow> mSessionType h = kGroupSession) \<and>
           octetsRead r' = octetsRead r + (if d \<noteq> None then 8 else if g \<noteq> None then 2 else 0))"
proof -
  have one: "\<not> (Has (mMsgFlags h) kDestinationNodeIdPresent \<and> Has (mMsgFlags h) kDestinationGroupIdPresent)"
    using assms HasAll_destinations [of "mMsgFlags h"] by (auto simp: decodeDestination_def)
  consider (node) n where "Has (mMsgFlags h) kDestinationNodeIdPresent" "Read64 r = Inr (n, r')"
      "h' = h\<lparr>mDestinationNodeId := Some n, mDestinationGroupId := None\<rparr>"
    | (group) g where "Has (mMsgFlags h) kDestinationGroupIdPresent" "Read16 r = Inr (g, r')"
      "h' = h\<lparr>mDestinationNodeId := None, mDestinationGroupId := Some g\<rparr>" "mSessionType h = kGroupSession"
    | (no_dest) "\<not> Has (mMsgFlags h) kDestinationNodeIdPresent" "\<not> Has (mMsgFlags h) kDestinationGroupIdPresent"
      "h' = h\<lparr>mDestinationNodeId := None, mDestinationGroupId := None\<rparr>" "r' = r"
    using assms by (auto simp: decodeDestination_def rbind_eq_Inr split: if_splits)
  then show ?thesis
  proof cases
    case node
    then show ?thesis
      using one Read_total(4) [of r n r'] by (auto simp: Read64_def dest: readWord_total)
  next
    case group
    then show ?thesis
      using one Read_total(2) [of r g r'] readWord_total [of 2 r g r'] by (auto simp: Read16_def)
  next
    case no_dest
    then show ?thesis by auto
  qed
qed

lemma DecodeFixedCommon_ok:
  assumes "DecodeFixedCommon h r = Inr (h', r')"
  shows "total r' = total r \<and> octetsRead r' = octetsRead r + 4 \<and>
         mSessionType h' = mSecFlags h' AND kSessionTypeMask"
proof -
  obtain f r1 i r2 s where r: "Read8 r = Inr (f, r1)" "Read16 r1 = Inr (i, r2)" "Read8 r2 = Inr (s, r')"
    "h' = SetSecurityFlags s (h\<lparr>mMsgFlags := f, mSessionId := i\<rparr>)"
    using assms by (auto simp: DecodeFixedCommon_def rbind_eq_Inr)
  then have "octetsRead r1 = octetsRead r + 1" "octetsRead r2 = octetsRead r1 + 2"
    "octetsRead r' = octetsRead r2 + 1"
    using readWord_total unfolding Read8_def Read16_def by blast+
  then show ?thesis
    using Read_total(1) [OF r(1)] Read_total(2) [OF r(2)] Read_total(1) [OF r(3)] r(4)
    by (simp add: SetSecurityFlags_def)
qed

text \<open>What a decoded packet header promises to the layers above.\<close>

definition decoded_ok :: "PacketHeader \<Rightarrow> bool" where
  "decoded_ok h \<longleftrightarrow> IsSessionTypeValid h \<and> mSessionType h = mSecFlags h AND kSessionTypeMask \<and>
     (HasSourceNodeId h \<longleftrightarrow> mSourceNodeId h \<noteq> None) \<and>
     (HasDestinationNodeId h \<longleftrightarrow> mDestinationNodeId h \<noteq> None) \<and>
     (HasDestinationGroupId h \<longleftrightarrow> mDestinationGroupId h \<noteq> None) \<and>
     \<not> (mDestinationNodeId h \<noteq> None \<and> mDestinationGroupId h \<noteq> None) \<and>
     (mDestinationGroupId h \<noteq> None \<longrightarrow> IsGroupSession h)"

lemma PacketHeader_Decode_ok:
  assumes "PacketHeader_Decode h0 data = Inr (h, n)"
  shows "\<exists>k. n = of_nat k \<and> k \<le> length data \<and> decoded_ok h \<and>
             (\<not> Has (mSecFlags h) kMsgExtensionFlag \<longrightarrow> k = PayloadOffset h)"
proof -
  obtain h1 r1 c r2 h2 r3 r4 r5 where
    1: "DecodeFixedCommon h0 (Reader data) = Inr (h1, r1)" and
    2: "Read32 r1 = Inr (c, r2)" and
    3: "decodeSource (h1\<lparr>mMessageCounter := c\<rparr>) r2 = Inr (h2, r3)" and
    v: "IsSessionTypeValid h2" and
    4: "decodeDestination h2 r3 = Inr (h, r4)" and
    5: "skipExtension (Has (mSecFlags h) kMsgExtensionFlag) r4 = Inr r5" and
    n: "n = of_nat (octetsRead r5)"
    using assms by (auto simp: PacketHeader_Decode_def rbind_eq_Inr)
  note a = DecodeFixedCommon_ok [OF 1]
  obtain s where b: "total r3 = total r2" "h2 = h1\<lparr>mMessageCounter := c\<rparr>\<lparr>mSourceNodeId := s\<rparr>"
    "s \<noteq> None \<longleftrightarrow> Has (mMsgFlags (h1\<lparr>mMessageCounter := c\<rparr>)) kSourceNodeIdPresent"
    "octetsRead r3 = octetsRead r2 + (if s \<noteq> None then 8 else 0)"
    using decodeSource_ok [OF 3] by blast
  obtain d g where e: "total r4 = total r3" "h = h2\<lparr>mDestinationNodeId := d, mDestinationGroupId := g\<rparr>"
    "d \<noteq> None \<longleftrightarrow> Has (mMsgFlags h2) kDestinationNodeIdPresent"
    "g \<noteq> None \<longleftrightarrow> Has (mMsgFlags h2) kDestinationGroupIdPresent"
    "\<not> (d \<noteq> None \<and> g \<noteq> None)" "g \<noteq> None \<longrightarrow> mSessionType h2 = kGroupSession"
    "octetsRead r4 = octetsRead r3 + (if d \<noteq> None then 8 else if g \<noteq> None then 2 else 0)"
    using decodeDestination_ok [OF 4] by blast
  have "total r5 = length data"
    using a Read_total(3) [OF 2] b(1) e(1) skipExtension_total [OF 5] by (simp add: total_def Reader_def)
  then have "octetsRead r5 \<le> length data" by (simp add: total_def)
  moreover have "decoded_ok h"
    unfolding decoded_ok_def HasSourceNodeId_def HasDestinationNodeId_def HasDestinationGroupId_def
      IsGroupSession_def
    using a b(3) e(3-6) v by (simp add: b(2) e(2) IsSessionTypeValid_def del: not_None_eq)
  moreover have "octetsRead r5 = PayloadOffset h" if "\<not> Has (mSecFlags h) kMsgExtensionFlag"
  proof -
    have "octetsRead r2 = 8"
      using a readWord_total [of 4 r1 c r2] 2 by (simp add: Read32_def Reader_def)
    moreover have "r5 = r4" using 5 that by (simp add: skipExtension_def)
    ultimately show ?thesis
      using b(3,4) e(3,4,7) by (simp add: PayloadOffset_def PrivacyHeaderLength_def b(2) e(2) del: not_None_eq)
  qed
  ultimately show ?thesis using n by blast
qed

lemma PayloadHeader_Decode_ok:
  assumes "PayloadHeader_Decode data = Inr (h, n)"
  shows "\<exists>k. n = of_nat k \<and> k \<le> length data"
proof -
  obtain f r1 t r2 e r3 v r4 p r5 a r6 r7 where
    r: "Read8 (Reader data) = Inr (f, r1)" "Read8 r1 = Inr (t, r2)" "Read16 r2 = Inr (e, r3)"
      "decodeVendor (Has f kExchangeFlag_VendorIdPresent) r3 = Inr (v, r4)" "Read16 r4 = Inr (p, r5)"
      "decodeAck (Has f kExchangeFlag_AckMsg) r5 = Inr (a, r6)"
      "skipExtension (Has f kExchangeFlag_SecuredExtension) r6 = Inr r7" and
    n: "n = of_nat (octetsRead r7)"
    using assms by (auto simp: PayloadHeader_Decode_def rbind_eq_Inr)
  have "total r4 = total r3"
    using r(4) Read_total(2) by (auto simp: decodeVendor_def split: if_splits)
  moreover have "total r6 = total r5"
    using r(6) Read_total(3) by (auto simp: decodeAck_def rbind_eq_Inr split: if_splits)
  ultimately have "total r7 = length data"
    using Read_total(1) [OF r(1)] Read_total(1) [OF r(2)] Read_total(2) [OF r(3)] Read_total(2) [OF r(5)]
      skipExtension_total [OF r(7)] by (simp add: total_def Reader_def)
  then show ?thesis using n by (auto simp: total_def)
qed

section \<open>Whole messages\<close>

lemma PacketHeader_EncodeSize_max: "PacketHeader_EncodeSizeBytes h \<le> 24"
  by (simp add: PacketHeader_EncodeSizeBytes_def)

lemma PayloadHeader_EncodeSize_max: "PayloadHeader_EncodeSizeBytes h \<le> 12"
  by (simp add: PayloadHeader_EncodeSizeBytes_def)

lemma packet_consume:
  assumes "packet_ok h" "PacketHeader_EncodeBeforeData h reserve buf = Inr msg"
  shows "PacketHeader_DecodeAndConsume h0 msg = Inr (h\<lparr>mMsgFlags := encodedMsgFlags h\<rparr>, buf)"
proof -
  obtain out where out: "PacketHeader_Encode h (PacketHeader_EncodeSizeBytes h + length buf) = Inr out"
    and msg: "msg = out @ buf" "length out = PacketHeader_EncodeSizeBytes h"
    using assms(2) by (auto simp: PacketHeader_EncodeBeforeData_def Let_def rbind_eq_Inr)
  have "unat (of_nat (length out) :: u16) = length out"
    using msg(2) PacketHeader_EncodeSize_max [of h] by (simp add: unat_of_nat)
  then show ?thesis
    using PacketHeader_Decode_Encode [OF assms(1) out, of h0 buf]
    by (simp add: PacketHeader_DecodeAndConsume_def msg)
qed

lemma payload_consume:
  assumes "payload_ok h" "PayloadHeader_EncodeBeforeData h reserve buf = Inr msg"
  shows "PayloadHeader_DecodeAndConsume msg = Inr (h, buf)"
proof -
  obtain out where out: "PayloadHeader_Encode h (PayloadHeader_EncodeSizeBytes h + length buf) = Inr out"
    and msg: "msg = out @ buf" "length out = PayloadHeader_EncodeSizeBytes h"
    using assms(2) by (auto simp: PayloadHeader_EncodeBeforeData_def Let_def rbind_eq_Inr)
  have "unat (of_nat (length out) :: u16) = length out"
    using msg(2) PayloadHeader_EncodeSize_max [of h] by (simp add: unat_of_nat)
  then show ?thesis
    using PayloadHeader_Decode_Encode [OF assms(1) out, of buf]
    by (simp add: PayloadHeader_DecodeAndConsume_def msg)
qed

section \<open>Properties\<close>

text \<open>
  C28. A message survives its headers: when the payload header and then the packet header are
  put in front of a payload, decoding and consuming the two headers gives back the packet
  header (with the message flags the encoder computed), the payload header and the payload.
\<close>

theorem message_roundtrip:
  assumes "packet_ok h" "payload_ok p"
    and "PayloadHeader_EncodeBeforeData p reserve1 payload = Inr inner"
    and "PacketHeader_EncodeBeforeData h reserve2 inner = Inr msg"
  shows "rbind (PacketHeader_DecodeAndConsume h0 msg) (\<lambda>(h', inner').
           rbind (PayloadHeader_DecodeAndConsume inner') (\<lambda>(p', payload'). Inr (h', p', payload')))
         = Inr (h\<lparr>mMsgFlags := encodedMsgFlags h\<rparr>, p, payload)"
  using packet_consume [OF assms(1,4)] payload_consume [OF assms(2,3)] by simp

theorem message_roundtrip_witness:
  "\<exists>inner msg.
     PayloadHeader_EncodeBeforeData (SetAckMessageCounter (Some 9) (SetMessageType 0 1 0x20
        \<lparr>mMessageType = 0, mExchangeID = 5, mVendorId = 0, mProtocolId = 0, mExchangeFlags = 0,
         mAckMessageCounter = None\<rparr>)) True [1, 2] = Inr inner \<and>
     PacketHeader_EncodeBeforeData (SetSourceNodeId (Some 7) newPacketHeader) True inner = Inr msg \<and>
     rbind (PacketHeader_DecodeAndConsume newPacketHeader msg) (\<lambda>(h', inner').
           rbind (PayloadHeader_DecodeAndConsume inner') (\<lambda>(p', payload'). Inr payload')) = Inr [1, 2]"
proof -
  let ?p = "SetAckMessageCounter (Some 9) (SetMessageType 0 1 0x20
        \<lparr>mMessageType = 0, mExchangeID = 5, mVendorId = 0, mProtocolId = 0, mExchangeFlags = 0,
         mAckMessageCounter = None\<rparr>)"
  let ?h = "SetSourceNodeId (Some 7) newPacketHeader"
  have ok: "packet_ok ?h" "payload_ok ?p"
    by (simp_all add: packet_ok_def payload_ok_def SetSourceNodeId_def newPacketHeader_def Has_def
        SetAckMessageCounter_def SetMessageType_def SetProtocol_def SetFlag_def HaveVendorId_def)
  have "isOk (PayloadHeader_EncodeBeforeData ?p True [1, 2])" by code_simp
  then obtain inner where i: "PayloadHeader_EncodeBeforeData ?p True [1, 2] = Inr inner"
    by (auto simp: isOk_iff)
  have "isOk (PacketHeader_EncodeBeforeData ?h True inner)"
    by (simp add: PacketHeader_EncodeBeforeData_def PacketHeader_Encode_def Let_def optBytes_def
        SetSourceNodeId_def newPacketHeader_def PacketHeader_EncodeSizeBytes_def IsSessionTypeValid_def)
  then obtain msg where m: "PacketHeader_EncodeBeforeData ?h True inner = Inr msg"
    by (auto simp: isOk_iff)
  have "rbind (PacketHeader_DecodeAndConsume newPacketHeader msg) (\<lambda>(h', inner').
           rbind (PayloadHeader_DecodeAndConsume inner') (\<lambda>(p', payload'). Inr payload')) = Inr [1, 2]"
    using message_roundtrip [OF ok i m, of newPacketHeader]
    by (auto simp: rbind_eq_Inr)
  with i m show ?thesis by blast
qed

text \<open>
  C29. A packet header that decodes is well-formed and the decoder stays inside the buffer: the
  session type is one of the two known ones, the optional fields are present exactly when
  their flags say so, there is at most one destination, a group destination only occurs in a
  group session, at most the bytes given were consumed, and without a message extension
  exactly \<open>PayloadOffset\<close> bytes.
\<close>

theorem decoded_header_wellformed:
  assumes "PacketHeader_Decode h0 data = Inr (h, n)" "length data < 2 ^ 16"
  shows "decoded_ok h \<and> unat n \<le> length data \<and>
         (\<not> Has (mSecFlags h) kMsgExtensionFlag \<longrightarrow> unat n = PayloadOffset h)"
proof -
  obtain k where k: "n = of_nat k" "k \<le> length data" "decoded_ok h"
    "\<not> Has (mSecFlags h) kMsgExtensionFlag \<longrightarrow> k = PayloadOffset h"
    using PacketHeader_Decode_ok [OF assms(1)] by blast
  then have "unat n = k" using assms(2) by (simp add: unat_of_nat)
  then show ?thesis using k by blast
qed

theorem decoded_header_wellformed_witness:
  "\<exists>h. PacketHeader_Decode newPacketHeader [0x02, 0x34, 0x12, 0x01, 9, 0, 0, 0, 0x56, 0x78, 0xFF] = Inr (h, 10) \<and>
       mDestinationGroupId h = Some 0x7856 \<and> decoded_ok h"
proof -
  let ?d = "[0x02, 0x34, 0x12, 0x01, 9, 0, 0, 0, 0x56, 0x78, 0xFF]"
  let ?h = "\<lparr>mMessageCounter = 9, mSourceNodeId = None, mDestinationNodeId = None,
      mDestinationGroupId = Some 0x7856, mSessionId = 0x1234, mSessionType = kGroupSession,
      mMsgFlags = 2, mSecFlags = 1\<rparr>"
  have d: "PacketHeader_Decode newPacketHeader ?d = Inr (?h, 10)"
    by code_simp
  then show ?thesis using decoded_header_wellformed [OF d] by simp
qed

text \<open>
  The payload header decoder never consumes more than the buffer, and the authentication
  tag is only read from and written to encrypted messages, sixteen bytes of it, the tag
  written being the tag read back.
\<close>

theorem payload_and_mac_bounds:
  "(\<forall>h n. PayloadHeader_Decode data = Inr (h, n) \<longrightarrow> length data < 2 ^ 16 \<longrightarrow> unat n \<le> length data) \<and>
   (MAC_Encode ph tag n = Inr out \<longrightarrow> length tag = 16 \<longrightarrow>
      IsEncrypted ph \<and> 16 \<le> n \<and> MAC_Decode ph (out @ rest) = Inr (tag, 16))"
proof -
  have "unat n \<le> length data"
    if d: "PayloadHeader_Decode data = Inr (h, n)" "length data < 2 ^ 16" for h n
  proof -
    obtain k where "n = of_nat k" "k \<le> length data" using PayloadHeader_Decode_ok [OF d(1)] by blast
    then show ?thesis using d(2) by (simp add: unat_of_nat)
  qed
  moreover have "IsEncrypted ph \<and> 16 \<le> n \<and> MAC_Decode ph (out @ rest) = Inr (tag, 16)"
    if "MAC_Encode ph tag n = Inr out" "length tag = 16"
    using that by (auto simp: MAC_Encode_def MAC_Decode_def MICTagLength_def Let_def split: if_splits)
  ultimately show ?thesis by blast
qed

theorem payload_and_mac_bounds_witness:
  "MAC_Decode (newPacketHeader\<lparr>mSessionId := 1\<rparr>) (replicate 16 7 @ [1]) = Inr (replicate 16 7, 16)"
proof -
  have "MAC_Encode (newPacketHeader\<lparr>mSessionId := 1\<rparr>) (replicate 16 7) 20 = Inr (replicate 16 7)"
    by (simp add: MAC_Encode_def MICTagLength_def IsEncrypted_def)
  then show ?thesis
    using payload_and_mac_bounds [of "[]" "newPacketHeader\<lparr>mSessionId := 1\<rparr>" "replicate 16 7" 20 "replicate 16 7" "[1]"]
    by simp
qed

end
