(* ===== verification/Base38.thy ===== *)
theory Base38
  imports Prelude
begin

text \<open>
  The Base38 codec of \<^verbatim>\<open>src/setup_payload/Base38.h\<close>, \<^verbatim>\<open>Base38Encode.cpp\<close> and
  \<^verbatim>\<open>Base38Decode.cpp\<close>: three bytes become five characters, two remaining bytes four and one
  remaining byte two.  The encoder and the decoder are inverse to each other, so that every
  byte string has exactly one encoding, and the encoder succeeds exactly in buffers of the
  announced length.
\<close>

section \<open>The alphabet\<close>

definition kCodes :: string where
  "kCodes = ''0123456789ABCDEFGHIJKLMNOPQRSTUVWXYZ-.''"

definition kRadix :: int where
  "kRadix = 38"

definition kBase38CharactersNeededInNBytesChunk :: "nat list" where
  "kBase38CharactersNeededInNBytesChunk = [2, 4, 5]"

text \<open>The table \<open>decodes\<close> of \<open>decodeChar\<close>, from \<open>'-'\<close> (45) to \<open>'Z'\<close> (90); 255 is \<open>kBogus\<close>.\<close>

definition decodes :: "int list" where
  "decodes = [36, 37, 255, 0, 1, 2, 3, 4, 5, 6, 7, 8, 9, 255, 255, 255, 255, 255, 255, 255,
              10, 11, 12, 13, 14, 15, 16, 17, 18, 19, 20, 21, 22, 23, 24, 25, 26, 27, 28, 29,
              30, 31, 32, 33, 34, 35]"

definition decodeChar :: "char \<Rightarrow> int result" where
  "decodeChar c =
     (let n = (of_char c :: nat) in
      if n < 45 \<or> n > 90 then Inl CHIP_ERROR_INVALID_INTEGER_VALUE
      else (let v = decodes ! (n - 45) in
            if v = 255 then Inl CHIP_ERROR_INVALID_INTEGER_VALUE else Inr v))"

section \<open>Encoding\<close>

text \<open>The value of a chunk, least significant byte first.\<close>

fun chunkValue :: "bytes \<Rightarrow> int" where
  "chunkValue [] = 0"
| "chunkValue (b # bs) = uint b + 256 * chunkValue bs"

fun emitChars :: "nat \<Rightarrow> int \<Rightarrow> string" where
  "emitChars 0 v = []"
| "emitChars (Suc n) v = kCodes ! nat (v mod kRadix) # emitChars n (v div kRadix)"

definition charsNeeded :: "nat \<Rightarrow> nat" where
  "charsNeeded bytesInChunk = kBase38CharactersNeededInNBytesChunk ! (bytesInChunk - 1)"

text \<open>The loop of \<open>base38Encode\<close> for an output buffer of \<open>n\<close> characters.\<close>

function base38EncodeLoop :: "nat \<Rightarrow> bytes \<Rightarrow> string \<Rightarrow> unit result \<times> string" where
  "base38EncodeLoop n inp out =
     (if inp = [] then (Inr (), out)
      else (let bytesInChunk = (if length inp \<ge> 3 then 3 else length inp);
                need = charsNeeded bytesInChunk in
            if length out + need \<ge> n then (Inl CHIP_ERROR_BUFFER_TOO_SMALL, out)
            else base38EncodeLoop n (drop bytesInChunk inp)
                   (out @ emitChars need (chunkValue (take bytesInChunk inp)))))"
  by auto

termination base38EncodeLoop
  by (relation "measure (\<lambda>(n, inp, out). length inp)") auto

declare base38EncodeLoop.simps [simp del]

definition base38Encode :: "nat \<Rightarrow> bytes \<Rightarrow> unit result \<times> string" where
  "base38Encode n inp =
     (case base38EncodeLoop n inp [] of
        (r, out) \<Rightarrow> if length out < n then (r, out) else (Inl CHIP_ERROR_BUFFER_TOO_SMALL, out))"

definition base38EncodedLength :: "nat \<Rightarrow> nat" where
  "base38EncodedLength num_bytes = (num_bytes div 3) * 5 + (num_bytes mod 3) * 2 + 1"

section \<open>Decoding\<close>

text \<open>The inner loop reads the characters of a chunk from the last to the first.\<close>

fun decodeValue :: "string \<Rightarrow> int result" where
  "decodeValue [] = Inr 0"
| "decodeValue (c # cs) =
     rbind (decodeValue cs) (\<lambda>value.
     rbind (decodeChar c) (\<lambda>v. Inr ((value * kRadix + v) mod 2 ^ 32)))"

fun emitBytes :: "nat \<Rightarrow> int \<Rightarrow> bytes" where
  "emitBytes 0 v = []"
| "emitBytes (Suc n) v = word_of_int v # emitBytes n (v div 256)"

definition decodeChunk :: "nat \<Rightarrow> string \<Rightarrow> bytes result" where
  "decodeChunk bytesInDecodedChunk cs =
     rbind (decodeValue cs) (\<lambda>value.
     verify (\<not> value div 256 ^ bytesInDecodedChunk > 0) CHIP_ERROR_INVALID_ARGUMENT
       (Inr (emitBytes bytesInDecodedChunk value)))"

text \<open>How many characters and bytes the next chunk has; \<open>None\<close> for a wrong length.\<close>

definition chunkSizes :: "nat \<Rightarrow> (nat \<times> nat) option" where
  "chunkSizes n =
     (if n \<ge> kBase38CharactersNeededInNBytesChunk ! 2 then Some (kBase38CharactersNeededInNBytesChunk ! 2, 3)
      else if n = kBase38CharactersNeededInNBytesChunk ! 1 then Some (kBase38CharactersNeededInNBytesChunk ! 1, 2)
      else if n = kBase38CharactersNeededInNBytesChunk ! 0 then Some (kBase38CharactersNeededInNBytesChunk ! 0, 1)
      else None)"

lemma chunkSizes_pos: "chunkSizes n = Some (k, m) \<Longrightarrow> 0 < k \<and> k \<le> n"
  by (auto simp: chunkSizes_def kBase38CharactersNeededInNBytesChunk_def split: if_splits)

function base38Decode :: "string \<Rightarrow> bytes result" where
  "base38Decode s =
     (if s = [] then Inr []
      else case chunkSizes (length s) of
        None \<Rightarrow> Inl CHIP_ERROR_INVALID_STRING_LENGTH
      | Some (k, m) \<Rightarrow>
          rbind (decodeChunk m (take k s)) (\<lambda>bs.
          rbind (base38Decode (drop k s)) (\<lambda>rest. Inr (bs @ rest))))"
  by auto

termination base38Decode
  by (relation "measure length") (auto dest: chunkSizes_pos)

declare base38Decode.simps [simp del]

section \<open>Digits and bytes\<close>

lemma decodeChar_kCodes:
  assumes "0 \<le> v" "v < 38"
  shows "decodeChar (kCodes ! nat v) = Inr v"
proof -
  have "list_all (\<lambda>i. decodeChar (kCodes ! i) = Inr (int i)) [0..<38]" by code_simp
  then have "decodeChar (kCodes ! nat v) = Inr (int (nat v))"
    using assms by (simp add: list_all_iff)
  then show ?thesis using assms by simp
qed

lemma decodeChar_ok:
  assumes "decodeChar c = Inr v"
  shows "0 \<le> v \<and> v < 38 \<and> kCodes ! nat v = c"
proof -
  let ?n = "of_char c :: nat"
  have "list_all (\<lambda>i. decodes ! i = 255 \<or> (0 \<le> decodes ! i \<and> decodes ! i < 38 \<and>
           of_char (kCodes ! nat (decodes ! i)) = i + (45 :: nat))) [0..<46]"
    by code_simp
  moreover have n: "45 \<le> ?n" "?n \<le> 90" "decodes ! (?n - 45) \<noteq> 255" "v = decodes ! (?n - 45)"
    using assms by (auto simp: decodeChar_def Let_def split: if_splits)
  moreover have "?n - 45 \<in> set [0..<46]" using n(1,2) by auto
  ultimately have "0 \<le> v" "v < 38" "of_char (kCodes ! nat v) = ?n"
    unfolding list_all_iff by fastforce+
  then show ?thesis by simp
qed

lemma power38: "n \<le> 5 \<Longrightarrow> (38 :: int) ^ n \<le> 79235168"
  using power_increasing [of n 5 "38 :: int"] by simp

lemma decodeValue_emitChars:
  "0 \<le> v \<Longrightarrow> v < 38 ^ n \<Longrightarrow> n \<le> 5 \<Longrightarrow> decodeValue (emitChars n v) = Inr v"
proof (induction n arbitrary: v)
  case (Suc n)
  have "v div 38 < 38 ^ n" using Suc.prems by (simp add: div_less_iff_less_mult mult.commute)
  then have "decodeValue (emitChars n (v div 38)) = Inr (v div 38)"
    using Suc by (simp add: pos_imp_zdiv_nonneg_iff)
  moreover have "v < 2 ^ 32" using Suc.prems power38 [OF Suc.prems(3)] by simp
  ultimately show ?case
    using Suc.prems by (simp add: kRadix_def decodeChar_kCodes mult.commute)
qed simp

lemma decodeValue_ok:
  "decodeValue cs = Inr v \<Longrightarrow> length cs \<le> 5 \<Longrightarrow>
     0 \<le> v \<and> v < 38 ^ length cs \<and> emitChars (length cs) v = cs"
proof (induction cs arbitrary: v)
  case (Cons c cs)
  then obtain w d where w: "decodeValue cs = Inr w" and d: "decodeChar c = Inr d"
    and v: "v = (w * 38 + d) mod 2 ^ 32"
    by (auto simp: rbind_eq_Inr kRadix_def)
  have IH: "0 \<le> w" "w < 38 ^ length cs" "emitChars (length cs) w = cs"
    using Cons.IH [OF w] Cons.prems by auto
  have dd: "0 \<le> d" "d < 38" "kCodes ! nat d = c" using decodeChar_ok [OF d] by auto
  have lt: "w * 38 + d < 38 ^ Suc (length cs)" using IH dd by simp
  then have "v = w * 38 + d"
    using IH dd v power38 [of "Suc (length cs)"] Cons.prems by (simp add: mod_pos_pos_trivial)
  moreover have "(w * 38 + d) mod 38 = d" "(w * 38 + d) div 38 = w"
    using dd by (simp_all add: mod_pos_pos_trivial div_pos_pos_trivial)
  ultimately show ?case using IH dd lt by (simp add: kRadix_def)
qed simp

lemma chunkValue_bounds: "0 \<le> chunkValue bs \<and> chunkValue bs < 256 ^ length bs"
proof (induction bs)
  case (Cons b bs)
  have "0 \<le> uint b" "uint b < 256" using uint_range_size [of b] by (auto simp: word_size)
  then show ?case using Cons by auto
qed simp

lemma emitBytes_chunkValue: "emitBytes (length bs) (chunkValue bs) = bs"
proof (induction bs)
  case (Cons b bs)
  have b: "0 \<le> uint b" "uint b < 256" using uint_range_size [of b] by (auto simp: word_size)
  have "word_of_int (uint b + 256 * chunkValue bs) = (b :: u8)"
  proof -
    have z: "(256 :: u8) = 0" by simp
    show ?thesis by simp (simp only: z mult_zero_left)
  qed
  moreover have "(uint b + 256 * chunkValue bs) div 256 = chunkValue bs"
    using b by (simp add: div_pos_pos_trivial)
  ultimately show ?case using Cons by simp
qed simp

lemma length_emitBytes [simp]: "length (emitBytes n v) = n"
  by (induction n arbitrary: v) auto

lemma length_emitChars [simp]: "length (emitChars n v) = n"
  by (induction n arbitrary: v) auto

lemma chunkValue_emitBytes: "0 \<le> v \<Longrightarrow> v < 256 ^ n \<Longrightarrow> chunkValue (emitBytes n v) = v"
proof (induction n arbitrary: v)
  case (Suc n)
  have "v div 256 < 256 ^ n" using Suc.prems by (simp add: div_less_iff_less_mult mult.commute)
  then have "chunkValue (emitBytes n (v div 256)) = v div 256"
    using Suc by (simp add: pos_imp_zdiv_nonneg_iff)
  then show ?case by (simp add: uint_word_of_int)
qed simp

section \<open>The encoding as a function\<close>

fun base38 :: "bytes \<Rightarrow> string" where
  "base38 [] = []"
| "base38 [a] = emitChars 2 (chunkValue [a])"
| "base38 [a, b] = emitChars 4 (chunkValue [a, b])"
| "base38 (a # b # c # r) = emitChars 5 (chunkValue [a, b, c]) @ base38 r"

declare emitChars.simps [simp del] chunkValue.simps [simp del]

lemma length_base38: "Suc (length (base38 bs)) = base38EncodedLength (length bs)"
proof (induction bs rule: base38.induct)
  case (4 a b c r)
  have "Suc (Suc (Suc (length r))) div 3 = Suc (length r div 3)"
    "Suc (Suc (Suc (length r))) mod 3 = length r mod 3" by presburger+
  then show ?case using 4 by (simp add: base38EncodedLength_def)
qed (simp_all add: base38EncodedLength_def)

lemma encodeLoop_simps:
  "base38EncodeLoop n [] out = (Inr (), out)"
  "base38EncodeLoop n [a] out =
     (if n \<le> length out + 2 then (Inl CHIP_ERROR_BUFFER_TOO_SMALL, out) else (Inr (), out @ base38 [a]))"
  "base38EncodeLoop n [a, b] out =
     (if n \<le> length out + 4 then (Inl CHIP_ERROR_BUFFER_TOO_SMALL, out) else (Inr (), out @ base38 [a, b]))"
  "base38EncodeLoop n (a # b # c # r) out =
     (if n \<le> length out + 5 then (Inl CHIP_ERROR_BUFFER_TOO_SMALL, out)
      else base38EncodeLoop n r (out @ emitChars 5 (chunkValue [a, b, c])))"
  by (subst base38EncodeLoop.simps, simp add: Let_def charsNeeded_def
      kBase38CharactersNeededInNBytesChunk_def base38EncodeLoop.simps [of _ "[]"] eval_nat_numeral)+

lemma base38EncodeLoop_fits:
  "bs = [] \<or> length out + length (base38 bs) < n \<Longrightarrow> base38EncodeLoop n bs out = (Inr (), out @ base38 bs)"
  by (induction bs arbitrary: out rule: base38.induct) (auto simp: encodeLoop_simps)

lemma base38EncodeLoop_full:
  "bs \<noteq> [] \<Longrightarrow> \<not> length out + length (base38 bs) < n \<Longrightarrow>
     fst (base38EncodeLoop n bs out) = Inl CHIP_ERROR_BUFFER_TOO_SMALL"
proof (induction bs arbitrary: out rule: base38.induct)
  case (4 a b c r)
  then show ?case by (cases "r = []") (simp_all add: encodeLoop_simps)
qed (simp_all add: encodeLoop_simps)

lemma base38Encode_fits:
  assumes "base38EncodedLength (length bs) \<le> n"
  shows "base38Encode n bs = (Inr (), base38 bs)"
  using assms base38EncodeLoop_fits [of bs "[]" n] length_base38 [of bs]
  by (simp add: base38Encode_def)

lemma base38Encode_full:
  assumes "n < base38EncodedLength (length bs)"
  shows "fst (base38Encode n bs) = Inl CHIP_ERROR_BUFFER_TOO_SMALL"
proof (cases "bs = []")
  case True
  then show ?thesis using assms by (simp add: base38Encode_def base38EncodedLength_def encodeLoop_simps)
next
  case False
  then have "fst (base38EncodeLoop n bs []) = Inl CHIP_ERROR_BUFFER_TOO_SMALL"
    using assms length_base38 [of bs] by (intro base38EncodeLoop_full) auto
  then show ?thesis by (auto simp: base38Encode_def split: prod.splits)
qed

section \<open>Decoding inverts encoding\<close>

lemma decodeChunk_emitChars:
  assumes "256 ^ length bs \<le> (38 :: int) ^ n" "n \<le> 5"
  shows "decodeChunk (length bs) (emitChars n (chunkValue bs)) = Inr bs"
proof -
  have "decodeValue (emitChars n (chunkValue bs)) = Inr (chunkValue bs)"
    using chunkValue_bounds [of bs] assms by (intro decodeValue_emitChars) auto
  moreover have "chunkValue bs div 256 ^ length bs = 0"
    using chunkValue_bounds [of bs] by (simp add: div_pos_pos_trivial)
  ultimately show ?thesis by (simp add: decodeChunk_def emitBytes_chunkValue)
qed

lemma decode_simps:
  "base38Decode [] = Inr []"
  "length cs = 2 \<Longrightarrow> base38Decode cs = decodeChunk 1 cs"
  "length cs = 4 \<Longrightarrow> base38Decode cs = decodeChunk 2 cs"
  "length cs = 5 \<Longrightarrow> base38Decode (cs @ r) =
     rbind (decodeChunk 3 cs) (\<lambda>bs. rbind (base38Decode r) (\<lambda>rest. Inr (bs @ rest)))"
proof -
  show nil: "base38Decode [] = Inr []" by (simp add: base38Decode.simps)
  have id: "rbind m (\<lambda>bs. Inr bs) = m" for m :: "bytes result" by (cases m) auto
  show "base38Decode cs = decodeChunk 1 cs" if "length cs = 2"
    using that by (subst base38Decode.simps)
      (auto simp: chunkSizes_def kBase38CharactersNeededInNBytesChunk_def nil id)
  show "base38Decode cs = decodeChunk 2 cs" if "length cs = 4"
    using that by (subst base38Decode.simps)
      (auto simp: chunkSizes_def kBase38CharactersNeededInNBytesChunk_def nil id)
  show "base38Decode (cs @ r) =
     rbind (decodeChunk 3 cs) (\<lambda>bs. rbind (base38Decode r) (\<lambda>rest. Inr (bs @ rest)))" if "length cs = 5"
    using that by (subst base38Decode.simps)
      (auto simp: chunkSizes_def kBase38CharactersNeededInNBytesChunk_def)
qed

lemma base38Decode_base38: "base38Decode (base38 bs) = Inr bs"
proof (induction bs rule: base38.induct)
  case (2 a)
  then show ?case using decodeChunk_emitChars [of "[a]" 2] by (simp add: decode_simps)
next
  case (3 a b)
  have "decodeChunk 2 (emitChars 4 (chunkValue [a, b])) = Inr [a, b]"
    using decodeChunk_emitChars [of "[a, b]" 4] by (simp add: numeral_2_eq_2)
  then show ?case by (simp add: decode_simps)
next
  case (4 a b c r)
  have "decodeChunk 3 (emitChars 5 (chunkValue [a, b, c])) = Inr [a, b, c]"
    using decodeChunk_emitChars [of "[a, b, c]" 5] by (simp add: numeral_3_eq_3)
  then show ?case using 4 by (simp add: decode_simps)
qed (simp add: decode_simps)

lemma decodeChunk_ok:
  assumes "decodeChunk m cs = Inr bs" "length cs \<le> 5"
  shows "length bs = m \<and> emitChars (length cs) (chunkValue bs) = cs"
proof -
  obtain v where v: "decodeValue cs = Inr v" "\<not> v div 256 ^ m > 0" "bs = emitBytes m v"
    using assms(1) by (auto simp: decodeChunk_def rbind_eq_Inr)
  note ok = decodeValue_ok [OF v(1) assms(2)]
  have "v < 256 ^ m"
    using v(2) ok by (simp add: not_less pos_imp_zdiv_pos_iff)
  then show ?thesis using ok v(3) chunkValue_emitBytes [of v m] by simp
qed

lemma length_cases:
  "length bs = Suc 0 \<Longrightarrow> base38 (bs @ []) = emitChars 2 (chunkValue bs)"
  "length bs = 2 \<Longrightarrow> base38 (bs @ []) = emitChars 4 (chunkValue bs)"
  "length bs = 3 \<Longrightarrow> base38 (bs @ r) = emitChars 5 (chunkValue bs) @ base38 r"
  by (auto simp: length_Suc_conv numeral_2_eq_2 numeral_3_eq_3)

lemma base38_base38Decode: "base38Decode s = Inr bs \<Longrightarrow> base38 bs = s"
proof (induction s arbitrary: bs rule: base38Decode.induct)
  case (1 s)
  show ?case
  proof (cases "s = []")
    case True
    then show ?thesis using 1 by (simp add: decode_simps)
  next
    case False
    then obtain k m where km: "chunkSizes (length s) = Some (k, m)"
      using 1 by (subst (asm) base38Decode.simps) (auto split: option.splits)
    then obtain b1 rest where b1: "decodeChunk m (take k s) = Inr b1"
      and rest: "base38Decode (drop k s) = Inr rest" and bs: "bs = b1 @ rest"
      using 1 False by (subst (asm) base38Decode.simps) (auto simp: rbind_eq_Inr)
    have IH: "base38 rest = drop k s" using 1 False km b1 rest by blast
    have k: "k \<le> length s" "k \<le> 5"
      using chunkSizes_pos [OF km] km
      by (auto simp: chunkSizes_def kBase38CharactersNeededInNBytesChunk_def split: if_splits)
    have c: "length b1 = m" "emitChars k (chunkValue b1) = take k s"
      using decodeChunk_ok [OF b1] k by auto
    consider "k = 5" "m = 3" | "k = 4" "m = 2" "length s = 4" | "k = 2" "m = Suc 0" "length s = 2"
      using km by (auto simp: chunkSizes_def kBase38CharactersNeededInNBytesChunk_def split: if_splits)
    then show ?thesis
    proof cases
      case 1
      then show ?thesis using c IH length_cases(3) [of b1 rest] by (simp add: bs)
    next
      case 2
      then have "rest = []" using rest by (simp add: decode_simps)
      then show ?thesis using c 2 length_cases(2) [of b1] by (simp add: bs)
    next
      case 3
      then have "rest = []" using rest by (simp add: decode_simps)
      then show ?thesis using c 3 length_cases(1) [of b1] by (simp add: bs)
    qed
  qed
qed

section \<open>Properties\<close>

text \<open>
  C33. Base38 is a bijection between byte strings and the strings its decoder accepts: in a
  buffer of the announced length the encoder succeeds, what it writes decodes to the input,
  and a string that decodes is the encoding of its result (there is no second spelling of any
  payload); in a smaller buffer the encoder reports that it is too small.
\<close>

theorem base38_bijection:
  "(if base38EncodedLength (length bs) \<le> n
    then \<exists>s. base38Encode n bs = (Inr (), s) \<and> base38Decode s = Inr bs
    else fst (base38Encode n bs) = Inl CHIP_ERROR_BUFFER_TOO_SMALL) \<and>
   (base38Decode s = Inr bs \<longleftrightarrow> base38Encode (base38EncodedLength (length bs)) bs = (Inr (), s))"
  using base38Encode_fits [of bs] base38Encode_full [of n bs] base38Decode_base38 [of bs]
    base38_base38Decode [of s bs] by auto

end
