(* ===== verification/Verhoeff.thy ===== *)
theory Verhoeff
  imports Prelude
begin

text \<open>
  The Verhoeff check digit of \<^verbatim>\<open>src/lib/support/verhoeff\<close>, which protects the manual pairing
  code.  The multiplication table of \<^verbatim>\<open>Verhoeff10.cpp\<close> is the dihedral multiplication of
  \<^verbatim>\<open>Verhoeff.cpp\<close>; it is a group, and with the permutation of the code every single wrong digit
  and every swap of two neighbouring digits is detected.
\<close>

section \<open>Core operations\<close>

definition DihedralMultiply :: "int \<Rightarrow> int \<Rightarrow> int \<Rightarrow> int" where
  "DihedralMultiply x0 y0 n =
     (let n2 = n * 2; x = x0 mod n2; y = y0 mod n2 in
      if x < n then (if y < n then (x + y) mod n else ((x + (y - n)) mod n) + n)
      else if y < n then ((n + (x - n) - y) mod n) + n
      else (n + (x - n) - (y - n)) mod n)"

definition DihedralInvert :: "int \<Rightarrow> int \<Rightarrow> int" where
  "DihedralInvert val n = (if val > 0 \<and> val < n then n - val else val)"

fun Permute :: "int \<Rightarrow> int list \<Rightarrow> int \<Rightarrow> nat \<Rightarrow> int" where
  "Permute val permTable permTableLen 0 = val mod permTableLen"
| "Permute val permTable permTableLen (Suc iterCount) =
     Permute (permTable ! nat (val mod permTableLen)) permTable permTableLen iterCount"

section \<open>Base 10\<close>

definition sMultiplyTable :: "int list" where
  "sMultiplyTable =
     [0, 1, 2, 3, 4, 5, 6, 7, 8, 9, 1, 2, 3, 4, 0, 6, 7, 8, 9, 5, 2, 3, 4, 0, 1, 7, 8, 9, 5, 6, 3, 4, 0, 1,
      2, 8, 9, 5, 6, 7, 4, 0, 1, 2, 3, 9, 5, 6, 7, 8, 5, 9, 8, 7, 6, 0, 4, 3, 2, 1, 6, 5, 9, 8, 7, 1, 0, 4,
      3, 2, 7, 6, 5, 9, 8, 2, 1, 0, 4, 3, 8, 7, 6, 5, 9, 3, 2, 1, 0, 4, 9, 8, 7, 6, 5, 4, 3, 2, 1, 0]"

definition sPermTable :: "int list" where
  "sPermTable = [1, 5, 7, 6, 2, 8, 3, 0, 9, 4]"

abbreviation Base :: int where "Base \<equiv> 10"
abbreviation PolygonSize :: int where "PolygonSize \<equiv> 5"

text \<open>\<open>None\<close> is the result -1 for a character that is no digit.\<close>

definition CharToVal :: "char \<Rightarrow> int option" where
  "CharToVal ch =
     (let n = (of_char ch :: int) in if 48 \<le> n \<and> n \<le> 57 then Some (n - 48) else None)"

definition ValToChar :: "int \<Rightarrow> char" where
  "ValToChar val = (if val \<ge> 0 \<and> val \<le> Base then char_of (48 + val) else char_of (0 :: int))"

definition mulTable :: "int \<Rightarrow> int \<Rightarrow> int" where
  "mulTable c p = sMultiplyTable ! nat (c * Base + p)"

text \<open>The loop of \<open>ComputeCheckChar\<close>: the characters come from the end of the string, the
  \<open>i\<close>-th one is permuted \<open>i\<close> times.  \<open>None\<close>: an invalid character was met.\<close>

fun checkLoop :: "nat \<Rightarrow> int \<Rightarrow> string \<Rightarrow> int option" where
  "checkLoop i c [] = Some c"
| "checkLoop i c (ch # chs) =
     (case CharToVal ch of
        None \<Rightarrow> None
      | Some val \<Rightarrow> checkLoop (Suc i) (mulTable c (Permute val sPermTable Base i)) chs)"

definition ComputeCheckChar :: "string \<Rightarrow> char" where
  "ComputeCheckChar str =
     (case checkLoop 1 0 (rev str) of
        None \<Rightarrow> char_of (0 :: int)
      | Some c \<Rightarrow> ValToChar (DihedralInvert c PolygonSize))"

definition ValidateCheckChar :: "char \<Rightarrow> string \<Rightarrow> bool" where
  "ValidateCheckChar checkChar str \<longleftrightarrow> ComputeCheckChar str = checkChar"

text \<open>The overload for a string that ends in its check character.\<close>

definition ValidateCheckString :: "string \<Rightarrow> bool" where
  "ValidateCheckString str \<longleftrightarrow> str \<noteq> [] \<and> ValidateCheckChar (last str) (butlast str)"

section \<open>The dihedral group\<close>

abbreviation digit :: "int \<Rightarrow> bool" where "digit x \<equiv> 0 \<le> x \<and> x < 10"

definition digits :: "int list" where
  "digits = [0, 1, 2, 3, 4, 5, 6, 7, 8, 9]"

lemma digit_mem: "digit x \<longleftrightarrow> x \<in> set digits"
  by (simp add: digits_def) presburger

lemma mul_table_facts:
  "list_all (\<lambda>x. list_all (\<lambda>y. mulTable x y = DihedralMultiply x y 5 \<and> mulTable x y \<in> set digits) digits) digits"
  by code_simp

lemma mul_digit: "digit x \<Longrightarrow> digit y \<Longrightarrow> digit (mulTable x y)"
  using mul_table_facts unfolding digit_mem list_all_iff by blast

lemma mul_dihedral: "digit x \<Longrightarrow> digit y \<Longrightarrow> mulTable x y = DihedralMultiply x y 5"
  using mul_table_facts unfolding digit_mem list_all_iff by blast

lemma perm_table_facts:
  "list_all (\<lambda>x. sPermTable ! nat x \<in> set digits \<and>
     list_all (\<lambda>y. x = y \<or> (sPermTable ! nat x \<noteq> sPermTable ! nat y \<and>
        mulTable x (sPermTable ! nat y) \<noteq> mulTable y (sPermTable ! nat x))) digits) digits"
  by code_simp

lemma perm_digit: "digit x \<Longrightarrow> digit (sPermTable ! nat x)"
  using perm_table_facts unfolding digit_mem list_all_iff by blast

lemma perm_inj: "digit x \<Longrightarrow> digit y \<Longrightarrow> sPermTable ! nat x = sPermTable ! nat y \<Longrightarrow> x = y"
  using perm_table_facts unfolding digit_mem list_all_iff by blast

lemma perm_antisymmetric:
  "digit x \<Longrightarrow> digit y \<Longrightarrow> mulTable x (sPermTable ! nat y) = mulTable y (sPermTable ! nat x) \<Longrightarrow> x = y"
  using perm_table_facts unfolding digit_mem list_all_iff by blast

lemma mul_group_facts:
  "list_all (\<lambda>x. mulTable 0 x = x \<and> mulTable x 0 = x \<and> mulTable (DihedralInvert x 5) x = 0 \<and>
     DihedralInvert x 5 \<in> set digits \<and>
     list_all (\<lambda>y. list_all (\<lambda>z. mulTable (mulTable x y) z = mulTable x (mulTable y z)) digits) digits) digits"
  by code_simp

lemma mul_assoc: "digit x \<Longrightarrow> digit y \<Longrightarrow> digit z \<Longrightarrow> mulTable (mulTable x y) z = mulTable x (mulTable y z)"
  using mul_group_facts unfolding digit_mem list_all_iff by blast

lemma mul_unit: "digit x \<Longrightarrow> mulTable 0 x = x" "digit x \<Longrightarrow> mulTable x 0 = x"
  using mul_group_facts unfolding digit_mem list_all_iff by blast+

lemma mul_inverse: "digit x \<Longrightarrow> mulTable (DihedralInvert x 5) x = 0" "digit x \<Longrightarrow> digit (DihedralInvert x 5)"
  using mul_group_facts unfolding digit_mem list_all_iff by blast+

lemma mul_left_cancel:
  assumes "digit c" "digit x" "digit y" "mulTable c x = mulTable c y"
  shows "x = y"
proof -
  let ?i = "DihedralInvert c 5"
  have "mulTable (mulTable ?i c) x = mulTable (mulTable ?i c) y"
    using assms mul_inverse(2) [of c] by (simp add: mul_assoc)
  then show ?thesis using assms by (simp add: mul_inverse mul_unit)
qed

lemma mul_inverse_right: "digit x \<Longrightarrow> mulTable x (DihedralInvert x 5) = 0"
  by (rule mul_left_cancel [of "DihedralInvert x 5"])
    (simp_all add: mul_inverse mul_digit mul_unit flip: mul_assoc)

lemma mul_right_cancel:
  assumes "digit c" "digit x" "digit y" "mulTable x c = mulTable y c"
  shows "x = y"
proof -
  let ?i = "DihedralInvert c 5"
  have undo: "mulTable (mulTable z c) ?i = z" if "digit z" for z
    using that assms(1) mul_inverse(2) [of c] by (simp add: mul_assoc mul_inverse_right mul_unit)
  have "x = mulTable (mulTable x c) ?i" using undo [OF assms(2)] by simp
  also have "\<dots> = mulTable (mulTable y c) ?i" using assms(4) by simp
  also have "\<dots> = y" by (rule undo [OF assms(3)])
  finally show ?thesis .
qed

lemma inverse_unique:
  assumes "digit x" "digit v"
  shows "mulTable v x = 0 \<longleftrightarrow> v = DihedralInvert x 5"
proof
  assume "mulTable v x = 0"
  then have "mulTable v x = mulTable (DihedralInvert x 5) x"
    using mul_inverse(1) [OF assms(1)] by simp
  then show "v = DihedralInvert x 5"
    by (rule mul_right_cancel [OF assms(1) assms(2) mul_inverse(2) [OF assms(1)]])
next
  assume "v = DihedralInvert x 5"
  then show "mulTable v x = 0" using mul_inverse(1) [OF assms(1)] by simp
qed

section \<open>Permutations\<close>

abbreviation perm :: "nat \<Rightarrow> int \<Rightarrow> int" where "perm i v \<equiv> Permute v sPermTable 10 i"

lemma perm_range: "digit v \<Longrightarrow> digit (perm i v)"
  by (induction i arbitrary: v) (auto simp: perm_digit)

lemma perm_Suc: "digit v \<Longrightarrow> perm (Suc i) v = sPermTable ! nat (perm i v)"
proof (induction i arbitrary: v)
  case 0
  then show ?case using perm_digit [of v] by simp
next
  case (Suc i)
  have "perm (Suc (Suc i)) v = perm (Suc i) (sPermTable ! nat v)" using Suc.prems by simp
  also have "\<dots> = sPermTable ! nat (perm i (sPermTable ! nat v))"
    using Suc.IH [of "sPermTable ! nat v"] perm_digit [OF Suc.prems] by blast
  finally show ?case using Suc.prems by simp
qed

lemma perm_injective: "digit v \<Longrightarrow> digit w \<Longrightarrow> perm i v = perm i w \<Longrightarrow> v = w"
proof (induction i)
  case (Suc i)
  then have "sPermTable ! nat (perm i v) = sPermTable ! nat (perm i w)"
    by (metis perm_Suc)
  then show ?case using Suc perm_range perm_inj by blast
qed simp

section \<open>The check sum of a whole string\<close>

definition isDigit :: "char \<Rightarrow> bool" where
  "isDigit ch \<longleftrightarrow> CharToVal ch \<noteq> None"

definition valOf :: "char \<Rightarrow> int" where
  "valOf ch = the (CharToVal ch)"

lemma valOf_digit: "isDigit ch \<Longrightarrow> CharToVal ch = Some (valOf ch) \<and> digit (valOf ch)"
  by (auto simp: isDigit_def valOf_def CharToVal_def Let_def split: if_splits)

lemma valOf_inj: "isDigit a \<Longrightarrow> isDigit b \<Longrightarrow> valOf a = valOf b \<Longrightarrow> a = b"
  by (auto simp: isDigit_def valOf_def CharToVal_def Let_def split: if_splits)

lemma ValToChar_digit: "digit v \<Longrightarrow> isDigit (ValToChar v) \<and> valOf (ValToChar v) = v"
  by (auto simp: isDigit_def valOf_def CharToVal_def ValToChar_def Let_def)

lemma checkLoop_digits:
  "digit c \<Longrightarrow> list_all isDigit s \<Longrightarrow> \<exists>r. checkLoop i c s = Some r \<and> digit r"
proof (induction s arbitrary: i c)
  case (Cons a s)
  then show ?case using valOf_digit [of a] by (simp add: mul_digit perm_range)
qed simp

lemma checkLoop_append:
  "list_all isDigit s \<Longrightarrow> checkLoop i c (s @ t) = Option.bind (checkLoop i c s) (\<lambda>r. checkLoop (i + length s) r t)"
  by (induction s arbitrary: i c) (auto dest: valOf_digit)

lemma checkLoop_inj:
  assumes "digit c" "digit c'" "list_all isDigit s" "checkLoop i c s = checkLoop i c' s"
  shows "c = c'"
  using assms
proof (induction s arbitrary: i c c')
  case (Cons a s)
  note v = valOf_digit [of a]
  let ?p = "perm i (valOf a)"
  have "digit ?p" using v Cons.prems perm_range by simp
  moreover have "mulTable c ?p = mulTable c' ?p"
    using Cons v by (intro Cons.IH [of _ _ "Suc i"]) (auto simp: mul_digit perm_range)
  ultimately show ?case using mul_right_cancel Cons.prems by blast
qed simp

lemma checkLoop_mul:
  assumes "digit a" "digit c" "list_all isDigit s"
  shows "checkLoop i (mulTable a c) s = map_option (mulTable a) (checkLoop i c s)"
  using assms
proof (induction s arbitrary: i c)
  case (Cons b s)
  note v = valOf_digit [of b]
  let ?p = "perm i (valOf b)"
  have p: "digit ?p" using v Cons.prems perm_range by simp
  have "mulTable (mulTable a c) ?p = mulTable a (mulTable c ?p)"
    using Cons.prems p by (intro mul_assoc) auto
  moreover have "digit (mulTable c ?p)" using Cons.prems p by (intro mul_digit) auto
  ultimately show ?case
    using Cons.IH [of "mulTable c ?p" "Suc i"] Cons.prems v by simp
qed simp

text \<open>A digit string with its check digit is valid exactly when the check sum of all of it is 0.\<close>

lemma Validate_iff_checksum:
  assumes "s \<noteq> []" "list_all isDigit s"
  shows "ValidateCheckString s \<longleftrightarrow> checkLoop 0 0 (rev s) = Some 0"
proof -
  obtain t d where s: "s = t @ [d]" using assms(1) by (metis append_butlast_last_id)
  have t: "list_all isDigit (rev t)" and d: "isDigit d" using assms(2) by (auto simp: s list_all_iff)
  obtain x where x: "checkLoop 1 0 (rev t) = Some x" "digit x"
    using checkLoop_digits [of 0 "rev t" 1] t by auto
  note v = valOf_digit [OF d]
  have "perm 0 (valOf d) = valOf d" using v by simp
  then have "checkLoop 0 0 (rev s) = checkLoop 1 (valOf d) (rev t)"
    using v by (simp add: s mul_unit)
  also have "\<dots> = checkLoop 1 (mulTable (valOf d) 0) (rev t)"
    using v mul_unit(2) [of "valOf d"] by simp
  also have "\<dots> = Some (mulTable (valOf d) x)"
    using checkLoop_mul [of "valOf d" 0 "rev t" 1] v t x by simp
  finally have sum: "checkLoop 0 0 (rev s) = Some (mulTable (valOf d) x)" .
  let ?i = "DihedralInvert x 5"
  have "ComputeCheckChar t = ValToChar ?i"
    using x by (simp add: ComputeCheckChar_def)
  moreover have "ValToChar ?i = d \<longleftrightarrow> valOf d = ?i"
    using ValToChar_digit [OF mul_inverse(2) [OF x(2)]] valOf_inj d by metis
  ultimately have "ValidateCheckString s \<longleftrightarrow> valOf d = ?i"
    by (simp add: ValidateCheckString_def ValidateCheckChar_def s)
  then show ?thesis
    using inverse_unique [OF x(2), of "valOf d"] v sum by simp
qed

text \<open>The check sum of \<open>xs @ d # ys\<close> (from the right) determines \<open>d\<close>, and the check sum of
  \<open>xs @ a # b # ys\<close> differs from that of \<open>xs @ b # a # ys\<close> when \<open>a \<noteq> b\<close>.\<close>

lemma checksum_single:
  assumes xs: "list_all isDigit xs" and ys: "list_all isDigit ys" and d: "isDigit d" "isDigit e"
    and eq: "checkLoop 0 0 (xs @ d # ys) = checkLoop 0 0 (xs @ e # ys)"
  shows "d = e"
proof -
  obtain c where c: "checkLoop 0 0 xs = Some c" "digit c" using checkLoop_digits [of 0 xs 0] xs by auto
  note v = valOf_digit [OF d(1)] valOf_digit [OF d(2)]
  let ?n = "length xs"
  have p: "digit (perm ?n (valOf d))" "digit (perm ?n (valOf e))" using v perm_range by auto
  have "mulTable c (perm ?n (valOf d)) = mulTable c (perm ?n (valOf e))"
    using eq c v ys p
    by (intro checkLoop_inj [OF mul_digit [OF c(2) p(1)] mul_digit [OF c(2) p(2)] ys, of "Suc ?n"])
      (simp add: checkLoop_append [OF xs])
  then have "perm ?n (valOf d) = perm ?n (valOf e)" by (rule mul_left_cancel [OF c(2) p])
  then have "valOf d = valOf e" using perm_injective v by blast
  then show ?thesis using valOf_inj d by blast
qed

lemma checksum_swap:
  assumes xs: "list_all isDigit xs" and ys: "list_all isDigit ys" and d: "isDigit d" "isDigit e"
    and eq: "checkLoop 0 0 (xs @ d # e # ys) = checkLoop 0 0 (xs @ e # d # ys)"
  shows "d = e"
proof -
  obtain c where c: "checkLoop 0 0 xs = Some c" "digit c" using checkLoop_digits [of 0 xs 0] xs by auto
  note v = valOf_digit [OF d(1)] valOf_digit [OF d(2)]
  let ?n = "length xs"
  let ?x = "perm ?n (valOf d)" and ?y = "perm ?n (valOf e)"
  let ?px = "sPermTable ! nat ?x" and ?py = "sPermTable ! nat ?y"
  have p: "digit ?x" "digit ?y" using v perm_range by auto
  have q: "digit ?px" "digit ?py" using p perm_digit by auto
  have s: "perm (Suc ?n) (valOf d) = ?px" "perm (Suc ?n) (valOf e) = ?py"
    using v perm_Suc by auto
  have "checkLoop (Suc (Suc ?n)) (mulTable (mulTable c ?x) ?py) ys
          = checkLoop (Suc (Suc ?n)) (mulTable (mulTable c ?y) ?px) ys"
    using eq c v s by (simp add: checkLoop_append [OF xs] del: Permute.simps)
  then have "mulTable (mulTable c ?x) ?py = mulTable (mulTable c ?y) ?px"
    by (rule checkLoop_inj [OF mul_digit [OF mul_digit [OF c(2) p(1)] q(2)]
          mul_digit [OF mul_digit [OF c(2) p(2)] q(1)] ys])
  then have "mulTable c (mulTable ?x ?py) = mulTable c (mulTable ?y ?px)"
    by (simp only: mul_assoc [OF c(2) p(1) q(2)] mul_assoc [OF c(2) p(2) q(1)])
  then have "mulTable ?x ?py = mulTable ?y ?px"
    by (rule mul_left_cancel [OF c(2) mul_digit [OF p(1) q(2)] mul_digit [OF p(2) q(1)]])
  then have "?x = ?y" by (rule perm_antisymmetric [OF p])
  then have "valOf d = valOf e" using perm_injective v by blast
  then show ?thesis using valOf_inj d by blast
qed

lemma rev_split: "i < length s \<Longrightarrow> rev s = rev (drop (Suc i) s) @ s ! i # rev (take i s)"
  by (subst id_take_nth_drop [of i s]) simp_all

lemma single_error:
  assumes "ValidateCheckString s" "list_all isDigit s" "i < length s" "isDigit d" "s ! i \<noteq> d"
  shows "\<not> ValidateCheckString (s[i := d])"
proof
  assume v: "ValidateCheckString (s[i := d])"
  let ?xs = "rev (drop (Suc i) s)" and ?ys = "rev (take i s)"
  have s: "rev s = ?xs @ s ! i # ?ys" "rev (s[i := d]) = ?xs @ d # ?ys"
    using rev_split [OF assms(3)] rev_split [of i "s[i := d]"] assms(3) by simp_all
  have dig: "list_all isDigit ?xs" "list_all isDigit ?ys" "isDigit (s ! i)"
    using assms(2,3) by (auto simp: list_all_iff dest: in_set_takeD in_set_dropD)
  have "list_all isDigit (s[i := d])"
    using assms(2,4) set_update_subset_insert [of s i d] by (auto simp: list_all_iff)
  then have "checkLoop 0 0 (rev s) = checkLoop 0 0 (rev (s[i := d]))"
    using Validate_iff_checksum [of s] Validate_iff_checksum [of "s[i := d]"] assms(1-3) v by fastforce
  then show False
    using checksum_single [OF dig(1,2) dig(3) assms(4)] assms(5) unfolding s by blast
qed

section \<open>Properties\<close>

text \<open>
  The check digit detects every single wrong digit, the check digit itself included: a
  valid digit string is no longer valid after one of its digits was replaced by another one.
\<close>

theorem verhoeff_detects_single_errors:
  assumes "ValidateCheckString s" "list_all isDigit s" "i < length s" "isDigit d" "s ! i \<noteq> d"
  shows "\<not> ValidateCheckString (s[i := d])"
  using assms by (rule single_error)

theorem verhoeff_detects_single_errors_witness:
  "ValidateCheckString ''123456'' = False \<and> ValidateCheckString ''123451'' \<and>
   \<not> ValidateCheckString (''123451''[2 := CHR ''7''])"
proof -
  have v: "ValidateCheckString ''123451''" by code_simp
  have "list_all isDigit ''123451''" "isDigit (CHR ''7'')" by code_simp+
  then have "\<not> ValidateCheckString (''123451''[2 := CHR ''7''])"
    using verhoeff_detects_single_errors [OF v, of 2 "CHR ''7''"] by simp
  moreover have "ValidateCheckString ''123456'' = False" by code_simp
  ultimately show ?thesis using v by simp
qed

text \<open>
  The check digit detects every swap of two different neighbouring digits, also of the
  last digit with the check digit.
\<close>

theorem verhoeff_detects_transpositions:
  assumes "ValidateCheckString s" "list_all isDigit s" "Suc i < length s" "s ! i \<noteq> s ! Suc i"
  shows "\<not> ValidateCheckString (s[i := s ! Suc i, Suc i := s ! i])"
proof
  let ?t = "s[i := s ! Suc i, Suc i := s ! i]"
  assume v: "ValidateCheckString ?t"
  let ?xs = "rev (drop (Suc (Suc i)) s)" and ?ys = "rev (take i s)"
  have tk: "rev (take (Suc i) s) = s ! i # ?ys" using assms(3) by (simp add: take_Suc_conv_app_nth)
  have s: "rev s = ?xs @ s ! Suc i # s ! i # ?ys"
    using rev_split [OF assms(3)] tk by simp
  have "take (Suc i) (s[i := s ! Suc i]) = take i s @ [s ! Suc i]"
    using assms(3) by (simp add: take_Suc_conv_app_nth)
  then have t: "rev ?t = ?xs @ s ! i # s ! Suc i # ?ys"
    using rev_split [of "Suc i" ?t] assms(3) by simp
  have dig: "list_all isDigit ?xs" "list_all isDigit ?ys" "isDigit (s ! Suc i)" "isDigit (s ! i)"
    using assms(2,3) by (auto simp: list_all_iff dest: in_set_takeD in_set_dropD)
  have "set ?t \<subseteq> set s"
    using set_update_subsetI [of "s[i := s ! Suc i]" "set s" "s ! i" "Suc i"]
      set_update_subsetI [of s "set s" "s ! Suc i" i] assms(3) by auto
  then have "list_all isDigit ?t" using assms(2) by (auto simp: list_all_iff)
  then have "checkLoop 0 0 (rev s) = checkLoop 0 0 (rev ?t)"
    using Validate_iff_checksum [of s] Validate_iff_checksum [of ?t] assms(1-3) v by fastforce
  then show False
    using checksum_swap [OF dig(1,2) dig(3,4)] assms(4) unfolding s t by metis
qed

theorem verhoeff_detects_transpositions_witness:
  "ValidateCheckString ''123451'' \<and>
   \<not> ValidateCheckString (''123451''[3 := CHR ''5'', Suc 3 := CHR ''4''])"
proof -
  have v: "ValidateCheckString ''123451''" by code_simp
  have "list_all isDigit ''123451''" by code_simp
  then have "\<not> ValidateCheckString (''123451''[3 := CHR ''5'', Suc 3 := CHR ''4''])"
    using verhoeff_detects_transpositions [OF v, of 3] by simp
  then show ?thesis using v by simp
qed

text \<open>
  The lookup table is the group operation: for all digits the table entry is the dihedral
  multiplication that the table replaces, and it is a digit.
\<close>

theorem multiply_table_is_dihedral:
  assumes "0 \<le> x" "x < 10" "0 \<le> y" "y < 10"
  shows "mulTable x y = DihedralMultiply x y 5 \<and> 0 \<le> mulTable x y \<and> mulTable x y < 10"
  using mul_dihedral [of x y] mul_digit [of x y] assms by simp

theorem multiply_table_is_dihedral_witness:
  "mulTable 7 8 = DihedralMultiply 7 8 5 \<and> mulTable 7 8 = 4"
proof -
  have "mulTable 7 8 = 4" by code_simp
  then show ?thesis using multiply_table_is_dihedral [of 7 8] by simp
qed

end
