(* ===== verification/Setup_Payload.thy ===== *)
theory Setup_Payload
  imports Prelude
begin

text \<open>
  The onboarding payload of \<^verbatim>\<open>src/setup_payload/SetupPayload.cpp\<close>: its fields and validity
  checks, the discriminator of \<^verbatim>\<open>src/lib/support/SetupDiscriminator.h\<close>, and the optional vendor
  and extension data with their tag ranges.
\<close>

section \<open>Discriminator\<close>

record SetupDiscriminator =
  mDiscriminator :: u16
  mIsShortDiscriminator :: bool

definition SetShortValue :: "u8 \<Rightarrow> SetupDiscriminator result" where
  "SetShortValue d = verify (d = d AND 0x0F) DIE
     (Inr \<lparr>mDiscriminator = ucast (d AND 0x0F), mIsShortDiscriminator = True\<rparr>)"

definition SetLongValue :: "u16 \<Rightarrow> SetupDiscriminator result" where
  "SetLongValue d = verify (d = d AND 0x0FFF) DIE
     (Inr \<lparr>mDiscriminator = d AND 0x0FFF, mIsShortDiscriminator = False\<rparr>)"

definition LongToShortValue :: "u16 \<Rightarrow> u8" where
  "LongToShortValue longValue = ucast (drop_bit 8 longValue)"

definition GetShortValue :: "SetupDiscriminator \<Rightarrow> u8" where
  "GetShortValue d =
     (if mIsShortDiscriminator d then ucast (mDiscriminator d) else LongToShortValue (mDiscriminator d))"

definition GetLongValue :: "SetupDiscriminator \<Rightarrow> u16 result" where
  "GetLongValue d = verify (\<not> mIsShortDiscriminator d) DIE (Inr (mDiscriminator d))"

definition MatchesLongDiscriminator :: "SetupDiscriminator \<Rightarrow> u16 \<Rightarrow> bool" where
  "MatchesLongDiscriminator d discriminator =
     (if \<not> mIsShortDiscriminator d then mDiscriminator d = discriminator
      else mDiscriminator d = ucast (LongToShortValue discriminator))"

text \<open>The bit field is 12 bits wide, and a short discriminator uses the low 4 of them.\<close>

definition discriminator_ok :: "SetupDiscriminator \<Rightarrow> bool" where
  "discriminator_ok d \<longleftrightarrow>
     (if mIsShortDiscriminator d then mDiscriminator d < 16 else mDiscriminator d < 4096)"

section \<open>Payload contents\<close>

record PayloadContents =
  version :: u8
  vendorID :: u16
  productID :: u16
  commissioningFlow :: u8
  rendezvousInformation :: "u8 option"
  discriminator :: SetupDiscriminator
  setUpPINCode :: u32

abbreviation (input) kStandard :: u8 where "kStandard \<equiv> 0"
abbreviation (input) kUserActionRequired :: u8 where "kUserActionRequired \<equiv> 1"
abbreviation (input) kCustom :: u8 where "kCustom \<equiv> 2"

definition newPayloadContents :: PayloadContents where
  "newPayloadContents =
     \<lparr>version = 0, vendorID = 0, productID = 0, commissioningFlow = kStandard,
      rendezvousInformation = None,
      discriminator = \<lparr>mDiscriminator = 0, mIsShortDiscriminator = False\<rparr>, setUpPINCode = 0\<rparr>"

definition IsVendorIdValidOperationally :: "u16 \<Rightarrow> bool" where
  "IsVendorIdValidOperationally v \<longleftrightarrow> v \<noteq> 0 \<and> v \<le> 0xFFF4"

definition IsValidSetupPIN :: "u32 \<Rightarrow> bool" where
  "IsValidSetupPIN pin \<longleftrightarrow>
     \<not> (pin = 0 \<or> pin > 99999998 \<or> pin = 11111111 \<or> pin = 22222222 \<or> pin = 33333333 \<or> pin = 44444444 \<or>
        pin = 55555555 \<or> pin = 66666666 \<or> pin = 77777777 \<or> pin = 88888888 \<or> pin = 12345678 \<or> pin = 87654321)"

definition CheckPayloadCommonConstraints :: "PayloadContents \<Rightarrow> bool" where
  "CheckPayloadCommonConstraints p \<longleftrightarrow>
     version p = 0 \<and> IsValidSetupPIN (setUpPINCode p) \<and>
     (IsVendorIdValidOperationally (vendorID p) \<or> vendorID p = 0) \<and>
     \<not> (productID p = 0 \<and> vendorID p \<noteq> 0)"

definition isValidQRCodePayload :: "PayloadContents \<Rightarrow> bool" where
  "isValidQRCodePayload p \<longleftrightarrow>
     \<not> version p \<ge> push_bit 3 1 \<and>
     \<not> commissioningFlow p > push_bit 2 1 - 1 \<and>
     (commissioningFlow p = kStandard \<or> commissioningFlow p = kUserActionRequired \<or> commissioningFlow p = kCustom) \<and>
     (case rendezvousInformation p of None \<Rightarrow> False | Some r \<Rightarrow> HasOnly r (0x02 OR 0x04 OR 0x01)) \<and>
     \<not> setUpPINCode p \<ge> push_bit 27 1 \<and>
     CheckPayloadCommonConstraints p"

definition isValidManualCode :: "PayloadContents \<Rightarrow> bool" where
  "isValidManualCode p \<longleftrightarrow> \<not> setUpPINCode p \<ge> push_bit 27 1 \<and> CheckPayloadCommonConstraints p"

section \<open>Optional data\<close>

datatype optionalQRCodeInfoType =
  InfoUnknown | InfoString | InfoInt32 | InfoInt64 | InfoUInt32 | InfoUInt64

record OptionalQRCodeInfo =
  tag :: u8
  infoType :: optionalQRCodeInfoType
  infoData :: string
  int32 :: int

record OptionalQRCodeInfoExtension = OptionalQRCodeInfo +
  int64 :: int
  uint32 :: u64
  uint64 :: u64

definition kSerialNumberTag :: u8 where "kSerialNumberTag = 0"

definition IsCommonTag :: "u8 \<Rightarrow> bool" where "IsCommonTag t \<longleftrightarrow> t < 0x80"

definition IsVendorTag :: "u8 \<Rightarrow> bool" where "IsVendorTag t \<longleftrightarrow> \<not> IsCommonTag t"

text \<open>\<open>std::map\<close> from tags as a list of entries sorted by tag.\<close>

fun mapInsert :: "('a \<Rightarrow> u8) \<Rightarrow> 'a \<Rightarrow> 'a list \<Rightarrow> 'a list" where
  "mapInsert tagOf x [] = [x]"
| "mapInsert tagOf x (y # ys) =
     (if tagOf x < tagOf y then x # y # ys
      else if tagOf x = tagOf y then x # ys
      else y # mapInsert tagOf x ys)"

definition mapFind :: "('a \<Rightarrow> u8) \<Rightarrow> u8 \<Rightarrow> 'a list \<Rightarrow> 'a option" where
  "mapFind tagOf t xs = find (\<lambda>x. tagOf x = t) xs"

definition mapErase :: "('a \<Rightarrow> u8) \<Rightarrow> u8 \<Rightarrow> 'a list \<Rightarrow> 'a list" where
  "mapErase tagOf t xs = filter (\<lambda>x. tagOf x \<noteq> t) xs"

record SetupPayload =
  contents :: PayloadContents
  optionalVendorData :: "OptionalQRCodeInfo list"
  optionalExtensionData :: "OptionalQRCodeInfoExtension list"

definition addOptionalVendorData :: "OptionalQRCodeInfo \<Rightarrow> SetupPayload \<Rightarrow> unit result \<times> SetupPayload" where
  "addOptionalVendorData info sp =
     (if IsVendorTag (tag info)
      then (Inr (), sp\<lparr>optionalVendorData := mapInsert tag info (optionalVendorData sp)\<rparr>)
      else (Inl CHIP_ERROR_INVALID_ARGUMENT, sp))"

definition addOptionalVendorDataString :: "u8 \<Rightarrow> string \<Rightarrow> SetupPayload \<Rightarrow> unit result \<times> SetupPayload" where
  "addOptionalVendorDataString t d =
     addOptionalVendorData \<lparr>tag = t, infoType = InfoString, infoData = d, int32 = 0\<rparr>"

definition addOptionalVendorDataInt :: "u8 \<Rightarrow> int \<Rightarrow> SetupPayload \<Rightarrow> unit result \<times> SetupPayload" where
  "addOptionalVendorDataInt t d =
     addOptionalVendorData \<lparr>tag = t, infoType = InfoInt32, infoData = [], int32 = d\<rparr>"

definition removeOptionalVendorData :: "u8 \<Rightarrow> SetupPayload \<Rightarrow> unit result \<times> SetupPayload" where
  "removeOptionalVendorData t sp =
     (case mapFind tag t (optionalVendorData sp) of
        None \<Rightarrow> (Inl CHIP_ERROR_KEY_NOT_FOUND, sp)
      | Some _ \<Rightarrow> (Inr (), sp\<lparr>optionalVendorData := mapErase tag t (optionalVendorData sp)\<rparr>))"

definition getOptionalVendorData :: "u8 \<Rightarrow> SetupPayload \<Rightarrow> OptionalQRCodeInfo result" where
  "getOptionalVendorData t sp =
     (case mapFind tag t (optionalVendorData sp) of
        None \<Rightarrow> Inl CHIP_ERROR_KEY_NOT_FOUND | Some info \<Rightarrow> Inr info)"

definition addOptionalExtensionData ::
    "OptionalQRCodeInfoExtension \<Rightarrow> SetupPayload \<Rightarrow> unit result \<times> SetupPayload" where
  "addOptionalExtensionData info sp =
     (if IsCommonTag (tag info)
      then (Inr (), sp\<lparr>optionalExtensionData := mapInsert tag info (optionalExtensionData sp)\<rparr>)
      else (Inl CHIP_ERROR_INVALID_ARGUMENT, sp))"

definition getOptionalExtensionData :: "u8 \<Rightarrow> SetupPayload \<Rightarrow> OptionalQRCodeInfoExtension result" where
  "getOptionalExtensionData t sp =
     (case mapFind tag t (optionalExtensionData sp) of
        None \<Rightarrow> Inl CHIP_ERROR_KEY_NOT_FOUND | Some info \<Rightarrow> Inr info)"

definition addSerialNumberString :: "string \<Rightarrow> SetupPayload \<Rightarrow> unit result \<times> SetupPayload" where
  "addSerialNumberString sn =
     addOptionalExtensionData \<lparr>tag = kSerialNumberTag, infoType = InfoString, infoData = sn, int32 = 0,
       int64 = 0, uint32 = 0, uint64 = 0\<rparr>"

definition addSerialNumberInt :: "u32 \<Rightarrow> SetupPayload \<Rightarrow> unit result \<times> SetupPayload" where
  "addSerialNumberInt sn =
     addOptionalExtensionData \<lparr>tag = kSerialNumberTag, infoType = InfoUInt32, infoData = [], int32 = 0,
       int64 = 0, uint32 = ucast sn, uint64 = 0\<rparr>"

definition removeSerialNumber :: "SetupPayload \<Rightarrow> unit result \<times> SetupPayload" where
  "removeSerialNumber sp =
     (case mapFind tag kSerialNumberTag (optionalExtensionData sp) of
        None \<Rightarrow> (Inl CHIP_ERROR_KEY_NOT_FOUND, sp)
      | Some _ \<Rightarrow> (Inr (), sp\<lparr>optionalExtensionData := mapErase tag kSerialNumberTag (optionalExtensionData sp)\<rparr>))"

text \<open>\<open>std::to_string\<close> of an unsigned number, for \<open>getSerialNumber\<close>.\<close>

function toDecimal :: "int \<Rightarrow> string" where
  "toDecimal n = (if n < 10 then [char_of (48 + n)] else toDecimal (n div 10) @ [char_of (48 + n mod 10)])"
  by auto

termination toDecimal
  by (relation "measure nat") auto

definition getSerialNumber :: "SetupPayload \<Rightarrow> string result" where
  "getSerialNumber sp =
     rbind (getOptionalExtensionData kSerialNumberTag sp) (\<lambda>info.
       case infoType info of
         InfoString \<Rightarrow> Inr (infoData info)
       | InfoUInt32 \<Rightarrow> Inr (toDecimal (uint (uint32 info)))
       | _ \<Rightarrow> Inl CHIP_ERROR_INVALID_ARGUMENT)"

definition getNumericTypeFor :: "u8 \<Rightarrow> optionalQRCodeInfoType" where
  "getNumericTypeFor t =
     (if IsVendorTag t then InfoInt32 else if t = kSerialNumberTag then InfoUInt32 else InfoUnknown)"

text \<open>\<open>SetupPayload::operator==\<close>; the contents are compared field by field.\<close>

definition payloadEquals :: "SetupPayload \<Rightarrow> SetupPayload \<Rightarrow> bool" where
  "payloadEquals a b \<longleftrightarrow>
     contents a = contents b \<and>
     length (optionalVendorData a) = length (optionalVendorData b) \<and>
     list_all (\<lambda>i. case getOptionalVendorData (tag i) a of Inl _ \<Rightarrow> False
        | Inr j \<Rightarrow> infoType i = infoType j \<and> infoData i = infoData j \<and> int32 i = int32 j) (optionalVendorData b) \<and>
     length (optionalExtensionData a) = length (optionalExtensionData b) \<and>
     list_all (\<lambda>i. case getOptionalExtensionData (tag i) a of Inl _ \<Rightarrow> False
        | Inr j \<Rightarrow> infoType i = infoType j \<and> infoData i = infoData j \<and> int32 i = int32 j \<and>
            int64 i = int64 j \<and> uint32 i = uint32 j \<and> uint64 i = uint64 j) (optionalExtensionData b)"

section \<open>Tagged stores\<close>

text \<open>
  What the vendor data and the extension data promise their clients: a tag in the store's range
  is added or overwritten and can be looked up, a tag out of the range is refused and nothing
  changes.  \<open>tagged_store_remove\<close> adds removal.
\<close>

fun sortedTags :: "('a \<Rightarrow> u8) \<Rightarrow> 'a list \<Rightarrow> bool" where
  "sortedTags tagOf [] \<longleftrightarrow> True"
| "sortedTags tagOf (x # xs) \<longleftrightarrow> list_all (\<lambda>y. tagOf x < tagOf y) xs \<and> sortedTags tagOf xs"

lemma find_append_simps:
  "find P (xs @ ys) = (case find P xs of None \<Rightarrow> find P ys | Some x \<Rightarrow> Some x)"
  by (induction xs) auto

locale tagged_store =
  fixes tagOf :: "'a \<Rightarrow> u8" and inRange :: "u8 \<Rightarrow> bool" and inv :: "'s \<Rightarrow> bool"
    and add :: "'a \<Rightarrow> 's \<Rightarrow> unit result \<times> 's" and get :: "u8 \<Rightarrow> 's \<Rightarrow> 'a result"
  assumes add_ok: "inv s \<Longrightarrow> inRange (tagOf x) \<Longrightarrow> fst (add x s) = Inr () \<and> inv (snd (add x s)) \<and>
      get t (snd (add x s)) = (if t = tagOf x then Inr x else get t s)"
    and add_refused: "\<not> inRange (tagOf x) \<Longrightarrow> add x s = (Inl CHIP_ERROR_INVALID_ARGUMENT, s)"
begin

text \<open>After any adds a tag gives the last entry added for it that was in the range.\<close>

lemma get_add_all:
  "inv s \<Longrightarrow> inv (fold (\<lambda>x s. snd (add x s)) xs s) \<and> get t (fold (\<lambda>x s. snd (add x s)) xs s) =
     (case find (\<lambda>x. inRange (tagOf x) \<and> tagOf x = t) (rev xs) of Some x \<Rightarrow> Inr x | None \<Rightarrow> get t s)"
proof (induction xs arbitrary: s)
  case (Cons x xs)
  show ?case
  proof (cases "inRange (tagOf x)")
    case True
    then show ?thesis using Cons.IH [of "snd (add x s)"] add_ok [OF Cons.prems True]
      by (auto simp: find_append_simps split: option.splits)
  next
    case False
    then show ?thesis using Cons.IH [OF Cons.prems] add_refused [OF False]
      by (auto simp: find_append_simps split: option.splits)
  qed
qed simp

end

locale tagged_store_remove = tagged_store tagOf inRange inv add get
  for tagOf :: "'a \<Rightarrow> u8" and inRange and inv :: "'s \<Rightarrow> bool" and add and get +
  fixes remove :: "u8 \<Rightarrow> 's \<Rightarrow> unit result \<times> 's"
  assumes remove_ok: "inv s \<Longrightarrow> get t s = Inr x \<Longrightarrow> fst (remove t s) = Inr () \<and> inv (snd (remove t s)) \<and>
      get u (snd (remove t s)) = (if u = t then Inl CHIP_ERROR_KEY_NOT_FOUND else get u s)"
    and remove_missing: "get t s = Inl e \<Longrightarrow> remove t s = (Inl CHIP_ERROR_KEY_NOT_FOUND, s)"
    and get_error: "get t s = Inl e \<Longrightarrow> e = CHIP_ERROR_KEY_NOT_FOUND"
begin

lemma add_then_remove:
  assumes "inv s" "inRange (tagOf x)"
  shows "get u (snd (remove (tagOf x) (snd (add x s)))) =
           (if u = tagOf x then Inl CHIP_ERROR_KEY_NOT_FOUND else get u s)"
  using remove_ok [of "snd (add x s)" "tagOf x" x u] add_ok [OF assms] by auto

end

lemma mapFind_insert:
  "sortedTags tagOf xs \<Longrightarrow> mapFind tagOf t (mapInsert tagOf x xs) = (if t = tagOf x then Some x else mapFind tagOf t xs)"
  by (induction xs) (auto simp: mapFind_def)

lemma set_mapInsert: "set (mapInsert tagOf x xs) \<subseteq> insert x (set xs)"
  by (induction xs) auto

lemma sorted_insert: "sortedTags tagOf xs \<Longrightarrow> sortedTags tagOf (mapInsert tagOf x xs)"
proof (induction xs)
  case (Cons y ys)
  then show ?case using set_mapInsert [of tagOf x ys] by (fastforce simp: list_all_iff)
qed simp

lemma mapFind_erase: "mapFind tagOf t (mapErase tagOf u xs) = (if t = u then None else mapFind tagOf t xs)"
  by (induction xs) (auto simp: mapFind_def mapErase_def)

lemma sorted_erase: "sortedTags tagOf xs \<Longrightarrow> sortedTags tagOf (mapErase tagOf u xs)"
  by (induction xs) (auto simp: mapErase_def list_all_iff)

text \<open>The invariant of a payload: the entries are sorted by tag and in their range.\<close>

definition payload_ok :: "SetupPayload \<Rightarrow> bool" where
  "payload_ok sp \<longleftrightarrow>
     sortedTags tag (optionalVendorData sp) \<and> sortedTags tag (optionalExtensionData sp) \<and>
     list_all (\<lambda>i. IsVendorTag (tag i)) (optionalVendorData sp) \<and>
     list_all (\<lambda>i. IsCommonTag (tag i)) (optionalExtensionData sp)"

lemma range_insert:
  "list_all (\<lambda>i. P (tagOf i)) xs \<Longrightarrow> P (tagOf x) \<Longrightarrow> list_all (\<lambda>i. P (tagOf i)) (mapInsert tagOf x xs)"
  using set_mapInsert [of tagOf x xs] by (auto simp: list_all_iff)

lemma range_erase: "list_all P xs \<Longrightarrow> list_all P (mapErase tagOf u xs)"
  by (auto simp: list_all_iff mapErase_def)

lemmas store_simps = mapFind_insert sorted_insert range_insert mapFind_erase sorted_erase range_erase

interpretation vendor: tagged_store_remove "tag :: OptionalQRCodeInfo \<Rightarrow> u8" IsVendorTag payload_ok
  addOptionalVendorData getOptionalVendorData removeOptionalVendorData
  by unfold_locales
    (auto simp: addOptionalVendorData_def getOptionalVendorData_def removeOptionalVendorData_def payload_ok_def
      store_simps split: option.splits if_splits)

interpretation extension: tagged_store "tag :: OptionalQRCodeInfoExtension \<Rightarrow> u8" IsCommonTag payload_ok
  addOptionalExtensionData getOptionalExtensionData
  by unfold_locales
    (auto simp: addOptionalExtensionData_def getOptionalExtensionData_def payload_ok_def
      store_simps split: option.splits if_splits)

section \<open>Properties\<close>

text \<open>Sequences of the operations on the optional data, and the maps they implement.\<close>

datatype optionalOp =
    AddVendor OptionalQRCodeInfo
  | RemoveVendor u8
  | AddExtension OptionalQRCodeInfoExtension
  | RemoveSerial

fun stepOp :: "optionalOp \<Rightarrow> SetupPayload \<Rightarrow> SetupPayload" where
  "stepOp (AddVendor i) sp = snd (addOptionalVendorData i sp)"
| "stepOp (RemoveVendor t) sp = snd (removeOptionalVendorData t sp)"
| "stepOp (AddExtension i) sp = snd (addOptionalExtensionData i sp)"
| "stepOp RemoveSerial sp = snd (removeSerialNumber sp)"

type_synonym optionalMaps = "(u8 \<rightharpoonup> OptionalQRCodeInfo) \<times> (u8 \<rightharpoonup> OptionalQRCodeInfoExtension)"

fun specOp :: "optionalOp \<Rightarrow> optionalMaps \<Rightarrow> optionalMaps" where
  "specOp (AddVendor i) (v, e) = (if IsVendorTag (tag i) then v(tag i \<mapsto> i) else v, e)"
| "specOp (RemoveVendor t) (v, e) = (v(t := None), e)"
| "specOp (AddExtension i) (v, e) = (v, if IsCommonTag (tag i) then e(tag i \<mapsto> i) else e)"
| "specOp RemoveSerial (v, e) = (v, e(kSerialNumberTag := None))"

definition absMaps :: "SetupPayload \<Rightarrow> optionalMaps" where
  "absMaps sp = (\<lambda>t. mapFind tag t (optionalVendorData sp), \<lambda>t. mapFind tag t (optionalExtensionData sp))"

lemma mapFind_absent: "mapFind tagOf t xs = None \<Longrightarrow> mapErase tagOf t xs = xs"
  by (induction xs) (auto simp: mapFind_def mapErase_def split: if_splits)

lemma stepOp_refines:
  assumes "payload_ok sp"
  shows "payload_ok (stepOp op sp) \<and> absMaps (stepOp op sp) = specOp op (absMaps sp) \<and>
         contents (stepOp op sp) = contents sp"
  using assms
  by (cases op)
    (auto simp: addOptionalVendorData_def removeOptionalVendorData_def addOptionalExtensionData_def
      removeSerialNumber_def payload_ok_def absMaps_def store_simps fun_eq_iff split: option.splits)

text \<open>
  The optional data behaves as two maps: from a well-formed payload any sequence of adds and
  removals gives a well-formed payload (entries sorted by tag, vendor entries with vendor tags,
  extension entries with common tags) whose lookups are those of the two maps updated by the
  same operations; the other contents of the payload do not change.
\<close>

theorem optional_data_refines_maps:
  assumes "payload_ok sp"
  shows "payload_ok (fold stepOp ops sp) \<and> absMaps (fold stepOp ops sp) = fold specOp ops (absMaps sp) \<and>
         contents (fold stepOp ops sp) = contents sp"
  using assms
proof (induction ops arbitrary: sp)
  case (Cons op ops)
  then show ?case using stepOp_refines [OF Cons.prems, of op] by simp
qed simp

definition emptyPayload :: SetupPayload where
  "emptyPayload = \<lparr>contents = newPayloadContents, optionalVendorData = [], optionalExtensionData = []\<rparr>"

theorem optional_data_refines_maps_witness:
  "payload_ok (fold stepOp [AddVendor \<lparr>tag = 0x82, infoType = InfoInt32, infoData = [], int32 = 7\<rparr>,
      AddVendor \<lparr>tag = 3, infoType = InfoInt32, infoData = [], int32 = 8\<rparr>, RemoveSerial] emptyPayload) \<and>
   fst (absMaps (fold stepOp [AddVendor \<lparr>tag = 0x82, infoType = InfoInt32, infoData = [], int32 = 7\<rparr>,
      AddVendor \<lparr>tag = 3, infoType = InfoInt32, infoData = [], int32 = 8\<rparr>, RemoveSerial] emptyPayload)) 3 = None"
proof -
  have "payload_ok emptyPayload" by (simp add: payload_ok_def emptyPayload_def)
  note t = optional_data_refines_maps [OF this, of "[AddVendor \<lparr>tag = 0x82, infoType = InfoInt32, infoData = [], int32 = 7\<rparr>,
      AddVendor \<lparr>tag = 3, infoType = InfoInt32, infoData = [], int32 = 8\<rparr>, RemoveSerial]"]
  have "fst (fold specOp [AddVendor \<lparr>tag = 0x82, infoType = InfoInt32, infoData = [], int32 = 7\<rparr>,
      AddVendor \<lparr>tag = 3, infoType = InfoInt32, infoData = [], int32 = 8\<rparr>, RemoveSerial] (absMaps emptyPayload)) 3 = None"
    by (simp add: absMaps_def emptyPayload_def mapFind_def IsVendorTag_def IsCommonTag_def)
  then show ?thesis using t by simp
qed

lemma mapFind_sorted: "sortedTags tagOf xs \<Longrightarrow> x \<in> set xs \<Longrightarrow> mapFind tagOf (tagOf x) xs = Some x"
  by (induction xs) (auto simp: mapFind_def list_all_iff)

lemma mapFind_mem: "mapFind tagOf t xs = Some x \<Longrightarrow> x \<in> set xs \<and> tagOf x = t"
  by (auto simp: mapFind_def find_Some_iff)

lemma sorted_distinct: "sortedTags tagOf xs \<Longrightarrow> distinct xs"
  by (induction xs) (auto simp: list_all_iff)

lemma sorted_unique:
  "sortedTags tagOf xs \<Longrightarrow> sortedTags tagOf ys \<Longrightarrow> set xs = set ys \<Longrightarrow> xs = ys"
proof (induction xs arbitrary: ys)
  case (Cons x xs)
  then obtain y ys' where ys: "ys = y # ys'" by (cases ys) auto
  have "x = y" using Cons.prems ys by (auto simp: list_all_iff) (metis insert_iff order_less_asym)
  moreover have "set xs = set ys'"
    using Cons.prems ys \<open>x = y\<close> sorted_distinct [of tagOf "x # xs"] sorted_distinct [of tagOf ys] by auto
  ultimately show ?case using Cons ys by simp
qed simp

lemma sorted_lookup_eq:
  assumes "sortedTags tagOf xs" "sortedTags tagOf ys" "length xs = length ys"
    and "list_all (\<lambda>y. mapFind tagOf (tagOf y) xs = Some y) ys"
  shows "xs = ys"
proof -
  have "set ys \<subseteq> set xs" using assms(4) by (auto simp: list_all_iff dest: mapFind_mem)
  then have "set ys = set xs"
    using sorted_distinct assms(1-3) by (metis card_subset_eq distinct_card finite_set)
  then show ?thesis using sorted_unique [OF assms(1,2)] by simp
qed

text \<open>
  C37. The comparison of payloads is equality: on well-formed payloads \<open>operator==\<close>, which compares
  the sizes of the stores and looks up each entry of the other payload, holds exactly when all
  fields and all optional entries are the same.
\<close>

theorem payloadEquals_is_equality:
  assumes "payload_ok a" "payload_ok b"
  shows "payloadEquals a b \<longleftrightarrow> a = b"
proof
  assume e: "payloadEquals a b"
  have "list_all (\<lambda>y. mapFind tag (tag y) (optionalVendorData a) = Some y) (optionalVendorData b)"
    using e by (fastforce simp: payloadEquals_def getOptionalVendorData_def list_all_iff split: option.splits
        dest: mapFind_mem)
  moreover have "list_all (\<lambda>y. mapFind tag (tag y) (optionalExtensionData a) = Some y) (optionalExtensionData b)"
    using e by (fastforce simp: payloadEquals_def getOptionalExtensionData_def list_all_iff split: option.splits
        dest: mapFind_mem)
  ultimately have "optionalVendorData a = optionalVendorData b" "optionalExtensionData a = optionalExtensionData b"
    using e assms by (auto intro!: sorted_lookup_eq simp: payloadEquals_def payload_ok_def)
  then show "a = b" using e by (simp add: payloadEquals_def)
next
  assume "a = b"
  then show "payloadEquals a b"
    using assms
    by (auto simp: payloadEquals_def getOptionalVendorData_def getOptionalExtensionData_def payload_ok_def
        list_all_iff mapFind_sorted)
qed

theorem payloadEquals_is_equality_witness:
  "payloadEquals (stepOp (AddVendor \<lparr>tag = 0x82, infoType = InfoInt32, infoData = [], int32 = 7\<rparr>) emptyPayload)
     (stepOp (AddVendor \<lparr>tag = 0x82, infoType = InfoInt32, infoData = [], int32 = 8\<rparr>) emptyPayload) = False"
proof -
  have "payload_ok emptyPayload" by (simp add: payload_ok_def emptyPayload_def)
  then have ok: "payload_ok (stepOp op emptyPayload)" for op using stepOp_refines by blast
  show ?thesis
    unfolding payloadEquals_is_equality [OF ok ok]
    by (simp add: addOptionalVendorData_def emptyPayload_def IsVendorTag_def IsCommonTag_def)
qed

text \<open>
  The last write wins: after any list of vendor entries was added, a tag gives the last of
  them with that tag if it is a vendor tag, and what it gave before otherwise; the same holds
  for the extension entries with the common tags.
\<close>

theorem optional_data_last_write_wins:
  assumes "payload_ok sp"
  shows "getOptionalVendorData t (fold (\<lambda>i s. snd (addOptionalVendorData i s)) vs sp) =
           (case find (\<lambda>i. IsVendorTag (tag i) \<and> tag i = t) (rev vs) of
              Some i \<Rightarrow> Inr i | None \<Rightarrow> getOptionalVendorData t sp) \<and>
         getOptionalExtensionData t (fold (\<lambda>i s. snd (addOptionalExtensionData i s)) es sp) =
           (case find (\<lambda>i. IsCommonTag (tag i) \<and> tag i = t) (rev es) of
              Some i \<Rightarrow> Inr i | None \<Rightarrow> getOptionalExtensionData t sp)"
  using vendor.get_add_all [OF assms] extension.get_add_all [OF assms] by blast

theorem optional_data_last_write_wins_witness:
  "getOptionalVendorData 0x82 (fold (\<lambda>i s. snd (addOptionalVendorData i s))
     [\<lparr>tag = 0x82, infoType = InfoInt32, infoData = [], int32 = 7\<rparr>,
      \<lparr>tag = 0x82, infoType = InfoInt32, infoData = [], int32 = 9\<rparr>] emptyPayload)
     = Inr \<lparr>tag = 0x82, infoType = InfoInt32, infoData = [], int32 = 9\<rparr>"
proof -
  have "payload_ok emptyPayload" by (simp add: payload_ok_def emptyPayload_def)
  note t = optional_data_last_write_wins [OF this, THEN conjunct1]
  show ?thesis unfolding t by (simp add: IsVendorTag_def IsCommonTag_def)
qed

end
