(* ===== verification/Manual_Code.thy ===== *)
theory Manual_Code
  imports Setup_Payload Verhoeff
begin

text \<open>
  The manual pairing code: the generator of
  \<^verbatim>\<open>src/setup_payload/ManualSetupPayloadGenerator.cpp\<close> and the parser of
  \<^verbatim>\<open>src/setup_payload/ManualSetupPayloadParser.cpp\<close>, over the payload of \<open>Setup_Payload\<close> and the
  check digit of \<open>Verhoeff\<close>.  The buffers of the generator are their sizes and the string
  written; a parser that fails returns the payload with what it had written to it until then.
\<close>

section \<open>Generator\<close>

abbreviation (input) kManualSetupShortCodeCharLength :: nat where "kManualSetupShortCodeCharLength \<equiv> 10"
abbreviation (input) kManualSetupLongCodeCharLength :: nat where "kManualSetupLongCodeCharLength \<equiv> 20"

definition chunk1PayloadRepresentation :: "PayloadContents \<Rightarrow> u32" where
  "chunk1PayloadRepresentation p =
     (let discriminatorChunk = drop_bit 2 (ucast (GetShortValue (discriminator p))) AND (push_bit 2 1 - 1);
          vidPidPresentFlag = (if commissioningFlow p \<noteq> kStandard then 1 else 0)
      in push_bit 0 discriminatorChunk OR push_bit 2 vidPidPresentFlag)"

definition chunk2PayloadRepresentation :: "PayloadContents \<Rightarrow> u32" where
  "chunk2PayloadRepresentation p =
     (let discriminatorChunk = ucast (GetShortValue (discriminator p)) AND (push_bit 2 1 - 1)
      in push_bit 0 (setUpPINCode p AND (push_bit 14 1 - 1)) OR push_bit 14 discriminatorChunk)"

definition chunk3PayloadRepresentation :: "PayloadContents \<Rightarrow> u32" where
  "chunk3PayloadRepresentation p =
     push_bit 0 (drop_bit (27 - 13) (setUpPINCode p) AND (push_bit 13 1 - 1))"

text \<open>\<open>snprintf(buffer, size, "%0*u", size - 1, number)\<close>: the decimal digits of the number, padded
  with zeros to \<open>size - 1\<close> characters; it fails when they and the terminator do not fit.\<close>

definition decimalStringWithPadding :: "nat \<Rightarrow> u32 \<Rightarrow> string result" where
  "decimalStringWithPadding bufferSize number =
     (let len = bufferSize - 1; s = toDecimal (uint number);
          out = replicate (len - length s) (CHR ''0'') @ s
      in if length out \<ge> bufferSize then Inl CHIP_ERROR_BUFFER_TOO_SMALL else Inr out)"

definition checkDigitNumber :: "string \<Rightarrow> u32" where
  "checkDigitNumber s = (case CharToVal (ComputeCheckChar s) of None \<Rightarrow> -1 | Some v \<Rightarrow> of_int v)"

definition payloadDecimalStringRepresentation ::
    "bool \<Rightarrow> bool \<Rightarrow> nat \<Rightarrow> PayloadContents \<Rightarrow> string result" where
  "payloadDecimalStringRepresentation mAllowInvalidPayload mForceShortCode bufSize p =
     verify (mAllowInvalidPayload \<or> isValidManualCode p) CHIP_ERROR_INVALID_ARGUMENT
       (let useLongCode = (commissioningFlow p \<noteq> kStandard \<and> \<not> mForceShortCode) in
        verify (\<not> (useLongCode \<and> bufSize < kManualSetupLongCodeCharLength + 2 \<or>
                    \<not> useLongCode \<and> bufSize < kManualSetupShortCodeCharLength + 2)) CHIP_ERROR_BUFFER_TOO_SMALL
          (rbind (decimalStringWithPadding 2 (chunk1PayloadRepresentation p)) (\<lambda>s1.
           rbind (decimalStringWithPadding 6 (chunk2PayloadRepresentation p)) (\<lambda>s2.
           rbind (decimalStringWithPadding 5 (chunk3PayloadRepresentation p)) (\<lambda>s3.
           rbind (if useLongCode
                  then rbind (decimalStringWithPadding 6 (ucast (vendorID p))) (\<lambda>sv.
                       rbind (decimalStringWithPadding 6 (ucast (productID p))) (\<lambda>sp. Inr (sv @ sp)))
                  else Inr []) (\<lambda>s4.
           let body = s1 @ s2 @ s3 @ s4 in
           rbind (decimalStringWithPadding 2 (checkDigitNumber body)) (\<lambda>c. Inr (body @ c))))))))"

section \<open>Parser\<close>

definition c_str :: "string \<Rightarrow> string" where
  "c_str s = takeWhile (\<lambda>c. c \<noteq> char_of (0 :: int)) s"

definition CheckDecimalStringValidity :: "string \<Rightarrow> string result" where
  "CheckDecimalStringValidity decimalString =
     verify (\<not> length decimalString < 2) CHIP_ERROR_INVALID_STRING_LENGTH
       (let repWithoutCheckChar = butlast decimalString; checkChar = last decimalString in
        verify (ValidateCheckChar checkChar (c_str repWithoutCheckChar)) CHIP_ERROR_INTEGRITY_CHECK_FAILED
          (Inr repWithoutCheckChar))"

definition CheckCodeLengthValidity :: "string \<Rightarrow> bool \<Rightarrow> unit result" where
  "CheckCodeLengthValidity decimalString isLongCode =
     verify (length decimalString =
               (if isLongCode then kManualSetupLongCodeCharLength else kManualSetupShortCodeCharLength))
       CHIP_ERROR_INVALID_STRING_LENGTH (Inr ())"

fun ToNumberLoop :: "u32 \<Rightarrow> string \<Rightarrow> u32 result" where
  "ToNumberLoop number [] = Inr number"
| "ToNumberLoop number (c # cs) =
     verify (48 \<le> (of_char c :: int) \<and> (of_char c :: int) \<le> 57) CHIP_ERROR_INVALID_INTEGER_VALUE
       (ToNumberLoop (number * 10 + of_int (of_char c - 48)) cs)"

definition ToNumber :: "string \<Rightarrow> u32 result" where
  "ToNumber decimalString = ToNumberLoop 0 decimalString"

definition ReadDigitsFromDecimalString :: "string \<Rightarrow> nat \<Rightarrow> nat \<Rightarrow> (u32 \<times> nat) result" where
  "ReadDigitsFromDecimalString decimalString index numberOfCharsToRead =
     verify (\<not> (length decimalString < numberOfCharsToRead \<or> numberOfCharsToRead + index > length decimalString))
       CHIP_ERROR_INVALID_STRING_LENGTH
       (rbind (ToNumber (take numberOfCharsToRead (drop index decimalString))) (\<lambda>n.
          Inr (n, index + numberOfCharsToRead)))"

text \<open>The part of \<open>populatePayload\<close> before the first write to the payload: the digits without the
  check digit, the offset after the fixed chunks, the kind of code, discriminator and PIN.\<close>

definition parseChunks :: "string \<Rightarrow> (string \<times> nat \<times> bool \<times> u32 \<times> u32) result" where
  "parseChunks mDecimalStringRepresentation =
     rbind (CheckDecimalStringValidity mDecimalStringRepresentation) (\<lambda>rep.
     rbind (ReadDigitsFromDecimalString rep 0 1) (\<lambda>(chunk1, o1).
     rbind (ReadDigitsFromDecimalString rep o1 5) (\<lambda>(chunk2, o2).
     rbind (ReadDigitsFromDecimalString rep o2 4) (\<lambda>(chunk3, o3).
     verify (\<not> (chunk1 = 8 \<or> chunk1 = 9)) CHIP_ERROR_INVALID_ARGUMENT
       (let isLongCode = (drop_bit 2 chunk1 AND 1 = 1) in
        rbind (CheckCodeLengthValidity rep isLongCode) (\<lambda>_.
        let discr = (drop_bit 14 chunk2 AND (push_bit 2 1 - 1)) OR
                    push_bit 2 (drop_bit 0 chunk1 AND (push_bit 2 1 - 1));
            pin = (drop_bit 0 chunk2 AND (push_bit 14 1 - 1)) OR
                  push_bit 14 (drop_bit 0 chunk3 AND (push_bit 13 1 - 1)) in
        verify (pin \<noteq> 0) CHIP_ERROR_INVALID_ARGUMENT (Inr (rep, o3, isLongCode, discr, pin))))))))"

definition writeCommon :: "bool \<Rightarrow> u32 \<Rightarrow> u32 \<Rightarrow> PayloadContents \<Rightarrow> unit result \<times> PayloadContents" where
  "writeCommon isLongCode discr pin out =
     (let out1 = out\<lparr>commissioningFlow := (if isLongCode then kCustom else kStandard), setUpPINCode := pin\<rparr>
      in case SetShortValue (ucast discr) of
           Inl e \<Rightarrow> (Inl e, out1)
         | Inr d \<Rightarrow> (Inr (), out1\<lparr>discriminator := d\<rparr>))"

definition Manual_populatePayload :: "string \<Rightarrow> PayloadContents \<Rightarrow> unit result \<times> PayloadContents" where
  "Manual_populatePayload code out =
     (case parseChunks code of
        Inl e \<Rightarrow> (Inl e, out)
      | Inr (rep, off, isLongCode, discr, pin) \<Rightarrow>
          if \<not> isLongCode then writeCommon False discr pin out
          else case rbind (ReadDigitsFromDecimalString rep off 5) (\<lambda>(vendor, o1).
                    rbind (ReadDigitsFromDecimalString rep o1 5) (\<lambda>(product, _). Inr (vendor, product))) of
                 Inl e \<Rightarrow> (Inl e, out)
               | Inr (vendor, product) \<Rightarrow>
                   if \<not> vendor \<le> 0xFFFF then (Inl CHIP_ERROR_INVALID_INTEGER_VALUE, out)
                   else let out1 = out\<lparr>vendorID := ucast vendor\<rparr> in
                     if \<not> product \<le> 0xFFFF then (Inl CHIP_ERROR_INVALID_INTEGER_VALUE, out1)
                     else writeCommon True discr pin (out1\<lparr>productID := ucast product\<rparr>))"

section \<open>Decimal digits\<close>

fun padDigits :: "nat \<Rightarrow> int \<Rightarrow> string" where
  "padDigits 0 n = []"
| "padDigits (Suc k) n = padDigits k (n div 10) @ [char_of (48 + n mod 10)]"

declare toDecimal.simps [simp del]

lemma length_padDigits [simp]: "length (padDigits k n) = k"
  by (induction k arbitrary: n) auto

lemma padDigits_0: "padDigits k 0 = replicate k (CHR ''0'')"
  by (induction k) (auto simp: replicate_append_same [symmetric] char_of_def)

lemma padDigits_isDigit: "list_all isDigit (padDigits k n)"
  by (induction k arbitrary: n) (auto simp: isDigit_def CharToVal_def Let_def)

lemma toDecimal_padDigits:
  "0 \<le> n \<Longrightarrow> n < 10 ^ k \<Longrightarrow> 0 < k \<Longrightarrow>
     length (toDecimal n) \<le> k \<and> replicate (k - length (toDecimal n)) (CHR ''0'') @ toDecimal n = padDigits k n"
proof (induction k arbitrary: n)
  case (Suc k)
  show ?case
  proof (cases "n < 10")
    case True
    then have "n div 10 = 0" "n mod 10 = n" using Suc.prems by auto
    then show ?thesis using True by (simp add: toDecimal.simps [of n] padDigits_0)
  next
    case False
    then have "0 < k" using Suc.prems by (cases k) auto
    moreover have "n div 10 < 10 ^ k" using Suc.prems by auto
    ultimately show ?thesis
      using Suc.IH [of "n div 10"] Suc.prems False by (simp add: toDecimal.simps [of n])
  qed
qed simp

lemma decimalStringWithPadding_ok:
  assumes "uint n < 10 ^ k" "0 < k"
  shows "decimalStringWithPadding (Suc k) n = Inr (padDigits k (uint n))"
  using toDecimal_padDigits [of "uint n" k] assms
  by (simp add: decimalStringWithPadding_def Let_def)

lemma ToNumberLoop_append:
  "ToNumberLoop a (s @ t) = rbind (ToNumberLoop a s) (\<lambda>b. ToNumberLoop b t)"
  by (induction s arbitrary: a) (auto simp: verify_def)

lemma ToNumberLoop_padDigits:
  "0 \<le> n \<Longrightarrow> n < 10 ^ k \<Longrightarrow> ToNumberLoop a (padDigits k n) = Inr (a * 10 ^ k + of_int n)"
proof (induction k arbitrary: n)
  case (Suc k)
  have "n div 10 < 10 ^ k" using Suc.prems by auto
  then have "ToNumberLoop a (padDigits k (n div 10)) = Inr (a * 10 ^ k + of_int (n div 10))"
    using Suc.IH [of "n div 10"] Suc.prems by simp
  moreover have "of_int n = (of_int (n div 10) * 10 + of_int (n mod 10) :: u32)"
    by (metis div_mult_mod_eq of_int_add of_int_mult of_int_numeral)
  ultimately show ?case by (simp add: ToNumberLoop_append algebra_simps)
next
  case 0
  then have "n = 0" by simp
  then show ?case by simp
qed

lemma ToNumber_padDigits: "uint n < 10 ^ k \<Longrightarrow> ToNumber (padDigits k (uint n)) = Inr n"
  using ToNumberLoop_padDigits [of "uint n" k 0] by (simp add: ToNumber_def)

lemma ReadDigits_at:
  assumes "length pre = i" "uint n < 10 ^ k"
  shows "ReadDigitsFromDecimalString (pre @ padDigits k (uint n) @ post) i k = Inr (n, i + k)"
  using assms ToNumber_padDigits [of n k] by (simp add: ReadDigitsFromDecimalString_def verify_def)

section \<open>Chunks\<close>

text \<open>The bit fields of the chunks as truncations, their ranges, and what the parser takes out of
  them again.\<close>

lemma masks:
  "push_bit 2 1 - 1 = (mask 2 :: u32)" "push_bit 14 1 - 1 = (mask 14 :: u32)"
  "push_bit 13 1 - 1 = (mask 13 :: u32)"
  by (simp_all add: mask_eq_exp_minus_1)

lemma chunk_bits:
  "chunk1PayloadRepresentation p =
     take_bit 2 (drop_bit 2 (ucast (GetShortValue (discriminator p)))) OR
     push_bit 2 (if commissioningFlow p \<noteq> kStandard then 1 else 0)"
  "chunk2PayloadRepresentation p =
     take_bit 14 (setUpPINCode p) OR push_bit 14 (take_bit 2 (ucast (GetShortValue (discriminator p))))"
  "chunk3PayloadRepresentation p = take_bit 13 (drop_bit 14 (setUpPINCode p))"
  unfolding chunk1PayloadRepresentation_def chunk2PayloadRepresentation_def chunk3PayloadRepresentation_def
    masks Let_def take_bit_eq_mask
  by simp_all

lemma bit_1_u32: "bit (1 :: u32) n \<longleftrightarrow> n = 0"
  by (simp add: bit_1_iff)

lemma chunk_take_bit:
  "take_bit 3 (chunk1PayloadRepresentation p) = chunk1PayloadRepresentation p"
  "take_bit 16 (chunk2PayloadRepresentation p) = chunk2PayloadRepresentation p"
  "take_bit 13 (chunk3PayloadRepresentation p) = chunk3PayloadRepresentation p"
  unfolding chunk_bits
  by (rule bit_word_eqI; auto simp: bit_simps bit_1_u32)+

lemma take_bit_bound: "take_bit n w = w \<Longrightarrow> uint (w :: u32) < 2 ^ n"
  by (metis take_bit_int_less_exp unsigned_take_bit_eq)

lemma chunk_bounds:
  "uint (chunk1PayloadRepresentation p) < 8"
  "uint (chunk2PayloadRepresentation p) < 65536"
  "uint (chunk3PayloadRepresentation p) < 8192"
  using take_bit_bound [OF chunk_take_bit(1) [of p]] take_bit_bound [OF chunk_take_bit(2) [of p]]
    take_bit_bound [OF chunk_take_bit(3) [of p]] by simp_all

lemma ucast16_bound: "uint (ucast (w :: u16) :: u32) < 65536"
  using uint_lt2p [of w] by (simp add: unsigned_ucast_eq take_bit_eq_mod)

lemma join_bits: "take_bit a x OR push_bit a (take_bit b (drop_bit a x)) = take_bit (a + b) (x :: u32)"
proof (rule bit_word_eqI)
  fix n assume n: "n < LENGTH(32)"
  show "bit (take_bit a x OR push_bit a (take_bit b (drop_bit a x))) n = bit (take_bit (a + b) x) n"
    using n by (cases "n < a") (auto simp: bit_simps)
qed

lemma take_bit_small: "uint (w :: 'a::len word) < 2 ^ n \<Longrightarrow> take_bit n w = w"
  by (simp add: word_uint_eq_iff unsigned_take_bit_eq take_bit_int_eq_self)

lemma GetShortValue_bound:
  assumes "discriminator_ok d"
  shows "uint (GetShortValue d) < 16"
proof -
  have "x div 256 mod 256 < 16" if "0 \<le> x" "x < 4096" for x :: int
    using that mod_pos_pos_trivial [of "x div 256" 256] by simp
  note this [of "uint (mDiscriminator d)", OF uint_nonnegative]
  then show ?thesis
    using assms by (auto simp: discriminator_ok_def GetShortValue_def LongToShortValue_def word_less_def
        unsigned_ucast_eq unsigned_drop_bit_eq take_bit_eq_mod drop_bit_eq_div uint_div split: if_splits)
qed

lemma GetShortValue_range:
  assumes "discriminator_ok d"
  shows "take_bit 4 (ucast (GetShortValue d) :: u32) = ucast (GetShortValue d)"
    "take_bit 4 (GetShortValue d) = GetShortValue d"
  using GetShortValue_bound [OF assms]
    take_bit_small [of "ucast (GetShortValue d) :: u32" 4] take_bit_small [of "GetShortValue d" 4]
  by (auto simp: unsigned_ucast_eq take_bit_int_eq_self)

lemma ucast_u32 [simp]: "ucast (ucast (b :: u8) :: u32) = b" "ucast (ucast (h :: u16) :: u32) = h"
  by (rule bit_word_eqI; simp add: bit_simps)+

lemma chunk_fields:
  "drop_bit 2 (chunk1PayloadRepresentation p) AND 1 = (if commissioningFlow p \<noteq> kStandard then 1 else 0)"
  "take_bit 2 (chunk1PayloadRepresentation p) = take_bit 2 (drop_bit 2 (ucast (GetShortValue (discriminator p))))"
  "take_bit 2 (drop_bit 14 (chunk2PayloadRepresentation p)) = take_bit 2 (ucast (GetShortValue (discriminator p)))"
  "take_bit 14 (chunk2PayloadRepresentation p) = take_bit 14 (setUpPINCode p)"
  "take_bit 13 (chunk3PayloadRepresentation p) = take_bit 13 (drop_bit 14 (setUpPINCode p))"
  unfolding chunk_bits by (rule bit_word_eqI; auto simp: bit_simps bit_1_u32)+

lemma chunks_decode:
  assumes "discriminator_ok (discriminator p)" "setUpPINCode p < 134217728"
  shows "take_bit 2 (drop_bit 14 (chunk2PayloadRepresentation p)) OR
           push_bit 2 (take_bit 2 (chunk1PayloadRepresentation p)) = ucast (GetShortValue (discriminator p))"
    "take_bit 14 (chunk2PayloadRepresentation p) OR
       push_bit 14 (take_bit 13 (chunk3PayloadRepresentation p)) = setUpPINCode p"
  using assms GetShortValue_range [of "discriminator p"] take_bit_small [of "setUpPINCode p" 27]
  by (simp_all add: chunk_fields join_bits word_less_def)

section \<open>The generated code\<close>

definition manualDigits :: "bool \<Rightarrow> PayloadContents \<Rightarrow> string" where
  "manualDigits long p =
     padDigits 1 (uint (chunk1PayloadRepresentation p)) @ padDigits 5 (uint (chunk2PayloadRepresentation p)) @
     padDigits 4 (uint (chunk3PayloadRepresentation p)) @
     (if long then padDigits 5 (uint (ucast (vendorID p) :: u32)) @ padDigits 5 (uint (ucast (productID p) :: u32))
      else [])"

lemma manualDigits_isDigit: "list_all isDigit (manualDigits long p)"
  by (simp add: manualDigits_def padDigits_isDigit del: padDigits.simps)

lemma ComputeCheckChar_isDigit: "list_all isDigit s \<Longrightarrow> isDigit (ComputeCheckChar s)"
  using checkLoop_digits [of 0 "rev s" 1] mul_inverse(2) ValToChar_digit
  by (auto simp: ComputeCheckChar_def)

lemma single_digit:
  assumes "digit v"
  shows "decimalStringWithPadding 2 (of_int v) = Inr [ValToChar v]"
proof -
  have "uint (of_int v :: u32) = v" using assms by (simp add: unsigned_of_int take_bit_eq_mod)
  then show ?thesis
    using decimalStringWithPadding_ok [of "of_int v :: u32" 1] assms
    by (simp add: ValToChar_def numeral_2_eq_2)
qed

lemma check_digit_written:
  assumes "list_all isDigit s"
  shows "decimalStringWithPadding 2 (checkDigitNumber s) = Inr [ComputeCheckChar s]"
proof -
  note d = ComputeCheckChar_isDigit [OF assms]
  note v = valOf_digit [OF d]
  have "ValToChar (valOf (ComputeCheckChar s)) = ComputeCheckChar s"
    using ValToChar_digit [of "valOf (ComputeCheckChar s)"] valOf_inj d v by blast
  then show ?thesis using single_digit v by (simp add: checkDigitNumber_def)
qed

lemma generated_code:
  assumes "allow \<or> isValidManualCode p" "(if long then 22 else 12) \<le> bufSize"
    and "long = (commissioningFlow p \<noteq> kStandard \<and> \<not> force)"
  shows "payloadDecimalStringRepresentation allow force bufSize p =
           Inr (manualDigits long p @ [ComputeCheckChar (manualDigits long p)])"
proof -
  have w: "decimalStringWithPadding 2 (chunk1PayloadRepresentation p) = Inr (padDigits 1 (uint (chunk1PayloadRepresentation p)))"
    "decimalStringWithPadding 6 (chunk2PayloadRepresentation p) = Inr (padDigits 5 (uint (chunk2PayloadRepresentation p)))"
    "decimalStringWithPadding 5 (chunk3PayloadRepresentation p) = Inr (padDigits 4 (uint (chunk3PayloadRepresentation p)))"
    "decimalStringWithPadding 6 (ucast (vendorID p)) = Inr (padDigits 5 (uint (ucast (vendorID p) :: u32)))"
    "decimalStringWithPadding 6 (ucast (productID p)) = Inr (padDigits 5 (uint (ucast (productID p) :: u32)))"
    using decimalStringWithPadding_ok [of "chunk1PayloadRepresentation p" 1]
      decimalStringWithPadding_ok [of "chunk2PayloadRepresentation p" 5]
      decimalStringWithPadding_ok [of "chunk3PayloadRepresentation p" 4]
      decimalStringWithPadding_ok [of "ucast (vendorID p)" 5] decimalStringWithPadding_ok [of "ucast (productID p)" 5]
      chunk_bounds [of p] ucast16_bound [of "vendorID p"] ucast16_bound [of "productID p"]
    by (simp_all add: numeral_2_eq_2 [symmetric] del: padDigits.simps)
  show ?thesis
    using assms check_digit_written [OF manualDigits_isDigit [of long p]]
    by (auto simp: payloadDecimalStringRepresentation_def w manualDigits_def Let_def simp del: padDigits.simps)
qed

section \<open>Parsing a generated code\<close>

lemma c_str_digits: "list_all isDigit s \<Longrightarrow> c_str s = s"
  by (auto simp: c_str_def list_all_iff isDigit_def CharToVal_def takeWhile_eq_all_conv)

lemma CheckDecimalStringValidity_digits:
  assumes "list_all isDigit s" "s \<noteq> []"
  shows "CheckDecimalStringValidity (s @ [ComputeCheckChar s]) = Inr s"
  using assms by (cases s) (auto simp: CheckDecimalStringValidity_def c_str_digits ValidateCheckChar_def Let_def)

text \<open>Reading the chunks of the digits in turn.\<close>

lemma read_chunks:
  fixes long and p
  defines "s \<equiv> manualDigits long p"
  shows "ReadDigitsFromDecimalString s 0 1 = Inr (chunk1PayloadRepresentation p, 1)"
    "ReadDigitsFromDecimalString s 1 5 = Inr (chunk2PayloadRepresentation p, 6)"
    "ReadDigitsFromDecimalString s 6 4 = Inr (chunk3PayloadRepresentation p, 10)"
    "long \<Longrightarrow> ReadDigitsFromDecimalString s 10 5 = Inr (ucast (vendorID p), 15)"
    "long \<Longrightarrow> ReadDigitsFromDecimalString s 15 5 = Inr (ucast (productID p), 20)"
proof -
  let ?a = "padDigits 1 (uint (chunk1PayloadRepresentation p))"
  let ?b = "padDigits 5 (uint (chunk2PayloadRepresentation p))"
  let ?c = "padDigits 4 (uint (chunk3PayloadRepresentation p))"
  let ?v = "padDigits 5 (uint (ucast (vendorID p) :: u32))"
  let ?w = "padDigits 5 (uint (ucast (productID p) :: u32))"
  note bounds = chunk_bounds [of p] ucast16_bound [of "vendorID p"] ucast16_bound [of "productID p"]
  show "ReadDigitsFromDecimalString s 0 1 = Inr (chunk1PayloadRepresentation p, 1)"
    using bounds(1) ReadDigits_at [of "[]" 0 "chunk1PayloadRepresentation p" 1]
    by (simp add: s_def manualDigits_def del: padDigits.simps)
  show "ReadDigitsFromDecimalString s 1 5 = Inr (chunk2PayloadRepresentation p, 6)"
    using bounds(2) ReadDigits_at [of ?a 1 "chunk2PayloadRepresentation p" 5]
    by (simp add: s_def manualDigits_def del: padDigits.simps)
  show "ReadDigitsFromDecimalString s 6 4 = Inr (chunk3PayloadRepresentation p, 10)"
    using bounds(3) ReadDigits_at [of "?a @ ?b" 6 "chunk3PayloadRepresentation p" 4]
    by (simp add: s_def manualDigits_def del: padDigits.simps)
  show "long \<Longrightarrow> ReadDigitsFromDecimalString s 10 5 = Inr (ucast (vendorID p), 15)"
    using bounds(4) ReadDigits_at [of "?a @ ?b @ ?c" 10 "ucast (vendorID p)" 5 ?w]
    by (simp add: s_def manualDigits_def del: padDigits.simps)
  show "long \<Longrightarrow> ReadDigitsFromDecimalString s 15 5 = Inr (ucast (productID p), 20)"
    using bounds(5) ReadDigits_at [of "?a @ ?b @ ?c @ ?v" 15 "ucast (productID p)" 5 "[]"]
    by (simp add: s_def manualDigits_def del: padDigits.simps)
qed

definition expectedManual :: "PayloadContents \<Rightarrow> PayloadContents \<Rightarrow> PayloadContents" where
  "expectedManual p out =
     (let long = (commissioningFlow p \<noteq> kStandard) in
      out\<lparr>vendorID := (if long then vendorID p else vendorID out),
          productID := (if long then productID p else productID out),
          commissioningFlow := (if long then kCustom else kStandard),
          setUpPINCode := setUpPINCode p,
          discriminator := \<lparr>mDiscriminator = ucast (GetShortValue (discriminator p)), mIsShortDiscriminator = True\<rparr>\<rparr>)"

lemma parseChunks_generated:
  fixes p
  defines "long \<equiv> commissioningFlow p \<noteq> kStandard"
  defines "s \<equiv> manualDigits long p"
  assumes p: "discriminator_ok (discriminator p)" "setUpPINCode p < 134217728" "setUpPINCode p \<noteq> 0"
  shows "parseChunks (s @ [ComputeCheckChar s]) =
           Inr (s, 10, long, ucast (GetShortValue (discriminator p)), setUpPINCode p)"
proof -
  have s: "list_all isDigit s" "s \<noteq> []" "length s = (if long then 20 else 10)"
    using manualDigits_isDigit by (auto simp: s_def manualDigits_def)
  have c1: "chunk1PayloadRepresentation p \<noteq> 8" "chunk1PayloadRepresentation p \<noteq> 9"
    using chunk_bounds(1) [of p] by auto
  have flag: "(drop_bit 2 (chunk1PayloadRepresentation p) AND 1 = 1) = long"
    using chunk_fields(1) [of p] by (auto simp: long_def)
  note r = read_chunks(1-3) [of long p, folded s_def]
  note dec = chunks_decode [OF p(1,2)]
  have len: "CheckCodeLengthValidity s long = Inr ()" using s by (simp add: CheckCodeLengthValidity_def)
  show ?thesis
    unfolding parseChunks_def masks CheckDecimalStringValidity_digits [OF s(1,2)] Let_def
    using r c1 p(3) by (simp add: flag len dec flip: take_bit_eq_mask)
qed

lemma parse_generated:
  fixes p
  defines "s \<equiv> manualDigits (commissioningFlow p \<noteq> kStandard) p"
  assumes p: "discriminator_ok (discriminator p)" "setUpPINCode p < 134217728" "setUpPINCode p \<noteq> 0"
  shows "Manual_populatePayload (s @ [ComputeCheckChar s]) out = (Inr (), expectedManual p out)"
proof -
  note pc = parseChunks_generated [OF p, folded s_def]
  note r = read_chunks(4,5) [of "commissioningFlow p \<noteq> kStandard" p, folded s_def]
  have set: "SetShortValue (GetShortValue (discriminator p)) =
      Inr \<lparr>mDiscriminator = ucast (GetShortValue (discriminator p)), mIsShortDiscriminator = True\<rparr>"
    using GetShortValue_range(2) [OF p(1)]
    by (simp add: SetShortValue_def take_bit_eq_mask mask_eq_exp_minus_1)
  have fits: "\<And>w :: u16. (ucast w :: u32) \<le> 0xFFFF"
    subgoal for w using ucast16_bound [of w] by (simp add: word_le_def)
    done
  show ?thesis
    using r by (auto simp: Manual_populatePayload_def pc writeCommon_def set fits expectedManual_def Let_def)
qed

text \<open>What the generator succeeded on.\<close>

lemma generated_code_form:
  assumes "payloadDecimalStringRepresentation allow force bufSize p = Inr code"
  obtains s where "list_all isDigit s" "s \<noteq> []" "code = s @ [ComputeCheckChar s]"
    "s = manualDigits (commissioningFlow p \<noteq> kStandard \<and> \<not> force) p"
proof -
  let ?long = "commissioningFlow p \<noteq> kStandard \<and> \<not> force"
  have "allow \<or> isValidManualCode p" "(if ?long then 22 else 12) \<le> bufSize"
    using assms by (auto simp: payloadDecimalStringRepresentation_def Let_def)
  then have "code = manualDigits ?long p @ [ComputeCheckChar (manualDigits ?long p)]"
    using generated_code [of allow p ?long bufSize force] assms by simp
  moreover have "manualDigits ?long p \<noteq> []" by (simp add: manualDigits_def)
  ultimately show thesis using that manualDigits_isDigit by blast
qed

lemma ToNumberLoop_digits: "ToNumberLoop a s = Inr n \<Longrightarrow> list_all isDigit s"
  by (induction s arbitrary: a) (auto simp: isDigit_def CharToVal_def Let_def)

lemma ReadDigits_isDigit:
  assumes "ReadDigitsFromDecimalString s i k = Inr (n, j)"
  shows "list_all isDigit (take k (drop i s)) \<and> j = i + k \<and> j \<le> length s"
  using assms by (auto simp: ReadDigitsFromDecimalString_def ToNumber_def rbind_eq_Inr dest: ToNumberLoop_digits)

lemma CheckDecimalStringValidity_Inr:
  "CheckDecimalStringValidity code = Inr rep \<Longrightarrow>
     2 \<le> length code \<and> rep = butlast code \<and> ValidateCheckChar (last code) (c_str rep)"
  by (auto simp: CheckDecimalStringValidity_def Let_def)

lemma parseChunks_Inr:
  assumes "parseChunks code = Inr (rep, off, long, discr, pin)"
  shows "rep = butlast code \<and> 2 \<le> length code \<and> ValidateCheckChar (last code) (c_str rep) \<and> off = 10 \<and>
         list_all isDigit (take 10 rep) \<and> length rep = (if long then 20 else 10) \<and> pin \<noteq> 0 \<and>
         uint pin < 2 ^ 27 \<and> uint discr < 2 ^ 4"
proof -
  let ?D = "\<lambda>c1 c2 :: u32. take_bit 2 (drop_bit 14 c2) OR push_bit 2 (take_bit 2 c1)"
  let ?P = "\<lambda>c2 c3 :: u32. take_bit 14 c2 OR push_bit 14 (take_bit 13 c3)"
  obtain c1 o1 c2 o2 c3 where
    rep: "CheckDecimalStringValidity code = Inr rep" and
    r: "ReadDigitsFromDecimalString rep 0 1 = Inr (c1, o1)" "ReadDigitsFromDecimalString rep o1 5 = Inr (c2, o2)"
      "ReadDigitsFromDecimalString rep o2 4 = Inr (c3, off)" and
    len: "CheckCodeLengthValidity rep long = Inr ()" and
    out: "discr = ?D c1 c2" "pin = ?P c2 c3" "pin \<noteq> 0"
    using assms unfolding parseChunks_def masks Let_def take_bit_eq_mask
    by (auto simp: rbind_eq_Inr)
  note d = r [THEN ReadDigits_isDigit]
  have "take 10 rep = take 1 rep @ take 5 (drop 1 rep) @ take 4 (drop 6 rep)"
    using take_add [of 1 5 rep] take_add [of 6 4 rep] by simp
  then have dig: "list_all isDigit (take 10 rep)" "off = 10" using d by (simp_all del: take_eq_Nil)
  have "take_bit 4 (?D c1 c2) = ?D c1 c2" "take_bit 27 (?P c2 c3) = ?P c2 c3"
    by (rule bit_word_eqI; auto simp: bit_simps)+
  then have "uint discr < 2 ^ 4" "uint pin < 2 ^ 27"
    unfolding out by (blast intro: take_bit_bound)+
  then show ?thesis
    using CheckDecimalStringValidity_Inr [OF rep] dig len out(3) by (auto simp: CheckCodeLengthValidity_def)
qed

lemma CheckDecimalStringValidity_changed:
  assumes "list_all isDigit s" "\<not> ValidateCheckString s" "2 \<le> length s"
  shows "CheckDecimalStringValidity s = Inl CHIP_ERROR_INTEGRITY_CHECK_FAILED"
proof -
  have "list_all isDigit (butlast s)" using assms(1) in_set_butlastD by (fastforce simp: list_all_iff)
  then show ?thesis
    using assms(2,3) by (auto simp: CheckDecimalStringValidity_def Let_def c_str_digits ValidateCheckString_def)
qed

lemma generated_code_valid:
  assumes "payloadDecimalStringRepresentation allow force bufSize p = Inr code"
  shows "ValidateCheckString code \<and> list_all isDigit code \<and> 2 \<le> length code"
proof -
  obtain s where s: "list_all isDigit s" "s \<noteq> []" "code = s @ [ComputeCheckChar s]"
    using generated_code_form [OF assms] by blast
  then show ?thesis
    using ComputeCheckChar_isDigit [OF s(1)]
    by (cases s) (auto simp: ValidateCheckString_def ValidateCheckChar_def)
qed

lemma writeCommon_Inr:
  assumes "writeCommon long discr pin out = (Inr (), q)" "pin \<noteq> 0" "uint pin < 2 ^ 27"
  shows "setUpPINCode q \<noteq> 0 \<and> setUpPINCode q < 2 ^ 27 \<and>
         mIsShortDiscriminator (discriminator q) \<and> discriminator_ok (discriminator q)"
proof -
  let ?d = "ucast discr :: u8"
  have d: "?d = ?d AND 0x0F" "q = out\<lparr>commissioningFlow := (if long then kCustom else kStandard), setUpPINCode := pin,
       discriminator := \<lparr>mDiscriminator = ucast (?d AND 0x0F), mIsShortDiscriminator = True\<rparr>\<rparr>"
    using assms(1) by (auto simp: writeCommon_def SetShortValue_def verify_def split: if_splits)
  have "?d AND 0x0F = take_bit 4 ?d" by (simp add: take_bit_eq_mask mask_eq_exp_minus_1)
  then have "uint (?d AND 0x0F) < 16"
    using take_bit_int_less_exp [of 4 "uint ?d"] by (simp add: unsigned_take_bit_eq)
  then have "uint (ucast (?d AND 0x0F) :: u16) < 16"
    by (simp add: unsigned_ucast_eq take_bit_int_eq_self)
  then show ?thesis using d(2) assms(2,3) by (simp add: discriminator_ok_def word_less_def)
qed

lemma populate_Inr:
  assumes "Manual_populatePayload code out = (Inr (), q)"
  obtains rep long discr pin out' where
    "parseChunks code = Inr (rep, 10, long, discr, pin)" "writeCommon long discr pin out' = (Inr (), q)"
    "list_all isDigit rep"
proof -
  obtain rep off long discr pin where pc: "parseChunks code = Inr (rep, off, long, discr, pin)"
    using assms by (auto simp: Manual_populatePayload_def split: sum.splits)
  note f = parseChunks_Inr [OF pc]
  show thesis
  proof (cases long)
    case False
    then have "list_all isDigit rep" using f by (metis order_refl take_all)
    then show thesis using that [of rep False discr pin out] pc f assms False
      by (simp add: Manual_populatePayload_def)
  next
    case True
    then obtain v o1 w o2 where r: "ReadDigitsFromDecimalString rep 10 5 = Inr (v, o1)"
        "ReadDigitsFromDecimalString rep o1 5 = Inr (w, o2)"
      and wc: "writeCommon True discr pin (out\<lparr>vendorID := ucast v, productID := ucast w\<rparr>) = (Inr (), q)"
      using assms pc f by (auto simp: Manual_populatePayload_def rbind_def Let_def split: sum.splits if_splits)
    have "length rep = 20" using f True by auto
    then have eq: "rep = take 10 rep @ take 5 (drop 10 rep) @ take 5 (drop 15 rep)"
      using take_add [of 10 5 rep] take_add [of 15 5 rep] by simp
    have "list_all isDigit (take 5 (drop 10 rep))" "list_all isDigit (take 5 (drop 15 rep))"
      using r [THEN ReadDigits_isDigit] by simp_all
    then have "list_all isDigit rep" using f by (subst eq) auto
    then show thesis using that [of rep True discr pin] pc f wc True by simp
  qed
qed

section \<open>Properties\<close>

definition samplePayload :: PayloadContents where
  "samplePayload =
     \<lparr>version = 0, vendorID = 0xFFF1, productID = 0x8001, commissioningFlow = kCustom,
      rendezvousInformation = Some 2,
      discriminator = \<lparr>mDiscriminator = 0xF00, mIsShortDiscriminator = False\<rparr>, setUpPINCode = 20202021\<rparr>"

text \<open>
  C31. Round trip of the manual code: for every valid payload the generator succeeds on a buffer
  of 22 characters or more, the code has 11 digits for the standard commissioning flow and 21
  digits otherwise, and the parser accepts it and sets the PIN, the short discriminator and, for
  a long code, vendor and product of the payload; other than the standard flow, the flow comes
  back as the custom one.
\<close>

theorem manual_code_roundtrip:
  assumes "isValidManualCode p" "discriminator_ok (discriminator p)" "22 \<le> bufSize"
  shows "\<exists>code. payloadDecimalStringRepresentation False False bufSize p = Inr code \<and>
           length code = (if commissioningFlow p = kStandard then 11 else 21) \<and>
           Manual_populatePayload code out = (Inr (), expectedManual p out)"
proof -
  let ?s = "manualDigits (commissioningFlow p \<noteq> kStandard) p"
  have "payloadDecimalStringRepresentation False False bufSize p = Inr (?s @ [ComputeCheckChar ?s])"
    using generated_code [of False p "commissioningFlow p \<noteq> kStandard" bufSize False] assms by auto
  moreover have "setUpPINCode p < 134217728" "setUpPINCode p \<noteq> 0"
    using assms(1) by (auto simp: isValidManualCode_def CheckPayloadCommonConstraints_def IsValidSetupPIN_def)
  then have "Manual_populatePayload (?s @ [ComputeCheckChar ?s]) out = (Inr (), expectedManual p out)"
    using parse_generated [OF assms(2)] by blast
  moreover have "length ?s = (if commissioningFlow p = kStandard then 10 else 20)"
    by (simp add: manualDigits_def)
  ultimately show ?thesis by auto
qed

theorem manual_code_roundtrip_witness:
  "payloadDecimalStringRepresentation False False 22 samplePayload = Inr ''749701123365521327694'' \<and>
   Manual_populatePayload ''749701123365521327694'' newPayloadContents
     = (Inr (), expectedManual samplePayload newPayloadContents)"
proof -
  have code: "payloadDecimalStringRepresentation False False 22 samplePayload = Inr ''749701123365521327694''"
    by code_simp
  have "isValidManualCode samplePayload" "discriminator_ok (discriminator samplePayload)" by code_simp+
  then show ?thesis using manual_code_roundtrip [of samplePayload 22 newPayloadContents] code by auto
qed

text \<open>
  C32. A mistyped code is rejected: when one digit of a generated code was replaced by another
  one, the parser fails with the integrity error and leaves the payload as it was.
\<close>

theorem mistyped_manual_code_rejected:
  assumes "payloadDecimalStringRepresentation allow force bufSize p = Inr code"
    and "i < length code" "isDigit d" "code ! i \<noteq> d"
  shows "Manual_populatePayload (code[i := d]) out = (Inl CHIP_ERROR_INTEGRITY_CHECK_FAILED, out)"
proof -
  note v = generated_code_valid [OF assms(1)]
  have "\<not> ValidateCheckString (code[i := d])" using v assms single_error by blast
  moreover have "list_all isDigit (code[i := d])"
    using v assms(3) set_update_subset_insert [of code i d] by (auto simp: list_all_iff)
  ultimately have "CheckDecimalStringValidity (code[i := d]) = Inl CHIP_ERROR_INTEGRITY_CHECK_FAILED"
    using CheckDecimalStringValidity_changed v by simp
  then show ?thesis by (simp add: Manual_populatePayload_def parseChunks_def)
qed

theorem mistyped_manual_code_rejected_witness:
  "Manual_populatePayload (''749701123365521327694''[4 := CHR ''8'']) newPayloadContents
     = (Inl CHIP_ERROR_INTEGRITY_CHECK_FAILED, newPayloadContents)"
proof -
  have code: "payloadDecimalStringRepresentation False False 22 samplePayload = Inr ''749701123365521327694''"
    by code_simp
  have "isDigit (CHR ''8'')" by code_simp
  then show ?thesis using mistyped_manual_code_rejected [OF code, of 4 "CHR ''8''"] by simp
qed

text \<open>
  What the parser accepts: a code of 11 or 21 characters, digits only, with a correct check
  digit; the payload it fills has a PIN that is not 0 and fits its 27 bits and a short
  discriminator of 4 bits.
\<close>

theorem accepted_manual_code:
  assumes "Manual_populatePayload code out = (Inr (), q)"
  shows "(length code = 11 \<or> length code = 21) \<and> list_all isDigit code \<and> ValidateCheckString code \<and>
         setUpPINCode q \<noteq> 0 \<and> setUpPINCode q < 2 ^ 27 \<and>
         mIsShortDiscriminator (discriminator q) \<and> discriminator_ok (discriminator q)"
proof -
  obtain rep long discr pin out' where p: "parseChunks code = Inr (rep, 10, long, discr, pin)"
    "writeCommon long discr pin out' = (Inr (), q)" "list_all isDigit rep"
    using populate_Inr [OF assms] by blast
  note f = parseChunks_Inr [OF p(1)]
  have "last code = ComputeCheckChar rep" using f c_str_digits [OF p(3)] by (auto simp: ValidateCheckChar_def)
  then have "code = rep @ [ComputeCheckChar rep]"
    using f append_butlast_last_id [of code] by (metis length_0_conv not_numeral_le_zero)
  then have "list_all isDigit code" "ValidateCheckString code" "length code = Suc (length rep)"
    using p(3) ComputeCheckChar_isDigit [OF p(3)] by (auto simp: ValidateCheckString_def ValidateCheckChar_def)
  then show ?thesis using f writeCommon_Inr [OF p(2)] by auto
qed

theorem accepted_manual_code_witness:
  "Manual_populatePayload ''749701123365521327694'' newPayloadContents
     = (Inr (), expectedManual samplePayload newPayloadContents) \<and>
   setUpPINCode (expectedManual samplePayload newPayloadContents) < 2 ^ 27"
proof -
  have "Manual_populatePayload ''749701123365521327694'' newPayloadContents
     = (Inr (), expectedManual samplePayload newPayloadContents)" by code_simp
  then show ?thesis using accepted_manual_code by blast
qed

text \<open>
  A forced short code for another flow than the standard one is unusable: the generator
  succeeds, but the code has the flag of a long code and the parser rejects it for its length.
\<close>

theorem forced_short_code_unparsable:
  assumes "isValidManualCode p" "commissioningFlow p \<noteq> kStandard" "12 \<le> bufSize"
  shows "\<exists>code. payloadDecimalStringRepresentation False True bufSize p = Inr code \<and>
           Manual_populatePayload code out = (Inl CHIP_ERROR_INVALID_STRING_LENGTH, out)"
proof -
  let ?s = "manualDigits False p"
  have "parseChunks (?s @ [ComputeCheckChar ?s]) = Inl CHIP_ERROR_INVALID_STRING_LENGTH"
  proof -
    have s: "?s \<noteq> []" "length ?s = 10" by (auto simp: manualDigits_def)
    have "chunk1PayloadRepresentation p \<noteq> 8" "chunk1PayloadRepresentation p \<noteq> 9"
      using chunk_bounds(1) [of p] by auto
    then show ?thesis
      unfolding parseChunks_def CheckDecimalStringValidity_digits [OF manualDigits_isDigit s(1)]
      using read_chunks(1-3) [of False p] chunk_fields(1) [of p] assms(2) s(2)
      by (simp add: CheckCodeLengthValidity_def)
  qed
  then show ?thesis
    using generated_code [of False p False bufSize True] assms by (simp add: Manual_populatePayload_def)
qed

theorem forced_short_code_unparsable_witness:
  "\<exists>code. payloadDecimalStringRepresentation False True 22 samplePayload = Inr code \<and>
     Manual_populatePayload code newPayloadContents = (Inl CHIP_ERROR_INVALID_STRING_LENGTH, newPayloadContents)"
proof -
  have "isValidManualCode samplePayload" "commissioningFlow samplePayload \<noteq> kStandard" by code_simp+
  then show ?thesis using forced_short_code_unparsable [of samplePayload 22] by simp
qed

end
