(* ===== verification/QR_Code.thy ===== *)
theory QR_Code
  imports Setup_Payload Base38
begin

text \<open>
  The QR code of the onboarding payload: the generator of
  \<^verbatim>\<open>src/setup_payload/QRCodeSetupPayloadGenerator.cpp\<close> and the parser of
  \<^verbatim>\<open>src/setup_payload/QRCodeSetupPayloadParser.cpp\<close>.  The payload is packed into bits, the bits
  into base-38 characters.  The TLV encoding of the optional data is an argument of both sides,
  given by \<open>QR_Optional\<close>: the generator takes its bytes, the parser the function that fills the payload from them.
\<close>

section \<open>Packing bits\<close>

text \<open>The loop of \<open>populateBits\<close>, over the bits of the input from the lowest on.\<close>

function populateBitsLoop :: "bytes \<Rightarrow> nat \<Rightarrow> u64 \<Rightarrow> bytes" where
  "populateBitsLoop bits index input =
     (if input = 0 then bits
      else populateBitsLoop
             (if input AND 1 \<noteq> 0 then bits[index div 8 := bits ! (index div 8) OR push_bit (index mod 8) 1] else bits)
             (index + 1) (drop_bit 1 input))"
  by auto

lemma unat_drop_bit_less: "(input :: u64) \<noteq> 0 \<Longrightarrow> unat (drop_bit 1 input) < unat input"
  using unat_gt_0 [of input] by (simp add: drop_bit_eq_div unat_div)

termination populateBitsLoop
  by (relation "measure (\<lambda>(_, _, input). unat input)") (auto simp: unat_drop_bit_less simp del: One_nat_def)

declare populateBitsLoop.simps [simp del]

definition populateBits :: "u64 \<Rightarrow> nat \<Rightarrow> nat \<Rightarrow> bytes \<times> nat \<Rightarrow> (bytes \<times> nat) result" where
  "populateBits input numberOfBits totalPayloadDataSizeInBits s =
     (case s of (bits, off) \<Rightarrow>
       verify (off + numberOfBits \<le> totalPayloadDataSizeInBits) CHIP_ERROR_INVALID_ARGUMENT
         (verify (input < ucast (push_bit numberOfBits (1 :: u32))) CHIP_ERROR_INVALID_ARGUMENT
            (Inr (populateBitsLoop bits off input, off + numberOfBits))))"

fun populateTLVBits :: "bytes \<Rightarrow> nat \<Rightarrow> bytes \<times> nat \<Rightarrow> (bytes \<times> nat) result" where
  "populateTLVBits [] totalBits s = Inr s"
| "populateTLVBits (b # bs) totalBits s = rbind (populateBits (ucast b) 8 totalBits s) (populateTLVBits bs totalBits)"

abbreviation (input) kTotalPayloadDataSizeInBits :: nat where "kTotalPayloadDataSizeInBits \<equiv> 88"
abbreviation (input) kTotalPayloadDataSizeInBytes :: nat where "kTotalPayloadDataSizeInBytes \<equiv> 11"

definition generateBitSet :: "PayloadContents \<Rightarrow> bytes \<Rightarrow> bytes \<Rightarrow> bytes result" where
  "generateBitSet p bits tlvData =
     (let totalBits = kTotalPayloadDataSizeInBits + length tlvData * 8 in
      verify (length bits * 8 \<ge> totalBits) CHIP_ERROR_BUFFER_TOO_SMALL
       (rbind (populateBits (ucast (version p)) 3 kTotalPayloadDataSizeInBits (bits, 0)) (\<lambda>s.
        rbind (populateBits (ucast (vendorID p)) 16 kTotalPayloadDataSizeInBits s) (\<lambda>s.
        rbind (populateBits (ucast (productID p)) 16 kTotalPayloadDataSizeInBits s) (\<lambda>s.
        rbind (populateBits (ucast (commissioningFlow p)) 2 kTotalPayloadDataSizeInBits s) (\<lambda>s.
        case rendezvousInformation p of None \<Rightarrow> Inl CHIP_ERROR_INVALID_ARGUMENT | Some r \<Rightarrow>
        rbind (populateBits (ucast r) 8 kTotalPayloadDataSizeInBits s) (\<lambda>s.
        rbind (GetLongValue (discriminator p)) (\<lambda>d.
        rbind (populateBits (ucast d) 12 kTotalPayloadDataSizeInBits s) (\<lambda>s.
        rbind (populateBits (ucast (setUpPINCode p)) 27 kTotalPayloadDataSizeInBits s) (\<lambda>s.
        rbind (populateBits 0 4 kTotalPayloadDataSizeInBits s) (\<lambda>s.
        rbind (populateTLVBits tlvData totalBits s) (\<lambda>(bits', _). Inr bits'))))))))))))"

abbreviation (input) kQRCodePrefix :: string where "kQRCodePrefix \<equiv> ''MT:''"

text \<open>The buffer for the bits is cleared first; \<open>outSize\<close> is the size of the output buffer.\<close>

definition payloadBase38RepresentationWithTLV ::
    "PayloadContents \<Rightarrow> nat \<Rightarrow> nat \<Rightarrow> bytes \<Rightarrow> string result" where
  "payloadBase38RepresentationWithTLV p outSize bitsSize tlvData =
     rbind (generateBitSet p (replicate bitsSize 0) tlvData) (\<lambda>bits.
       if outSize < length kQRCodePrefix + 1 then Inl CHIP_ERROR_BUFFER_TOO_SMALL
       else case base38Encode (outSize - length kQRCodePrefix) bits of
              (Inl e, _) \<Rightarrow> Inl e
            | (Inr _, s) \<Rightarrow> Inr (kQRCodePrefix @ s))"

text \<open>\<open>QRCodeSetupPayloadGenerator::payloadBase38Representation\<close> once the optional data is
  encoded, and the generator for payloads without optional data.\<close>

definition payloadBase38Representation :: "bool \<Rightarrow> PayloadContents \<Rightarrow> bytes result \<Rightarrow> string result" where
  "payloadBase38Representation mAllowInvalidPayload p generateTLVFromOptionalData =
     verify (mAllowInvalidPayload \<or> isValidQRCodePayload p) CHIP_ERROR_INVALID_ARGUMENT
       (rbind generateTLVFromOptionalData (\<lambda>tlvData.
          let bitsSize = kTotalPayloadDataSizeInBytes + length tlvData in
          payloadBase38RepresentationWithTLV p (base38EncodedLength bitsSize + length kQRCodePrefix) bitsSize tlvData))"

definition basicPayloadBase38Representation :: "PayloadContents \<Rightarrow> nat \<Rightarrow> string result" where
  "basicPayloadBase38Representation p outSize =
     verify (isValidQRCodePayload p) CHIP_ERROR_INVALID_ARGUMENT
       (payloadBase38RepresentationWithTLV p outSize kTotalPayloadDataSizeInBytes [])"

section \<open>Reading bits\<close>

text \<open>\<open>1 << bitsRead\<close> is a signed 32-bit shift that is widened to the 64 bits of \<open>dest\<close>.\<close>

fun readBitsLoop :: "bytes \<Rightarrow> nat \<Rightarrow> nat \<Rightarrow> nat \<Rightarrow> u64 \<Rightarrow> u64" where
  "readBitsLoop buf currentIndex bitsRead 0 dest = dest"
| "readBitsLoop buf currentIndex bitsRead (Suc left) dest =
     readBitsLoop buf (currentIndex + 1) (bitsRead + 1) left
       (if buf ! (currentIndex div 8) AND push_bit (currentIndex mod 8) 1 \<noteq> 0
        then dest OR scast (push_bit bitsRead (1 :: u32)) else dest)"

definition readBits :: "bytes \<Rightarrow> nat \<Rightarrow> nat \<Rightarrow> (u64 \<times> nat) result" where
  "readBits buf index numberOfBitsToRead =
     verify (\<not> (index + numberOfBitsToRead > length buf * 8 \<or> numberOfBitsToRead > 64)) CHIP_ERROR_INVALID_ARGUMENT
       (Inr (readBitsLoop buf index 0 numberOfBitsToRead 0, index + numberOfBitsToRead))"

text \<open>The loop of \<open>populateTLV\<close> ignores the status of \<open>readBits\<close>, which then leaves 0.\<close>

fun readTLVBytes :: "bytes \<Rightarrow> nat \<Rightarrow> nat \<Rightarrow> bytes" where
  "readTLVBytes buf index 0 = []"
| "readTLVBytes buf index (Suc n) =
     (case readBits buf index 8 of
        Inl _ \<Rightarrow> 0 # readTLVBytes buf index n
      | Inr (dest, index') \<Rightarrow> ucast dest # readTLVBytes buf index' n)"

type_synonym tlv_parser = "bytes \<Rightarrow> SetupPayload \<Rightarrow> unit result \<times> SetupPayload"

text \<open>\<open>alloc\<close> says which sizes the platform can allocate.\<close>

definition populateTLV :: "(nat \<Rightarrow> bool) \<Rightarrow> tlv_parser \<Rightarrow> bytes \<Rightarrow> nat \<Rightarrow> SetupPayload \<Rightarrow> unit result \<times> SetupPayload" where
  "populateTLV alloc parseTLVFields buf index out =
     (let bitsLeftToRead = length buf * 8 - index; tlvBytesLength = (bitsLeftToRead + 7) div 8 in
      if tlvBytesLength = 0 then (Inr (), out)
      else if \<not> alloc tlvBytesLength then (Inl CHIP_ERROR_NO_MEMORY, out)
      else parseTLVFields (readTLVBytes buf index tlvBytesLength) out)"

text \<open>\<open>ExtractPayload\<close>: the segments between the delimiters \<open>%\<close>, by their start positions.\<close>

definition startIndices :: "string \<Rightarrow> nat list" where
  "startIndices s = 0 # map Suc (filter (\<lambda>i. s ! i = CHR ''%'') [0..<length s])"

definition segment :: "string \<Rightarrow> nat list \<Rightarrow> nat \<Rightarrow> string" where
  "segment s starts i =
     (let startIndex = starts ! i in
      if i = length starts - 1 then drop startIndex s
      else take (starts ! (i + 1) - 1 - startIndex) (drop startIndex s))"

definition ExtractPayload :: "string \<Rightarrow> string" where
  "ExtractPayload s =
     (let starts = startIndices s in
      case find (\<lambda>seg. take (length kQRCodePrefix) seg = kQRCodePrefix \<and> length seg > length kQRCodePrefix)
             (map (segment s starts) [0..<length starts]) of
        Some chipSegment \<Rightarrow> drop (length kQRCodePrefix) chipSegment
      | None \<Rightarrow> [])"

text \<open>One step of \<open>populatePayload\<close>: read a field and write it; a failed read returns with the
  payload as it is.\<close>

definition readField ::
    "bytes \<Rightarrow> nat \<Rightarrow> nat \<Rightarrow> SetupPayload \<Rightarrow>
     (u64 \<Rightarrow> nat \<Rightarrow> unit result \<times> SetupPayload) \<Rightarrow> unit result \<times> SetupPayload" where
  "readField buf index n out k =
     (case readBits buf index n of Inl e \<Rightarrow> (Inl e, out) | Inr (dest, index') \<Rightarrow> k dest index')"

definition setContents :: "(PayloadContents \<Rightarrow> PayloadContents) \<Rightarrow> SetupPayload \<Rightarrow> SetupPayload" where
  "setContents f out = out\<lparr>contents := f (contents out)\<rparr>"

definition populateFields :: "(nat \<Rightarrow> bool) \<Rightarrow> tlv_parser \<Rightarrow> bytes \<Rightarrow> SetupPayload \<Rightarrow> unit result \<times> SetupPayload" where
  "populateFields alloc parseTLVFields buf out =
     readField buf 0 3 out (\<lambda>dest i. let out = setContents (version_update (\<lambda>_. ucast dest)) out in
     readField buf i 16 out (\<lambda>dest i. let out = setContents (vendorID_update (\<lambda>_. ucast dest)) out in
     readField buf i 16 out (\<lambda>dest i. let out = setContents (productID_update (\<lambda>_. ucast dest)) out in
     readField buf i 2 out (\<lambda>dest i. let out = setContents (commissioningFlow_update (\<lambda>_. ucast dest)) out in
     readField buf i 8 out (\<lambda>dest i.
       let out = setContents (rendezvousInformation_update (\<lambda>_. Some (ucast dest))) out in
     readField buf i 12 out (\<lambda>dest i. case SetLongValue (ucast dest) of
       Inl e \<Rightarrow> (Inl e, out)
     | Inr d \<Rightarrow> let out = setContents (discriminator_update (\<lambda>_. d)) out in
     readField buf i 27 out (\<lambda>dest i. let out = setContents (setUpPINCode_update (\<lambda>_. ucast dest)) out in
     readField buf i 4 out (\<lambda>dest i.
       if dest \<noteq> 0 then (Inl CHIP_ERROR_INVALID_ARGUMENT, out)
       else populateTLV alloc parseTLVFields buf i out))))))))"

definition QR_populatePayload :: "(nat \<Rightarrow> bool) \<Rightarrow> tlv_parser \<Rightarrow> string \<Rightarrow> SetupPayload \<Rightarrow> unit result \<times> SetupPayload" where
  "QR_populatePayload alloc parseTLVFields mBase38Representation out =
     (let payload = ExtractPayload mBase38Representation in
      if length payload = 0 then (Inl CHIP_ERROR_INVALID_ARGUMENT, out)
      else case base38Decode payload of
             Inl e \<Rightarrow> (Inl e, out)
           | Inr buf \<Rightarrow> populateFields alloc parseTLVFields buf out)"

section \<open>Bit buffers\<close>

text \<open>A buffer \<open>holds\<close> a list of bits when it starts with them and is 0 after them.\<close>

definition bitAt :: "bytes \<Rightarrow> nat \<Rightarrow> bool" where
  "bitAt buf i \<longleftrightarrow> bit (buf ! (i div 8)) (i mod 8)"

definition holds :: "bytes \<Rightarrow> bool list \<Rightarrow> bool" where
  "holds buf bs \<longleftrightarrow> length bs \<le> length buf * 8 \<and>
     (\<forall>i < length buf * 8. bitAt buf i \<longleftrightarrow> i < length bs \<and> bs ! i)"

definition field :: "'a::len word \<Rightarrow> nat \<Rightarrow> bool list" where
  "field v n = map (bit v) [0..<n]"

lemma length_field [simp]: "length (field v n) = n"
  by (simp add: field_def)

lemma nth_field: "i < n \<Longrightarrow> field v n ! i = bit v i"
  by (simp add: field_def)

lemma holds_zero: "holds (replicate n 0) []"
  by (auto simp: holds_def bitAt_def less_mult_imp_div_less)

lemma bitAt_set:
  assumes "j < length buf * 8" "i < length buf * 8"
  shows "bitAt (buf[j div 8 := buf ! (j div 8) OR push_bit (j mod 8) 1]) i \<longleftrightarrow> i = j \<or> bitAt buf i"
proof -
  have "i = j \<longleftrightarrow> i div 8 = j div 8 \<and> i mod 8 = j mod 8" by (metis div_mod_decomp)
  moreover have "i div 8 < length buf" "j div 8 < length buf" using assms by (auto simp: less_mult_imp_div_less)
  ultimately show ?thesis
    by (cases "i div 8 = j div 8")
      (auto simp: bitAt_def nth_list_update bit_or_iff bit_exp_iff)
qed

lemma high_bits_zero: "uint (v :: 'a::len word) < 2 ^ n \<Longrightarrow> bit v j \<Longrightarrow> j < n"
proof (rule ccontr)
  assume v: "uint v < 2 ^ n" "bit v j" and "\<not> j < n"
  then have "(2::int) ^ n \<le> 2 ^ j" by (intro power_increasing) auto
  then have "uint v < 2 ^ j" using v(1) by linarith
  then have "uint v div 2 ^ j = 0" by simp
  moreover have "bit (uint v) j" using v(2) by (simp add: bit_uint_iff bit_imp_le_length)
  ultimately show False by (simp add: bit_iff_odd [of "uint v"])
qed

lemma populateBitsLoop_bits:
  assumes "uint input < 2 ^ n" "off + n \<le> length bits * 8"
  shows "length (populateBitsLoop bits off input) = length bits \<and>
    (\<forall>i < length bits * 8. bitAt (populateBitsLoop bits off input) i
        \<longleftrightarrow> bitAt bits i \<or> (off \<le> i \<and> bit input (i - off)))"
  using assms
proof (induction bits off input arbitrary: n rule: populateBitsLoop.induct)
  case (1 bits off input)
  show ?case
  proof (cases "input = 0")
    case True
    then show ?thesis by (simp add: populateBitsLoop.simps)
  next
    case False
    then have "0 < uint input" by (simp add: word_uint_eq_iff order_less_le)
    then obtain m where n: "n = Suc m" using 1(2) by (cases n) auto
    let ?b = "if input AND 1 \<noteq> 0 then bits[off div 8 := bits ! (off div 8) OR push_bit (off mod 8) 1] else bits"
    have len: "length ?b = length bits" by simp
    have "uint (drop_bit 1 input) < 2 ^ m"
      using 1(2) n by (simp add: drop_bit_eq_div uint_div)
    then have IH: "length (populateBitsLoop ?b (off + 1) (drop_bit 1 input)) = length bits \<and>
      (\<forall>i < length bits * 8. bitAt (populateBitsLoop ?b (off + 1) (drop_bit 1 input)) i
        \<longleftrightarrow> bitAt ?b i \<or> (off + 1 \<le> i \<and> bit (drop_bit 1 input) (i - (off + 1))))"
      using 1(1) [OF False, of m] 1(3) n unfolding len by simp
    have odd: "input AND 1 \<noteq> 0 \<longleftrightarrow> bit input 0"
      by (simp add: and_one_eq bit_0 odd_iff_mod_2_eq_one)
    have "bitAt ?b i \<or> (off + 1 \<le> i \<and> bit (drop_bit 1 input) (i - (off + 1)))
        \<longleftrightarrow> bitAt bits i \<or> (off \<le> i \<and> bit input (i - off))" if i: "i < length bits * 8" for i
    proof -
      have "bitAt ?b i \<longleftrightarrow> bitAt bits i \<or> i = off \<and> bit input 0"
        using bitAt_set [of off bits i] i 1(3) n odd by auto
      then show ?thesis
        by (cases "i = off"; cases "off \<le> i") (auto simp: bit_drop_bit_eq Suc_diff_Suc)
    qed
    then show ?thesis
      using IH False by (simp add: populateBitsLoop.simps [of bits off input])
  qed
qed

lemma holds_append:
  assumes h: "holds buf bs" and v: "uint v < 2 ^ n" and l: "length bs + n \<le> length buf * 8"
  shows "holds (populateBitsLoop buf (length bs) v) (bs @ field v n)
    \<and> length (populateBitsLoop buf (length bs) v) = length buf"
proof -
  note p = populateBitsLoop_bits [OF v l]
  have "bit v j \<Longrightarrow> j < n" for j
    using high_bits_zero [OF v] .
  moreover from this have "bit v (i - length bs) \<Longrightarrow> length bs \<le> i \<Longrightarrow> i < length bs + n" for i by fastforce
  ultimately show ?thesis
    using p h l by (auto simp: holds_def nth_append nth_field)
qed

lemma populateBits_holds:
  assumes h: "holds buf bs" and v: "uint v < 2 ^ n" and n: "n < 32"
    and t: "length bs + n \<le> totalBits" "totalBits \<le> length buf * 8"
  shows "\<exists>buf'. populateBits v n totalBits (buf, length bs) = Inr (buf', length (bs @ field v n)) \<and>
           holds buf' (bs @ field v n) \<and> length buf' = length buf"
proof -
  have "(2 :: int) ^ n < 2 ^ 32" using n by (intro power_strict_increasing) auto
  then have "uint (word_of_int (2 ^ n) :: u64) = 2 ^ n"
    by (simp only: uint_word_of_int) simp
  moreover have "(ucast (push_bit n (1 :: u32)) :: u64) = word_of_int (2 ^ n)"
    using n by (intro bit_word_eqI) (auto simp: bit_simps bit_exp_iff)
  ultimately have "uint (ucast (push_bit n (1 :: u32)) :: u64) = 2 ^ n" by simp
  then have "v < ucast (push_bit n (1 :: u32))" using v by (simp add: word_less_def)
  then show ?thesis
    using holds_append [OF h v] t by (simp add: populateBits_def)
qed

lemma scast_bit: "b < 31 \<Longrightarrow> (scast (2 ^ b :: u32) :: u64) = 2 ^ b"
  by (rule bit_word_eqI) (auto simp: bit_simps bit_exp_iff)

lemma readBitsLoop_bits:
  "br + left \<le> 31 \<Longrightarrow> j < 64 \<Longrightarrow>
     bit (readBitsLoop buf ci br left dest) j \<longleftrightarrow>
       bit dest j \<or> (br \<le> j \<and> j < br + left \<and> bitAt buf (ci + (j - br)))"
proof (induction left arbitrary: ci br dest)
  case (Suc left)
  have "buf ! (ci div 8) AND push_bit (ci mod 8) 1 \<noteq> 0 \<longleftrightarrow> bitAt buf ci"
    by (simp add: bitAt_def bit_iff_and_push_bit_not_eq_0 del: push_bit_of_1)
  then have step: "readBitsLoop buf ci br (Suc left) dest =
      readBitsLoop buf (ci + 1) (br + 1) left (if bitAt buf ci then dest OR 2 ^ br else dest)"
    using Suc.prems by (simp add: scast_bit)
  have "br + 1 + left \<le> 31" using Suc.prems by simp
  note IH = Suc.IH [OF this Suc.prems(2)]
  show ?case
    unfolding step IH using Suc.prems
    by (cases "j = br"; cases "br \<le> j") (auto simp: bit_simps bit_exp_iff Suc_diff_Suc le_Suc_eq)
next
  case 0
  then show ?case by auto
qed

lemma readBits_holds:
  assumes h: "holds buf (pre @ field v n @ post)" and v: "uint v < 2 ^ n" and n: "n \<le> 31"
  shows "readBits buf (length pre) n = Inr (v :: u64, length (pre @ field v n))"
proof -
  have l: "length pre + n + length post \<le> length buf * 8" using h by (simp add: holds_def)
  have small: "bit v j \<Longrightarrow> j < n" for j
    using high_bits_zero [OF v] .
  have "bitAt buf (length pre + j) \<longleftrightarrow> bit v j" if "j < n" for j
    using h l that by (simp add: holds_def nth_append nth_field)
  then have "readBitsLoop buf (length pre) 0 n 0 = v"
    using n small by (intro bit_word_eqI) (auto simp: readBitsLoop_bits)
  then show ?thesis using l n by (simp add: readBits_def)
qed

section \<open>Round trip\<close>

definition tlvBits :: "bytes \<Rightarrow> bool list" where
  "tlvBits tlv = concat (map (\<lambda>b. field (ucast b :: u64) 8) tlv)"

lemma length_tlvBits [simp]: "length (tlvBits tlv) = length tlv * 8"
  by (induction tlv) (auto simp: tlvBits_def)

lemma uint_ucast8: "uint (ucast (b :: u8) :: u64) < 2 ^ 8"
  using uint_lt2p [of b] by (simp add: unsigned_ucast_eq take_bit_eq_mod)

lemma populateTLVBits_holds:
  "holds buf bs \<Longrightarrow> length bs + length tlv * 8 \<le> totalBits \<Longrightarrow> totalBits \<le> length buf * 8 \<Longrightarrow>
     \<exists>buf'. populateTLVBits tlv totalBits (buf, length bs) = Inr (buf', length bs + length tlv * 8) \<and>
       holds buf' (bs @ tlvBits tlv) \<and> length buf' = length buf"
proof (induction tlv arbitrary: buf bs)
  case (Cons b tlv)
  obtain buf1 where b: "populateBits (ucast b) 8 totalBits (buf, length bs) = Inr (buf1, length (bs @ field (ucast b :: u64) 8))"
      "holds buf1 (bs @ field (ucast b :: u64) 8)" "length buf1 = length buf"
    using populateBits_holds [OF Cons.prems(1) uint_ucast8 [of b], of totalBits] Cons.prems by auto
  obtain buf2 where "populateTLVBits tlv totalBits (buf1, length (bs @ field (ucast b :: u64) 8)) =
        Inr (buf2, length (bs @ field (ucast b :: u64) 8) + length tlv * 8)"
      "holds buf2 ((bs @ field (ucast b :: u64) 8) @ tlvBits tlv)" "length buf2 = length buf1"
    using Cons.IH [OF b(2)] Cons.prems b(3) by auto
  then show ?case using b by (auto simp: tlvBits_def)
qed (simp add: tlvBits_def)

lemma readTLVBytes_holds:
  "holds buf (pre @ tlvBits tlv) \<Longrightarrow> readTLVBytes buf (length pre) (length tlv) = tlv"
proof (induction tlv arbitrary: pre)
  case (Cons b tlv)
  have h: "holds buf (pre @ field (ucast b :: u64) 8 @ tlvBits tlv)"
    using Cons.prems by (simp add: tlvBits_def)
  have "ucast (ucast b :: u64) = b" by (rule bit_word_eqI) (simp add: bit_simps)
  then show ?case
    using readBits_holds [OF h uint_ucast8] Cons.IH [of "pre @ field (ucast b :: u64) 8"] h by simp
qed simp

text \<open>The fields of a payload in their order, with their widths.\<close>

definition fieldsOf :: "PayloadContents \<Rightarrow> (u64 \<times> nat) list" where
  "fieldsOf p =
     [(ucast (version p), 3), (ucast (vendorID p), 16), (ucast (productID p), 16),
      (ucast (commissioningFlow p), 2), (ucast (the (rendezvousInformation p)), 8),
      (ucast (mDiscriminator (discriminator p)), 12), (ucast (setUpPINCode p), 27), (0, 4)]"

definition fieldsFit :: "PayloadContents \<Rightarrow> bool" where
  "fieldsFit p \<longleftrightarrow> version p < 8 \<and> commissioningFlow p < 4 \<and> rendezvousInformation p \<noteq> None \<and>
     \<not> mIsShortDiscriminator (discriminator p) \<and> mDiscriminator (discriminator p) < 4096 \<and>
     setUpPINCode p < 134217728"

definition fieldBits :: "(u64 \<times> nat) list \<Rightarrow> bool list" where
  "fieldBits fs = concat (map (\<lambda>(v, n). field v n) fs)"

definition fits :: "(u64 \<times> nat) list \<Rightarrow> bool" where
  "fits fs \<longleftrightarrow> list_all (\<lambda>(v, n). uint v < 2 ^ n \<and> n < 31) fs"

lemma length_fieldBits [simp]: "length (fieldBits fs) = sum_list (map snd fs)"
  by (induction fs) (auto simp: fieldBits_def)

lemma uint_ucast64: "LENGTH('a) \<le> 64 \<Longrightarrow> uint (ucast (w :: 'a::len word) :: u64) = uint w"
  using lt2p_lem [of 64 w] by (simp add: unsigned_ucast_eq take_bit_int_eq_self)

lemma fits_fieldsOf: "fieldsFit p \<Longrightarrow> fits (fieldsOf p)"
  using uint_lt2p [of "vendorID p"] uint_lt2p [of "productID p"] uint_lt2p [of "the (rendezvousInformation p)"]
  by (simp add: fits_def fieldsOf_def fieldsFit_def uint_ucast64 word_less_def)

fun populateAll :: "(u64 \<times> nat) list \<Rightarrow> nat \<Rightarrow> bytes \<times> nat \<Rightarrow> (bytes \<times> nat) result" where
  "populateAll [] totalBits s = Inr s"
| "populateAll ((v, n) # fs) totalBits s = rbind (populateBits v n totalBits s) (populateAll fs totalBits)"

lemma populateAll_holds:
  "holds buf bs \<Longrightarrow> fits fs \<Longrightarrow> length bs + length (fieldBits fs) \<le> totalBits \<Longrightarrow> totalBits \<le> length buf * 8 \<Longrightarrow>
     \<exists>buf'. populateAll fs totalBits (buf, length bs) = Inr (buf', length bs + length (fieldBits fs)) \<and>
       holds buf' (bs @ fieldBits fs) \<and> length buf' = length buf"
proof (induction fs arbitrary: buf bs)
  case (Cons a fs)
  obtain v n where a: "a = (v, n)" by fastforce
  have v: "uint v < 2 ^ n" "n < 32" "fits fs" using Cons.prems a by (auto simp: fits_def)
  obtain buf1 where b: "populateBits v n totalBits (buf, length bs) = Inr (buf1, length (bs @ field v n))"
      "holds buf1 (bs @ field v n)" "length buf1 = length buf"
    using populateBits_holds [OF Cons.prems(1) v(1,2), of totalBits] Cons.prems a by auto
  show ?case
    using Cons.IH [OF b(2) v(3)] Cons.prems b a by (auto simp: fieldBits_def)
qed (simp add: fieldBits_def)

lemma rbind_assoc: "rbind (rbind m f) g = rbind m (\<lambda>x. rbind (f x) g)"
  by (cases m) auto

lemma generateBitSet_all:
  assumes "fieldsFit p"
  shows "generateBitSet p bits tlv =
    verify (length bits * 8 \<ge> 88 + length tlv * 8) CHIP_ERROR_BUFFER_TOO_SMALL
      (rbind (populateAll (fieldsOf p) 88 (bits, 0)) (\<lambda>s.
         rbind (populateTLVBits tlv (88 + length tlv * 8) s) (\<lambda>(bits', _). Inr bits')))"
  using assms
  by (auto simp: generateBitSet_def fieldsOf_def fieldsFit_def GetLongValue_def rbind_assoc Let_def)

lemma generateBitSet_holds:
  assumes fit: "fieldsFit p" and n: "n = 11 + length tlv"
  shows "\<exists>buf. generateBitSet p (replicate n 0) tlv = Inr buf \<and>
           holds buf (fieldBits (fieldsOf p) @ tlvBits tlv) \<and> length buf = n"
proof -
  have l: "length (fieldBits (fieldsOf p)) = 88" by (simp add: fieldsOf_def)
  obtain b1 where 1: "populateAll (fieldsOf p) 88 (replicate n 0, 0) = Inr (b1, 88)"
      "holds b1 (fieldBits (fieldsOf p))" "length b1 = n"
    using populateAll_holds [OF holds_zero [of n] fits_fieldsOf [OF fit], of 88] l n by auto
  obtain b2 where "populateTLVBits tlv (88 + length tlv * 8) (b1, 88) = Inr (b2, 88 + length tlv * 8)"
      "holds b2 (fieldBits (fieldsOf p) @ tlvBits tlv)" "length b2 = n"
    using populateTLVBits_holds [OF 1(2), of tlv "88 + length tlv * 8"] l n 1(3) by auto
  then show ?thesis using generateBitSet_all [OF fit] 1 n by simp
qed

lemma readBits_field:
  assumes "holds buf (fieldBits fs @ post)" "fits fs" "i < length fs"
  shows "readBits buf (sum_list (map snd (take i fs))) (snd (fs ! i)) =
           Inr (fst (fs ! i), sum_list (map snd (take (Suc i) fs)))"
proof -
  obtain v n where vn: "fs ! i = (v, n)" by fastforce
  have fs: "fs = take i fs @ (v, n) # drop (Suc i) fs" using id_take_nth_drop [OF assms(3)] vn by simp
  have "fieldBits fs = fieldBits (take i fs) @ field v n @ fieldBits (drop (Suc i) fs)"
    by (subst fs) (simp add: fieldBits_def)
  then have h: "holds buf (fieldBits (take i fs) @ field v n @ (fieldBits (drop (Suc i) fs) @ post))"
    using assms(1) by simp
  have "uint v < 2 ^ n" "n \<le> 31"
    using assms(2,3) vn by (auto simp: fits_def list_all_length dest!: spec [of _ i])
  then show ?thesis
    using readBits_holds [OF h] vn assms(3) by (simp add: take_Suc_conv_app_nth)
qed

lemma ucast_u64 [simp]:
  "ucast (ucast (b :: u8) :: u64) = b" "ucast (ucast (h :: u16) :: u64) = h" "ucast (ucast (w :: u32) :: u64) = w"
  by (rule bit_word_eqI; simp add: bit_simps)+

lemma and_FFF: "(m :: u16) < 4096 \<Longrightarrow> m AND 0xFFF = m"
proof (rule bit_word_eqI)
  fix n assume m: "m < 4096" and n: "n < LENGTH(16)"
  have "uint m < 2 ^ 12" using m by (simp add: word_less_def)
  note high_bits_zero [OF this, of n]
  moreover have eq: "(0xFFF :: u16) = mask 12" by (simp add: mask_eq_exp_minus_1)
  ultimately show "bit (m AND 0xFFF) n = bit m n"
    using n by (simp only: eq bit_and_iff bit_mask_iff) auto
qed

lemma all_fields:
  "c\<lparr>version := version p, vendorID := vendorID p, productID := productID p,
     commissioningFlow := commissioningFlow p, rendezvousInformation := rendezvousInformation p,
     discriminator := discriminator p, setUpPINCode := setUpPINCode p\<rparr> = (p :: PayloadContents)"
  by (cases c; cases p) simp

lemma populateFields_holds:
  assumes fit: "fieldsFit p" and h: "holds buf (fieldBits (fieldsOf p) @ tlvBits tlv)"
    and l: "length buf = 11 + length tlv"
  shows "populateFields alloc parser buf out =
           (if tlv = [] then (Inr (), out\<lparr>contents := p\<rparr>)
            else if alloc (length tlv) then parser tlv (out\<lparr>contents := p\<rparr>) else (Inl CHIP_ERROR_NO_MEMORY, out\<lparr>contents := p\<rparr>))"
proof -
  note r = readBits_field [OF h fits_fieldsOf [OF fit]]
  have reads: "readBits buf 0 3 = Inr (ucast (version p), 3)"
    "readBits buf 3 16 = Inr (ucast (vendorID p), 19)"
    "readBits buf 19 16 = Inr (ucast (productID p), 35)"
    "readBits buf 35 2 = Inr (ucast (commissioningFlow p), 37)"
    "readBits buf 37 8 = Inr (ucast (the (rendezvousInformation p)), 45)"
    "readBits buf 45 12 = Inr (ucast (mDiscriminator (discriminator p)), 57)"
    "readBits buf 57 27 = Inr (ucast (setUpPINCode p), 84)"
    "readBits buf 84 4 = Inr (0, 88)"
    using r [of 0] r [of 1] r [of 2] r [of 3] r [of 4] r [of 5] r [of 6] r [of 7]
    by (simp_all add: fieldsOf_def eval_nat_numeral)
  have rv: "Some (the (rendezvousInformation p)) = rendezvousInformation p"
    using fit by (auto simp: fieldsFit_def)
  have d: "SetLongValue (mDiscriminator (discriminator p)) = Inr (discriminator p)"
    using fit by (simp add: SetLongValue_def fieldsFit_def and_FFF)
  have "(length tlv * 8 + 7) div 8 = length tlv" by simp
  moreover have "readTLVBytes buf 88 (length tlv) = tlv"
    using readTLVBytes_holds [OF h] by (simp add: fieldsOf_def)
  ultimately have tlv: "populateTLV alloc parser buf 88 out' =
      (if tlv = [] then (Inr (), out') else if alloc (length tlv) then parser tlv out' else (Inl CHIP_ERROR_NO_MEMORY, out'))" for out'
    using l by (simp add: populateTLV_def Let_def)
  show ?thesis
    by (simp add: populateFields_def readField_def reads rv d tlv setContents_def all_fields Let_def)
qed

lemma ExtractPayload_prefix:
  assumes "CHR ''%'' \<notin> set s" "s \<noteq> []"
  shows "ExtractPayload (kQRCodePrefix @ s) = s"
proof -
  let ?t = "kQRCodePrefix @ s"
  have "CHR ''%'' \<notin> set ?t" using assms(1) by simp
  then have "?t ! i \<noteq> CHR ''%''" if "i < length ?t" for i using nth_mem [OF that] by metis
  then have "filter (\<lambda>i. ?t ! i = CHR ''%'') [0..<length ?t] = []"
    unfolding filter_empty_conv set_upt by simp
  then have "startIndices (kQRCodePrefix @ s) = [0]" unfolding startIndices_def by simp
  then show ?thesis using assms(2) by (simp add: ExtractPayload_def segment_def Let_def)
qed

lemma emitChars_no_percent: "CHR ''%'' \<notin> set (emitChars n v)"
proof (induction n arbitrary: v)
  case (Suc n)
  have "kCodes ! nat (v mod 38) \<in> set kCodes"
    by (rule nth_mem) (simp add: kCodes_def nat_less_iff)
  moreover have "CHR ''%'' \<notin> set kCodes" by (simp add: kCodes_def)
  ultimately have "kCodes ! nat (v mod 38) \<noteq> CHR ''%''" by metis
  then show ?case using Suc by (simp add: kRadix_def emitChars.simps)
qed (simp add: emitChars.simps)

lemma base38_no_percent: "CHR ''%'' \<notin> set (base38 bs)"
  by (induction bs rule: base38.induct) (simp_all add: emitChars_no_percent)

lemma base38_empty: "base38 bs = [] \<longleftrightarrow> bs = []"
  by (cases bs rule: base38.cases) (auto simp: eval_nat_numeral emitChars.simps)

lemma valid_fieldsFit:
  assumes "isValidQRCodePayload p" "discriminator_ok (discriminator p)" "\<not> mIsShortDiscriminator (discriminator p)"
  shows "fieldsFit p"
  using assms
  by (auto simp: isValidQRCodePayload_def fieldsFit_def discriminator_ok_def CheckPayloadCommonConstraints_def
      split: option.splits)

section \<open>The text carries the payload\<close>

definition sampleQRPayload :: PayloadContents where
  "sampleQRPayload =
     \<lparr>version = 0, vendorID = 0xFFF1, productID = 0x8000, commissioningFlow = kStandard,
      rendezvousInformation = Some 4,
      discriminator = \<lparr>mDiscriminator = 0xF00, mIsShortDiscriminator = False\<rparr>, setUpPINCode = 20202021\<rparr>"

text \<open>
  Round trip of the QR text: for every valid payload with a long discriminator, and whatever
  bytes encode the optional data, the generator produces a text, and the parser given that text
  decodes exactly the fields of the payload and, if it can allocate their array, hands exactly the bytes of
  the optional data to the TLV parser; without optional data it succeeds with the payload.
\<close>

theorem qr_text_carries_payload:
  assumes "isValidQRCodePayload p" "discriminator_ok (discriminator p)"
    and "\<not> mIsShortDiscriminator (discriminator p)"
  shows "\<exists>text. payloadBase38Representation False p (Inr tlv) = Inr text \<and>
           QR_populatePayload alloc parser text out =
             (if tlv = [] then (Inr (), out\<lparr>contents := p\<rparr>)
              else if alloc (length tlv) then parser tlv (out\<lparr>contents := p\<rparr>) else (Inl CHIP_ERROR_NO_MEMORY, out\<lparr>contents := p\<rparr>))"
proof -
  let ?n = "11 + length tlv"
  note fit = valid_fieldsFit [OF assms]
  obtain buf where b: "generateBitSet p (replicate ?n 0) tlv = Inr buf"
      "holds buf (fieldBits (fieldsOf p) @ tlvBits tlv)" "length buf = ?n"
    using generateBitSet_holds [OF fit refl] by blast
  have e: "base38Encode (base38EncodedLength ?n) buf = (Inr (), base38 buf)"
    using base38Encode_fits [of buf "base38EncodedLength ?n"] b(3) by simp
  have "payloadBase38Representation False p (Inr tlv) = Inr (kQRCodePrefix @ base38 buf)"
    using assms(1) b(1) e
    by (simp add: payloadBase38Representation_def payloadBase38RepresentationWithTLV_def base38EncodedLength_def
        Let_def)
  moreover have "base38 buf \<noteq> []" using b(3) by (auto simp: base38_empty)
  then have "QR_populatePayload alloc parser (kQRCodePrefix @ base38 buf) out = populateFields alloc parser buf out"
    using ExtractPayload_prefix [OF base38_no_percent, of buf]
    by (simp add: QR_populatePayload_def Let_def base38Decode_base38)
  ultimately show ?thesis using populateFields_holds [OF fit b(2,3)] by simp
qed

end
