(* ===== verification/Tlv_Types.thy ===== *)
theory Tlv_Types
  imports Prelude
begin

text \<open>
  Tags, types and the element head of the TLV encoding: \<^verbatim>\<open>src/lib/core/TLVTags.h\<close>, \<^verbatim>\<open>TLVTypes.h\<close> and the parts of
  \<^verbatim>\<open>TLVWriter.cpp\<close> and \<^verbatim>\<open>TLVReader.cpp\<close> that store and read a head.  A tag is the 64-bit value of the class \<open>Tag\<close>;
  types are the integers of the enumerations, since the code casts between them and values outside of them occur.
\<close>

unbundle bit_operations_syntax

section \<open>Tags\<close>

type_synonym Tag = u64

definition kSpecialTagProfileId :: u32 where "kSpecialTagProfileId = 0xFFFFFFFF"
definition kProfileIdNotSpecified :: u32 where "kProfileIdNotSpecified = 0xFFFFFFFF"
definition kCommonProfileId :: u32 where "kCommonProfileId = 0"
definition kContextTagMaxNum :: u32 where "kContextTagMaxNum = 255"
definition kAnonymousTagNum :: u32 where "kAnonymousTagNum = 256"
definition kUnknownImplicitTagNum :: u32 where "kUnknownImplicitTagNum = 257"

definition ProfileTag :: "u32 \<Rightarrow> u32 \<Rightarrow> Tag" where
  "ProfileTag profileId tagNum = push_bit 32 (ucast (NOT profileId)) OR ucast tagNum"

definition VendorProfileTag :: "u16 \<Rightarrow> u16 \<Rightarrow> u32 \<Rightarrow> Tag" where
  "VendorProfileTag vendorId profileNum tagNum = ProfileTag (push_bit 16 (ucast vendorId) OR ucast profileNum) tagNum"

definition ContextTag :: "u8 \<Rightarrow> Tag" where
  "ContextTag tagNum = ProfileTag kSpecialTagProfileId (ucast tagNum)"

definition CommonTag :: "u32 \<Rightarrow> Tag" where
  "CommonTag tagNum = ProfileTag kCommonProfileId tagNum"

definition AnonymousTag :: Tag where
  "AnonymousTag = ProfileTag kSpecialTagProfileId kAnonymousTagNum"

definition UnknownImplicitTag :: Tag where
  "UnknownImplicitTag = ProfileTag kSpecialTagProfileId kUnknownImplicitTagNum"

definition ProfileIdFromTag :: "Tag \<Rightarrow> u32" where
  "ProfileIdFromTag tag = NOT (ucast (drop_bit 32 tag))"

definition VendorIdFromTag :: "Tag \<Rightarrow> u16" where
  "VendorIdFromTag tag = ucast (drop_bit 16 (ProfileIdFromTag tag))"

definition ProfileNumFromTag :: "Tag \<Rightarrow> u16" where
  "ProfileNumFromTag tag = ucast (ProfileIdFromTag tag)"

definition TagNumFromTag :: "Tag \<Rightarrow> u32" where
  "TagNumFromTag tag = ucast tag"

definition IsSpecialTag :: "Tag \<Rightarrow> bool" where
  "IsSpecialTag tag \<longleftrightarrow> ProfileIdFromTag tag = kSpecialTagProfileId"

definition IsProfileTag :: "Tag \<Rightarrow> bool" where
  "IsProfileTag tag \<longleftrightarrow> ProfileIdFromTag tag \<noteq> kSpecialTagProfileId"

definition IsContextTag :: "Tag \<Rightarrow> bool" where
  "IsContextTag tag \<longleftrightarrow> ProfileIdFromTag tag = kSpecialTagProfileId \<and> TagNumFromTag tag \<le> kContextTagMaxNum"

section \<open>Types\<close>

type_synonym TLVType = int
type_synonym TLVElementType = int

definition Elem_NotSpecified :: TLVElementType where "Elem_NotSpecified = - 1"
definition Elem_Int8 :: TLVElementType where "Elem_Int8 = 0"
definition Elem_Int16 :: TLVElementType where "Elem_Int16 = 1"
definition Elem_Int32 :: TLVElementType where "Elem_Int32 = 2"
definition Elem_Int64 :: TLVElementType where "Elem_Int64 = 3"
definition Elem_UInt8 :: TLVElementType where "Elem_UInt8 = 4"
definition Elem_UInt16 :: TLVElementType where "Elem_UInt16 = 5"
definition Elem_UInt32 :: TLVElementType where "Elem_UInt32 = 6"
definition Elem_UInt64 :: TLVElementType where "Elem_UInt64 = 7"
definition Elem_BooleanFalse :: TLVElementType where "Elem_BooleanFalse = 8"
definition Elem_BooleanTrue :: TLVElementType where "Elem_BooleanTrue = 9"
definition Elem_FloatingPointNumber32 :: TLVElementType where "Elem_FloatingPointNumber32 = 10"
definition Elem_FloatingPointNumber64 :: TLVElementType where "Elem_FloatingPointNumber64 = 11"
definition Elem_UTF8String_1ByteLength :: TLVElementType where "Elem_UTF8String_1ByteLength = 12"
definition Elem_UTF8String_8ByteLength :: TLVElementType where "Elem_UTF8String_8ByteLength = 15"
definition Elem_ByteString_1ByteLength :: TLVElementType where "Elem_ByteString_1ByteLength = 16"
definition Elem_ByteString_8ByteLength :: TLVElementType where "Elem_ByteString_8ByteLength = 19"
definition Elem_Null :: TLVElementType where "Elem_Null = 20"
definition Elem_Structure :: TLVElementType where "Elem_Structure = 21"
definition Elem_Array :: TLVElementType where "Elem_Array = 22"
definition Elem_List :: TLVElementType where "Elem_List = 23"
definition Elem_EndOfContainer :: TLVElementType where "Elem_EndOfContainer = 24"

definition kTLVType_NotSpecified :: TLVType where "kTLVType_NotSpecified = - 1"
definition kTLVType_UnknownContainer :: TLVType where "kTLVType_UnknownContainer = - 2"
definition kTLVType_FloatingPointNumber :: TLVType where "kTLVType_FloatingPointNumber = 10"
definition kTLVType_UTF8String :: TLVType where "kTLVType_UTF8String = 12"
definition kTLVType_ByteString :: TLVType where "kTLVType_ByteString = 16"
definition kTLVType_Structure :: TLVType where "kTLVType_Structure = 21"
definition kTLVType_Array :: TLVType where "kTLVType_Array = 22"
definition kTLVType_List :: TLVType where "kTLVType_List = 23"

definition Ctl_Anonymous :: u8 where "Ctl_Anonymous = 0x00"
definition Ctl_ContextSpecific :: u8 where "Ctl_ContextSpecific = 0x20"
definition Ctl_CommonProfile_2Bytes :: u8 where "Ctl_CommonProfile_2Bytes = 0x40"
definition Ctl_CommonProfile_4Bytes :: u8 where "Ctl_CommonProfile_4Bytes = 0x60"
definition Ctl_ImplicitProfile_2Bytes :: u8 where "Ctl_ImplicitProfile_2Bytes = 0x80"
definition Ctl_ImplicitProfile_4Bytes :: u8 where "Ctl_ImplicitProfile_4Bytes = 0xA0"
definition Ctl_FullyQualified_6Bytes :: u8 where "Ctl_FullyQualified_6Bytes = 0xC0"
definition Ctl_FullyQualified_8Bytes :: u8 where "Ctl_FullyQualified_8Bytes = 0xE0"

lemmas type_defs = Elem_NotSpecified_def Elem_Int8_def Elem_Int16_def Elem_Int32_def Elem_Int64_def Elem_UInt8_def
  Elem_UInt16_def Elem_UInt32_def Elem_UInt64_def Elem_BooleanFalse_def Elem_BooleanTrue_def
  Elem_FloatingPointNumber32_def Elem_FloatingPointNumber64_def Elem_UTF8String_1ByteLength_def
  Elem_UTF8String_8ByteLength_def Elem_ByteString_1ByteLength_def Elem_ByteString_8ByteLength_def Elem_Null_def
  Elem_Structure_def Elem_Array_def Elem_List_def Elem_EndOfContainer_def kTLVType_NotSpecified_def
  kTLVType_UnknownContainer_def kTLVType_FloatingPointNumber_def kTLVType_UTF8String_def kTLVType_ByteString_def
  kTLVType_Structure_def kTLVType_Array_def kTLVType_List_def
lemmas control_defs = Ctl_Anonymous_def Ctl_ContextSpecific_def Ctl_CommonProfile_2Bytes_def
  Ctl_CommonProfile_4Bytes_def Ctl_ImplicitProfile_2Bytes_def Ctl_ImplicitProfile_4Bytes_def
  Ctl_FullyQualified_6Bytes_def Ctl_FullyQualified_8Bytes_def

definition IsValidTLVType :: "TLVElementType \<Rightarrow> bool" where
  "IsValidTLVType type \<longleftrightarrow> type \<le> Elem_EndOfContainer"

definition TLVTypeHasValue :: "TLVElementType \<Rightarrow> bool" where
  "TLVTypeHasValue type \<longleftrightarrow> type \<le> Elem_UInt64 \<or> (type \<ge> Elem_FloatingPointNumber32 \<and> type \<le> Elem_ByteString_8ByteLength)"

definition TLVTypeHasLength :: "TLVElementType \<Rightarrow> bool" where
  "TLVTypeHasLength type \<longleftrightarrow> type \<ge> Elem_UTF8String_1ByteLength \<and> type \<le> Elem_ByteString_8ByteLength"

definition TLVTypeIsContainer :: "TLVElementType \<Rightarrow> bool" where
  "TLVTypeIsContainer type \<longleftrightarrow> type \<ge> Elem_Structure \<and> type \<le> Elem_List"

definition TLVTypeIsString :: "TLVElementType \<Rightarrow> bool" where
  "TLVTypeIsString type \<longleftrightarrow> type \<ge> Elem_UTF8String_1ByteLength \<and> type \<le> Elem_ByteString_8ByteLength"

definition TLVTypeIsUTF8String :: "TLVElementType \<Rightarrow> bool" where
  "TLVTypeIsUTF8String type \<longleftrightarrow> type \<ge> Elem_UTF8String_1ByteLength \<and> type \<le> Elem_UTF8String_8ByteLength"

definition TLVTypeIsByteString :: "TLVElementType \<Rightarrow> bool" where
  "TLVTypeIsByteString type \<longleftrightarrow> type \<ge> Elem_ByteString_1ByteLength \<and> type \<le> Elem_ByteString_8ByteLength"

text \<open>The size of the length or value field: \<open>-1\<close> for none, else the logarithm of the number of bytes.\<close>

definition GetTLVFieldSize :: "TLVElementType \<Rightarrow> int" where
  "GetTLVFieldSize type = (if TLVTypeHasValue type then type mod 4 else - 1)"

definition TLVFieldSizeToBytes :: "int \<Rightarrow> nat" where
  "TLVFieldSizeToBytes fieldSize = (if fieldSize \<noteq> - 1 then 2 ^ nat fieldSize else 0)"

section \<open>The head of an element\<close>

text \<open>The control byte and the tag bytes that \<open>WriteElementHead\<close> stores, with its checks of the tag against the container.\<close>

definition tagHead :: "u32 \<Rightarrow> TLVType \<Rightarrow> TLVElementType \<Rightarrow> Tag \<Rightarrow> bytes result" where
  "tagHead implicit ct elemType tag =
     (let tagNum = TagNumFromTag tag; control = (\<lambda>c. c OR word_of_int elemType) in
      if IsSpecialTag tag
      then (if tagNum \<le> kContextTagMaxNum
            then verify (ct = kTLVType_Structure \<or> ct = kTLVType_List) CHIP_ERROR_INVALID_TLV_TAG
                   (Inr [control Ctl_ContextSpecific, ucast tagNum])
            else verify (elemType = Elem_EndOfContainer \<or> ct = kTLVType_NotSpecified \<or> ct = kTLVType_Array \<or> ct = kTLVType_List)
                   CHIP_ERROR_INVALID_TLV_TAG (Inr [control Ctl_Anonymous]))
      else
        let profileId = ProfileIdFromTag tag in
        verify (ct = kTLVType_NotSpecified \<or> ct = kTLVType_Structure \<or> ct = kTLVType_List) CHIP_ERROR_INVALID_TLV_TAG
          (Inr (if profileId = kCommonProfileId
                then (if tagNum < 65536 then control Ctl_CommonProfile_2Bytes # le_bytes 2 tagNum
                      else control Ctl_CommonProfile_4Bytes # le_bytes 4 tagNum)
                else if profileId = implicit
                then (if tagNum < 65536 then control Ctl_ImplicitProfile_2Bytes # le_bytes 2 tagNum
                      else control Ctl_ImplicitProfile_4Bytes # le_bytes 4 tagNum)
                else let vendorId = ucast (drop_bit 16 profileId) :: u16; profileNum = ucast profileId :: u16 in
                  if tagNum < 65536
                  then control Ctl_FullyQualified_6Bytes # le_bytes 2 vendorId @ le_bytes 2 profileNum @ le_bytes 2 tagNum
                  else control Ctl_FullyQualified_8Bytes # le_bytes 2 vendorId @ le_bytes 2 profileNum @ le_bytes 4 tagNum)))"

definition valueField :: "TLVElementType \<Rightarrow> u64 \<Rightarrow> bytes" where
  "valueField elemType lenOrVal = le_bytes (TLVFieldSizeToBytes (GetTLVFieldSize elemType)) lenOrVal"

definition headBytes :: "u32 \<Rightarrow> TLVType \<Rightarrow> TLVElementType \<Rightarrow> Tag \<Rightarrow> u64 \<Rightarrow> bytes result" where
  "headBytes implicit ct elemType tag lenOrVal =
     rbind (tagHead implicit ct elemType tag) (\<lambda>bs. Inr (bs @ valueField elemType lenOrVal))"

text \<open>\<open>ReadTag\<close> on the bytes after the control byte, and the number of tag bytes per tag control.\<close>

definition sTagSizes :: "nat list" where
  "sTagSizes = [0, 1, 2, 4, 2, 4, 6, 8]"

definition ReadTag :: "u32 \<Rightarrow> u8 \<Rightarrow> bytes \<Rightarrow> Tag" where
  "ReadTag implicit tagControl p =
     (if tagControl = Ctl_ContextSpecific then ContextTag (le_word (take 1 p))
      else if tagControl = Ctl_CommonProfile_2Bytes then CommonTag (le_word (take 2 p))
      else if tagControl = Ctl_CommonProfile_4Bytes then CommonTag (le_word (take 4 p))
      else if tagControl = Ctl_ImplicitProfile_2Bytes
      then (if implicit = kProfileIdNotSpecified then UnknownImplicitTag else ProfileTag implicit (le_word (take 2 p)))
      else if tagControl = Ctl_ImplicitProfile_4Bytes
      then (if implicit = kProfileIdNotSpecified then UnknownImplicitTag else ProfileTag implicit (le_word (take 4 p)))
      else if tagControl = Ctl_FullyQualified_6Bytes
      then VendorProfileTag (le_word (take 2 p)) (le_word (take 2 (drop 2 p))) (le_word (take 2 (drop 4 p)))
      else if tagControl = Ctl_FullyQualified_8Bytes
      then VendorProfileTag (le_word (take 2 p)) (le_word (take 2 (drop 2 p))) (le_word (take 4 (drop 4 p)))
      else AnonymousTag)"

section \<open>Tags and their parts\<close>

lemma ProfileIdFromTag_ProfileTag [simp]: "ProfileIdFromTag (ProfileTag p n) = p"
  by (rule bit_word_eqI)
    (auto simp: ProfileIdFromTag_def ProfileTag_def bit_not_iff bit_ucast_iff bit_drop_bit_eq bit_or_iff bit_push_bit_iff bit_imp_le_length
      dest: bit_imp_le_length)

lemma TagNumFromTag_ProfileTag [simp]: "TagNumFromTag (ProfileTag p n) = n"
  by (rule bit_word_eqI) (auto simp: TagNumFromTag_def ProfileTag_def bit_ucast_iff bit_or_iff bit_push_bit_iff)

lemma ProfileTag_parts [simp]: "ProfileTag (ProfileIdFromTag t) (TagNumFromTag t) = t"
  by (rule bit_word_eqI) (auto simp: ProfileIdFromTag_def TagNumFromTag_def ProfileTag_def bit_not_iff bit_ucast_iff bit_drop_bit_eq
      bit_or_iff bit_push_bit_iff)

lemma tag_eq_iff: "t = t' \<longleftrightarrow> ProfileIdFromTag t = ProfileIdFromTag t' \<and> TagNumFromTag t = TagNumFromTag t'"
  by (metis ProfileTag_parts)

lemma VendorProfileTag_split: "VendorProfileTag (ucast (drop_bit 16 p)) (ucast p) n = ProfileTag p n"
proof -
  have "push_bit 16 (ucast (ucast (drop_bit 16 p) :: u16)) OR ucast (ucast p :: u16) = p" for p :: u32
    by (rule bit_word_eqI) (auto simp: bit_or_iff bit_push_bit_iff bit_ucast_iff bit_drop_bit_eq)
  then show ?thesis by (simp add: VendorProfileTag_def)
qed

end
