(* ===== verification/Tlv_Reader.thy ===== *)
theory Tlv_Reader
  imports Tlv_Types "HOL-Library.Sublist"
begin

text \<open>
  The TLV reader, \<^verbatim>\<open>src/lib/core/TLVReader.cpp\<close>.  The record holds the members of the class; \<open>rBuf\<close> are the bytes from
  \<open>mReadPoint\<close> to \<open>mBufEnd\<close>, and \<open>rNull\<close> says that \<open>mReadPoint\<close> is null while \<open>mBufEnd\<close> still points into the last buffer.
  The backing store is a parameter, the answers of \<open>GetNextBuffer\<close> to its calls in order.  Operations return
  an error and the reader; those with an unbounded loop are option-valued, \<open>None\<close> meaning that the loop does not end.  The lemmas
  at the end are about a reader of one contiguous buffer: every operation returns, and none leaves the buffer.
\<close>

unbundle bit_operations_syntax

section \<open>State\<close>

text \<open>
  An answer of \<open>GetNextBuffer\<close>: bytes, of which there are none at the end of the data with the pointer left as it was
  (\<open>TLVCircularBuffer\<close>), or a null pointer and no bytes (\<open>TLVPacketBufferBackingStore\<close>).
\<close>

datatype storeAnswer = StoreBytes bytes | StoreNull

record TLVReader =
  mElemTag :: Tag
  mElemLenOrVal :: u64
  rStore :: "(nat \<Rightarrow> storeAnswer result) option"
  rCalls :: nat
  rBuf :: bytes
  rNull :: bool
  mLenRead :: u32
  rMaxLen :: u32
  mControlByte :: u16
  rContainerType :: TLVType
  rContainerOpen :: bool
  rImplicitProfileId :: u32

type_synonym rResult = "chip_error option \<times> TLVReader"

definition kTLVControlByte_NotSpecified :: u16 where "kTLVControlByte_NotSpecified = 0xFFFF"

definition ClearElementState :: "TLVReader \<Rightarrow> TLVReader" where
  "ClearElementState r = r\<lparr>mElemTag := AnonymousTag, mControlByte := kTLVControlByte_NotSpecified, mElemLenOrVal := 0\<rparr>"

definition Reader_Init :: "bytes \<Rightarrow> TLVReader" where
  "Reader_Init data =
     (let n = min (length data) (2 ^ 32 - 1) in
      \<lparr>mElemTag = AnonymousTag, mElemLenOrVal = 0, rStore = None, rCalls = 0, rBuf = take n data, rNull = False, mLenRead = 0, rMaxLen = of_nat n,
       mControlByte = kTLVControlByte_NotSpecified, rContainerType = kTLVType_NotSpecified, rContainerOpen = False,
       rImplicitProfileId = kProfileIdNotSpecified\<rparr>)"

text \<open>With a backing store the first buffer is the answer of \<open>OnInit\<close>; it is not cut to the maximal length.\<close>

definition Reader_InitStore :: "bytes result \<Rightarrow> (nat \<Rightarrow> storeAnswer result) \<Rightarrow> u32 \<Rightarrow> TLVReader result" where
  "Reader_InitStore onInit store maxLen =
     rbind onInit (\<lambda>buf. Inr
      \<lparr>mElemTag = AnonymousTag, mElemLenOrVal = 0, rStore = Some store, rCalls = 0, rBuf = buf, rNull = False, mLenRead = 0, rMaxLen = maxLen,
       mControlByte = kTLVControlByte_NotSpecified, rContainerType = kTLVType_NotSpecified, rContainerOpen = False,
       rImplicitProfileId = kProfileIdNotSpecified\<rparr>)"

definition ElementType :: "TLVReader \<Rightarrow> TLVElementType" where
  "ElementType r =
     (if mControlByte r = kTLVControlByte_NotSpecified then Elem_NotSpecified else uint (mControlByte r AND 0x1F))"

definition GetType :: "TLVReader \<Rightarrow> TLVType" where
  "GetType r =
     (let e = ElementType r in
      if e = Elem_EndOfContainer then kTLVType_NotSpecified
      else if e = Elem_FloatingPointNumber32 \<or> e = Elem_FloatingPointNumber64 then kTLVType_FloatingPointNumber
      else if e = Elem_NotSpecified \<or> e \<ge> Elem_Null then e
      else e - e mod 4)"

definition GetLength :: "TLVReader \<Rightarrow> u32" where
  "GetLength r = (if TLVTypeHasLength (ElementType r) then ucast (mElemLenOrVal r) else 0)"

section \<open>Bytes\<close>

definition EnsureData :: "chip_error \<Rightarrow> TLVReader \<Rightarrow> rResult" where
  "EnsureData noDataErr r =
     (if rNull r \<or> rBuf r \<noteq> [] then (None, r)
      else if mLenRead r = rMaxLen r then (Some noDataErr, r)
      else (case rStore r of
              None \<Rightarrow> (Some noDataErr, r)
            | Some store \<Rightarrow>
                (let r' = r\<lparr>rCalls := rCalls r + 1\<rparr> in
                 case store (rCalls r) of
                   Inl e \<Rightarrow> (Some e, r')
                 | Inr StoreNull \<Rightarrow> (Some noDataErr, r'\<lparr>rNull := True\<rparr>)
                 | Inr (StoreBytes buf) \<Rightarrow>
                     if buf = [] then (Some noDataErr, r')
                     else (None, r'\<lparr>rBuf := take (unat (rMaxLen r - mLenRead r)) buf\<rparr>))))"

definition advance :: "nat \<Rightarrow> TLVReader \<Rightarrow> TLVReader" where
  "advance n r = r\<lparr>rBuf := drop n (rBuf r), mLenRead := mLenRead r + of_nat n\<rparr>"

lemma EnsureData_nonempty:
  assumes "EnsureData e r = (None, r')" "\<not> rNull r'"
  shows "rBuf r' \<noteq> []"
proof -
  have "unat (rMaxLen r - mLenRead r) \<noteq> 0" if "mLenRead r \<noteq> rMaxLen r" using that by (simp add: unat_eq_0)
  then show ?thesis using assms by (auto simp: EnsureData_def Let_def split: if_splits option.splits sum.splits storeAnswer.splits)
qed

text \<open>Reading through the null pointer is undefined behaviour, the value \<open>DIE\<close> here.\<close>

function ReadData :: "nat \<Rightarrow> TLVReader \<Rightarrow> chip_error option \<times> bytes \<times> TLVReader" where
  "ReadData len r =
     (if len = 0 then (None, [], r)
      else (case EnsureData CHIP_ERROR_TLV_UNDERRUN r of
              (Some e, r) \<Rightarrow> (Some e, [], r)
            | (None, r) \<Rightarrow>
                if rNull r then (Some DIE, [], r) else
                let n = min len (length (rBuf r)) in
                (case ReadData (len - n) (advance n r) of (err, bs, r') \<Rightarrow> (err, take n (rBuf r) @ bs, r'))))"
  by pat_completeness auto
termination
proof (relation "measure fst")
  fix len and r r1 :: TLVReader and x n
  assume a: "len \<noteq> 0" "(x, r1) = EnsureData CHIP_ERROR_TLV_UNDERRUN r" "x = None" "\<not> rNull r1" "n = min len (length (rBuf r1))"
  then have "rBuf r1 \<noteq> []" using EnsureData_nonempty [of CHIP_ERROR_TLV_UNDERRUN r r1] by simp
  with a show "((len - n, advance n r1), (len, r)) \<in> measure fst" by simp
qed simp

declare ReadData.simps [simp del]

definition SkipData :: "TLVReader \<Rightarrow> rResult" where
  "SkipData r =
     (if TLVTypeHasLength (ElementType r)
      then (case ReadData (unat (ucast (mElemLenOrVal r) :: u32)) r of (err, _, r) \<Rightarrow> (err, r))
      else (None, r))"

section \<open>Elements\<close>

definition VerifyElement :: "TLVReader \<Rightarrow> chip_error option" where
  "VerifyElement r =
     (case (if ElementType r = Elem_EndOfContainer
            then (if rContainerType r = kTLVType_NotSpecified then Some CHIP_ERROR_INVALID_TLV_ELEMENT
                  else if mElemTag r \<noteq> AnonymousTag then Some CHIP_ERROR_INVALID_TLV_TAG else None)
            else if mElemTag r = UnknownImplicitTag then Some CHIP_ERROR_UNKNOWN_IMPLICIT_TLV_TAG
            else if rContainerType r = kTLVType_NotSpecified
            then (if IsContextTag (mElemTag r) then Some CHIP_ERROR_INVALID_TLV_TAG else None)
            else if rContainerType r = kTLVType_Structure
            then (if mElemTag r = AnonymousTag then Some CHIP_ERROR_INVALID_TLV_TAG else None)
            else if rContainerType r = kTLVType_Array
            then (if mElemTag r \<noteq> AnonymousTag then Some CHIP_ERROR_INVALID_TLV_TAG else None)
            else if rContainerType r = kTLVType_UnknownContainer \<or> rContainerType r = kTLVType_List then None
            else Some CHIP_ERROR_INCORRECT_STATE) of
        Some e \<Rightarrow> Some e
      | None \<Rightarrow>
          if TLVTypeHasLength (ElementType r) \<and> rMaxLen r - mLenRead r < ucast (mElemLenOrVal r) then Some CHIP_ERROR_TLV_UNDERRUN
          else None)"

text \<open>The tag control, the number of tag bytes and of value bytes, and the length of the head, from a control byte.\<close>

definition tagControlOf :: "u8 \<Rightarrow> u8" where
  "tagControlOf c = c AND 0xE0"

definition tagBytesOf :: "u8 \<Rightarrow> nat" where
  "tagBytesOf c = sTagSizes ! unat (drop_bit 5 (tagControlOf c))"

definition valueBytesOf :: "u8 \<Rightarrow> nat" where
  "valueBytesOf c = TLVFieldSizeToBytes (GetTLVFieldSize (uint (c AND 0x1F)))"

definition parseHead :: "bytes \<Rightarrow> TLVReader \<Rightarrow> rResult" where
  "parseHead h r =
     (let c = hd h; p = tl h; v = le_word (take (valueBytesOf c) (drop (tagBytesOf c) p));
          r = r\<lparr>mElemTag := ReadTag (rImplicitProfileId r) (tagControlOf c) p, mElemLenOrVal := v\<rparr>
      in if GetTLVFieldSize (ElementType r) = 3 \<and> TLVTypeHasLength (ElementType r) \<and> v > 0xFFFFFFFF
         then (Some CHIP_ERROR_NOT_IMPLEMENTED, r) else (VerifyElement r, r))"

definition ReadElement :: "TLVReader \<Rightarrow> rResult" where
  "ReadElement r =
     (case EnsureData CHIP_END_OF_TLV r of
        (Some e, r) \<Rightarrow> (Some e, r)
      | (None, r) \<Rightarrow>
          if rNull r then (Some CHIP_ERROR_INVALID_TLV_ELEMENT, r) else
          let c = hd (rBuf r); r = r\<lparr>mControlByte := ucast c\<rparr>; n = 1 + tagBytesOf c + valueBytesOf c in
          if \<not> IsValidTLVType (ElementType r) then (Some CHIP_ERROR_INVALID_TLV_ELEMENT, r)
          else if n > length (rBuf r)
          then (case ReadData n r of (Some e, _, r) \<Rightarrow> (Some e, r) | (None, h, r) \<Rightarrow> parseHead h r)
          else parseHead (take n (rBuf r)) (advance n r))"

text \<open>
  The loop of \<open>SkipToEndOfContainer\<close>; \<open>skipNest\<close> is the change of the nesting level and the container type on a turn.  The level is a
  natural number: the code's 32-bit counter does not overflow, since each level takes a byte of an encoding of less than \<open>2^32\<close> bytes.
\<close>

definition skipNest :: "TLVType \<Rightarrow> nat \<Rightarrow> TLVReader \<Rightarrow> nat \<times> TLVReader" where
  "skipNest outerType nestLevel r =
     (if ElementType r = Elem_EndOfContainer
      then (nestLevel - 1, r\<lparr>rContainerType := (if nestLevel - 1 = 0 then outerType else kTLVType_UnknownContainer)\<rparr>)
      else if TLVTypeIsContainer (ElementType r) then (nestLevel + 1, r\<lparr>rContainerType := ElementType r\<rparr>)
      else (nestLevel, r))"

partial_function (option) skipLoop :: "TLVType \<Rightarrow> nat \<Rightarrow> TLVReader \<Rightarrow> rResult option" where
  "skipLoop outerType nestLevel r =
     (if ElementType r = Elem_EndOfContainer \<and> nestLevel = 0 then Some (None, r)
      else
        (case skipNest outerType nestLevel r of (nestLevel', r1) \<Rightarrow>
           (case SkipData r1 of
              (Some e, r2) \<Rightarrow> Some (Some e, r2)
            | (None, r2) \<Rightarrow>
                (case ReadElement r2 of
                   (Some e, r3) \<Rightarrow> Some (Some e, r3)
                 | (None, r3) \<Rightarrow> skipLoop outerType nestLevel' r3))))"

definition SkipToEndOfContainer :: "TLVReader \<Rightarrow> rResult option" where
  "SkipToEndOfContainer r = skipLoop (rContainerType r) 0 (r\<lparr>rContainerOpen := False\<rparr>)"

definition rThen :: "(chip_error option \<times> 'r) option \<Rightarrow> ('r \<Rightarrow> (chip_error option \<times> 'r) option) \<Rightarrow> (chip_error option \<times> 'r) option" where
  "rThen m k = (case m of None \<Rightarrow> None | Some (None, r) \<Rightarrow> k r | Some (Some e, r) \<Rightarrow> Some (Some e, r))"

definition EnterContainer :: "TLVReader \<Rightarrow> chip_error option \<times> TLVType \<times> TLVReader" where
  "EnterContainer r =
     (if \<not> TLVTypeIsContainer (ElementType r) then (Some CHIP_ERROR_INCORRECT_STATE, rContainerType r, r)
      else (None, rContainerType r, (ClearElementState (r\<lparr>rContainerType := ElementType r\<rparr>))\<lparr>rContainerOpen := False\<rparr>))"

definition ExitContainer :: "TLVType \<Rightarrow> TLVReader \<Rightarrow> rResult option" where
  "ExitContainer outerContainerType r =
     rThen (SkipToEndOfContainer r) (\<lambda>r. Some (None, ClearElementState (r\<lparr>rContainerType := outerContainerType\<rparr>)))"

definition Reader_OpenContainer :: "TLVReader \<Rightarrow> chip_error option \<times> TLVReader option \<times> TLVReader" where
  "Reader_OpenContainer r =
     (if \<not> TLVTypeIsContainer (ElementType r) then (Some CHIP_ERROR_INCORRECT_STATE, None, r)
      else (None, Some ((ClearElementState r)\<lparr>rContainerType := ElementType r, rContainerOpen := False\<rparr>), r\<lparr>rContainerOpen := True\<rparr>))"

text \<open>\<open>CloseContainer\<close> changes the container reader too; both share the backing store, so its calls count for both.\<close>

definition Reader_CloseContainer :: "TLVReader \<Rightarrow> TLVReader \<Rightarrow> (chip_error option \<times> TLVReader \<times> TLVReader) option" where
  "Reader_CloseContainer containerReader r =
     (if \<not> rContainerOpen r \<or> rContainerType containerReader \<noteq> ElementType r then Some (Some CHIP_ERROR_INCORRECT_STATE, containerReader, r)
      else map_option (\<lambda>(err, c).
             if err \<noteq> None then (err, c, r\<lparr>rCalls := rCalls c\<rparr>)
             else (None, c, ClearElementState (r\<lparr>rStore := rStore c, rCalls := rCalls c, rBuf := rBuf c, rNull := rNull c,
                                                mLenRead := mLenRead c, rMaxLen := rMaxLen c\<rparr>)))
           (SkipToEndOfContainer containerReader))"

definition Reader_Skip :: "TLVReader \<Rightarrow> rResult option" where
  "Reader_Skip r =
     (let elemType = ElementType r in
      if elemType = Elem_EndOfContainer then Some (Some CHIP_END_OF_TLV, r)
      else if TLVTypeIsContainer elemType
      then (case EnterContainer r of (Some e, _, r) \<Rightarrow> Some (Some e, r) | (None, outer, r) \<Rightarrow> ExitContainer outer r)
      else (case SkipData r of (Some e, r) \<Rightarrow> Some (Some e, r) | (None, r) \<Rightarrow> Some (None, ClearElementState r)))"

definition Next :: "TLVReader \<Rightarrow> rResult option" where
  "Next r =
     rThen (Reader_Skip r) (\<lambda>r.
     rThen (Some (ReadElement r)) (\<lambda>r.
     if ElementType r = Elem_EndOfContainer then Some (Some CHIP_END_OF_TLV, r)
     else if TLVTypeIsString (ElementType r) \<and> GetLength r \<noteq> 0 then Some (EnsureData CHIP_ERROR_TLV_UNDERRUN r)
     else Some (None, r)))"

definition NextTag :: "Tag \<Rightarrow> TLVReader \<Rightarrow> rResult option" where
  "NextTag expectedTag r =
     rThen (Next r) (\<lambda>r. Some (if mElemTag r \<noteq> expectedTag then Some CHIP_ERROR_UNEXPECTED_TLV_ELEMENT else None, r))"

definition NextTypeTag :: "TLVType \<Rightarrow> Tag \<Rightarrow> TLVReader \<Rightarrow> rResult option" where
  "NextTypeTag expectedType expectedTag r =
     rThen (NextTag expectedTag r) (\<lambda>r. Some (if GetType r \<noteq> expectedType then Some CHIP_ERROR_WRONG_TLV_TYPE else None, r))"

definition VerifyEndOfContainer :: "TLVReader \<Rightarrow> rResult option" where
  "VerifyEndOfContainer r =
     map_option (\<lambda>(err, r). (if err = Some CHIP_END_OF_TLV then None
                             else if err = None then Some CHIP_ERROR_UNEXPECTED_TLV_ELEMENT else err, r)) (Next r)"

text \<open>
  The loops over the elements that follow in the container.  They run on a copy of the reader, which shares the backing store with
  the original: the original sees the calls made.
\<close>

partial_function (option) findLoop :: "Tag \<Rightarrow> TLVReader \<Rightarrow> rResult option" where
  "findLoop tag r =
     (case Next r of
        None \<Rightarrow> None
      | Some (Some e, r) \<Rightarrow> Some (Some e, r)
      | Some (None, r) \<Rightarrow>
          if GetType r = kTLVType_NotSpecified then Some (Some CHIP_ERROR_INVALID_TLV_ELEMENT, r)
          else if tag = mElemTag r then Some (None, r) else findLoop tag r)"

definition FindElementWithTag :: "Tag \<Rightarrow> TLVReader \<Rightarrow> (TLVReader result \<times> TLVReader) option" where
  "FindElementWithTag tag r =
     map_option (\<lambda>(err, c). (case err of Some e \<Rightarrow> Inl e | None \<Rightarrow> Inr c, r\<lparr>rCalls := rCalls c\<rparr>)) (findLoop tag r)"

partial_function (option) countLoop :: "nat \<Rightarrow> TLVReader \<Rightarrow> (nat result \<times> TLVReader) option" where
  "countLoop count r =
     (case Next r of
        None \<Rightarrow> None
      | Some (Some e, r) \<Rightarrow> Some (if e = CHIP_END_OF_TLV then Inr count else Inl e, r)
      | Some (None, r) \<Rightarrow> countLoop (count + 1) r)"

definition CountRemainingInContainer :: "TLVReader \<Rightarrow> (nat result \<times> TLVReader) option" where
  "CountRemainingInContainer r =
     (if rContainerType r = kTLVType_NotSpecified then Some (Inl CHIP_ERROR_INCORRECT_STATE, r)
      else map_option (\<lambda>(res, c). (res, r\<lparr>rCalls := rCalls c\<rparr>)) (countLoop 0 r))"

definition GetElementHeadLength :: "TLVReader \<Rightarrow> nat result" where
  "GetElementHeadLength r =
     verify (IsValidTLVType (ElementType r)) CHIP_ERROR_INVALID_TLV_ELEMENT
       (Inr (1 + sTagSizes ! unat (drop_bit 5 (mControlByte r AND 0xE0)) + TLVFieldSizeToBytes (GetTLVFieldSize (ElementType r))))"

section \<open>Values\<close>

text \<open>The \<open>Get\<close> functions: the argument \<open>v\<close> is the variable passed by reference, whose value is returned with the error.\<close>

definition Get_bool :: "TLVReader \<Rightarrow> bool \<Rightarrow> chip_error option \<times> bool" where
  "Get_bool r v =
     (if ElementType r = Elem_BooleanFalse then (None, False)
      else if ElementType r = Elem_BooleanTrue then (None, True)
      else (Some CHIP_ERROR_WRONG_TLV_TYPE, v))"

definition Get_int64 :: "TLVReader \<Rightarrow> int \<Rightarrow> chip_error option \<times> int" where
  "Get_int64 r v =
     (let x = mElemLenOrVal r in
      if ElementType r = Elem_Int8 then (None, sint (ucast x :: u8))
      else if ElementType r = Elem_Int16 then (None, sint (ucast x :: u16))
      else if ElementType r = Elem_Int32 then (None, sint (ucast x :: u32))
      else if ElementType r = Elem_Int64 then (None, sint x)
      else (Some CHIP_ERROR_WRONG_TLV_TYPE, v))"

definition getSigned :: "nat \<Rightarrow> TLVReader \<Rightarrow> int \<Rightarrow> chip_error option \<times> int" where
  "getSigned w r v =
     (case Get_int64 r 0 of (err, v64) \<Rightarrow>
        if - (2 ^ (w - 1)) \<le> v64 \<and> v64 < 2 ^ (w - 1) then (err, v64) else (Some CHIP_ERROR_INVALID_INTEGER_VALUE, v))"

definition Get_int8 :: "TLVReader \<Rightarrow> int \<Rightarrow> chip_error option \<times> int" where "Get_int8 = getSigned 8"
definition Get_int16 :: "TLVReader \<Rightarrow> int \<Rightarrow> chip_error option \<times> int" where "Get_int16 = getSigned 16"
definition Get_int32 :: "TLVReader \<Rightarrow> int \<Rightarrow> chip_error option \<times> int" where "Get_int32 = getSigned 32"

definition Get_uint64 :: "TLVReader \<Rightarrow> u64 \<Rightarrow> chip_error option \<times> u64" where
  "Get_uint64 r v =
     (if ElementType r = Elem_UInt8 \<or> ElementType r = Elem_UInt16 \<or> ElementType r = Elem_UInt32 \<or> ElementType r = Elem_UInt64
      then (None, mElemLenOrVal r) else (Some CHIP_ERROR_WRONG_TLV_TYPE, v))"

definition getUnsigned :: "nat \<Rightarrow> TLVReader \<Rightarrow> u64 \<Rightarrow> chip_error option \<times> u64" where
  "getUnsigned w r v =
     (case Get_uint64 r 0 of (err, v64) \<Rightarrow>
        if unat v64 < 2 ^ w then (err, v64) else (Some CHIP_ERROR_INVALID_INTEGER_VALUE, v))"

definition Get_uint8 :: "TLVReader \<Rightarrow> u64 \<Rightarrow> chip_error option \<times> u64" where "Get_uint8 = getUnsigned 8"
definition Get_uint16 :: "TLVReader \<Rightarrow> u64 \<Rightarrow> chip_error option \<times> u64" where "Get_uint16 = getUnsigned 16"
definition Get_uint32 :: "TLVReader \<Rightarrow> u64 \<Rightarrow> chip_error option \<times> u64" where "Get_uint32 = getUnsigned 32"

text \<open>A floating-point number is known by its bits; one read into a \<open>double\<close> is the number of the 32 or of the 64 bits stored.\<close>

datatype floating = FloatBits u32 | DoubleBits u64

definition Get_float :: "TLVReader \<Rightarrow> u32 \<Rightarrow> chip_error option \<times> u32" where
  "Get_float r v =
     (if ElementType r = Elem_FloatingPointNumber32 then (None, ucast (mElemLenOrVal r)) else (Some CHIP_ERROR_WRONG_TLV_TYPE, v))"

definition Get_double :: "TLVReader \<Rightarrow> floating \<Rightarrow> chip_error option \<times> floating" where
  "Get_double r v =
     (if ElementType r = Elem_FloatingPointNumber32 then (None, FloatBits (ucast (mElemLenOrVal r)))
      else if ElementType r = Elem_FloatingPointNumber64 then (None, DoubleBits (mElemLenOrVal r))
      else (Some CHIP_ERROR_WRONG_TLV_TYPE, v))"

text \<open>\<open>GetDataPtr\<close>: the bytes from the pointer on, or \<open>None\<close> for the null pointer of an empty string.\<close>

definition GetDataPtr :: "TLVReader \<Rightarrow> bytes option result" where
  "GetDataPtr r =
     verify (TLVTypeIsString (ElementType r)) CHIP_ERROR_WRONG_TLV_TYPE
       (if GetLength r = 0 then Inr None
        else verify (length (rBuf r) \<ge> unat (ucast (mElemLenOrVal r) :: u32)) CHIP_ERROR_TLV_UNDERRUN (Inr (Some (rBuf r))))"

definition Get_ByteSpan :: "TLVReader \<Rightarrow> bytes \<Rightarrow> chip_error option \<times> bytes" where
  "Get_ByteSpan r v =
     (case GetDataPtr r of
        Inl e \<Rightarrow> (Some e, v)
      | Inr None \<Rightarrow> (None, [])
      | Inr (Some p) \<Rightarrow> (None, take (unat (GetLength r)) p))"

definition kUnicodeInformationSeparator1 :: u8 where "kUnicodeInformationSeparator1 = 0x1F"

definition Get_CharSpan :: "TLVReader \<Rightarrow> bytes \<Rightarrow> chip_error option \<times> bytes" where
  "Get_CharSpan r v =
     (if \<not> TLVTypeIsUTF8String (ElementType r) then (Some CHIP_ERROR_WRONG_TLV_TYPE, v)
      else (case GetDataPtr r of
              Inl e \<Rightarrow> (Some e, v)
            | Inr None \<Rightarrow> (None, v)
            | Inr (Some p) \<Rightarrow> (None, takeWhile (\<lambda>b. b \<noteq> kUnicodeInformationSeparator1) (take (unat (GetLength r)) p))))"

definition GetByteView :: "TLVReader \<Rightarrow> bytes \<Rightarrow> chip_error option \<times> bytes" where
  "GetByteView r v = (if \<not> TLVTypeIsByteString (ElementType r) then (Some CHIP_ERROR_WRONG_TLV_TYPE, v) else Get_ByteSpan r v)"

text \<open>Upper-case hexadecimal digits, \<^verbatim>\<open>src/lib/support/BytesToHex.cpp\<close>.\<close>

definition asciiHexDigit :: "u8 \<Rightarrow> u8 option" where
  "asciiHexDigit c =
     (if 0x30 \<le> c \<and> c \<le> 0x39 then Some (c - 0x30) else if 0x41 \<le> c \<and> c \<le> 0x46 then Some (c - 0x41 + 0xA) else None)"

definition MakeU8FromAsciiHex :: "u8 \<Rightarrow> u8 \<Rightarrow> u8 result" where
  "MakeU8FromAsciiHex a b =
     (case asciiHexDigit a of
        None \<Rightarrow> Inl CHIP_ERROR_INVALID_ARGUMENT
      | Some x \<Rightarrow> (case asciiHexDigit b of None \<Rightarrow> Inl CHIP_ERROR_INVALID_ARGUMENT | Some y \<Rightarrow> Inr (push_bit 4 x + y)))"

definition UppercaseHexToUint16 :: "bytes \<Rightarrow> u16 option" where
  "UppercaseHexToUint16 s =
     (case s of
        [a, b, c, d] \<Rightarrow>
          (case (MakeU8FromAsciiHex a b, MakeU8FromAsciiHex c d) of
             (Inr hi, Inr lo) \<Rightarrow> Some (push_bit 8 (ucast hi) OR ucast lo)
           | _ \<Rightarrow> None)
      | _ \<Rightarrow> None)"

text \<open>The identifier of a localised string, the part of the string between the first two separators.\<close>

definition Get_LocalizedStringIdentifier :: "TLVReader \<Rightarrow> chip_error option \<times> u16 option" where
  "Get_LocalizedStringIdentifier r =
     (if \<not> TLVTypeIsUTF8String (ElementType r) then (Some CHIP_ERROR_WRONG_TLV_TYPE, None)
      else (case GetDataPtr r of
              Inl e \<Rightarrow> (Some e, None)
            | Inr None \<Rightarrow> (None, None)
            | Inr (Some p) \<Rightarrow>
                (case dropWhile (\<lambda>b. b \<noteq> kUnicodeInformationSeparator1) (take (unat (GetLength r)) p) of
                   [] \<Rightarrow> (None, None)
                 | _ # rest \<Rightarrow>
                     let l = takeWhile (\<lambda>b. b \<noteq> kUnicodeInformationSeparator1) rest in
                     if l = [] then (None, None)
                     else if length l > 4 \<or> hd l = 0x30 then (Some CHIP_ERROR_INVALID_TLV_ELEMENT, None)
                     else (case UppercaseHexToUint16 (replicate (4 - length l) 0x30 @ l) of
                             None \<Rightarrow> (Some CHIP_ERROR_INVALID_TLV_ELEMENT, None)
                           | Some i \<Rightarrow> (None, Some i)))))"

text \<open>
  Copying the data out.  The bytes returned are those stored at the start of the buffer; \<open>GetString\<close> and \<open>DupString\<close> also store
  a zero after the data.  \<open>alloc\<close> says whether \<open>MemoryAlloc\<close> gives memory of that size.
\<close>

definition GetBytes :: "nat \<Rightarrow> TLVReader \<Rightarrow> chip_error option \<times> bytes \<times> TLVReader" where
  "GetBytes bufSize r =
     (if \<not> TLVTypeIsString (ElementType r) then (Some CHIP_ERROR_WRONG_TLV_TYPE, [], r)
      else if unat (mElemLenOrVal r) > bufSize then (Some CHIP_ERROR_BUFFER_TOO_SMALL, [], r)
      else (case ReadData (unat (ucast (mElemLenOrVal r) :: u32)) r of
              (Some e, bs, r) \<Rightarrow> (Some e, bs, r)
            | (None, bs, r) \<Rightarrow> (None, bs, r\<lparr>mElemLenOrVal := 0\<rparr>)))"

definition GetString :: "nat \<Rightarrow> TLVReader \<Rightarrow> chip_error option \<times> bytes \<times> TLVReader" where
  "GetString bufSize r =
     (if \<not> TLVTypeIsString (ElementType r) then (Some CHIP_ERROR_WRONG_TLV_TYPE, [], r)
      else if unat (mElemLenOrVal r + 1) > bufSize then (Some CHIP_ERROR_BUFFER_TOO_SMALL, [], r)
      else (case GetBytes (bufSize - 1) r of (err, bs, r) \<Rightarrow> (err, if err = None then bs @ [0] else bs, r)))"

definition DupBytes :: "(nat \<Rightarrow> bool) \<Rightarrow> TLVReader \<Rightarrow> bytes result \<times> TLVReader" where
  "DupBytes alloc r =
     (let n = unat (ucast (mElemLenOrVal r) :: u32) in
      if \<not> TLVTypeIsString (ElementType r) then (Inl CHIP_ERROR_WRONG_TLV_TYPE, r)
      else if \<not> alloc n then (Inl CHIP_ERROR_NO_MEMORY, r)
      else (case ReadData n r of (Some e, _, r) \<Rightarrow> (Inl e, r) | (None, bs, r) \<Rightarrow> (Inr bs, r\<lparr>mElemLenOrVal := 0\<rparr>)))"

definition DupString :: "(nat \<Rightarrow> bool) \<Rightarrow> TLVReader \<Rightarrow> bytes result \<times> TLVReader" where
  "DupString alloc r =
     (if \<not> TLVTypeIsString (ElementType r) then (Inl CHIP_ERROR_WRONG_TLV_TYPE, r)
      else if mElemLenOrVal r > 0xFFFFFFFE then (Inl CHIP_ERROR_NO_MEMORY, r)
      else if \<not> alloc (unat (mElemLenOrVal r) + 1) then (Inl CHIP_ERROR_NO_MEMORY, r)
      else (case ReadData (unat (mElemLenOrVal r)) r of
              (Some e, _, r) \<Rightarrow> (Inl e, r) | (None, bs, r) \<Rightarrow> (Inr (bs @ [0]), r\<lparr>mElemLenOrVal := 0\<rparr>)))"

section \<open>A reader of one buffer\<close>

text \<open>
  \<open>contig\<close>: no backing store, and the bytes read and the bytes left make up the whole.  \<open>reads r r'\<close>: \<open>r'\<close> is such a reader
  further on in the same buffer.
\<close>

definition contig :: "TLVReader \<Rightarrow> bool" where
  "contig r \<longleftrightarrow> rStore r = None \<and> \<not> rNull r \<and> unat (mLenRead r) + length (rBuf r) = unat (rMaxLen r)"

definition reads :: "TLVReader \<Rightarrow> TLVReader \<Rightarrow> bool" where
  "reads r r' \<longleftrightarrow> contig r' \<and> suffix (rBuf r') (rBuf r) \<and> rMaxLen r' = rMaxLen r"

lemma contig_Init [simp]: "contig (Reader_Init data)"
proof -
  have "unat (of_nat (min (length data) (2 ^ 32 - 1)) :: u32) = min (length data) (2 ^ 32 - 1)"
    by (simp add: unat_of_nat)
  then show ?thesis by (simp add: contig_def Reader_Init_def Let_def)
qed

lemma reads_refl [simp]: "reads r r \<longleftrightarrow> contig r"
  by (auto simp: reads_def)

lemma reads_trans [trans]: "reads r r' \<Longrightarrow> reads r' r'' \<Longrightarrow> reads r r''"
  by (auto simp: reads_def intro: suffix_order.trans)

lemma reads_contig: "reads r r' \<Longrightarrow> contig r'"
  by (simp add: reads_def)

lemma reads_length: "reads r r' \<Longrightarrow> length (rBuf r') \<le> length (rBuf r)"
  by (auto simp: reads_def dest: suffix_length_le)

lemma contig_frame [simp]:
  "contig (r\<lparr>mElemTag := t\<rparr>) = contig r" "contig (r\<lparr>mElemLenOrVal := v\<rparr>) = contig r" "contig (r\<lparr>mControlByte := c\<rparr>) = contig r"
  "contig (r\<lparr>rContainerType := ct\<rparr>) = contig r" "contig (r\<lparr>rContainerOpen := b\<rparr>) = contig r" "contig (r\<lparr>rCalls := k\<rparr>) = contig r"
  by (simp_all add: contig_def)

lemma reads_frame [simp]:
  "reads r (r'\<lparr>mElemTag := t\<rparr>) = reads r r'" "reads r (r'\<lparr>mElemLenOrVal := v\<rparr>) = reads r r'"
  "reads r (r'\<lparr>mControlByte := c\<rparr>) = reads r r'" "reads r (r'\<lparr>rContainerType := ct\<rparr>) = reads r r'"
  "reads r (r'\<lparr>rContainerOpen := b\<rparr>) = reads r r'" "reads r (ClearElementState r') = reads r r'"
  "reads r (r'\<lparr>rCalls := k\<rparr>) = reads r r'"
  by (simp_all add: reads_def ClearElementState_def)

lemma reads_frame_left [simp]:
  "reads (r\<lparr>mElemTag := t\<rparr>) r' = reads r r'" "reads (r\<lparr>mElemLenOrVal := v\<rparr>) r' = reads r r'"
  "reads (r\<lparr>mControlByte := c\<rparr>) r' = reads r r'" "reads (r\<lparr>rContainerType := ct\<rparr>) r' = reads r r'"
  "reads (r\<lparr>rContainerOpen := b\<rparr>) r' = reads r r'" "reads (ClearElementState r) r' = reads r r'"
  by (simp_all add: reads_def ClearElementState_def)

lemma EnsureData_contig: "contig r \<Longrightarrow> EnsureData e r = (if rBuf r = [] then Some e else None, r)"
  by (auto simp: EnsureData_def contig_def)

lemma unat_add_of_nat:
  fixes x m :: "'a::len word"
  assumes "unat x + n \<le> unat m"
  shows "unat (x + of_nat n) = unat x + n"
proof -
  have "unat x + n < 2 ^ LENGTH('a)" using assms unsigned_less [of m, where ?'a = nat] by linarith
  then show ?thesis by (simp add: unat_word_ariths unat_of_nat mod_simps)
qed

lemma reads_advance:
  assumes "contig r" "n \<le> length (rBuf r)"
  shows "reads r (advance n r)"
  using assms unat_add_of_nat [of "mLenRead r" n "rMaxLen r"] by (auto simp: reads_def contig_def advance_def suffix_drop)

lemma advance_zero [simp]: "advance 0 r = r"
  by (simp add: advance_def)

lemma advance_fields [simp]:
  "rBuf (advance n r) = drop n (rBuf r)" "mElemTag (advance n r) = mElemTag r" "mElemLenOrVal (advance n r) = mElemLenOrVal r"
  "mControlByte (advance n r) = mControlByte r" "rContainerType (advance n r) = rContainerType r"
  "rContainerOpen (advance n r) = rContainerOpen r" "rImplicitProfileId (advance n r) = rImplicitProfileId r" "rMaxLen (advance n r) = rMaxLen r"
  "rCalls (advance n r) = rCalls r" "mLenRead (advance n r) = mLenRead r + of_nat n" "rStore (advance n r) = rStore r" "rNull (advance n r) = rNull r"
  by (simp_all add: advance_def)

lemma ElementType_frame [simp]:
  "ElementType (advance n r) = ElementType r" "ElementType (r\<lparr>mElemTag := t\<rparr>) = ElementType r"
  "ElementType (r\<lparr>mElemLenOrVal := v\<rparr>) = ElementType r" "ElementType (r\<lparr>rContainerType := ct\<rparr>) = ElementType r"
  "ElementType (r\<lparr>rContainerOpen := b\<rparr>) = ElementType r" "ElementType (ClearElementState r) = Elem_NotSpecified"
  by (simp_all add: ElementType_def ClearElementState_def)

text \<open>On one buffer \<open>ReadData\<close> takes the bytes, or what is left when there are too few.\<close>

lemma ReadData_contig:
  assumes "contig r"
  shows "ReadData n r = (if n \<le> length (rBuf r) then (None, take n (rBuf r), advance n r)
                         else (Some CHIP_ERROR_TLV_UNDERRUN, rBuf r, advance (length (rBuf r)) r))"
proof -
  have e: "contig r \<Longrightarrow> rBuf r = [] \<Longrightarrow> n \<noteq> 0 \<Longrightarrow> ReadData n r = (Some CHIP_ERROR_TLV_UNDERRUN, [], r)" for n r
    by (simp add: ReadData.simps [of n r] EnsureData_contig)
  have z: "ReadData 0 r = (None, [], r)" for r by (simp add: ReadData.simps [of 0 r])
  have c: "contig (advance (min n (length (rBuf r))) r)" using reads_advance [OF assms] by (simp add: reads_def)
  show ?thesis
  proof (cases "n = 0 \<or> rBuf r = []")
    case True then show ?thesis using assms by (auto simp: z e)
  next
    case False
    then show ?thesis using assms c
      by (subst ReadData.simps) (auto simp: EnsureData_contig Let_def contig_def [of r] z e min_def)
  qed
qed

lemma SkipData_reads:
  assumes "contig r"
  shows "\<exists>err r'. SkipData r = (err, r') \<and> reads r r' \<and> ElementType r' = ElementType r \<and> rContainerType r' = rContainerType r"
  using assms by (auto simp: SkipData_def ReadData_contig reads_advance)

lemma parseHead_reads: "\<exists>err r'. parseHead h r = (err, r') \<and> (reads r0 r' \<longleftrightarrow> reads r0 r) \<and> rBuf r' = rBuf r"
  by (auto simp: parseHead_def Let_def)

lemma ReadElement_reads:
  assumes "contig r"
  shows "\<exists>err r'. ReadElement r = (err, r') \<and> reads r r' \<and> (err = None \<longrightarrow> length (rBuf r') < length (rBuf r))"
proof (cases "rBuf r")
  case Nil
  then show ?thesis using assms by (simp add: ReadElement_def EnsureData_contig)
next
  case (Cons c bs)
  define n where "n = 1 + tagBytesOf c + valueBytesOf c"
  define r1 where "r1 = r\<lparr>mControlByte := ucast c\<rparr>"
  have c1: "contig r1" "\<not> rNull r" using assms by (simp_all add: r1_def contig_def)
  have same: "rBuf r1 = rBuf r" "reads r r1" using assms by (simp_all add: r1_def)
  have adv: "reads r (advance (min n (length (rBuf r))) r1)"
    using reads_trans [OF same(2) reads_advance [OF c1(1)]] same(1) by simp
  have eq: "ReadElement r = (if \<not> IsValidTLVType (ElementType r1) then (Some CHIP_ERROR_INVALID_TLV_ELEMENT, r1)
        else if n > length (rBuf r) then (Some CHIP_ERROR_TLV_UNDERRUN, advance (length (rBuf r)) r1)
        else parseHead (take n (rBuf r)) (advance n r1))"
    using assms c1 Cons by (auto simp: ReadElement_def EnsureData_contig Let_def n_def r1_def ReadData_contig)
  show ?thesis
  proof (cases "n \<le> length (rBuf r)")
    case True
    obtain err r' where p: "parseHead (take n (rBuf r)) (advance n r1) = (err, r')" "reads r r' \<longleftrightarrow> reads r (advance n r1)" "rBuf r' = drop n (rBuf r)"
      using parseHead_reads [of "take n (rBuf r)" "advance n r1" r] same by auto
    have "n > 0" by (simp add: n_def)
    then show ?thesis using True adv same p Cons by (auto simp: eq min_absorb1)
  next
    case False
    then show ?thesis using adv same by (auto simp: eq min_absorb2)
  qed
qed

text \<open>Skipping to the end of a container ends, since every turn of the loop takes bytes.\<close>

lemma skipLoop_reads:
  assumes "contig r"
  shows "\<exists>err r'. skipLoop outer nest r = Some (err, r') \<and> reads r r' \<and> (err = None \<longrightarrow> ElementType r' = Elem_EndOfContainer)"
  using assms
proof (induction "length (rBuf r)" arbitrary: nest r rule: less_induct)
  case less
  obtain nest' r1 where n: "skipNest outer nest r = (nest', r1)" by fastforce
  then have r1: "reads r r1" using less.prems by (auto simp: skipNest_def split: if_splits)
  obtain e2 r2 where s: "SkipData r1 = (e2, r2)" "reads r1 r2" using SkipData_reads [OF reads_contig [OF r1]] by blast
  obtain e3 r3 where t: "ReadElement r2 = (e3, r3)" "reads r2 r3" "e3 = None \<longrightarrow> length (rBuf r3) < length (rBuf r2)"
    using ReadElement_reads [OF reads_contig [OF s(2)]] by blast
  have reach: "reads r r2" "reads r r3" using r1 s(2) t(2) by (blast intro: reads_trans)+
  show ?case
  proof (cases "(ElementType r = Elem_EndOfContainer \<and> nest = 0) \<or> e2 \<noteq> None \<or> e3 \<noteq> None")
    case True
    then show ?thesis using n s(1) t(1) reach less.prems by (subst skipLoop.simps) (auto split: option.splits)
  next
    case False
    then have "length (rBuf r3) < length (rBuf r)" using t(3) reads_length [OF reach(1)] by simp
    then obtain err r' where IH: "skipLoop outer nest' r3 = Some (err, r')" "reads r3 r'" "err = None \<longrightarrow> ElementType r' = Elem_EndOfContainer"
      using less.hyps [OF _ reads_contig [OF reach(2)], of nest'] by blast
    from False show ?thesis using n s(1) t(1) IH reads_trans [OF reach(2) IH(2)] by (subst skipLoop.simps) auto
  qed
qed

lemma SkipToEnd_reads:
  assumes "contig r"
  shows "\<exists>err r'. SkipToEndOfContainer r = Some (err, r') \<and> reads r r' \<and> (err = None \<longrightarrow> ElementType r' = Elem_EndOfContainer)"
  using assms skipLoop_reads [of "r\<lparr>rContainerOpen := False\<rparr>"] by (simp add: SkipToEndOfContainer_def)

lemma ExitContainer_reads:
  assumes "contig r"
  shows "\<exists>err r'. ExitContainer outer r = Some (err, r') \<and> reads r r'"
proof -
  obtain err r1 where "SkipToEndOfContainer r = Some (err, r1)" "reads r r1" using SkipToEnd_reads [OF assms] by blast
  then show ?thesis by (cases err) (auto simp: ExitContainer_def rThen_def)
qed

lemma Skip_reads:
  assumes "contig r"
  shows "\<exists>err r'. Reader_Skip r = Some (err, r') \<and> reads r r'"
proof (cases "TLVTypeIsContainer (ElementType r)")
  case True
  define r1 where "r1 = (ClearElementState (r\<lparr>rContainerType := ElementType r\<rparr>))\<lparr>rContainerOpen := False\<rparr>"
  have "reads r r1" using assms by (simp add: r1_def)
  moreover obtain err r' where "ExitContainer (rContainerType r) r1 = Some (err, r')" "reads r1 r'"
    using ExitContainer_reads [OF reads_contig [OF \<open>reads r r1\<close>]] by blast
  ultimately show ?thesis using assms True reads_trans by (auto simp: Reader_Skip_def Let_def EnterContainer_def r1_def)
next
  case False
  then show ?thesis using assms SkipData_reads [OF assms] by (auto simp: Reader_Skip_def Let_def split: option.splits)
qed

lemma Next_reads:
  assumes "contig r"
  shows "\<exists>err r'. Next r = Some (err, r') \<and> reads r r' \<and> (err = None \<longrightarrow> length (rBuf r') < length (rBuf r))"
proof -
  obtain e1 r1 where 1: "Reader_Skip r = Some (e1, r1)" "reads r r1" using Skip_reads [OF assms] by blast
  obtain e2 r2 where 2: "ReadElement r1 = (e2, r2)" "reads r1 r2" "e2 = None \<longrightarrow> length (rBuf r2) < length (rBuf r1)"
    using ReadElement_reads [OF reads_contig [OF 1(2)]] by blast
  have "reads r r2" "e2 = None \<longrightarrow> length (rBuf r2) < length (rBuf r)"
    using 1(2) 2(2,3) reads_trans reads_length [OF 1(2)] by fastforce+
  with 1 2 show ?thesis
    by (cases e1; cases e2) (auto simp: Next_def rThen_def EnsureData_contig reads_contig)
qed

lemma findLoop_reads:
  assumes "contig r"
  shows "\<exists>err r'. findLoop tag r = Some (err, r') \<and> reads r r'"
  using assms
proof (induction "length (rBuf r)" arbitrary: r rule: less_induct)
  case less
  obtain err r1 where n: "Next r = Some (err, r1)" "reads r r1" "err = None \<longrightarrow> length (rBuf r1) < length (rBuf r)"
    using Next_reads [OF less.prems] by blast
  then have "err = None \<Longrightarrow> \<exists>err r'. findLoop tag r1 = Some (err, r') \<and> reads r1 r'" using less.hyps reads_contig by blast
  with n show ?case by (subst findLoop.simps) (cases err; auto intro: reads_trans)
qed

lemma countLoop_total:
  assumes "contig r"
  shows "\<exists>res r'. countLoop n r = Some (res, r') \<and> reads r r'"
  using assms
proof (induction "length (rBuf r)" arbitrary: n r rule: less_induct)
  case less
  obtain err r1 where n: "Next r = Some (err, r1)" "reads r r1" "err = None \<longrightarrow> length (rBuf r1) < length (rBuf r)"
    using Next_reads [OF less.prems] by blast
  then have "err = None \<Longrightarrow> \<exists>res r'. countLoop (n + 1) r1 = Some (res, r') \<and> reads r1 r'" using less.hyps reads_contig by blast
  with n show ?case by (subst countLoop.simps) (cases err; auto intro: reads_trans)
qed

section \<open>Sessions of operations\<close>

text \<open>The operations a program performs on a reader, with a container reader opened and closed around operations of its own.\<close>

datatype readerOp = OpNext | OpNextTag Tag | OpNextTypeTag TLVType Tag | OpSkip | OpEnter | OpExit TLVType | OpVerifyEnd
  | OpGetBytes nat | OpGetString nat | OpDupBytes "nat \<Rightarrow> bool" | OpDupString "nat \<Rightarrow> bool" | OpFind Tag | OpCount | OpWithin "readerOp list"

fun readerStep :: "readerOp \<Rightarrow> TLVReader \<Rightarrow> TLVReader option" and readerSteps :: "readerOp list \<Rightarrow> TLVReader \<Rightarrow> TLVReader option" where
  "readerStep OpNext r = map_option snd (Next r)"
| "readerStep (OpNextTag t) r = map_option snd (NextTag t r)"
| "readerStep (OpNextTypeTag ty t) r = map_option snd (NextTypeTag ty t r)"
| "readerStep OpSkip r = map_option snd (Reader_Skip r)"
| "readerStep OpEnter r = Some (snd (snd (EnterContainer r)))"
| "readerStep (OpExit ct) r = map_option snd (ExitContainer ct r)"
| "readerStep OpVerifyEnd r = map_option snd (VerifyEndOfContainer r)"
| "readerStep (OpGetBytes n) r = Some (snd (snd (GetBytes n r)))"
| "readerStep (OpGetString n) r = Some (snd (snd (GetString n r)))"
| "readerStep (OpDupBytes a) r = Some (snd (DupBytes a r))"
| "readerStep (OpDupString a) r = Some (snd (DupString a r))"
| "readerStep (OpFind t) r = map_option (\<lambda>(res, r'). case res of Inl _ \<Rightarrow> r' | Inr d \<Rightarrow> d) (FindElementWithTag t r)"
| "readerStep OpCount r = map_option snd (CountRemainingInContainer r)"
| "readerStep (OpWithin ops) r =
     (case Reader_OpenContainer r of
        (_, None, r) \<Rightarrow> Some r
      | (_, Some c, r) \<Rightarrow>
          (case readerSteps ops c of None \<Rightarrow> None | Some c \<Rightarrow> map_option (\<lambda>(_, _, r). r) (Reader_CloseContainer c r)))"
| "readerSteps [] r = Some r"
| "readerSteps (op # ops) r = (case readerStep op r of None \<Rightarrow> None | Some r \<Rightarrow> readerSteps ops r)"

lemma getters_read:
  assumes "contig r"
  shows "reads r (snd (snd (GetBytes n r)))" "reads r (snd (snd (GetString n r)))" "reads r (snd (DupBytes a r))" "reads r (snd (DupString a r))"
proof -
  show b: "reads r (snd (snd (GetBytes n r)))" for n
    using assms by (auto simp: GetBytes_def ReadData_contig reads_advance)
  show "reads r (snd (snd (GetString n r)))" using assms b [of "n - 1"] by (auto simp: GetString_def split: prod.splits)
  show "reads r (snd (DupBytes a r))" "reads r (snd (DupString a r))"
    using assms by (auto simp: DupBytes_def DupString_def Let_def ReadData_contig reads_advance)
qed

lemma CloseContainer_reads:
  assumes "contig r" "reads r c"
  shows "\<exists>err c' r'. Reader_CloseContainer c r = Some (err, c', r') \<and> reads r r'"
proof -
  obtain err c' where s: "SkipToEndOfContainer c = Some (err, c')" "reads c c'" using SkipToEnd_reads [OF reads_contig [OF assms(2)]] by blast
  then have "reads r c'" using assms(2) reads_trans by blast
  then show ?thesis using s(1) assms(1) by (cases err) (auto simp: Reader_CloseContainer_def reads_def contig_def ClearElementState_def)
qed

lemma returns_map: "\<exists>err r'. m = Some (err, r') \<and> reads r r' \<Longrightarrow> \<exists>r'. map_option snd m = Some r' \<and> reads r r'"
  by auto

lemma Next_returns: "contig r \<Longrightarrow> \<exists>err r'. Next r = Some (err, r') \<and> reads r r'"
  using Next_reads by blast

lemma NextTag_returns: "contig r \<Longrightarrow> \<exists>err r'. NextTag t r = Some (err, r') \<and> reads r r'"
  using Next_returns [of r] by (auto simp: NextTag_def rThen_def split: option.splits)

lemma NextTypeTag_returns: "contig r \<Longrightarrow> \<exists>err r'. NextTypeTag ty t r = Some (err, r') \<and> reads r r'"
  using NextTag_returns [of r t] by (auto simp: NextTypeTag_def rThen_def split: option.splits)

lemma VerifyEnd_returns:
  assumes "contig r"
  shows "\<exists>err r'. VerifyEndOfContainer r = Some (err, r') \<and> reads r r'"
proof -
  obtain err r' where "Next r = Some (err, r')" "reads r r'" using Next_returns [OF assms] by blast
  then show ?thesis by (simp add: VerifyEndOfContainer_def)
qed

lemma Find_returns:
  assumes "contig r"
  shows "\<exists>r'. readerStep (OpFind t) r = Some r' \<and> reads r r'"
proof -
  obtain err c where "findLoop t r = Some (err, c)" "reads r c" using findLoop_reads [OF assms] by blast
  then show ?thesis using assms by (cases err) (simp_all add: FindElementWithTag_def)
qed

lemma Count_returns: "contig r \<Longrightarrow> \<exists>res r'. CountRemainingInContainer r = Some (res, r') \<and> reads r r'"
  using countLoop_total [of r 0] by (auto simp: CountRemainingInContainer_def)

lemma Enter_returns: "contig r \<Longrightarrow> reads r (snd (snd (EnterContainer r)))"
  by (simp add: EnterContainer_def)

lemma simple_step_reads:
  assumes "contig r" "\<And>ops. op \<noteq> OpWithin ops"
  shows "\<exists>r'. readerStep op r = Some r' \<and> reads r r'"
proof (cases op)
  case (OpFind t) then show ?thesis using Find_returns [OF assms(1)] by blast
next
  case OpCount
  obtain res r' where "CountRemainingInContainer r = Some (res, r')" "reads r r'" using Count_returns [OF assms(1)] by blast
  then show ?thesis using OpCount by simp
qed (use assms(2) returns_map [OF Next_returns [OF assms(1)]] returns_map [OF NextTag_returns [OF assms(1)]]
      returns_map [OF NextTypeTag_returns [OF assms(1)]] returns_map [OF Skip_reads [OF assms(1)]] returns_map [OF ExitContainer_reads [OF assms(1)]]
      returns_map [OF VerifyEnd_returns [OF assms(1)]] getters_read [OF assms(1)] Enter_returns [OF assms(1)] in simp_all)

lemma step_reads:
  "contig r \<Longrightarrow> \<exists>r'. readerStep op r = Some r' \<and> reads r r'"
  "contig r \<Longrightarrow> \<exists>r'. readerSteps ops r = Some r' \<and> reads r r'"
proof (induction op r and ops r rule: readerStep_readerSteps.induct)
  case (14 ops r)
  define c where "c = (ClearElementState r)\<lparr>rContainerType := ElementType r, rContainerOpen := False\<rparr>"
  have c: "reads r c" using 14(2) by (simp add: c_def)
  show ?case
  proof (cases "TLVTypeIsContainer (ElementType r)")
    case True
    then have o: "Reader_OpenContainer r = (None, Some c, r\<lparr>rContainerOpen := True\<rparr>)" by (simp add: Reader_OpenContainer_def c_def)
    obtain c' where c': "readerSteps ops c = Some c'" "reads c c'" using 14(1) [of None "(Some c, r\<lparr>rContainerOpen := True\<rparr>)"] o reads_contig [OF c] by auto
    have "reads (r\<lparr>rContainerOpen := True\<rparr>) c'" using reads_trans [OF c c'(2)] by simp
    from CloseContainer_reads [OF _ this] c'(1) o 14(2) show ?thesis by auto
  next
    case False
    then show ?thesis using 14(2) by (simp add: Reader_OpenContainer_def)
  qed
next
  case (16 op ops r)
  then obtain r1 where 1: "readerStep op r = Some r1" "reads r r1" by blast
  with 16(2) reads_contig obtain r2 where "readerSteps ops r1 = Some r2" "reads r1 r2" by blast
  with 1 show ?case by (auto intro: reads_trans)
qed (simp_all add: simple_step_reads del: readerStep.simps)

text \<open>
  C14.  The TLV reader is total and stays inside of its buffer.  On every sequence of bytes and for every sequence of operations (reading
  on, skipping, entering and leaving containers, searching, counting, copying data out, working on container readers) all
  operations return, and the bytes read and the bytes left always make up the buffer: what is left is an end piece of the data.
\<close>

theorem reader_total_in_bounds:
  "\<exists>r. readerSteps ops (Reader_Init data) = Some r \<and> suffix (rBuf r) (take (2 ^ 32 - 1) data) \<and>
       unat (mLenRead r) + length (rBuf r) = min (length data) (2 ^ 32 - 1)"
proof -
  obtain r where r: "readerSteps ops (Reader_Init data) = Some r" "reads (Reader_Init data) r"
    using step_reads(2) [OF contig_Init] by blast
  moreover have "take (min (length data) (2 ^ 32 - 1)) data = take (2 ^ 32 - 1) data" by (cases "length data \<le> 2 ^ 32 - 1") simp_all
  moreover have "unat (rMaxLen (Reader_Init data)) = min (length data) (2 ^ 32 - 1)"
    using contig_Init [of data] by (simp add: contig_def Reader_Init_def Let_def)
  ultimately show ?thesis by (simp add: reads_def contig_def Reader_Init_def Let_def)
qed

end
