(* ===== verification/Tlv_Writer.thy ===== *)
theory Tlv_Writer
  imports Tlv_Reader
begin

text \<open>
  The TLV writer, \<^verbatim>\<open>src/lib/core/TLVWriter.cpp\<close>.  The record holds the members of the class: \<open>wBuf\<close> are the bytes from \<open>mBufStart\<close>
  to \<open>mWritePoint\<close>, \<open>wDone\<close> the buffers already given back to the backing store.  The store is a parameter, its answers to
  \<open>FinalizeBuffer\<close> and \<open>GetNewBuffer\<close> in order.  Operations are option-valued, since a store that keeps giving empty buffers makes
  \<open>WriteData\<close> run forever.  The last section shows what an initialised writer of one buffer keeps true.
\<close>

unbundle bit_operations_syntax

section \<open>State\<close>

record writerStore =
  finalizeBuffer :: "nat \<Rightarrow> chip_error option"
  getNewBuffer :: "nat \<Rightarrow> u32 result"

record TLVWriter =
  wStore :: "writerStore option"
  wCalls :: nat
  wDone :: "bytes list"
  wBuf :: bytes
  mRemainingLen :: u32
  mLenWritten :: u32
  wMaxLen :: u32
  mReservedSize :: u32
  wContainerType :: TLVType
  wContainerOpen :: bool
  mCloseContainerReserved :: bool
  wImplicitProfileId :: u32

type_synonym wResult = "chip_error option \<times> TLVWriter"

definition Writer_Init :: "nat \<Rightarrow> TLVWriter" where
  "Writer_Init maxLen =
     (let n = of_nat (min maxLen (2 ^ 32 - 1)) in
      \<lparr>wStore = None, wCalls = 0, wDone = [], wBuf = [], mRemainingLen = n, mLenWritten = 0, wMaxLen = n, mReservedSize = 0,
       wContainerType = kTLVType_NotSpecified, wContainerOpen = False, mCloseContainerReserved = True,
       wImplicitProfileId = kProfileIdNotSpecified\<rparr>)"

definition Writer_InitStore :: "u32 result \<Rightarrow> writerStore \<Rightarrow> u32 \<Rightarrow> TLVWriter result" where
  "Writer_InitStore onInit store maxLen =
     rbind onInit (\<lambda>n. Inr
      \<lparr>wStore = Some store, wCalls = 0, wDone = [], wBuf = [], mRemainingLen = n, mLenWritten = 0, wMaxLen = maxLen, mReservedSize = 0,
       wContainerType = kTLVType_NotSpecified, wContainerOpen = False, mCloseContainerReserved = True,
       wImplicitProfileId = kProfileIdNotSpecified\<rparr>)"

definition Writer_Finalize :: "TLVWriter \<Rightarrow> wResult" where
  "Writer_Finalize w =
     (if wContainerOpen w then (Some CHIP_ERROR_TLV_CONTAINER_OPEN, w)
      else (case wStore w of
              None \<Rightarrow> (None, w)
            | Some s \<Rightarrow> (finalizeBuffer s (wCalls w), w\<lparr>wCalls := wCalls w + 1\<rparr>)))"

definition ReserveBuffer :: "u32 \<Rightarrow> TLVWriter \<Rightarrow> wResult" where
  "ReserveBuffer n w =
     (if mRemainingLen w \<ge> n then (None, w\<lparr>mReservedSize := mReservedSize w + n, mRemainingLen := mRemainingLen w - n\<rparr>)
      else (Some CHIP_ERROR_NO_MEMORY, w))"

definition UnreserveBuffer :: "u32 \<Rightarrow> TLVWriter \<Rightarrow> wResult" where
  "UnreserveBuffer n w =
     (if mReservedSize w \<ge> n then (None, w\<lparr>mReservedSize := mReservedSize w - n, mRemainingLen := mRemainingLen w + n\<rparr>)
      else (Some CHIP_ERROR_NO_MEMORY, w))"

section \<open>Bytes and heads\<close>

text \<open>Storing bytes at the write point; the exchange of the full buffer for a new one, cut to the maximal length.\<close>

definition store :: "bytes \<Rightarrow> TLVWriter \<Rightarrow> TLVWriter" where
  "store bs w = w\<lparr>wBuf := wBuf w @ bs, mRemainingLen := mRemainingLen w - of_nat (length bs),
                   mLenWritten := mLenWritten w + of_nat (length bs)\<rparr>"

definition nextBuffer :: "TLVWriter \<Rightarrow> wResult" where
  "nextBuffer w =
     (case wStore w of
        None \<Rightarrow> (Some CHIP_ERROR_NO_MEMORY, w)
      | Some s \<Rightarrow>
          if length (wBuf w) \<ge> 2 ^ 32 then (Some CHIP_ERROR_INCORRECT_STATE, w)
          else (case finalizeBuffer s (wCalls w) of
                  Some e \<Rightarrow> (Some e, w\<lparr>wCalls := wCalls w + 1\<rparr>)
                | None \<Rightarrow>
                    let w1 = w\<lparr>wCalls := wCalls w + 1, wDone := wDone w @ [wBuf w]\<rparr> in
                    (case getNewBuffer s (wCalls w) of
                       Inl e \<Rightarrow> (Some e, w1)
                     | Inr n \<Rightarrow> (None, w1\<lparr>wBuf := [], mRemainingLen := min n (wMaxLen w - mLenWritten w)\<rparr>))))"

partial_function (option) writeLoop :: "bytes \<Rightarrow> TLVWriter \<Rightarrow> wResult option" where
  "writeLoop bs w =
     (if bs = [] then Some (None, w)
      else (case (if mRemainingLen w = 0 then nextBuffer w else (None, w)) of
              (Some e, w) \<Rightarrow> Some (Some e, w)
            | (None, w) \<Rightarrow>
                let n = min (length bs) (unat (mRemainingLen w)) in writeLoop (drop n bs) (store (take n bs) w)))"

definition WriteData :: "bytes \<Rightarrow> TLVWriter \<Rightarrow> wResult option" where
  "WriteData bs w =
     (if mLenWritten w + of_nat (length bs) \<le> wMaxLen w then writeLoop bs w else Some (Some CHIP_ERROR_BUFFER_TOO_SMALL, w))"

text \<open>The head goes directly into the buffer when the longest head (17 bytes) fits, else through the staging buffer and \<open>WriteData\<close>.\<close>

definition WriteElementHead :: "TLVElementType \<Rightarrow> Tag \<Rightarrow> u64 \<Rightarrow> TLVWriter \<Rightarrow> wResult option" where
  "WriteElementHead elemType tag lenOrVal w =
     (if wContainerOpen w then Some (Some CHIP_ERROR_TLV_CONTAINER_OPEN, w)
      else (case headBytes (wImplicitProfileId w) (wContainerType w) elemType tag lenOrVal of
              Inl e \<Rightarrow> Some (Some e, w)
            | Inr bs \<Rightarrow>
                if mRemainingLen w \<ge> 17 \<and> wMaxLen w \<ge> 17 then Some (None, store bs w) else WriteData bs w))"

definition lenFieldSize :: "nat \<Rightarrow> int" where
  "lenFieldSize n = (if n \<le> 255 then 0 else if n \<le> 65535 then 1 else 2)"

definition WriteElementWithData :: "TLVType \<Rightarrow> Tag \<Rightarrow> bytes \<Rightarrow> TLVWriter \<Rightarrow> wResult option" where
  "WriteElementWithData type tag data w =
     (if type mod 4 \<noteq> 0 then Some (Some CHIP_ERROR_INVALID_ARGUMENT, w)
      else rThen (WriteElementHead (type + lenFieldSize (length data)) tag (of_nat (length data)) w) (WriteData data))"

section \<open>Values\<close>

text \<open>Signed integers are passed as their bit patterns.\<close>

definition PutBoolean :: "Tag \<Rightarrow> bool \<Rightarrow> TLVWriter \<Rightarrow> wResult option" where
  "PutBoolean tag v = WriteElementHead (if v then Elem_BooleanTrue else Elem_BooleanFalse) tag 0"

definition Put_uint64 :: "Tag \<Rightarrow> u64 \<Rightarrow> TLVWriter \<Rightarrow> wResult option" where
  "Put_uint64 tag v =
     WriteElementHead (if v \<le> 0xFF then Elem_UInt8 else if v \<le> 0xFFFF then Elem_UInt16 else if v \<le> 0xFFFFFFFF then Elem_UInt32 else Elem_UInt64)
       tag v"

definition Put_uint8 :: "Tag \<Rightarrow> u8 \<Rightarrow> TLVWriter \<Rightarrow> wResult option" where "Put_uint8 tag v = Put_uint64 tag (ucast v)"
definition Put_uint16 :: "Tag \<Rightarrow> u16 \<Rightarrow> TLVWriter \<Rightarrow> wResult option" where "Put_uint16 tag v = Put_uint64 tag (ucast v)"
definition Put_uint32 :: "Tag \<Rightarrow> u32 \<Rightarrow> TLVWriter \<Rightarrow> wResult option" where "Put_uint32 tag v = Put_uint64 tag (ucast v)"

definition Put_uint8_size :: "Tag \<Rightarrow> u8 \<Rightarrow> bool \<Rightarrow> TLVWriter \<Rightarrow> wResult option" where
  "Put_uint8_size tag v preserveSize = (if preserveSize then WriteElementHead Elem_UInt8 tag (ucast v) else Put_uint8 tag v)"
definition Put_uint16_size :: "Tag \<Rightarrow> u16 \<Rightarrow> bool \<Rightarrow> TLVWriter \<Rightarrow> wResult option" where
  "Put_uint16_size tag v preserveSize = (if preserveSize then WriteElementHead Elem_UInt16 tag (ucast v) else Put_uint16 tag v)"
definition Put_uint32_size :: "Tag \<Rightarrow> u32 \<Rightarrow> bool \<Rightarrow> TLVWriter \<Rightarrow> wResult option" where
  "Put_uint32_size tag v preserveSize = (if preserveSize then WriteElementHead Elem_UInt32 tag (ucast v) else Put_uint32 tag v)"
definition Put_uint64_size :: "Tag \<Rightarrow> u64 \<Rightarrow> bool \<Rightarrow> TLVWriter \<Rightarrow> wResult option" where
  "Put_uint64_size tag v preserveSize = (if preserveSize then WriteElementHead Elem_UInt64 tag v else Put_uint64 tag v)"

definition Put_int64 :: "Tag \<Rightarrow> u64 \<Rightarrow> TLVWriter \<Rightarrow> wResult option" where
  "Put_int64 tag v =
     WriteElementHead (if - 0x80 \<le> sint v \<and> sint v \<le> 0x7F then Elem_Int8
                       else if - 0x8000 \<le> sint v \<and> sint v \<le> 0x7FFF then Elem_Int16
                       else if - 0x80000000 \<le> sint v \<and> sint v \<le> 0x7FFFFFFF then Elem_Int32 else Elem_Int64) tag v"

definition Put_int8 :: "Tag \<Rightarrow> u8 \<Rightarrow> TLVWriter \<Rightarrow> wResult option" where "Put_int8 tag v = Put_int64 tag (scast v)"
definition Put_int16 :: "Tag \<Rightarrow> u16 \<Rightarrow> TLVWriter \<Rightarrow> wResult option" where "Put_int16 tag v = Put_int64 tag (scast v)"
definition Put_int32 :: "Tag \<Rightarrow> u32 \<Rightarrow> TLVWriter \<Rightarrow> wResult option" where "Put_int32 tag v = Put_int64 tag (scast v)"

definition Put_int8_size :: "Tag \<Rightarrow> u8 \<Rightarrow> bool \<Rightarrow> TLVWriter \<Rightarrow> wResult option" where
  "Put_int8_size tag v preserveSize = (if preserveSize then WriteElementHead Elem_Int8 tag (ucast v) else Put_int8 tag v)"
definition Put_int16_size :: "Tag \<Rightarrow> u16 \<Rightarrow> bool \<Rightarrow> TLVWriter \<Rightarrow> wResult option" where
  "Put_int16_size tag v preserveSize = (if preserveSize then WriteElementHead Elem_Int16 tag (ucast v) else Put_int16 tag v)"
definition Put_int32_size :: "Tag \<Rightarrow> u32 \<Rightarrow> bool \<Rightarrow> TLVWriter \<Rightarrow> wResult option" where
  "Put_int32_size tag v preserveSize = (if preserveSize then WriteElementHead Elem_Int32 tag (ucast v) else Put_int32 tag v)"
definition Put_int64_size :: "Tag \<Rightarrow> u64 \<Rightarrow> bool \<Rightarrow> TLVWriter \<Rightarrow> wResult option" where
  "Put_int64_size tag v preserveSize = (if preserveSize then WriteElementHead Elem_Int64 tag v else Put_int64 tag v)"

definition Put_float :: "Tag \<Rightarrow> u32 \<Rightarrow> TLVWriter \<Rightarrow> wResult option" where
  "Put_float tag bits = WriteElementHead Elem_FloatingPointNumber32 tag (ucast bits)"
definition Put_double :: "Tag \<Rightarrow> u64 \<Rightarrow> TLVWriter \<Rightarrow> wResult option" where
  "Put_double tag bits = WriteElementHead Elem_FloatingPointNumber64 tag bits"

definition PutBytes :: "Tag \<Rightarrow> bytes \<Rightarrow> TLVWriter \<Rightarrow> wResult option" where
  "PutBytes tag data = WriteElementWithData kTLVType_ByteString tag data"

definition Put_ByteSpan :: "Tag \<Rightarrow> bytes \<Rightarrow> TLVWriter \<Rightarrow> wResult option" where
  "Put_ByteSpan tag data w = (if length data < 2 ^ 32 then PutBytes tag data w else Some (Some CHIP_ERROR_MESSAGE_TOO_LONG, w))"

definition PutString :: "Tag \<Rightarrow> bytes \<Rightarrow> TLVWriter \<Rightarrow> wResult option" where
  "PutString tag data = WriteElementWithData kTLVType_UTF8String tag data"

definition PutString_span :: "Tag \<Rightarrow> bytes \<Rightarrow> TLVWriter \<Rightarrow> wResult option" where
  "PutString_span tag str w = (if length str < 2 ^ 32 then PutString tag str w else Some (Some CHIP_ERROR_INVALID_ARGUMENT, w))"

text \<open>The zero-terminated string ends before its first zero byte.\<close>

definition PutString_c :: "Tag \<Rightarrow> bytes \<Rightarrow> TLVWriter \<Rightarrow> wResult option" where
  "PutString_c tag buf w =
     (let str = takeWhile (\<lambda>b. b \<noteq> 0) buf in
      if length str < 2 ^ 32 then PutString tag str w else Some (Some CHIP_ERROR_INVALID_ARGUMENT, w))"

text \<open>\<open>VPutStringF\<close> as configured (a temporary buffer); \<open>txt\<close> is what \<open>vsnprintf\<close> makes of the format and its arguments.
  The sum that is compared with the maximal length wraps, as it does with the 32-bit \<open>size_t\<close> of the chip; \<open>WriteData\<close> compares again.\<close>

definition VPutStringF :: "(nat \<Rightarrow> bool) \<Rightarrow> Tag \<Rightarrow> bytes \<Rightarrow> TLVWriter \<Rightarrow> wResult option" where
  "VPutStringF alloc tag txt w =
     (let n = length txt in
      if n \<ge> 2 ^ 32 then Some (Some CHIP_ERROR_INVALID_ARGUMENT, w)
      else rThen (WriteElementHead (kTLVType_UTF8String + lenFieldSize n) tag (of_nat n) w) (\<lambda>w.
        if mLenWritten w + of_nat n > wMaxLen w then Some (Some CHIP_ERROR_BUFFER_TOO_SMALL, w)
        else if \<not> alloc (n + 1) then Some (Some CHIP_ERROR_NO_MEMORY, w)
        else WriteData txt w))"

definition PutNull :: "Tag \<Rightarrow> TLVWriter \<Rightarrow> wResult option" where
  "PutNull tag = WriteElementHead Elem_Null tag 0"

section \<open>Containers\<close>

definition kEndOfContainerMarkerSize :: u32 where "kEndOfContainerMarkerSize = 1"

text \<open>The space of the end marker is taken from the maximal length when a container is begun and given back when it ends.\<close>

definition beginContainer :: "Tag \<Rightarrow> TLVType \<Rightarrow> TLVWriter \<Rightarrow> wResult option" where
  "beginContainer tag containerType w =
     (if \<not> TLVTypeIsContainer containerType then Some (Some CHIP_ERROR_WRONG_TLV_TYPE, w)
      else if mCloseContainerReserved w \<and> wMaxLen w < kEndOfContainerMarkerSize then Some (Some CHIP_ERROR_BUFFER_TOO_SMALL, w)
      else
        let w1 = (if mCloseContainerReserved w then w\<lparr>wMaxLen := wMaxLen w - kEndOfContainerMarkerSize\<rparr> else w)
        in map_option (\<lambda>(err, w). (err, if err \<noteq> None \<and> mCloseContainerReserved w then w\<lparr>wMaxLen := wMaxLen w + kEndOfContainerMarkerSize\<rparr> else w))
             (WriteElementHead containerType tag 0 w1))"

definition StartContainer :: "Tag \<Rightarrow> TLVType \<Rightarrow> TLVWriter \<Rightarrow> (chip_error option \<times> TLVType \<times> TLVWriter) option" where
  "StartContainer tag containerType w =
     map_option (\<lambda>(err, w'). (err, wContainerType w, if err = None then w'\<lparr>wContainerType := containerType, wContainerOpen := False\<rparr> else w'))
       (beginContainer tag containerType w)"

definition EndContainer :: "TLVType \<Rightarrow> TLVWriter \<Rightarrow> wResult option" where
  "EndContainer outerContainerType w =
     (if \<not> TLVTypeIsContainer (wContainerType w) then Some (Some CHIP_ERROR_INCORRECT_STATE, w)
      else
        let w1 = w\<lparr>wContainerType := outerContainerType,
                    wMaxLen := (if mCloseContainerReserved w then wMaxLen w + kEndOfContainerMarkerSize else wMaxLen w)\<rparr>
        in WriteElementHead Elem_EndOfContainer AnonymousTag 0 w1)"

text \<open>\<open>OpenContainer\<close> sets the members of the container writer it is given, except its reserved size.\<close>

definition Writer_OpenContainer :: "Tag \<Rightarrow> TLVType \<Rightarrow> TLVWriter \<Rightarrow> TLVWriter \<Rightarrow> (chip_error option \<times> TLVWriter \<times> TLVWriter) option" where
  "Writer_OpenContainer tag containerType containerWriter w =
     map_option (\<lambda>(err, w).
        if err \<noteq> None then (err, containerWriter, w)
        else (None,
              containerWriter\<lparr>wStore := wStore w, wCalls := wCalls w, wDone := wDone w, wBuf := wBuf w, mRemainingLen := mRemainingLen w, mLenWritten := 0,
                wMaxLen := wMaxLen w - mLenWritten w, wContainerType := containerType, wContainerOpen := False,
                mCloseContainerReserved := mCloseContainerReserved w, wImplicitProfileId := wImplicitProfileId w\<rparr>,
              w\<lparr>wContainerOpen := True\<rparr>))
       (beginContainer tag containerType w)"

definition Writer_CloseContainer :: "TLVWriter \<Rightarrow> TLVWriter \<Rightarrow> (chip_error option \<times> TLVWriter \<times> TLVWriter) option" where
  "Writer_CloseContainer containerWriter w =
     (if \<not> TLVTypeIsContainer (wContainerType containerWriter) then Some (Some CHIP_ERROR_INCORRECT_STATE, containerWriter, w)
      else if wContainerOpen containerWriter then Some (Some CHIP_ERROR_TLV_CONTAINER_OPEN, containerWriter, w)
      else
        let c = containerWriter;
            w1 = w\<lparr>wStore := wStore c, wCalls := wCalls c, wDone := wDone c, wBuf := wBuf c, mRemainingLen := mRemainingLen c, mLenWritten := mLenWritten w + mLenWritten c,
                    wMaxLen := (if mCloseContainerReserved w then wMaxLen w + kEndOfContainerMarkerSize else wMaxLen w), wContainerOpen := False\<rparr>
        in map_option (\<lambda>(err, w). (err, Writer_Init 0, w)) (WriteElementHead Elem_EndOfContainer AnonymousTag 0 w1))"

definition PutPreEncodedContainer :: "Tag \<Rightarrow> TLVType \<Rightarrow> bytes \<Rightarrow> TLVWriter \<Rightarrow> wResult option" where
  "PutPreEncodedContainer tag containerType data w =
     (if \<not> TLVTypeIsContainer containerType then Some (Some CHIP_ERROR_INVALID_ARGUMENT, w)
      else rThen (WriteElementHead containerType tag 0 w) (WriteData data))"

section \<open>Copying\<close>

type_synonym copyResult = "chip_error option \<times> TLVReader \<times> TLVWriter"

definition CopyContainer :: "Tag \<Rightarrow> TLVReader \<Rightarrow> TLVWriter \<Rightarrow> copyResult option" where
  "CopyContainer tag container w =
     (if rStore container \<noteq> None then Some (Some CHIP_ERROR_INVALID_ARGUMENT, container, w)
      else (case EnterContainer container of
              (Some e, _, c) \<Rightarrow> Some (Some e, c, w)
            | (None, outer, c) \<Rightarrow>
                (case ExitContainer outer c of
                   None \<Rightarrow> None
                 | Some (Some e, c') \<Rightarrow> Some (Some e, c', w)
                 | Some (None, c') \<Rightarrow>
                     map_option (\<lambda>(err, w). (err, c', w))
                       (PutPreEncodedContainer tag (GetType container) (take (length (rBuf c) - length (rBuf c')) (rBuf c)) w))))"

definition CopyContainer_same :: "TLVReader \<Rightarrow> TLVWriter \<Rightarrow> copyResult option" where
  "CopyContainer_same container = CopyContainer (mElemTag container) container"

text \<open>A container from its encoding, of at most 65535 bytes: the rest of the buffer after the head.\<close>

definition CopyContainer_encoded :: "Tag \<Rightarrow> bytes \<Rightarrow> TLVWriter \<Rightarrow> wResult option" where
  "CopyContainer_encoded tag encodedContainer w =
     (case Next (Reader_Init encodedContainer) of
        None \<Rightarrow> None
      | Some (Some e, _) \<Rightarrow> Some (Some e, w)
      | Some (None, r) \<Rightarrow> PutPreEncodedContainer tag (GetType r) (take (unat (rMaxLen r - mLenRead r)) (rBuf r)) w)"

text \<open>The loop of \<open>CopyElement\<close>, in pieces of \<open>kTLVCopyChunkSize\<close> (16) bytes.\<close>

fun copyLoop :: "nat \<Rightarrow> TLVReader \<Rightarrow> TLVWriter \<Rightarrow> wResult option" where
  "copyLoop copyDataLen helper w =
     (if copyDataLen = 0 then Some (None, w)
      else let chunkSize = min copyDataLen 16 in
        (case ReadData chunkSize helper of
           (Some e, _, _) \<Rightarrow> Some (Some e, w)
         | (None, chunk, helper) \<Rightarrow> rThen (WriteData chunk w) (copyLoop (copyDataLen - chunkSize) helper)))"

declare copyLoop.simps [simp del]

text \<open>The helper is a copy of the reader from before the skip; the backing store they share has moved on.\<close>

definition CopyElement :: "Tag \<Rightarrow> TLVReader \<Rightarrow> TLVWriter \<Rightarrow> copyResult option" where
  "CopyElement tag reader w =
     (let elemType = ElementType reader in
      if elemType = Elem_NotSpecified \<or> elemType = Elem_EndOfContainer then Some (Some CHIP_ERROR_INCORRECT_STATE, reader, w)
      else (case Reader_Skip reader of
              None \<Rightarrow> None
            | Some (Some e, reader') \<Rightarrow> Some (Some e, reader', w)
            | Some (None, reader') \<Rightarrow>
                let copyDataLen = unat (mLenRead reader' - mLenRead reader); helper = reader\<lparr>rCalls := rCalls reader'\<rparr> in
                map_option (\<lambda>(err, w). (err, reader', w))
                  (rThen (WriteElementHead elemType tag (mElemLenOrVal reader) w) (copyLoop copyDataLen helper))))"

definition CopyElement_same :: "TLVReader \<Rightarrow> TLVWriter \<Rightarrow> copyResult option" where
  "CopyElement_same reader = CopyElement (mElemTag reader) reader"

section \<open>A writer of one buffer\<close>

text \<open>\<open>fits cap w\<close>: \<open>w\<close> writes to one buffer, of which at most \<open>cap\<close> bytes are written, free or reserved.\<close>

definition fits :: "nat \<Rightarrow> TLVWriter \<Rightarrow> bool" where
  "fits cap w \<longleftrightarrow> wStore w = None \<and> wDone w = [] \<and> length (wBuf w) + unat (mRemainingLen w) + unat (mReservedSize w) \<le> cap"

definition writes :: "nat \<Rightarrow> TLVWriter \<Rightarrow> TLVWriter \<Rightarrow> bool" where
  "writes cap w w' \<longleftrightarrow> fits cap w' \<and> prefix (wBuf w) (wBuf w') \<and> mReservedSize w' = mReservedSize w"

lemma store_Nil [simp]: "store [] w = w"
  by (simp add: store_def)

lemma store_store [simp]: "store bs (store as w) = store (as @ bs) w"
  by (simp add: store_def algebra_simps)

lemma unat_sub_of_nat:
  fixes x :: "'a::len word"
  assumes "n \<le> unat x"
  shows "unat (x - of_nat n) = unat x - n"
proof -
  have "n < 2 ^ LENGTH('a)" by (rule order.strict_trans1 [OF assms unsigned_less])
  then have n: "unat (of_nat n :: 'a word) = n" by (simp add: unat_of_nat)
  then have "of_nat n \<le> x" using assms by (simp add: word_le_nat_alt)
  then show ?thesis using n by (simp add: unat_sub)
qed

lemma store_fields [simp]:
  "wBuf (store bs w) = wBuf w @ bs" "wStore (store bs w) = wStore w" "wDone (store bs w) = wDone w" "wMaxLen (store bs w) = wMaxLen w"
  "mReservedSize (store bs w) = mReservedSize w" "wContainerType (store bs w) = wContainerType w" "wContainerOpen (store bs w) = wContainerOpen w"
  "mCloseContainerReserved (store bs w) = mCloseContainerReserved w" "wImplicitProfileId (store bs w) = wImplicitProfileId w"
  "mRemainingLen (store bs w) = mRemainingLen w - of_nat (length bs)" "mLenWritten (store bs w) = mLenWritten w + of_nat (length bs)"
  by (simp_all add: store_def)

lemma writeLoop_contig:
  assumes "wStore w = None"
  shows "writeLoop bs w = Some (if length bs \<le> unat (mRemainingLen w) then (None, store bs w)
                                else (Some CHIP_ERROR_NO_MEMORY, store (take (unat (mRemainingLen w)) bs) w))"
proof -
  have full: "writeLoop bs w = Some (Some CHIP_ERROR_NO_MEMORY, w)" if "bs \<noteq> []" "mRemainingLen w = 0" "wStore w = None" for bs w
    using that by (subst writeLoop.simps) (simp add: nextBuffer_def)
  have nil: "writeLoop [] w = Some (None, w)" for w by (subst writeLoop.simps) simp
  show ?thesis
  proof (cases "bs = [] \<or> mRemainingLen w = 0")
    case True
    then show ?thesis using assms full nil by auto
  next
    case False
    define n where "n = min (length bs) (unat (mRemainingLen w))"
    have step: "writeLoop bs w = writeLoop (drop n bs) (store (take n bs) w)" using False by (subst writeLoop.simps) (simp add: n_def Let_def)
    show ?thesis
    proof (cases "length bs \<le> unat (mRemainingLen w)")
      case True
      then show ?thesis by (simp add: step n_def nil)
    next
      case large: False
      then have n: "n = unat (mRemainingLen w)" by (simp add: n_def)
      then have "mRemainingLen (store (take n bs) w) = 0" using large by simp
      with large n show ?thesis using full [of "drop n bs" "store (take n bs) w"] assms by (simp add: step)
    qed
  qed
qed

lemma writes_refl [simp]: "writes cap w w \<longleftrightarrow> fits cap w"
  by (auto simp: writes_def)

lemma writes_trans [trans]: "writes cap w w' \<Longrightarrow> writes cap w' w'' \<Longrightarrow> writes cap w w''"
  by (auto simp: writes_def intro: prefix_order.trans)

lemma writes_fits: "writes cap w w' \<Longrightarrow> fits cap w'"
  by (simp add: writes_def)

lemma fits_frame [simp]:
  "fits cap (w\<lparr>wMaxLen := n\<rparr>) = fits cap w" "fits cap (w\<lparr>wContainerType := t\<rparr>) = fits cap w"
  "fits cap (w\<lparr>wContainerOpen := b\<rparr>) = fits cap w" "fits cap (w\<lparr>wCalls := k\<rparr>) = fits cap w"
  by (simp_all add: fits_def)

lemma writes_frame [simp]:
  "writes cap w (w'\<lparr>wMaxLen := n\<rparr>) = writes cap w w'" "writes cap w (w'\<lparr>wContainerType := t\<rparr>) = writes cap w w'"
  "writes cap w (w'\<lparr>wContainerOpen := b\<rparr>) = writes cap w w'" "writes cap (w\<lparr>wMaxLen := n\<rparr>) w' = writes cap w w'"
  "writes cap (w\<lparr>wContainerType := t\<rparr>) w' = writes cap w w'" "writes cap w (w'\<lparr>wCalls := k\<rparr>) = writes cap w w'"
  by (simp_all add: writes_def)

lemma store_writes:
  assumes "fits cap w" "length bs \<le> unat (mRemainingLen w)"
  shows "writes cap w (store bs w)"
  using assms by (auto simp: writes_def fits_def unat_sub_of_nat)

lemma WriteData_writes:
  assumes "fits cap w"
  shows "\<exists>err w'. WriteData bs w = Some (err, w') \<and> writes cap w w'"
proof -
  have "wStore w = None" using assms by (simp add: fits_def)
  then show ?thesis using assms store_writes [OF assms] by (simp add: WriteData_def writeLoop_contig)
qed

text \<open>A head has at most 17 bytes.\<close>

lemma fieldBytes_le: "TLVFieldSizeToBytes (GetTLVFieldSize e) \<le> 8"
proof -
  have "(2::nat) ^ nat (e mod 4) \<le> 2 ^ 3" by (rule power_increasing) auto
  then show ?thesis by (simp add: TLVFieldSizeToBytes_def GetTLVFieldSize_def)
qed

lemma headBytes_length:
  assumes "headBytes implicit ct e tag v = Inr bs"
  shows "length bs \<le> 17"
proof -
  obtain h where h: "tagHead implicit ct e tag = Inr h" "bs = h @ valueField e v" using assms by (auto simp: headBytes_def rbind_eq_Inr)
  have "length h \<le> 9" using h(1) by (auto simp: tagHead_def Let_def split: if_splits)
  then show ?thesis using h(2) fieldBytes_le [of e] by (simp add: valueField_def)
qed

lemma WriteElementHead_writes:
  assumes "fits cap w"
  shows "\<exists>err w'. WriteElementHead e tag v w = Some (err, w') \<and> writes cap w w'"
proof -
  have "length bs \<le> unat (mRemainingLen w)" if "length bs \<le> 17" "mRemainingLen w \<ge> 17" for bs :: bytes
    using that by (simp add: word_le_nat_alt)
  then show ?thesis using assms WriteData_writes [OF assms] store_writes [OF assms] headBytes_length
    by (fastforce simp: WriteElementHead_def split: sum.splits)
qed

lemma rThen_writes:
  assumes "\<exists>err w'. m = Some (err, w') \<and> writes cap w w'" "\<And>w'. writes cap w w' \<Longrightarrow> \<exists>err w''. k w' = Some (err, w'') \<and> writes cap w' w''"
  shows "\<exists>err w'. rThen m k = Some (err, w') \<and> writes cap w w'"
proof -
  obtain err w' where m: "m = Some (err, w')" "writes cap w w'" using assms(1) by blast
  then show ?thesis using assms(2) [OF m(2)] by (cases err) (auto simp: rThen_def intro: writes_trans)
qed

lemma WriteElementWithData_writes: "fits cap w \<Longrightarrow> \<exists>err w'. WriteElementWithData ty tag bs w = Some (err, w') \<and> writes cap w w'"
  unfolding WriteElementWithData_def by (auto intro: rThen_writes WriteElementHead_writes WriteData_writes writes_fits)

lemma PutPreEncodedContainer_writes: "fits cap w \<Longrightarrow> \<exists>err w'. PutPreEncodedContainer tag ct bs w = Some (err, w') \<and> writes cap w w'"
  unfolding PutPreEncodedContainer_def by (auto intro: rThen_writes WriteElementHead_writes WriteData_writes writes_fits)

lemma VPutStringF_writes:
  assumes "fits cap w"
  shows "\<exists>err w'. VPutStringF alloc tag txt w = Some (err, w') \<and> writes cap w w'"
proof -
  have rest: "\<exists>err w2. (if mLenWritten w1 + of_nat (length txt) > wMaxLen w1 then Some (Some CHIP_ERROR_BUFFER_TOO_SMALL, w1)
      else if \<not> alloc (length txt + 1) then Some (Some CHIP_ERROR_NO_MEMORY, w1) else WriteData txt w1) = Some (err, w2) \<and> writes cap w1 w2"
    if a: "writes cap w w1" for w1
    using writes_fits [OF a] WriteData_writes [OF writes_fits [OF a]] by simp
  show ?thesis
  proof (cases "length txt < 2 ^ 32")
    case True
    then show ?thesis unfolding VPutStringF_def Let_def
      using rThen_writes [OF WriteElementHead_writes [OF assms] rest] by simp
  next
    case False
    then show ?thesis using assms by (simp add: VPutStringF_def)
  qed
qed

lemma beginContainer_writes:
  assumes "fits cap w"
  shows "\<exists>err w'. beginContainer tag ct w = Some (err, w') \<and> writes cap w w'"
proof -
  define w1 where "w1 = (if mCloseContainerReserved w then w\<lparr>wMaxLen := wMaxLen w - kEndOfContainerMarkerSize\<rparr> else w)"
  have "fits cap w1" "\<And>w'. writes cap w1 w' = writes cap w w'" using assms by (simp_all add: w1_def)
  then obtain err w' where "WriteElementHead ct tag 0 w1 = Some (err, w')" "writes cap w w'" using WriteElementHead_writes by metis
  then show ?thesis using assms by (simp add: beginContainer_def Let_def w1_def)
qed

lemma StartContainer_writes:
  assumes "fits cap w"
  shows "\<exists>err outer w'. StartContainer tag ct w = Some (err, outer, w') \<and> writes cap w w'"
proof -
  obtain err w' where "beginContainer tag ct w = Some (err, w')" "writes cap w w'" using beginContainer_writes [OF assms] by blast
  then show ?thesis by (simp add: StartContainer_def)
qed

lemma EndContainer_writes:
  assumes "fits cap w"
  shows "\<exists>err w'. EndContainer outer w = Some (err, w') \<and> writes cap w w'"
  using assms WriteElementHead_writes [of cap "w\<lparr>wContainerType := outer, wMaxLen := n\<rparr>" for n] by (auto simp: EndContainer_def Let_def)

lemma copyLoop_writes:
  assumes "fits cap w" "contig h"
  shows "\<exists>err w'. copyLoop n h w = Some (err, w') \<and> writes cap w w'"
  using assms
proof (induction n arbitrary: h w rule: less_induct)
  case (less n)
  show ?case
  proof (cases "n = 0 \<or> min n 16 > length (rBuf h)")
    case True
    then show ?thesis using less.prems by (subst copyLoop.simps) (auto simp: Let_def ReadData_contig)
  next
    case False
    have "contig (advance (min n 16) h)" using False reads_advance [OF less.prems(2)] reads_contig by (meson not_less)
    moreover have "n - min n 16 < n" using False by simp
    ultimately have "\<exists>err w'. rThen (WriteData (take (min n 16) (rBuf h)) w) (copyLoop (n - min n 16) (advance (min n 16) h)) = Some (err, w') \<and> writes cap w w'"
      using less.IH less.prems(1) by (blast intro: rThen_writes WriteData_writes writes_fits)
    with False show ?thesis using less.prems by (subst copyLoop.simps) (simp add: Let_def ReadData_contig not_less)
  qed
qed

lemma CopyElement_writes:
  assumes "fits cap w" "contig r"
  shows "\<exists>err r' w'. CopyElement tag r w = Some (err, r', w') \<and> reads r r' \<and> writes cap w w'"
proof -
  obtain e1 r1 where s: "Reader_Skip r = Some (e1, r1)" "reads r r1" using Skip_reads [OF assms(2)] by blast
  have "contig (r\<lparr>rCalls := rCalls r1\<rparr>)" using assms(2) by simp
  then obtain err w' where w: "rThen (WriteElementHead (ElementType r) tag (mElemLenOrVal r) w)
       (copyLoop (unat (mLenRead r1 - mLenRead r)) (r\<lparr>rCalls := rCalls r1\<rparr>)) = Some (err, w')" "writes cap w w'"
    using rThen_writes [OF WriteElementHead_writes [OF assms(1)], where k = "copyLoop n (r\<lparr>rCalls := rCalls r1\<rparr>)" for n] copyLoop_writes writes_fits
    by meson
  show ?thesis using assms s w by (cases e1) (simp_all add: CopyElement_def Let_def)
qed

lemma CopyContainer_writes:
  assumes "fits cap w" "contig r"
  shows "\<exists>err r' w'. CopyContainer tag r w = Some (err, r', w') \<and> reads r r' \<and> writes cap w w'"
proof (cases "TLVTypeIsContainer (ElementType r)")
  case True
  obtain outer c where c: "EnterContainer r = (None, outer, c)" "reads r c" using True Enter_returns [OF assms(2)] by (auto simp: EnterContainer_def)
  obtain e1 r1 where s: "ExitContainer outer c = Some (e1, r1)" "reads c r1" using ExitContainer_reads [OF reads_contig [OF c(2)]] by blast
  obtain err w' where w: "PutPreEncodedContainer tag (GetType r) (take (length (rBuf c) - length (rBuf r1)) (rBuf c)) w = Some (err, w')" "writes cap w w'"
    using PutPreEncodedContainer_writes [OF assms(1)] by blast
  show ?thesis using assms c s w reads_trans [OF c(2) s(2)] by (cases e1) (simp_all add: CopyContainer_def)
next
  case False
  then show ?thesis using assms by (simp add: CopyContainer_def EnterContainer_def contig_def)
qed

lemma CopyContainer_encoded_writes:
  assumes "fits cap w"
  shows "\<exists>err w'. CopyContainer_encoded tag bs w = Some (err, w') \<and> writes cap w w'"
proof -
  obtain e1 r1 where n: "Next (Reader_Init bs) = Some (e1, r1)" using Next_returns [OF contig_Init] by blast
  then show ?thesis using assms PutPreEncodedContainer_writes [OF assms] by (cases e1) (simp_all add: CopyContainer_encoded_def)
qed

section \<open>Sessions of operations\<close>

text \<open>
  The operations a program performs on a writer.  \<open>WHead\<close> stands for the \<open>Put\<close> functions without data, which all are one call of
  \<open>WriteElementHead\<close>.  \<open>WWithin\<close> opens a container on a container writer \<open>c\<close> of the caller, which may hold anything,
  performs operations on it and closes it.  What is copied is the element at which
  a session on a reader of some bytes arrives.
\<close>

datatype writerOp = WHead TLVElementType Tag u64 | WBytes Tag bytes | WString Tag bytes | WStringF "nat \<Rightarrow> bool" Tag bytes
  | WStart Tag TLVType | WEnd TLVType | WPre Tag TLVType bytes | WCopyElement Tag bytes "readerOp list" | WCopyContainer Tag bytes "readerOp list"
  | WCopyEncoded Tag bytes | WReserve u32 | WUnreserve u32 | WFinalize | WWithin TLVWriter Tag TLVType "writerOp list"

fun writerStep :: "writerOp \<Rightarrow> TLVWriter \<Rightarrow> TLVWriter option" and writerSteps :: "writerOp list \<Rightarrow> TLVWriter \<Rightarrow> TLVWriter option" where
  "writerStep (WHead e tag v) w = map_option snd (WriteElementHead e tag v w)"
| "writerStep (WBytes tag bs) w = map_option snd (PutBytes tag bs w)"
| "writerStep (WString tag bs) w = map_option snd (PutString tag bs w)"
| "writerStep (WStringF alloc tag txt) w = map_option snd (VPutStringF alloc tag txt w)"
| "writerStep (WStart tag ct) w = map_option (\<lambda>(_, _, w). w) (StartContainer tag ct w)"
| "writerStep (WEnd outer) w = map_option snd (EndContainer outer w)"
| "writerStep (WPre tag ct bs) w = map_option snd (PutPreEncodedContainer tag ct bs w)"
| "writerStep (WCopyElement tag data rops) w =
     (case readerSteps rops (Reader_Init data) of None \<Rightarrow> None | Some r \<Rightarrow> map_option (\<lambda>(_, _, w). w) (CopyElement tag r w))"
| "writerStep (WCopyContainer tag data rops) w =
     (case readerSteps rops (Reader_Init data) of None \<Rightarrow> None | Some r \<Rightarrow> map_option (\<lambda>(_, _, w). w) (CopyContainer tag r w))"
| "writerStep (WCopyEncoded tag bs) w = map_option snd (CopyContainer_encoded tag bs w)"
| "writerStep (WReserve n) w = Some (snd (ReserveBuffer n w))"
| "writerStep (WUnreserve n) w = Some (snd (UnreserveBuffer n w))"
| "writerStep WFinalize w = Some (snd (Writer_Finalize w))"
| "writerStep (WWithin c tag ct ops) w =
     (case Writer_OpenContainer tag ct c w of
        None \<Rightarrow> None
      | Some (Some _, _, w) \<Rightarrow> Some w
      | Some (None, c, w) \<Rightarrow>
          (case writerSteps ops c of None \<Rightarrow> None | Some c \<Rightarrow> map_option (\<lambda>(_, _, w). w) (Writer_CloseContainer c w)))"
| "writerSteps [] w = Some w"
| "writerSteps (op # ops) w = (case writerStep op w of None \<Rightarrow> None | Some w \<Rightarrow> writerSteps ops w)"

text \<open>\<open>OpenContainer\<close> sets every member of the container writer but \<open>mReservedSize\<close>, which a new \<open>TLVWriter\<close> does not
  initialise either.  Sessions in which it is zero, as \<open>Init\<close> and \<open>CloseContainer\<close> leave it:\<close>

fun nothingReserved :: "writerOp \<Rightarrow> bool" where
  "nothingReserved (WWithin c tag ct ops) \<longleftrightarrow> mReservedSize c = 0 \<and> list_all nothingReserved ops"
| "nothingReserved _ \<longleftrightarrow> True"

text \<open>\<open>grows cap w w'\<close>: \<open>w'\<close> keeps to the buffer and has what \<open>w\<close> has written as the beginning of its output.\<close>

definition grows :: "nat \<Rightarrow> TLVWriter \<Rightarrow> TLVWriter \<Rightarrow> bool" where
  "grows cap w w' \<longleftrightarrow> fits cap w' \<and> prefix (wBuf w) (wBuf w')"

lemma writes_grows: "writes cap w w' \<Longrightarrow> grows cap w w'"
  by (simp add: writes_def grows_def)

lemma grows_trans [trans]: "grows cap w w' \<Longrightarrow> grows cap w' w'' \<Longrightarrow> grows cap w w''"
  by (auto simp: grows_def intro: prefix_order.trans)

lemma grows_map: "\<exists>err w'. m = Some (err, w') \<and> writes cap w w' \<Longrightarrow> \<exists>w'. map_option snd m = Some w' \<and> grows cap w w'"
  using writes_grows by auto

lemma grows_map3: "\<exists>err a w'. m = Some (err, a, w') \<and> writes cap w w' \<Longrightarrow> \<exists>w'. map_option (\<lambda>(_, _, w). w) m = Some w' \<and> grows cap w w'"
  using writes_grows by auto

lemma reserve_grows:
  assumes "fits cap w"
  shows "grows cap w (snd (ReserveBuffer n w))" "grows cap w (snd (UnreserveBuffer n w))" "grows cap w (snd (Writer_Finalize w))"
proof -
  have add: "unat (x + n) \<le> unat x + unat n" for x n :: u32 by (simp add: unat_word_ariths)
  have sub: "n \<le> x \<Longrightarrow> unat (x - n) = unat x - unat n" "n \<le> x \<Longrightarrow> unat n \<le> unat x" for x n :: u32
    by (simp_all add: unat_sub word_le_nat_alt)
  show "grows cap w (snd (ReserveBuffer n w))"
    using assms add [of "mReservedSize w" n] sub [of n "mRemainingLen w"] by (auto simp: grows_def fits_def ReserveBuffer_def)
  show "grows cap w (snd (UnreserveBuffer n w))"
    using assms add [of "mRemainingLen w" n] sub [of n "mReservedSize w"] by (auto simp: grows_def fits_def UnreserveBuffer_def)
  show "grows cap w (snd (Writer_Finalize w))" using assms by (simp add: grows_def fits_def Writer_Finalize_def)
qed

text \<open>Opening gives a container writer that has the buffer less what is reserved; closing hands it back.\<close>

lemma Open_writes:
  assumes "fits cap w" "mReservedSize c0 = 0"
  shows "\<exists>err c w'. Writer_OpenContainer tag ct c0 w = Some (err, c, w') \<and> writes cap w w' \<and>
     (err = None \<longrightarrow> grows (cap - unat (mReservedSize w')) w c)"
proof -
  obtain err w' where b: "beginContainer tag ct w = Some (err, w')" "writes cap w w'" using beginContainer_writes [OF assms(1)] by blast
  then show ?thesis using assms(2) by (cases err) (auto simp: Writer_OpenContainer_def grows_def fits_def writes_def)
qed

lemma Close_grows:
  assumes "fits cap w" "grows (cap - unat (mReservedSize w)) w0 c"
  shows "\<exists>err c' w'. Writer_CloseContainer c w = Some (err, c', w') \<and> fits cap w' \<and> (prefix (wBuf w0) (wBuf w) \<longrightarrow> prefix (wBuf w0) (wBuf w'))"
proof -
  define w1 where "w1 = w\<lparr>wStore := wStore c, wCalls := wCalls c, wDone := wDone c, wBuf := wBuf c, mRemainingLen := mRemainingLen c, mLenWritten := mLenWritten w + mLenWritten c,
                    wMaxLen := (if mCloseContainerReserved w then wMaxLen w + kEndOfContainerMarkerSize else wMaxLen w), wContainerOpen := False\<rparr>"
  have "fits cap w1" using assms by (auto simp: w1_def fits_def grows_def)
  then obtain err w' where "WriteElementHead Elem_EndOfContainer AnonymousTag 0 w1 = Some (err, w')" "writes cap w1 w'"
    using WriteElementHead_writes by blast
  moreover have "prefix (wBuf w0) (wBuf w1)" using assms(2) by (simp add: w1_def grows_def)
  ultimately show ?thesis using assms(1) by (auto simp: Writer_CloseContainer_def Let_def w1_def [symmetric] writes_def intro: prefix_order.trans)
qed

lemma simple_step_grows:
  assumes "fits cap w" "\<And>c tag ct ops. op \<noteq> WWithin c tag ct ops"
  shows "\<exists>w'. writerStep op w = Some w' \<and> grows cap w w'"
proof (cases op)
  case (WCopyElement tag data rops)
  obtain r where "readerSteps rops (Reader_Init data) = Some r" "contig r" using step_reads(2) [OF contig_Init] reads_contig by blast
  then show ?thesis using WCopyElement CopyElement_writes [OF assms(1), of r tag] writes_grows by auto
next
  case (WCopyContainer tag data rops)
  obtain r where "readerSteps rops (Reader_Init data) = Some r" "contig r" using step_reads(2) [OF contig_Init] reads_contig by blast
  then show ?thesis using WCopyContainer CopyContainer_writes [OF assms(1), of r tag] writes_grows by auto
qed (use assms(2) grows_map [OF WriteElementHead_writes [OF assms(1)]] grows_map [OF WriteElementWithData_writes [OF assms(1)]]
      grows_map [OF VPutStringF_writes [OF assms(1)]] grows_map3 [OF StartContainer_writes [OF assms(1)]] grows_map [OF EndContainer_writes [OF assms(1)]]
      grows_map [OF PutPreEncodedContainer_writes [OF assms(1)]] grows_map [OF CopyContainer_encoded_writes [OF assms(1)]] reserve_grows [OF assms(1)]
      in \<open>simp_all add: PutBytes_def PutString_def\<close>)

lemma step_grows:
  "fits cap w \<Longrightarrow> nothingReserved op \<Longrightarrow> \<exists>w'. writerStep op w = Some w' \<and> grows cap w w'"
  "fits cap w \<Longrightarrow> list_all nothingReserved ops \<Longrightarrow> \<exists>w'. writerSteps ops w = Some w' \<and> grows cap w w'"
proof (induction op w and ops w arbitrary: cap and cap rule: writerStep_writerSteps.induct)
  case (14 c0 tag ct ops w)
  have r0: "mReservedSize c0 = 0" "list_all nothingReserved ops" using 14(3) by simp_all
  obtain err c w1 where o: "Writer_OpenContainer tag ct c0 w = Some (err, c, w1)" "writes cap w w1"
    "err = None \<longrightarrow> grows (cap - unat (mReservedSize w1)) w c" using Open_writes [OF 14(2) r0(1)] by blast
  show ?case
  proof (cases err)
    case None
    then have g: "grows (cap - unat (mReservedSize w1)) w c" using o(3) by simp
    then obtain c' where c': "writerSteps ops c = Some c'" "grows (cap - unat (mReservedSize w1)) c c'"
      using 14(1) [of "(None, c, w1)" None "(c, w1)" c w1 "cap - unat (mReservedSize w1)"] o(1) None r0(2) by (auto simp: grows_def)
    obtain err' c'' w' where "Writer_CloseContainer c' w1 = Some (err', c'', w')" "fits cap w'" "prefix (wBuf w) (wBuf w1) \<longrightarrow> prefix (wBuf w) (wBuf w')"
      using Close_grows [OF writes_fits [OF o(2)] grows_trans [OF g c'(2)]] by blast
    then show ?thesis using o(1,2) None c'(1) by (simp add: grows_def writes_def)
  next
    case (Some e)
    then show ?thesis using o(1,2) writes_grows by simp
  qed
next
  case (16 op ops w)
  then obtain w1 where 1: "writerStep op w = Some w1" "grows cap w w1" by fastforce
  then have "fits cap w1" by (simp add: grows_def)
  with 16(2) [OF 1(1)] 16(4) obtain w2 where "writerSteps ops w1 = Some w2" "grows cap w1 w2" by fastforce
  with 1 show ?case by (auto intro: grows_trans)
qed (simp_all add: simple_step_grows grows_def [of _ w w for w] del: writerStep.simps)

lemma fits_Init: "fits n (Writer_Init n)"
  by (simp add: fits_def Writer_Init_def Let_def unat_of_nat)

text \<open>
  C15.  The TLV writer is total and stays inside of its buffer.  For every size of the buffer and every sequence of operations (putting
  values, byte strings and texts, beginning and ending containers in either style, copying elements and containers from
  readers of arbitrary bytes, reserving and releasing space), where every container writer the caller opens a container on has no reserved space left over,
  all operations return, and what is written together with the space still free and the space reserved never exceeds the buffer.
\<close>

theorem writer_total_in_bounds:
  assumes "list_all nothingReserved ops"
  shows "\<exists>w. writerSteps ops (Writer_Init n) = Some w \<and> wDone w = [] \<and> length (wBuf w) + unat (mRemainingLen w) + unat (mReservedSize w) \<le> n"
  using step_grows(2) [OF fits_Init assms] by (auto simp: grows_def fits_def)

theorem writer_total_in_bounds_witness:
  "\<exists>w. writerSteps [WReserve 4, WWithin (Writer_Init 0) AnonymousTag kTLVType_Structure [WReserve 2, WUnreserve 2, WHead Elem_UInt8 (ContextTag 1) 5], WUnreserve 4]
         (Writer_Init 20) = Some w \<and> length (wBuf w) + unat (mRemainingLen w) + unat (mReservedSize w) \<le> 20"
  using writer_total_in_bounds [of "[WReserve 4, WWithin (Writer_Init 0) AnonymousTag kTLVType_Structure
      [WReserve 2, WUnreserve 2, WHead Elem_UInt8 (ContextTag 1) 5], WUnreserve 4]" 20] by (auto simp: Writer_Init_def)

end
