(* ===== verification/Tlv_Head.thy ===== *)
theory Tlv_Head
  imports Tlv_Writer
begin

text \<open>
  What the writer stores as the head of an element, the reader reads back: the tag with its control byte, the length or value.  These are
  the lemmas on single elements that \<open>Tlv_Roundtrip\<close> puts together for trees.
\<close>

unbundle bit_operations_syntax

section \<open>Numbers that fit\<close>

lemma take_bit_fits:
  fixes w :: "'a::len word"
  assumes "unat w < 2 ^ m"
  shows "take_bit m w = w"
proof (rule word_unat_eq_iff [THEN iffD2])
  show "unat (take_bit m w) = unat w" using assms by (simp add: unsigned_take_bit_eq take_bit_nat_eq_self)
qed

lemma le_word_fits:
  fixes w :: "'a::len word"
  assumes "unat w < 2 ^ (8 * n)"
  shows "le_word (le_bytes n w) = w"
proof (rule bit_word_eqI)
  fix i assume i: "i < LENGTH('a)"
  have "bit w i \<Longrightarrow> i < 8 * n" using take_bit_fits [OF assms] by (metis bit_take_bit_iff)
  then show "bit (le_word (le_bytes n w) :: 'a word) i = bit w i"
    using i by (auto simp: bit_le_word le_bytes_def bit_ucast_iff bit_drop_bit_eq)
qed

lemma le_word_take: "unat (w :: 'a::len word) < 2 ^ (8 * n) \<Longrightarrow> le_word (take n (le_bytes n w @ rest)) = w"
  by (simp add: le_word_fits)

section \<open>The control byte\<close>

definition controls :: "u8 list" where
  "controls = [Ctl_Anonymous, Ctl_ContextSpecific, Ctl_CommonProfile_2Bytes, Ctl_CommonProfile_4Bytes, Ctl_ImplicitProfile_2Bytes,
     Ctl_ImplicitProfile_4Bytes, Ctl_FullyQualified_6Bytes, Ctl_FullyQualified_8Bytes]"

lemma control_table:
  "\<forall>c \<in> set controls. \<forall>e \<in> set [0..24].
     tagControlOf (c OR word_of_int e) = c \<and> uint ((c OR word_of_int e) AND 0x1F) = e \<and>
     uint ((ucast (c OR word_of_int e) :: u16) AND 0x1F) = e \<and> (ucast (c OR word_of_int e) :: u16) \<noteq> kTLVControlByte_NotSpecified"
  by code_simp

lemma control_parts:
  assumes "c \<in> set controls" "0 \<le> e" "e \<le> 24"
  shows "tagControlOf (c OR word_of_int e) = c" "uint ((c OR word_of_int e) AND 0x1F) = e"
    "uint ((ucast (c OR word_of_int e) :: u16) AND 0x1F) = e" "(ucast (c OR word_of_int e) :: u16) \<noteq> kTLVControlByte_NotSpecified"
  using control_table assms by (auto simp only: set_upto atLeastAtMost_iff)

lemma in_controls [simp]:
  "Ctl_Anonymous \<in> set controls" "Ctl_ContextSpecific \<in> set controls" "Ctl_CommonProfile_2Bytes \<in> set controls"
  "Ctl_CommonProfile_4Bytes \<in> set controls" "Ctl_ImplicitProfile_2Bytes \<in> set controls" "Ctl_ImplicitProfile_4Bytes \<in> set controls"
  "Ctl_FullyQualified_6Bytes \<in> set controls" "Ctl_FullyQualified_8Bytes \<in> set controls"
  by (simp_all add: controls_def)

lemma controls_distinct [simp]: "distinct controls"
  by (simp add: controls_def control_defs)

section \<open>Tags\<close>

text \<open>The tags that may be used in a container of type \<open>ct\<close>.\<close>

definition goodTag :: "TLVType \<Rightarrow> Tag \<Rightarrow> bool" where
  "goodTag ct tag \<longleftrightarrow>
     (if IsProfileTag tag then ct \<in> {kTLVType_NotSpecified, kTLVType_Structure, kTLVType_List}
      else if IsContextTag tag then ct \<in> {kTLVType_Structure, kTLVType_List}
      else tag = AnonymousTag \<and> ct \<in> {kTLVType_NotSpecified, kTLVType_Array, kTLVType_List})"

lemma ContextTag_num: "IsSpecialTag tag \<Longrightarrow> TagNumFromTag tag \<le> kContextTagMaxNum \<Longrightarrow> ContextTag (ucast (TagNumFromTag tag)) = tag"
proof -
  assume a: "IsSpecialTag tag" "TagNumFromTag tag \<le> kContextTagMaxNum"
  have "unat (TagNumFromTag tag) < 2 ^ 8" using a(2) by (simp add: word_le_nat_alt kContextTagMaxNum_def)
  then have "take_bit 8 (TagNumFromTag tag) = TagNumFromTag tag" by (rule take_bit_fits)
  then have "(ucast (ucast (TagNumFromTag tag) :: u8) :: u32) = TagNumFromTag tag" by (simp add: unsigned_ucast_eq)
  then show ?thesis using a(1) by (simp add: ContextTag_def IsSpecialTag_def tag_eq_iff)
qed

definition readsBack :: "u32 \<Rightarrow> TLVElementType \<Rightarrow> Tag \<Rightarrow> bytes \<Rightarrow> bool" where
  "readsBack implicit e tag h \<longleftrightarrow>
     (\<exists>c tb. h = (c OR word_of_int e) # tb \<and> c \<in> set controls \<and> length tb = sTagSizes ! unat (drop_bit 5 c) \<and>
            (\<forall>rest. ReadTag implicit c (tb @ rest) = tag))"

lemma readsBackI:
  "c \<in> set controls \<Longrightarrow> length tb = sTagSizes ! unat (drop_bit 5 c) \<Longrightarrow> (\<And>rest. ReadTag implicit c (tb @ rest) = tag) \<Longrightarrow>
     readsBack implicit e tag ((c OR word_of_int e) # tb)"
  by (auto simp: readsBack_def)

lemma sizes [simp]:
  "sTagSizes ! unat (drop_bit 5 Ctl_Anonymous) = 0" "sTagSizes ! unat (drop_bit 5 Ctl_ContextSpecific) = 1"
  "sTagSizes ! unat (drop_bit 5 Ctl_CommonProfile_2Bytes) = 2" "sTagSizes ! unat (drop_bit 5 Ctl_CommonProfile_4Bytes) = 4"
  "sTagSizes ! unat (drop_bit 5 Ctl_ImplicitProfile_2Bytes) = 2" "sTagSizes ! unat (drop_bit 5 Ctl_ImplicitProfile_4Bytes) = 4"
  "sTagSizes ! unat (drop_bit 5 Ctl_FullyQualified_6Bytes) = 6" "sTagSizes ! unat (drop_bit 5 Ctl_FullyQualified_8Bytes) = 8"
  by code_simp+

lemma small_tag: "(n :: u32) < 65536 \<Longrightarrow> unat n < 2 ^ (8 * 2)"
  by (simp add: word_less_nat_alt)

lemma CommonTag_num: "ProfileIdFromTag tag = kCommonProfileId \<Longrightarrow> CommonTag (TagNumFromTag tag) = tag"
  by (simp add: CommonTag_def tag_eq_iff)

lemma VendorTag_num: "VendorProfileTag (ucast (drop_bit 16 (ProfileIdFromTag tag))) (ucast (ProfileIdFromTag tag)) (TagNumFromTag tag) = tag"
  by (simp add: VendorProfileTag_split)

lemma ReadTag_simps:
  "ReadTag i Ctl_Anonymous p = AnonymousTag" "ReadTag i Ctl_ContextSpecific p = ContextTag (le_word (take 1 p))"
  "ReadTag i Ctl_CommonProfile_2Bytes p = CommonTag (le_word (take 2 p))" "ReadTag i Ctl_CommonProfile_4Bytes p = CommonTag (le_word (take 4 p))"
  "ReadTag i Ctl_ImplicitProfile_2Bytes p = (if i = kProfileIdNotSpecified then UnknownImplicitTag else ProfileTag i (le_word (take 2 p)))"
  "ReadTag i Ctl_ImplicitProfile_4Bytes p = (if i = kProfileIdNotSpecified then UnknownImplicitTag else ProfileTag i (le_word (take 4 p)))"
  "ReadTag i Ctl_FullyQualified_6Bytes p = VendorProfileTag (le_word (take 2 p)) (le_word (take 2 (drop 2 p))) (le_word (take 2 (drop 4 p)))"
  "ReadTag i Ctl_FullyQualified_8Bytes p = VendorProfileTag (le_word (take 2 p)) (le_word (take 2 (drop 2 p))) (le_word (take 4 (drop 4 p)))"
  by (simp_all add: ReadTag_def control_defs)

lemma read_profile_tag:
  assumes "IsProfileTag tag" "tagHead implicit ct e tag = Inr h"
  shows "readsBack implicit e tag h"
proof -
  have ns: "\<not> IsSpecialTag tag" "ProfileIdFromTag tag \<noteq> kProfileIdNotSpecified"
    using assms(1) by (simp_all add: IsProfileTag_def IsSpecialTag_def kSpecialTagProfileId_def kProfileIdNotSpecified_def)
  consider (common) "ProfileIdFromTag tag = kCommonProfileId" | (implicit) "ProfileIdFromTag tag \<noteq> kCommonProfileId" "ProfileIdFromTag tag = implicit"
    | (full) "ProfileIdFromTag tag \<noteq> kCommonProfileId" "ProfileIdFromTag tag \<noteq> implicit" by blast
  then show ?thesis
  proof cases
    case common
    then show ?thesis using assms ns
      by (cases "TagNumFromTag tag < 65536")
        (auto simp: tagHead_def Let_def ReadTag_simps le_word_fits [OF small_tag] CommonTag_num intro!: readsBackI)
  next
    case implicit
    then have "ProfileTag implicit (TagNumFromTag tag) = tag" by (simp add: tag_eq_iff)
    then show ?thesis using assms ns implicit
      by (cases "TagNumFromTag tag < 65536")
        (auto simp: tagHead_def Let_def ReadTag_simps le_word_fits [OF small_tag] intro!: readsBackI)
  next
    case full
    then show ?thesis using assms ns
      by (cases "TagNumFromTag tag < 65536")
        (auto simp: tagHead_def Let_def ReadTag_simps le_word_fits [OF small_tag] VendorTag_num intro!: readsBackI)
  qed
qed

lemma read_special_tag:
  assumes "IsSpecialTag tag" "tagHead implicit ct e tag = Inr h" "IsContextTag tag \<or> tag = AnonymousTag"
  shows "readsBack implicit e tag h"
proof (cases "TagNumFromTag tag \<le> kContextTagMaxNum")
  case True
  then have h: "h = [Ctl_ContextSpecific OR word_of_int e, ucast (TagNumFromTag tag)]" using assms by (simp add: tagHead_def Let_def)
  have "ReadTag implicit Ctl_ContextSpecific ([ucast (TagNumFromTag tag)] @ rest) = tag" for rest
    using ContextTag_num [OF assms(1) True] by (simp add: ReadTag_simps)
  then show ?thesis unfolding h by (intro readsBackI) simp_all
next
  case False
  then have "h = [Ctl_Anonymous OR word_of_int e]" "tag = AnonymousTag" using assms by (simp_all add: tagHead_def Let_def IsContextTag_def)
  then show ?thesis by (auto simp: ReadTag_simps intro!: readsBackI)
qed

lemma read_tag:
  assumes "goodTag ct tag \<or> tag = AnonymousTag" "tagHead implicit ct e tag = Inr h"
  shows "readsBack implicit e tag h"
  using assms read_profile_tag read_special_tag [OF _ assms(2)]
  by (cases "IsProfileTag tag") (auto simp: goodTag_def IsProfileTag_def IsSpecialTag_def split: if_splits)

text \<open>A permitted tag is written, and the end marker too.\<close>

lemma goodTag_written:
  assumes "goodTag ct tag"
  shows "\<exists>h. tagHead implicit ct e tag = Inr h"
proof (cases "IsProfileTag tag")
  case True
  then show ?thesis using assms by (auto simp: tagHead_def Let_def goodTag_def IsProfileTag_def IsSpecialTag_def)
next
  case False
  then show ?thesis using assms
    by (auto simp: tagHead_def Let_def goodTag_def IsProfileTag_def IsSpecialTag_def IsContextTag_def type_defs split: if_splits)
qed

lemma end_written: "tagHead implicit ct Elem_EndOfContainer AnonymousTag = Inr [Ctl_Anonymous OR word_of_int Elem_EndOfContainer]"
  by (simp add: tagHead_def Let_def AnonymousTag_def IsSpecialTag_def kAnonymousTagNum_def kContextTagMaxNum_def)

section \<open>Reading a head\<close>

text \<open>The reader after the head \<open>h\<close> of an element.\<close>

definition headRead :: "bytes \<Rightarrow> Tag \<Rightarrow> u64 \<Rightarrow> TLVReader \<Rightarrow> TLVReader" where
  "headRead h tag v r = (advance (length h) r)\<lparr>mControlByte := ucast (hd h), mElemTag := tag, mElemLenOrVal := v\<rparr>"

definition fieldBytes :: "TLVElementType \<Rightarrow> nat" where
  "fieldBytes e = TLVFieldSizeToBytes (GetTLVFieldSize e)"

text \<open>What makes the reader accept an element that it finds in a container of type \<open>ct\<close>.\<close>

definition acceptable :: "TLVType \<Rightarrow> TLVElementType \<Rightarrow> Tag \<Rightarrow> bool" where
  "acceptable ct e tag \<longleftrightarrow>
     (if e = Elem_EndOfContainer then ct \<noteq> kTLVType_NotSpecified \<and> tag = AnonymousTag
      else goodTag ct tag \<or> (ct = kTLVType_UnknownContainer \<and> tag \<noteq> UnknownImplicitTag))"

lemma goodTag_known: "goodTag ct tag \<Longrightarrow> tag \<noteq> UnknownImplicitTag"
  by (auto simp: goodTag_def UnknownImplicitTag_def AnonymousTag_def IsProfileTag_def IsContextTag_def tag_eq_iff kUnknownImplicitTagNum_def
      kAnonymousTagNum_def kContextTagMaxNum_def split: if_splits)

lemma AnonymousTag_plain [simp]: "\<not> IsProfileTag AnonymousTag" "\<not> IsContextTag AnonymousTag"
  by (simp_all add: AnonymousTag_def IsProfileTag_def IsContextTag_def kAnonymousTagNum_def kContextTagMaxNum_def)

lemma goodTag_AnonymousTag: "goodTag ct AnonymousTag \<longleftrightarrow> ct \<in> {kTLVType_NotSpecified, kTLVType_Array, kTLVType_List}"
  by (simp add: goodTag_def)

lemma ContextTag_context [simp]: "IsContextTag (ContextTag n)" "IsSpecialTag (ContextTag n)" "TagNumFromTag (ContextTag n) \<le> kContextTagMaxNum"
proof -
  have "unat (ucast n :: u32) \<le> 255" using unsigned_less [of n, where ?'a = nat] by (simp add: unsigned_ucast_eq take_bit_nat_eq_self)
  then show c: "IsContextTag (ContextTag n)" by (simp add: IsContextTag_def ContextTag_def word_le_nat_alt kContextTagMaxNum_def)
  then show "IsSpecialTag (ContextTag n)" "TagNumFromTag (ContextTag n) \<le> kContextTagMaxNum" by (simp_all add: IsContextTag_def IsSpecialTag_def)
qed

lemma goodTag_ContextTag: "goodTag ct (ContextTag n) \<longleftrightarrow> ct \<in> {kTLVType_Structure, kTLVType_List}"
  using ContextTag_context(1) [of n] by (simp add: goodTag_def IsProfileTag_def ContextTag_def)

lemma goodTag_ProfileTag:
  "p \<noteq> kSpecialTagProfileId \<Longrightarrow> goodTag ct (ProfileTag p n) \<longleftrightarrow> ct \<in> {kTLVType_NotSpecified, kTLVType_Structure, kTLVType_List}"
  by (simp add: goodTag_def IsProfileTag_def)

lemma Profile_not_Context: "IsProfileTag t \<Longrightarrow> \<not> IsContextTag t"
  by (simp add: IsProfileTag_def IsContextTag_def)

lemma VerifyElement_acceptable:
  assumes "acceptable (rContainerType r) (ElementType r) (mElemTag r)"
    "TLVTypeHasLength (ElementType r) \<Longrightarrow> (ucast (mElemLenOrVal r) :: u32) \<le> rMaxLen r - mLenRead r"
  shows "VerifyElement r = None"
proof -
  have "goodTag (rContainerType r) (mElemTag r) \<Longrightarrow> ElementType r \<noteq> Elem_EndOfContainer \<Longrightarrow> ?thesis"
    using assms(2) goodTag_known [of "rContainerType r" "mElemTag r"] Profile_not_Context [of "mElemTag r"]
    by (auto simp: VerifyElement_def goodTag_def type_defs not_less split: if_splits)
  then show ?thesis using assms by (auto simp: VerifyElement_def acceptable_def type_defs not_less split: if_splits)
qed

lemma remaining_contig: "contig r \<Longrightarrow> unat (rMaxLen r - mLenRead r) = length (rBuf r)"
  by (auto simp: contig_def unat_sub word_le_nat_alt)

lemma ReadElement_head:
  assumes r: "contig r" "rBuf r = h @ valueField e v @ rest" "acceptable (rContainerType r) e tag"
    and h: "readsBack (rImplicitProfileId r) e tag h"
    and e: "0 \<le> e" "e \<le> 24" "unat v < 2 ^ (8 * fieldBytes e)" "TLVTypeHasLength e \<Longrightarrow> unat v \<le> length rest \<and> unat v < 2 ^ 32"
  shows "ReadElement r = (None, headRead (h @ valueField e v) tag v r) \<and> ElementType (headRead (h @ valueField e v) tag v r) = e"
proof -
  obtain c tb where c: "h = (c OR word_of_int e) # tb" "c \<in> set controls" "length tb = sTagSizes ! unat (drop_bit 5 c)"
    "\<And>rest. ReadTag (rImplicitProfileId r) c (tb @ rest) = tag" using h by (auto simp: readsBack_def)
  let ?c = "c OR word_of_int e" and ?h = "h @ valueField e v"
  note parts = control_parts [OF c(2) e(1,2)]
  have vb: "valueBytesOf ?c = fieldBytes e" "tagBytesOf ?c = length tb" by (simp_all add: valueBytesOf_def tagBytesOf_def fieldBytes_def parts c(3))
  have vf: "length (valueField e v) = fieldBytes e" "valueField e v = le_bytes (fieldBytes e) v" by (simp_all add: valueField_def fieldBytes_def)
  define r1 where "r1 = r\<lparr>mControlByte := ucast ?c\<rparr>"
  define r2 where "r2 = headRead ?h tag v r"
  have et: "ElementType r1 = e" "ElementType r2 = e" using parts c(1) by (simp_all add: ElementType_def r1_def r2_def headRead_def)
  have len: "1 + tagBytesOf ?c + valueBytesOf ?c = length ?h" by (simp add: vb vf c(1))
  have "ReadElement r = parseHead ?h (advance (length ?h) r1)"
    using r(1,2) c(1) et(1) e(2) len by (auto simp: ReadElement_def EnsureData_contig contig_def Let_def r1_def IsValidTLVType_def type_defs)
  moreover have "parseHead ?h (advance (length ?h) r1) = (VerifyElement r2, r2)"
  proof -
    have "le_word (take (valueBytesOf ?c) (drop (tagBytesOf ?c) (tl ?h))) = v" using c(1) e(3) by (simp add: vb vf le_word_fits)
    moreover have "ReadTag (rImplicitProfileId r) (tagControlOf ?c) (tl ?h) = tag" using c(1,4) by (simp add: parts)
    moreover have "(advance (length ?h) r1)\<lparr>mElemTag := tag, mElemLenOrVal := v\<rparr> = r2" by (simp add: r1_def r2_def headRead_def advance_def c(1))
    moreover have "\<not> (TLVTypeHasLength e \<and> v > 0xFFFFFFFF)" using e(4) by (auto simp: word_less_nat_alt)
    moreover have "rImplicitProfileId (advance (length ?h) r1) = rImplicitProfileId r" by (simp add: r1_def)
    moreover have "hd ?h = ?c" by (simp add: c(1))
    ultimately show ?thesis using et by (auto simp: parseHead_def Let_def)
  qed
  moreover have "VerifyElement r2 = None"
  proof (rule VerifyElement_acceptable)
    have r2: "rContainerType r2 = rContainerType r" "mElemTag r2 = tag" "mElemLenOrVal r2 = v" "rBuf r2 = rest"
      using r(2) by (simp_all add: r2_def headRead_def)
    show "acceptable (rContainerType r2) (ElementType r2) (mElemTag r2)" using r(3) et(2) r2 by simp
    have "contig r2" using reads_advance [OF r(1), of "length ?h"] r(2) reads_contig by (simp add: r2_def headRead_def)
    then have rem: "unat (rMaxLen r2 - mLenRead r2) = length rest" using remaining_contig r2 by simp
    assume "TLVTypeHasLength (ElementType r2)"
    then have "unat v \<le> length rest" "unat v < 2 ^ 32" using et(2) e(4) by auto
    then show "(ucast (mElemLenOrVal r2) :: u32) \<le> rMaxLen r2 - mLenRead r2"
      using rem r2(3) by (simp add: word_le_nat_alt unsigned_ucast_eq take_bit_nat_eq_self)
  qed
  ultimately show ?thesis using et(2) by (simp add: r2_def)
qed

end
