(* ===== verification/Tlv_Tree.thy ===== *)
theory Tlv_Tree
  imports Tlv_Head
begin

text \<open>
  Trees of TLV elements: their encoding, the calls of the writer that produce it, and what the reader does with it.  \<open>putElement\<close> writes
  a tree with the public functions of the writer; \<open>readAll\<close> is a program that reads whatever it finds with the public functions of
  the reader.  The facts on the single operations are used by the properties in \<open>Tlv_Roundtrip\<close>.
\<close>

unbundle bit_operations_syntax

section \<open>Elements\<close>

datatype tlvValue = VBool bool | VUInt u64 | VInt u64 | VFloat u32 | VDouble u64 | VNull | VBytes bytes | VString bytes

datatype element = Leaf Tag tlvValue | Node Tag TLVType "element list"

definition uintType :: "u64 \<Rightarrow> TLVElementType" where
  "uintType v = (if v \<le> 0xFF then Elem_UInt8 else if v \<le> 0xFFFF then Elem_UInt16 else if v \<le> 0xFFFFFFFF then Elem_UInt32 else Elem_UInt64)"

definition sintType :: "u64 \<Rightarrow> TLVElementType" where
  "sintType v = (if - 0x80 \<le> sint v \<and> sint v \<le> 0x7F then Elem_Int8
                 else if - 0x8000 \<le> sint v \<and> sint v \<le> 0x7FFF then Elem_Int16
                 else if - 0x80000000 \<le> sint v \<and> sint v \<le> 0x7FFFFFFF then Elem_Int32 else Elem_Int64)"

fun vType :: "tlvValue \<Rightarrow> TLVElementType" where
  "vType (VBool b) = (if b then Elem_BooleanTrue else Elem_BooleanFalse)"
| "vType (VUInt v) = uintType v"
| "vType (VInt v) = sintType v"
| "vType (VFloat v) = Elem_FloatingPointNumber32"
| "vType (VDouble v) = Elem_FloatingPointNumber64"
| "vType VNull = Elem_Null"
| "vType (VBytes bs) = kTLVType_ByteString + lenFieldSize (length bs)"
| "vType (VString bs) = kTLVType_UTF8String + lenFieldSize (length bs)"

text \<open>The length or value field, cut to its width, and the data that follow it.\<close>

fun vField :: "tlvValue \<Rightarrow> u64" where
  "vField (VUInt v) = v"
| "vField (VInt v) = take_bit (8 * fieldBytes (sintType v)) v"
| "vField (VFloat v) = ucast v"
| "vField (VDouble v) = v"
| "vField (VBytes bs) = of_nat (length bs)"
| "vField (VString bs) = of_nat (length bs)"
| "vField _ = 0"

fun vData :: "tlvValue \<Rightarrow> bytes" where
  "vData (VBytes bs) = bs"
| "vData (VString bs) = bs"
| "vData _ = []"

definition headOf :: "u32 \<Rightarrow> TLVType \<Rightarrow> TLVElementType \<Rightarrow> Tag \<Rightarrow> u64 \<Rightarrow> bytes" where
  "headOf implicit ct e tag v = (case headBytes implicit ct e tag v of Inl _ \<Rightarrow> [] | Inr h \<Rightarrow> h)"

fun enc :: "u32 \<Rightarrow> TLVType \<Rightarrow> element \<Rightarrow> bytes" where
  "enc implicit ct (Leaf tag v) = headOf implicit ct (vType v) tag (vField v) @ vData v"
| "enc implicit ct (Node tag e kids) = headOf implicit ct e tag 0 @ concat (map (enc implicit e) kids) @ [0x18]"

abbreviation encs :: "u32 \<Rightarrow> TLVType \<Rightarrow> element list \<Rightarrow> bytes" where
  "encs implicit ct xs \<equiv> concat (map (enc implicit ct) xs)"

text \<open>Values that fit the format: data of less than \<open>2^32\<close> bytes.  Tags as the container type permits.\<close>

fun goodValue :: "tlvValue \<Rightarrow> bool" where
  "goodValue (VBytes bs) \<longleftrightarrow> length bs < 2 ^ 32"
| "goodValue (VString bs) \<longleftrightarrow> length bs < 2 ^ 32"
| "goodValue _ \<longleftrightarrow> True"

fun good :: "TLVType \<Rightarrow> element \<Rightarrow> bool" where
  "good ct (Leaf tag v) \<longleftrightarrow> goodTag ct tag \<and> goodValue v"
| "good ct (Node tag e kids) \<longleftrightarrow> goodTag ct tag \<and> TLVTypeIsContainer e \<and> list_all (good e) kids"

text \<open>The reader cuts a text at its first separator 0x1F, where the writer does not look: what is received of a value and of an element.\<close>

fun cutValue :: "tlvValue \<Rightarrow> tlvValue" where
  "cutValue (VString bs) = VString (takeWhile (\<lambda>b. b \<noteq> kUnicodeInformationSeparator1) bs)"
| "cutValue v = v"

fun cutTexts :: "element \<Rightarrow> element" where
  "cutTexts (Leaf tag v) = Leaf tag (cutValue v)"
| "cutTexts (Node tag e kids) = Node tag e (map cutTexts kids)"

fun separatorFree :: "element \<Rightarrow> bool" where
  "separatorFree (Leaf tag v) \<longleftrightarrow> (case v of VString bs \<Rightarrow> kUnicodeInformationSeparator1 \<notin> set bs | _ \<Rightarrow> True)"
| "separatorFree (Node tag e kids) \<longleftrightarrow> list_all separatorFree kids"

lemma cutTexts_id: "separatorFree x \<Longrightarrow> cutTexts x = x"
proof (induction x)
  case (Leaf tag v)
  then show ?case by (cases v) (auto simp: takeWhile_eq_all_conv)
next
  case (Node tag e kids)
  then show ?case by (auto simp: list_all_iff intro: map_idI)
qed

fun tagOf :: "element \<Rightarrow> Tag" where
  "tagOf (Leaf tag v) = tag"
| "tagOf (Node tag e kids) = tag"

section \<open>Writing\<close>

fun putValue :: "Tag \<Rightarrow> tlvValue \<Rightarrow> TLVWriter \<Rightarrow> wResult option" where
  "putValue tag (VBool b) = PutBoolean tag b"
| "putValue tag (VUInt v) = Put_uint64 tag v"
| "putValue tag (VInt v) = Put_int64 tag v"
| "putValue tag (VFloat v) = Put_float tag v"
| "putValue tag (VDouble v) = Put_double tag v"
| "putValue tag VNull = PutNull tag"
| "putValue tag (VBytes bs) = Put_ByteSpan tag bs"
| "putValue tag (VString bs) = PutString_span tag bs"

fun putElement :: "element \<Rightarrow> TLVWriter \<Rightarrow> wResult option" and putElements :: "element list \<Rightarrow> TLVWriter \<Rightarrow> wResult option" where
  "putElement (Leaf tag v) w = putValue tag v w"
| "putElement (Node tag ct kids) w =
     (case StartContainer tag ct w of
        None \<Rightarrow> None
      | Some (Some e, _, w) \<Rightarrow> Some (Some e, w)
      | Some (None, outer, w) \<Rightarrow> rThen (putElements kids w) (EndContainer outer))"
| "putElements [] w = Some (None, w)"
| "putElements (x # xs) w = rThen (putElement x w) (putElements xs)"

text \<open>
  \<open>exact b cap d w\<close>: \<open>w\<close> writes to a buffer of \<open>cap\<close> bytes, of which the first \<open>b\<close> were written before by an enclosing writer, with
  \<open>d\<close> containers begun whose end markers are reserved.
\<close>

definition exact :: "nat \<Rightarrow> nat \<Rightarrow> nat \<Rightarrow> TLVWriter \<Rightarrow> bool" where
  "exact b cap d w \<longleftrightarrow> cap < 2 ^ 32 \<and> wStore w = None \<and> length (wBuf w) = b + unat (mLenWritten w) \<and>
     length (wBuf w) + unat (mRemainingLen w) = cap \<and> b + unat (wMaxLen w) + d = cap \<and> \<not> wContainerOpen w \<and> mCloseContainerReserved w"

lemma exact_store:
  assumes "exact b cap d w" "length (wBuf w) + length bs + d \<le> cap"
  shows "exact b cap d (store bs w)"
proof -
  have rem: "length bs \<le> unat (mRemainingLen w)" using assms by (simp add: exact_def)
  have "unat (mLenWritten w) + length bs < 2 ^ 32" using assms by (simp add: exact_def)
  then have "unat (mLenWritten w + of_nat (length bs)) = unat (mLenWritten w) + length bs"
    by (simp add: unat_word_ariths unat_of_nat mod_simps)
  then show ?thesis using assms unat_sub_of_nat [OF rem] rem by (simp add: exact_def)
qed

lemma WriteData_exact:
  assumes "exact b cap d w" "length (wBuf w) + length bs + d \<le> cap"
  shows "WriteData bs w = Some (None, store bs w)"
proof -
  have "unat (mLenWritten w) + length bs < 2 ^ 32" using assms by (simp add: exact_def)
  then have "unat (mLenWritten w + of_nat (length bs)) = unat (mLenWritten w) + length bs"
    by (simp add: unat_word_ariths unat_of_nat mod_simps)
  then have "mLenWritten w + of_nat (length bs) \<le> wMaxLen w" using assms by (simp add: exact_def word_le_nat_alt)
  moreover have "length bs \<le> unat (mRemainingLen w)" using assms by (simp add: exact_def)
  ultimately show ?thesis using assms by (simp add: WriteData_def writeLoop_contig exact_def)
qed

lemma WriteHead_exact:
  assumes "exact b cap d w" "headBytes (wImplicitProfileId w) (wContainerType w) e tag v = Inr h" "length (wBuf w) + length h + d \<le> cap"
  shows "WriteElementHead e tag v w = Some (None, store h w)"
  using assms WriteData_exact [OF assms(1,3)] by (simp add: WriteElementHead_def exact_def)

lemma good_head: "goodTag ct tag \<Longrightarrow> headBytes implicit ct e tag v = Inr (headOf implicit ct e tag v)"
  using goodTag_written [of ct tag implicit e] by (auto simp: headOf_def headBytes_def)

lemma end_head: "headBytes implicit ct Elem_EndOfContainer AnonymousTag 0 = Inr [0x18]"
  using end_written [of implicit ct]
  by (simp add: headBytes_def valueField_def GetTLVFieldSize_def TLVFieldSizeToBytes_def TLVTypeHasValue_def type_defs control_defs)

lemma WriteElementWithData_exact:
  assumes "exact b cap d w" "goodTag (wContainerType w) tag" "ty mod 4 = 0" "h = headOf (wImplicitProfileId w) (wContainerType w) (ty + lenFieldSize (length bs)) tag (of_nat (length bs))"
    "length (wBuf w) + length (h @ bs) + d \<le> cap"
  shows "WriteElementWithData ty tag bs w = Some (None, store (h @ bs) w)"
proof -
  have h: "WriteElementHead (ty + lenFieldSize (length bs)) tag (of_nat (length bs)) w = Some (None, store h w)"
    using WriteHead_exact [OF assms(1) good_head [OF assms(2)]] assms(4,5) by simp
  have "exact b cap d (store h w)" using exact_store [OF assms(1)] assms(5) by simp
  then have "WriteData bs (store h w) = Some (None, store (h @ bs) w)" using WriteData_exact assms(5) by simp
  with h assms(3) show ?thesis by (simp add: WriteElementWithData_def rThen_def)
qed

text \<open>The value field only has the bits of its width.\<close>

lemma valueField_take_bit: "valueField e (take_bit (8 * fieldBytes e) v) = valueField e v"
proof (rule nth_equalityI)
  fix i assume "i < length (valueField e (take_bit (8 * fieldBytes e) v))"
  then have i: "i < fieldBytes e" by (simp add: valueField_def fieldBytes_def)
  show "valueField e (take_bit (8 * fieldBytes e) v) ! i = valueField e v ! i"
    using i by (intro bit_word_eqI) (auto simp: valueField_def fieldBytes_def le_bytes_def bit_ucast_iff bit_drop_bit_eq bit_take_bit_iff)
qed (simp add: valueField_def)

lemma headOf_take_bit: "headOf implicit ct e tag (take_bit (8 * fieldBytes e) v) = headOf implicit ct e tag v"
  by (simp add: headOf_def headBytes_def valueField_take_bit)

lemma Put_ints: "Put_uint64 tag v = WriteElementHead (uintType v) tag v" "Put_int64 tag v = WriteElementHead (sintType v) tag v"
  by (simp_all only: Put_uint64_def uintType_def Put_int64_def sintType_def)

lemma putValue_exact:
  assumes "exact b cap d w" "goodTag (wContainerType w) tag" "goodValue v"
    "length (wBuf w) + length (enc (wImplicitProfileId w) (wContainerType w) (Leaf tag v)) + d \<le> cap"
  shows "putValue tag v w = Some (None, store (enc (wImplicitProfileId w) (wContainerType w) (Leaf tag v)) w)"
proof -
  note head = WriteHead_exact [OF assms(1) good_head [OF assms(2)]]
  show ?thesis
  proof (cases v)
    case (VInt x)
    then show ?thesis using head [of "sintType x" x] assms(4) by (simp add: Put_ints headOf_take_bit)
  next
    case (VBytes bs)
    then show ?thesis using WriteElementWithData_exact [OF assms(1,2) _ refl, of kTLVType_ByteString bs] assms(3,4)
      by (simp add: Put_ByteSpan_def PutBytes_def kTLVType_ByteString_def)
  next
    case (VString bs)
    then show ?thesis using WriteElementWithData_exact [OF assms(1,2) _ refl, of kTLVType_UTF8String bs] assms(3,4)
      by (simp add: PutString_span_def PutString_def kTLVType_UTF8String_def)
  qed (use head assms(4) in \<open>simp_all add: PutBoolean_def Put_ints Put_float_def Put_double_def PutNull_def\<close>)
qed

lemma beginContainer_exact:
  assumes "exact b cap d w" "goodTag (wContainerType w) tag" "TLVTypeIsContainer e" "h = headOf (wImplicitProfileId w) (wContainerType w) e tag 0"
    "length (wBuf w) + length h + d + 1 \<le> cap"
  shows "StartContainer tag e w = Some (None, wContainerType w, (store h w)\<lparr>wMaxLen := wMaxLen w - 1, wContainerType := e\<rparr>)"
    "exact b cap (d + 1) ((store h w)\<lparr>wMaxLen := wMaxLen w - 1, wContainerType := e\<rparr>)"
proof -
  have m: "1 \<le> wMaxLen w" "b + unat (wMaxLen w - 1) + (d + 1) = cap"
    using assms(1,5) by (auto simp: exact_def word_le_nat_alt unat_sub)
  have nz: "wMaxLen w \<noteq> 0" using m(1) by (auto simp: word_le_nat_alt)
  have w1: "exact b cap (d + 1) (w\<lparr>wMaxLen := wMaxLen w - 1\<rparr>)" using assms(1) m by (simp add: exact_def)
  have "WriteElementHead e tag 0 (w\<lparr>wMaxLen := wMaxLen w - 1\<rparr>) = Some (None, store h (w\<lparr>wMaxLen := wMaxLen w - 1\<rparr>))"
    using WriteHead_exact [OF w1, of e tag 0 h] good_head [OF assms(2)] assms(4,5) by simp
  moreover have "store h (w\<lparr>wMaxLen := n\<rparr>) = (store h w)\<lparr>wMaxLen := n\<rparr>" for n by (simp add: store_def)
  moreover have "wContainerOpen w = False" "mCloseContainerReserved w" using assms(1) by (simp_all add: exact_def)
  moreover have "(store h w)\<lparr>wMaxLen := n, wContainerType := e, wContainerOpen := False\<rparr> = (store h w)\<lparr>wMaxLen := n, wContainerType := e\<rparr>"
    if "wContainerOpen w = False" for n using that by (simp add: store_def)
  ultimately show "StartContainer tag e w = Some (None, wContainerType w, (store h w)\<lparr>wMaxLen := wMaxLen w - 1, wContainerType := e\<rparr>)"
    using assms(3) nz by (simp add: StartContainer_def beginContainer_def Let_def kEndOfContainerMarkerSize_def not_less)
  show "exact b cap (d + 1) ((store h w)\<lparr>wMaxLen := wMaxLen w - 1, wContainerType := e\<rparr>)"
    using exact_store [OF assms(1), of h] assms(5) m by (simp add: exact_def)
qed

lemma EndContainer_exact:
  assumes "exact b cap (d + 1) w" "TLVTypeIsContainer (wContainerType w)" "length (wBuf w) + 1 + d \<le> cap"
  shows "EndContainer outer w = Some (None, (store [0x18] w)\<lparr>wMaxLen := wMaxLen w + 1, wContainerType := outer\<rparr>)"
proof -
  let ?w = "w\<lparr>wContainerType := outer, wMaxLen := wMaxLen w + 1\<rparr>"
  have "unat (wMaxLen w) + 1 < 2 ^ 32" using assms(1) by (simp add: exact_def)
  then have "unat (wMaxLen w + 1) = unat (wMaxLen w) + 1" by (simp add: unat_word_ariths)
  then have "exact b cap d ?w" using assms(1) by (simp add: exact_def)
  from WriteHead_exact [OF this, of Elem_EndOfContainer AnonymousTag 0 "[0x18]"] assms
  show ?thesis by (simp add: EndContainer_def Let_def end_head kEndOfContainerMarkerSize_def store_def exact_def)
qed

text \<open>Opening a container on a container writer and closing it.\<close>

lemma OpenContainer_exact:
  assumes "exact b cap d w" "goodTag (wContainerType w) tag" "TLVTypeIsContainer e" "h = headOf (wImplicitProfileId w) (wContainerType w) e tag 0"
    "length (wBuf w) + length h + d + 1 \<le> cap"
  shows "\<exists>c w'. Writer_OpenContainer tag e c0 w = Some (None, c, w') \<and> w' = (store h w)\<lparr>wMaxLen := wMaxLen w - 1, wContainerOpen := True\<rparr> \<and>
     exact (length (wBuf w) + length h) cap (d + 1) c \<and> wBuf c = wBuf w @ h \<and> wContainerType c = e \<and> wImplicitProfileId c = wImplicitProfileId w \<and> wDone c = wDone w"
proof -
  have m: "1 \<le> wMaxLen w" "b + unat (wMaxLen w - 1) + (d + 1) = cap"
    using assms(1,5) by (auto simp: exact_def word_le_nat_alt unat_sub)
  have nz: "wMaxLen w \<noteq> 0" using m(1) by (auto simp: word_le_nat_alt)
  have w1: "exact b cap (d + 1) (w\<lparr>wMaxLen := wMaxLen w - 1\<rparr>)" using assms(1) m by (simp add: exact_def)
  let ?w2 = "(store h w)\<lparr>wMaxLen := wMaxLen w - 1\<rparr>"
  have s: "store h (w\<lparr>wMaxLen := wMaxLen w - 1\<rparr>) = ?w2" by (simp add: store_def)
  have wr: "WriteElementHead e tag 0 (w\<lparr>wMaxLen := wMaxLen w - 1\<rparr>) = Some (None, ?w2)"
    using WriteHead_exact [OF w1, of e tag 0 h] good_head [OF assms(2)] assms(4,5) s by simp
  have ex: "exact b cap (d + 1) ?w2" using exact_store [OF w1, of h] assms(5) s by simp
  then have le: "mLenWritten ?w2 \<le> wMaxLen ?w2" using assms(5) by (simp add: exact_def word_le_nat_alt)
  have "unat (wMaxLen ?w2 - mLenWritten ?w2) = unat (wMaxLen ?w2) - unat (mLenWritten ?w2)" using le by (rule unat_sub)
  then show ?thesis using wr ex assms(1,3) nz le
    by (auto simp: Writer_OpenContainer_def beginContainer_def Let_def kEndOfContainerMarkerSize_def exact_def word_le_nat_alt)
qed

lemma CloseContainer_exact:
  assumes "exact b cap d (w\<lparr>wMaxLen := wMaxLen w + 1, wContainerOpen := False\<rparr>)" "exact (length (wBuf w)) cap (d + 1) c" "TLVTypeIsContainer (wContainerType c)"
    "length (wBuf c) + 1 + d \<le> cap"
  shows "\<exists>c' w'. Writer_CloseContainer c w = Some (None, c', w') \<and> wBuf w' = wBuf c @ [0x18] \<and> exact b cap d w' \<and> wDone w' = wDone c \<and>
     wContainerType w' = wContainerType w \<and> wImplicitProfileId w' = wImplicitProfileId w"
proof -
  define w1 where "w1 = w\<lparr>wStore := wStore c, wCalls := wCalls c, wDone := wDone c, wBuf := wBuf c, mRemainingLen := mRemainingLen c,
      mLenWritten := mLenWritten w + mLenWritten c, wMaxLen := wMaxLen w + 1, wContainerOpen := False\<rparr>"
  have "unat (mLenWritten w) + unat (mLenWritten c) < 2 ^ 32" using assms(1,2,4) by (simp add: exact_def)
  then have "unat (mLenWritten w + mLenWritten c) = unat (mLenWritten w) + unat (mLenWritten c)" by (simp add: unat_word_ariths)
  then have "exact b cap d w1" using assms(1,2) by (simp add: exact_def w1_def)
  moreover have "headBytes (wImplicitProfileId w1) (wContainerType w1) Elem_EndOfContainer AnonymousTag 0 = Inr [0x18]" by (rule end_head)
  moreover have "length (wBuf w1) + length [0x18::u8] + d \<le> cap" using assms(4) by (simp add: w1_def)
  ultimately have "WriteElementHead Elem_EndOfContainer AnonymousTag 0 w1 = Some (None, store [0x18] w1)" "exact b cap d (store [0x18] w1)"
    using WriteHead_exact exact_store by blast+
  moreover have "mCloseContainerReserved w" "\<not> wContainerOpen c" using assms(1,2) by (simp_all add: exact_def)
  ultimately show ?thesis using assms(3)
    by (auto simp: Writer_CloseContainer_def Let_def kEndOfContainerMarkerSize_def w1_def [symmetric]) (simp_all add: w1_def)
qed

text \<open>When the encoding fits, \<open>putElement\<close> succeeds and appends it.\<close>

lemma put_exact:
  "exact b cap d w \<Longrightarrow> good (wContainerType w) x \<Longrightarrow> length (wBuf w) + length (enc (wImplicitProfileId w) (wContainerType w) x) + d \<le> cap \<Longrightarrow>
     putElement x w = Some (None, store (enc (wImplicitProfileId w) (wContainerType w) x) w)"
  "exact b cap d w \<Longrightarrow> list_all (good (wContainerType w)) xs \<Longrightarrow> length (wBuf w) + length (encs (wImplicitProfileId w) (wContainerType w) xs) + d \<le> cap \<Longrightarrow>
     putElements xs w = Some (None, store (encs (wImplicitProfileId w) (wContainerType w) xs) w)"
proof (induction x w and xs w arbitrary: d and d rule: putElement_putElements.induct)
  case (1 tag v w)
  then show ?case using putValue_exact by simp
next
  case (2 tag e kids w)
  define h where "h = headOf (wImplicitProfileId w) (wContainerType w) e tag 0"
  define ks where "ks = encs (wImplicitProfileId w) e kids"
  define w1 where "w1 = (store h w)\<lparr>wMaxLen := wMaxLen w - 1, wContainerType := e\<rparr>"
  have g: "goodTag (wContainerType w) tag" "TLVTypeIsContainer e" "list_all (good e) kids" using 2(3) by simp_all
  have len: "length (wBuf w) + length h + length ks + 1 + d \<le> cap" using 2(4) by (simp add: h_def ks_def)
  have st: "StartContainer tag e w = Some (None, wContainerType w, w1)" "exact b cap (d + 1) w1"
    unfolding w1_def by (rule beginContainer_exact [OF 2(2) g(1,2) h_def], use len in simp)+
  have k: "putElements kids w1 = Some (None, store ks w1)"
    using 2(1) [OF st(1) refl refl refl st(2)] g(3) len by (simp add: w1_def ks_def)
  have "exact b cap (d + 1) (store ks w1)" by (rule exact_store [OF st(2)], use len in \<open>simp add: w1_def\<close>)
  then have e: "EndContainer (wContainerType w) (store ks w1)
      = Some (None, (store [0x18] (store ks w1))\<lparr>wMaxLen := wMaxLen (store ks w1) + 1, wContainerType := wContainerType w\<rparr>)"
    by (rule EndContainer_exact, use g(2) len in \<open>simp_all add: w1_def\<close>)
  have "(store [0x18] (store ks w1))\<lparr>wMaxLen := wMaxLen (store ks w1) + 1, wContainerType := wContainerType w\<rparr> = store (h @ ks @ [0x18]) w"
    by (simp add: w1_def store_def algebra_simps)
  with st(1) k e show ?case by (simp add: rThen_def h_def ks_def)
next
  case (3 w)
  then show ?case by simp
next
  case (4 x xs w)
  let ?x = "enc (wImplicitProfileId w) (wContainerType w) x"
  have x: "putElement x w = Some (None, store ?x w)" using 4(1) [OF 4(3)] 4(4,5) by simp
  have "exact b cap d (store ?x w)" using exact_store [OF 4(3)] 4(5) by simp
  from 4(2) [OF this] 4(4,5) x show ?case by (simp add: rThen_def)
qed

section \<open>Values read back\<close>

text \<open>The value of the element the reader is on, by the getter for its type.\<close>

definition getValue :: "TLVReader \<Rightarrow> chip_error option \<times> tlvValue" where
  "getValue r =
     (let t = GetType r in
      if t = 0 then (case Get_int64 r 0 of (err, v) \<Rightarrow> (err, VInt (word_of_int v)))
      else if t = 4 then (case Get_uint64 r 0 of (err, v) \<Rightarrow> (err, VUInt v))
      else if t = 8 then (case Get_bool r False of (err, v) \<Rightarrow> (err, VBool v))
      else if t = kTLVType_FloatingPointNumber
      then (case Get_double r (DoubleBits 0) of (err, FloatBits v) \<Rightarrow> (err, VFloat v) | (err, DoubleBits v) \<Rightarrow> (err, VDouble v))
      else if t = kTLVType_UTF8String then (case Get_CharSpan r [] of (err, v) \<Rightarrow> (err, VString v))
      else if t = kTLVType_ByteString then (case Get_ByteSpan r [] of (err, v) \<Rightarrow> (err, VBytes v))
      else (None, VNull))"

lemma field_simps_types:
  "fieldBytes Elem_Int8 = 1" "fieldBytes Elem_Int16 = 2" "fieldBytes Elem_Int32 = 4" "fieldBytes Elem_Int64 = 8"
  "fieldBytes Elem_UInt8 = 1" "fieldBytes Elem_UInt16 = 2" "fieldBytes Elem_UInt32 = 4" "fieldBytes Elem_UInt64 = 8"
  "fieldBytes Elem_FloatingPointNumber32 = 4" "fieldBytes Elem_FloatingPointNumber64 = 8" "fieldBytes Elem_BooleanFalse = 0"
  "fieldBytes Elem_BooleanTrue = 0" "fieldBytes Elem_Null = 0" "fieldBytes Elem_EndOfContainer = 0"
  by code_simp+

lemma fieldBytes_len:
  "fieldBytes (kTLVType_ByteString + lenFieldSize n) = (if n \<le> 255 then 1 else if n \<le> 65535 then 2 else 4)"
  "fieldBytes (kTLVType_UTF8String + lenFieldSize n) = (if n \<le> 255 then 1 else if n \<le> 65535 then 2 else 4)"
  by (simp_all add: fieldBytes_def lenFieldSize_def GetTLVFieldSize_def TLVFieldSizeToBytes_def TLVTypeHasValue_def type_defs)

lemma fieldBytes_container: "TLVTypeIsContainer e \<Longrightarrow> fieldBytes e = 0"
  by (simp add: fieldBytes_def GetTLVFieldSize_def TLVFieldSizeToBytes_def TLVTypeHasValue_def TLVTypeIsContainer_def type_defs)

lemma unat_take_bit_less: "unat (take_bit m (v :: 'a::len word)) < 2 ^ m"
  by (simp add: unsigned_take_bit_eq)

lemma vField_fits:
  assumes "goodValue v"
  shows "unat (vField v) < 2 ^ (8 * fieldBytes (vType v))"
proof (cases v)
  case (VUInt x)
  have "unat x < 2 ^ 64" using unsigned_less [of x, where ?'a = nat] by simp
  then show ?thesis using VUInt by (auto simp: uintType_def field_simps_types word_le_nat_alt)
next
  case (VInt x)
  then show ?thesis using unat_take_bit_less by simp
next
  case (VFloat x)
  have "unat x < 2 ^ 32" using unsigned_less [of x, where ?'a = nat] by simp
  then show ?thesis using VFloat by (simp add: field_simps_types unsigned_ucast_eq take_bit_nat_eq_self)
next
  case (VDouble x)
  have "unat x < 2 ^ 64" using unsigned_less [of x, where ?'a = nat] by simp
  then show ?thesis using VDouble by (simp add: field_simps_types)
qed (use assms in \<open>auto simp: field_simps_types fieldBytes_len unat_of_nat\<close>)

lemma vType_range: "0 \<le> vType v" "vType v \<le> 20" "\<not> TLVTypeIsContainer (vType v)" "vType v \<noteq> Elem_EndOfContainer" "vType v \<noteq> Elem_NotSpecified"
  by (cases v; simp add: uintType_def sintType_def lenFieldSize_def TLVTypeIsContainer_def type_defs)+

lemma vData_length:
  assumes "goodValue v"
  shows "if TLVTypeHasLength (vType v) then vField v = of_nat (length (vData v)) \<and> length (vData v) < 2 ^ 32 else vData v = []"
  using assms by (cases v) (auto simp: uintType_def sintType_def lenFieldSize_def TLVTypeHasLength_def type_defs)

lemma sint_ucast_small:
  fixes v :: u64
  assumes "LENGTH('b::len) \<le> 64" "- (2 ^ (LENGTH('b) - 1)) \<le> sint v" "sint v < 2 ^ (LENGTH('b) - 1)"
  shows "sint (ucast (take_bit LENGTH('b) v) :: 'b word) = sint v"
proof -
  have "(ucast (take_bit LENGTH('b) v) :: 'b word) = ucast v"
    by (rule bit_word_eqI) (auto simp: bit_ucast_iff bit_take_bit_iff)
  also have "\<dots> = word_of_int (sint v)"
    by (rule bit_word_eqI) (use assms(1) in \<open>auto simp: bit_ucast_iff bit_signed_iff min_absorb2\<close>)
  finally have "(ucast (take_bit LENGTH('b) v) :: 'b word) = word_of_int (sint v)" .
  moreover have "signed_take_bit (LENGTH('b) - 1) (sint v) = sint v" using assms(2,3) by (simp add: signed_take_bit_int_eq_self)
  ultimately show ?thesis by (simp only: sint_sbintrunc' One_nat_def)
qed

lemma Get_int64_read:
  assumes "ElementType r = sintType x" "mElemLenOrVal r = vField (VInt x)"
  shows "Get_int64 r 0 = (None, sint x)"
proof -
  have "sint x < 2 ^ 63" "- (2 ^ 63) \<le> sint x" using sint_lt [of x] sint_ge [of x] by simp_all
  moreover have "take_bit 64 x = x" using take_bit_fits [of x 64] unsigned_less [of x, where ?'a = nat] by simp
  ultimately show ?thesis
    using assms sint_ucast_small [where 'b = 8, of x] sint_ucast_small [where 'b = 16, of x] sint_ucast_small [where 'b = 32, of x]
    by (auto simp: Get_int64_def Let_def sintType_def type_defs field_simps_types [unfolded type_defs])
qed

lemma GetType_values:
  "ElementType r = sintType x \<Longrightarrow> GetType r = 0" "ElementType r = uintType x \<Longrightarrow> GetType r = 4"
  "ElementType r = kTLVType_UTF8String + lenFieldSize n \<Longrightarrow> GetType r = kTLVType_UTF8String"
  by (auto simp: GetType_def Let_def sintType_def uintType_def lenFieldSize_def type_defs)

lemma getValue_read:
  assumes "goodValue v" "ElementType r = vType v" "mElemLenOrVal r = vField v" "rBuf r = vData v @ rest"
  shows "getValue r = (None, cutValue v)"
proof (cases v)
  case (VInt x)
  then show ?thesis using assms Get_int64_read GetType_values(1) by (simp add: getValue_def Let_def)
next
  case (VUInt x)
  then show ?thesis using assms by (auto simp: getValue_def Let_def GetType_def uintType_def type_defs Get_uint64_def)
next
  case (VBytes bs)
  then have "unat (GetLength r) = length bs" "TLVTypeIsString (ElementType r)" "GetType r = kTLVType_ByteString"
    using assms by (auto simp: GetLength_def GetType_def Let_def TLVTypeHasLength_def TLVTypeIsString_def lenFieldSize_def type_defs unsigned_ucast_eq unat_of_nat take_bit_nat_eq_self)
  moreover have "unat (ucast (mElemLenOrVal r) :: u32) = length bs" using VBytes assms by (simp add: unsigned_ucast_eq unat_of_nat take_bit_nat_eq_self)
  ultimately show ?thesis using assms VBytes
    by (auto simp: getValue_def Let_def Get_ByteSpan_def GetDataPtr_def type_defs unat_eq_0)
next
  case (VString bs)
  then have "unat (GetLength r) = length bs" "TLVTypeIsString (ElementType r)" "TLVTypeIsUTF8String (ElementType r)" "GetType r = kTLVType_UTF8String"
    using assms by (auto simp: GetLength_def GetType_def Let_def TLVTypeHasLength_def TLVTypeIsString_def TLVTypeIsUTF8String_def lenFieldSize_def type_defs unsigned_ucast_eq unat_of_nat take_bit_nat_eq_self)
  moreover have "unat (ucast (mElemLenOrVal r) :: u32) = length bs" using VString assms by (simp add: unsigned_ucast_eq unat_of_nat take_bit_nat_eq_self)
  ultimately show ?thesis using assms VString
    by (auto simp: getValue_def Let_def Get_CharSpan_def GetDataPtr_def type_defs unat_eq_0)
next
  case (VFloat x)
  have "ucast (ucast x :: u64) = x" by (rule bit_word_eqI) (simp add: bit_ucast_iff)
  then show ?thesis using assms VFloat by (simp add: getValue_def Let_def GetType_def type_defs Get_double_def)
qed (use assms in \<open>auto simp: getValue_def Let_def GetType_def type_defs Get_bool_def Get_double_def\<close>)

end
