(* ===== verification/Tlv_Walk.thy ===== *)
theory Tlv_Walk
  imports Tlv_Tree
begin

text \<open>
  The reader on the encoding of trees: \<open>Next\<close> arrives at the next element, and skipping an element, whatever it contains, leads exactly to
  its end.
\<close>

unbundle bit_operations_syntax

section \<open>Positions\<close>

text \<open>\<open>idle\<close>: between two elements.  \<open>passed k r r'\<close>: \<open>r'\<close> is \<open>r\<close> moved on by \<open>k\<close> bytes, up to the current element and the container type.\<close>

definition idle :: "TLVReader \<Rightarrow> bool" where
  "idle r \<longleftrightarrow> contig r \<and> ClearElementState r = r \<and> \<not> rContainerOpen r"

definition passed :: "nat \<Rightarrow> TLVReader \<Rightarrow> TLVReader \<Rightarrow> bool" where
  "passed k r r' \<longleftrightarrow> (ClearElementState r')\<lparr>rContainerType := 0\<rparr> = (ClearElementState (advance k r))\<lparr>rContainerType := 0\<rparr>"

lemma passed_fields:
  assumes "passed k r r'"
  shows "rBuf r' = drop k (rBuf r)" "rImplicitProfileId r' = rImplicitProfileId r" "contig r' = contig (advance k r)" "rMaxLen r' = rMaxLen r"
    "mLenRead r' = mLenRead r + of_nat k" "rStore r' = rStore r" "rCalls r' = rCalls r" "rNull r' = rNull r" "rContainerOpen r' = rContainerOpen r"
proof -
  have eq: "(ClearElementState r')\<lparr>rContainerType := 0\<rparr> = (ClearElementState (advance k r))\<lparr>rContainerType := 0\<rparr>" (is "?l = ?r")
    using assms by (simp add: passed_def)
  show "rBuf r' = drop k (rBuf r)" using arg_cong [OF eq, of rBuf] by (simp add: ClearElementState_def)
  show "rImplicitProfileId r' = rImplicitProfileId r" using arg_cong [OF eq, of rImplicitProfileId] by (simp add: ClearElementState_def)
  show "contig r' = contig (advance k r)" using arg_cong [OF eq, of contig] by (simp add: ClearElementState_def)
  show "rMaxLen r' = rMaxLen r" using arg_cong [OF eq, of rMaxLen] by (simp add: ClearElementState_def)
  show "mLenRead r' = mLenRead r + of_nat k" using arg_cong [OF eq, of mLenRead] by (simp add: ClearElementState_def)
  show "rStore r' = rStore r" using arg_cong [OF eq, of rStore] by (simp add: ClearElementState_def)
  show "rCalls r' = rCalls r" using arg_cong [OF eq, of rCalls] by (simp add: ClearElementState_def)
  show "rNull r' = rNull r" using arg_cong [OF eq, of rNull] by (simp add: ClearElementState_def)
  show "rContainerOpen r' = rContainerOpen r" using arg_cong [OF eq, of rContainerOpen] by (simp add: ClearElementState_def)
qed

lemma advance_advance: "advance m (advance k r) = advance (k + m) r"
  by (simp add: advance_def add.commute algebra_simps)

lemma passed_frame [simp]:
  "passed k r (r'\<lparr>rContainerType := ct\<rparr>) = passed k r r'" "passed k r (r'\<lparr>mControlByte := c\<rparr>) = passed k r r'"
  "passed k r (r'\<lparr>mElemTag := t\<rparr>) = passed k r r'" "passed k r (r'\<lparr>mElemLenOrVal := v\<rparr>) = passed k r r'"
  by (simp_all add: passed_def ClearElementState_def)

lemma passed_advance [simp]: "passed k r (advance k r)"
  by (simp add: passed_def)

lemma passed_zero: "passed 0 r r"
  by (simp add: passed_def)

lemma passed_eq:
  "passed k r r' \<longleftrightarrow> rBuf r' = drop k (rBuf r) \<and> rImplicitProfileId r' = rImplicitProfileId r \<and> rMaxLen r' = rMaxLen r \<and>
     mLenRead r' = mLenRead r + of_nat k \<and> rStore r' = rStore r \<and> rCalls r' = rCalls r \<and> rNull r' = rNull r \<and> rContainerOpen r' = rContainerOpen r"
  by (cases r'; cases r; auto simp: passed_def ClearElementState_def advance_def)

lemma passed_trans: "passed k r r' \<Longrightarrow> passed m r' r'' \<Longrightarrow> passed (k + m) r r''"
  by (auto simp: passed_eq add.commute algebra_simps)

lemma passed_headRead [simp]: "passed (length h) r (headRead h t v r)"
  by (simp add: headRead_def)

lemma passed_contig: "passed k r r' \<Longrightarrow> contig r \<Longrightarrow> k \<le> length (rBuf r) \<Longrightarrow> contig r'"
  using passed_fields(3) reads_advance reads_contig by blast

lemma passed_done:
  assumes "passed k r r'" "ClearElementState r = r"
  shows "ClearElementState (r'\<lparr>rContainerType := rContainerType r\<rparr>) = advance k r"
  using assms by (cases r'; cases r) (auto simp: passed_eq ClearElementState_def advance_def)

lemma Clear_container: "ClearElementState (r\<lparr>rContainerType := ct\<rparr>) = (ClearElementState r)\<lparr>rContainerType := ct\<rparr>"
  by (cases r) (simp add: ClearElementState_def)

lemma Clear_advance: "ClearElementState (advance k r) = advance k (ClearElementState r)"
  by (simp add: ClearElementState_def advance_def)

lemma idle_advance: "idle r \<Longrightarrow> k \<le> length (rBuf r) \<Longrightarrow> idle (advance k r)"
  using reads_contig [OF reads_advance, of r k] by (simp add: idle_def Clear_advance)

lemma not_specified_plain [simp]:
  "\<not> TLVTypeIsContainer Elem_NotSpecified" "\<not> TLVTypeHasLength Elem_NotSpecified" "Elem_NotSpecified \<noteq> Elem_EndOfContainer"
  "\<not> TLVTypeIsContainer Elem_EndOfContainer" "\<not> TLVTypeHasLength Elem_EndOfContainer"
  by (simp_all add: TLVTypeIsContainer_def TLVTypeHasLength_def type_defs)

lemma idle_type: "idle r \<Longrightarrow> ElementType r = Elem_NotSpecified"
  using ElementType_frame(6) [of r] by (simp add: idle_def)

lemma Skip_idle: "idle r \<Longrightarrow> Reader_Skip r = Some (None, r)"
  by (simp add: Reader_Skip_def Let_def idle_type SkipData_def) (simp add: idle_def)

section \<open>Elements and their encodings\<close>

fun xType :: "element \<Rightarrow> TLVElementType" where
  "xType (Leaf tag v) = vType v"
| "xType (Node tag e kids) = e"

fun xField :: "element \<Rightarrow> u64" where
  "xField (Leaf tag v) = vField v"
| "xField (Node tag e kids) = 0"

fun xBody :: "u32 \<Rightarrow> element \<Rightarrow> bytes" where
  "xBody implicit (Leaf tag v) = vData v"
| "xBody implicit (Node tag e kids) = encs implicit e kids @ [0x18]"

definition xHead :: "u32 \<Rightarrow> TLVType \<Rightarrow> element \<Rightarrow> bytes" where
  "xHead implicit ct x = headOf implicit ct (xType x) (tagOf x) (xField x)"

lemma enc_split: "enc implicit ct x = xHead implicit ct x @ xBody implicit x"
  by (cases x) (simp_all add: xHead_def)

lemma container_range: "TLVTypeIsContainer e \<Longrightarrow> 21 \<le> e \<and> e \<le> 23"
  by (simp add: TLVTypeIsContainer_def type_defs)

lemma good_range:
  assumes "good ct x"
  shows "0 \<le> xType x" "xType x \<le> 23" "xType x \<noteq> Elem_EndOfContainer" "xType x \<noteq> Elem_NotSpecified" "goodTag ct (tagOf x)"
    "unat (xField x) < 2 ^ (8 * fieldBytes (xType x))"
proof -
  have "0 \<le> xType x \<and> xType x \<le> 23 \<and> xType x \<noteq> Elem_EndOfContainer \<and> xType x \<noteq> Elem_NotSpecified \<and> goodTag ct (tagOf x)
      \<and> unat (xField x) < 2 ^ (8 * fieldBytes (xType x))"
  proof (cases x)
    case (Leaf tag v)
    then show ?thesis using assms vType_range [of v] vField_fits [of v] by auto
  next
    case (Node tag e kids)
    then show ?thesis using assms container_range [of e] by (simp add: Elem_EndOfContainer_def Elem_NotSpecified_def)
  qed
  then show "0 \<le> xType x" "xType x \<le> 23" "xType x \<noteq> Elem_EndOfContainer" "xType x \<noteq> Elem_NotSpecified" "goodTag ct (tagOf x)"
    "unat (xField x) < 2 ^ (8 * fieldBytes (xType x))" by simp_all
qed

lemma good_body:
  assumes "good ct x"
  shows "if TLVTypeHasLength (xType x) then unat (xField x) = length (xBody implicit x) \<and> length (xBody implicit x) < 2 ^ 32
         else TLVTypeIsContainer (xType x) \<or> xBody implicit x = []"
proof (cases x)
  case (Leaf tag v)
  then show ?thesis using assms vData_length [of v] by (auto simp: unat_of_nat split: if_splits)
next
  case (Node tag e kids)
  then show ?thesis using assms by (auto simp: TLVTypeIsContainer_def TLVTypeHasLength_def type_defs)
qed

text \<open>Reading the head of an element, where the container type is known or, when nested containers are skipped, unknown.\<close>

definition within :: "TLVType \<Rightarrow> TLVReader \<Rightarrow> bool" where
  "within ct r \<longleftrightarrow> rContainerType r = ct \<or> rContainerType r = kTLVType_UnknownContainer"

definition here :: "TLVType \<Rightarrow> element \<Rightarrow> TLVReader \<Rightarrow> TLVReader" where
  "here ct x r = headRead (xHead (rImplicitProfileId r) ct x) (tagOf x) (xField x) r"

lemma ReadElement_here:
  assumes "contig r" "within ct r" "good ct x" "rBuf r = enc (rImplicitProfileId r) ct x @ tail"
  shows "ReadElement r = (None, here ct x r)" "ElementType (here ct x r) = xType x"
proof -
  note g = good_range [OF assms(3)]
  obtain h where h: "tagHead (rImplicitProfileId r) ct (xType x) (tagOf x) = Inr h" using goodTag_written [OF g(5)] by blast
  have hd: "xHead (rImplicitProfileId r) ct x = h @ valueField (xType x) (xField x)" using h by (simp add: xHead_def headOf_def headBytes_def)
  have acc: "acceptable (rContainerType r) (xType x) (tagOf x)"
    using assms(2) g(3,5) goodTag_known by (auto simp: acceptable_def within_def)
  have buf: "rBuf r = h @ valueField (xType x) (xField x) @ xBody (rImplicitProfileId r) x @ tail" using assms(4) hd by (simp add: enc_split)
  have "ReadElement r = (None, headRead (h @ valueField (xType x) (xField x)) (tagOf x) (xField x) r) \<and>
      ElementType (headRead (h @ valueField (xType x) (xField x)) (tagOf x) (xField x) r) = xType x"
    by (rule ReadElement_head [OF assms(1) buf acc read_tag [OF disjI1 [OF g(5)] h] g(1) _ g(6)])
      (use g(2) good_body [OF assms(3), of "rImplicitProfileId r"] in auto)
  then show "ReadElement r = (None, here ct x r)" "ElementType (here ct x r) = xType x" by (simp_all add: here_def hd)
qed

lemma ReadElement_end:
  assumes "contig r" "rContainerType r \<noteq> kTLVType_NotSpecified" "rBuf r = 0x18 # tail"
  shows "ReadElement r = (None, headRead [0x18] AnonymousTag 0 r)" "ElementType (headRead [0x18] AnonymousTag 0 r) = Elem_EndOfContainer"
proof -
  have v: "valueField Elem_EndOfContainer 0 = []" using field_simps_types(14) by (simp add: valueField_def fieldBytes_def)
  have h: "tagHead (rImplicitProfileId r) kTLVType_Structure Elem_EndOfContainer AnonymousTag = Inr [0x18]"
    using end_written [of "rImplicitProfileId r" kTLVType_Structure] by (simp add: control_defs type_defs)
  have "ReadElement r = (None, headRead ([0x18] @ valueField Elem_EndOfContainer 0) AnonymousTag 0 r) \<and>
      ElementType (headRead ([0x18] @ valueField Elem_EndOfContainer 0) AnonymousTag 0 r) = Elem_EndOfContainer"
    using assms v by (intro ReadElement_head [OF assms(1) _ _ read_tag [OF _ h]])
      (auto simp: acceptable_def Elem_EndOfContainer_def TLVTypeHasLength_def type_defs)
  then show "ReadElement r = (None, headRead [0x18] AnonymousTag 0 r)" "ElementType (headRead [0x18] AnonymousTag 0 r) = Elem_EndOfContainer"
    by (simp_all add: v)
qed

section \<open>Skipping\<close>

text \<open>The loop of \<open>SkipToEndOfContainer\<close> from the point where it reads the next element.\<close>

definition skipFrom :: "TLVType \<Rightarrow> nat \<Rightarrow> TLVReader \<Rightarrow> rResult option" where
  "skipFrom outer n r = (case ReadElement r of (Some e, r) \<Rightarrow> Some (Some e, r) | (None, r) \<Rightarrow> skipLoop outer n r)"

lemma skipLoop_step:
  assumes "\<not> (ElementType r = Elem_EndOfContainer \<and> n = 0)" "skipNest outer n r = (n', r1)" "SkipData r1 = (None, r2)"
  shows "skipLoop outer n r = skipFrom outer n' r2"
  using assms by (subst skipLoop.simps) (auto simp: skipFrom_def)

lemma SkipData_plain: "\<not> TLVTypeHasLength (ElementType r) \<Longrightarrow> SkipData r = (None, r)"
  by (simp add: SkipData_def)

lemma SkipData_body:
  assumes "contig r" "good ct (Leaf tag v)" "ElementType r = vType v" "mElemLenOrVal r = vField v" "rBuf r = vData v @ tail"
  shows "SkipData r = (None, advance (length (vData v)) r)"
proof (cases "TLVTypeHasLength (vType v)")
  case True
  then have "unat (ucast (vField v) :: u32) = length (vData v)" using assms(2) vData_length [of v]
    by (simp add: unsigned_ucast_eq unat_of_nat take_bit_nat_eq_self)
  then show ?thesis using True assms by (simp add: SkipData_def ReadData_contig)
next
  case False
  then show ?thesis using assms vData_length [of v] by (simp add: SkipData_plain)
qed

lemma here_fields [simp]:
  "mElemTag (here ct x r) = tagOf x" "mElemLenOrVal (here ct x r) = xField x" "rContainerType (here ct x r) = rContainerType r"
  "rBuf (here ct x r) = drop (length (xHead (rImplicitProfileId r) ct x)) (rBuf r)" "rImplicitProfileId (here ct x r) = rImplicitProfileId r"
  "passed (length (xHead (rImplicitProfileId r) ct x)) r (here ct x r)"
  "mLenRead (here ct x r) = mLenRead r + of_nat (length (xHead (rImplicitProfileId r) ct x))"
  by (simp_all add: here_def) (simp_all add: headRead_def)

lemma here_contig:
  assumes "contig r" "rBuf r = enc (rImplicitProfileId r) ct x @ tail"
  shows "contig (here ct x r)"
  by (rule passed_contig [OF here_fields(6) assms(1)]) (simp add: assms(2) enc_split)

text \<open>Skipping over one element.\<close>

definition skipsOver :: "TLVType \<Rightarrow> bytes \<Rightarrow> TLVType \<Rightarrow> nat \<Rightarrow> TLVReader \<Rightarrow> bool" where
  "skipsOver ct bs outer n r \<longleftrightarrow> (\<exists>r'. skipFrom outer n r = skipFrom outer n r' \<and> passed (length bs) r r' \<and> within ct r')"

lemma skipsOver_leaf:
  assumes "contig r" "within ct r" "good ct (Leaf tag v)" "rBuf r = enc (rImplicitProfileId r) ct (Leaf tag v) @ tail"
  shows "skipsOver ct (enc (rImplicitProfileId r) ct (Leaf tag v)) outer n r"
proof -
  let ?x = "Leaf tag v" and ?h = "here ct (Leaf tag v) r"
  note read = ReadElement_here [OF assms]
  have "rBuf ?h = vData v @ tail" using assms(4) by (simp add: enc_split [of _ _ ?x] del: enc.simps)
  then have "SkipData ?h = (None, advance (length (vData v)) ?h)"
    using SkipData_body [OF here_contig [OF assms(1,4)] assms(3)] read(2) by simp
  moreover have "skipNest outer n ?h = (n, ?h)" using read(2) vType_range [of v] by (simp add: skipNest_def)
  ultimately have "skipLoop outer n ?h = skipFrom outer n (advance (length (vData v)) ?h)"
    using skipLoop_step [of ?h n outer n ?h] read(2) vType_range(4) [of v] by simp
  then have "skipFrom outer n r = skipFrom outer n (advance (length (vData v)) ?h)" using read(1) by (simp add: skipFrom_def [of _ _ r])
  moreover have "passed (length (enc (rImplicitProfileId r) ct ?x)) r (advance (length (vData v)) ?h)"
    using passed_trans [OF here_fields(6) passed_advance] by (simp add: enc_split [of _ _ ?x] del: enc.simps)
  ultimately show ?thesis using assms(2) unfolding skipsOver_def within_def by (intro exI [of _ "advance (length (vData v)) ?h"]) simp
qed

lemma skipsOver_list:
  assumes "\<And>x r tail. x \<in> set xs \<Longrightarrow> contig r \<Longrightarrow> within ct r \<Longrightarrow> rImplicitProfileId r = i \<Longrightarrow> rBuf r = enc i ct x @ tail \<Longrightarrow> skipsOver ct (enc i ct x) outer n r"
    "contig r" "within ct r" "rImplicitProfileId r = i" "rBuf r = encs i ct xs @ tail"
  shows "skipsOver ct (encs i ct xs) outer n r"
  using assms
proof (induction xs arbitrary: r)
  case Nil
  then show ?case using passed_zero by (auto simp: skipsOver_def)
next
  case (Cons x xs)
  obtain r1 where r1: "skipFrom outer n r = skipFrom outer n r1" "passed (length (enc i ct x)) r r1" "within ct r1"
    using Cons.prems(1) [of x r "encs i ct xs @ tail"] Cons.prems(2-5) by (auto simp: skipsOver_def)
  have "contig r1" "rImplicitProfileId r1 = i" "rBuf r1 = encs i ct xs @ tail"
    using passed_contig [OF r1(2)] passed_fields [OF r1(2)] Cons.prems(2,4,5) by simp_all
  then obtain r2 where "skipFrom outer n r1 = skipFrom outer n r2" "passed (length (encs i ct xs)) r1 r2" "within ct r2"
    using Cons.IH [OF _ _ r1(3)] Cons.prems(1) by (auto simp: skipsOver_def)
  then show ?case using r1 passed_trans [OF r1(2)] by (auto simp: skipsOver_def)
qed

lemma skipsOver_node:
  assumes kids: "\<And>r1. contig r1 \<Longrightarrow> within e r1 \<Longrightarrow> rImplicitProfileId r1 = i \<Longrightarrow> rBuf r1 = encs i e kids @ 0x18 # tail \<Longrightarrow>
       skipsOver e (encs i e kids) outer (Suc n) r1"
    and r: "contig r" "within ct r" "good ct (Node tag e kids)" "rImplicitProfileId r = i" "rBuf r = enc i ct (Node tag e kids) @ tail"
    and out: "n = 0 \<Longrightarrow> outer = ct"
  shows "skipsOver ct (enc i ct (Node tag e kids)) outer n r"
proof -
  let ?x = "Node tag e kids" and ?h = "(here ct (Node tag e kids) r)\<lparr>rContainerType := e\<rparr>"
  have r5: "rBuf r = enc (rImplicitProfileId r) ct ?x @ tail" using r(4,5) by simp
  note read = ReadElement_here [OF r(1-3) r5]
  have c: "TLVTypeIsContainer e" "\<not> TLVTypeHasLength e" "e \<noteq> Elem_EndOfContainer" "e \<noteq> kTLVType_NotSpecified"
    using r(3) by (auto simp: TLVTypeIsContainer_def TLVTypeHasLength_def type_defs)
  have "skipNest outer n (here ct ?x r) = (Suc n, ?h)" using c read(2) by (simp add: skipNest_def)
  then have s1: "skipFrom outer n r = skipFrom outer (Suc n) ?h"
    using skipLoop_step [of "here ct ?x r" n outer "Suc n" ?h ?h] c read by (simp add: skipFrom_def [of _ n r] SkipData_plain)
  have "contig ?h" "within e ?h" "rImplicitProfileId ?h = i" "rBuf ?h = encs i e kids @ 0x18 # tail"
    using here_contig [OF r(1) r5] r(4,5) by (simp_all add: within_def enc_split [of _ _ ?x] del: enc.simps)
  from kids [OF this] obtain r2 where r2: "skipFrom outer (Suc n) ?h = skipFrom outer (Suc n) r2" "passed (length (encs i e kids)) ?h r2" "within e r2"
    by (auto simp: skipsOver_def)
  let ?e = "headRead [0x18] AnonymousTag 0 r2"
  define r3 where "r3 = ?e\<lparr>rContainerType := (if n = 0 then outer else kTLVType_UnknownContainer)\<rparr>"
  have r2c: "contig r2" "rBuf r2 = 0x18 # tail" "rContainerType r2 \<noteq> kTLVType_NotSpecified"
    using passed_contig [OF r2(2) \<open>contig ?h\<close>] passed_fields [OF r2(2)] \<open>rBuf ?h = _\<close> r2(3) c(4) by (auto simp: within_def type_defs)
  note rend = ReadElement_end [OF r2c(1,3,2)]
  have "skipNest outer (Suc n) ?e = (n, r3)" using rend(2) by (simp add: skipNest_def r3_def)
  then have "skipFrom outer (Suc n) r2 = skipFrom outer n r3"
    using skipLoop_step [of ?e "Suc n" outer n r3 r3] rend by (simp add: skipFrom_def [of _ "Suc n" r2] SkipData_plain r3_def)
  moreover have "passed (length (enc i ct ?x)) r r3"
  proof -
    have "passed (length (xHead i ct ?x)) r ?h" using here_fields(6) [of r ct ?x] r(4) by simp
    moreover have "passed 1 r2 r3" using passed_headRead [of "[0x18]" r2] by (simp add: r3_def)
    ultimately have "passed (length (xHead i ct ?x) + (length (encs i e kids) + 1)) r r3" using r2(2) passed_trans by blast
    then show ?thesis by (simp add: enc_split [of _ _ ?x] del: enc.simps)
  qed
  moreover have "within ct r3" using out by (simp add: within_def r3_def)
  ultimately show ?thesis using s1 r2(1) unfolding skipsOver_def by (intro exI [of _ r3]) simp
qed

lemma skipsOver_element:
  assumes "contig r" "within ct r" "good ct x" "rImplicitProfileId r = i" "rBuf r = enc i ct x @ tail" "n = 0 \<Longrightarrow> outer = ct"
  shows "skipsOver ct (enc i ct x) outer n r"
  using assms
proof (induction x arbitrary: ct r tail n)
  case (Leaf tag v)
  then show ?case using skipsOver_leaf [of r ct tag v tail] by auto
next
  case (Node tag e kids)
  show ?case
  proof (rule skipsOver_node [OF _ Node.prems])
    fix r1 assume r1: "contig r1" "within e r1" "rImplicitProfileId r1 = i" "rBuf r1 = encs i e kids @ 0x18 # tail"
    show "skipsOver e (encs i e kids) outer (Suc n) r1"
      by (rule skipsOver_list [OF _ r1]) (use Node.IH Node.prems(3) in \<open>auto simp: list_all_iff\<close>)
  qed
qed

text \<open>Leaving a container skips what is left of it.\<close>

lemma ExitContainer_skips:
  assumes "idle c" "rContainerType c = ct" "ct \<noteq> kTLVType_NotSpecified" "list_all (good ct) xs" "rBuf c = encs (rImplicitProfileId c) ct xs @ 0x18 # tail"
  shows "ExitContainer outer c = Some (None, (advance (length (encs (rImplicitProfileId c) ct xs) + 1) c)\<lparr>rContainerType := outer\<rparr>)"
proof -
  let ?i = "rImplicitProfileId c"
  have c: "contig c" "within ct c" "ElementType c = Elem_NotSpecified" "c\<lparr>rContainerOpen := False\<rparr> = c"
    using assms(1,2) idle_type by (auto simp: idle_def within_def)
  have "skipsOver ct (encs ?i ct xs) ct 0 c"
    by (rule skipsOver_list [OF _ c(1,2) refl assms(5)]) (use skipsOver_element assms(4) in \<open>auto simp: list_all_iff\<close>)
  then obtain r1 where r1: "skipFrom ct 0 c = skipFrom ct 0 r1" "passed (length (encs ?i ct xs)) c r1" "within ct r1" by (auto simp: skipsOver_def)
  have "contig r1" "rBuf r1 = 0x18 # tail" "rContainerType r1 \<noteq> kTLVType_NotSpecified"
    using passed_contig [OF r1(2) c(1)] passed_fields [OF r1(2)] assms(3,5) r1(3) by (auto simp: within_def type_defs)
  note rend = ReadElement_end [OF this(1,3,2)]
  let ?e = "headRead [0x18] AnonymousTag 0 r1"
  have "skipLoop ct 0 ?e = Some (None, ?e)" using rend(2) by (subst skipLoop.simps) simp
  moreover have "skipLoop ct 0 c = skipFrom ct 0 c" using c(3) by (intro skipLoop_step [of c 0 ct 0 c]) (simp_all add: skipNest_def SkipData_plain)
  ultimately have "SkipToEndOfContainer c = Some (None, ?e)"
    using r1(1) rend(1) c(4) assms(2) by (simp add: SkipToEndOfContainer_def skipFrom_def [of _ _ r1])
  moreover have p: "passed (length (encs ?i ct xs) + 1) c ?e" using passed_trans [OF r1(2) passed_headRead [of "[0x18]" r1 AnonymousTag 0]] by simp
  have "ClearElementState (?e\<lparr>rContainerType := rContainerType c\<rparr>) = advance (length (encs ?i ct xs) + 1) c"
    by (rule passed_done [OF p]) (use assms(1) in \<open>simp add: idle_def\<close>)
  then have "(ClearElementState (?e\<lparr>rContainerType := rContainerType c\<rparr>))\<lparr>rContainerType := outer\<rparr>
      = (advance (length (encs ?i ct xs) + 1) c)\<lparr>rContainerType := outer\<rparr>" by (rule arg_cong)
  then have "ClearElementState (?e\<lparr>rContainerType := outer\<rparr>) = (advance (length (encs ?i ct xs) + 1) c)\<lparr>rContainerType := outer\<rparr>"
    by (simp add: Clear_container)
  ultimately show ?thesis by (simp add: ExitContainer_def rThen_def)
qed

section \<open>Moving along\<close>

lemma Next_here:
  assumes "idle r" "rContainerType r = ct" "good ct x" "rBuf r = enc (rImplicitProfileId r) ct x @ tail"
  shows "Next r = Some (None, here ct x r)"
proof -
  have c: "contig r" "within ct r" using assms(1,2) by (simp_all add: idle_def within_def)
  note read = ReadElement_here [OF c assms(3,4)]
  have "rBuf (here ct x r) = xBody (rImplicitProfileId r) x @ tail" using assms(4) by (simp add: enc_split)
  moreover have "TLVTypeIsString e \<longleftrightarrow> TLVTypeHasLength e" for e by (simp add: TLVTypeIsString_def TLVTypeHasLength_def)
  moreover have "GetLength (here ct x r) = 0" if "TLVTypeHasLength (xType x)" "xBody (rImplicitProfileId r) x = []"
    using that good_body [OF assms(3), of "rImplicitProfileId r"] read(2) by (simp add: GetLength_def unat_eq_0)
  ultimately show ?thesis using read good_range(3) [OF assms(3)] EnsureData_contig [OF here_contig [OF c(1) assms(4)]] assms(1)
    by (auto simp: Next_def rThen_def Skip_idle)
qed

lemma here_cleared:
  assumes "idle r"
  shows "(ClearElementState ((here ct x r)\<lparr>rContainerType := e\<rparr>))\<lparr>rContainerOpen := False\<rparr>
           = (advance (length (xHead (rImplicitProfileId r) ct x)) r)\<lparr>rContainerType := e\<rparr>"
proof -
  let ?k = "length (xHead (rImplicitProfileId r) ct x)"
  have "ClearElementState ((here ct x r)\<lparr>rContainerType := rContainerType r\<rparr>) = advance ?k r"
    by (rule passed_done [OF here_fields(6)]) (use assms in \<open>simp add: idle_def\<close>)
  then have "(ClearElementState ((here ct x r)\<lparr>rContainerType := rContainerType r\<rparr>))\<lparr>rContainerType := e, rContainerOpen := False\<rparr>
      = (advance ?k r)\<lparr>rContainerType := e, rContainerOpen := False\<rparr>" by simp
  moreover have "(advance ?k r)\<lparr>rContainerType := e, rContainerOpen := False\<rparr> = (advance ?k r)\<lparr>rContainerType := e\<rparr>"
    using assms by (simp add: idle_def advance_def)
  ultimately show ?thesis by (simp add: Clear_container)
qed

lemma Enter_here:
  assumes "idle r" "rContainerType r = ct" "good ct (Node tag e kids)" "rBuf r = enc (rImplicitProfileId r) ct (Node tag e kids) @ tail"
  defines "c \<equiv> (advance (length (xHead (rImplicitProfileId r) ct (Node tag e kids))) r)\<lparr>rContainerType := e\<rparr>"
  shows "EnterContainer (here ct (Node tag e kids) r) = (None, ct, c)" "idle c" "rBuf c = encs (rImplicitProfileId r) e kids @ 0x18 # tail"
    "rContainerType c = e" "rImplicitProfileId c = rImplicitProfileId r"
proof -
  let ?x = "Node tag e kids" and ?k = "length (xHead (rImplicitProfileId r) ct (Node tag e kids))"
  have "ElementType (here ct ?x r) = e"
    using ReadElement_here(2) [of r ct ?x tail] assms(1-4) by (simp add: idle_def within_def)
  then show "EnterContainer (here ct ?x r) = (None, ct, c)" using assms(2,3) here_cleared [OF assms(1), of e ct ?x] by (simp add: EnterContainer_def c_def)
  have "?k \<le> length (rBuf r)" using assms(4) by (simp add: enc_split [of _ _ ?x] del: enc.simps)
  then have "idle (advance ?k r)" using idle_advance [OF assms(1)] by blast
  then show "idle c" by (simp add: c_def idle_def Clear_container)
  show "rBuf c = encs (rImplicitProfileId r) e kids @ 0x18 # tail" using assms(4) by (simp add: c_def enc_split [of _ _ ?x] del: enc.simps)
qed (simp_all add: c_def)

lemma Exit_total:
  assumes "rContainerType r = ct"
  shows "(advance m ((advance k r)\<lparr>rContainerType := e\<rparr>))\<lparr>rContainerType := ct\<rparr> = advance (k + m) r"
  using assms by (auto simp: advance_def algebra_simps)

lemma Skip_here:
  assumes "idle r" "rContainerType r = ct" "good ct x" "rBuf r = enc (rImplicitProfileId r) ct x @ tail"
  shows "Reader_Skip (here ct x r) = Some (None, advance (length (enc (rImplicitProfileId r) ct x)) r)"
proof (cases x)
  case (Leaf tag v)
  have c: "contig r" "within ct r" "ClearElementState r = r" using assms(1,2) by (simp_all add: idle_def within_def)
  have et: "ElementType (here ct x r) = vType v" using ReadElement_here(2) [OF c(1,2) assms(3,4)] Leaf by simp
  have "rBuf (here ct x r) = vData v @ tail" using assms(4) Leaf by (simp add: enc_split [of _ _ "Leaf tag v"] del: enc.simps)
  then have "SkipData (here ct x r) = (None, advance (length (vData v)) (here ct x r))"
    using SkipData_body [OF here_contig [OF c(1) assms(4)]] assms(3) et Leaf by auto
  moreover have "passed (length (enc (rImplicitProfileId r) ct x)) r (advance (length (vData v)) (here ct x r))"
    using passed_trans [OF here_fields(6) passed_advance, of r ct x "length (vData v)"] Leaf by (simp add: enc_split [of _ _ "Leaf tag v"] del: enc.simps)
  from passed_done [OF this c(3)] have "ClearElementState (advance (length (vData v)) (here ct x r)) = advance (length (enc (rImplicitProfileId r) ct x)) r"
    by (simp add: here_def headRead_def advance_def)
  ultimately show ?thesis using vType_range [of v] et by (simp add: Reader_Skip_def Let_def)
next
  case (Node tag e kids)
  let ?i = "rImplicitProfileId r"
  note ent = Enter_here [OF assms(1,2) assms(3) [unfolded Node] assms(4) [unfolded Node]]
  have e: "TLVTypeIsContainer e" "e \<noteq> kTLVType_NotSpecified" "e \<noteq> Elem_EndOfContainer" "list_all (good e) kids"
    using assms(3) Node by (auto simp: TLVTypeIsContainer_def type_defs)
  have et: "ElementType (here ct x r) = e" using ReadElement_here(2) [of r ct x tail] assms Node by (simp add: idle_def within_def)
  have len: "length (xHead ?i ct (Node tag e kids)) + (length (encs ?i e kids) + 1) = length (enc ?i ct (Node tag e kids))"
    by (simp add: enc_split [of _ _ "Node tag e kids"] del: enc.simps)
  show ?thesis using ExitContainer_skips [OF ent(2,4) e(2,4), of tail ct] ent(1,3,5) et e(1,3) Node Exit_total [OF assms(2)] len
    by (simp add: Reader_Skip_def Let_def)
qed

lemma Next_after: "Reader_Skip r = Some (None, r') \<Longrightarrow> idle r' \<Longrightarrow> Next r = Next r'"
  by (simp add: Next_def rThen_def Skip_idle)

lemma idle_after:
  assumes "idle r" "rBuf r = bs @ tail"
  shows "idle (advance (length bs) r)" "rBuf (advance (length bs) r) = tail"
  using idle_advance [OF assms(1), of "length bs"] assms(2) by simp_all

text \<open>From an element \<open>Next\<close> goes on where the element ends.\<close>

lemma Next_next:
  assumes "idle r" "rContainerType r = ct" "good ct x" "rBuf r = enc (rImplicitProfileId r) ct x @ tail"
  shows "Next (here ct x r) = Next (advance (length (enc (rImplicitProfileId r) ct x)) r)"
  using Next_after [OF Skip_here [OF assms] idle_after(1) [OF assms(1,4)]] .

lemma Next_end:
  assumes "idle r" "rContainerType r \<noteq> kTLVType_NotSpecified" "rBuf r = 0x18 # tail"
  shows "Next r = Some (Some CHIP_END_OF_TLV, headRead [0x18] AnonymousTag 0 r)"
  using ReadElement_end [OF _ assms(2,3)] assms(1) by (simp add: Next_def rThen_def Skip_idle) (simp add: idle_def)

lemma Next_empty: "idle r \<Longrightarrow> rBuf r = [] \<Longrightarrow> Next r = Some (Some CHIP_END_OF_TLV, r)"
  by (simp add: Next_def rThen_def Skip_idle ReadElement_def EnsureData_contig idle_def)

lemma Exit_at_end:
  assumes "idle r" "rContainerType r \<noteq> kTLVType_NotSpecified" "rBuf r = 0x18 # tail"
  shows "ExitContainer outer (headRead [0x18] AnonymousTag 0 r) = Some (None, (advance 1 r)\<lparr>rContainerType := outer\<rparr>)"
proof -
  let ?e = "headRead [0x18] AnonymousTag 0 r"
  have o: "?e\<lparr>rContainerOpen := False\<rparr> = ?e" using assms(1) by (simp add: headRead_def advance_def idle_def)
  have "skipLoop ct 0 ?e = Some (None, ?e)" for ct using ReadElement_end(2) [OF _ assms(2,3)] assms(1) by (subst skipLoop.simps) (simp add: idle_def)
  moreover have "ClearElementState (?e\<lparr>rContainerType := outer\<rparr>) = (advance 1 r)\<lparr>rContainerType := outer\<rparr>"
    using assms(1) by (cases r) (simp add: headRead_def advance_def ClearElementState_def idle_def)
  ultimately show ?thesis by (simp add: ExitContainer_def SkipToEndOfContainer_def rThen_def o)
qed

end
