(* ===== verification/Tlv_Roundtrip.thy ===== *)
theory Tlv_Roundtrip
  imports Tlv_Walk
begin

text \<open>
  Properties of the TLV writer and reader together: what is written as a tree of elements is read back as the same tree, with its texts cut at their separators, the search and
  the count over the elements of a container are exact, a copied element is the same element under its new tag, and the space
  for the end marker of a container is not always kept.
\<close>

unbundle bit_operations_syntax

section \<open>A program that reads everything\<close>

text \<open>It returns the elements it has read, and the error that ended it, \<open>CHIP_END_OF_TLV\<close> at the end of the container or of the data.\<close>

partial_function (option) readAll :: "TLVReader \<Rightarrow> (element list \<times> chip_error \<times> TLVReader) option" where
  "readAll r =
     (case Next r of
        None \<Rightarrow> None
      | Some (Some e, r) \<Rightarrow> Some ([], e, r)
      | Some (None, r) \<Rightarrow>
          if TLVTypeIsContainer (GetType r)
          then (case EnterContainer r of (_, outer, c) \<Rightarrow>
                  Option.bind (readAll c) (\<lambda>(kids, e, c).
                    if e \<noteq> CHIP_END_OF_TLV then Some ([], e, c)
                    else (case ExitContainer outer c of
                            None \<Rightarrow> None
                          | Some (Some e, c) \<Rightarrow> Some ([], e, c)
                          | Some (None, c) \<Rightarrow>
                              Option.bind (readAll c) (\<lambda>(xs, e, c). Some (Node (mElemTag r) (GetType r) kids # xs, e, c)))))
          else (case getValue r of
                  (Some e, _) \<Rightarrow> Some ([], e, r)
                | (None, v) \<Rightarrow> Option.bind (readAll r) (\<lambda>(xs, e, c). Some (Leaf (mElemTag r) v # xs, e, c))))"

definition prepend :: "element list \<Rightarrow> (element list \<times> chip_error \<times> TLVReader) option \<Rightarrow> (element list \<times> chip_error \<times> TLVReader) option" where
  "prepend xs m = Option.bind m (\<lambda>(ys, e, c). Some (xs @ ys, e, c))"

lemma readAll_Next: "Next r = Next r' \<Longrightarrow> readAll r = readAll r'"
  by (subst (1 2) readAll.simps) simp

lemma prepend_append: "prepend xs (prepend ys m) = prepend (xs @ ys) m"
  by (cases m) (auto simp: prepend_def)

lemma prepend_Nil: "prepend [] m = m"
  by (cases m) (auto simp: prepend_def)

lemma GetType_container: "TLVTypeIsContainer (ElementType r) \<Longrightarrow> GetType r = ElementType r"
  by (auto simp: GetType_def Let_def TLVTypeIsContainer_def type_defs)

lemma GetType_value: "ElementType r = vType v \<Longrightarrow> \<not> TLVTypeIsContainer (GetType r) \<and> GetType r \<noteq> kTLVType_NotSpecified"
proof -
  assume a: "ElementType r = vType v"
  have "0 \<le> vType v - vType v mod 4" "vType v - vType v mod 4 \<le> vType v" using vType_range(1) [of v] by (simp_all add: zmod_le_nonneg_dividend)
  then show ?thesis using vType_range(1,2) [of v] a by (auto simp: GetType_def Let_def TLVTypeIsContainer_def type_defs)
qed

text \<open>Where the reader is after \<open>Next\<close>: the tag, the type and the value.\<close>

lemma here_type:
  assumes "idle r" "rContainerType r = ct" "good ct x" "rBuf r = enc (rImplicitProfileId r) ct x @ tail"
  shows "ElementType (here ct x r) = xType x" "GetType (here ct x r) \<noteq> kTLVType_NotSpecified"
    "x = Leaf tag v \<Longrightarrow> getValue (here ct x r) = (None, cutValue v)" "x = Node tag e kids \<Longrightarrow> GetType (here ct x r) = e"
proof -
  show et: "ElementType (here ct x r) = xType x" using ReadElement_here(2) [of r ct x tail] assms by (simp add: idle_def within_def)
  show "x = Leaf tag v \<Longrightarrow> getValue (here ct x r) = (None, cutValue v)"
    using et assms(3,4) by (intro getValue_read [of _ _ tail]) (simp_all add: enc_split [of _ _ "Leaf tag v"] del: enc.simps)
  show n: "x = Node tag e kids \<Longrightarrow> GetType (here ct x r) = e" for tag e kids using et assms(3) GetType_container by simp
  show "GetType (here ct x r) \<noteq> kTLVType_NotSpecified"
    using et n assms(3) GetType_value by (cases x) (auto simp: TLVTypeIsContainer_def type_defs)
qed

lemma readAll_list:
  assumes "\<And>x r tail. x \<in> set xs \<Longrightarrow> idle r \<Longrightarrow> rContainerType r = ct \<Longrightarrow> rBuf r = enc (rImplicitProfileId r) ct x @ tail \<Longrightarrow>
      readAll r = prepend [cutTexts x] (readAll (advance (length (enc (rImplicitProfileId r) ct x)) r))"
    "idle r" "rContainerType r = ct" "rBuf r = encs (rImplicitProfileId r) ct xs @ tail"
  shows "readAll r = prepend (map cutTexts xs) (readAll (advance (length (encs (rImplicitProfileId r) ct xs)) r))"
  using assms
proof (induction xs arbitrary: r)
  case Nil
  then show ?case by (simp add: prepend_Nil)
next
  case (Cons x xs)
  let ?i = "rImplicitProfileId r" and ?r = "advance (length (enc (rImplicitProfileId r) ct x)) r"
  have "readAll r = prepend [cutTexts x] (readAll ?r)" using Cons.prems by simp
  moreover have "idle ?r" "rContainerType ?r = ct" "rBuf ?r = encs ?i ct xs @ tail" "rImplicitProfileId ?r = ?i"
    using idle_after [OF Cons.prems(2), of "enc ?i ct x" "encs ?i ct xs @ tail"] Cons.prems(3,4) by simp_all
  then have "readAll ?r = prepend (map cutTexts xs) (readAll (advance (length (encs ?i ct xs)) ?r))" using Cons.IH [of ?r] Cons.prems(1) by simp
  ultimately show ?case by (simp add: prepend_append advance_advance)
qed

lemma readAll_leaf:
  assumes "idle r" "rContainerType r = ct" "good ct (Leaf tag v)" "rBuf r = enc (rImplicitProfileId r) ct (Leaf tag v) @ tail"
  shows "readAll r = prepend [Leaf tag (cutValue v)] (readAll (advance (length (enc (rImplicitProfileId r) ct (Leaf tag v))) r))"
proof -
  note h = here_type [OF assms]
  have "\<not> TLVTypeIsContainer (GetType (here ct (Leaf tag v) r))" using h(1) GetType_value by simp
  then have "readAll r = prepend [Leaf tag (cutValue v)] (readAll (here ct (Leaf tag v) r))"
    using Next_here [OF assms] h(3) [OF refl] by (subst readAll.simps) (simp add: prepend_def)
  then show ?thesis using readAll_Next [OF Next_next [OF assms]] by simp
qed

lemma readAll_end:
  assumes "idle r" "rContainerType r \<noteq> kTLVType_NotSpecified" "rBuf r = 0x18 # tail"
  shows "readAll r = Some ([], CHIP_END_OF_TLV, headRead [0x18] AnonymousTag 0 r)"
  using Next_end [OF assms] by (subst readAll.simps) simp

lemma readAll_element:
  assumes "idle r" "rContainerType r = ct" "good ct x" "rBuf r = enc (rImplicitProfileId r) ct x @ tail"
  shows "readAll r = prepend [cutTexts x] (readAll (advance (length (enc (rImplicitProfileId r) ct x)) r))"
  using assms
proof (induction x arbitrary: ct r tail)
  case (Leaf tag v)
  then show ?case using readAll_leaf by simp
next
  case (Node tag e kids)
  let ?x = "Node tag e kids" and ?i = "rImplicitProfileId r"
  define c where "c = (advance (length (xHead ?i ct ?x)) r)\<lparr>rContainerType := e\<rparr>"
  note ent = Enter_here [OF Node.prems, folded c_def]
  have e: "TLVTypeIsContainer e" "e \<noteq> kTLVType_NotSpecified" "list_all (good e) kids" using Node.prems(3) by (auto simp: TLVTypeIsContainer_def type_defs)
  let ?d = "advance (length (encs ?i e kids)) c"
  have d: "idle ?d" "rContainerType ?d \<noteq> kTLVType_NotSpecified" "rBuf ?d = 0x18 # tail"
    using idle_after [OF ent(2,3)] ent(4) e(2) by simp_all
  have "readAll c = prepend (map cutTexts kids) (readAll (advance (length (encs (rImplicitProfileId c) e kids)) c))"
    by (rule readAll_list [OF _ ent(2,4) ent(3) [folded ent(5)]]) (use Node.IH e(3) in \<open>auto simp: list_all_iff\<close>)
  then have kids: "readAll c = Some (map cutTexts kids, CHIP_END_OF_TLV, headRead [0x18] AnonymousTag 0 ?d)"
    using readAll_end [OF d] ent(5) by (simp add: prepend_def)
  have "length (xHead ?i ct ?x) + (length (encs ?i e kids) + 1) = length (enc ?i ct ?x)" by (simp add: enc_split [of _ _ ?x] del: enc.simps)
  then have ex: "ExitContainer ct (headRead [0x18] AnonymousTag 0 ?d) = Some (None, advance (length (enc ?i ct ?x)) r)"
    using Exit_at_end [OF d, of ct] Exit_total [OF Node.prems(2), where k = "length (xHead ?i ct ?x)" and m = "length (encs ?i e kids) + 1" and e = e]
    by (simp add: advance_advance c_def)
  have t: "GetType (here ct ?x r) = e" using here_type(4) [OF Node.prems refl] .
  show ?case using Next_here [OF Node.prems] t e(1) ent(1) kids ex by (subst readAll.simps) (simp add: prepend_def)
qed

lemma readAll_elements:
  assumes "idle r" "rContainerType r = ct" "list_all (good ct) xs" "rBuf r = encs (rImplicitProfileId r) ct xs @ tail"
  shows "readAll r = prepend (map cutTexts xs) (readAll (advance (length (encs (rImplicitProfileId r) ct xs)) r))"
  by (rule readAll_list [OF _ assms(1,2,4)]) (use readAll_element assms(3) in \<open>auto simp: list_all_iff\<close>)

section \<open>The round trip\<close>

abbreviation encoding :: "element list \<Rightarrow> bytes" where
  "encoding xs \<equiv> encs kProfileIdNotSpecified kTLVType_NotSpecified xs"

lemma idle_Init:
  assumes "length data < 2 ^ 32"
  shows "idle (Reader_Init data)" "rBuf (Reader_Init data) = data" "rContainerType (Reader_Init data) = kTLVType_NotSpecified"
    "rImplicitProfileId (Reader_Init data) = kProfileIdNotSpecified"
proof -
  show "idle (Reader_Init data)" using contig_Init [of data] by (simp add: idle_def Reader_Init_def Let_def ClearElementState_def)
qed (use assms in \<open>auto simp: Reader_Init_def Let_def\<close>)

lemma exact_Init:
  assumes "n < 2 ^ 32"
  shows "exact 0 n 0 (Writer_Init n)" "wBuf (Writer_Init n) = []" "wContainerType (Writer_Init n) = kTLVType_NotSpecified"
    "wImplicitProfileId (Writer_Init n) = kProfileIdNotSpecified"
  using assms by (auto simp: exact_def Writer_Init_def Let_def unat_of_nat)

text \<open>
  C13.  TLV round trip.  Elements of any depth (integers of all sizes, booleans, floating-point numbers, null, byte strings, texts,
  structures, arrays and lists, with tags that their containers permit) written with the functions of \<open>TLVWriter\<close> into a buffer with room for their
  encoding are all written without error, and a program that reads the bytes with \<open>Next\<close>, the getters, \<open>EnterContainer\<close> and
  \<open>ExitContainer\<close> of \<open>TLVReader\<close> gets the same elements, with each text cut at its first separator 0x1F if it has one, and then the end of
  the data.  Without the separator the elements read are exactly the ones written.
\<close>

theorem tlv_roundtrip:
  assumes "list_all (good kTLVType_NotSpecified) xs" "length (encoding xs) \<le> n" "n < 2 ^ 32"
  shows "\<exists>w. putElements xs (Writer_Init n) = Some (None, w) \<and> wBuf w = encoding xs \<and>
             (\<exists>r. readAll (Reader_Init (wBuf w)) = Some (map cutTexts xs, CHIP_END_OF_TLV, r) \<and> rBuf r = []) \<and>
             (list_all separatorFree xs \<longrightarrow> map cutTexts xs = xs)"
proof -
  have w: "putElements xs (Writer_Init n) = Some (None, store (encoding xs) (Writer_Init n))"
    using put_exact(2) [OF exact_Init(1) [OF assms(3)]] assms exact_Init [OF assms(3)] by simp
  have len: "length (encoding xs) < 2 ^ 32" using assms(2,3) by simp
  note i = idle_Init [OF len]
  let ?r = "advance (length (encoding xs)) (Reader_Init (encoding xs))"
  have "readAll (Reader_Init (encoding xs)) = prepend (map cutTexts xs) (readAll ?r)"
    using readAll_elements [OF i(1,3) assms(1), of "[]"] i by simp
  moreover have "idle ?r" "rBuf ?r = []" using idle_after [OF i(1), of "encoding xs" "[]"] i(2) by simp_all
  moreover from this have "readAll ?r = Some ([], CHIP_END_OF_TLV, ?r)" using Next_empty by (subst readAll.simps) simp
  moreover have "list_all separatorFree xs \<longrightarrow> map cutTexts xs = xs" by (auto simp: list_all_iff intro: map_idI cutTexts_id)
  ultimately show ?thesis using w exact_Init(2) [OF assms(3)] by (simp add: prepend_def)
qed

definition sampleElements :: "element list" where
  "sampleElements =
     [Leaf (CommonTag 70000) (VBool True),
      Node AnonymousTag kTLVType_Structure
        [Leaf (ContextTag 1) (VUInt 300), Leaf (ContextTag 2) (VString [0x61, 0x1F, 0x62]), Leaf (ContextTag 7) (VString []),
         Node (ContextTag 3) kTLVType_Array [Leaf AnonymousTag (VInt (- 5)), Leaf AnonymousTag VNull],
         Leaf (ProfileTag 0xFFF10002 9) (VBytes [1, 2, 3])]]"

lemma sampleElements_good: "list_all (good kTLVType_NotSpecified) sampleElements"
  by (simp add: sampleElements_def goodTag_ContextTag goodTag_AnonymousTag goodTag_ProfileTag CommonTag_def kCommonProfileId_def kSpecialTagProfileId_def
      TLVTypeIsContainer_def kUnicodeInformationSeparator1_def type_defs)

lemma sampleElements_short: "length (encoding sampleElements) \<le> 64"
  by code_simp

theorem tlv_roundtrip_witness:
  "\<exists>w. putElements sampleElements (Writer_Init 64) = Some (None, w) \<and> wBuf w = encoding sampleElements \<and>
        (\<exists>r. readAll (Reader_Init (wBuf w)) = Some (map cutTexts sampleElements, CHIP_END_OF_TLV, r) \<and> rBuf r = [])"
  using tlv_roundtrip [OF sampleElements_good sampleElements_short] by auto

section \<open>Searching and counting\<close>

lemma here_calls [simp]: "rCalls (here ct x r) = rCalls r" "rCalls (headRead h t v r) = rCalls r"
  by (simp_all add: here_def headRead_def)

lemma findLoop_Next: "Next r = Next r' \<Longrightarrow> findLoop t r = findLoop t r'"
  by (subst (1 2) findLoop.simps) simp

lemma countLoop_Next: "Next r = Next r' \<Longrightarrow> countLoop n r = countLoop n r'"
  by (subst (1 2) countLoop.simps) simp

text \<open>The reader a search returns: on the element \<open>x\<close>, whose text, if it is one, is read up to its first separator.\<close>

definition onElement :: "element \<Rightarrow> TLVReader \<Rightarrow> bool" where
  "onElement x r \<longleftrightarrow> mElemTag r = tagOf x \<and> (case x of Leaf tag v \<Rightarrow> getValue r = (None, cutValue v) | Node tag e kids \<Rightarrow> GetType r = e)"

lemma here_onElement:
  assumes "idle r" "rContainerType r = ct" "good ct x" "rBuf r = enc (rImplicitProfileId r) ct x @ tail"
  shows "onElement x (here ct x r)"
  using here_type(3,4) [OF assms] by (cases x) (auto simp: onElement_def)

lemma loops_elements:
  assumes "idle r" "rContainerType r = ct" "ct \<noteq> kTLVType_NotSpecified" "list_all (good ct) xs" "rBuf r = encs (rImplicitProfileId r) ct xs @ 0x18 # tail"
  shows "\<exists>r'. countLoop n r = Some (Inr (n + length xs), r') \<and> rCalls r' = rCalls r"
    and "\<exists>r'. findLoop t r = Some (case find (\<lambda>x. tagOf x = t) xs of None \<Rightarrow> Some CHIP_END_OF_TLV | Some x \<Rightarrow> None, r') \<and> rCalls r' = rCalls r \<and>
               (\<forall>x. find (\<lambda>x. tagOf x = t) xs = Some x \<longrightarrow> onElement x r')"
  using assms
proof (induction xs arbitrary: r n)
  case Nil
  { case 1 then show ?case using Next_end [of r tail] by (subst countLoop.simps) simp }
  { case 2 then show ?case using Next_end [of r tail] by (subst findLoop.simps) simp }
next
  case (Cons x xs)
  have step: "Next r = Some (None, here ct x r)" "Next (here ct x r) = Next r1" "idle r1" "rContainerType r1 = ct" "rCalls r1 = rCalls r"
    "rBuf r1 = encs (rImplicitProfileId r1) ct xs @ 0x18 # tail" "onElement x (here ct x r)" "GetType (here ct x r) \<noteq> kTLVType_NotSpecified"
    if a: "idle r" "rContainerType r = ct" "list_all (good ct) (x # xs)" "rBuf r = encs (rImplicitProfileId r) ct (x # xs) @ 0x18 # tail"
      and r1: "r1 = advance (length (enc (rImplicitProfileId r) ct x)) r" for r r1
  proof -
    have x: "good ct x" "rBuf r = enc (rImplicitProfileId r) ct x @ (encs (rImplicitProfileId r) ct xs @ 0x18 # tail)" using a(3,4) by simp_all
    note e = a(1,2) x
    show "Next r = Some (None, here ct x r)" "Next (here ct x r) = Next r1" "onElement x (here ct x r)" "GetType (here ct x r) \<noteq> kTLVType_NotSpecified"
      unfolding r1 by (rule Next_here [OF e] Next_next [OF e] here_onElement [OF e] here_type(2) [OF e])+
    show "idle r1" "rBuf r1 = encs (rImplicitProfileId r1) ct xs @ 0x18 # tail" using idle_after [OF a(1) x(2)] by (simp_all add: r1)
  qed (use that in simp_all)
  { case 1
    note s = step [OF 1(1,2,4,5) refl]
    show ?case using Cons.IH(1) [OF s(3,4) 1(3) _ s(6), of "Suc n"] 1(4) s(1,5) countLoop_Next [OF s(2)] by (subst countLoop.simps) simp }
  { case 2
    note s = step [OF 2(1,2,4,5) refl]
    have "mElemTag (here ct x r) = tagOf x" by simp
    then show ?case using Cons.IH(2) [OF s(3,4) 2(3) _ s(6)] 2(4) s(1,5,7,8) findLoop_Next [OF s(2)] by (subst findLoop.simps) auto }
qed

text \<open>
  C22.  \<open>FindElementWithTag\<close> and \<open>CountRemainingInContainer\<close> are exact.  Inside of a container with the given elements, at whatever depth they
  are nested, the count is their number, and the search for a tag finds the first element with that tag, with the value (a text up to its separator)
  or container type that was written, or reports the end of the container when there is none.  Neither moves the reader.
\<close>

theorem find_and_count_exact:
  assumes "good kTLVType_NotSpecified (Node tag ct kids)" "length (encoding [Node tag ct kids] @ rest) < 2 ^ 32"
    "Next (Reader_Init (encoding [Node tag ct kids] @ rest)) = Some (None, r)" "EnterContainer r = (None, outer, c)"
  shows "CountRemainingInContainer c = Some (Inr (length kids), c) \<and>
         (case find (\<lambda>x. tagOf x = t) kids of
            None \<Rightarrow> FindElementWithTag t c = Some (Inl CHIP_END_OF_TLV, c)
          | Some x \<Rightarrow> \<exists>d. FindElementWithTag t c = Some (Inr d, c) \<and> onElement x d)"
proof -
  let ?x = "Node tag ct kids" and ?i = kProfileIdNotSpecified and ?r = "Reader_Init (encoding [Node tag ct kids] @ rest)"
  note i = idle_Init [OF assms(2)]
  have buf: "rBuf ?r = enc (rImplicitProfileId ?r) kTLVType_NotSpecified ?x @ rest" using i(2,4) by simp
  have r: "r = here kTLVType_NotSpecified ?x ?r" using Next_here [OF i(1,3) assms(1) buf] assms(3) by simp
  note ent = Enter_here [OF i(1,3) assms(1) buf]
  have c: "idle c" "rContainerType c = ct" "rBuf c = encs (rImplicitProfileId c) ct kids @ 0x18 # rest"
    using ent assms(4) r by auto
  have k: "ct \<noteq> kTLVType_NotSpecified" "list_all (good ct) kids" using assms(1) by (auto simp: TLVTypeIsContainer_def type_defs)
  obtain c1 where 1: "countLoop 0 c = Some (Inr (length kids), c1)" "rCalls c1 = rCalls c" using loops_elements(1) [OF c(1,2) k c(3), of 0] by auto
  obtain c2 where 2: "findLoop t c = Some (case find (\<lambda>x. tagOf x = t) kids of None \<Rightarrow> Some CHIP_END_OF_TLV | Some x \<Rightarrow> None, c2)" "rCalls c2 = rCalls c"
    "\<forall>x. find (\<lambda>x. tagOf x = t) kids = Some x \<longrightarrow> onElement x c2" using loops_elements(2) [OF c(1,2) k c(3), of t] by blast
  show ?thesis using 1 2 c(2) k(1) by (auto simp: CountRemainingInContainer_def FindElementWithTag_def split: option.splits)
qed

lemma open_structure:
  assumes "good kTLVType_NotSpecified (Node tag ct kids)" "length (encoding [Node tag ct kids] @ rest) < 2 ^ 32"
  shows "\<exists>r outer c. Next (Reader_Init (encoding [Node tag ct kids] @ rest)) = Some (None, r) \<and> EnterContainer r = (None, outer, c)"
proof -
  let ?r = "Reader_Init (encoding [Node tag ct kids] @ rest)"
  note i = idle_Init [OF assms(2)]
  have buf: "rBuf ?r = enc (rImplicitProfileId ?r) kTLVType_NotSpecified (Node tag ct kids) @ rest" using i(2,4) by simp
  show ?thesis using Next_here [OF i(1,3) assms(1) buf] Enter_here(1) [OF i(1,3) assms(1) buf] by blast
qed

definition sampleKids :: "element list" where
  "sampleKids = [Leaf (ContextTag 1) (VUInt 300), Node (ContextTag 3) kTLVType_Array [Leaf AnonymousTag VNull], Leaf (ContextTag 1) (VUInt 5)]"

lemma sampleKids_good: "good kTLVType_NotSpecified (Node AnonymousTag kTLVType_Structure sampleKids)"
  by (simp add: sampleKids_def goodTag_ContextTag goodTag_AnonymousTag TLVTypeIsContainer_def type_defs)

lemma sampleKids_short: "length (encoding [Node AnonymousTag kTLVType_Structure sampleKids] @ [0x14]) \<le> 64"
  by code_simp

lemma sampleKids_find: "find (\<lambda>x. tagOf x = ContextTag 1) sampleKids = Some (Leaf (ContextTag 1) (VUInt 300))"
  by (simp add: sampleKids_def)

theorem find_and_count_exact_witness:
  "\<exists>r outer c d. Next (Reader_Init (encoding [Node AnonymousTag kTLVType_Structure sampleKids] @ [0x14])) = Some (None, r) \<and>
      EnterContainer r = (None, outer, c) \<and> CountRemainingInContainer c = Some (Inr 3, c) \<and>
      FindElementWithTag (ContextTag 1) c = Some (Inr d, c) \<and> getValue d = (None, VUInt 300)"
proof -
  have len: "length (encoding [Node AnonymousTag kTLVType_Structure sampleKids] @ [0x14]) < 2 ^ 32" using sampleKids_short by simp
  obtain r outer c where r: "Next (Reader_Init (encoding [Node AnonymousTag kTLVType_Structure sampleKids] @ [0x14])) = Some (None, r)"
    "EnterContainer r = (None, outer, c)" using open_structure [OF sampleKids_good len] by blast
  from find_and_count_exact [OF sampleKids_good len r, of "ContextTag 1"] r sampleKids_find
  show ?thesis by (auto simp: onElement_def sampleKids_def)
qed

section \<open>Copying\<close>

lemma copyLoop_exact:
  assumes "contig h" "n \<le> length (rBuf h)" "exact b cap d w" "length (wBuf w) + n + d \<le> cap"
  shows "copyLoop n h w = Some (None, store (take n (rBuf h)) w)"
  using assms
proof (induction n arbitrary: h w rule: less_induct)
  case (less n)
  show ?case
  proof (cases "n = 0")
    case True
    then show ?thesis by (subst copyLoop.simps) simp
  next
    case False
    define k where "k = min n 16"
    have k: "0 < k" "k \<le> n" "k \<le> length (rBuf h)" using False less.prems(2) by (simp_all add: k_def)
    let ?w = "store (take k (rBuf h)) w"
    have "ReadData k h = (None, take k (rBuf h), advance k h)" using k less.prems(1) by (simp add: ReadData_contig)
    moreover have "WriteData (take k (rBuf h)) w = Some (None, ?w)" using WriteData_exact [OF less.prems(3)] less.prems(4) k by simp
    moreover have "exact b cap d ?w" using exact_store [OF less.prems(3)] less.prems(4) k by simp
    then have "copyLoop (n - k) (advance k h) ?w = Some (None, store (take (n - k) (drop k (rBuf h))) ?w)"
      using less.IH [of "n - k" "advance k h" ?w] reads_contig [OF reads_advance [OF less.prems(1) k(3)]] less.prems(2,4) k by simp
    moreover have "take k (rBuf h) @ take (n - k) (drop k (rBuf h)) = take n (rBuf h)" using k(2) by (metis le_add_diff_inverse take_add)
    ultimately show ?thesis using False by (subst copyLoop.simps) (simp add: Let_def k_def [symmetric] rThen_def)
  qed
qed

fun retag :: "Tag \<Rightarrow> element \<Rightarrow> element" where
  "retag t (Leaf tag v) = Leaf t v"
| "retag t (Node tag e kids) = Node t e kids"

lemma retag_parts [simp]: "xType (retag t x) = xType x" "xField (retag t x) = xField x" "xBody i (retag t x) = xBody i x" "tagOf (retag t x) = t"
  by (cases x; simp)+

lemma CopyElement_exact:
  assumes r: "idle r" "rContainerType r = ct" "good ct x" "rBuf r = enc (rImplicitProfileId r) ct x @ tail"
    and w: "exact b cap d w" "wImplicitProfileId w = rImplicitProfileId r" "goodTag (wContainerType w) t"
      "length (wBuf w) + length (enc (rImplicitProfileId r) (wContainerType w) (retag t x)) + d \<le> cap"
  shows "CopyElement t (here ct x r) w = Some (None, advance (length (enc (rImplicitProfileId r) ct x)) r, store (enc (rImplicitProfileId r) (wContainerType w) (retag t x)) w)"
proof -
  let ?i = "rImplicitProfileId r" and ?h = "here ct x r"
  let ?r' = "advance (length (enc ?i ct x)) r" and ?b = "xBody ?i x"
  define hd where "hd = headOf ?i (wContainerType w) (xType x) t (xField x)"
  have h: "contig ?h" "ElementType ?h = xType x" "rBuf ?h = ?b @ tail"
    using here_contig [OF _ r(4)] r(1) here_type(1) [OF r] r(4) by (simp_all add: idle_def enc_split)
  have enc': "enc ?i (wContainerType w) (retag t x) = hd @ ?b" by (simp add: enc_split xHead_def hd_def)
  have "mLenRead ?r' - mLenRead ?h = of_nat (length ?b)" by (simp add: enc_split)
  moreover have "length ?b < 2 ^ 32" using w(1,4) enc' by (simp add: exact_def)
  ultimately have len: "unat (mLenRead ?r' - mLenRead ?h) = length ?b" by (simp add: unat_of_nat)
  have wr: "WriteElementHead (xType x) t (xField x) w = Some (None, store hd w)"
    using WriteHead_exact [OF w(1) good_head [OF w(3)]] w(2,4) enc' by (simp add: hd_def)
  have "exact b cap d (store hd w)" using exact_store [OF w(1)] w(4) enc' by simp
  then have "copyLoop (length ?b) (?h\<lparr>rCalls := rCalls ?r'\<rparr>) (store hd w) = Some (None, store (hd @ ?b) w)"
    using copyLoop_exact [of "?h\<lparr>rCalls := rCalls ?r'\<rparr>" "length ?b" b cap d "store hd w"] h w(4) enc' r(4)
    by (simp add: enc_split [of _ _ x])
  then show ?thesis using good_range(3,4) [OF r(3)] h(2) Skip_here [OF r] len wr enc' by (simp add: CopyElement_def Let_def rThen_def)
qed

text \<open>
  C23.  \<open>CopyElement\<close> with a new tag writes the element, with everything it contains, under the new tag: the output is the encoding that
  writing the retagged element itself would give, and the reader is left right after the element.  The data are copied in
  pieces of 16 bytes, whatever their length.
\<close>

theorem copy_element_retags:
  assumes "good kTLVType_NotSpecified x" "goodTag kTLVType_NotSpecified t" "length (encoding [x] @ rest) < 2 ^ 32"
    "Next (Reader_Init (encoding [x] @ rest)) = Some (None, r)" "length (encoding [retag t x]) \<le> n" "n < 2 ^ 32"
  shows "\<exists>r' w. CopyElement t r (Writer_Init n) = Some (None, r', w) \<and> wBuf w = encoding [retag t x] \<and> rBuf r' = rest"
proof -
  note i = idle_Init [OF assms(3)]
  let ?r = "Reader_Init (encoding [x] @ rest)"
  have buf: "rBuf ?r = enc (rImplicitProfileId ?r) kTLVType_NotSpecified x @ rest" using i(2,4) by simp
  have "r = here kTLVType_NotSpecified x ?r" using Next_here [OF i(1,3) assms(1) buf] assms(4) by simp
  then show ?thesis using CopyElement_exact [OF i(1,3) assms(1) buf exact_Init(1) [OF assms(6)], of t] exact_Init [OF assms(6)] assms(2,5) i(2,4) buf by simp
qed

theorem copy_element_retags_witness:
  "\<exists>r r' w. Next (Reader_Init (encoding [Node AnonymousTag kTLVType_Structure sampleKids] @ [0x14])) = Some (None, r) \<and>
     CopyElement (CommonTag 8) r (Writer_Init 64) = Some (None, r', w) \<and> wBuf w = encoding [Node (CommonTag 8) kTLVType_Structure sampleKids] \<and> rBuf r' = [0x14]"
proof -
  let ?x = "Node AnonymousTag kTLVType_Structure sampleKids"
  have len: "length (encoding [?x] @ [0x14]) < 2 ^ 32" using sampleKids_short by simp
  obtain r where r: "Next (Reader_Init (encoding [?x] @ [0x14])) = Some (None, r)" using open_structure [OF sampleKids_good len] by blast
  have t: "goodTag kTLVType_NotSpecified (CommonTag 8)" by (simp add: CommonTag_def goodTag_ProfileTag kCommonProfileId_def kSpecialTagProfileId_def)
  have "length (encoding [retag (CommonTag 8) ?x]) \<le> 64" by code_simp
  from copy_element_retags [OF sampleKids_good t len r this] r show ?thesis by auto
qed

section \<open>The end marker\<close>

text \<open>
  C39.  The space for the end of a container is not always kept.  \<open>StartContainer\<close> takes one byte from the maximal length so that
  \<open>EndContainer\<close> can succeed, but \<open>WriteElementHead\<close> writes directly into the buffer whenever 17 bytes are free there and the maximal length is at least
  17, without comparing the bytes written with the maximal length.  In a buffer of 18 bytes a structure is begun, a number of 64 bits with a full
  tag is written without error over the reserved byte, and the structure can no longer be ended.
\<close>

theorem end_marker_space_lost:
  assumes "IsProfileTag tag" "ProfileIdFromTag tag \<noteq> kCommonProfileId" "65536 \<le> TagNumFromTag tag" "0xFFFFFFFF < v"
  shows "\<exists>w1 w2 w3. StartContainer AnonymousTag kTLVType_Structure (Writer_Init 18) = Some (None, kTLVType_NotSpecified, w1) \<and>
           Put_uint64 tag v w1 = Some (None, w2) \<and> EndContainer kTLVType_NotSpecified w2 = Some (Some CHIP_ERROR_BUFFER_TOO_SMALL, w3)"
proof -
  let ?w = "Writer_Init 18"
  define h where "h = headOf kProfileIdNotSpecified kTLVType_NotSpecified kTLVType_Structure AnonymousTag 0"
  define w1 where "w1 = (store h ?w)\<lparr>wMaxLen := wMaxLen ?w - 1, wContainerType := kTLVType_Structure\<rparr>"
  have hl: "length h = 1" unfolding h_def by code_simp
  have st: "StartContainer AnonymousTag kTLVType_Structure ?w = Some (None, kTLVType_NotSpecified, w1)"
    using beginContainer_exact(1) [OF exact_Init(1) [of 18], of AnonymousTag kTLVType_Structure h] exact_Init [of 18] hl
    by (simp add: w1_def h_def goodTag_AnonymousTag TLVTypeIsContainer_def type_defs)
  have w1: "mRemainingLen w1 = 17" "mLenWritten w1 = 1" "wMaxLen w1 = 17" "\<not> wContainerOpen w1" "mCloseContainerReserved w1"
    "wImplicitProfileId w1 = kProfileIdNotSpecified" "wContainerType w1 = kTLVType_Structure" "wStore w1 = None"
    using hl by (simp_all add: w1_def Writer_Init_def Let_def)
  have pid: "\<not> IsSpecialTag tag" "ProfileIdFromTag tag \<noteq> kProfileIdNotSpecified"
    using assms(1) by (simp_all add: IsProfileTag_def IsSpecialTag_def kSpecialTagProfileId_def kProfileIdNotSpecified_def)
  have ut: "uintType v = Elem_UInt64" using assms(4) by (auto simp: uintType_def word_le_nat_alt word_less_nat_alt)
  obtain g where g: "headBytes kProfileIdNotSpecified kTLVType_Structure Elem_UInt64 tag v = Inr g" "length g = 17"
    using pid assms(2,3) field_simps_types(8)
    by (auto simp: headBytes_def tagHead_def Let_def not_less valueField_def fieldBytes_def type_defs)
  have put: "Put_uint64 tag v w1 = Some (None, store g w1)" using g(1) w1 ut by (simp add: Put_ints WriteElementHead_def)
  have "mRemainingLen (store g w1) = 0" "mLenWritten (store g w1) = 18" using g(2) w1 by simp_all
  then have "EndContainer kTLVType_NotSpecified (store g w1) = Some (Some CHIP_ERROR_BUFFER_TOO_SMALL,
      (store g w1)\<lparr>wContainerType := kTLVType_NotSpecified, wMaxLen := 18\<rparr>)"
    using w1 end_head [of kProfileIdNotSpecified kTLVType_NotSpecified]
    by (simp add: EndContainer_def Let_def WriteElementHead_def WriteData_def kEndOfContainerMarkerSize_def TLVTypeIsContainer_def
        kTLVType_Structure_def Elem_Structure_def Elem_List_def)
  with st put show ?thesis by blast
qed

theorem end_marker_space_lost_witness:
  "\<exists>w1 w2 w3. StartContainer AnonymousTag kTLVType_Structure (Writer_Init 18) = Some (None, kTLVType_NotSpecified, w1) \<and>
     Put_uint64 (ProfileTag 0xFFF10002 0x10000) 0x100000000 w1 = Some (None, w2) \<and>
     EndContainer kTLVType_NotSpecified w2 = Some (Some CHIP_ERROR_BUFFER_TOO_SMALL, w3)"
  by (rule end_marker_space_lost) (simp_all add: IsProfileTag_def kSpecialTagProfileId_def kCommonProfileId_def)

section \<open>Reserved space left over\<close>

lemma OpenContainer_reserved: "Writer_OpenContainer tag e c0 w = Some (None, c, w') \<Longrightarrow> mReservedSize c = mReservedSize c0"
  by (auto simp: Writer_OpenContainer_def split: if_splits)

lemma null_head: "headBytes kProfileIdNotSpecified kTLVType_Array Elem_Null AnonymousTag 0 = Inr [0x14]"
  by code_simp

text \<open>As long as 17 bytes seem to be free, a head is stored whatever has been written before.\<close>

lemma nulls_stored:
  assumes "\<not> wContainerOpen w" "wImplicitProfileId w = kProfileIdNotSpecified" "wContainerType w = kTLVType_Array"
    and "17 \<le> wMaxLen w" "m + 16 \<le> unat (mRemainingLen w)"
  shows "\<exists>w'. putElements (replicate m (Leaf AnonymousTag VNull)) w = Some (None, w') \<and> wBuf w' = wBuf w @ replicate m 0x14"
  using assms
proof (induction m arbitrary: w)
  case (Suc m)
  have "mRemainingLen w \<ge> 17" using Suc.prems(5) by (simp add: word_le_nat_alt)
  then have p: "putElement (Leaf AnonymousTag VNull) w = Some (None, store [0x14] w)"
    using Suc.prems(1-4) null_head by (simp add: PutNull_def WriteElementHead_def)
  have "unat (mRemainingLen w - 1) = unat (mRemainingLen w) - 1" using Suc.prems(5) by (simp add: unat_sub word_le_nat_alt)
  then have "m + 16 \<le> unat (mRemainingLen w - 1)" using Suc.prems(5) by linarith
  then obtain w' where "putElements (replicate m (Leaf AnonymousTag VNull)) (store [0x14] w) = Some (None, w')"
      "wBuf w' = wBuf (store [0x14] w) @ replicate m 0x14"
    using Suc.IH [of "store [0x14] w"] Suc.prems by auto
  then show ?case using p by (auto simp: rThen_def)
qed simp

text \<open>
  C40.  Reserved space left over in a container writer lets the writer leave its buffer.  \<open>OpenContainer\<close> does not set \<open>mReservedSize\<close> of the container writer, so
  whatever a caller's \<open>TLVWriter\<close> holds there stays.  With 18 bytes or more there, releasing them with \<open>UnreserveBuffer\<close> adds
  them to the free space of the container, and then as many one-byte elements as the buffer has bytes are written without error after the head of
  the container: one byte more than the buffer holds.
\<close>

theorem leftover_reservation_overflows:
  assumes "19 \<le> n" "18 \<le> unat (mReservedSize c0)" "n + unat (mReservedSize c0) < 2 ^ 32"
  shows "\<exists>c w c1 c2. Writer_OpenContainer AnonymousTag kTLVType_Array c0 (Writer_Init n) = Some (None, c, w) \<and>
           UnreserveBuffer (mReservedSize c0) c = (None, c1) \<and>
           length (wBuf c1) + unat (mRemainingLen c1) = n + unat (mReservedSize c0) \<and>
           putElements (replicate n (Leaf AnonymousTag VNull)) c1 = Some (None, c2) \<and> length (wBuf c2) = n + 1"
proof -
  have n: "n < 2 ^ 32" using assms(3) by simp
  note i = exact_Init [OF n]
  define h where "h = headOf kProfileIdNotSpecified kTLVType_NotSpecified kTLVType_Array AnonymousTag 0"
  have hl: "length h = 1" unfolding h_def by code_simp
  obtain c w where o: "Writer_OpenContainer AnonymousTag kTLVType_Array c0 (Writer_Init n) = Some (None, c, w)" "exact 1 n 1 c" "wBuf c = h"
      "wContainerType c = kTLVType_Array" "wImplicitProfileId c = kProfileIdNotSpecified"
    using OpenContainer_exact [OF i(1), of AnonymousTag kTLVType_Array h c0] i hl assms(1)
    by (auto simp: h_def goodTag_AnonymousTag TLVTypeIsContainer_def type_defs)
  note r = OpenContainer_reserved [OF o(1)]
  define c1 where "c1 = c\<lparr>mReservedSize := 0, mRemainingLen := mRemainingLen c + mReservedSize c0\<rparr>"
  have u: "UnreserveBuffer (mReservedSize c0) c = (None, c1)" using r by (simp add: UnreserveBuffer_def c1_def)
  have rem: "unat (mRemainingLen c) = n - 1" "unat (wMaxLen c) = n - 2" "\<not> wContainerOpen c" using o(2,3) hl by (auto simp: exact_def)
  have rem1: "unat (mRemainingLen c1) = n - 1 + unat (mReservedSize c0)"
    using rem(1) assms(3) by (simp add: c1_def unat_word_ariths)
  have "n + 16 \<le> unat (mRemainingLen c1)" unfolding rem1 using assms(1,2) by linarith
  moreover have "17 \<le> wMaxLen c" using rem(2) assms(1) by (simp add: word_le_nat_alt)
  ultimately obtain c2 where "putElements (replicate n (Leaf AnonymousTag VNull)) c1 = Some (None, c2)" "wBuf c2 = wBuf c1 @ replicate n 0x14"
    using nulls_stored [of c1 n] rem(3) o(4,5) by (auto simp: c1_def)
  moreover have "wBuf c1 = h" using o(3) by (simp add: c1_def)
  ultimately show ?thesis using o(1) u rem1 hl assms(1) by auto
qed

theorem leftover_reservation_overflows_witness:
  "\<exists>c w c1 c2. Writer_OpenContainer AnonymousTag kTLVType_Array ((Writer_Init 0)\<lparr>mReservedSize := 100\<rparr>) (Writer_Init 20) = Some (None, c, w) \<and>
     UnreserveBuffer 100 c = (None, c1) \<and> putElements (replicate 20 (Leaf AnonymousTag VNull)) c1 = Some (None, c2) \<and> length (wBuf c2) = 21"
  using leftover_reservation_overflows [of 20 "(Writer_Init 0)\<lparr>mReservedSize := 100\<rparr>"] by auto

end
