(* ===== verification/QR_Optional.thy ===== *)
theory QR_Optional
  imports QR_Code Tlv_Roundtrip
begin

text \<open>
  The optional data of the QR code: how the generator of \<^verbatim>\<open>src/setup_payload/QRCodeSetupPayloadGenerator.cpp\<close> encodes them with the TLV
  writer and the parser of \<^verbatim>\<open>src/setup_payload/QRCodeSetupPayloadParser.cpp\<close> reads them back with the TLV reader, joined to
  \<open>QR_Code\<close>.  Shown: a payload with optional data survives the way into the QR text and back.
\<close>

unbundle bit_operations_syntax

section \<open>Generator\<close>

text \<open>The characters of a \<open>std::string\<close> are bytes.\<close>

definition byteOf :: "char \<Rightarrow> u8" where "byteOf c = of_nat (of_char c)"
definition charOf :: "u8 \<Rightarrow> char" where "charOf b = char_of (unat b)"

lemma charOf_byteOf [simp]: "charOf (byteOf c) = c"
  by (simp add: charOf_def byteOf_def unat_of_nat char_of_mod_256)

lemma byteOf_eq: "byteOf c = byteOf d \<longleftrightarrow> c = d"
  by (metis charOf_byteOf)

definition writeTag :: "Tag \<Rightarrow> 'a OptionalQRCodeInfo_scheme \<Rightarrow> TLVWriter \<Rightarrow> wResult option" where
  "writeTag tg info w =
     (if infoType info = InfoString then PutString_c tg (map byteOf (infoData info) @ [0]) w
      else if infoType info = InfoInt32 then Put_int32 tg (word_of_int (int32 info)) w
      else Some (Some CHIP_ERROR_INVALID_ARGUMENT, w))"

definition writeTagExtension :: "Tag \<Rightarrow> OptionalQRCodeInfoExtension \<Rightarrow> TLVWriter \<Rightarrow> wResult option" where
  "writeTagExtension tg info w =
     (if infoType info = InfoString \<or> infoType info = InfoInt32 then writeTag tg info w
      else if infoType info = InfoInt64 then Put_int64 tg (word_of_int (int64 info)) w
      else if infoType info = InfoUInt32 then Put_uint64 tg (uint32 info) w
      else if infoType info = InfoUInt64 then Put_uint64 tg (uint64 info) w
      else Some (Some CHIP_ERROR_INVALID_ARGUMENT, w))"

fun writeVendorTags :: "OptionalQRCodeInfo list \<Rightarrow> TLVWriter \<Rightarrow> wResult option" where
  "writeVendorTags [] w = Some (None, w)"
| "writeVendorTags (info # infos) w = rThen (writeTag (ContextTag (tag info)) info w) (writeVendorTags infos)"

fun writeExtensionTags :: "OptionalQRCodeInfoExtension list \<Rightarrow> TLVWriter \<Rightarrow> wResult option" where
  "writeExtensionTags [] w = Some (None, w)"
| "writeExtensionTags (info # infos) w = rThen (writeTagExtension (ContextTag (tag info)) info w) (writeExtensionTags infos)"

text \<open>\<open>inner\<close> is the container writer, not initialised in the code.\<close>

definition generateTLVFromOptionalData :: "TLVWriter \<Rightarrow> SetupPayload \<Rightarrow> nat \<Rightarrow> bytes result option" where
  "generateTLVFromOptionalData inner sp maxLen =
     (if optionalVendorData sp = [] \<and> optionalExtensionData sp = [] then Some (Inr [])
      else (case Writer_OpenContainer AnonymousTag kTLVType_Structure inner (Writer_Init maxLen) of
              None \<Rightarrow> None
            | Some (Some e, _, _) \<Rightarrow> Some (Inl e)
            | Some (None, inner, root) \<Rightarrow>
                (case rThen (writeVendorTags (optionalVendorData sp) inner) (writeExtensionTags (optionalExtensionData sp)) of
                   None \<Rightarrow> None
                 | Some (Some e, _) \<Rightarrow> Some (Inl e)
                 | Some (None, inner) \<Rightarrow>
                     (case Writer_CloseContainer inner root of
                        None \<Rightarrow> None
                      | Some (Some e, _, _) \<Rightarrow> Some (Inl e)
                      | Some (None, _, root) \<Rightarrow>
                          (case Writer_Finalize root of
                             (Some e, _) \<Rightarrow> Some (Inl e)
                           | (None, root) \<Rightarrow> Some (Inr (take (unat (mLenWritten root)) (wBuf root))))))))"

text \<open>The estimate of the buffer size, with \<open>EstimateStructOverhead\<close> of \<^verbatim>\<open>src/lib/core/TLVCommon.h\<close>.\<close>

definition dataItemSizeEstimate :: "'a OptionalQRCodeInfo_scheme \<Rightarrow> nat" where
  "dataItemSizeEstimate item = (if infoType item = InfoString then 2 + 8 + length (infoData item) else 2 + 8)"

definition EstimateStructOverhead :: "nat \<Rightarrow> nat" where
  "EstimateStructOverhead firstFieldSize = firstFieldSize + 4 + 2"

definition tlvEstimate :: "SetupPayload \<Rightarrow> nat" where
  "tlvEstimate sp = EstimateStructOverhead
     (sum_list (map dataItemSizeEstimate (optionalVendorData sp)) + sum_list (map dataItemSizeEstimate (optionalExtensionData sp)))"

definition payloadBase38RepresentationWithBuffer :: "TLVWriter \<Rightarrow> bool \<Rightarrow> SetupPayload \<Rightarrow> nat \<Rightarrow> string result option" where
  "payloadBase38RepresentationWithBuffer inner mAllowInvalidPayload sp maxLen =
     (if \<not> (mAllowInvalidPayload \<or> isValidQRCodePayload (contents sp)) then Some (Inl CHIP_ERROR_INVALID_ARGUMENT)
      else map_option (payloadBase38Representation mAllowInvalidPayload (contents sp)) (generateTLVFromOptionalData inner sp maxLen))"

text \<open>The generator without a buffer, which only serves payloads without optional data, and the one that allocates it.\<close>

definition payloadBase38RepresentationPlain :: "TLVWriter \<Rightarrow> bool \<Rightarrow> SetupPayload \<Rightarrow> string result option" where
  "payloadBase38RepresentationPlain inner mAllowInvalidPayload sp = payloadBase38RepresentationWithBuffer inner mAllowInvalidPayload sp 0"

definition payloadBase38RepresentationWithAutoTLVBuffer :: "(nat \<Rightarrow> bool) \<Rightarrow> TLVWriter \<Rightarrow> bool \<Rightarrow> SetupPayload \<Rightarrow> string result option" where
  "payloadBase38RepresentationWithAutoTLVBuffer alloc inner mAllowInvalidPayload sp =
     (if tlvEstimate sp \<ge> 2 ^ 32 \<or> \<not> alloc (tlvEstimate sp) then Some (Inl CHIP_ERROR_NO_MEMORY)
      else payloadBase38RepresentationWithBuffer inner mAllowInvalidPayload sp (tlvEstimate sp))"

section \<open>Parser\<close>

text \<open>A new \<open>OptionalQRCodeInfo\<close> has a tag and zeroes; its type is set when a value is stored.\<close>

definition newInfo :: "u8 \<Rightarrow> OptionalQRCodeInfo" where
  "newInfo t = \<lparr>tag = t, infoType = InfoUnknown, infoData = [], int32 = 0\<rparr>"

definition newInfoExtension :: "u8 \<Rightarrow> OptionalQRCodeInfoExtension" where
  "newInfoExtension t = \<lparr>tag = t, infoType = InfoUnknown, infoData = [], int32 = 0, int64 = 0, uint32 = 0, uint64 = 0\<rparr>"

definition retrieveOptionalInfoString :: "TLVReader \<Rightarrow> 'a OptionalQRCodeInfo_scheme \<Rightarrow> 'a OptionalQRCodeInfo_scheme result" where
  "retrieveOptionalInfoString r info =
     (case Get_CharSpan r [] of (Some e, _) \<Rightarrow> Inl e | (None, data) \<Rightarrow> Inr (info\<lparr>infoType := InfoString, infoData := map charOf data\<rparr>))"

definition retrieveOptionalInfoInt32 :: "TLVReader \<Rightarrow> 'a OptionalQRCodeInfo_scheme \<Rightarrow> 'a OptionalQRCodeInfo_scheme result" where
  "retrieveOptionalInfoInt32 r info =
     (case Get_int32 r 0 of (Some e, _) \<Rightarrow> Inl e | (None, v) \<Rightarrow> Inr (info\<lparr>infoType := InfoInt32, int32 := v\<rparr>))"

definition retrieveOptionalInfoInt64 :: "TLVReader \<Rightarrow> OptionalQRCodeInfoExtension \<Rightarrow> OptionalQRCodeInfoExtension result" where
  "retrieveOptionalInfoInt64 r info =
     (case Get_int64 r 0 of (Some e, _) \<Rightarrow> Inl e | (None, v) \<Rightarrow> Inr (info\<lparr>infoType := InfoInt64, int64 := v\<rparr>))"

definition retrieveOptionalInfoUInt32 :: "TLVReader \<Rightarrow> OptionalQRCodeInfoExtension \<Rightarrow> OptionalQRCodeInfoExtension result" where
  "retrieveOptionalInfoUInt32 r info =
     (case Get_uint32 r 0 of (Some e, _) \<Rightarrow> Inl e | (None, v) \<Rightarrow> Inr (info\<lparr>infoType := InfoUInt32, uint32 := v\<rparr>))"

definition retrieveOptionalInfoUInt64 :: "TLVReader \<Rightarrow> OptionalQRCodeInfoExtension \<Rightarrow> OptionalQRCodeInfoExtension result" where
  "retrieveOptionalInfoUInt64 r info =
     (case Get_uint64 r 0 of (Some e, _) \<Rightarrow> Inl e | (None, v) \<Rightarrow> Inr (info\<lparr>infoType := InfoUInt64, uint64 := v\<rparr>))"

definition retrieveOptionalInfo :: "TLVReader \<Rightarrow> 'a OptionalQRCodeInfo_scheme \<Rightarrow> optionalQRCodeInfoType \<Rightarrow> 'a OptionalQRCodeInfo_scheme result" where
  "retrieveOptionalInfo r info type =
     (if type = InfoString then retrieveOptionalInfoString r info
      else if type = InfoInt32 then retrieveOptionalInfoInt32 r info
      else Inl CHIP_ERROR_INVALID_ARGUMENT)"

definition retrieveOptionalInfoExtension ::
    "TLVReader \<Rightarrow> OptionalQRCodeInfoExtension \<Rightarrow> optionalQRCodeInfoType \<Rightarrow> OptionalQRCodeInfoExtension result" where
  "retrieveOptionalInfoExtension r info type =
     (if type = InfoString \<or> type = InfoInt32 then retrieveOptionalInfo r info type
      else if type = InfoInt64 then retrieveOptionalInfoInt64 r info
      else if type = InfoUInt32 then retrieveOptionalInfoUInt32 r info
      else if type = InfoUInt64 then retrieveOptionalInfoUInt64 r info
      else Inl CHIP_ERROR_INVALID_ARGUMENT)"

definition infoTypeOf :: "TLVType \<Rightarrow> bool" where
  "infoTypeOf type \<longleftrightarrow> type = kTLVType_UTF8String \<or> type = 0 \<or> type = 4"

text \<open>The body of the loop for a string or a number, and the loop.\<close>

definition storeInfo :: "TLVReader \<Rightarrow> SetupPayload \<Rightarrow> unit result \<times> SetupPayload" where
  "storeInfo r out =
     (let tagNumber = ucast (TagNumFromTag (mElemTag r)) :: u8;
          elemType = (if GetType r = kTLVType_UTF8String then InfoString else getNumericTypeFor tagNumber) in
      if \<not> IsContextTag (mElemTag r) then (Inl CHIP_ERROR_INVALID_TLV_TAG, out)
      else if IsCommonTag tagNumber
      then (case retrieveOptionalInfoExtension r (newInfoExtension tagNumber) elemType of
              Inl e \<Rightarrow> (Inl e, out) | Inr info \<Rightarrow> addOptionalExtensionData info out)
      else (case retrieveOptionalInfo r (newInfo tagNumber) elemType of
              Inl e \<Rightarrow> (Inl e, out) | Inr info \<Rightarrow> addOptionalVendorData info out))"

partial_function (option) retrieveOptionalInfos :: "SetupPayload \<Rightarrow> TLVReader \<Rightarrow> (unit result \<times> SetupPayload) option" where
  "retrieveOptionalInfos out r =
     (case (if infoTypeOf (GetType r) then storeInfo r out else (Inr (), out)) of
        (Inl e, out) \<Rightarrow> Some (Inl e, out)
      | (Inr _, out) \<Rightarrow>
          (case Next r of
             None \<Rightarrow> None
           | Some (Some e, _) \<Rightarrow> Some (if e = CHIP_END_OF_TLV then Inr () else Inl e, out)
           | Some (None, r) \<Rightarrow> retrieveOptionalInfos out r))"

text \<open>The root reader is not used after its container was opened; only the container reader is returned.\<close>

definition openTLVContainer :: "TLVReader \<Rightarrow> TLVType \<Rightarrow> Tag \<Rightarrow> TLVReader result" where
  "openTLVContainer r type tg =
     verify (GetType r = type) CHIP_ERROR_INVALID_ARGUMENT
      (verify (mElemTag r = tg) CHIP_ERROR_INVALID_ARGUMENT
       (verify (GetLength r = 0) CHIP_ERROR_INVALID_ARGUMENT
        (case Reader_OpenContainer r of
           (Some e, _, _) \<Rightarrow> Inl e
         | (None, None, _) \<Rightarrow> Inl CHIP_ERROR_INTERNAL
         | (None, Some c, _) \<Rightarrow> verify (rContainerType c = type) CHIP_ERROR_INVALID_ARGUMENT (Inr c))))"

definition parseTLVFieldsRun :: "bytes \<Rightarrow> SetupPayload \<Rightarrow> (unit result \<times> SetupPayload) option" where
  "parseTLVFieldsRun data out =
     (if length data \<ge> 2 ^ 32 then Some (Inl CHIP_ERROR_INVALID_ARGUMENT, out)
      else (case Next (Reader_Init data) of
              None \<Rightarrow> None
            | Some (Some e, _) \<Rightarrow> Some (Inl e, out)
            | Some (None, root) \<Rightarrow>
                if GetType root \<noteq> kTLVType_Structure then Some (Inl CHIP_ERROR_INVALID_ARGUMENT, out)
                else (case openTLVContainer root kTLVType_Structure AnonymousTag of
                        Inl e \<Rightarrow> Some (Inl e, out)
                      | Inr c \<Rightarrow>
                          (case Next c of
                             None \<Rightarrow> None
                           | Some (Some e, _) \<Rightarrow> Some (Inl e, out)
                           | Some (None, c) \<Rightarrow>
                               map_option (\<lambda>(res, out). (if res = Inl CHIP_END_OF_TLV then Inr () else res, out)) (retrieveOptionalInfos out c)))))"

text \<open>The run always returns, so that its result is that of the function; \<open>DIE\<close> never comes up.\<close>

definition parseTLVFields :: tlv_parser where
  "parseTLVFields data out = (case parseTLVFieldsRun data out of None \<Rightarrow> (Inl DIE, out) | Some res \<Rightarrow> res)"

section \<open>The parser returns\<close>

lemma retrieveOptionalInfos_returns:
  assumes "contig r"
  shows "\<exists>res. retrieveOptionalInfos out r = Some res"
  using assms
proof (induction "length (rBuf r)" arbitrary: r out rule: less_induct)
  case less
  obtain err r1 where n: "Next r = Some (err, r1)" "reads r r1" "err = None \<longrightarrow> length (rBuf r1) < length (rBuf r)"
    using Next_reads [OF less.prems] by blast
  then have "err = None \<Longrightarrow> \<exists>res. retrieveOptionalInfos out' r1 = Some res" for out' using less.hyps reads_contig by blast
  with n show ?case
    by (subst retrieveOptionalInfos.simps) (cases err; auto split: prod.splits sum.splits)
qed

lemma parseTLVFields_returns: "parseTLVFieldsRun data out = Some (parseTLVFields data out)"
proof -
  obtain err root where 1: "Next (Reader_Init data) = Some (err, root)" "reads (Reader_Init data) root" using Next_returns [OF contig_Init] by blast
  have c: "contig c" if "openTLVContainer root ty t = Inr c" for c ty t
    using that reads_contig [OF 1(2)]
    by (auto simp: openTLVContainer_def verify_def Reader_OpenContainer_def contig_def ClearElementState_def split: if_splits)
  have "\<exists>res. parseTLVFieldsRun data out = Some res"
  proof (cases "openTLVContainer root kTLVType_Structure AnonymousTag")
    case (Inl e)
    then show ?thesis using 1 by (auto simp: parseTLVFieldsRun_def split: option.splits)
  next
    case (Inr c)
    obtain e2 c2 where 2: "Next c = Some (e2, c2)" "reads c c2" using Next_returns [OF c [OF Inr]] by blast
    obtain res where "retrieveOptionalInfos out c2 = Some res" using retrieveOptionalInfos_returns [OF reads_contig [OF 2(2)]] by blast
    then show ?thesis using 1 2 Inr by (auto simp: parseTLVFieldsRun_def split: option.splits)
  qed
  then show ?thesis by (auto simp: parseTLVFields_def)
qed

section \<open>Entries as elements\<close>

text \<open>
  The entries that have a TLV form: strings, and numbers of the type that the parser expects for the tag; the fields that do not belong to
  the type are as the constructor leaves them.  A string is written as a C string, up to its first zero, and read up to its first separator 0x1F.
\<close>

definition sentText :: "string \<Rightarrow> string" where
  "sentText s = takeWhile (\<lambda>c. c \<noteq> CHR 0x00) s"

definition receivedText :: "string \<Rightarrow> string" where
  "receivedText s = takeWhile (\<lambda>c. c \<noteq> CHR 0x1F) (sentText s)"

lemma receivedText_plain: "CHR 0x00 \<notin> set s \<Longrightarrow> CHR 0x1F \<notin> set s \<Longrightarrow> receivedText s = s"
  by (induction s) (auto simp: receivedText_def sentText_def)

definition receivedInfo :: "'a OptionalQRCodeInfo_scheme \<Rightarrow> 'a OptionalQRCodeInfo_scheme" where
  "receivedInfo i = i\<lparr>infoData := receivedText (infoData i)\<rparr>"

definition receivedPayload :: "SetupPayload \<Rightarrow> SetupPayload" where
  "receivedPayload sp = sp\<lparr>optionalVendorData := map receivedInfo (optionalVendorData sp),
     optionalExtensionData := map receivedInfo (optionalExtensionData sp)\<rparr>"

definition plainTexts :: "SetupPayload \<Rightarrow> bool" where
  "plainTexts sp \<longleftrightarrow> (\<forall>i \<in> set (optionalVendorData sp). CHR 0x00 \<notin> set (infoData i) \<and> CHR 0x1F \<notin> set (infoData i)) \<and>
     (\<forall>i \<in> set (optionalExtensionData sp). CHR 0x00 \<notin> set (infoData i) \<and> CHR 0x1F \<notin> set (infoData i))"

lemma receivedInfo_tag [simp]: "tag (receivedInfo i) = tag i"
  by (simp add: receivedInfo_def)

lemma receivedPayload_plain: "plainTexts sp \<Longrightarrow> receivedPayload sp = sp"
proof -
  assume p: "plainTexts sp"
  have "map receivedInfo (optionalVendorData sp) = optionalVendorData sp" "map receivedInfo (optionalExtensionData sp) = optionalExtensionData sp"
    using p by (auto simp: plainTexts_def receivedInfo_def receivedText_plain intro!: map_idI)
  then show ?thesis by (simp add: receivedPayload_def)
qed

definition vendorEntry :: "OptionalQRCodeInfo \<Rightarrow> bool" where
  "vendorEntry i \<longleftrightarrow> infoType i = InfoString \<and> int32 i = 0 \<or>
     infoType i = InfoInt32 \<and> infoData i = [] \<and> - (2 ^ 31) \<le> int32 i \<and> int32 i < 2 ^ 31"

definition extensionEntry :: "OptionalQRCodeInfoExtension \<Rightarrow> bool" where
  "extensionEntry i \<longleftrightarrow> int32 i = 0 \<and> int64 i = 0 \<and> uint64 i = 0 \<and>
     (infoType i = InfoString \<and> uint32 i = 0 \<or>
      infoType i = InfoUInt32 \<and> tag i = kSerialNumberTag \<and> infoData i = [] \<and> unat (uint32 i) < 2 ^ 32)"

type_synonym entry = "OptionalQRCodeInfo + OptionalQRCodeInfoExtension"

fun entryOk :: "entry \<Rightarrow> bool" where
  "entryOk (Inl i) \<longleftrightarrow> IsVendorTag (tag i) \<and> vendorEntry i \<and> length (infoData i) < 2 ^ 32"
| "entryOk (Inr i) \<longleftrightarrow> IsCommonTag (tag i) \<and> extensionEntry i \<and> length (infoData i) < 2 ^ 32"

fun entryElement :: "entry \<Rightarrow> element" where
  "entryElement (Inl i) = Leaf (ContextTag (tag i))
     (if infoType i = InfoString then VString (map byteOf (sentText (infoData i))) else VInt (scast (word_of_int (int32 i) :: u32)))"
| "entryElement (Inr i) = Leaf (ContextTag (tag i))
     (if infoType i = InfoString then VString (map byteOf (sentText (infoData i))) else VUInt (uint32 i))"

fun receivedEntry :: "entry \<Rightarrow> entry" where
  "receivedEntry (Inl i) = Inl (receivedInfo i)"
| "receivedEntry (Inr i) = Inr (receivedInfo i)"

fun addEntry :: "entry \<Rightarrow> SetupPayload \<Rightarrow> SetupPayload" where
  "addEntry (Inl i) out = snd (addOptionalVendorData i out)"
| "addEntry (Inr i) out = snd (addOptionalExtensionData i out)"

fun entryEstimate :: "entry \<Rightarrow> nat" where
  "entryEstimate (Inl i) = dataItemSizeEstimate i"
| "entryEstimate (Inr i) = dataItemSizeEstimate i"

definition entriesOf :: "SetupPayload \<Rightarrow> entry list" where
  "entriesOf sp = map Inl (optionalVendorData sp) @ map Inr (optionalExtensionData sp)"

lemma entries_received: "entriesOf (receivedPayload sp) = map receivedEntry (entriesOf sp)"
  by (simp add: entriesOf_def receivedPayload_def)

lemma byteOf_cuts: "byteOf c = 0 \<longleftrightarrow> c = CHR 0x00" "byteOf c = kUnicodeInformationSeparator1 \<longleftrightarrow> c = CHR 0x1F"
proof -
  have "byteOf (CHR 0x00) = 0" "byteOf (CHR 0x1F) = 0x1F" by code_simp+
  then show "byteOf c = 0 \<longleftrightarrow> c = CHR 0x00" "byteOf c = kUnicodeInformationSeparator1 \<longleftrightarrow> c = CHR 0x1F"
    unfolding kUnicodeInformationSeparator1_def by (metis byteOf_eq)+
qed

lemma sentText_bytes: "takeWhile (\<lambda>b. b \<noteq> 0) (map byteOf s @ [0]) = map byteOf (sentText s)"
  by (induction s) (simp_all add: sentText_def byteOf_cuts)

lemma receivedText_bytes: "map charOf (takeWhile (\<lambda>b. b \<noteq> kUnicodeInformationSeparator1) (map byteOf (sentText s))) = receivedText s"
  by (simp add: receivedText_def takeWhile_map comp_def byteOf_cuts)

lemma sentText_length: "length (sentText s) \<le> length s"
  by (simp add: sentText_def length_takeWhile_le)

lemma entry_good: "entryOk x \<Longrightarrow> good kTLVType_Structure (entryElement x)"
  using sentText_length le_less_trans by (cases x) (fastforce simp: goodTag_ContextTag vendorEntry_def extensionEntry_def)+

lemma PutString_sent: "PutString_c t (map byteOf s @ [0]) w = PutString_span t (map byteOf (sentText s)) w"
  by (simp add: PutString_c_def PutString_span_def sentText_bytes Let_def)

lemma writeTag_put:
  "entryOk (Inl i) \<Longrightarrow> writeTag (ContextTag (tag i)) i w = putElement (entryElement (Inl i)) w"
  "entryOk (Inr j) \<Longrightarrow> writeTagExtension (ContextTag (tag j)) j w = putElement (entryElement (Inr j)) w"
  by (auto simp: writeTag_def writeTagExtension_def vendorEntry_def extensionEntry_def PutString_sent Put_int32_def)

lemma putElements_append: "putElements (xs @ ys) w = rThen (putElements xs w) (putElements ys)"
  by (induction xs arbitrary: w) (auto simp: rThen_def split: option.splits)

lemma writeVendorTags_put: "list_all (\<lambda>i. entryOk (Inl i)) xs \<Longrightarrow> writeVendorTags xs w = putElements (map (entryElement \<circ> Inl) xs) w"
  by (induction xs arbitrary: w) (auto simp: rThen_def writeTag_put(1) split: option.splits simp del: entryOk.simps entryElement.simps)

lemma writeExtensionTags_put: "list_all (\<lambda>i. entryOk (Inr i)) xs \<Longrightarrow> writeExtensionTags xs w = putElements (map (entryElement \<circ> Inr) xs) w"
  by (induction xs arbitrary: w) (auto simp: rThen_def writeTag_put(2) split: option.splits simp del: entryOk.simps entryElement.simps)

lemma context_head_length: "length (headOf implicit kTLVType_Structure e (ContextTag t) v) = 2 + fieldBytes e"
  by (simp add: headOf_def headBytes_def tagHead_def Let_def verify_def valueField_def fieldBytes_def)

lemma entry_length:
  assumes "entryOk x"
  shows "length (enc implicit kTLVType_Structure (entryElement x)) \<le> entryEstimate x"
proof -
  have b: "fieldBytes (sintType n) \<le> 8" "fieldBytes (uintType n) \<le> 8" "fieldBytes (kTLVType_UTF8String + lenFieldSize l) \<le> 8" for n l
    by (simp_all add: sintType_def uintType_def field_simps_types fieldBytes_len)
  show ?thesis using b assms sentText_length
    by (cases x) (auto simp: context_head_length dataItemSizeEstimate_def vendorEntry_def extensionEntry_def intro!: add_mono)
qed

section \<open>Generating\<close>

definition optionalTree :: "SetupPayload \<Rightarrow> element" where
  "optionalTree sp = Node AnonymousTag kTLVType_Structure (map entryElement (entriesOf sp))"

lemma tree_good: "list_all entryOk (entriesOf sp) \<Longrightarrow> good kTLVType_NotSpecified (optionalTree sp)"
  using entry_good by (auto simp: optionalTree_def goodTag_AnonymousTag TLVTypeIsContainer_def type_defs list_all_iff)

lemma tree_head_length: "length (headOf kProfileIdNotSpecified kTLVType_NotSpecified kTLVType_Structure AnonymousTag 0) = 1"
  by code_simp

lemma entries_length:
  "list_all entryOk xs \<Longrightarrow> length (encs implicit kTLVType_Structure (map entryElement xs)) \<le> sum_list (map entryEstimate xs)"
  by (induction xs) (auto simp: add_mono entry_length)

lemma estimate_entries: "tlvEstimate sp = sum_list (map entryEstimate (entriesOf sp)) + 6"
  by (simp add: tlvEstimate_def EstimateStructOverhead_def entriesOf_def comp_def)

lemma tree_length:
  assumes "list_all entryOk (entriesOf sp)"
  shows "length (encoding [optionalTree sp]) \<le> tlvEstimate sp"
  using entries_length [OF assms, of kProfileIdNotSpecified] by (simp add: optionalTree_def tree_head_length estimate_entries)

lemma generateTLV_encoding:
  assumes "list_all entryOk (entriesOf sp)" "entriesOf sp \<noteq> []" "length (encoding [optionalTree sp]) \<le> n" "n < 2 ^ 32"
  shows "generateTLVFromOptionalData inner sp n = Some (Inr (encoding [optionalTree sp]))"
proof -
  note i = exact_Init [OF assms(4)]
  let ?w = "Writer_Init n"
  define h where "h = headOf kProfileIdNotSpecified kTLVType_NotSpecified kTLVType_Structure AnonymousTag 0"
  define ks where "ks = encs kProfileIdNotSpecified kTLVType_Structure (map entryElement (entriesOf sp))"
  have l: "length h = 1" "encoding [optionalTree sp] = h @ ks @ [0x18]" "length h + length ks + 1 \<le> n"
    using assms(3) tree_head_length by (simp_all add: h_def ks_def optionalTree_def)
  obtain c w where o: "Writer_OpenContainer AnonymousTag kTLVType_Structure inner ?w = Some (None, c, w)"
      "w = (store h ?w)\<lparr>wMaxLen := wMaxLen ?w - 1, wContainerOpen := True\<rparr>" "exact 1 n 1 c" "wBuf c = h"
      "wContainerType c = kTLVType_Structure" "wImplicitProfileId c = kProfileIdNotSpecified"
    using OpenContainer_exact [OF i(1), of AnonymousTag kTLVType_Structure h inner] i l
    by (auto simp: goodTag_AnonymousTag TLVTypeIsContainer_def type_defs h_def)
  have g: "list_all (good (wContainerType c)) (map entryElement (entriesOf sp))" using assms(1) entry_good o(5) by (auto simp: list_all_iff)
  have put: "putElements (map entryElement (entriesOf sp)) c = Some (None, store ks c)"
    using put_exact(2) [OF o(3) g] o l by (simp add: ks_def)
  have "exact 1 n 1 (store ks c)" by (rule exact_store [OF o(3)]) (use o l in simp)
  moreover have "exact 0 n 0 (w\<lparr>wMaxLen := wMaxLen w + 1, wContainerOpen := False\<rparr>)"
  proof -
    have "w\<lparr>wMaxLen := wMaxLen w + 1, wContainerOpen := False\<rparr> = store h ?w" using o(2) by (simp add: store_def Writer_Init_def Let_def)
    then show ?thesis using exact_store [OF i(1), of h] i(2) l by simp
  qed
  ultimately obtain c' w' where cl: "Writer_CloseContainer (store ks c) w = Some (None, c', w')" "wBuf w' = h @ ks @ [0x18]" "exact 0 n 0 w'"
    using CloseContainer_exact [of 0 n 0 w "store ks c"] o i l by (auto simp: TLVTypeIsContainer_def type_defs)
  have v: "list_all (\<lambda>i. entryOk (Inl i)) (optionalVendorData sp)" "list_all (\<lambda>i. entryOk (Inr i)) (optionalExtensionData sp)"
    using assms(1) by (auto simp: entriesOf_def list_all_iff simp del: entryOk.simps)
  have "rThen (writeVendorTags (optionalVendorData sp) c) (writeExtensionTags (optionalExtensionData sp)) = Some (None, store ks c)"
    using put writeVendorTags_put [OF v(1)] ext [of "writeExtensionTags _", OF writeExtensionTags_put [OF v(2)]] by (simp add: entriesOf_def putElements_append)
  moreover have "Writer_Finalize w' = (None, w')" "take (unat (mLenWritten w')) (wBuf w') = wBuf w'"
    using cl(3) by (simp_all add: Writer_Finalize_def exact_def)
  moreover have "\<not> (optionalVendorData sp = [] \<and> optionalExtensionData sp = [])" using assms(2) by (auto simp: entriesOf_def)
  ultimately show ?thesis using o(1) cl l(2) unfolding generateTLVFromOptionalData_def by simp
qed

section \<open>Parsing\<close>

lemma ContextTag_number: "ucast (TagNumFromTag (ContextTag t)) = t"
  by (rule bit_word_eqI) (auto simp: TagNumFromTag_def ContextTag_def ProfileTag_def bit_simps)

lemma scast_int32:
  assumes "- (2 ^ 31) \<le> n" "n < 2 ^ 31"
  shows "sint (scast (word_of_int n :: u32) :: u64) = n"
proof -
  have s: "signed_take_bit 31 n = n" "signed_take_bit 63 n = n" using assms by (simp_all add: signed_take_bit_int_eq_self)
  then have "sint (word_of_int n :: u32) = n" by (simp add: sint_sbintrunc')
  then have "(scast (word_of_int n :: u32) :: u64) = word_of_int n" by (simp add: scast_eq)
  then show ?thesis using s(2) by (simp add: sint_sbintrunc')
qed

text \<open>What the getters return on an element just found.\<close>

lemma getters_here:
  assumes "idle r" "rContainerType r = ct" "good ct (Leaf t v)" "rBuf r = enc (rImplicitProfileId r) ct (Leaf t v) @ tail"
  shows "v = VString bs \<Longrightarrow> GetType (here ct (Leaf t v) r) = kTLVType_UTF8String \<and> 
      Get_CharSpan (here ct (Leaf t v) r) [] = (None, takeWhile (\<lambda>b. b \<noteq> kUnicodeInformationSeparator1) bs)"
    "v = VInt x \<Longrightarrow> GetType (here ct (Leaf t v) r) = 0 \<and> Get_int64 (here ct (Leaf t v) r) 0 = (None, sint x)"
    "v = VUInt y \<Longrightarrow> GetType (here ct (Leaf t v) r) = 4 \<and> Get_uint64 (here ct (Leaf t v) r) 0 = (None, y)"
proof -
  let ?h = "here ct (Leaf t v) r"
  note h = here_type(1,3) [OF assms]
  have val: "getValue ?h = (None, cutValue v)" using h(2) [OF refl] .
  have et: "ElementType ?h = vType v" using h(1) by simp
  show "GetType ?h = kTLVType_UTF8String \<and> Get_CharSpan ?h [] = (None, takeWhile (\<lambda>b. b \<noteq> kUnicodeInformationSeparator1) bs)" if "v = VString bs"
    using val et GetType_values(3) [of ?h "length bs"] that by (auto simp: getValue_def Let_def type_defs split: prod.splits)
  show "GetType ?h = 0 \<and> Get_int64 ?h 0 = (None, sint x)" if "v = VInt x"
    using et GetType_values(1) [of ?h x] Get_int64_read [of ?h x] that by simp
  show "GetType ?h = 4 \<and> Get_uint64 ?h 0 = (None, y)" if "v = VUInt y"
    using val et GetType_values(2) [of ?h y] that by (auto simp: getValue_def Let_def split: prod.splits)
qed

lemma storeInfo_entry:
  assumes "idle r" "rContainerType r = kTLVType_Structure" "entryOk x" "rBuf r = enc (rImplicitProfileId r) kTLVType_Structure (entryElement x) @ tail"
  shows "infoTypeOf (GetType (here kTLVType_Structure (entryElement x) r)) \<and>
     storeInfo (here kTLVType_Structure (entryElement x) r) out = (Inr (), addEntry (receivedEntry x) out)"
proof (cases x)
  case (Inl i)
  note g = getters_here [OF assms(1,2) entry_good [OF assms(3), unfolded Inl entryElement.simps] assms(4) [unfolded Inl entryElement.simps]]
  have t: "\<not> IsCommonTag (tag i)" "IsVendorTag (tag i)" "vendorEntry i" using assms(3) Inl by (simp_all add: IsVendorTag_def)
  consider "infoType i = InfoString" "int32 i = 0" | "infoType i = InfoInt32" "infoData i = []" "- (2 ^ 31) \<le> int32 i" "int32 i < 2 ^ 31"
    using t(3) by (auto simp: vendorEntry_def)
  then show ?thesis
  proof cases
    case 1
    then have "(newInfo (tag i))\<lparr>infoType := InfoString, infoData := receivedText (infoData i)\<rparr> = receivedInfo i"
      by (cases i) (simp add: newInfo_def receivedInfo_def)
    then show ?thesis using receivedText_bytes g(1) [of "map byteOf (sentText (infoData i))"] 1 t Inl
      by (simp add: storeInfo_def Let_def ContextTag_number infoTypeOf_def retrieveOptionalInfo_def retrieveOptionalInfoString_def
          addOptionalVendorData_def)
  next
    case 2
    then have "(newInfo (tag i))\<lparr>infoType := InfoInt32, int32 := int32 i\<rparr> = receivedInfo i"
      by (cases i) (simp add: newInfo_def receivedInfo_def receivedText_plain)
    then show ?thesis using 2 g(2) [of "scast (word_of_int (int32 i) :: u32)"] t Inl scast_int32 [OF 2(3,4)]
      by (simp add: storeInfo_def Let_def ContextTag_number infoTypeOf_def retrieveOptionalInfo_def retrieveOptionalInfoInt32_def
          addOptionalVendorData_def getNumericTypeFor_def Get_int32_def getSigned_def type_defs)
  qed
next
  case (Inr i)
  note g = getters_here [OF assms(1,2) entry_good [OF assms(3), unfolded Inr entryElement.simps] assms(4) [unfolded Inr entryElement.simps]]
  have t: "IsCommonTag (tag i)" "extensionEntry i" using assms(3) Inr by simp_all
  consider "infoType i = InfoString" "uint32 i = 0" | "infoType i = InfoUInt32" "tag i = kSerialNumberTag" "infoData i = []" "unat (uint32 i) < 2 ^ 32"
    using t(2) by (auto simp: extensionEntry_def)
  then show ?thesis
  proof cases
    case 1
    then have "(newInfoExtension (tag i))\<lparr>infoType := InfoString, infoData := receivedText (infoData i)\<rparr> = receivedInfo i"
      using t(2) by (cases i) (simp add: extensionEntry_def newInfoExtension_def receivedInfo_def)
    then show ?thesis using receivedText_bytes g(1) [of "map byteOf (sentText (infoData i))"] 1 t(1) Inr
      by (simp add: storeInfo_def Let_def ContextTag_number infoTypeOf_def retrieveOptionalInfoExtension_def retrieveOptionalInfo_def
          retrieveOptionalInfoString_def addOptionalExtensionData_def)
  next
    case 2
    then have "(newInfoExtension (tag i))\<lparr>infoType := InfoUInt32, uint32 := uint32 i\<rparr> = receivedInfo i"
      using t(2) by (cases i) (simp add: extensionEntry_def newInfoExtension_def receivedInfo_def receivedText_plain)
    then show ?thesis using 2 g(3) [of "uint32 i"] t(1) Inr
      by (simp add: storeInfo_def Let_def ContextTag_number infoTypeOf_def retrieveOptionalInfoExtension_def retrieveOptionalInfoUInt32_def
          addOptionalExtensionData_def getNumericTypeFor_def IsVendorTag_def Get_uint32_def getUnsigned_def type_defs)
  qed
qed

lemma retrieve_entries:
  assumes "idle r" "rContainerType r = kTLVType_Structure" "list_all entryOk (x # xs)"
    "rBuf r = encs (rImplicitProfileId r) kTLVType_Structure (map entryElement (x # xs)) @ 0x18 # tail"
  shows "retrieveOptionalInfos out (here kTLVType_Structure (entryElement x) r) = Some (Inr (), fold addEntry (map receivedEntry (x # xs)) out)"
  using assms
proof (induction xs arbitrary: x r out)
  case Nil
  let ?x = "entryElement x" and ?i = "rImplicitProfileId r"
  have x: "entryOk x" "good kTLVType_Structure ?x" "rBuf r = enc ?i kTLVType_Structure ?x @ 0x18 # tail" using Nil.prems entry_good by simp_all
  have e: "rContainerType (advance k r) \<noteq> kTLVType_NotSpecified" for k using Nil.prems(2) by (simp add: type_defs)
  have "Next (here kTLVType_Structure ?x r) = Some (Some CHIP_END_OF_TLV, headRead [0x18] AnonymousTag 0 (advance (length (enc ?i kTLVType_Structure ?x)) r))"
    using Next_next [OF Nil.prems(1,2) x(2,3)] Next_end [OF idle_after(1) [OF Nil.prems(1) x(3)] e idle_after(2) [OF Nil.prems(1) x(3)]] by simp
  then show ?case using storeInfo_entry [OF Nil.prems(1,2) x(1,3), of out] by (subst retrieveOptionalInfos.simps) simp
next
  case (Cons y ys)
  let ?x = "entryElement x" and ?i = "rImplicitProfileId r"
  let ?r = "advance (length (enc ?i kTLVType_Structure ?x)) r" and ?t = "encs ?i kTLVType_Structure (map entryElement (y # ys)) @ 0x18 # tail"
  have x: "entryOk x" "good kTLVType_Structure ?x" "rBuf r = enc ?i kTLVType_Structure ?x @ ?t" using Cons.prems entry_good by simp_all
  have r: "idle ?r" "rContainerType ?r = kTLVType_Structure" "rImplicitProfileId ?r = ?i" "rBuf ?r = ?t"
    using idle_after [OF Cons.prems(1) x(3)] Cons.prems(2) by simp_all
  have y: "good kTLVType_Structure (entryElement y)" using Cons.prems(3) entry_good by simp
  have "Next (here kTLVType_Structure ?x r) = Some (None, here kTLVType_Structure (entryElement y) ?r)"
    using Next_next [OF Cons.prems(1,2) x(2,3)] Next_here [OF r(1,2) y, of "encs ?i kTLVType_Structure (map entryElement ys) @ 0x18 # tail"] r(3,4) by simp
  moreover have "retrieveOptionalInfos (addEntry (receivedEntry x) out) (here kTLVType_Structure (entryElement y) ?r) =
      Some (Inr (), fold addEntry (map receivedEntry (y # ys)) (addEntry (receivedEntry x) out))"
    by (rule Cons.IH) (use r Cons.prems(3) in simp_all)
  ultimately show ?case using storeInfo_entry [OF Cons.prems(1,2) x(1,3), of out] by (subst retrieveOptionalInfos.simps) simp
qed

lemma parse_encoding:
  assumes "list_all entryOk (entriesOf sp)" "entriesOf sp \<noteq> []" "length (encoding [optionalTree sp]) < 2 ^ 32"
  shows "parseTLVFields (encoding [optionalTree sp]) out = (Inr (), fold addEntry (map receivedEntry (entriesOf sp)) out)"
proof -
  let ?x = "Node AnonymousTag kTLVType_Structure (map entryElement (entriesOf sp))"
  let ?r = "Reader_Init (encoding [?x])"
  note i = idle_Init [OF assms(3) [unfolded optionalTree_def]] and g = tree_good [OF assms(1), unfolded optionalTree_def]
  obtain x xs where xs: "entriesOf sp = x # xs" using assms(2) by (cases "entriesOf sp") auto
  have buf: "rBuf ?r = enc (rImplicitProfileId ?r) kTLVType_NotSpecified ?x @ []" using i(2,4) by simp
  define h where "h = here kTLVType_NotSpecified ?x ?r"
  define c where "c = (advance (length (xHead (rImplicitProfileId ?r) kTLVType_NotSpecified ?x)) ?r)\<lparr>rContainerType := kTLVType_Structure\<rparr>"
  have n: "Next ?r = Some (None, h)" using Next_here [OF i(1,3) g buf] by (simp add: h_def)
  have et: "ElementType h = kTLVType_Structure" "GetType h = kTLVType_Structure" "mElemTag h = AnonymousTag"
    using here_type(1,4) [OF i(1,3) g buf] by (simp_all add: h_def)
  note ent = Enter_here [OF i(1,3) g buf, folded c_def]
  have "Reader_OpenContainer h = (None, Some c, h\<lparr>rContainerOpen := True\<rparr>)"
    using here_cleared [OF i(1), where ct = kTLVType_NotSpecified and x = ?x and e = kTLVType_Structure] et(1)
    by (simp add: Reader_OpenContainer_def TLVTypeIsContainer_def type_defs h_def c_def Clear_container)
  then have op: "openTLVContainer h kTLVType_Structure AnonymousTag = Inr c"
    using et ent(4) by (simp add: openTLVContainer_def verify_def GetLength_def TLVTypeHasLength_def type_defs)
  have c: "rBuf c = encs (rImplicitProfileId c) kTLVType_Structure (map entryElement (x # xs)) @ 0x18 # []" using ent(3,5) xs by simp
  have "Next c = Some (None, here kTLVType_Structure (entryElement x) c)"
    using Next_here [OF ent(2,4), of "entryElement x"] c entry_good assms(1) xs by simp
  moreover have "retrieveOptionalInfos out (here kTLVType_Structure (entryElement x) c) = Some (Inr (), fold addEntry (map receivedEntry (x # xs)) out)"
    by (rule retrieve_entries [OF ent(2,4) _ c]) (use assms(1) xs in simp)
  ultimately show ?thesis using n et(2) op assms(3) xs unfolding optionalTree_def by (simp add: parseTLVFields_def parseTLVFieldsRun_def del: enc.simps)
qed

text \<open>The entries, added in the order of their tags, fill empty maps.\<close>

lemma mapInsert_last: "list_all (\<lambda>y. f y < f x) xs \<Longrightarrow> mapInsert f x xs = xs @ [x]"
  by (induction xs) auto

lemma sortedTags_append: "sortedTags f (xs @ x # ys) \<Longrightarrow> list_all (\<lambda>y. f y < f x) xs"
  by (induction xs) auto

lemma add_vendor_entries:
  assumes "sortedTags tag (vs @ xs)" "list_all (\<lambda>i. IsVendorTag (tag i)) xs" "optionalVendorData out = vs"
  shows "fold addEntry (map Inl xs) out = out\<lparr>optionalVendorData := vs @ xs\<rparr>"
  using assms
proof (induction xs arbitrary: vs out)
  case (Cons x xs)
  have "addEntry (Inl x) out = out\<lparr>optionalVendorData := vs @ [x]\<rparr>"
    using Cons.prems mapInsert_last [OF sortedTags_append [OF Cons.prems(1)]] by (simp add: addOptionalVendorData_def)
  then show ?case using Cons.IH [of "vs @ [x]" "out\<lparr>optionalVendorData := vs @ [x]\<rparr>"] Cons.prems by simp
qed simp

lemma add_extension_entries:
  assumes "sortedTags tag (vs @ xs)" "list_all (\<lambda>i. IsCommonTag (tag i)) xs" "optionalExtensionData out = vs"
  shows "fold addEntry (map Inr xs) out = out\<lparr>optionalExtensionData := vs @ xs\<rparr>"
  using assms
proof (induction xs arbitrary: vs out)
  case (Cons x xs)
  have "addEntry (Inr x) out = out\<lparr>optionalExtensionData := vs @ [x]\<rparr>"
    using Cons.prems mapInsert_last [OF sortedTags_append [OF Cons.prems(1)]] by (simp add: addOptionalExtensionData_def)
  then show ?case using Cons.IH [of "vs @ [x]" "out\<lparr>optionalExtensionData := vs @ [x]\<rparr>"] Cons.prems by simp
qed simp

lemma add_all_entries:
  assumes "payload_ok sp" "optionalVendorData out = []" "optionalExtensionData out = []" "contents out = contents sp"
  shows "fold addEntry (entriesOf sp) out = sp"
proof -
  have "fold addEntry (entriesOf sp) out = out\<lparr>optionalVendorData := optionalVendorData sp, optionalExtensionData := optionalExtensionData sp\<rparr>"
    using add_vendor_entries [of "[]" "optionalVendorData sp" out]
      add_extension_entries [of "[]" "optionalExtensionData sp" "out\<lparr>optionalVendorData := optionalVendorData sp\<rparr>"] assms
    by (simp add: entriesOf_def payload_ok_def)
  then show ?thesis using assms(4) by (cases out; cases sp) simp
qed

lemma sortedTags_map: "(\<And>x. g (h x) = f x) \<Longrightarrow> sortedTags g (map h xs) = sortedTags f xs"
  by (induction xs) (auto simp: list_all_iff)

lemma payload_ok_received: "payload_ok sp \<Longrightarrow> payload_ok (receivedPayload sp)"
  by (simp add: payload_ok_def receivedPayload_def list_all_iff sortedTags_map [where g = tag and h = receivedInfo and f = tag])

lemma estimate_entry: "x \<in> set xs \<Longrightarrow> entryEstimate x \<le> sum_list (map entryEstimate xs)"
  by (induction xs) auto

lemma entry_data:
  "vendorEntry i \<Longrightarrow> length (infoData i) \<le> dataItemSizeEstimate i" "extensionEntry j \<Longrightarrow> length (infoData j) \<le> dataItemSizeEstimate j"
  by (auto simp: vendorEntry_def extensionEntry_def dataItemSizeEstimate_def)

lemma entries_ok:
  assumes "payload_ok sp" "list_all vendorEntry (optionalVendorData sp)" "list_all extensionEntry (optionalExtensionData sp)" "tlvEstimate sp < 2 ^ 32"
  shows "list_all entryOk (entriesOf sp)"
proof -
  have "entryOk x" if x: "x \<in> set (entriesOf sp)" for x
  proof -
    have "entryEstimate x < 2 ^ 32" using estimate_entry [OF x] assms(4) estimate_entries [of sp] by simp
    then show ?thesis using x assms(1-3) entry_data by (fastforce simp: entriesOf_def list_all_iff payload_ok_def)
  qed
  then show ?thesis by (simp add: list_all_iff)
qed

section \<open>Property\<close>

text \<open>
  C30. Round trip of the QR code with its optional data.  A valid payload with a long discriminator, with vendor entries that are texts or 32-bit numbers
  and common entries that are texts or a serial number, is turned into a text: the estimated buffer is large enough for every such payload.
  The parser given that text, when it can allocate as many bytes as the generator estimated, restores the payload with all its entries, where each text
  has been cut at its first zero, which ends a C string, and at its first separator 0x1F, at which the TLV reader cuts a text.
  When no text has these characters the payload is restored as it was.  \<open>inner\<close> is the writer that the generator leaves uninitialised.
\<close>

theorem qr_optional_data_roundtrip:
  assumes "isValidQRCodePayload (contents sp)" "discriminator_ok (discriminator (contents sp))" "\<not> mIsShortDiscriminator (discriminator (contents sp))"
    and "payload_ok sp" "list_all vendorEntry (optionalVendorData sp)" "list_all extensionEntry (optionalExtensionData sp)"
    and "tlvEstimate sp < 2 ^ 32" "alloc (tlvEstimate sp)" "\<forall>n \<le> tlvEstimate sp. allocParser n"
    and "optionalVendorData out = []" "optionalExtensionData out = []"
  shows "\<exists>text. payloadBase38RepresentationWithAutoTLVBuffer alloc inner False sp = Some (Inr text) \<and>
           QR_populatePayload allocParser parseTLVFields text out = (Inr (), receivedPayload sp) \<and>
           (plainTexts sp \<longrightarrow> receivedPayload sp = sp)"
proof -
  note ok = entries_ok [OF assms(4-7)]
  define tlv where "tlv = (if entriesOf sp = [] then [] else encoding [optionalTree sp])"
  have len: "length (encoding [optionalTree sp]) \<le> tlvEstimate sp" by (rule tree_length [OF ok])
  have gen: "generateTLVFromOptionalData inner sp (tlvEstimate sp) = Some (Inr tlv)"
    using generateTLV_encoding [OF ok _ len assms(7)] by (auto simp: tlv_def generateTLVFromOptionalData_def entriesOf_def)
  obtain qr where t: "payloadBase38Representation False (contents sp) (Inr tlv) = Inr qr"
      "QR_populatePayload allocParser parseTLVFields qr out =
        (if tlv = [] then (Inr (), out\<lparr>contents := contents sp\<rparr>)
         else if allocParser (length tlv) then parseTLVFields tlv (out\<lparr>contents := contents sp\<rparr>)
         else (Inl CHIP_ERROR_NO_MEMORY, out\<lparr>contents := contents sp\<rparr>))"
    using qr_text_carries_payload [OF assms(1-3)] by blast
  have "length (encoding [optionalTree sp]) < 2 ^ 32" using len assms(7) by simp
  note parse = parse_encoding [OF ok _ this, of "out\<lparr>contents := contents sp\<rparr>"]
  have "payload_ok (receivedPayload sp)" by (rule payload_ok_received [OF assms(4)])
  then have all: "fold addEntry (map receivedEntry (entriesOf sp)) (out\<lparr>contents := contents sp\<rparr>) = receivedPayload sp"
    using add_all_entries [of "receivedPayload sp"] assms(10,11) by (simp add: entries_received [symmetric]) (simp add: receivedPayload_def)
  have ne: "encoding [optionalTree sp] \<noteq> []" by (simp add: optionalTree_def)
  have "QR_populatePayload allocParser parseTLVFields qr out = (Inr (), receivedPayload sp)"
  proof (cases "entriesOf sp = []")
    case True
    then show ?thesis using t(2) all by (simp add: tlv_def)
  next
    case False
    moreover have "allocParser (length (encoding [optionalTree sp]))" using len assms(9) by blast
    ultimately show ?thesis using t(2) parse all ne by (simp add: tlv_def del: enc.simps)
  qed
  then show ?thesis using gen t(1) assms(1,7,8) receivedPayload_plain [of sp]
    by (auto simp: payloadBase38RepresentationWithAutoTLVBuffer_def payloadBase38RepresentationWithBuffer_def)
qed

definition samplePayload :: SetupPayload where
  "samplePayload = \<lparr>contents = sampleQRPayload,
     optionalVendorData = [\<lparr>tag = 0x82, infoType = InfoString, infoData = ''relay'', int32 = 0\<rparr>, \<lparr>tag = 0x83, infoType = InfoInt32, infoData = [], int32 = - 300\<rparr>],
     optionalExtensionData = [\<lparr>tag = 0, infoType = InfoString, infoData = ''3RSM0147Z'', int32 = 0, int64 = 0, uint32 = 0, uint64 = 0\<rparr>]\<rparr>"

theorem qr_optional_data_roundtrip_witness:
  "\<exists>text. payloadBase38RepresentationWithAutoTLVBuffer (\<lambda>_. True) (Writer_Init 0) False samplePayload = Some (Inr text) \<and>
     QR_populatePayload (\<lambda>_. True) parseTLVFields text \<lparr>contents = newPayloadContents, optionalVendorData = [], optionalExtensionData = []\<rparr> = (Inr (), samplePayload)"
proof -
  have "isValidQRCodePayload (contents samplePayload)" "discriminator_ok (discriminator (contents samplePayload))"
    "\<not> mIsShortDiscriminator (discriminator (contents samplePayload))" "payload_ok samplePayload"
    "list_all vendorEntry (optionalVendorData samplePayload)" "list_all extensionEntry (optionalExtensionData samplePayload)" by code_simp+
  moreover have "tlvEstimate samplePayload < 2 ^ 32"
    by (simp add: samplePayload_def tlvEstimate_def dataItemSizeEstimate_def EstimateStructOverhead_def)
  moreover have "plainTexts samplePayload" by code_simp
  ultimately show ?thesis
    using qr_optional_data_roundtrip [of samplePayload "\<lambda>_. True" "\<lambda>_. True"
        "\<lparr>contents = newPayloadContents, optionalVendorData = [], optionalExtensionData = []\<rparr>" "Writer_Init 0"] by auto
qed

end
