(* ===== verification/Packet_Buffer.thy ===== *)
theory Packet_Buffer
  imports Prelude
begin

text \<open>
  Packet buffers, \<^verbatim>\<open>src/system/SystemPacketBuffer.cpp\<close>, in the build that takes them from the heap.  A
  buffer is its allocated memory with the offset of the payload, the lengths and the reference
  count; a handle is the chain of buffers it owns, \<open>[]\<close> the null handle.  Memory comes from an
  allocator that is an argument: \<open>alloc i n\<close> answers the \<open>i\<close>-th request with \<open>n\<close> bytes or fails.
  \<open>None\<close> as a result is a failed \<open>VerifyOrDie\<close> or the use of a null handle.  Lengths are natural numbers; where the code casts to
  16 bits the reduction is written out.
\<close>

section \<open>Buffers\<close>

record pbuf =
  mem :: bytes
  payload :: nat
  len :: nat
  tot_len :: nat
  ref :: nat

definition kMaxSizeWithoutReserve :: nat where "kMaxSizeWithoutReserve = 1583"
definition kDefaultHeaderReserve :: nat where "kDefaultHeaderReserve = 38"
definition kMaxSize :: nat where "kMaxSize = kMaxSizeWithoutReserve - kDefaultHeaderReserve"
definition kRightSizingThreshold :: nat where "kRightSizingThreshold = 16"

definition AllocSize :: "pbuf \<Rightarrow> nat" where
  "AllocSize b = length (mem b)"

definition ReservedSize :: "pbuf \<Rightarrow> nat" where
  "ReservedSize b = payload b"

definition MaxDataLength :: "pbuf \<Rightarrow> nat" where
  "MaxDataLength b = AllocSize b - ReservedSize b"

definition AvailableDataLength :: "pbuf \<Rightarrow> nat" where
  "AvailableDataLength b = MaxDataLength b - len b"

text \<open>The bytes of the payload, and a copy into memory.\<close>

definition bufData :: "pbuf \<Rightarrow> bytes" where
  "bufData b = take (len b) (drop (payload b) (mem b))"

definition memcpy :: "nat \<Rightarrow> bytes \<Rightarrow> bytes \<Rightarrow> bytes" where
  "memcpy off bs m = take off m @ bs @ drop (off + length bs) m"

definition writeBytes :: "nat \<Rightarrow> bytes \<Rightarrow> pbuf \<Rightarrow> pbuf" where
  "writeBytes off bs b = b\<lparr>mem := memcpy off bs (mem b)\<rparr>"

text \<open>The code computes with signed differences and casts the total length back to 16 bits.\<close>

definition cast16 :: "int \<Rightarrow> nat" where
  "cast16 x = nat (x mod 65536)"

definition SetStart :: "int \<Rightarrow> pbuf \<Rightarrow> pbuf" where
  "SetStart aNewStart b =
     (let new = (if aNewStart < 0 then 0 else if aNewStart > int (AllocSize b) then int (AllocSize b) else aNewStart);
          delta = min (new - int (payload b)) (int (len b))
      in b\<lparr>len := cast16 (int (len b) - delta), tot_len := cast16 (int (tot_len b) - delta), payload := nat new\<rparr>)"

definition SetDataLength :: "nat \<Rightarrow> pbuf \<Rightarrow> pbuf" where
  "SetDataLength aNewLen b =
     (let n = min aNewLen (MaxDataLength b)
      in b\<lparr>len := n, tot_len := cast16 (int (tot_len b) + (int n - int (len b)))\<rparr>)"

text \<open>The same for a buffer inside a chain: the totals of the \<open>k\<close> buffers before it change too.\<close>

definition SetDataLengthAt :: "nat \<Rightarrow> nat \<Rightarrow> pbuf list \<Rightarrow> pbuf list" where
  "SetDataLengthAt k aNewLen c =
     (if k < length c
      then (let n = min aNewLen (MaxDataLength (c ! k)); delta = int n - int (len (c ! k))
            in map (\<lambda>b. b\<lparr>tot_len := cast16 (int (tot_len b) + delta)\<rparr>) (take k c) @
               SetDataLength aNewLen (c ! k) # drop (Suc k) c)
      else c)"

definition ConsumeHead :: "nat \<Rightarrow> pbuf \<Rightarrow> pbuf" where
  "ConsumeHead n b =
     (let k = min n (len b) in b\<lparr>payload := payload b + k, len := len b - k, tot_len := cast16 (int (tot_len b) - int k)\<rparr>)"

definition EnsureReservedSize :: "nat \<Rightarrow> pbuf \<Rightarrow> bool \<times> pbuf" where
  "EnsureReservedSize r b =
     (if r \<le> ReservedSize b then (True, b)
      else if r + len b > AllocSize b then (False, b)
      else (True, (writeBytes r (bufData b) b)\<lparr>payload := r\<rparr>))"

text \<open>\<open>base\<close> is the address of the memory.\<close>

definition AlignPayload :: "nat \<Rightarrow> nat \<Rightarrow> pbuf \<Rightarrow> bool \<times> pbuf" where
  "AlignPayload base aAlignBytes b =
     (if aAlignBytes = 0 then (False, b)
      else (let off = (base + payload b) mod aAlignBytes
            in if off = 0 then (True, b)
               else if ReservedSize b + (aAlignBytes - off) \<ge> 65536 then (False, b)
               else EnsureReservedSize (ReservedSize b + (aAlignBytes - off)) b))"

section \<open>Chains\<close>

definition AddToEnd :: "pbuf list \<Rightarrow> pbuf list \<Rightarrow> pbuf list option" where
  "AddToEnd c p =
     (case p of
        [] \<Rightarrow> None
      | q # _ \<Rightarrow>
          if list_all (\<lambda>b. tot_len b + tot_len q < 65536) c
          then Some (map (\<lambda>b. b\<lparr>tot_len := tot_len b + tot_len q\<rparr>) c @ p) else None)"

definition moveFrom :: "pbuf \<Rightarrow> pbuf \<Rightarrow> pbuf \<times> pbuf" where
  "moveFrom h n =
     (let m = min (len n) (AvailableDataLength h)
      in ((writeBytes (payload h + len h) (take m (drop (payload n) (mem n))) h)\<lparr>len := len h + m\<rparr>,
          n\<lparr>payload := payload n + m, len := len n - m, tot_len := cast16 (int (tot_len n) - int m)\<rparr>))"

function compactLoop :: "pbuf \<Rightarrow> pbuf list \<Rightarrow> pbuf list option" where
  "compactLoop h [] = Some [h]"
| "compactLoop h (n # ns) =
     (if AvailableDataLength h = 0 then Some (h # n # ns)
      else if ref n \<noteq> 1 then None
      else if len (snd (moveFrom h n)) = 0 then compactLoop (fst (moveFrom h n)) ns
      else compactLoop (fst (moveFrom h n)) (snd (moveFrom h n) # ns))"
  by pat_completeness auto

lemma length_memcpy [simp]: "off + length bs \<le> length m \<Longrightarrow> length (memcpy off bs m) = length m"
  by (simp add: memcpy_def)

lemma moveFrom_avail:
  assumes "AvailableDataLength h > 0"
  shows "AvailableDataLength (fst (moveFrom h n)) = AvailableDataLength h - min (len n) (AvailableDataLength h)"
proof -
  let ?m = "min (len n) (AvailableDataLength h)"
  have "payload h + len h + ?m \<le> length (mem h)"
    using assms by (auto simp: AvailableDataLength_def MaxDataLength_def AllocSize_def ReservedSize_def)
  then have "payload h + len h + length (take ?m (drop (payload n) (mem n))) \<le> length (mem h)" by auto
  then have "length (memcpy (payload h + len h) (take ?m (drop (payload n) (mem n))) (mem h)) = length (mem h)"
    by (intro length_memcpy)
  then show ?thesis
    by (simp add: moveFrom_def Let_def writeBytes_def AvailableDataLength_def MaxDataLength_def AllocSize_def ReservedSize_def)
qed

termination compactLoop
proof (relation "measure (\<lambda>(h, ns). length ns + AvailableDataLength h)", goal_cases)
  case (3 h n ns)
  then have "len (snd (moveFrom h n)) > 0" by simp
  then have "min (len n) (AvailableDataLength h) = AvailableDataLength h" by (auto simp: moveFrom_def Let_def)
  then show ?case using 3 moveFrom_avail [of h n] by simp
qed (simp_all add: moveFrom_avail)

definition CompactHead :: "pbuf list \<Rightarrow> pbuf list option" where
  "CompactHead c =
     (case c of
        [] \<Rightarrow> None
      | h # ns \<Rightarrow>
          compactLoop (if payload h \<noteq> 0 then (writeBytes 0 (bufData h) h)\<lparr>payload := 0\<rparr> else h) ns)"

fun readLoop :: "nat \<Rightarrow> pbuf list \<Rightarrow> bytes result" where
  "readLoop n c =
     (if n = 0 then Inr []
      else (case c of
              [] \<Rightarrow> Inl CHIP_ERROR_INTERNAL
            | b # bs \<Rightarrow> rbind (readLoop (n - min n (len b)) bs) (\<lambda>xs. Inr (take (min n (len b)) (drop (payload b) (mem b)) @ xs))))"

declare readLoop.simps [simp del]

definition ReadChain :: "nat \<Rightarrow> pbuf list \<Rightarrow> bytes result" where
  "ReadChain n c =
     (case c of [] \<Rightarrow> Inl CHIP_ERROR_INTERNAL
      | b # _ \<Rightarrow> if n > tot_len b then Inl CHIP_ERROR_BUFFER_TOO_SMALL else readLoop n c)"

text \<open>Reference counts: \<open>Free\<close> releases the chain up to the first buffer that has another owner.\<close>

definition AddRef :: "pbuf \<Rightarrow> pbuf option" where
  "AddRef b = (if ref b < 65535 then Some (b\<lparr>ref := ref b + 1\<rparr>) else None)"

fun Free :: "pbuf list \<Rightarrow> pbuf list option" where
  "Free [] = Some []"
| "Free (b # bs) =
     (if ref b = 0 then None
      else if ref b = 1 then Free bs else Some (b\<lparr>ref := ref b - 1\<rparr> # bs))"

definition FreeHead :: "pbuf list \<Rightarrow> pbuf list option" where
  "FreeHead c = (case c of [] \<Rightarrow> None | b # bs \<Rightarrow> map_option (\<lambda>_. bs) (Free [b]))"

text \<open>\<open>FreeHead\<close> releases every buffer that is consumed as a whole (it dies on a buffer that nobody
  owns); the null handle means that no data is left.\<close>

fun Consume :: "nat \<Rightarrow> pbuf list \<Rightarrow> pbuf list option" where
  "Consume n [] = Some []"
| "Consume n (b # bs) =
     (if n = 0 then Some (b # bs)
      else if n \<ge> len b then (if FreeHead (b # bs) = None then None else Consume (n - len b) bs)
      else Some (ConsumeHead n b # bs))"

definition PopHead :: "pbuf list \<Rightarrow> (pbuf \<times> pbuf list) option" where
  "PopHead c = (case c of [] \<Rightarrow> None | b # bs \<Rightarrow> Some (b\<lparr>tot_len := len b\<rparr>, bs))"

section \<open>Allocation\<close>

definition New :: "(nat \<Rightarrow> nat \<Rightarrow> bytes option) \<Rightarrow> nat \<Rightarrow> nat \<Rightarrow> nat \<Rightarrow> pbuf option" where
  "New alloc i aAvailableSize aReservedSize =
     (let lAllocSize = aReservedSize + aAvailableSize in
      if aAvailableSize > 65535 \<or> lAllocSize > kMaxSizeWithoutReserve then None
      else map_option (\<lambda>m. \<lparr>mem = m, payload = aReservedSize, len = 0, tot_len = 0, ref = 1\<rparr>) (alloc i lAllocSize))"

definition NewWithData :: "(nat \<Rightarrow> nat \<Rightarrow> bytes option) \<Rightarrow> nat \<Rightarrow> bytes \<Rightarrow> nat \<Rightarrow> nat \<Rightarrow> pbuf option" where
  "NewWithData alloc i aData aAdditionalSize aReservedSize =
     (if length aData > 65535 then None
      else map_option (\<lambda>b. (writeBytes (payload b) aData b)\<lparr>len := length aData, tot_len := length aData\<rparr>)
             (New alloc i (length aData + aAdditionalSize) aReservedSize))"

text \<open>One buffer of a clone, with the limit on its size.\<close>

definition cloneBuf :: "(nat \<Rightarrow> nat \<Rightarrow> bytes option) \<Rightarrow> nat \<Rightarrow> pbuf \<Rightarrow> pbuf option" where
  "cloneBuf alloc i b =
     (let r = ReservedSize b; big = MaxDataLength b + r > kMaxSizeWithoutReserve;
          n = (if big then kMaxSizeWithoutReserve - r else MaxDataLength b)
      in if big \<and> r + len b > kMaxSizeWithoutReserve then None
         else map_option (\<lambda>c. (writeBytes 0 (take (n + r) (mem b)) c)\<lparr>len := len b, tot_len := len b\<rparr>) (New alloc i n r))"

text \<open>The outer option is a failed check in \<open>AddToEnd\<close>; the null handle is returned when memory
  runs out.\<close>

fun cloneLoop :: "(nat \<Rightarrow> nat \<Rightarrow> bytes option) \<Rightarrow> nat \<Rightarrow> pbuf list \<Rightarrow> pbuf list \<Rightarrow> pbuf list option" where
  "cloneLoop alloc i acc [] = Some acc"
| "cloneLoop alloc i acc (b # bs) =
     (case cloneBuf alloc i b of
        None \<Rightarrow> Some []
      | Some c \<Rightarrow>
          (case (if acc = [] then Some [c] else AddToEnd acc [c]) of
             None \<Rightarrow> None | Some acc' \<Rightarrow> cloneLoop alloc (Suc i) acc' bs))"

definition CloneData :: "(nat \<Rightarrow> nat \<Rightarrow> bytes option) \<Rightarrow> pbuf list \<Rightarrow> pbuf list option" where
  "CloneData alloc c = cloneLoop alloc 0 [] c"

definition RightSize :: "(nat \<Rightarrow> nat \<Rightarrow> bytes option) \<Rightarrow> pbuf list \<Rightarrow> pbuf list" where
  "RightSize alloc c =
     (case c of
        [b] \<Rightarrow>
          (let usedSize = payload b + len b in
           if ref b \<noteq> 1 \<or> usedSize + kRightSizingThreshold > AllocSize b then c
           else (case alloc 0 usedSize of
                   None \<Rightarrow> c
                 | Some m \<Rightarrow> [b\<lparr>mem := memcpy 0 (take usedSize (mem b)) m, ref := 1\<rparr>]))
      | _ \<Rightarrow> c)"

section \<open>The bytes of a chain\<close>

definition bufOk :: "pbuf \<Rightarrow> bool" where
  "bufOk b \<longleftrightarrow> payload b + len b \<le> length (mem b) \<and> length (mem b) \<le> 65535"

definition chainData :: "pbuf list \<Rightarrow> bytes" where
  "chainData c = concat (map bufData c)"

fun totalsOk :: "pbuf list \<Rightarrow> bool" where
  "totalsOk [] \<longleftrightarrow> True"
| "totalsOk (b # bs) \<longleftrightarrow> tot_len b = len b + length (chainData bs) \<and> tot_len b < 65536 \<and> totalsOk bs"

definition chainOk :: "pbuf list \<Rightarrow> bool" where
  "chainOk c \<longleftrightarrow> list_all bufOk c \<and> totalsOk c"

lemma chainData_simps [simp]: "chainData [] = []" "chainData (b # bs) = bufData b @ chainData bs"
  by (simp_all add: chainData_def)

lemma chainData_append [simp]: "chainData (c @ d) = chainData c @ chainData d"
  by (simp add: chainData_def)

lemma length_bufData [simp]: "bufOk b \<Longrightarrow> length (bufData b) = len b"
  by (auto simp: bufData_def bufOk_def)

lemma chainOk_simps [simp]:
  "chainOk []" "chainOk (b # bs) \<longleftrightarrow> bufOk b \<and> tot_len b = len b + length (chainData bs) \<and> tot_len b < 65536 \<and> chainOk bs"
  by (auto simp: chainOk_def)

lemma bufOk_tot [simp]: "bufOk (b\<lparr>tot_len := t\<rparr>) = bufOk b" "bufData (b\<lparr>tot_len := t\<rparr>) = bufData b"
  by (simp_all add: bufOk_def bufData_def)

lemma cast16_nat [simp]: "0 \<le> x \<Longrightarrow> x < 65536 \<Longrightarrow> cast16 x = nat x"
  by (simp add: cast16_def)

lemma memcpy_take [simp]: "off \<le> length m \<Longrightarrow> k \<le> off \<Longrightarrow> take k (memcpy off bs m) = take k m"
  by (simp add: memcpy_def)

lemma memcpy_at:
  "off + length bs \<le> length m \<Longrightarrow> take (length bs) (drop off (memcpy off bs m)) = bs"
  by (simp add: memcpy_def)

lemma memcpy_before:
  "off \<le> length m \<Longrightarrow> a + k \<le> off \<Longrightarrow> take k (drop a (memcpy off bs m)) = take k (drop a m)"
  by (metis add.commute drop_take memcpy_take take_drop)

lemma memcpy_after:
  "off + length bs \<le> a \<Longrightarrow> off + length bs \<le> length m \<Longrightarrow> drop a (memcpy off bs m) = drop a m"
  by (simp add: memcpy_def)

section \<open>Each operation on bytes\<close>

lemma ConsumeHead_ok:
  assumes "chainOk (b # bs)"
  shows "bufData (ConsumeHead n b) = drop n (bufData b)" "chainOk (ConsumeHead n b # bs)" "len (ConsumeHead n b) = len b - n"
  using assms by (auto simp: ConsumeHead_def Let_def bufData_def bufOk_def drop_take add.commute min_def)

lemma SetDataLength_ok:
  assumes "chainOk [b]" "n \<le> MaxDataLength b"
  shows "bufData (SetDataLength n b) = take n (drop (payload b) (mem b))" "chainOk [SetDataLength n b]"
    "len (SetDataLength n b) = n"
  using assms by (auto simp: SetDataLength_def Let_def bufData_def bufOk_def MaxDataLength_def AllocSize_def ReservedSize_def)

lemma EnsureReservedSize_ok:
  assumes "bufOk b" "EnsureReservedSize r b = (True, b')"
  shows "bufOk b'" "bufData b' = bufData b" "r \<le> payload b'" "len b' = len b" "tot_len b' = tot_len b"
    "length (mem b') = length (mem b)" "ref b' = ref b"
proof -
  have "r + length (bufData b) \<le> length (mem b)" if "\<not> r \<le> payload b"
    using assms that by (auto simp: EnsureReservedSize_def ReservedSize_def AllocSize_def split: if_splits)
  then show "bufOk b'" "bufData b' = bufData b" "r \<le> payload b'" "len b' = len b" "tot_len b' = tot_len b"
    "length (mem b') = length (mem b)" "ref b' = ref b"
    using assms memcpy_at [of r "bufData b" "mem b"] length_bufData [OF assms(1)]
    by (auto simp: EnsureReservedSize_def ReservedSize_def AllocSize_def writeBytes_def bufOk_def bufData_def [of "_\<lparr>payload := _\<rparr>"]
        split: if_splits)
qed

lemma EnsureReservedSize_fits:
  "r + len b \<le> AllocSize b \<Longrightarrow> \<exists>b'. EnsureReservedSize r b = (True, b')"
  by (simp add: EnsureReservedSize_def)

lemma AddToEnd_ok:
  assumes "chainOk c" "chainOk p" "AddToEnd c p = Some c'"
  shows "chainData c' = chainData c @ chainData p" "chainOk c'"
proof -
  obtain q ps where p: "p = q # ps" using assms(3) by (cases p) (auto simp: AddToEnd_def)
  have t: "tot_len q = length (chainData p)" using assms(2) by (simp add: p)
  let ?f = "map (\<lambda>b. b\<lparr>tot_len := tot_len b + tot_len q\<rparr>)"
  have c': "c' = ?f c @ p" and fit: "list_all (\<lambda>b. tot_len b + tot_len q < 65536) c"
    using assms(3) by (auto simp: AddToEnd_def p split: if_splits)
  have d: "chainData (map (\<lambda>b. b\<lparr>tot_len := g b\<rparr>) d) = chainData d" for d and g :: "pbuf \<Rightarrow> nat" by (induction d) auto
  show "chainData c' = chainData c @ chainData p" by (simp add: c' d)
  show "chainOk c'" unfolding c' using assms(1) fit
    by (induction c) (auto simp: d t assms(2))
qed

lemma AddToEnd_fits:
  assumes "chainOk c" "p \<noteq> []" "chainOk p" "length (chainData c) + length (chainData p) < 65536"
  shows "\<exists>c'. AddToEnd c p = Some c'"
proof -
  obtain q ps where p: "p = q # ps" using assms(2) by (cases p) auto
  have "tot_len q = length (chainData p)" using assms(3) by (simp add: p)
  moreover have "list_all (\<lambda>b. tot_len b \<le> length (chainData c)) c"
    using assms(1) by (induction c) (auto simp: list_all_iff le_SucI trans_le_add2)
  ultimately show ?thesis using assms(4) by (auto simp: AddToEnd_def p list_all_iff)
qed

lemma moveFrom_ok:
  assumes ok: "bufOk h" "chainOk (n # ns)"
  defines "m \<equiv> min (len n) (AvailableDataLength h)"
  shows "bufData (fst (moveFrom h n)) = bufData h @ take m (bufData n)" "bufOk (fst (moveFrom h n))"
    "bufData (snd (moveFrom h n)) = drop m (bufData n)" "chainOk (snd (moveFrom h n) # ns)"
    "tot_len (fst (moveFrom h n)) = tot_len h" "len (fst (moveFrom h n)) = len h + m" "payload (fst (moveFrom h n)) = payload h"
    "len (snd (moveFrom h n)) = len n - m" "ref (snd (moveFrom h n)) = ref n" "ref (fst (moveFrom h n)) = ref h"
    "length (mem (fst (moveFrom h n))) = length (mem h)"
proof -
  let ?bs = "take m (drop (payload n) (mem n))"
  have bs: "?bs = take m (bufData n)" by (simp add: bufData_def m_def min_def)
  have l: "length ?bs = m" using ok(2) by (auto simp: bufOk_def m_def)
  have fit: "payload h + len h + m \<le> length (mem h)"
    using ok(1) by (auto simp: m_def bufOk_def AvailableDataLength_def MaxDataLength_def AllocSize_def ReservedSize_def)
  have mv: "moveFrom h n = ((writeBytes (payload h + len h) ?bs h)\<lparr>len := len h + m\<rparr>,
      n\<lparr>payload := payload n + m, len := len n - m, tot_len := cast16 (int (tot_len n) - int m)\<rparr>)"
    by (simp add: moveFrom_def m_def Let_def)
  have "take (len h + m) (drop (payload h) (memcpy (payload h + len h) ?bs (mem h))) =
      take (len h) (drop (payload h) (mem h)) @ ?bs"
    using memcpy_before [of "payload h + len h" "mem h" "payload h" "len h" ?bs] memcpy_at [of "payload h + len h" ?bs "mem h"] fit l
    by (simp add: take_add [of "len h" m] drop_drop add.commute [of "len h" "payload h"])
  then show "bufData (fst (moveFrom h n)) = bufData h @ take m (bufData n)"
    by (simp add: mv bufData_def writeBytes_def bs [unfolded bufData_def])
  show "bufOk (fst (moveFrom h n))" "length (mem (fst (moveFrom h n))) = length (mem h)"
    using ok(1) fit l by (simp_all add: mv bufOk_def writeBytes_def)
  show d: "bufData (snd (moveFrom h n)) = drop m (bufData n)"
    by (simp add: mv bufData_def drop_take add.commute)
  have "m \<le> len n" by (simp add: m_def)
  then show "chainOk (snd (moveFrom h n) # ns)" using ok(2) by (auto simp: mv bufOk_def)
qed (simp_all add: moveFrom_def m_def Let_def writeBytes_def)

lemma compactLoop_ok:
  assumes "bufOk h" "chainOk ns" "tot_len h = len h + length (chainData ns)" "tot_len h < 65536" "compactLoop h ns = Some c"
  shows "chainData c = bufData h @ chainData ns \<and> chainOk c \<and> c \<noteq> [] \<and> payload (hd c) = payload h \<and>
    length (mem (hd c)) = length (mem h) \<and> ref (hd c) = ref h \<and> (tl c = [] \<or> AvailableDataLength (hd c) = 0)"
  using assms
proof (induction h ns rule: compactLoop.induct)
  case (2 h n ns)
  note mv = moveFrom_ok [OF "2.prems"(1,2)]
  let ?m = "min (len n) (AvailableDataLength h)"
  show ?case
  proof (cases "AvailableDataLength h = 0")
    case False
    then have r: "ref n = 1" using "2.prems"(5) by (auto split: if_splits)
    have n: "bufOk n" "length (bufData n) = len n" using "2.prems"(2) by auto
    show ?thesis
    proof (cases "len (snd (moveFrom h n)) = 0")
      case True
      then have m: "?m = len n" using mv(8) by simp
      have eq: "compactLoop (fst (moveFrom h n)) ns = Some c" using "2.prems"(5) False r True by simp
      have t: "take ?m (bufData n) = bufData n" using n m by simp
      show ?thesis using "2.IH"(1) [OF False _ True mv(2) _ _ _ eq] "2.prems" mv r m t n by simp
    next
      case nz: False
      have eq: "compactLoop (fst (moveFrom h n)) (snd (moveFrom h n) # ns) = Some c" using "2.prems"(5) False r nz by simp
      have l: "length (bufData (snd (moveFrom h n))) = len n - ?m" using mv(3) n by simp
      show ?thesis using "2.IH"(2) [OF False _ nz mv(2,4) _ _ eq] "2.prems" mv r n l by simp
    qed
  qed (use "2.prems" in auto)
qed auto

lemma compactLoop_total: "list_all (\<lambda>b. ref b = 1) ns \<Longrightarrow> \<exists>c. compactLoop h ns = Some c"
  by (induction h ns rule: compactLoop.induct) (auto simp: moveFrom_def Let_def)

lemma CompactHead_ok:
  assumes "chainOk c" "CompactHead c = Some c'"
  shows "chainData c' = chainData c \<and> chainOk c' \<and> c' \<noteq> [] \<and> payload (hd c') = 0 \<and>
    length (mem (hd c')) = length (mem (hd c)) \<and> ref (hd c') = ref (hd c) \<and> (tl c' = [] \<or> AvailableDataLength (hd c') = 0)"
proof -
  obtain h ns where c: "c = h # ns" using assms(2) by (cases c) (auto simp: CompactHead_def)
  define h0 where "h0 = (if payload h \<noteq> 0 then (writeBytes 0 (bufData h) h)\<lparr>payload := 0\<rparr> else h)"
  have h: "bufOk h" "chainOk ns" "tot_len h = len h + length (chainData ns)" "tot_len h < 65536"
    using assms(1) by (simp_all add: c)
  have l: "length (bufData h) = len h" "len h \<le> length (mem h)" using h(1) by (auto simp: bufOk_def bufData_def)
  have "bufOk h0" "bufData h0 = bufData h" "tot_len h0 = tot_len h" "len h0 = len h" "payload h0 = 0"
      "length (mem h0) = length (mem h)" "ref h0 = ref h"
    using h(1) l memcpy_at [of 0 "bufData h" "mem h"]
    by (auto simp: h0_def writeBytes_def bufOk_def bufData_def [of "_\<lparr>payload := _\<rparr>"])
  then show ?thesis
    using compactLoop_ok [of h0 ns c'] h assms(2) by (simp add: c CompactHead_def h0_def)
qed

lemma CompactHead_total: "c \<noteq> [] \<Longrightarrow> list_all (\<lambda>b. ref b = 1) (tl c) \<Longrightarrow> \<exists>c'. CompactHead c = Some c'"
  by (cases c) (simp_all add: CompactHead_def compactLoop_total)

lemma Consume_ok:
  assumes "chainOk c" "Consume n c = Some c'"
  shows "chainData c' = drop n (chainData c) \<and> chainOk c'"
  using assms
proof (induction n c arbitrary: c' rule: Consume.induct)
  case (2 n b bs)
  have l: "length (bufData b) = len b" using "2.prems"(1) by simp
  show ?case
  proof (cases "n = 0 \<or> n \<ge> len b")
    case True
    then show ?thesis using 2 l by (auto split: if_splits)
  next
    case False
    then show ?thesis using "2.prems" l ConsumeHead_ok [OF "2.prems"(1), of n] by auto
  qed
qed simp

lemma Consume_total: "list_all (\<lambda>b. ref b > 0) c \<Longrightarrow> \<exists>c'. Consume n c = Some c'"
  by (induction n c rule: Consume.induct) (auto simp: FreeHead_def)

lemma readLoop_ok: "chainOk c \<Longrightarrow> n \<le> length (chainData c) \<Longrightarrow> readLoop n c = Inr (take n (chainData c))"
proof (induction n c rule: readLoop.induct)
  case (1 n c)
  show ?case
  proof (cases "n = 0")
    case False
    then obtain b bs where c: "c = b # bs" using "1.prems" by (cases c) auto
    have l: "length (bufData b) = len b" using "1.prems" by (simp add: c)
    have d: "take (min n (len b)) (drop (payload b) (mem b)) = take n (bufData b)" by (simp add: bufData_def min.commute)
    have "n - min n (len b) \<le> length (chainData bs)" using "1.prems"(2) l by (simp add: c)
    then have "readLoop (n - min n (len b)) bs = Inr (take (n - min n (len b)) (chainData bs))"
      using "1.IH" [OF False c] "1.prems"(1) by (simp add: c)
    moreover have "n - min n (len b) = n - len b" by simp
    ultimately show ?thesis using False l readLoop.simps [of n c] by (simp add: c d)
  qed (simp add: readLoop.simps)
qed

lemma ReadChain_ok:
  "chainOk c \<Longrightarrow> c \<noteq> [] \<Longrightarrow> ReadChain n c =
     (if n \<le> length (chainData c) then Inr (take n (chainData c)) else Inl CHIP_ERROR_BUFFER_TOO_SMALL)"
  by (cases c) (auto simp: ReadChain_def readLoop_ok)

definition allocSizes :: "(nat \<Rightarrow> nat \<Rightarrow> bytes option) \<Rightarrow> bool" where
  "allocSizes alloc \<longleftrightarrow> (\<forall>i n m. alloc i n = Some m \<longrightarrow> length m = n)"

lemma cloneBuf_ok:
  assumes "bufOk b" "allocSizes alloc" "cloneBuf alloc i b = Some c"
  shows "chainOk [c] \<and> bufData c = bufData b \<and> ref c = 1"
proof -
  define n where "n = (if MaxDataLength b + ReservedSize b > kMaxSizeWithoutReserve then kMaxSizeWithoutReserve - ReservedSize b
    else MaxDataLength b)"
  have big: "payload b + len b \<le> kMaxSizeWithoutReserve" if "MaxDataLength b + ReservedSize b > kMaxSizeWithoutReserve"
    using assms(3) that by (auto simp: cloneBuf_def Let_def ReservedSize_def split: if_splits)
  obtain d where d: "New alloc i n (payload b) = Some d" "c = (writeBytes 0 (take (n + payload b) (mem b)) d)\<lparr>len := len b, tot_len := len b\<rparr>"
    using assms(3) by (auto simp: cloneBuf_def Let_def n_def ReservedSize_def split: if_splits)
  have dm: "length (mem d) = payload b + n" "payload d = payload b" "ref d = 1"
    using d(1) assms(2) by (auto simp: New_def Let_def allocSizes_def split: if_splits)
  have fit: "payload b + len b \<le> n + payload b" "n + payload b \<le> length (mem b)"
    using assms(1) big by (auto simp: n_def bufOk_def MaxDataLength_def ReservedSize_def AllocSize_def)
  have "length (take (n + payload b) (mem b)) = length (mem d)" using fit dm by simp
  then have "mem c = take (n + payload b) (mem b)" by (simp add: d(2) writeBytes_def memcpy_def)
  then show ?thesis using assms(1) fit dm
    by (auto simp: d(2) bufOk_def bufData_def writeBytes_def drop_take take_take min_def)
qed

lemma cloneLoop_ok:
  assumes "allocSizes alloc"
  shows "chainOk acc \<Longrightarrow> list_all bufOk bs \<Longrightarrow> cloneLoop alloc i acc bs = Some c \<Longrightarrow> c \<noteq> [] \<Longrightarrow>
    chainOk c \<and> chainData c = chainData acc @ chainData bs"
proof (induction bs arbitrary: i acc)
  case (Cons b bs)
  obtain d where d: "cloneBuf alloc i b = Some d" using Cons.prems(3,4) by (auto split: option.splits)
  obtain acc' where a: "(if acc = [] then Some [d] else AddToEnd acc [d]) = Some acc'" "cloneLoop alloc (Suc i) acc' bs = Some c"
    using Cons.prems(3) d by (auto split: option.splits)
  have b: "chainOk [d]" "bufData d = bufData b" using cloneBuf_ok [OF _ assms d] Cons.prems(2) by auto
  have "chainOk acc' \<and> chainData acc' = chainData acc @ bufData b"
    using a(1) b AddToEnd_ok [OF Cons.prems(1) b(1)] by (auto split: if_splits)
  then show ?case using Cons.IH [OF _ _ a(2) Cons.prems(4)] Cons.prems(2) by simp
qed auto

lemma RightSize_ok:
  assumes "chainOk c" "allocSizes alloc"
  shows "chainOk (RightSize alloc c) \<and> chainData (RightSize alloc c) = chainData c"
proof (cases "\<exists>b. c = [b] \<and> ref b = 1 \<and> payload b + len b + kRightSizingThreshold \<le> AllocSize b")
  case True
  then obtain b where c: "c = [b]" "ref b = 1" "payload b + len b + kRightSizingThreshold \<le> AllocSize b" by auto
  show ?thesis
  proof (cases "alloc 0 (payload b + len b)")
    case (Some m)
    then have "length m = payload b + len b" using assms(2) by (simp add: allocSizes_def)
    moreover have "payload b + len b \<le> length (mem b)" using c by (simp add: AllocSize_def)
    ultimately have "memcpy 0 (take (payload b + len b) (mem b)) m = take (payload b + len b) (mem b)"
      by (simp add: memcpy_def)
    then show ?thesis using assms(1) c Some by (auto simp: RightSize_def Let_def bufOk_def bufData_def drop_take)
  qed (use assms(1) c in \<open>auto simp: RightSize_def Let_def\<close>)
next
  case False
  then have "RightSize alloc c = c"
    by (cases c rule: list.exhaust [case_product list.exhaust]) (auto simp: RightSize_def Let_def split: list.splits)
  then show ?thesis using assms(1) by simp
qed

section \<open>Appending to a reassembly buffer\<close>

text \<open>What a client that collects bytes relies on: as long as there is room, appending a piece is
  total, keeps the capacity and appends the bytes.\<close>

locale byte_collector =
  fixes ok :: "'c \<Rightarrow> bool" and content :: "'c \<Rightarrow> bytes" and capacity :: "'c \<Rightarrow> nat"
    and piece :: "'p \<Rightarrow> bytes \<Rightarrow> bool" and append :: "'c \<Rightarrow> 'p \<Rightarrow> 'c option"
  assumes append_law: "ok c \<Longrightarrow> piece p bs \<Longrightarrow> length (content c) < capacity c \<Longrightarrow> length (content c) + length bs \<le> capacity c \<Longrightarrow>
    \<exists>c'. append c p = Some c' \<and> ok c' \<and> content c' = content c @ bs \<and> capacity c' = capacity c"
begin

lemma append_E:
  assumes "ok c" "piece p bs" "length (content c) < capacity c" "length (content c) + length bs \<le> capacity c"
  obtains c' where "append c p = Some c'" "ok c'" "content c' = content c @ bs" "capacity c' = capacity c"
  using append_law assms by blast

text \<open>Any number of pieces: the bytes come out in the order they went in.\<close>

lemma append_all:
  assumes "list_all2 piece ps bss" "ok c" "length (content c) + length (concat bss) < capacity c"
  shows "\<exists>c'. foldl (\<lambda>s p. Option.bind s (\<lambda>c. append c p)) (Some c) ps = Some c' \<and> ok c' \<and>
    content c' = content c @ concat bss \<and> capacity c' = capacity c"
  using assms
proof (induction arbitrary: c rule: list_all2_induct)
  case (Cons p ps bs bss)
  obtain c' where "append c p = Some c'" "ok c'" "content c' = content c @ bs" "capacity c' = capacity c"
    using Cons.prems Cons.hyps(1) by (auto elim: append_E)
  then show ?case using Cons.IH [of c'] Cons.prems by simp
qed simp

end

definition appendCompact :: "pbuf list \<Rightarrow> pbuf list \<Rightarrow> pbuf list option" where
  "appendCompact c p = (case AddToEnd c p of None \<Rightarrow> None | Some c' \<Rightarrow> CompactHead c')"

definition owned :: "pbuf list \<Rightarrow> bool" where
  "owned c \<longleftrightarrow> (\<exists>b. c = [b] \<and> chainOk [b] \<and> ref b = 1)"

lemma compactLoop_single:
  "0 < AvailableDataLength h \<Longrightarrow> len q \<le> AvailableDataLength h \<Longrightarrow> ref q = 1 \<Longrightarrow> compactLoop h [q] = Some [fst (moveFrom h q)]"
  by (simp add: moveFrom_def Let_def min_def)

lemma appendCompact_ok:
  assumes c: "owned c" and p: "owned p" "chainData p = bs"
    and room: "length (chainData c) < AllocSize (hd c)" "length (chainData c) + length bs \<le> AllocSize (hd c)"
  shows "\<exists>c'. appendCompact c p = Some c' \<and> owned c' \<and> chainData c' = chainData c @ bs \<and> AllocSize (hd c') = AllocSize (hd c)"
proof -
  obtain b q where b: "c = [b]" "chainOk [b]" "ref b = 1" and q: "p = [q]" "chainOk [q]" "ref q = 1"
    using c p(1) by (auto simp: owned_def)
  have sz: "AllocSize b \<le> 65535" using b(2) by (simp add: bufOk_def AllocSize_def)
  obtain c1 where c1: "AddToEnd c p = Some c1" using AddToEnd_fits [of c p] b q p(2) room sz by auto
  have c1': "c1 = [b\<lparr>tot_len := tot_len b + tot_len q\<rparr>, q]" using c1 by (auto simp: AddToEnd_def b q split: if_splits)
  obtain c2 where c2: "CompactHead c1 = Some c2" using CompactHead_total [of c1] q by (auto simp: c1')
  have d: "chainData c1 = chainData c @ bs" "chainOk c1" using AddToEnd_ok [OF _ _ c1] b q p(2) by auto
  have l: "length (bufData b) = len b" "len q = length bs" using b(2) q p(2) by auto
  have "\<exists>h. c2 = [h]"
    using c2 room l b(1) q(3) unfolding CompactHead_def c1' list.case
    by (subst (asm) compactLoop_single)
       (auto simp: AvailableDataLength_def MaxDataLength_def AllocSize_def ReservedSize_def writeBytes_def)
  then show ?thesis using c1 c2 CompactHead_ok [OF d(2) c2] d b by (auto simp: appendCompact_def owned_def AllocSize_def c1')
qed

interpretation buffers: byte_collector owned chainData "\<lambda>c. AllocSize (hd c)" "\<lambda>p bs. owned p \<and> chainData p = bs" appendCompact
  by unfold_locales (blast intro: appendCompact_ok)

end
