(* ===== verification/Btp_Engine.thy ===== *)
theory Btp_Engine
  imports Packet_Buffer
begin

text \<open>
  The BLE transport protocol engine, \<^verbatim>\<open>src/ble/BtpEngine.cpp\<close>: it splits a message into fragments that
  fit a GATT characteristic, reassembles received fragments, and numbers and acknowledges them with
  8-bit sequence numbers.  The build without \<open>CHIP_ENABLE_CHIPOBLE_TEST\<close> is modelled.  Sequence numbers and
  packet counters keep their width and wrap; lengths are natural numbers and the casts to 16 bits
  are written out.
\<close>

unbundle bit_operations_syntax

section \<open>State\<close>

datatype State_t = kState_Idle | kState_InProgress | kState_Complete | kState_Error

record engine =
  mRxState :: State_t
  mRxLength :: nat
  mRxBuf :: "pbuf list"
  mRxNextSeqNum :: u8
  mRxNewestUnackedSeqNum :: u8
  mRxOldestUnackedSeqNum :: u8
  mRxFragmentSize :: nat
  mTxState :: State_t
  mTxLength :: nat
  mTxBuf :: "pbuf list"
  mTxNextSeqNum :: u8
  mTxNewestUnackedSeqNum :: u8
  mTxOldestUnackedSeqNum :: u8
  mExpectingAck :: bool
  mTxFragmentSize :: nat
  mRxCharCount :: u16
  mRxPacketCount :: u16
  mTxCharCount :: u16
  mTxPacketCount :: u16

definition kStartMessage :: u8 where "kStartMessage = 1"
definition kContinueMessage :: u8 where "kContinueMessage = 2"
definition kEndMessage :: u8 where "kEndMessage = 4"
definition kFragmentAck :: u8 where "kFragmentAck = 8"

definition kTransferProtocolHeaderFlagsSize :: nat where "kTransferProtocolHeaderFlagsSize = 1"
definition kTransferProtocolSequenceNumSize :: nat where "kTransferProtocolSequenceNumSize = 1"
definition kTransferProtocolAckSize :: nat where "kTransferProtocolAckSize = 1"
definition kTransferProtocolMsgLenSize :: nat where "kTransferProtocolMsgLenSize = 2"
definition kTransferProtocolMaxHeaderSize :: nat where "kTransferProtocolMaxHeaderSize = 5"
definition kTransferProtocolMidFragmentMaxHeaderSize :: nat where "kTransferProtocolMidFragmentMaxHeaderSize = 3"
definition kTransferProtocolStandaloneAckHeaderSize :: nat where "kTransferProtocolStandaloneAckHeaderSize = 3"
definition CHIP_CONFIG_BLE_PKT_RESERVED_SIZE :: nat where "CHIP_CONFIG_BLE_PKT_RESERVED_SIZE = 0"
definition sDefaultFragmentSize :: nat where "sDefaultFragmentSize = 20"
definition sMaxFragmentSize :: nat where "sMaxFragmentSize = 244"

section \<open>Sequence numbers and acknowledgements\<close>

definition IncSeqNum :: "u8 \<Rightarrow> u8" where
  "IncSeqNum a_seq_num = a_seq_num + 1"

definition DidReceiveData :: "u8 \<Rightarrow> bool" where
  "DidReceiveData rx_flags \<longleftrightarrow> Has rx_flags (kStartMessage OR kContinueMessage OR kEndMessage)"

text \<open>\<open>Init\<close> leaves the two message lengths as they are.\<close>

definition BtpEngine_Init :: "bool \<Rightarrow> engine \<Rightarrow> engine" where
  "BtpEngine_Init expect_first_ack e =
     e\<lparr>mRxState := kState_Idle, mRxBuf := [], mRxNewestUnackedSeqNum := 0, mRxOldestUnackedSeqNum := 0,
       mRxFragmentSize := sDefaultFragmentSize, mTxState := kState_Idle, mTxBuf := [], mTxFragmentSize := sDefaultFragmentSize,
       mRxCharCount := 0, mRxPacketCount := 0, mTxCharCount := 0, mTxPacketCount := 0,
       mTxNewestUnackedSeqNum := 0, mTxOldestUnackedSeqNum := 0,
       mTxNextSeqNum := (if expect_first_ack then 1 else 0), mExpectingAck := expect_first_ack,
       mRxNextSeqNum := (if expect_first_ack then 0 else 1)\<rparr>"

definition SetTxFragmentSize :: "nat \<Rightarrow> engine \<Rightarrow> engine" where
  "SetTxFragmentSize n e = e\<lparr>mTxFragmentSize := n\<rparr>"

definition SetRxFragmentSize :: "nat \<Rightarrow> engine \<Rightarrow> engine" where
  "SetRxFragmentSize n e = e\<lparr>mRxFragmentSize := n\<rparr>"

definition GetAndIncrementNextTxSeqNum :: "engine \<Rightarrow> u8 \<times> engine" where
  "GetAndIncrementNextTxSeqNum e =
     (let e1 = (if \<not> mExpectingAck e then e\<lparr>mExpectingAck := True, mTxOldestUnackedSeqNum := mTxNextSeqNum e\<rparr> else e)
      in (mTxNextSeqNum e, e1\<lparr>mTxNewestUnackedSeqNum := mTxNextSeqNum e, mTxNextSeqNum := IncSeqNum (mTxNextSeqNum e)\<rparr>))"

definition GetAndRecordRxAckSeqNum :: "engine \<Rightarrow> u8 \<times> engine" where
  "GetAndRecordRxAckSeqNum e =
     (mRxNewestUnackedSeqNum e,
      e\<lparr>mRxNewestUnackedSeqNum := mRxNextSeqNum e, mRxOldestUnackedSeqNum := mRxNextSeqNum e\<rparr>)"

definition HasUnackedData :: "engine \<Rightarrow> bool" where
  "HasUnackedData e \<longleftrightarrow> mRxOldestUnackedSeqNum e \<noteq> mRxNextSeqNum e"

definition IsValidAck :: "u8 \<Rightarrow> engine \<Rightarrow> bool" where
  "IsValidAck ack_num e \<longleftrightarrow>
     (if \<not> mExpectingAck e then False
      else if mTxNewestUnackedSeqNum e \<ge> mTxOldestUnackedSeqNum e
      then ack_num \<le> mTxNewestUnackedSeqNum e \<and> ack_num \<ge> mTxOldestUnackedSeqNum e
      else ack_num \<le> mTxNewestUnackedSeqNum e \<or> ack_num \<ge> mTxOldestUnackedSeqNum e)"

definition HandleAckReceived :: "u8 \<Rightarrow> engine \<Rightarrow> engine result" where
  "HandleAckReceived ack_num e =
     (if \<not> IsValidAck ack_num e then Inl BLE_ERROR_INVALID_ACK
      else if mTxNewestUnackedSeqNum e = ack_num
      then Inr (e\<lparr>mTxOldestUnackedSeqNum := ack_num, mExpectingAck := False\<rparr>)
      else Inr (e\<lparr>mTxOldestUnackedSeqNum := IncSeqNum ack_num\<rparr>))"

text \<open>A write through the raw pointer of the payload; \<open>None\<close> when it leaves the allocation.\<close>

definition pokeBytes :: "int \<Rightarrow> bytes \<Rightarrow> pbuf \<Rightarrow> pbuf option" where
  "pokeBytes off bs b =
     (if off < 0 \<or> nat off + length bs > AllocSize b then None else Some (writeBytes (nat off) bs b))"

text \<open>The buffer is the caller's and is changed in place; it comes back with the result.\<close>

definition EncodeStandAloneAck :: "pbuf list \<Rightarrow> engine \<Rightarrow> (chip_error option \<times> pbuf list \<times> engine) option" where
  "EncodeStandAloneAck data e =
     (case data of
        [] \<Rightarrow> None
      | b # bs \<Rightarrow>
          (case EnsureReservedSize CHIP_CONFIG_BLE_PKT_RESERVED_SIZE b of
             (False, b) \<Rightarrow> Some (Some CHIP_ERROR_NO_MEMORY, b # bs, e)
           | (True, b) \<Rightarrow>
               if MaxDataLength b < kTransferProtocolStandaloneAckHeaderSize then Some (Some CHIP_ERROR_NO_MEMORY, b # bs, e)
               else (let (ack, e1) = GetAndRecordRxAckSeqNum e; (seq, e2) = GetAndIncrementNextTxSeqNum e1
                     in map_option (\<lambda>b. (None, SetDataLength kTransferProtocolStandaloneAckHeaderSize b # bs, e2))
                          (pokeBytes (int (payload b)) [kFragmentAck, ack, seq] b))))"

section \<open>Receiving a fragment\<close>

text \<open>
  The variables \<open>HandleCharacteristicReceived\<close> changes: the engine, its handle on the data, and the two
  results.  A jump to \<open>exit\<close> carries them, with the error if there is one; \<open>Died\<close> is a failed
  \<open>VerifyOrDie\<close> in the packet buffers.
\<close>

record rxVars =
  rxEngine :: engine
  rxData :: "pbuf list"
  receivedAck :: u8
  didReceiveAck :: bool

datatype rxExit = Exit "chip_error option" rxVars | Died

definition SuccessOrExit :: "rxVars \<Rightarrow> 'a result \<Rightarrow> rxExit + 'a" where
  "SuccessOrExit v r = (case r of Inl e \<Rightarrow> Inl (Exit (Some e) v) | Inr x \<Rightarrow> Inr x)"

definition rxAck :: "u8 \<Rightarrow> reader \<Rightarrow> rxVars \<Rightarrow> rxExit + reader \<times> rxVars" where
  "rxAck rx_flags r v =
     (if didReceiveAck v
      then rbind (SuccessOrExit v (Read8 r)) (\<lambda>(a, r).
           let v = v\<lparr>receivedAck := a\<rparr> in
           rbind (SuccessOrExit v (HandleAckReceived a (rxEngine v))) (\<lambda>e. Inr (r, v\<lparr>rxEngine := e\<rparr>)))
      else Inr (r, v))"

text \<open>The part up to the payload: flags, acknowledgement, sequence number, truncation.\<close>

definition rxHeader :: "rxVars \<Rightarrow> rxExit + u8 \<times> rxVars" where
  "rxHeader v =
     (case rxData v of
        [] \<Rightarrow> Inl (Exit (Some CHIP_ERROR_INVALID_ARGUMENT) v)
      | b # bs \<Rightarrow>
          let v = v\<lparr>rxEngine := (rxEngine v)\<lparr>mRxCharCount := mRxCharCount (rxEngine v) + 1\<rparr>\<rparr> in
          rbind (SuccessOrExit v (Read8 (Reader (bufData b)))) (\<lambda>(rx_flags, r).
          let v = v\<lparr>didReceiveAck := Has rx_flags kFragmentAck\<rparr> in
          rbind (rxAck rx_flags r v) (\<lambda>(r, v).
          rbind (SuccessOrExit v (Read8 r)) (\<lambda>(seq, r).
          let v = v\<lparr>rxEngine := (rxEngine v)\<lparr>mRxNewestUnackedSeqNum := seq\<rparr>\<rparr> in
          if seq \<noteq> mRxNextSeqNum (rxEngine v) then Inl (Exit (Some BLE_ERROR_INVALID_BTP_SEQUENCE_NUMBER) v)
          else let v = v\<lparr>rxEngine := (rxEngine v)\<lparr>mRxNextSeqNum := IncSeqNum (mRxNextSeqNum (rxEngine v))\<rparr>\<rparr> in
          if \<not> DidReceiveData rx_flags then Inl (Exit None v)
          else if octetsRead r > mRxFragmentSize (rxEngine v) then Inl (Exit (Some BLE_ERROR_REASSEMBLER_INCORRECT_STATE) v)
          else Inr (rx_flags,
                    v\<lparr>rxData := ConsumeHead (octetsRead r) (SetDataLength (min (len b) (mRxFragmentSize (rxEngine v))) b) # bs\<rparr>)))))"

text \<open>\<open>AddToEnd\<close>, \<open>CompactHead\<close>, and the check that the message still fits one buffer.\<close>

definition rxAppend :: "rxVars \<Rightarrow> rxExit + rxVars" where
  "rxAppend v =
     (case appendCompact (mRxBuf (rxEngine v)) (rxData v) of
        None \<Rightarrow> Inl Died
      | Some c \<Rightarrow>
          let v = v\<lparr>rxEngine := (rxEngine v)\<lparr>mRxBuf := c\<rparr>, rxData := []\<rparr> in
          if tl c \<noteq> [] then Inl (Exit (Some CHIP_ERROR_INBOUND_MESSAGE_TOO_BIG) v) else Inr v)"

definition rxStart :: "(nat \<Rightarrow> nat \<Rightarrow> bytes option) \<Rightarrow> nat \<Rightarrow> u8 \<Rightarrow> rxVars \<Rightarrow> rxExit + rxVars" where
  "rxStart alloc i rx_flags v =
     (case rxData v of
        [] \<Rightarrow> Inl Died
      | b # bs \<Rightarrow>
          if \<not> Has rx_flags kStartMessage then Inl (Exit (Some BLE_ERROR_INVALID_BTP_HEADER_FLAGS) v)
          else rbind (SuccessOrExit v (Read16 (Reader (bufData b)))) (\<lambda>(n, r).
          let v = v\<lparr>rxEngine := (rxEngine v)\<lparr>mRxLength := unat n, mRxState := kState_InProgress\<rparr>,
                    rxData := ConsumeHead (octetsRead r) b # bs\<rparr> in
          (case New alloc i kMaxSize kDefaultHeaderReserve of
             None \<Rightarrow> Inl (Exit (Some CHIP_ERROR_NO_MEMORY) (v\<lparr>rxEngine := (rxEngine v)\<lparr>mRxBuf := []\<rparr>\<rparr>))
           | Some p \<Rightarrow> rxAppend (v\<lparr>rxEngine := (rxEngine v)\<lparr>mRxBuf := [p]\<rparr>\<rparr>))))"

definition rxContinue :: "u8 \<Rightarrow> rxVars \<Rightarrow> rxExit + rxVars" where
  "rxContinue rx_flags v =
     (if Has rx_flags kStartMessage then Inl (Exit (Some BLE_ERROR_INVALID_BTP_HEADER_FLAGS) v)
      else if \<not> Has rx_flags (kContinueMessage OR kEndMessage) then Inl (Exit (Some BLE_ERROR_INVALID_BTP_HEADER_FLAGS) v)
      else rxAppend v)"

definition rxEnd :: "u8 \<Rightarrow> rxVars \<Rightarrow> rxExit + rxVars" where
  "rxEnd rx_flags v =
     (if \<not> Has rx_flags kEndMessage then Inr v
      else (case mRxBuf (rxEngine v) of
              [] \<Rightarrow> Inl Died
            | b # bs \<Rightarrow>
                let b = (if len b > mRxLength (rxEngine v) then SetDataLength (mRxLength (rxEngine v)) b else b);
                    v = v\<lparr>rxEngine := (rxEngine v)\<lparr>mRxBuf := b # bs\<rparr>\<rparr> in
                if len b \<noteq> mRxLength (rxEngine v) then Inl (Exit (Some BLE_ERROR_REASSEMBLER_MISSING_DATA) v)
                else Inr (v\<lparr>rxEngine := (rxEngine v)\<lparr>mRxState := kState_Complete,
                                                       mRxPacketCount := mRxPacketCount (rxEngine v) + 1\<rparr>\<rparr>)))"

text \<open>The code at \<open>exit\<close>.\<close>

definition rxFinish :: "rxExit \<Rightarrow> (chip_error option \<times> rxVars) option" where
  "rxFinish x =
     (case x of
        Died \<Rightarrow> None
      | Exit None v \<Rightarrow> Some (None, v)
      | Exit (Some err) v \<Rightarrow>
          let v = v\<lparr>rxEngine := (rxEngine v)\<lparr>mRxState := kState_Error\<rparr>\<rparr> in
          if rxData v = [] then Some (Some err, v)
          else if mRxBuf (rxEngine v) = [] then Some (Some err, v\<lparr>rxEngine := (rxEngine v)\<lparr>mRxBuf := rxData v\<rparr>, rxData := []\<rparr>)
          else map_option (\<lambda>c. (Some err, v\<lparr>rxEngine := (rxEngine v)\<lparr>mRxBuf := c\<rparr>, rxData := []\<rparr>))
                 (AddToEnd (mRxBuf (rxEngine v)) (rxData v)))"

definition HandleCharacteristicReceived ::
  "(nat \<Rightarrow> nat \<Rightarrow> bytes option) \<Rightarrow> nat \<Rightarrow> rxVars \<Rightarrow> (chip_error option \<times> rxVars) option" where
  "HandleCharacteristicReceived alloc i v =
     (case rbind (rxHeader v) (\<lambda>(rx_flags, v).
           rbind (case mRxState (rxEngine v) of
                    kState_Idle \<Rightarrow> rxStart alloc i rx_flags v
                  | kState_InProgress \<Rightarrow> rxContinue rx_flags v
                  | _ \<Rightarrow> Inl (Exit (Some BLE_ERROR_REASSEMBLER_INCORRECT_STATE) v)) (rxEnd rx_flags))
      of Inl x \<Rightarrow> rxFinish x | Inr v \<Rightarrow> rxFinish (Exit None v))"

definition TakeRxPacket :: "engine \<Rightarrow> pbuf list \<times> engine" where
  "TakeRxPacket e =
     (mRxBuf e, (if mRxState e = kState_Complete then e\<lparr>mRxState := kState_Idle\<rparr> else e)\<lparr>mRxBuf := []\<rparr>)"

section \<open>Sending a fragment\<close>

text \<open>
  The common tail of the two branches: the header at \<open>characteristic\<close>, the length of the fragment, the
  state.  \<open>lenBytes\<close> is the message length of a first fragment.
\<close>

definition txFragment :: "int \<Rightarrow> u8 \<Rightarrow> bytes \<Rightarrow> bool \<Rightarrow> pbuf \<Rightarrow> pbuf list \<Rightarrow> engine \<Rightarrow> (bool \<times> engine) option" where
  "txFragment characteristic flag lenBytes send_ack b bs e =
     (let (ackBytes, e) = (if send_ack then (let (a, e) = GetAndRecordRxAckSeqNum e in ([a], e)) else ([], e));
          (seq, e) = GetAndIncrementNextTxSeqNum e;
          header = ackBytes @ [seq] @ lenBytes;
          cursor = 1 + length header;
          last = mTxLength e + cursor \<le> mTxFragmentSize e;
          flags = flag OR (if send_ack then kFragmentAck else 0) OR (if last then kEndMessage else 0)
      in (case pokeBytes characteristic (flags # header) b of
            None \<Rightarrow> None
          | Some b \<Rightarrow>
              if last
              then Some (True, e\<lparr>mTxBuf := SetDataLength (cast16 (int (mTxLength e + cursor))) b # bs, mTxLength := 0,
                                 mTxState := kState_Complete, mTxPacketCount := mTxPacketCount e + 1\<rparr>)
              else Some (True, e\<lparr>mTxBuf := SetDataLength (mTxFragmentSize e) b # bs,
                                 mTxLength := cast16 (int (mTxLength e + cursor) - int (mTxFragmentSize e))\<rparr>)))"

definition txStart :: "pbuf list \<Rightarrow> bool \<Rightarrow> engine \<Rightarrow> (bool \<times> engine) option" where
  "txStart data send_ack e =
     (case data of
        [] \<Rightarrow> Some (False, e)
      | b # bs \<Rightarrow>
          let e = e\<lparr>mTxBuf := data, mTxState := kState_InProgress, mTxLength := len b\<rparr>;
              header_size = (if send_ack then kTransferProtocolMaxHeaderSize else kTransferProtocolMaxHeaderSize - kTransferProtocolAckSize) in
          (case EnsureReservedSize (header_size + CHIP_CONFIG_BLE_PKT_RESERVED_SIZE) b of
             (False, b) \<Rightarrow> Some (False, e\<lparr>mTxState := kState_Error, mTxBuf := []\<rparr>)
           | (True, b) \<Rightarrow>
               let characteristic = int (payload b) - int header_size in
               txFragment characteristic kStartMessage (le_bytes 2 (of_nat (mTxLength e) :: u16)) send_ack
                 (SetStart characteristic b) bs e))"

definition txContinue :: "pbuf list \<Rightarrow> bool \<Rightarrow> engine \<Rightarrow> (bool \<times> engine) option" where
  "txContinue data send_ack e =
     (if data \<noteq> [] then Some (False, e)
      else (case mTxBuf e of
              [] \<Rightarrow> None
            | b # bs \<Rightarrow>
                let characteristic = int (payload b) + int (mTxFragmentSize e) -
                      int (if send_ack then kTransferProtocolMidFragmentMaxHeaderSize
                           else kTransferProtocolMidFragmentMaxHeaderSize - kTransferProtocolAckSize)
                in txFragment characteristic kContinueMessage [] send_ack (SetStart characteristic b) bs e))"

definition HandleCharacteristicSend :: "pbuf list \<Rightarrow> bool \<Rightarrow> engine \<Rightarrow> (bool \<times> engine) option" where
  "HandleCharacteristicSend data send_ack e =
     (let e = e\<lparr>mTxCharCount := mTxCharCount e + 1\<rparr> in
      if send_ack \<and> \<not> HasUnackedData e then Some (False, e)
      else (case mTxState e of
              kState_Idle \<Rightarrow> txStart data send_ack e
            | kState_InProgress \<Rightarrow> txContinue data send_ack e
            | _ \<Rightarrow> Some (False, e)))"

definition TakeTxPacket :: "engine \<Rightarrow> pbuf list \<times> engine" where
  "TakeTxPacket e =
     (mTxBuf e, (if mTxState e = kState_Complete then e\<lparr>mTxState := kState_Idle\<rparr> else e)\<lparr>mTxBuf := []\<rparr>)"

section \<open>The acknowledgement window\<close>

text \<open>The sequence numbers that are sent and not acknowledged, oldest first.\<close>

definition seqs :: "u8 \<Rightarrow> nat \<Rightarrow> u8 list" where
  "seqs s n = map (\<lambda>i. s + of_nat i) [0..<n]"

definition outstanding :: "engine \<Rightarrow> u8 list" where
  "outstanding e =
     (if mExpectingAck e
      then seqs (mTxOldestUnackedSeqNum e) (Suc (unat (mTxNewestUnackedSeqNum e - mTxOldestUnackedSeqNum e))) else [])"

definition txSeqOk :: "engine \<Rightarrow> bool" where
  "txSeqOk e \<longleftrightarrow> (mExpectingAck e \<longrightarrow> mTxNextSeqNum e = mTxNewestUnackedSeqNum e + 1)"

lemma u8_lt_256: "unat (x :: u8) < 256"
  using unsigned_less [of x] by simp

lemma unat_u8_of_nat [simp]: "n < 256 \<Longrightarrow> unat (of_nat n :: u8) = n"
  by (simp add: unat_of_nat)

text \<open>The interval test of the code, with and without a wrap, is a distance test.\<close>

lemma IsValidAck_distance:
  "IsValidAck a e \<longleftrightarrow>
     mExpectingAck e \<and> a - mTxOldestUnackedSeqNum e \<le> mTxNewestUnackedSeqNum e - mTxOldestUnackedSeqNum e"
  using u8_lt_256 [of a] u8_lt_256 [of "mTxOldestUnackedSeqNum e"] u8_lt_256 [of "mTxNewestUnackedSeqNum e"]
  by (auto simp: IsValidAck_def word_le_nat_alt unat_sub_if_size word_size)

lemma seqs_simps [simp]: "seqs s 0 = []" "length (seqs s n) = n" "seqs s (Suc n) = seqs s n @ [s + of_nat n]"
  by (simp_all add: seqs_def)

lemma seqs_add: "seqs s (m + n) = seqs s m @ seqs (s + of_nat m) n"
  by (induction n) (simp_all add: add_ac)

lemma seqs_Cons: "seqs s (Suc n) = s # seqs (s + 1) n"
  using seqs_add [of s 1 n] by (simp add: seqs_def)

lemma mem_seqs:
  assumes "n \<le> 256"
  shows "a \<in> set (seqs s n) \<longleftrightarrow> unat (a - s) < n"
proof
  assume "a \<in> set (seqs s n)"
  then obtain i where "a = s + of_nat i" "i < n" by (auto simp: seqs_def)
  then show "unat (a - s) < n" using assms by simp
next
  assume "unat (a - s) < n"
  moreover have "a = s + of_nat (unat (a - s))" by simp
  ultimately show "a \<in> set (seqs s n)" unfolding seqs_def by force
qed

lemma set_outstanding: "a \<in> set (outstanding e) \<longleftrightarrow> IsValidAck a e"
  using u8_lt_256 [of "mTxNewestUnackedSeqNum e - mTxOldestUnackedSeqNum e"]
  by (auto simp: IsValidAck_distance outstanding_def mem_seqs word_le_nat_alt simp del: seqs_simps)

lemma seqs_dropWhile:
  assumes "k < n" "n \<le> 256"
  shows "tl (dropWhile (\<lambda>x. x \<noteq> s + of_nat k) (seqs s n)) = seqs (s + of_nat k + 1) (n - Suc k)"
proof -
  have "seqs s n = seqs s k @ (s + of_nat k) # seqs (s + of_nat k + 1) (n - Suc k)"
    using seqs_add [of s k "Suc (n - Suc k)"] assms by (simp add: seqs_Cons del: seqs_simps)
  moreover have "s + of_nat k \<notin> set (seqs s k)" using assms by (simp add: mem_seqs)
  then have "dropWhile (\<lambda>x. x \<noteq> s + of_nat k) (seqs s k) = []" by (metis (mono_tags, lifting) dropWhile_eq_Nil_conv)
  ultimately show ?thesis by simp
qed

lemma GetAndIncrementNextTxSeqNum_window:
  assumes "txSeqOk e" "length (outstanding e) < 256"
  shows "outstanding (snd (GetAndIncrementNextTxSeqNum e)) = outstanding e @ [mTxNextSeqNum e]"
    "txSeqOk (snd (GetAndIncrementNextTxSeqNum e))"
proof -
  show "txSeqOk (snd (GetAndIncrementNextTxSeqNum e))"
    by (simp add: txSeqOk_def GetAndIncrementNextTxSeqNum_def Let_def IncSeqNum_def)
  let ?d = "mTxNewestUnackedSeqNum e - mTxOldestUnackedSeqNum e"
  show "outstanding (snd (GetAndIncrementNextTxSeqNum e)) = outstanding e @ [mTxNextSeqNum e]"
  proof (cases "mExpectingAck e")
    case True
    then have n: "mTxNextSeqNum e - mTxOldestUnackedSeqNum e = of_nat (Suc (unat ?d))" and lt: "Suc (unat ?d) < 256"
      using assms by (simp_all add: txSeqOk_def outstanding_def algebra_simps)
    then have "unat (mTxNextSeqNum e - mTxOldestUnackedSeqNum e) = Suc (unat ?d)" by (simp only: unat_u8_of_nat)
    moreover have "mTxOldestUnackedSeqNum e + of_nat (Suc (unat ?d)) = mTxNextSeqNum e" unfolding n [symmetric] by simp
    ultimately show ?thesis using True by (simp add: outstanding_def GetAndIncrementNextTxSeqNum_def Let_def)
  qed (simp add: outstanding_def GetAndIncrementNextTxSeqNum_def Let_def)
qed

lemma HandleAckReceived_window:
  assumes "txSeqOk e" "HandleAckReceived a e = Inr e'"
  shows "outstanding e' = tl (dropWhile (\<lambda>s. s \<noteq> a) (outstanding e))" "txSeqOk e'"
proof -
  let ?o = "mTxOldestUnackedSeqNum e" and ?n = "mTxNewestUnackedSeqNum e"
  have v: "mExpectingAck e" "unat (a - ?o) \<le> unat (?n - ?o)"
    using assms(2) by (auto simp: HandleAckReceived_def IsValidAck_distance word_le_nat_alt split: if_splits)
  have w: "tl (dropWhile (\<lambda>s. s \<noteq> a) (outstanding e)) = seqs (a + 1) (unat (?n - ?o) - unat (a - ?o))"
    using seqs_dropWhile [of "unat (a - ?o)" "Suc (unat (?n - ?o))" ?o] v u8_lt_256 [of "?n - ?o"]
    by (simp add: outstanding_def del: seqs_simps)
  show "txSeqOk e'" using assms by (auto simp: HandleAckReceived_def txSeqOk_def split: if_splits)
  show "outstanding e' = tl (dropWhile (\<lambda>s. s \<noteq> a) (outstanding e))"
  proof (cases "a = ?n")
    case True
    then show ?thesis using assms(2) w by (auto simp: HandleAckReceived_def outstanding_def split: if_splits)
  next
    case False
    then have ne: "unat (a - ?o) \<noteq> unat (?n - ?o)" by (metis diff_add_cancel word_unat_eq_iff)
    have "?n - (a + 1) = of_nat (unat (?n - ?o) - unat (a - ?o) - 1)" using v ne by (simp add: of_nat_diff)
    moreover have "unat (?n - ?o) - unat (a - ?o) - 1 < 256" using u8_lt_256 [of "?n - ?o"] by simp
    ultimately have "unat (?n - (a + 1)) = unat (?n - ?o) - unat (a - ?o) - 1" by (simp only: unat_u8_of_nat)
    then have "Suc (unat (?n - (a + 1))) = unat (?n - ?o) - unat (a - ?o)" using v ne by simp
    then show ?thesis
      using assms(2) False v w by (auto simp: HandleAckReceived_def outstanding_def IncSeqNum_def split: if_splits simp del: seqs_simps)
  qed
qed

section \<open>Fragments\<close>

text \<open>The content of a fragment, and its bytes.\<close>

record frag =
  fStart :: bool
  fContinue :: bool
  fEnd :: bool
  fAck :: "u8 option"
  fSeq :: u8
  fTotal :: nat
  fBody :: bytes

definition fragFlags :: "frag \<Rightarrow> u8" where
  "fragFlags f =
     (if fStart f then kStartMessage else 0) OR (if fContinue f then kContinueMessage else 0) OR
     (if fAck f \<noteq> None then kFragmentAck else 0) OR (if fEnd f then kEndMessage else 0)"

definition fragHeader :: "frag \<Rightarrow> bytes" where
  "fragHeader f = fragFlags f # (case fAck f of None \<Rightarrow> [] | Some a \<Rightarrow> [a]) @ [fSeq f]"

definition fragPayload :: "frag \<Rightarrow> bytes" where
  "fragPayload f = (if fStart f then le_bytes 2 (of_nat (fTotal f) :: u16) else []) @ fBody f"

definition fragBytes :: "frag \<Rightarrow> bytes" where
  "fragBytes f = fragHeader f @ fragPayload f"

definition hasData :: "frag \<Rightarrow> bool" where
  "hasData f \<longleftrightarrow> fStart f \<or> fContinue f \<or> fEnd f"

lemmas flag_defs = kStartMessage_def kContinueMessage_def kEndMessage_def kFragmentAck_def

lemma fragFlags_simps [simp]:
  "Has (fragFlags f) kStartMessage = fStart f"
  "Has (fragFlags f) kEndMessage = fEnd f"
  "Has (fragFlags f) kFragmentAck \<longleftrightarrow> fAck f \<noteq> None"
  "Has (fragFlags f) (kContinueMessage OR kEndMessage) \<longleftrightarrow> fContinue f \<or> fEnd f"
  "DidReceiveData (fragFlags f) = hasData f"
  by (cases "fStart f"; cases "fContinue f"; cases "fEnd f"; cases "fAck f";
      simp add: fragFlags_def Has_def DidReceiveData_def hasData_def flag_defs)+

lemma Read8_Cons [simp]: "Read8 \<lparr>octetsRead = k, avail = x # xs\<rparr> = Inr (x, \<lparr>octetsRead = Suc k, avail = xs\<rparr>)"
  by (simp add: Read8_def readWord_def)

section \<open>What reception does with a fragment\<close>

text \<open>The engine after the acknowledgement and the sequence number of an accepted fragment.\<close>

definition rxSeen :: "frag \<Rightarrow> engine \<Rightarrow> engine" where
  "rxSeen f e =
     (let e = e\<lparr>mRxCharCount := mRxCharCount e + 1\<rparr>;
          e = (case fAck f of None \<Rightarrow> e | Some a \<Rightarrow> (case HandleAckReceived a e of Inl _ \<Rightarrow> e | Inr e' \<Rightarrow> e'))
      in e\<lparr>mRxNewestUnackedSeqNum := fSeq f, mRxNextSeqNum := IncSeqNum (mRxNextSeqNum e)\<rparr>)"

definition acceptable :: "frag \<Rightarrow> engine \<Rightarrow> bool" where
  "acceptable f e \<longleftrightarrow> fSeq f = mRxNextSeqNum e \<and> pred_option (\<lambda>a. IsValidAck a e) (fAck f) \<and> length (fragBytes f) \<le> mRxFragmentSize e"

lemma HandleAckReceived_frame:
  "HandleAckReceived a e = Inr e' \<Longrightarrow>
     mRxNextSeqNum e' = mRxNextSeqNum e \<and> mRxFragmentSize e' = mRxFragmentSize e \<and> mRxState e' = mRxState e \<and>
     mRxLength e' = mRxLength e \<and> mRxBuf e' = mRxBuf e \<and> mRxOldestUnackedSeqNum e' = mRxOldestUnackedSeqNum e \<and>
     mTxState e' = mTxState e \<and> mTxLength e' = mTxLength e \<and> mTxBuf e' = mTxBuf e \<and> mTxNextSeqNum e' = mTxNextSeqNum e \<and>
     mTxNewestUnackedSeqNum e' = mTxNewestUnackedSeqNum e \<and> mTxFragmentSize e' = mTxFragmentSize e"
  by (auto simp: HandleAckReceived_def split: if_splits)

lemma IsValidAck_frame [simp]:
  "IsValidAck a (e\<lparr>mRxCharCount := n\<rparr>) = IsValidAck a e"
  by (simp add: IsValidAck_def)

lemma HandleAckReceived_accepts: "IsValidAck a e \<Longrightarrow> \<exists>e'. HandleAckReceived a e = Inr e'"
  by (simp add: HandleAckReceived_def)

lemma rxSeen_frame [simp]:
  "mRxState (rxSeen f e) = mRxState e" "mRxLength (rxSeen f e) = mRxLength e" "mRxBuf (rxSeen f e) = mRxBuf e"
  "mRxFragmentSize (rxSeen f e) = mRxFragmentSize e" "mRxNextSeqNum (rxSeen f e) = mRxNextSeqNum e + 1"
  "mRxNewestUnackedSeqNum (rxSeen f e) = fSeq f" "mRxOldestUnackedSeqNum (rxSeen f e) = mRxOldestUnackedSeqNum e"
  "mTxState (rxSeen f e) = mTxState e" "mTxLength (rxSeen f e) = mTxLength e" "mTxBuf (rxSeen f e) = mTxBuf e"
  "mTxNextSeqNum (rxSeen f e) = mTxNextSeqNum e" "mTxNewestUnackedSeqNum (rxSeen f e) = mTxNewestUnackedSeqNum e"
  "mTxFragmentSize (rxSeen f e) = mTxFragmentSize e"
  by (auto simp: rxSeen_def Let_def IncSeqNum_def dest!: HandleAckReceived_frame split: option.splits sum.splits)

lemma rxHeader_accepts:
  assumes b: "owned [b]" "bufData b = fragBytes f" and acc: "acceptable f e"
    and rd: "r = (case fAck f of None \<Rightarrow> r0 | Some a \<Rightarrow> a)" "d \<longleftrightarrow> fAck f \<noteq> None"
  shows "\<exists>b'. owned [b'] \<and> bufData b' = fragPayload f \<and>
    rxHeader \<lparr>rxEngine = e, rxData = [b], receivedAck = r0, didReceiveAck = d0\<rparr> =
      (if hasData f then Inr (fragFlags f, \<lparr>rxEngine = rxSeen f e, rxData = [b'], receivedAck = r, didReceiveAck = d\<rparr>)
       else Inl (Exit None \<lparr>rxEngine = rxSeen f e, rxData = [b], receivedAck = r, didReceiveAck = d\<rparr>))"
proof -
  define b' where "b' = ConsumeHead (length (fragHeader f)) b"
  have ok: "chainOk [b]" "ref b = 1" using b(1) by (auto simp: owned_def)
  have l: "len b = length (fragBytes f)" using b(2) ok by (metis chainOk_simps(2) length_bufData)
  have trunc: "SetDataLength (min (len b) (mRxFragmentSize e)) b = b"
    using acc l ok by (auto simp: acceptable_def SetDataLength_def Let_def bufOk_def MaxDataLength_def AllocSize_def ReservedSize_def min_def)
  have b': "owned [b']" "bufData b' = fragPayload f"
    using ConsumeHead_ok [OF ok(1), of "length (fragHeader f)"] ok(2) b(2)
    by (auto simp: owned_def fragBytes_def b'_def ConsumeHead_def Let_def)
  let ?e = "e\<lparr>mRxCharCount := mRxCharCount e + 1\<rparr>"
  show ?thesis
  proof (cases "fAck f")
    case None
    then show ?thesis using b b' acc trunc rd
      by (auto simp: rxHeader_def SuccessOrExit_def Reader_def fragBytes_def fragHeader_def rxAck_def acceptable_def rxSeen_def Let_def b'_def)
  next
    case (Some a)
    then obtain e' where e': "HandleAckReceived a ?e = Inr e'"
      using acc HandleAckReceived_accepts [of a ?e] by (auto simp: acceptable_def)
    have "mRxNextSeqNum e' = mRxNextSeqNum e" "mRxFragmentSize e' = mRxFragmentSize e" using HandleAckReceived_frame [OF e'] by auto
    then show ?thesis using b b' acc trunc Some e' rd
      by (auto simp: rxHeader_def SuccessOrExit_def Reader_def fragBytes_def fragHeader_def rxAck_def acceptable_def rxSeen_def Let_def b'_def)
  qed
qed

text \<open>The reassembler as a specification: between messages, or with the announced length and the bytes
  collected so far.\<close>

type_synonym rxAbs = "(nat \<times> bytes) option"

definition rcvEnd :: "frag \<Rightarrow> nat \<times> bytes \<Rightarrow> (rxAbs \<times> bytes option) option" where
  "rcvEnd f p =
     (case p of (n, acc) \<Rightarrow>
        if \<not> fEnd f then Some (Some (n, acc), None)
        else if n \<le> length acc then Some (None, Some (take n acc)) else None)"

definition rcv :: "rxAbs \<Rightarrow> frag \<Rightarrow> (rxAbs \<times> bytes option) option" where
  "rcv st f =
     (if \<not> hasData f then Some (st, None)
      else (case st of
              None \<Rightarrow> if fStart f \<and> length (fBody f) \<le> kMaxSizeWithoutReserve then rcvEnd f (fTotal f, fBody f) else None
            | Some (n, acc) \<Rightarrow>
                if \<not> fStart f \<and> length acc < kMaxSizeWithoutReserve \<and> length acc + length (fBody f) \<le> kMaxSizeWithoutReserve
                then rcvEnd f (n, acc @ fBody f) else None))"

definition rxRep :: "rxAbs \<Rightarrow> engine \<Rightarrow> bool" where
  "rxRep st e \<longleftrightarrow>
     (case st of
        None \<Rightarrow> mRxState e = kState_Idle
      | Some (n, acc) \<Rightarrow> mRxState e = kState_InProgress \<and> mRxLength e = n \<and> owned (mRxBuf e) \<and> chainData (mRxBuf e) = acc \<and>
          AllocSize (hd (mRxBuf e)) = kMaxSizeWithoutReserve)"

definition memoryFor :: "(nat \<Rightarrow> nat \<Rightarrow> bytes option) \<Rightarrow> nat \<Rightarrow> bool" where
  "memoryFor alloc i \<longleftrightarrow>
     (case alloc i kMaxSizeWithoutReserve of None \<Rightarrow> False | Some m \<Rightarrow> length m = kMaxSizeWithoutReserve)"

lemma New_reassembly:
  assumes "memoryFor alloc i"
  shows "\<exists>p. New alloc i kMaxSize kDefaultHeaderReserve = Some p \<and> owned [p] \<and> chainData [p] = [] \<and>
    AllocSize p = kMaxSizeWithoutReserve"
  using assms
  by (auto simp: memoryFor_def New_def Let_def kMaxSize_def kMaxSizeWithoutReserve_def kDefaultHeaderReserve_def owned_def bufOk_def
      bufData_def AllocSize_def split: option.splits)

lemma rxAppend_ok:
  assumes "owned (mRxBuf (rxEngine v))" "owned (rxData v)"
    "length (chainData (mRxBuf (rxEngine v))) < AllocSize (hd (mRxBuf (rxEngine v)))"
    "length (chainData (mRxBuf (rxEngine v))) + length (chainData (rxData v)) \<le> AllocSize (hd (mRxBuf (rxEngine v)))"
  shows "\<exists>c. rxAppend v = Inr (v\<lparr>rxEngine := (rxEngine v)\<lparr>mRxBuf := c\<rparr>, rxData := []\<rparr>) \<and> owned c \<and>
    chainData c = chainData (mRxBuf (rxEngine v)) @ chainData (rxData v) \<and> AllocSize (hd c) = AllocSize (hd (mRxBuf (rxEngine v)))"
proof -
  obtain c where c: "appendCompact (mRxBuf (rxEngine v)) (rxData v) = Some c" "owned c"
      "chainData c = chainData (mRxBuf (rxEngine v)) @ chainData (rxData v)" "AllocSize (hd c) = AllocSize (hd (mRxBuf (rxEngine v)))"
    by (rule buffers.append_E [OF assms(1) _ assms(3,4)]) (use assms(2) in auto)
  then show ?thesis by (auto simp: rxAppend_def Let_def owned_def)
qed

lemma rxEnd_ok:
  assumes v: "owned (mRxBuf (rxEngine v))" "rcvEnd f (mRxLength (rxEngine v), chainData (mRxBuf (rxEngine v))) = Some (st, out)"
    and st: "mRxState (rxEngine v) = kState_InProgress" "AllocSize (hd (mRxBuf (rxEngine v))) = kMaxSizeWithoutReserve"
  shows "\<exists>s c n. rxEnd (fragFlags f) v = Inr (v\<lparr>rxEngine := (rxEngine v)\<lparr>mRxState := s, mRxBuf := c, mRxPacketCount := n\<rparr>\<rparr>) \<and>
    (case out of None \<Rightarrow> rxRep st ((rxEngine v)\<lparr>mRxState := s, mRxBuf := c, mRxPacketCount := n\<rparr>)
     | Some m \<Rightarrow> s = kState_Complete \<and> owned c \<and> chainData c = m \<and> st = None)"
proof -
  obtain b where b: "mRxBuf (rxEngine v) = [b]" "chainOk [b]" "ref b = 1" using v(1) by (auto simp: owned_def)
  let ?n = "mRxLength (rxEngine v)"
  have l: "length (bufData b) = len b" using b(2) by simp
  show ?thesis
  proof (cases "fEnd f")
    case False
    then have "st = Some (?n, bufData b)" "out = None" using v(2) b by (auto simp: rcvEnd_def)
    then show ?thesis using False b v(1) st
      by (auto simp: rxEnd_def rxRep_def intro!: exI [of _ "mRxState (rxEngine v)"] exI [of _ "mRxBuf (rxEngine v)"] exI [of _ "mRxPacketCount (rxEngine v)"])
  next
    case True
    then have le: "?n \<le> len b" and out: "st = None" "out = Some (take ?n (bufData b))"
      using v(2) b l by (auto simp: rcvEnd_def split: if_splits)
    define b' where "b' = (if len b > ?n then SetDataLength ?n b else b)"
    have "?n \<le> MaxDataLength b" using le b(2) by (auto simp: bufOk_def MaxDataLength_def AllocSize_def ReservedSize_def)
    then have b': "bufData b' = take ?n (bufData b)" "chainOk [b']" "len b' = ?n" "ref b' = 1"
      using SetDataLength_ok [OF b(2), of ?n] b le
      by (auto simp: b'_def bufData_def [of b] SetDataLength_def Let_def min_def)
    have "rxEnd (fragFlags f) v =
        Inr (v\<lparr>rxEngine := (rxEngine v)\<lparr>mRxState := kState_Complete, mRxBuf := [b'], mRxPacketCount := mRxPacketCount (rxEngine v) + 1\<rparr>\<rparr>)"
      using True b b'(3) by (simp add: rxEnd_def Let_def b'_def [symmetric])
    then show ?thesis using out b' by (auto simp: owned_def)
  qed
qed

lemma rxStart_ok:
  assumes v: "rxData v = [b]" "owned [b]" "bufData b = fragPayload f" and f: "fStart f" "fTotal f < 65536"
    and mem: "memoryFor alloc i" and room: "length (fBody f) \<le> kMaxSizeWithoutReserve"
  shows "\<exists>c. rxStart alloc i (fragFlags f) v =
      Inr (v\<lparr>rxEngine := (rxEngine v)\<lparr>mRxState := kState_InProgress, mRxLength := fTotal f, mRxBuf := c\<rparr>, rxData := []\<rparr>) \<and>
    owned c \<and> chainData c = fBody f \<and> AllocSize (hd c) = kMaxSizeWithoutReserve"
proof -
  obtain p where p: "New alloc i kMaxSize kDefaultHeaderReserve = Some p" "owned [p]" "chainData [p] = []"
      "AllocSize p = kMaxSizeWithoutReserve"
    using New_reassembly [OF mem] by auto
  define b' where "b' = ConsumeHead 2 b"
  have ok: "chainOk [b]" "ref b = 1" using v(2) by (auto simp: owned_def)
  then have b': "owned [b']" "chainData [b'] = fBody f"
    using ConsumeHead_ok [OF ok(1), of 2] v(3) f(1) by (auto simp: b'_def owned_def fragPayload_def ConsumeHead_def Let_def)
  have rd: "Read16 (Reader (bufData b)) = Inr (of_nat (fTotal f), \<lparr>octetsRead = 2, avail = fBody f\<rparr>)"
    using v(3) f(1) Read_le_bytes(2) [of 0 "of_nat (fTotal f)" "fBody f"] by (simp add: Reader_def fragPayload_def)
  have n: "unat (of_nat (fTotal f) :: u16) = fTotal f" using f(2) by (simp add: unat_of_nat)
  let ?v = "v\<lparr>rxEngine := (rxEngine v)\<lparr>mRxState := kState_InProgress, mRxLength := fTotal f, mRxBuf := [p]\<rparr>, rxData := [b']\<rparr>"
  have st: "rxStart alloc i (fragFlags f) v = rxAppend ?v"
    using v(1) f(1) rd n p(1)
    by (cases v; cases "rxEngine v") (simp add: rxStart_def SuccessOrExit_def Let_def b'_def)
  have "0 < kMaxSizeWithoutReserve" by (simp add: kMaxSizeWithoutReserve_def)
  then show ?thesis using rxAppend_ok [of ?v] st p b' room by auto
qed

lemma receive_refines:
  assumes b: "owned [b]" "bufData b = fragBytes f" and acc: "acceptable f e" "fTotal f < 65536"
    and rep: "rxRep st e" "rcv st f = Some (st', out)" and mem: "memoryFor alloc i"
  shows "\<exists>v s n c k. HandleCharacteristicReceived alloc i \<lparr>rxEngine = e, rxData = [b], receivedAck = r0, didReceiveAck = d0\<rparr> = Some (None, v) \<and>
    rxEngine v = (rxSeen f e)\<lparr>mRxState := s, mRxLength := n, mRxBuf := c, mRxPacketCount := k\<rparr> \<and>
    (case out of None \<Rightarrow> rxRep st' (rxEngine v)
     | Some m \<Rightarrow> s = kState_Complete \<and> owned c \<and> chainData c = m \<and> st' = None)"
proof -
  define r d where rd: "r = (case fAck f of None \<Rightarrow> r0 | Some a \<Rightarrow> a)" "d = (fAck f \<noteq> None)"
  obtain b' where b': "owned [b']" "bufData b' = fragPayload f" and
    h: "rxHeader \<lparr>rxEngine = e, rxData = [b], receivedAck = r0, didReceiveAck = d0\<rparr> =
      (if hasData f then Inr (fragFlags f, \<lparr>rxEngine = rxSeen f e, rxData = [b'], receivedAck = r, didReceiveAck = d\<rparr>)
       else Inl (Exit None \<lparr>rxEngine = rxSeen f e, rxData = [b], receivedAck = r, didReceiveAck = d\<rparr>))"
    using rxHeader_accepts [OF b acc(1) rd] by blast
  show ?thesis
  proof (cases "hasData f")
    case False
    then have "st' = st" "out = None" using rep(2) by (auto simp: rcv_def)
    then show ?thesis using False h rep(1)
      by (auto simp: HandleCharacteristicReceived_def rxFinish_def rxRep_def split: option.splits
          intro!: exI [of _ "mRxState e"] exI [of _ "mRxLength e"] exI [of _ "mRxBuf e"] exI [of _ "mRxPacketCount (rxSeen f e)"])
  next
    case True
    let ?v = "\<lparr>rxEngine = rxSeen f e, rxData = [b'], receivedAck = r, didReceiveAck = d\<rparr>"
    have "\<exists>n c. (case mRxState e of kState_Idle \<Rightarrow> rxStart alloc i (fragFlags f) ?v | kState_InProgress \<Rightarrow> rxContinue (fragFlags f) ?v
         | _ \<Rightarrow> Inl (Exit (Some BLE_ERROR_REASSEMBLER_INCORRECT_STATE) ?v)) =
        Inr (?v\<lparr>rxEngine := (rxSeen f e)\<lparr>mRxState := kState_InProgress, mRxLength := n, mRxBuf := c\<rparr>, rxData := []\<rparr>) \<and>
      owned c \<and> AllocSize (hd c) = kMaxSizeWithoutReserve \<and> rcvEnd f (n, chainData c) = Some (st', out)"
    proof (cases st)
      case None
      then have s: "mRxState e = kState_Idle" "fStart f" "length (fBody f) \<le> kMaxSizeWithoutReserve"
          "rcvEnd f (fTotal f, fBody f) = Some (st', out)"
        using rep True by (auto simp: rxRep_def rcv_def split: if_splits)
      show ?thesis using rxStart_ok [of ?v b' f alloc i] b' s acc(2) mem by (auto intro!: exI [of _ "fTotal f"])
    next
      case (Some p)
      obtain n a where p: "p = (n, a)" by (cases p)
      have s: "mRxState e = kState_InProgress" "mRxLength e = n" "owned (mRxBuf e)" "chainData (mRxBuf e) = a"
          "AllocSize (hd (mRxBuf e)) = kMaxSizeWithoutReserve" "\<not> fStart f" "length a < kMaxSizeWithoutReserve"
          "length a + length (fBody f) \<le> kMaxSizeWithoutReserve" "rcvEnd f (n, a @ fBody f) = Some (st', out)"
        using rep True by (auto simp: Some p rxRep_def rcv_def split: if_splits)
      have body: "chainData [b'] = fBody f" using b'(2) s(6) by (simp add: fragPayload_def)
      have fl: "fContinue f \<or> fEnd f" using True s(6) by (auto simp: hasData_def)
      obtain c where "rxAppend ?v = Inr (?v\<lparr>rxEngine := (rxSeen f e)\<lparr>mRxBuf := c\<rparr>, rxData := []\<rparr>)" "owned c"
          "chainData c = a @ fBody f" "AllocSize (hd c) = kMaxSizeWithoutReserve"
        using rxAppend_ok [of ?v] s b'(1) body by auto
      moreover have "(rxSeen f e)\<lparr>mRxBuf := c\<rparr> = (rxSeen f e)\<lparr>mRxState := kState_InProgress, mRxLength := n, mRxBuf := c\<rparr>"
        using s(1,2) by (intro engine.equality) simp_all
      ultimately show ?thesis using s fl by (auto simp: rxContinue_def intro!: exI [of _ "mRxLength e"])
    qed
    then obtain n c where m: "(case mRxState e of kState_Idle \<Rightarrow> rxStart alloc i (fragFlags f) ?v | kState_InProgress \<Rightarrow> rxContinue (fragFlags f) ?v
         | _ \<Rightarrow> Inl (Exit (Some BLE_ERROR_REASSEMBLER_INCORRECT_STATE) ?v)) =
        Inr (?v\<lparr>rxEngine := (rxSeen f e)\<lparr>mRxState := kState_InProgress, mRxLength := n, mRxBuf := c\<rparr>, rxData := []\<rparr>)"
      "owned c" "AllocSize (hd c) = kMaxSizeWithoutReserve" "rcvEnd f (n, chainData c) = Some (st', out)" by blast
    let ?w = "?v\<lparr>rxEngine := (rxSeen f e)\<lparr>mRxState := kState_InProgress, mRxLength := n, mRxBuf := c\<rparr>, rxData := []\<rparr>"
    obtain s c' k where w: "rxEnd (fragFlags f) ?w = Inr (?w\<lparr>rxEngine := (rxEngine ?w)\<lparr>mRxState := s, mRxBuf := c', mRxPacketCount := k\<rparr>\<rparr>)"
        "case out of None \<Rightarrow> rxRep st' ((rxEngine ?w)\<lparr>mRxState := s, mRxBuf := c', mRxPacketCount := k\<rparr>)
         | Some m \<Rightarrow> s = kState_Complete \<and> owned c' \<and> chainData c' = m \<and> st' = None"
      using rxEnd_ok [of ?w f st' out] m by auto
    let ?e = "(rxSeen f e)\<lparr>mRxState := s, mRxLength := n, mRxBuf := c', mRxPacketCount := k\<rparr>"
    have eq: "(rxEngine ?w)\<lparr>mRxState := s, mRxBuf := c', mRxPacketCount := k\<rparr> = ?e" by (intro engine.equality) simp_all
    have "HandleCharacteristicReceived alloc i \<lparr>rxEngine = e, rxData = [b], receivedAck = r0, didReceiveAck = d0\<rparr> =
        Some (None, ?w\<lparr>rxEngine := ?e\<rparr>)"
      unfolding HandleCharacteristicReceived_def h using True m(1) w(1) unfolding eq by (simp add: rxFinish_def)
    moreover have "rxEngine (?w\<lparr>rxEngine := ?e\<rparr>) = ?e" by simp
    ultimately show ?thesis using w(2) unfolding eq by metis
  qed
qed

section \<open>What sending does with a message\<close>

text \<open>The sender is idle, or its buffer still holds the rest of the message after the last fragment.\<close>

definition txRep :: "bytes option \<Rightarrow> engine \<Rightarrow> bool" where
  "txRep t e \<longleftrightarrow>
     (case t of
        None \<Rightarrow> mTxState e = kState_Idle
      | Some rest \<Rightarrow> mTxState e = kState_InProgress \<and> mTxLength e = length rest \<and> rest \<noteq> [] \<and>
          (\<exists>b. mTxBuf e = [b] \<and> chainOk [b] \<and> len b = mTxFragmentSize e \<and>
             payload b + mTxFragmentSize e + length rest \<le> length (mem b) \<and>
             take (length rest) (drop (payload b + mTxFragmentSize e) (mem b)) = rest))"

definition txSeq :: "bool \<Rightarrow> engine \<Rightarrow> engine" where
  "txSeq send_ack e = snd (GetAndIncrementNextTxSeqNum (if send_ack then snd (GetAndRecordRxAckSeqNum e) else e))"

definition txAckOf :: "bool \<Rightarrow> engine \<Rightarrow> u8 option" where
  "txAckOf send_ack e = (if send_ack then Some (mRxNewestUnackedSeqNum e) else None)"

lemma txSeq_frame [simp]:
  "mTxState (txSeq a e) = mTxState e" "mTxLength (txSeq a e) = mTxLength e" "mTxFragmentSize (txSeq a e) = mTxFragmentSize e"
  "mTxNextSeqNum (txSeq a e) = mTxNextSeqNum e + 1" "mRxState (txSeq a e) = mRxState e" "mRxLength (txSeq a e) = mRxLength e"
  "mRxBuf (txSeq a e) = mRxBuf e" "mRxFragmentSize (txSeq a e) = mRxFragmentSize e" "mRxNextSeqNum (txSeq a e) = mRxNextSeqNum e"
  by (simp_all add: txSeq_def GetAndIncrementNextTxSeqNum_def GetAndRecordRxAckSeqNum_def Let_def IncSeqNum_def)

text \<open>The fragment the code sends when \<open>rest\<close> is still to be sent and the header takes \<open>cursor\<close> bytes.\<close>

definition nextFrag :: "bool \<Rightarrow> nat \<Rightarrow> bytes \<Rightarrow> nat \<Rightarrow> bool \<Rightarrow> engine \<Rightarrow> frag" where
  "nextFrag start msgLen rest cursor send_ack e =
     \<lparr>fStart = start, fContinue = \<not> start, fEnd = (length rest + cursor \<le> mTxFragmentSize e), fAck = txAckOf send_ack e,
      fSeq = mTxNextSeqNum e, fTotal = msgLen, fBody = take (mTxFragmentSize e - cursor) rest\<rparr>"

lemma seqNum_frame:
  "fst (GetAndIncrementNextTxSeqNum e) = mTxNextSeqNum e" "mTxLength (snd (GetAndIncrementNextTxSeqNum e)) = mTxLength e"
  "mTxFragmentSize (snd (GetAndIncrementNextTxSeqNum e)) = mTxFragmentSize e"
  "fst (GetAndRecordRxAckSeqNum e) = mRxNewestUnackedSeqNum e" "mTxNextSeqNum (snd (GetAndRecordRxAckSeqNum e)) = mTxNextSeqNum e"
  "mTxLength (snd (GetAndRecordRxAckSeqNum e)) = mTxLength e"
  "mTxFragmentSize (snd (GetAndRecordRxAckSeqNum e)) = mTxFragmentSize e"
  by (simp_all add: GetAndIncrementNextTxSeqNum_def GetAndRecordRxAckSeqNum_def Let_def)

lemma txFragment_header:
  "txFragment c flag lenBytes send_ack b bs e =
     (let header = (if send_ack then [mRxNewestUnackedSeqNum e] else []) @ [mTxNextSeqNum e] @ lenBytes;
          n = mTxLength e + Suc (length header); e' = txSeq send_ack e
      in (case pokeBytes c ((flag OR (if send_ack then kFragmentAck else 0) OR (if n \<le> mTxFragmentSize e then kEndMessage else 0)) # header) b of
            None \<Rightarrow> None
          | Some b \<Rightarrow>
              if n \<le> mTxFragmentSize e
              then Some (True, e'\<lparr>mTxBuf := SetDataLength (cast16 (int n)) b # bs, mTxLength := 0,
                                 mTxState := kState_Complete, mTxPacketCount := mTxPacketCount e' + 1\<rparr>)
              else Some (True, e'\<lparr>mTxBuf := SetDataLength (mTxFragmentSize e) b # bs,
                                 mTxLength := cast16 (int n - int (mTxFragmentSize e))\<rparr>)))"
  by (cases send_ack) (simp_all add: txFragment_def txSeq_def split_beta Let_def seqNum_frame split: option.split)

lemma memcpy_then:
  "off + length bs \<le> length m \<Longrightarrow> take (length bs + n) (drop off (memcpy off bs m)) = bs @ take n (drop (off + length bs) m)"
  by (simp add: memcpy_def)

lemma nextFrag_bytes:
  "fragBytes (nextFrag start msgLen rest cursor send_ack e) =
     ((if start then kStartMessage else kContinueMessage) OR (if send_ack then kFragmentAck else 0) OR
        (if length rest + cursor \<le> mTxFragmentSize e then kEndMessage else 0)) #
     (if send_ack then [mRxNewestUnackedSeqNum e] else []) @ [mTxNextSeqNum e] @
     (if start then le_bytes 2 (of_nat msgLen :: u16) else []) @ take (mTxFragmentSize e - cursor) rest"
  by (cases start; cases send_ack) (simp_all add: fragBytes_def fragHeader_def fragPayload_def fragFlags_def nextFrag_def txAckOf_def)

lemma txFragment_ok:
  fixes msgLen :: nat
  assumes b: "chainOk [b]" "payload b = c" and F: "cursor \<le> mTxFragmentSize e" "mTxFragmentSize e < 65536"
    and cur: "cursor = 2 + (if send_ack then 1 else 0) + (if start then 2 else 0)"
    and rest: "c + cursor + length rest \<le> length (mem b)" "take (length rest) (drop (c + cursor) (mem b)) = rest"
      "mTxLength e = length rest" and st: "mTxState e = kState_InProgress"
  defines "f \<equiv> nextFrag start msgLen rest cursor send_ack e"
  shows "\<exists>e' b' s n k. txFragment (int c) (if start then kStartMessage else kContinueMessage)
        (if start then le_bytes 2 (of_nat msgLen :: u16) else []) send_ack b [] e = Some (True, e') \<and>
    e' = (txSeq send_ack e)\<lparr>mTxBuf := [b'], mTxLength := n, mTxState := s, mTxPacketCount := k\<rparr> \<and>
    bufData b' = fragBytes f \<and>
    (if fEnd f then s = kState_Complete else txRep (Some (drop (mTxFragmentSize e - cursor) rest)) e')"
proof -
  define hdr where "hdr = (if send_ack then [mRxNewestUnackedSeqNum e] else []) @ [mTxNextSeqNum e] @
    (if start then le_bytes 2 (of_nat msgLen :: u16) else [])"
  define fl where "fl = ((if start then kStartMessage else kContinueMessage) OR (if send_ack then kFragmentAck else 0) OR
        (if length rest + cursor \<le> mTxFragmentSize e then kEndMessage else 0))"
  let ?F = "mTxFragmentSize e" and ?e = "txSeq send_ack e"
  have f: "fragBytes f = (fl # hdr) @ take (?F - cursor) rest" by (simp add: f_def nextFrag_bytes fl_def hdr_def)
  have l: "Suc (length hdr) = cursor" by (simp add: hdr_def cur)
  define b1 where "b1 = writeBytes c (fl # hdr) b"
  have poke: "pokeBytes (int c) (fl # hdr) b = Some b1" using rest l by (simp add: pokeBytes_def AllocSize_def b1_def)
  have b1: "chainOk [b1]" "payload b1 = c" "length (mem b1) = length (mem b)" "drop (c + cursor) (mem b1) = drop (c + cursor) (mem b)"
      "\<And>n. take (cursor + n) (drop c (mem b1)) = (fl # hdr) @ take n (drop (c + cursor) (mem b))"
    using b rest l memcpy_then [of c "fl # hdr" "mem b"] memcpy_after [of c "fl # hdr" "c + cursor" "mem b"]
    by (auto simp: b1_def writeBytes_def bufOk_def)
  have dl: "chainOk [SetDataLength m b1]" "bufData (SetDataLength m b1) = (fl # hdr) @ take (m - cursor) (drop (c + cursor) (mem b))"
      "len (SetDataLength m b1) = m" "payload (SetDataLength m b1) = c" "mem (SetDataLength m b1) = mem b1"
    if "cursor \<le> m" "m \<le> cursor + length rest" for m
  proof -
    have "m \<le> MaxDataLength b1" using rest that b1 by (simp add: MaxDataLength_def AllocSize_def ReservedSize_def)
    then show "chainOk [SetDataLength m b1]" "bufData (SetDataLength m b1) = (fl # hdr) @ take (m - cursor) (drop (c + cursor) (mem b))"
        "len (SetDataLength m b1) = m" "payload (SetDataLength m b1) = c" "mem (SetDataLength m b1) = mem b1"
      using SetDataLength_ok [OF b1(1), of m] b1(2) b1(5) [of "m - cursor"] that by (simp_all add: SetDataLength_def Let_def)
  qed
  have tx: "txFragment (int c) (if start then kStartMessage else kContinueMessage)
        (if start then le_bytes 2 (of_nat msgLen :: u16) else []) send_ack b [] e =
      (if length rest + cursor \<le> ?F
       then Some (True, ?e\<lparr>mTxBuf := [SetDataLength (cast16 (int (length rest + cursor))) b1], mTxLength := 0,
                           mTxState := kState_Complete, mTxPacketCount := mTxPacketCount ?e + 1\<rparr>)
       else Some (True, ?e\<lparr>mTxBuf := [SetDataLength ?F b1], mTxLength := cast16 (int (length rest + cursor) - int ?F)\<rparr>))"
    using poke l rest(3) unfolding txFragment_header hdr_def [symmetric] Let_def by (simp add: fl_def)
  show ?thesis
  proof (cases "length rest + cursor \<le> ?F")
    case True
    then have "cast16 (int (length rest + cursor)) = length rest + cursor" using F by (subst cast16_nat) auto
    then show ?thesis using True tx dl [of "length rest + cursor"] rest(2) f by (auto simp: f_def nextFrag_def)
  next
    case False
    let ?rest = "drop (?F - cursor) rest"
    have n: "cast16 (int (length rest + cursor) - int ?F) = length ?rest" "?rest \<noteq> []"
      using False F rest b(1) by (auto simp: bufOk_def)
    have tk: "take (?F - cursor) (drop (c + cursor) (mem b)) = take (?F - cursor) rest"
    proof -
      have "?F - cursor \<le> length rest" using False by simp
      then show ?thesis using arg_cong [OF rest(2), of "take (?F - cursor)"] by (simp add: min_absorb1)
    qed
    let ?b = "SetDataLength ?F b1"
    have d: "chainOk [?b]" "bufData ?b = fragBytes f" "len ?b = ?F" "payload ?b = c" "mem ?b = mem b1"
      using dl [of ?F] False F f tk by simp_all
    have "take (length ?rest) (drop (c + ?F) (mem b1)) = ?rest"
    proof -
      have "drop (c + ?F) (mem b1) = drop (?F - cursor) (drop (c + cursor) (mem b))"
        using F b1(4) [symmetric] by (simp add: add.commute add.left_commute)
      then show ?thesis using rest(2) by (metis drop_take length_drop)
    qed
    moreover define e' where "e' = ?e\<lparr>mTxBuf := [?b], mTxLength := length ?rest\<rparr>"
    ultimately have "txRep (Some ?rest) e'" using d n(2) st b1(3) rest(1) False F by (simp add: txRep_def)
    moreover have "e' = ?e\<lparr>mTxBuf := [?b], mTxLength := length ?rest, mTxState := mTxState ?e, mTxPacketCount := mTxPacketCount ?e\<rparr>"
      by (intro engine.equality) (simp_all add: e'_def)
    moreover have "\<not> fEnd f" using False by (simp add: f_def nextFrag_def)
    ultimately show ?thesis using tx False n(1) d(2) unfolding e'_def by (simp only: if_False) blast
  qed
qed

text \<open>The two operations on a message: the first fragment, and the following ones.\<close>

definition headerRoom :: "bool \<Rightarrow> nat" where
  "headerRoom send_ack = (if send_ack then kTransferProtocolMaxHeaderSize else kTransferProtocolMaxHeaderSize - kTransferProtocolAckSize)"

lemma SetStart_back:
  assumes "chainOk [b]" "k \<le> payload b"
  shows "SetStart (int (payload b) - int k) b = b\<lparr>len := len b + k, tot_len := tot_len b + k, payload := payload b - k\<rparr>"
  using assms by (auto simp: SetStart_def Let_def bufOk_def AllocSize_def min_def cast16_def nat_diff_distrib' of_nat_diff)

lemma SetStart_forward:
  assumes "chainOk [b]" "k \<le> len b"
  shows "SetStart (int (payload b) + int k) b = b\<lparr>len := len b - k, tot_len := tot_len b - k, payload := payload b + k\<rparr>"
  using assms by (auto simp: SetStart_def Let_def bufOk_def AllocSize_def min_def cast16_def nat_diff_distrib' of_nat_diff nat_int_add)

lemma send_first:
  assumes e: "mTxState e = kState_Idle" "send_ack \<longrightarrow> HasUnackedData e" "5 \<le> mTxFragmentSize e" "mTxFragmentSize e < 65536"
    and b: "chainOk [b]" "headerRoom send_ack + len b \<le> AllocSize b"
  defines "f \<equiv> nextFrag True (len b) (bufData b) (headerRoom send_ack) send_ack e"
  shows "\<exists>e' b' s n k. HandleCharacteristicSend [b] send_ack e = Some (True, e') \<and>
    e' = (txSeq send_ack (e\<lparr>mTxCharCount := mTxCharCount e + 1\<rparr>))\<lparr>mTxBuf := [b'], mTxLength := n, mTxState := s, mTxPacketCount := k\<rparr> \<and>
    bufData b' = fragBytes f \<and>
    (if fEnd f then s = kState_Complete else txRep (Some (drop (mTxFragmentSize e - headerRoom send_ack) (bufData b))) e')"
proof -
  let ?h = "headerRoom send_ack"
  have h: "?h = 2 + (if send_ack then 1 else 0) + 2" "?h \<le> 5"
    by (simp_all add: headerRoom_def kTransferProtocolMaxHeaderSize_def kTransferProtocolAckSize_def)
  obtain b1 where r: "EnsureReservedSize ?h b = (True, b1)" using EnsureReservedSize_fits [OF b(2)] by auto
  have ok: "bufOk b" using b(1) by simp
  note b1 = EnsureReservedSize_ok [OF ok r]
  have c1: "chainOk [b1]" using b1 b(1) by simp
  define b2 where "b2 = SetStart (int (payload b1) - int ?h) b1"
  have b2: "b2 = b1\<lparr>len := len b1 + ?h, tot_len := tot_len b1 + ?h, payload := payload b1 - ?h\<rparr>"
    unfolding b2_def by (rule SetStart_back [OF c1 b1(3)])
  have p2: "chainOk [b2]" "payload b2 = payload b1 - ?h" "mem b2 = mem b1"
    using c1 b1(3) by (auto simp: b2 bufOk_def)
  let ?e = "e\<lparr>mTxCharCount := mTxCharCount e + 1, mTxBuf := [b], mTxState := kState_InProgress, mTxLength := len b\<rparr>"
  have l: "length (bufData b) = len b" using ok by simp
  have m: "payload b1 - ?h + ?h + length (bufData b) \<le> length (mem b2)"
      "take (length (bufData b)) (drop (payload b1 - ?h + ?h) (mem b2)) = bufData b"
    using b1 l p2(3) by (auto simp: bufOk_def bufData_def [of b1])
  have nf: "nextFrag True (len b) (bufData b) ?h send_ack ?e = f" by (simp add: f_def nextFrag_def txAckOf_def)
  have ch: "int (payload b1) - int ?h = int (payload b1 - ?h)" using b1(3) by simp
  have snd: "HandleCharacteristicSend [b] send_ack e =
      txFragment (int (payload b1 - ?h)) kStartMessage (le_bytes 2 (of_nat (len b) :: u16)) send_ack b2 [] ?e"
    using e(1,2) r unfolding HandleCharacteristicSend_def txStart_def Let_def
    by (auto simp: HasUnackedData_def headerRoom_def [symmetric] CHIP_CONFIG_BLE_PKT_RESERVED_SIZE_def b2_def ch)
  have sq: "txSeq send_ack ?e = (txSeq send_ack (e\<lparr>mTxCharCount := mTxCharCount e + 1\<rparr>))\<lparr>mTxBuf := [b], mTxState := kState_InProgress, mTxLength := len b\<rparr>"
    by (auto simp: txSeq_def GetAndIncrementNextTxSeqNum_def GetAndRecordRxAckSeqNum_def Let_def)
  obtain e' b' s n k where t: "HandleCharacteristicSend [b] send_ack e = Some (True, e')"
      "e' = (txSeq send_ack ?e)\<lparr>mTxBuf := [b'], mTxLength := n, mTxState := s, mTxPacketCount := k\<rparr>"
      "bufData b' = fragBytes f"
      "if fEnd f then s = kState_Complete else txRep (Some (drop (mTxFragmentSize ?e - ?h) (bufData b))) e'"
    using txFragment_ok [of b2 "payload b1 - ?h" ?h ?e send_ack True "bufData b" "len b", unfolded nf] p2 e(3,4) h m l
    unfolding snd by auto
  have "e' = (txSeq send_ack (e\<lparr>mTxCharCount := mTxCharCount e + 1\<rparr>))\<lparr>mTxBuf := [b'], mTxLength := n, mTxState := s, mTxPacketCount := k\<rparr>"
    unfolding t(2) sq by (intro engine.equality) simp_all
  moreover have "mTxFragmentSize ?e = mTxFragmentSize e" by simp
  ultimately show ?thesis using t(1,3,4) by metis
qed

lemma send_next:
  assumes e: "txRep (Some rest) e" "send_ack \<longrightarrow> HasUnackedData e" "5 \<le> mTxFragmentSize e" "mTxFragmentSize e < 65536"
  defines "cursor \<equiv> (if send_ack then 3 else 2)"
  defines "f \<equiv> nextFrag False 0 rest cursor send_ack e"
  shows "\<exists>e' b' s n k. HandleCharacteristicSend [] send_ack e = Some (True, e') \<and>
    e' = (txSeq send_ack (e\<lparr>mTxCharCount := mTxCharCount e + 1\<rparr>))\<lparr>mTxBuf := [b'], mTxLength := n, mTxState := s, mTxPacketCount := k\<rparr> \<and>
    bufData b' = fragBytes f \<and>
    (if fEnd f then s = kState_Complete else txRep (Some (drop (mTxFragmentSize e - cursor) rest)) e')"
proof -
  let ?F = "mTxFragmentSize e"
  have st: "mTxState e = kState_InProgress" "mTxLength e = length rest" using e(1) by (auto simp: txRep_def)
  obtain b where b: "mTxBuf e = [b]" "chainOk [b]" "len b = ?F" "payload b + ?F + length rest \<le> length (mem b)"
      "take (length rest) (drop (payload b + ?F) (mem b)) = rest"
    using e(1) by (auto simp: txRep_def)
  have c: "cursor \<le> ?F" using e(3) by (simp add: cursor_def)
  define b2 where "b2 = SetStart (int (payload b) + int (?F - cursor)) b"
  have b2: "b2 = b\<lparr>len := len b - (?F - cursor), tot_len := tot_len b - (?F - cursor), payload := payload b + (?F - cursor)\<rparr>"
    unfolding b2_def using b(3) by (intro SetStart_forward [OF b(2)]) simp
  have p2: "chainOk [b2]" "payload b2 = payload b + (?F - cursor)" "mem b2 = mem b" using b(2,3) by (auto simp: b2 bufOk_def)
  have pc: "payload b + (?F - cursor) + cursor = payload b + ?F" using c by simp
  let ?e = "e\<lparr>mTxCharCount := mTxCharCount e + 1\<rparr>"
  have nf: "nextFrag False 0 rest cursor send_ack ?e = f" by (simp add: f_def nextFrag_def txAckOf_def)
  have ch: "int (payload b) + int ?F - int cursor = int (payload b + (?F - cursor))" using c by simp
  have cur: "(if send_ack then kTransferProtocolMidFragmentMaxHeaderSize
      else kTransferProtocolMidFragmentMaxHeaderSize - kTransferProtocolAckSize) = cursor"
    by (simp add: cursor_def kTransferProtocolMidFragmentMaxHeaderSize_def kTransferProtocolAckSize_def)
  have "\<not> (send_ack \<and> \<not> HasUnackedData ?e)" using e(2) by (simp add: HasUnackedData_def)
  then have "HandleCharacteristicSend [] send_ack e =
      txFragment (int (payload b) + int ?F - int cursor) kContinueMessage [] send_ack (SetStart (int (payload b) + int ?F - int cursor) b) [] ?e"
    unfolding HandleCharacteristicSend_def txContinue_def Let_def cur using st(1) b(1) by auto
  then have snd: "HandleCharacteristicSend [] send_ack e = txFragment (int (payload b + (?F - cursor))) kContinueMessage [] send_ack b2 [] ?e"
    unfolding ch b2_def of_nat_add .
  have cur': "cursor = 2 + (if send_ack then 1 else 0) + (if False then 2 else 0)" by (simp add: cursor_def)
  have m: "payload b + (?F - cursor) + cursor + length rest \<le> length (mem b2)"
      "take (length rest) (drop (payload b + (?F - cursor) + cursor) (mem b2)) = rest"
    unfolding pc p2(3) by (rule b(4), rule b(5))
  have "\<exists>e' b' s n k. txFragment (int (payload b + (?F - cursor))) (if False then kStartMessage else kContinueMessage)
        (if False then le_bytes 2 (of_nat 0 :: u16) else []) send_ack b2 [] ?e = Some (True, e') \<and>
      e' = (txSeq send_ack ?e)\<lparr>mTxBuf := [b'], mTxLength := n, mTxState := s, mTxPacketCount := k\<rparr> \<and>
      bufData b' = fragBytes (nextFrag False 0 rest cursor send_ack ?e) \<and>
      (if fEnd (nextFrag False 0 rest cursor send_ack ?e) then s = kState_Complete
       else txRep (Some (drop (mTxFragmentSize ?e - cursor) rest)) e')"
    by (rule txFragment_ok [OF p2(1,2) _ _ cur' m]) (use c e(4) st in simp_all)
  moreover have fs: "mTxFragmentSize ?e = ?F" by simp
  ultimately show ?thesis unfolding snd nf if_False fs by blast
qed

section \<open>Rejected input\<close>

lemma SuccessOrExit_eq [simp]:
  "SuccessOrExit v r = Inr x \<longleftrightarrow> r = Inr x" "SuccessOrExit v r = Inl y \<longleftrightarrow> (\<exists>e. r = Inl e \<and> y = Exit (Some e) v)"
  by (auto simp: SuccessOrExit_def split: sum.splits)

lemma rxAck_seq:
  "rxAck fl r v = Inr (r', v') \<Longrightarrow> mRxNextSeqNum (rxEngine v') = mRxNextSeqNum (rxEngine v)"
  "rxAck fl r v \<noteq> Inl (Exit None v')" "rxAck fl r v \<noteq> Inl Died"
  by (auto simp: rxAck_def Let_def rbind_eq_Inr rbind_eq_Inl split: if_splits dest!: HandleAckReceived_frame)

definition counted :: "engine \<Rightarrow> engine \<Rightarrow> bool" where
  "counted e e' \<longleftrightarrow> mRxNextSeqNum e' = mRxNextSeqNum e + 1 \<and> mRxNewestUnackedSeqNum e' = mRxNextSeqNum e"

lemma rxHeader_counted:
  "rxHeader v = Inr (fl, v') \<Longrightarrow> counted (rxEngine v) (rxEngine v')"
  "rxHeader v = Inl (Exit None v') \<Longrightarrow> counted (rxEngine v) (rxEngine v')"
  by (auto simp: rxHeader_def Let_def rbind_eq_Inr rbind_eq_Inl counted_def IncSeqNum_def rxAck_seq split: list.splits if_splits
      dest!: rxAck_seq(1))

text \<open>The reassembler itself leaves the sequence numbers alone, and never exits without an error.\<close>

lemma rxAppend_counted:
  "rxAppend v = Inr v' \<Longrightarrow> counted e (rxEngine v) \<Longrightarrow> counted e (rxEngine v')" "rxAppend v \<noteq> Inl (Exit None v')"
  by (auto simp: rxAppend_def Let_def counted_def split: option.splits if_splits)

lemma rxStart_counted:
  "rxStart alloc i fl v = Inr v' \<Longrightarrow> counted e (rxEngine v) \<Longrightarrow> counted e (rxEngine v')" "rxStart alloc i fl v \<noteq> Inl (Exit None v')"
  by (auto simp: rxStart_def Let_def rbind_eq_Inr rbind_eq_Inl rxAppend_counted counted_def [of e] split: list.splits option.splits if_splits
      dest!: rxAppend_counted(1) [where e = e])

lemma rxContinue_counted:
  "rxContinue fl v = Inr v' \<Longrightarrow> counted e (rxEngine v) \<Longrightarrow> counted e (rxEngine v')" "rxContinue fl v \<noteq> Inl (Exit None v')"
  by (auto simp: rxContinue_def rxAppend_counted split: if_splits)

lemma rxEnd_counted:
  "rxEnd fl v = Inr v' \<Longrightarrow> counted e (rxEngine v) \<Longrightarrow> counted e (rxEngine v')" "rxEnd fl v \<noteq> Inl (Exit None v')"
  by (auto simp: rxEnd_def Let_def counted_def split: list.splits if_splits)

lemma rxFinish_error: "rxFinish (Exit (Some err) v) = Some (r, v') \<Longrightarrow> r = Some err \<and> mRxState (rxEngine v') = kState_Error \<and> rxData v' = []"
  by (auto simp: rxFinish_def Let_def split: if_splits)

lemma received_accepted:
  assumes "HandleCharacteristicReceived alloc i v = Some (None, v')"
  shows "counted (rxEngine v) (rxEngine v')"
proof (cases "rxHeader v")
  case (Inl x)
  then obtain w where "x = Exit None w" "v' = w" using assms
    by (cases x) (auto simp: HandleCharacteristicReceived_def rxFinish_def Let_def split: option.splits if_splits)
  then show ?thesis using rxHeader_counted(2) [of v w] Inl by simp
next
  case (Inr p)
  obtain fl w where p: "p = (fl, w)" by (cases p)
  let ?m = "case mRxState (rxEngine w) of kState_Idle \<Rightarrow> rxStart alloc i fl w | kState_InProgress \<Rightarrow> rxContinue fl w
    | _ \<Rightarrow> Inl (Exit (Some BLE_ERROR_REASSEMBLER_INCORRECT_STATE) w)"
  have c: "counted (rxEngine v) (rxEngine w)" using rxHeader_counted(1) Inr p by blast
  have m: "?m \<noteq> Inl (Exit None u)" "?m = Inr u \<Longrightarrow> counted (rxEngine v) (rxEngine u)" for u
    using rxStart_counted [of alloc i fl w] rxContinue_counted [of fl w] c by (auto split: State_t.splits)
  have r: "(case rbind ?m (rxEnd fl) of Inl x \<Rightarrow> rxFinish x | Inr v \<Rightarrow> rxFinish (Exit None v)) = Some (None, v')"
    using assms Inr p by (simp add: HandleCharacteristicReceived_def)
  show ?thesis
  proof (cases "rbind ?m (rxEnd fl)")
    case (Inl x)
    then have "x \<noteq> Exit None u" for u using m(1) rxEnd_counted(2) by (auto simp: rbind_eq_Inl)
    moreover have f: "rxFinish x = Some (None, v')" using r unfolding Inl by simp
    ultimately show ?thesis
    proof (cases x)
      case (Exit err u)
      then obtain e where "x = Exit (Some e) u" using \<open>\<And>u. x \<noteq> Exit None u\<close> by (cases err) auto
      then show ?thesis using rxFinish_error f by blast
    qed (simp add: rxFinish_def)
  next
    case (Inr u)
    then show ?thesis using r m(2) rxEnd_counted(1) by (auto simp: rbind_eq_Inr rxFinish_def)
  qed
qed

lemma received_rejected:
  assumes "HandleCharacteristicReceived alloc i v = Some (Some err, v')"
  shows "mRxState (rxEngine v') = kState_Error \<and> rxData v' = []"
proof -
  obtain x where x: "rxFinish x = Some (Some err, v')"
    using assms by (auto simp: HandleCharacteristicReceived_def split: sum.splits)
  then obtain e u where "x = Exit (Some e) u" by (auto simp: rxFinish_def split: rxExit.splits option.splits)
  then show ?thesis using rxFinish_error x by blast
qed

section \<open>Properties\<close>

text \<open>Concrete engines for the witnesses.\<close>

definition engine0 :: engine where
  "engine0 =
     \<lparr>mRxState = kState_Idle, mRxLength = 0, mRxBuf = [], mRxNextSeqNum = 0, mRxNewestUnackedSeqNum = 0, mRxOldestUnackedSeqNum = 0,
      mRxFragmentSize = 20, mTxState = kState_Idle, mTxLength = 0, mTxBuf = [], mTxNextSeqNum = 2, mTxNewestUnackedSeqNum = 1,
      mTxOldestUnackedSeqNum = 254, mExpectingAck = True, mTxFragmentSize = 20, mRxCharCount = 0, mRxPacketCount = 0, mTxCharCount = 0,
      mTxPacketCount = 0\<rparr>"

definition ackFragment :: pbuf where
  "ackFragment = \<lparr>mem = [8, 255, 0], payload = 0, len = 3, tot_len = 3, ref = 1\<rparr>"

text \<open>
  C27.  The two 8-bit bounds implement a queue of outstanding fragments.  As long as fewer than 256 are
  outstanding, a new fragment is put at its end; an acknowledgement is accepted exactly when its number is
  in the queue, and removes that fragment and all older ones.
\<close>

theorem ack_window_refines_queue:
  assumes "txSeqOk e" "length (outstanding e) < 256"
  shows "outstanding (snd (GetAndIncrementNextTxSeqNum e)) = outstanding e @ [fst (GetAndIncrementNextTxSeqNum e)] \<and>
    map_sum id outstanding (HandleAckReceived a e) =
      (if a \<in> set (outstanding e) then Inr (tl (dropWhile (\<lambda>s. s \<noteq> a) (outstanding e))) else Inl BLE_ERROR_INVALID_ACK)"
proof -
  have "map_sum id outstanding (HandleAckReceived a e) =
      (if a \<in> set (outstanding e) then Inr (tl (dropWhile (\<lambda>s. s \<noteq> a) (outstanding e))) else Inl BLE_ERROR_INVALID_ACK)"
  proof (cases "IsValidAck a e")
    case True
    then obtain e' where e': "HandleAckReceived a e = Inr e'" using HandleAckReceived_accepts by blast
    show ?thesis using HandleAckReceived_window(1) [OF assms(1) e'] True by (simp add: e' set_outstanding)
  qed (simp add: HandleAckReceived_def set_outstanding)
  then show ?thesis using GetAndIncrementNextTxSeqNum_window(1) [OF assms] by (simp add: seqNum_frame)
qed

theorem ack_window_refines_queue_witness:
  "outstanding engine0 = [254, 255, 0, 1] \<and> outstanding (snd (GetAndIncrementNextTxSeqNum engine0)) = [254, 255, 0, 1, 2] \<and>
   map_sum id outstanding (HandleAckReceived 255 engine0) = Inr [0, 1]"
proof -
  have o: "outstanding engine0 = [254, 255, 0, 1]" by code_simp
  have "txSeqOk engine0" "length (outstanding engine0) < 256" unfolding o by (simp_all add: txSeqOk_def engine0_def)
  from ack_window_refines_queue [OF this, of 255] show ?thesis
    unfolding o by (simp add: seqNum_frame) (simp add: engine0_def)
qed

text \<open>
  For any bytes: a fragment is either the next one in sequence, and then the expected number moves by
  one, or the call fails, the reassembler is in the error state and the buffer has been taken from the
  caller.
\<close>

theorem fragment_in_sequence_or_error:
  assumes "HandleCharacteristicReceived alloc i v = Some (r, v')"
  shows "case r of
      None \<Rightarrow> mRxNextSeqNum (rxEngine v') = mRxNextSeqNum (rxEngine v) + 1 \<and>
        mRxNewestUnackedSeqNum (rxEngine v') = mRxNextSeqNum (rxEngine v)
    | Some err \<Rightarrow> mRxState (rxEngine v') = kState_Error \<and> rxData v' = []"
  using assms received_accepted received_rejected by (cases r) (auto simp: counted_def)

theorem fragment_in_sequence_or_error_witness:
  "\<exists>v'. HandleCharacteristicReceived (\<lambda>_ _. None) 0
      \<lparr>rxEngine = engine0, rxData = [ackFragment], receivedAck = 0, didReceiveAck = False\<rparr> = Some (None, v') \<and>
    mRxNextSeqNum (rxEngine v') = 1"
proof -
  let ?f = "\<lparr>fStart = False, fContinue = False, fEnd = False, fAck = Some 255, fSeq = 0, fTotal = 0, fBody = []\<rparr>"
  let ?v = "\<lparr>rxEngine = engine0, rxData = [ackFragment], receivedAck = 0, didReceiveAck = False\<rparr>"
  have b: "owned [ackFragment]" "bufData ackFragment = fragBytes ?f"
    by (simp_all add: ackFragment_def owned_def bufOk_def bufData_def fragBytes_def fragHeader_def fragPayload_def fragFlags_def flag_defs)
  have "IsValidAck 255 engine0" by code_simp
  then have a: "acceptable ?f engine0"
    by (simp add: acceptable_def fragBytes_def fragHeader_def fragPayload_def) (simp add: engine0_def)
  obtain v' where v': "HandleCharacteristicReceived (\<lambda>_ _. None) 0 ?v = Some (None, v')"
    using rxHeader_accepts [OF b a refl refl, of 0 False]
    by (auto simp: HandleCharacteristicReceived_def hasData_def rxFinish_def)
  from fragment_in_sequence_or_error [OF v'] v' show ?thesis by (auto simp: engine0_def)
qed

end
