(* ===== verification/Btp_Link.thy ===== *)
theory Btp_Link
  imports Btp_Engine
begin

text \<open>
  Two engines joined by the two directions of a BLE connection.  The operations are those
  \<^verbatim>\<open>src/ble/BLEEndPoint.cpp\<close> performs on its engine: a message is handed to the idle fragmenter, the next
  fragment of the current message is sent, an acknowledgement is sent on its own, a fragment that
  arrived is given to the reassembler and a finished message is taken out.  GATT writes and
  indications are confirmed, so each direction is a queue.
\<close>

section \<open>The link\<close>

record link =
  node :: "bool \<Rightarrow> engine"
  chan :: "bool \<Rightarrow> bytes list"
  submitted :: "bool \<Rightarrow> bytes list"
  delivered :: "bool \<Rightarrow> bytes list"

text \<open>\<open>chan s\<close> is on its way from \<open>s\<close> to the other side, \<open>submitted s\<close> was given to \<open>s\<close> and
  \<open>delivered s\<close> came from \<open>s\<close>.  The peripheral is \<open>True\<close>: it expects an acknowledgement of its part of
  the handshake.\<close>

definition linkInit :: "nat \<Rightarrow> (bool \<Rightarrow> engine) \<Rightarrow> link" where
  "linkInit F es =
     \<lparr>node = (\<lambda>s. SetTxFragmentSize F (SetRxFragmentSize F (BtpEngine_Init s (es s)))), chan = (\<lambda>_. []), submitted = (\<lambda>_. []),
      delivered = (\<lambda>_. [])\<rparr>"

text \<open>\<open>SendNextMessage\<close> and \<open>ContinueMessageSend\<close>: the fragment goes out; a sent message is cleared.\<close>

definition linkSend :: "bool \<Rightarrow> pbuf list \<Rightarrow> bool \<Rightarrow> link \<Rightarrow> link option" where
  "linkSend s data send_ack st =
     (case HandleCharacteristicSend data send_ack (node st s) of
        Some (True, e) \<Rightarrow>
          Some (st\<lparr>node := (node st)(s := (if mTxState e = kState_Complete then snd (TakeTxPacket e) else e)),
                   chan := (chan st)(s := chan st s @ [bufData (hd (mTxBuf e))]),
                   submitted := (submitted st)(s := submitted st s @ map bufData data)\<rparr>)
      | _ \<Rightarrow> None)"

text \<open>\<open>DoSendStandAloneAck\<close>.\<close>

definition linkAck :: "bool \<Rightarrow> pbuf \<Rightarrow> link \<Rightarrow> link option" where
  "linkAck s b st =
     (case EncodeStandAloneAck [b] (node st s) of
        Some (None, data, e) \<Rightarrow>
          Some (st\<lparr>node := (node st)(s := e), chan := (chan st)(s := chan st s @ [bufData (hd data)])\<rparr>)
      | _ \<Rightarrow> None)"

text \<open>\<open>Receive\<close>: the reassembler, and \<open>TakeRxPacket\<close> when the message is complete.\<close>

definition linkDeliver :: "(nat \<Rightarrow> nat \<Rightarrow> bytes option) \<Rightarrow> bool \<Rightarrow> nat \<Rightarrow> pbuf \<Rightarrow> link \<Rightarrow> link option" where
  "linkDeliver alloc s i b st =
     (case HandleCharacteristicReceived alloc i
             \<lparr>rxEngine = node st (\<not> s), rxData = [b], receivedAck = 0, didReceiveAck = False\<rparr> of
        Some (None, v) \<Rightarrow>
          (let done = mRxState (rxEngine v) = kState_Complete; p = TakeRxPacket (rxEngine v)
           in Some (st\<lparr>node := (node st)((\<not> s) := (if done then snd p else rxEngine v)), chan := (chan st)(s := tl (chan st s)),
                       delivered := (delivered st)(s := delivered st s @ (if done then [chainData (fst p)] else []))\<rparr>))
      | _ \<Rightarrow> None)"

datatype linkOp = Start bool pbuf bool | Continue bool bool | Ack bool pbuf | Deliver bool nat pbuf

fun exec :: "(nat \<Rightarrow> nat \<Rightarrow> bytes option) \<Rightarrow> linkOp \<Rightarrow> link \<Rightarrow> link option" where
  "exec alloc (Start s b a) st = linkSend s [b] a st"
| "exec alloc (Continue s a) st = linkSend s [] a st"
| "exec alloc (Ack s b) st = linkAck s b st"
| "exec alloc (Deliver s i b) st = linkDeliver alloc s i b st"

text \<open>
  What the engines need of an operation: fewer than 256 fragments are outstanding (a negotiated window is at most 255, so this permits at
  least what the end point does within its window), an acknowledgement is
  only sent for received data, a new message waits for the previous one and leaves headroom in its
  buffer; the platform hands over the oldest fragment in a buffer of its own, and there is memory for
  the reassembly.  The end point does not always keep to the second of these: a send-ack timer that is left running makes it ask for an
  acknowledgement of nothing, which the engine refuses (\<open>stale_ack_timer_aborts\<close> in \<open>Ble_Connection\<close>).
\<close>

definition windowOpen :: "engine \<Rightarrow> bool" where
  "windowOpen e \<longleftrightarrow> length (outstanding e) < 256"

fun permitted :: "(nat \<Rightarrow> nat \<Rightarrow> bytes option) \<Rightarrow> linkOp \<Rightarrow> link \<Rightarrow> bool" where
  "permitted alloc (Start s b a) st \<longleftrightarrow>
     mTxState (node st s) = kState_Idle \<and> windowOpen (node st s) \<and> (a \<longrightarrow> HasUnackedData (node st s)) \<and> chainOk [b] \<and>
     headerRoom a + len b \<le> AllocSize b \<and> len b \<le> kMaxSizeWithoutReserve"
| "permitted alloc (Continue s a) st \<longleftrightarrow>
     mTxState (node st s) = kState_InProgress \<and> windowOpen (node st s) \<and> (a \<longrightarrow> HasUnackedData (node st s))"
| "permitted alloc (Ack s b) st \<longleftrightarrow>
     windowOpen (node st s) \<and> HasUnackedData (node st s) \<and> chainOk [b] \<and> MaxDataLength b \<ge> kTransferProtocolStandaloneAckHeaderSize"
| "permitted alloc (Deliver s i b) st \<longleftrightarrow>
     chan st s \<noteq> [] \<and> owned [b] \<and> bufData b = hd (chan st s) \<and> memoryFor alloc i"

inductive reachableLink :: "(nat \<Rightarrow> nat \<Rightarrow> bytes option) \<Rightarrow> nat \<Rightarrow> link \<Rightarrow> bool" for alloc F where
  init: "reachableLink alloc F (linkInit F es)"
| step: "reachableLink alloc F st \<Longrightarrow> permitted alloc op st \<Longrightarrow> exec alloc op st = Some st' \<Longrightarrow> reachableLink alloc F st'"

section \<open>Counting fragments\<close>

text \<open>
  The 8-bit numbers follow unbounded counts: \<open>S\<close> sent, \<open>R\<close> received, \<open>K\<close> acknowledged by the receiver,
  \<open>L\<close> known to the sender as acknowledged.  The acknowledgements on their way lead from \<open>L\<close> to \<open>K\<close>.
\<close>

fun acksOk :: "nat \<Rightarrow> nat \<Rightarrow> u8 list \<Rightarrow> bool" where
  "acksOk l k [] \<longleftrightarrow> l = k"
| "acksOk l k (a # as) \<longleftrightarrow> (\<exists>n. l \<le> n \<and> n < k \<and> a = of_nat n \<and> acksOk (Suc n) k as)"

definition acksOf :: "frag list \<Rightarrow> u8 list" where
  "acksOf fs = List.map_filter fAck fs"

lemma acksOf_simps [simp]:
  "acksOf [] = []" "acksOf (f # fs) = (case fAck f of None \<Rightarrow> acksOf fs | Some a \<Rightarrow> a # acksOf fs)"
  "acksOf (fs @ gs) = acksOf fs @ acksOf gs"
  by (simp_all add: acksOf_def List.map_filter_def split: option.splits)

lemma acksOk_le: "acksOk l k as \<Longrightarrow> l \<le> k"
  by (induction as arbitrary: l) (auto dest: Suc_leD)

lemma acksOk_snoc: "acksOk l k as \<Longrightarrow> k \<le> n \<Longrightarrow> acksOk l (Suc n) (as @ [of_nat n])"
proof (induction as arbitrary: l)
  case (Cons a as)
  then show ?case by (auto intro: less_le_trans)
qed auto

definition seqInv :: "nat \<Rightarrow> nat \<Rightarrow> engine \<Rightarrow> engine \<Rightarrow> frag list \<Rightarrow> bool" where
  "seqInv S R a b fs \<longleftrightarrow>
     mTxNextSeqNum a = of_nat S \<and> mRxNextSeqNum b = of_nat R \<and> S = R + length fs \<and> map fSeq fs = seqs (of_nat R) (length fs)"

definition ackInv :: "nat \<Rightarrow> nat \<Rightarrow> nat \<Rightarrow> nat \<Rightarrow> engine \<Rightarrow> engine \<Rightarrow> frag list \<Rightarrow> bool" where
  "ackInv S R K L a b back \<longleftrightarrow>
     mExpectingAck a = (L < S) \<and> (L < S \<longrightarrow> mTxOldestUnackedSeqNum a = of_nat L \<and> mTxNewestUnackedSeqNum a = of_nat (S - 1)) \<and>
     S - L \<le> 256 \<and> R \<le> S \<and> K \<le> R \<and> mRxOldestUnackedSeqNum b = of_nat K \<and> (K < R \<longrightarrow> mRxNewestUnackedSeqNum b = of_nat (R - 1)) \<and>
     acksOk L K (acksOf back)"

lemma of_nat_u8_diff: "m \<le> n \<Longrightarrow> n - m < 256 \<Longrightarrow> unat (of_nat n - of_nat m :: u8) = n - m"
  by (metis of_nat_diff unat_u8_of_nat)

lemma outstanding_count:
  assumes "ackInv S R K L a b back"
  shows "length (outstanding a) = S - L"
proof (cases "L < S")
  case True
  then have "unat (of_nat (S - 1) - of_nat L :: u8) = S - 1 - L" using assms by (intro of_nat_u8_diff) (auto simp: ackInv_def)
  then show ?thesis using assms True by (auto simp: ackInv_def outstanding_def simp del: seqs_simps(3))
qed (use assms in \<open>auto simp: ackInv_def outstanding_def\<close>)

text \<open>The oldest acknowledgement on its way is valid, and takes the sender to the count it stands for.\<close>

lemma ack_arrives:
  assumes inv: "ackInv S R K L a b back" and n: "L \<le> n" "n < K"
  shows "IsValidAck (of_nat n) a" "HandleAckReceived (of_nat n) a = Inr a' \<Longrightarrow>
    mExpectingAck a' = (Suc n < S) \<and> (Suc n < S \<longrightarrow> mTxOldestUnackedSeqNum a' = of_nat (Suc n))"
proof -
  obtain m where S: "S = Suc m" using inv n by (cases S) (auto simp: ackInv_def)
  have i: "L < S" "mExpectingAck a" "mTxOldestUnackedSeqNum a = of_nat L" "mTxNewestUnackedSeqNum a = of_nat m" "n \<le> m" "S - L \<le> 256"
    using inv n by (auto simp: ackInv_def S)
  have d: "unat (of_nat n - of_nat L :: u8) = n - L" "unat (of_nat m - of_nat L :: u8) = m - L"
    using i n by (auto simp: S intro!: of_nat_u8_diff)
  then show v: "IsValidAck (of_nat n) a" using i n by (simp add: IsValidAck_distance word_le_nat_alt)
  have "of_nat m = (of_nat n :: u8) \<longleftrightarrow> n = m"
  proof
    assume "of_nat m = (of_nat n :: u8)"
    then have "m - L = n - L" using d by simp
    then show "n = m" using i n S by simp
  qed simp
  then show "HandleAckReceived (of_nat n) a = Inr a' \<Longrightarrow>
      mExpectingAck a' = (Suc n < S) \<and> (Suc n < S \<longrightarrow> mTxOldestUnackedSeqNum a' = of_nat (Suc n))"
    using v i by (auto simp: HandleAckReceived_def IncSeqNum_def S split: if_splits)
qed

section \<open>One fragment on the counts\<close>

definition emits :: "bool \<Rightarrow> engine \<Rightarrow> engine \<Rightarrow> frag \<Rightarrow> bool" where
  "emits ack a a' f \<longleftrightarrow>
     fSeq f = mTxNextSeqNum a \<and> fAck f = (if ack then Some (mRxNewestUnackedSeqNum a) else None) \<and>
     mTxNextSeqNum a' = mTxNextSeqNum a + 1 \<and> mExpectingAck a' \<and> mTxNewestUnackedSeqNum a' = mTxNextSeqNum a \<and>
     mTxOldestUnackedSeqNum a' = (if mExpectingAck a then mTxOldestUnackedSeqNum a else mTxNextSeqNum a) \<and>
     mRxNextSeqNum a' = mRxNextSeqNum a \<and>
     mRxOldestUnackedSeqNum a' = (if ack then mRxNextSeqNum a else mRxOldestUnackedSeqNum a) \<and>
     (\<not> ack \<longrightarrow> mRxNewestUnackedSeqNum a' = mRxNewestUnackedSeqNum a)"

lemma emit_counts:
  assumes em: "emits ack a a' f" and out: "seqInv S R a b fs" "ackInv S R K L a b back"
    and inn: "seqInv S' R' b a back" "ackInv S' R' K' L' b a fs" and g: "windowOpen a" "ack \<longrightarrow> HasUnackedData a"
  shows "seqInv (Suc S) R a' b (fs @ [f])" "ackInv (Suc S) R K L a' b back" "seqInv S' R' b a' back"
    "ackInv S' R' (if ack then R' else K') L' b a' (fs @ [f])"
proof -
  show "seqInv (Suc S) R a' b (fs @ [f])" "seqInv S' R' b a' back"
    using em out(1) inn(1) by (auto simp: emits_def seqInv_def add.commute)
  have w: "S - L < 256" using outstanding_count [OF out(2)] g(1) by (simp add: windowOpen_def)
  have "L \<le> S" using out(2) acksOk_le by (fastforce simp: ackInv_def)
  then show "ackInv (Suc S) R K L a' b back"
    using em out w by (auto simp: emits_def ackInv_def seqInv_def)
  show "ackInv S' R' (if ack then R' else K') L' b a' (fs @ [f])"
  proof (cases ack)
    case True
    then have "K' \<noteq> R'" using g(2) inn by (auto simp: HasUnackedData_def seqInv_def ackInv_def)
    then have k: "K' < R'" using inn(2) by (simp add: ackInv_def)
    then obtain r where r: "R' = Suc r" by (cases R') auto
    have "acksOk L' (Suc r) (acksOf fs @ [of_nat r])" using k inn(2) r by (intro acksOk_snoc [of L' K']) (auto simp: ackInv_def)
    then show ?thesis using em inn True k by (auto simp: emits_def ackInv_def seqInv_def r)
  qed (use em inn(2) in \<open>auto simp: emits_def ackInv_def\<close>)
qed

definition absorbs :: "frag \<Rightarrow> engine \<Rightarrow> engine \<Rightarrow> bool" where
  "absorbs f b b' \<longleftrightarrow>
     mRxNextSeqNum b' = mRxNextSeqNum b + 1 \<and> mRxNewestUnackedSeqNum b' = fSeq f \<and>
     mRxOldestUnackedSeqNum b' = mRxOldestUnackedSeqNum b \<and> mTxNextSeqNum b' = mTxNextSeqNum b \<and>
     mTxNewestUnackedSeqNum b' = mTxNewestUnackedSeqNum b \<and>
     (\<exists>b1. (case fAck f of None \<Rightarrow> b1 = b | Some x \<Rightarrow> HandleAckReceived x b = Inr b1) \<and>
        mExpectingAck b' = mExpectingAck b1 \<and> mTxOldestUnackedSeqNum b' = mTxOldestUnackedSeqNum b1)"

lemma absorb_counts:
  assumes ab: "absorbs f b b'" and out: "seqInv S R a b (f # fs)" "ackInv S R K L a b back"
    and inn: "seqInv S' R' b a back" "ackInv S' R' K' L' b a (f # fs)"
  shows "seqInv S (Suc R) a b' fs" "ackInv S (Suc R) K L a b' back" "seqInv S' R' b' a back"
    "\<exists>L2. ackInv S' R' K' L2 b' a fs"
proof -
  have q: "fSeq f = of_nat R" "map fSeq fs = seqs (of_nat (Suc R)) (length fs)"
    using out(1) by (auto simp: seqInv_def seqs_Cons add.commute simp del: seqs_simps(3))
  show "seqInv S (Suc R) a b' fs" "seqInv S' R' b' a back"
    using ab out(1) inn(1) q(2) by (auto simp: absorbs_def seqInv_def add.commute)
  have "Suc R \<le> S" using out(1) by (simp add: seqInv_def)
  then show "ackInv S (Suc R) K L a b' back"
    using ab out(2) q(1) by (auto simp: absorbs_def ackInv_def)
  obtain b1 where b1: "case fAck f of None \<Rightarrow> b1 = b | Some x \<Rightarrow> HandleAckReceived x b = Inr b1"
      "mExpectingAck b' = mExpectingAck b1" "mTxOldestUnackedSeqNum b' = mTxOldestUnackedSeqNum b1"
    using ab by (auto simp: absorbs_def)
  have nw: "mTxNewestUnackedSeqNum b' = mTxNewestUnackedSeqNum b" using ab by (simp add: absorbs_def)
  show "\<exists>L2. ackInv S' R' K' L2 b' a fs"
  proof (cases "fAck f")
    case None
    then show ?thesis using b1 nw inn(2) by (auto simp: ackInv_def intro!: exI [of _ L'])
  next
    case (Some x)
    then obtain n where n: "L' \<le> n" "n < K'" "x = of_nat n" "acksOk (Suc n) K' (acksOf fs)"
      using inn(2) by (auto simp: ackInv_def)
    have "mExpectingAck b1 = (Suc n < S') \<and> (Suc n < S' \<longrightarrow> mTxOldestUnackedSeqNum b1 = of_nat (Suc n))"
      using ack_arrives(2) [OF inn(2) n(1,2)] b1(1) Some n(3) by simp
    then show ?thesis using b1(2,3) nw inn(2) n by (auto simp: ackInv_def intro!: exI [of _ "Suc n"])
  qed
qed

lemma ack_acceptable:
  assumes "ackInv S' R' K' L' b a (f # fs)"
  shows "pred_option (\<lambda>x. IsValidAck x b) (fAck f)"
  using assms ack_arrives(1) [OF assms] by (auto simp: ackInv_def split: option.splits)

lemma txSeq_emits:
  "fSeq f = mTxNextSeqNum a \<Longrightarrow> fAck f = txAckOf ack a \<Longrightarrow> a1 = a\<lparr>mTxCharCount := c\<rparr> \<Longrightarrow>
     emits ack a ((txSeq ack a1)\<lparr>mTxBuf := x, mTxLength := n, mTxState := t, mTxPacketCount := k\<rparr>) f"
  by (simp add: emits_def txAckOf_def txSeq_def GetAndIncrementNextTxSeqNum_def GetAndRecordRxAckSeqNum_def Let_def IncSeqNum_def)

lemma rxSeen_absorbs:
  assumes "pred_option (\<lambda>x. IsValidAck x b) (fAck f)"
  shows "absorbs f b ((rxSeen f b)\<lparr>mRxState := t, mRxLength := n, mRxBuf := x, mRxPacketCount := k\<rparr>)"
proof (cases "fAck f")
  case (Some a)
  then have v: "IsValidAck a b" using assms by simp
  let ?b = "b\<lparr>mRxCharCount := mRxCharCount b + 1\<rparr>"
  obtain b1 b2 where h: "HandleAckReceived a b = Inr b1" "HandleAckReceived a ?b = Inr b2"
    using HandleAckReceived_accepts [of a b] HandleAckReceived_accepts [of a ?b] v by auto
  then have "mExpectingAck b2 = mExpectingAck b1" "mTxOldestUnackedSeqNum b2 = mTxOldestUnackedSeqNum b1"
    using v by (auto simp: HandleAckReceived_def split: if_splits)
  then show ?thesis using Some h by (auto simp: absorbs_def rxSeen_def Let_def IncSeqNum_def dest!: HandleAckReceived_frame)
qed (simp add: absorbs_def rxSeen_def Let_def IncSeqNum_def)

lemma EncodeStandAloneAck_ok:
  assumes "chainOk [b]" "MaxDataLength b \<ge> kTransferProtocolStandaloneAckHeaderSize"
  shows "\<exists>b' e' f. EncodeStandAloneAck [b] e = Some (None, [b'], e') \<and> e' = txSeq True e \<and> bufData b' = fragBytes f \<and>
    f = \<lparr>fStart = False, fContinue = False, fEnd = False, fAck = txAckOf True e, fSeq = mTxNextSeqNum e, fTotal = 0, fBody = []\<rparr>"
proof -
  let ?w = "[kFragmentAck, mRxNewestUnackedSeqNum e, mTxNextSeqNum e]"
  define b1 where "b1 = writeBytes (payload b) ?w b"
  have m: "3 \<le> MaxDataLength b" using assms(2) by (simp add: kTransferProtocolStandaloneAckHeaderSize_def)
  then have fit: "payload b + 3 \<le> length (mem b)" by (simp add: MaxDataLength_def AllocSize_def ReservedSize_def)
  then have poke: "pokeBytes (int (payload b)) ?w b = Some b1" by (simp add: pokeBytes_def AllocSize_def b1_def)
  have b1: "chainOk [b1]" "3 \<le> MaxDataLength b1" "take 3 (drop (payload b1) (mem b1)) = ?w"
    using assms(1) fit m memcpy_at [of "payload b" ?w "mem b"]
    by (auto simp: b1_def writeBytes_def bufOk_def MaxDataLength_def AllocSize_def ReservedSize_def numeral_3_eq_3)
  have "bufData (SetDataLength 3 b1) = ?w" using SetDataLength_ok(1) [OF b1(1,2)] b1(3) by simp
  moreover have "EncodeStandAloneAck [b] e = Some (None, [SetDataLength 3 b1], txSeq True e)"
    using m poke
    by (simp add: EncodeStandAloneAck_def EnsureReservedSize_def CHIP_CONFIG_BLE_PKT_RESERVED_SIZE_def Let_def split_beta seqNum_frame
        kTransferProtocolStandaloneAckHeaderSize_def txSeq_def)
  ultimately show ?thesis
    by (simp add: fragBytes_def fragHeader_def fragPayload_def fragFlags_def txAckOf_def)
qed

section \<open>Messages on their way\<close>

fun rcvs :: "rxAbs \<Rightarrow> frag list \<Rightarrow> (rxAbs \<times> bytes list) option" where
  "rcvs st [] = Some (st, [])"
| "rcvs st (f # fs) =
     (case rcv st f of
        None \<Rightarrow> None
      | Some (st', m) \<Rightarrow> map_option (\<lambda>(st'', ms). (st'', (case m of None \<Rightarrow> [] | Some m \<Rightarrow> [m]) @ ms)) (rcvs st' fs))"

lemma rcvs_snoc:
  "rcvs st fs = Some (st', ms) \<Longrightarrow> rcv st' f = Some (st'', m) \<Longrightarrow>
     rcvs st (fs @ [f]) = Some (st'', ms @ (case m of None \<Rightarrow> [] | Some m \<Rightarrow> [m]))"
  by (induction fs arbitrary: st ms) (auto split: option.splits)

text \<open>What the sender still has to add to what the receiver will have when everything has arrived.\<close>

definition unsent :: "bytes option \<Rightarrow> rxAbs \<Rightarrow> bytes list \<Rightarrow> bool" where
  "unsent t st ps \<longleftrightarrow>
     (case t of
        None \<Rightarrow> st = None \<and> ps = []
      | Some rest \<Rightarrow> (case st of None \<Rightarrow> False
          | Some (n, acc) \<Rightarrow> n = length acc + length rest \<and> n \<le> kMaxSizeWithoutReserve \<and> ps = [acc @ rest]))"

definition dataInv :: "engine \<Rightarrow> engine \<Rightarrow> frag list \<Rightarrow> bytes list \<Rightarrow> bytes list \<Rightarrow> bool" where
  "dataInv a b fs sub del \<longleftrightarrow>
     (\<exists>st st' ms t ps. rxRep st b \<and> rcvs st fs = Some (st', ms) \<and> txRep t a \<and> unsent t st' ps \<and> sub = del @ ms @ ps)"

lemma dataInvI:
  "rxRep st b \<Longrightarrow> rcvs st fs = Some (st', ms) \<Longrightarrow> txRep t a \<Longrightarrow> unsent t st' ps \<Longrightarrow> sub = del @ ms @ ps \<Longrightarrow> dataInv a b fs sub del"
  unfolding dataInv_def by blast

lemma rcv_first:
  "length m \<le> kMaxSizeWithoutReserve \<Longrightarrow> c \<le> mTxFragmentSize e \<Longrightarrow>
     rcv None (nextFrag True (length m) m c ack e) =
       (if length m + c \<le> mTxFragmentSize e then Some (None, Some m)
        else Some (Some (length m, take (mTxFragmentSize e - c) m), None))"
  by (auto simp: rcv_def rcvEnd_def nextFrag_def hasData_def)

lemma rcv_next:
  "n = length acc + length rest \<Longrightarrow> n \<le> kMaxSizeWithoutReserve \<Longrightarrow> rest \<noteq> [] \<Longrightarrow> c \<le> mTxFragmentSize e \<Longrightarrow>
     rcv (Some (n, acc)) (nextFrag False k rest c ack e) =
       (if length rest + c \<le> mTxFragmentSize e then Some (None, Some (acc @ rest))
        else Some (Some (n, acc @ take (mTxFragmentSize e - c) rest), None))"
  by (cases rest) (auto simp: rcv_def rcvEnd_def nextFrag_def hasData_def)

lemma nextFrag_fits:
  assumes "c \<le> mTxFragmentSize e" "c = 2 + (if ack then 1 else 0) + (if start then 2 else 0)"
  shows "length (fragBytes (nextFrag start n rest c ack e)) \<le> mTxFragmentSize e"
  using assms by (cases start; cases ack) (auto simp: nextFrag_bytes)

lemma txRep_cong:
  "mTxState a' = mTxState a \<Longrightarrow> mTxLength a' = mTxLength a \<Longrightarrow> mTxBuf a' = mTxBuf a \<Longrightarrow> mTxFragmentSize a' = mTxFragmentSize a \<Longrightarrow>
     txRep t a' = txRep t a"
  by (simp add: txRep_def split: option.split)

lemma rxRep_cong:
  "mRxState b' = mRxState b \<Longrightarrow> mRxLength b' = mRxLength b \<Longrightarrow> mRxBuf b' = mRxBuf b \<Longrightarrow> rxRep st b' = rxRep st b"
  by (simp add: rxRep_def split: option.split)

lemma data_first:
  assumes d: "dataInv a b fs sub del" "mTxState a = kState_Idle" and m: "length m \<le> kMaxSizeWithoutReserve" "c \<le> mTxFragmentSize a"
    and a': "if length m + c \<le> mTxFragmentSize a then mTxState a' = kState_Idle else txRep (Some (drop (mTxFragmentSize a - c) m)) a'"
  shows "dataInv a' b (fs @ [nextFrag True (length m) m c ack a]) (sub @ [m]) del"
proof -
  obtain st st' ms t ps where i: "rxRep st b" "rcvs st fs = Some (st', ms)" "txRep t a" "unsent t st' ps" "sub = del @ ms @ ps"
    using d(1) unfolding dataInv_def by blast
  have "t = None" using i(3) d(2) by (auto simp: txRep_def split: option.splits)
  then have st': "st' = None" "ps = []" using i(4) by (auto simp: unsent_def)
  note r = rcvs_snoc [OF i(2), of "nextFrag True (length m) m c ack a", unfolded st' rcv_first [OF m]]
  show ?thesis
  proof (cases "length m + c \<le> mTxFragmentSize a")
    case True
    then have "txRep None a'" using a' by (simp add: txRep_def)
    then show ?thesis using i(5) st' True by (intro dataInvI [OF i(1) r, where t = None and ps = "[]"]) (auto simp: unsent_def)
  next
    case False
    then show ?thesis using i(5) st' a' m
      by (intro dataInvI [OF i(1) r, where t = "Some (drop (mTxFragmentSize a - c) m)" and ps = "[m]"]) (auto simp: unsent_def)
  qed
qed

lemma data_next:
  assumes d: "dataInv a b fs sub del" "txRep (Some rest) a" and c: "c \<le> mTxFragmentSize a"
    and a': "if length rest + c \<le> mTxFragmentSize a then mTxState a' = kState_Idle else txRep (Some (drop (mTxFragmentSize a - c) rest)) a'"
  shows "dataInv a' b (fs @ [nextFrag False 0 rest c ack a]) sub del"
proof -
  obtain st st' ms t ps where i: "rxRep st b" "rcvs st fs = Some (st', ms)" "txRep t a" "unsent t st' ps" "sub = del @ ms @ ps"
    using d(1) unfolding dataInv_def by blast
  have t: "t = Some rest" "rest \<noteq> []" using i(3) d(2) by (auto simp: txRep_def split: option.splits)
  then obtain n acc where st': "st' = Some (n, acc)" "n = length acc + length rest" "n \<le> kMaxSizeWithoutReserve" "ps = [acc @ rest]"
    using i(4) by (auto simp: unsent_def split: option.splits)
  note r = rcvs_snoc [OF i(2), of "nextFrag False 0 rest c ack a", unfolded st'(1) rcv_next [OF st'(2,3) t(2) c]]
  show ?thesis
  proof (cases "length rest + c \<le> mTxFragmentSize a")
    case True
    then have "txRep None a'" using a' by (simp add: txRep_def)
    then show ?thesis using i(5) st' True by (intro dataInvI [OF i(1) r, where t = None and ps = "[]"]) (auto simp: unsent_def)
  next
    case False
    then show ?thesis using i(5) st' a'
      by (intro dataInvI [OF i(1) r, where t = "Some (drop (mTxFragmentSize a - c) rest)" and ps = ps]) (auto simp: unsent_def)
  qed
qed

lemma data_ack:
  assumes "dataInv a b fs sub del" "\<not> hasData f" "\<And>t. txRep t a' = txRep t a"
  shows "dataInv a' b (fs @ [f]) sub del"
proof -
  obtain st st' ms t ps where i: "rxRep st b" "rcvs st fs = Some (st', ms)" "txRep t a" "unsent t st' ps" "sub = del @ ms @ ps"
    using assms(1) unfolding dataInv_def by blast
  have "rcv st' f = Some (st', None)" using assms(2) by (simp add: rcv_def)
  from rcvs_snoc [OF i(2) this] show ?thesis using i assms(3) unfolding dataInv_def by fastforce
qed

section \<open>The invariant of the link\<close>

definition dirInv :: "nat \<Rightarrow> engine \<Rightarrow> engine \<Rightarrow> frag list \<Rightarrow> frag list \<Rightarrow> nat \<Rightarrow> nat \<Rightarrow> nat \<Rightarrow> nat \<Rightarrow> bool" where
  "dirInv F a b fs back S R K L \<longleftrightarrow>
     seqInv S R a b fs \<and> ackInv S R K L a b back \<and> mTxFragmentSize a = F \<and> mRxFragmentSize b = F \<and>
     list_all (\<lambda>f. fTotal f < 65536 \<and> length (fragBytes f) \<le> F) fs"

definition linkInv :: "nat \<Rightarrow> link \<Rightarrow> bool" where
  "linkInv F st \<longleftrightarrow>
     (\<exists>fs S R K L. \<forall>s. dirInv F (node st s) (node st (\<not> s)) (fs s) (fs (\<not> s)) (S s) (R s) (K s) (L s) \<and>
        chan st s = map fragBytes (fs s) \<and> dataInv (node st s) (node st (\<not> s)) (fs s) (submitted st s) (delivered st s))"

lemma all_bool: "(\<forall>s. P s) \<longleftrightarrow> P s0 \<and> P (\<not> s0)" for s0
  by (cases s0) (auto simp: all_bool_eq)

lemma linkInv_init: "linkInv F (linkInit F es)"
proof -
  have "dirInv F (node (linkInit F es) s) (node (linkInit F es) (\<not> s)) [] [] (if s then 1 else 0) (if s then 1 else 0) 0 0 \<and>
      dataInv (node (linkInit F es) s) (node (linkInit F es) (\<not> s)) [] [] []" for s
    by (auto simp: linkInit_def dirInv_def seqInv_def ackInv_def dataInv_def SetTxFragmentSize_def SetRxFragmentSize_def BtpEngine_Init_def
        rxRep_def txRep_def unsent_def intro!: exI [of _ None])
  then show ?thesis unfolding linkInv_def
    by (intro exI [of _ "\<lambda>_. []"] exI [of _ "\<lambda>s. if s then 1 else 0"] exI [of _ "\<lambda>_. 0"]) (simp add: linkInit_def)
qed

lemma link_emit:
  assumes inv: "linkInv F st" and g: "windowOpen (node st s)" "ack \<longrightarrow> HasUnackedData (node st s)"
    and em: "emits ack (node st s) a' f" and fr: "mTxFragmentSize a' = mTxFragmentSize (node st s)"
      "mRxFragmentSize a' = mRxFragmentSize (node st s)" "mRxState a' = mRxState (node st s)" "mRxLength a' = mRxLength (node st s)"
      "mRxBuf a' = mRxBuf (node st s)"
    and f: "fTotal f < 65536" "length (fragBytes f) \<le> F"
    and data: "\<And>fs b. dataInv (node st s) b fs (submitted st s) (delivered st s) \<Longrightarrow> dataInv a' b (fs @ [f]) sub' (delivered st s)"
  shows "linkInv F (st\<lparr>node := (node st)(s := a'), chan := (chan st)(s := chan st s @ [fragBytes f]), submitted := (submitted st)(s := sub')\<rparr>)"
proof -
  let ?a = "node st s" and ?b = "node st (\<not> s)"
  obtain fs S R K L where i: "\<And>s. dirInv F (node st s) (node st (\<not> s)) (fs s) (fs (\<not> s)) (S s) (R s) (K s) (L s) \<and>
        chan st s = map fragBytes (fs s) \<and> dataInv (node st s) (node st (\<not> s)) (fs s) (submitted st s) (delivered st s)"
    using inv unfolding linkInv_def by blast
  have d: "dirInv F ?a ?b (fs s) (fs (\<not> s)) (S s) (R s) (K s) (L s)" "dirInv F ?b ?a (fs (\<not> s)) (fs s) (S (\<not> s)) (R (\<not> s)) (K (\<not> s)) (L (\<not> s))"
    using i [of s] i [of "\<not> s"] by auto
  note c = emit_counts [OF em, of "S s" "R s" ?b "fs s" "K s" "L s" "fs (\<not> s)" "S (\<not> s)" "R (\<not> s)" "K (\<not> s)" "L (\<not> s)"]
  have rx: "rxRep r a' = rxRep r ?a" for r using fr by (intro rxRep_cong) auto
  let ?K = "if ack then R (\<not> s) else K (\<not> s)"
  have 1: "dirInv F a' ?b (fs s @ [f]) (fs (\<not> s)) (Suc (S s)) (R s) (K s) (L s)"
    using c d g fr f by (auto simp: dirInv_def)
  have 2: "dirInv F ?b a' (fs (\<not> s)) (fs s @ [f]) (S (\<not> s)) (R (\<not> s)) ?K (L (\<not> s))"
    using c d g fr f by (auto simp: dirInv_def)
  have 3: "dataInv a' ?b (fs s @ [f]) sub' (delivered st s)" using data i [of s] by blast
  have 4: "dataInv ?b a' (fs (\<not> s)) (submitted st (\<not> s)) (delivered st (\<not> s))" using i [of "\<not> s"] rx by (simp add: dataInv_def)
  show ?thesis unfolding linkInv_def
    by (intro exI [of _ "fs(s := fs s @ [f])"] exI [of _ "S(s := Suc (S s))"] exI [of _ R] exI [of _ "K((\<not> s) := ?K)"] exI [of _ L],
        subst all_bool [of _ s]) (use 1 2 3 4 i in simp)
qed

lemma send_ok:
  assumes inv: "linkInv F st" and g: "windowOpen (node st s)" "send_ack \<longrightarrow> HasUnackedData (node st s)"
    and snd: "HandleCharacteristicSend data send_ack (node st s) = Some (True, e)"
      "e = (txSeq send_ack ((node st s)\<lparr>mTxCharCount := mTxCharCount (node st s) + 1\<rparr>))\<lparr>mTxBuf := [b'], mTxLength := n, mTxState := t, mTxPacketCount := k\<rparr>"
      "bufData b' = fragBytes f" "if fEnd f then t = kState_Complete else txRep (Some rest) e"
    and f: "fSeq f = mTxNextSeqNum (node st s)" "fAck f = txAckOf send_ack (node st s)" "fTotal f < 65536" "length (fragBytes f) \<le> F"
    and data: "\<And>fs b a'. dataInv (node st s) b fs (submitted st s) (delivered st s) \<Longrightarrow>
      (if fEnd f then mTxState a' = kState_Idle else txRep (Some rest) a') \<Longrightarrow>
      dataInv a' b (fs @ [f]) (submitted st s @ map bufData data) (delivered st s)"
  shows "\<exists>st'. linkSend s data send_ack st = Some st' \<and> linkInv F st'"
proof -
  define a' where "a' = (if mTxState e = kState_Complete then snd (TakeTxPacket e) else e)"
  have t: "mTxState e = kState_Complete \<longleftrightarrow> fEnd f" using snd(2,4) by (auto simp: txRep_def split: if_splits)
  have a': "if fEnd f then mTxState a' = kState_Idle else txRep (Some rest) a'" using t snd(4) by (simp add: a'_def TakeTxPacket_def)
  have eq: "\<exists>x n y k. a' = (txSeq send_ack ((node st s)\<lparr>mTxCharCount := mTxCharCount (node st s) + 1\<rparr>))\<lparr>mTxBuf := x, mTxLength := n, mTxState := y, mTxPacketCount := k\<rparr>"
  proof (cases "mTxState e = kState_Complete")
    case True
    have "a' = (txSeq send_ack ((node st s)\<lparr>mTxCharCount := mTxCharCount (node st s) + 1\<rparr>))\<lparr>mTxBuf := [], mTxLength := n, mTxState := kState_Idle, mTxPacketCount := k\<rparr>"
      using True by (intro engine.equality) (simp_all add: a'_def TakeTxPacket_def snd(2))
    then show ?thesis by blast
  qed (use snd(2) in \<open>auto simp: a'_def\<close>)
  then obtain x n' y k' where e': "a' = (txSeq send_ack ((node st s)\<lparr>mTxCharCount := mTxCharCount (node st s) + 1\<rparr>))\<lparr>mTxBuf := x, mTxLength := n', mTxState := y, mTxPacketCount := k'\<rparr>"
    by blast
  have "emits send_ack (node st s) a' f" unfolding e' by (rule txSeq_emits [OF f(1,2) refl])
  then have "linkInv F (st\<lparr>node := (node st)(s := a'), chan := (chan st)(s := chan st s @ [fragBytes f]),
      submitted := (submitted st)(s := submitted st s @ map bufData data)\<rparr>)"
    by (rule link_emit [OF inv g _ _ _ _ _ _ f(3,4) data [OF _ a']]) (simp_all add: e')
  moreover have "linkSend s data send_ack st = Some (st\<lparr>node := (node st)(s := a'), chan := (chan st)(s := chan st s @ [fragBytes f]),
      submitted := (submitted st)(s := submitted st s @ map bufData data)\<rparr>)"
    using snd(1,3) by (simp add: linkSend_def a'_def snd(2))
  ultimately show ?thesis by blast
qed

lemma headerRoom_cursor: "headerRoom a = 2 + (if a then 1 else 0) + (if True then 2 else 0)" "headerRoom a \<le> 5"
  by (simp_all add: headerRoom_def kTransferProtocolMaxHeaderSize_def kTransferProtocolAckSize_def)

lemma linkInv_sizes:
  assumes "linkInv F st"
  shows "mTxFragmentSize (node st s) = F" "mRxFragmentSize (node st s) = F"
proof -
  obtain fs S R K L where "\<And>s. dirInv F (node st s) (node st (\<not> s)) (fs s) (fs (\<not> s)) (S s) (R s) (K s) (L s)"
    using assms unfolding linkInv_def by blast
  from this [of s] this [of "\<not> s"] show "mTxFragmentSize (node st s) = F" "mRxFragmentSize (node st s) = F"
    by (simp_all add: dirInv_def)
qed

lemma start_ok:
  assumes inv: "linkInv F st" "5 \<le> F" "F < 65536" and p: "permitted alloc (Start s b a) st"
  shows "\<exists>st'. linkSend s [b] a st = Some st' \<and> linkInv F st'"
proof -
  let ?e = "node st s" and ?h = "headerRoom a"
  have F: "mTxFragmentSize ?e = F" using linkInv_sizes inv(1) by blast
  have g: "mTxState ?e = kState_Idle" "windowOpen ?e" "a \<longrightarrow> HasUnackedData ?e" "chainOk [b]" "?h + len b \<le> AllocSize b"
      "len b \<le> kMaxSizeWithoutReserve" using p by auto
  have l: "length (bufData b) = len b" using g(4) by simp
  let ?f = "nextFrag True (len b) (bufData b) ?h a ?e"
  obtain e' b' t n k where e': "HandleCharacteristicSend [b] a ?e = Some (True, e')"
      "e' = (txSeq a (?e\<lparr>mTxCharCount := mTxCharCount ?e + 1\<rparr>))\<lparr>mTxBuf := [b'], mTxLength := n, mTxState := t, mTxPacketCount := k\<rparr>"
      "bufData b' = fragBytes ?f" "if fEnd ?f then t = kState_Complete else txRep (Some (drop (mTxFragmentSize ?e - ?h) (bufData b))) e'"
    using send_first [OF g(1,3) _ _ g(4,5)] F inv(2,3) by blast
  have c: "?h \<le> mTxFragmentSize ?e" using headerRoom_cursor(2) [of a] inv(2) F by simp
  have "length (fragBytes ?f) \<le> F" using nextFrag_fits [OF c headerRoom_cursor(1)] F by simp
  moreover have "fTotal ?f < 65536" using g(6) by (simp add: nextFrag_def kMaxSizeWithoutReserve_def)
  moreover have "dataInv a' bb (fs @ [?f]) (submitted st s @ map bufData [b]) (delivered st s)"
    if "dataInv ?e bb fs (submitted st s) (delivered st s)"
      "if fEnd ?f then mTxState a' = kState_Idle else txRep (Some (drop (mTxFragmentSize ?e - ?h) (bufData b))) a'" for fs bb a'
    using data_first [OF that(1) g(1) _ c, of "bufData b" a'] g(6) l that(2) by (simp add: nextFrag_def)
  ultimately show ?thesis using e' by (intro send_ok [OF inv(1) g(2,3) e']) (simp_all add: nextFrag_def)
qed

lemma continue_ok:
  assumes inv: "linkInv F st" "5 \<le> F" "F < 65536" and p: "permitted alloc (Continue s a) st"
  shows "\<exists>st'. linkSend s [] a st = Some st' \<and> linkInv F st'"
proof -
  let ?e = "node st s" and ?c = "if a then 3 else 2 :: nat"
  have F: "mTxFragmentSize ?e = F" using linkInv_sizes inv(1) by blast
  have g: "mTxState ?e = kState_InProgress" "windowOpen ?e" "a \<longrightarrow> HasUnackedData ?e" using p by auto
  obtain r where "txRep r ?e" using inv(1) unfolding linkInv_def dataInv_def by blast
  then obtain rest where rest: "txRep (Some rest) ?e" using g(1) by (cases r) (auto simp: txRep_def)
  let ?f = "nextFrag False 0 rest ?c a ?e"
  obtain e' b' t n k where e': "HandleCharacteristicSend [] a ?e = Some (True, e')"
      "e' = (txSeq a (?e\<lparr>mTxCharCount := mTxCharCount ?e + 1\<rparr>))\<lparr>mTxBuf := [b'], mTxLength := n, mTxState := t, mTxPacketCount := k\<rparr>"
      "bufData b' = fragBytes ?f" "if fEnd ?f then t = kState_Complete else txRep (Some (drop (mTxFragmentSize ?e - ?c) rest)) e'"
    using send_next [OF rest g(3)] F inv(2,3) by blast
  have c: "?c \<le> mTxFragmentSize ?e" "?c = 2 + (if a then 1 else 0) + (if False then 2 else 0)" using inv(2) F by simp_all
  have "length (fragBytes ?f) \<le> F" using nextFrag_fits [OF c] F by simp
  moreover have "dataInv a' bb (fs @ [?f]) (submitted st s @ map bufData []) (delivered st s)"
    if "dataInv ?e bb fs (submitted st s) (delivered st s)"
      "if fEnd ?f then mTxState a' = kState_Idle else txRep (Some (drop (mTxFragmentSize ?e - ?c) rest)) a'" for fs bb a'
    using data_next [OF that(1) rest c(1), of a'] that(2) by (simp add: nextFrag_def)
  ultimately show ?thesis using e' by (intro send_ok [OF inv(1) g(2,3) e']) (simp_all add: nextFrag_def)
qed

lemma ack_ok:
  assumes inv: "linkInv F st" "5 \<le> F" and p: "permitted alloc (Ack s b) st"
  shows "\<exists>st'. linkAck s b st = Some st' \<and> linkInv F st'"
proof -
  let ?e = "node st s"
  let ?f = "\<lparr>fStart = False, fContinue = False, fEnd = False, fAck = txAckOf True ?e, fSeq = mTxNextSeqNum ?e, fTotal = 0, fBody = []\<rparr>"
  have g: "windowOpen ?e" "HasUnackedData ?e" "chainOk [b]" "MaxDataLength b \<ge> kTransferProtocolStandaloneAckHeaderSize" using p by auto
  obtain b' where e': "EncodeStandAloneAck [b] ?e = Some (None, [b'], txSeq True ?e)" "bufData b' = fragBytes ?f"
    using EncodeStandAloneAck_ok [OF g(3,4)] by blast
  have tx: "txRep t (txSeq True ?e) = txRep t ?e" for t
    by (intro txRep_cong) (simp_all add: txSeq_def GetAndIncrementNextTxSeqNum_def GetAndRecordRxAckSeqNum_def Let_def)
  have em: "emits True ?e (txSeq True ?e) ?f"
    by (simp add: emits_def txAckOf_def txSeq_def GetAndIncrementNextTxSeqNum_def GetAndRecordRxAckSeqNum_def Let_def IncSeqNum_def)
  have l: "length (fragBytes ?f) \<le> F" using inv(2) by (simp add: fragBytes_def fragHeader_def fragPayload_def txAckOf_def)
  have "linkInv F (st\<lparr>node := (node st)(s := txSeq True ?e), chan := (chan st)(s := chan st s @ [fragBytes ?f]),
      submitted := (submitted st)(s := submitted st s)\<rparr>)"
    by (rule link_emit [OF inv(1) g(1) _ em]) (use g(2) l tx data_ack in \<open>auto simp: hasData_def\<close>)
  moreover have "st\<lparr>node := (node st)(s := txSeq True ?e), chan := (chan st)(s := chan st s @ [fragBytes ?f]),
      submitted := (submitted st)(s := submitted st s)\<rparr> =
    st\<lparr>node := (node st)(s := txSeq True ?e), chan := (chan st)(s := chan st s @ [fragBytes ?f])\<rparr>"
    by (intro link.equality) simp_all
  ultimately show ?thesis using e' by (simp add: linkAck_def)
qed

text \<open>Delivery: the fragment is accepted, and a finished message comes out.\<close>

lemma take_frame:
  "absorbs f b (snd (TakeRxPacket e)) = absorbs f b e" "txRep t (snd (TakeRxPacket e)) = txRep t e"
  "mTxFragmentSize (snd (TakeRxPacket e)) = mTxFragmentSize e" "mRxFragmentSize (snd (TakeRxPacket e)) = mRxFragmentSize e"
  by (simp_all add: absorbs_def TakeRxPacket_def txRep_def split: option.split)

lemma deliver_engine:
  assumes b: "owned [b]" "bufData b = fragBytes f" and acc: "acceptable f e" "fTotal f < 65536"
    and rep: "rxRep st e" "rcv st f = Some (st', m)" and mem: "memoryFor alloc i"
  shows "\<exists>v. HandleCharacteristicReceived alloc i \<lparr>rxEngine = e, rxData = [b], receivedAck = 0, didReceiveAck = False\<rparr> = Some (None, v) \<and>
    (mRxState (rxEngine v) = kState_Complete \<longleftrightarrow> m \<noteq> None) \<and> (\<forall>x. m = Some x \<longrightarrow> chainData (fst (TakeRxPacket (rxEngine v))) = x) \<and>
    rxRep st' (if m \<noteq> None then snd (TakeRxPacket (rxEngine v)) else rxEngine v) \<and> absorbs f e (rxEngine v) \<and>
    (\<forall>t. txRep t (rxEngine v) = txRep t e) \<and> mTxFragmentSize (rxEngine v) = mTxFragmentSize e \<and>
    mRxFragmentSize (rxEngine v) = mRxFragmentSize e"
proof -
  obtain v s n c k where v: "HandleCharacteristicReceived alloc i \<lparr>rxEngine = e, rxData = [b], receivedAck = 0, didReceiveAck = False\<rparr> = Some (None, v)"
      "rxEngine v = (rxSeen f e)\<lparr>mRxState := s, mRxLength := n, mRxBuf := c, mRxPacketCount := k\<rparr>"
      "case m of None \<Rightarrow> rxRep st' (rxEngine v) | Some x \<Rightarrow> s = kState_Complete \<and> owned c \<and> chainData c = x \<and> st' = None"
    using receive_refines [OF b acc rep mem] by blast
  have ab: "absorbs f e (rxEngine v)" unfolding v(2) using acc by (intro rxSeen_absorbs) (simp add: acceptable_def)
  have tx: "txRep t (rxEngine v) = txRep t e" for t unfolding v(2) by (rule txRep_cong) simp_all
  have "mRxState (rxEngine v) = kState_Complete \<longleftrightarrow> m \<noteq> None"
    using v(2,3) by (cases m) (auto simp: rxRep_def split: option.splits)
  moreover have "chainData (fst (TakeRxPacket (rxEngine v))) = x" if "m = Some x" for x using v(2,3) that by (simp add: TakeRxPacket_def)
  moreover have "rxRep st' (if m \<noteq> None then snd (TakeRxPacket (rxEngine v)) else rxEngine v)"
    using v(2,3) by (cases m) (auto simp: rxRep_def TakeRxPacket_def)
  ultimately show ?thesis using v(1) ab tx v(2) by auto
qed

lemma deliver_ok:
  assumes inv: "linkInv F st" and p: "permitted alloc (Deliver s i b) st"
  shows "\<exists>st'. linkDeliver alloc s i b st = Some st' \<and> linkInv F st'"
proof -
  let ?a = "node st s" and ?b = "node st (\<not> s)"
  obtain fs S R K L where i: "\<And>s. dirInv F (node st s) (node st (\<not> s)) (fs s) (fs (\<not> s)) (S s) (R s) (K s) (L s) \<and>
        chan st s = map fragBytes (fs s) \<and> dataInv (node st s) (node st (\<not> s)) (fs s) (submitted st s) (delivered st s)"
    using inv unfolding linkInv_def by blast
  obtain f gs where f: "fs s = f # gs" using i [of s] p by (cases "fs s") auto
  have b: "owned [b]" "bufData b = fragBytes f" "memoryFor alloc i" using p i [of s] f by auto
  have d: "dirInv F ?a ?b (f # gs) (fs (\<not> s)) (S s) (R s) (K s) (L s)" "dirInv F ?b ?a (fs (\<not> s)) (f # gs) (S (\<not> s)) (R (\<not> s)) (K (\<not> s)) (L (\<not> s))"
    using i [of s] i [of "\<not> s"] by (auto simp: f)
  have "fSeq f = mRxNextSeqNum ?b" using d(1) by (auto simp: dirInv_def seqInv_def seqs_Cons simp del: seqs_simps(3))
  then have acc: "acceptable f ?b" "fTotal f < 65536"
    using d ack_acceptable [of "S (\<not> s)" "R (\<not> s)" "K (\<not> s)" "L (\<not> s)" ?b ?a f gs] by (auto simp: acceptable_def dirInv_def)
  obtain r r' ms t ps where da: "rxRep r ?b" "rcvs r (f # gs) = Some (r', ms)" "txRep t ?a" "unsent t r' ps" "submitted st s = delivered st s @ ms @ ps"
    using i [of s] unfolding dataInv_def f by blast
  obtain r1 m ms1 where r1: "rcv r f = Some (r1, m)" "rcvs r1 gs = Some (r', ms1)" "ms = (case m of None \<Rightarrow> [] | Some m \<Rightarrow> [m]) @ ms1"
    using da(2) by (auto split: option.splits)
  obtain v where v: "HandleCharacteristicReceived alloc i \<lparr>rxEngine = ?b, rxData = [b], receivedAck = 0, didReceiveAck = False\<rparr> = Some (None, v)"
      "mRxState (rxEngine v) = kState_Complete \<longleftrightarrow> m \<noteq> None" "\<forall>x. m = Some x \<longrightarrow> chainData (fst (TakeRxPacket (rxEngine v))) = x"
      "rxRep r1 (if m \<noteq> None then snd (TakeRxPacket (rxEngine v)) else rxEngine v)" "absorbs f ?b (rxEngine v)"
      "\<forall>t. txRep t (rxEngine v) = txRep t ?b" "mTxFragmentSize (rxEngine v) = mTxFragmentSize ?b" "mRxFragmentSize (rxEngine v) = mRxFragmentSize ?b"
    using deliver_engine [OF b(1,2) acc da(1) r1(1) b(3)] by blast
  define b' where "b' = (if m \<noteq> None then snd (TakeRxPacket (rxEngine v)) else rxEngine v)"
  have b': "absorbs f ?b b'" "txRep t b' = txRep t ?b" "mTxFragmentSize b' = F" "mRxFragmentSize b' = F" for t
    using v(5-8) linkInv_sizes [OF inv, of "\<not> s"] by (simp_all add: b'_def take_frame)
  define del where "del = delivered st s @ (case m of None \<Rightarrow> [] | Some m \<Rightarrow> [m])"
  note c = absorb_counts [OF b'(1), of "S s" "R s" ?a gs "K s" "L s" "fs (\<not> s)" "S (\<not> s)" "R (\<not> s)" "K (\<not> s)" "L (\<not> s)"]
  obtain L2 where L2: "ackInv (S (\<not> s)) (R (\<not> s)) (K (\<not> s)) L2 b' ?a gs" using c(4) d by (auto simp: dirInv_def)
  have 1: "dirInv F ?a b' gs (fs (\<not> s)) (S s) (Suc (R s)) (K s) (L s)" using c d b'(4) by (auto simp: dirInv_def)
  have 2: "dirInv F b' ?a (fs (\<not> s)) gs (S (\<not> s)) (R (\<not> s)) (K (\<not> s)) L2" using c(3) d b'(3) L2 by (auto simp: dirInv_def)
  have 3: "dataInv ?a b' gs (submitted st s) del"
    by (rule dataInvI [OF v(4) [folded b'_def] r1(2) da(3,4)]) (simp add: da(5) del_def r1(3))
  have 4: "dataInv b' ?a (fs (\<not> s)) (submitted st (\<not> s)) (delivered st (\<not> s))" using i [of "\<not> s"] b'(2) by (simp add: dataInv_def)
  let ?st = "st\<lparr>node := (node st)((\<not> s) := b'), chan := (chan st)(s := tl (chan st s)), delivered := (delivered st)(s := del)\<rparr>"
  have "linkInv F ?st" unfolding linkInv_def
    by (intro exI [of _ "fs(s := gs)"] exI [of _ S] exI [of _ "R(s := Suc (R s))"] exI [of _ K] exI [of _ "L((\<not> s) := L2)"],
        subst all_bool [of _ s]) (use 1 2 3 4 i [of s] i [of "\<not> s"] f in simp)
  moreover have "linkDeliver alloc s i b st = Some ?st"
    using v(1-3) by (cases m) (auto simp: linkDeliver_def Let_def b'_def del_def)
  ultimately show ?thesis by blast
qed

lemma exec_ok:
  assumes "linkInv F st" "5 \<le> F" "F < 65536" "permitted alloc op st"
  shows "\<exists>st'. exec alloc op st = Some st' \<and> linkInv F st'"
  using assms
proof (cases op)
  case (Start s b a)
  then show ?thesis using start_ok assms by (simp del: permitted.simps)
next
  case (Continue s a)
  then show ?thesis using continue_ok assms by (simp del: permitted.simps)
next
  case (Ack s b)
  then show ?thesis using ack_ok assms by (simp del: permitted.simps)
next
  case (Deliver s i b)
  then show ?thesis using deliver_ok assms by (simp del: permitted.simps)
qed

lemma reachable_inv: "reachableLink alloc F st \<Longrightarrow> 5 \<le> F \<Longrightarrow> F < 65536 \<Longrightarrow> linkInv F st"
proof (induction rule: reachableLink.induct)
  case (init es)
  show ?case by (rule linkInv_init)
next
  case (step st op st')
  then show ?case using exec_ok by fastforce
qed

section \<open>Transfer of a message\<close>

text \<open>The platform delivers every fragment before the next one is sent.\<close>

definition platformBuffer :: "bytes \<Rightarrow> pbuf" where
  "platformBuffer bs = \<lparr>mem = bs, payload = 0, len = length bs, tot_len = length bs, ref = 1\<rparr>"

definition pumpOp :: "bool \<Rightarrow> link \<Rightarrow> linkOp" where
  "pumpOp s st = (if chan st s \<noteq> [] then Deliver s 0 (platformBuffer (hd (chan st s))) else Continue s False)"

definition quiet :: "bool \<Rightarrow> link \<Rightarrow> bool" where
  "quiet s st \<longleftrightarrow> chan st s = [] \<and> mTxState (node st s) = kState_Idle"

fun pump :: "nat \<Rightarrow> (nat \<Rightarrow> nat \<Rightarrow> bytes option) \<Rightarrow> bool \<Rightarrow> link \<Rightarrow> link option" where
  "pump 0 alloc s st = (if quiet s st then Some st else None)"
| "pump (Suc n) alloc s st =
     (if quiet s st then Some st else (case exec alloc (pumpOp s st) st of None \<Rightarrow> None | Some st' \<Rightarrow> pump n alloc s st'))"

definition transfer :: "nat \<Rightarrow> (nat \<Rightarrow> nat \<Rightarrow> bytes option) \<Rightarrow> bool \<Rightarrow> pbuf \<Rightarrow> link \<Rightarrow> link option" where
  "transfer n alloc s b st = (case exec alloc (Start s b False) st of None \<Rightarrow> None | Some st' \<Rightarrow> pump n alloc s st')"

lemma platformBuffer_ok: "length bs < 65536 \<Longrightarrow> owned [platformBuffer bs] \<and> bufData (platformBuffer bs) = bs"
  by (simp add: platformBuffer_def owned_def bufOk_def bufData_def)

lemma linkInv_txSeqOk:
  assumes "linkInv F st"
  shows "txSeqOk (node st s)"
proof -
  obtain fs S R K L where "\<And>s. dirInv F (node st s) (node st (\<not> s)) (fs s) (fs (\<not> s)) (S s) (R s) (K s) (L s)"
    using assms unfolding linkInv_def by blast
  from this [of s] show ?thesis by (cases "S s") (auto simp: dirInv_def seqInv_def ackInv_def txSeqOk_def)
qed

lemma linkInv_chan:
  assumes "linkInv F st" "x \<in> set (chan st s)"
  shows "length x \<le> F"
proof -
  obtain fs S R K L where "dirInv F (node st s) (node st (\<not> s)) (fs s) (fs (\<not> s)) (S s) (R s) (K s) (L s)" "chan st s = map fragBytes (fs s)"
    using assms unfolding linkInv_def by blast
  then show ?thesis using assms(2) by (auto simp: dirInv_def list_all_iff)
qed

lemma linkInv_quiet:
  assumes "linkInv F st"
  shows "\<exists>ps. submitted st s = delivered st s @ ps \<and> (quiet s st \<longrightarrow> ps = [])"
proof -
  obtain fs where c: "chan st s = map fragBytes (fs s)" "dataInv (node st s) (node st (\<not> s)) (fs s) (submitted st s) (delivered st s)"
    using assms unfolding linkInv_def by blast
  obtain r r' ms t ps where da: "rcvs r (fs s) = Some (r', ms)" "txRep t (node st s)" "unsent t r' ps" "submitted st s = delivered st s @ ms @ ps"
    using c(2) unfolding dataInv_def by blast
  have "ms @ ps = []" if "quiet s st"
  proof -
    have "fs s = []" "t = None" using that c(1) da(2) by (auto simp: quiet_def txRep_def split: option.splits)
    then show ?thesis using da(1,3) by (simp add: unsent_def)
  qed
  then show ?thesis using da(4) by blast
qed

definition sent :: "nat \<Rightarrow> nat \<Rightarrow> link \<Rightarrow> link \<Rightarrow> bool \<Rightarrow> bool" where
  "sent n cap st st' s \<longleftrightarrow>
     (\<exists>x. chan st' s = chan st s @ [x]) \<and> length (outstanding (node st' s)) = Suc (length (outstanding (node st s))) \<and>
     (if n \<le> cap then mTxState (node st' s) = kState_Idle
      else mTxState (node st' s) = kState_InProgress \<and> mTxLength (node st' s) = n - cap)"

lemma send_sent:
  assumes inv: "linkInv F st" and g: "windowOpen (node st s)" "\<not> send_ack"
    and snd: "HandleCharacteristicSend data send_ack (node st s) = Some (True, e)"
      "e = (txSeq send_ack ((node st s)\<lparr>mTxCharCount := mTxCharCount (node st s) + 1\<rparr>))\<lparr>mTxBuf := [b'], mTxLength := n, mTxState := t, mTxPacketCount := k\<rparr>"
      "if length rest + c \<le> F then t = kState_Complete else txRep (Some (drop (F - c) rest)) e" "c \<le> F"
    and st': "linkSend s data send_ack st = Some st'"
  shows "sent (length rest) (F - c) st st' s \<and> submitted st' s = submitted st s @ map bufData data"
proof -
  define a' where "a' = (if mTxState e = kState_Complete then snd (TakeTxPacket e) else e)"
  have eq: "st' = st\<lparr>node := (node st)(s := a'), chan := (chan st)(s := chan st s @ [bufData (hd (mTxBuf e))]),
      submitted := (submitted st)(s := submitted st s @ map bufData data)\<rparr>"
    using st' snd(1) by (simp add: linkSend_def a'_def)
  let ?n = "snd (GetAndIncrementNextTxSeqNum (node st s))"
  have "mExpectingAck a' = mExpectingAck ?n" "mTxOldestUnackedSeqNum a' = mTxOldestUnackedSeqNum ?n" "mTxNewestUnackedSeqNum a' = mTxNewestUnackedSeqNum ?n"
    using g(2) by (simp_all add: a'_def TakeTxPacket_def snd(2) txSeq_def GetAndIncrementNextTxSeqNum_def Let_def)
  then have "outstanding a' = outstanding ?n" by (simp add: outstanding_def)
  also have "\<dots> = outstanding (node st s) @ [mTxNextSeqNum (node st s)]"
    using GetAndIncrementNextTxSeqNum_window(1) [OF linkInv_txSeqOk [OF inv]] g(1) by (simp add: windowOpen_def)
  finally have "length (outstanding a') = Suc (length (outstanding (node st s)))" by simp
  moreover have "if length rest \<le> F - c then mTxState a' = kState_Idle else mTxState a' = kState_InProgress \<and> mTxLength a' = length rest - (F - c)"
  proof (cases "length rest + c \<le> F")
    case True
    then have "mTxState e = kState_Complete" using snd(2,3) by simp
    then show ?thesis using True by (simp add: a'_def TakeTxPacket_def)
  next
    case False
    then have "txRep (Some (drop (F - c) rest)) e" using snd(3) by simp
    then show ?thesis using False snd(4) by (auto simp: a'_def txRep_def)
  qed
  ultimately show ?thesis by (simp add: sent_def eq)
qed

lemma start_sent:
  assumes inv: "linkInv F st" "5 \<le> F" "F < 65536" and p: "permitted alloc (Start s b False) st" and st': "linkSend s [b] False st = Some st'"
  shows "sent (len b) (F - 4) st st' s \<and> submitted st' s = submitted st s @ [bufData b]"
proof -
  let ?e = "node st s"
  have F: "mTxFragmentSize ?e = F" using linkInv_sizes inv(1) by blast
  have g: "mTxState ?e = kState_Idle" "windowOpen ?e" "chainOk [b]" "headerRoom False + len b \<le> AllocSize b" using p by auto
  have l: "length (bufData b) = len b" using g(3) by simp
  have h: "headerRoom False = 4" using headerRoom_cursor(1) [of False] by simp
  obtain e' b' t n k where e': "HandleCharacteristicSend [b] False ?e = Some (True, e')"
      "e' = (txSeq False (?e\<lparr>mTxCharCount := mTxCharCount ?e + 1\<rparr>))\<lparr>mTxBuf := [b'], mTxLength := n, mTxState := t, mTxPacketCount := k\<rparr>"
      "if fEnd (nextFrag True (len b) (bufData b) 4 False ?e) then t = kState_Complete else txRep (Some (drop (F - 4) (bufData b))) e'"
    using send_first [OF g(1) _ _ _ g(3,4)] F inv(2,3) unfolding h by blast
  have "if length (bufData b) + 4 \<le> F then t = kState_Complete else txRep (Some (drop (F - 4) (bufData b))) e'"
    using e'(3) F by (simp add: nextFrag_def)
  from send_sent [OF inv(1) g(2) _ e'(1,2) this _ st'] inv(2) show ?thesis by (simp add: l)
qed

lemma continue_sent:
  assumes inv: "linkInv F st" "5 \<le> F" "F < 65536" and p: "permitted alloc (Continue s False) st" and st': "linkSend s [] False st = Some st'"
  shows "0 < mTxLength (node st s) \<and> sent (mTxLength (node st s)) (F - 2) st st' s \<and> submitted st' s = submitted st s"
proof -
  let ?e = "node st s"
  have F: "mTxFragmentSize ?e = F" using linkInv_sizes inv(1) by blast
  have g: "mTxState ?e = kState_InProgress" "windowOpen ?e" using p by auto
  obtain r where "txRep r ?e" using inv(1) unfolding linkInv_def dataInv_def by blast
  then obtain rest where rest: "txRep (Some rest) ?e" "mTxLength ?e = length rest" "rest \<noteq> []" using g(1) by (cases r) (auto simp: txRep_def)
  obtain e' b' t n k where e': "HandleCharacteristicSend [] False ?e = Some (True, e')"
      "e' = (txSeq False (?e\<lparr>mTxCharCount := mTxCharCount ?e + 1\<rparr>))\<lparr>mTxBuf := [b'], mTxLength := n, mTxState := t, mTxPacketCount := k\<rparr>"
      "if fEnd (nextFrag False 0 rest 2 False ?e) then t = kState_Complete else txRep (Some (drop (F - 2) rest)) e'"
    using send_next [OF rest(1), of False] F inv(2,3) unfolding if_False by blast
  have "if length rest + 2 \<le> F then t = kState_Complete else txRep (Some (drop (F - 2) rest)) e'"
    using e'(3) F by (simp add: nextFrag_def)
  from send_sent [OF inv(1) g(2) _ e'(1,2) this _ st'] inv(2) show ?thesis by (simp add: rest)
qed

text \<open>The bytes that are left and the free part of the window: each fragment takes \<open>F - 2\<close> bytes of both.\<close>

definition left :: "bool \<Rightarrow> link \<Rightarrow> nat" where
  "left s st = (if mTxState (node st s) = kState_InProgress then mTxLength (node st s) else 0)"

definition enoughWindow :: "nat \<Rightarrow> bool \<Rightarrow> link \<Rightarrow> bool" where
  "enoughWindow F s st \<longleftrightarrow> (F - 2) * length (outstanding (node st s)) + left s st \<le> 256 * (F - 2)"

lemma pump_step:
  assumes r: "reachableLink alloc F st" and F: "5 \<le> F" "F < 65536" and w: "enoughWindow F s st" and mem: "memoryFor alloc 0" and q: "\<not> quiet s st"
  shows "\<exists>st'. exec alloc (pumpOp s st) st = Some st' \<and> reachableLink alloc F st' \<and> enoughWindow F s st' \<and> submitted st' s = submitted st s \<and>
    2 * left s st' + length (chan st' s) < 2 * left s st + length (chan st s)"
proof -
  have inv: "linkInv F st" using reachable_inv r F by blast
  show ?thesis
  proof (cases "chan st s")
    case (Cons x xs)
    let ?op = "Deliver s 0 (platformBuffer x)"
    have "length x < 65536" using linkInv_chan [OF inv, of x s] Cons F by simp
    then have p: "permitted alloc ?op st" using platformBuffer_ok mem Cons by simp
    obtain st' where st': "exec alloc ?op st = Some st'" using exec_ok [OF inv F p] by blast
    have "node st' s = node st s" "chan st' s = xs" "submitted st' s = submitted st s"
      using st' Cons by (auto simp: linkDeliver_def Let_def split: option.splits prod.splits)
    then show ?thesis using st' w reachableLink.step [OF r p st'] Cons by (auto simp: pumpOp_def enoughWindow_def left_def)
  next
    case Nil
    let ?e = "node st s"
    obtain t where "txRep t ?e" using inv unfolding linkInv_def dataInv_def by blast
    then have prog: "mTxState ?e = kState_InProgress" "0 < mTxLength ?e"
      using q Nil by (auto simp: quiet_def txRep_def split: option.splits)
    let ?o = "length (outstanding ?e)"
    have le: "(F - 2) * ?o + mTxLength ?e \<le> (F - 2) * 256" using w prog(1) by (simp add: enoughWindow_def left_def)
    then have "(F - 2) * ?o < (F - 2) * 256" using prog(2) by linarith
    then have o: "?o < 256" by (simp only: mult_less_cancel1)
    then have "windowOpen ?e" by (simp add: windowOpen_def)
    then have p: "permitted alloc (Continue s False) st" using prog by simp
    obtain st' where st': "linkSend s [] False st = Some st'" using continue_ok [OF inv F p] by blast
    then have ex: "exec alloc (Continue s False) st = Some st'" by simp
    note sn = continue_sent [OF inv F p st']
    have "(F - 2) * Suc ?o \<le> (F - 2) * 256" using o by (intro mult_le_mono2) simp
    then have "enoughWindow F s st'" using sn le
      by (auto simp: sent_def enoughWindow_def left_def split: if_splits)
    moreover have "2 * left s st' + length (chan st' s) < 2 * left s st + length (chan st s)"
      using sn prog F Nil by (auto simp: sent_def left_def split: if_splits)
    ultimately show ?thesis using ex reachableLink.step [OF r p ex] sn Nil by (auto simp: pumpOp_def)
  qed
qed

lemma pump_ends:
  assumes "reachableLink alloc F st" "5 \<le> F" "F < 65536" "enoughWindow F s st" "memoryFor alloc 0" "2 * left s st + length (chan st s) \<le> n"
  shows "\<exists>st'. pump n alloc s st = Some st' \<and> reachableLink alloc F st' \<and> quiet s st' \<and> submitted st' s = submitted st s"
  using assms
proof (induction n arbitrary: st)
  case 0
  have "quiet s st" using pump_step [of alloc F st s] 0 by fastforce
  then show ?case using 0 by simp
next
  case (Suc n)
  show ?case
  proof (cases "quiet s st")
    case False
    obtain st' where st': "exec alloc (pumpOp s st) st = Some st'" "reachableLink alloc F st'" "enoughWindow F s st'" "submitted st' s = submitted st s"
        "2 * left s st' + length (chan st' s) < 2 * left s st + length (chan st s)"
      using pump_step [OF Suc.prems(1-5) False] by blast
    then show ?thesis using Suc.IH [OF st'(2) Suc.prems(2,3) st'(3) Suc.prems(5)] Suc.prems(6) False by simp
  qed (use Suc.prems in simp)
qed

section \<open>The remote receive window\<close>

text \<open>
  \<open>BLEEndPoint::AdjustRemoteReceiveWindow\<close>: the open slots after an acknowledgement.  The boundary is a
  16-bit value and \<open>UINT8_MAX\<close> is 255.
\<close>

definition AdjustRemoteReceiveWindow :: "u8 \<Rightarrow> u8 \<Rightarrow> u8 \<Rightarrow> u8" where
  "AdjustRemoteReceiveWindow lastReceivedAck maxRemoteWindowSize newestUnackedSentSeqNum =
     (let newRemoteWindowBoundary = unat lastReceivedAck + unat maxRemoteWindowSize
      in if newRemoteWindowBoundary > 255 \<and> newestUnackedSentSeqNum < lastReceivedAck
         then of_int (int newRemoteWindowBoundary - int (unat newestUnackedSentSeqNum + 255))
         else of_int (int newRemoteWindowBoundary - int (unat newestUnackedSentSeqNum)))"

lemma AdjustRemoteReceiveWindow_word:
  "AdjustRemoteReceiveWindow a m n = a + m - n + (if unat a + unat m > 255 \<and> n < a then 1 else 0)"
  by (simp add: AdjustRemoteReceiveWindow_def Let_def)

section \<open>Properties\<close>

text \<open>A concrete link for the witnesses: fragments of 20 bytes, unlimited memory, a message of 30 bytes.\<close>

definition zeroMemory :: "nat \<Rightarrow> nat \<Rightarrow> bytes option" where
  "zeroMemory i n = Some (replicate n 0)"

definition message30 :: pbuf where
  "message30 = \<lparr>mem = replicate 40 7, payload = 5, len = 30, tot_len = 30, ref = 1\<rparr>"

lemma message30_permitted: "permitted zeroMemory (Start False message30 False) (linkInit 20 (\<lambda>_. engine0))"
  by (simp add: linkInit_def SetTxFragmentSize_def SetRxFragmentSize_def BtpEngine_Init_def windowOpen_def outstanding_def message30_def bufOk_def
      headerRoom_def kTransferProtocolMaxHeaderSize_def kTransferProtocolAckSize_def AllocSize_def kMaxSizeWithoutReserve_def)

text \<open>
  C25.  Between two engines that start with the handshake of \<open>Init\<close> and a common fragment size of at least
  five bytes, nothing that the end points are permitted to do ever fails: every fragment is produced,
  every fragment that arrives is accepted, sequence number and acknowledgement included.
\<close>

theorem btp_link_never_fails:
  assumes "reachableLink alloc F st" "5 \<le> F" "F < 65536" "permitted alloc op st"
  shows "\<exists>st'. exec alloc op st = Some st'"
  using exec_ok [OF reachable_inv [OF assms(1-3)] assms(2-4)] by blast

theorem btp_link_never_fails_witness:
  "\<exists>st'. exec zeroMemory (Start False message30 False) (linkInit 20 (\<lambda>_. engine0)) = Some st'"
  by (rule btp_link_never_fails [OF reachableLink.init _ _ message30_permitted]) simp_all

text \<open>
  C24.  Messages are delivered in the order they were submitted, unchanged, none lost in between and none
  twice; when nothing is on its way, all of them are delivered.
\<close>

theorem btp_delivers_in_order:
  assumes "reachableLink alloc F st" "5 \<le> F" "F < 65536"
  shows "\<exists>ps. submitted st s = delivered st s @ ps \<and> (quiet s st \<longrightarrow> ps = [])"
  by (rule linkInv_quiet [OF reachable_inv [OF assms]])

text \<open>The witness is a link with a message of 30 bytes in transit.\<close>

theorem btp_delivers_in_order_witness:
  "\<exists>st ps. exec zeroMemory (Start False message30 False) (linkInit 20 (\<lambda>_. engine0)) = Some st \<and>
     submitted st False = [replicate 30 7] \<and> submitted st False = delivered st False @ ps \<and> (quiet False st \<longrightarrow> ps = [])"
proof -
  let ?st = "linkInit 20 (\<lambda>_. engine0)"
  have i: "reachableLink zeroMemory 20 ?st" by (rule reachableLink.init)
  then have inv: "linkInv 20 ?st" using reachable_inv by simp
  obtain st where st: "linkSend False [message30] False ?st = Some st" using start_ok [OF inv _ _ message30_permitted] by auto
  have "submitted st False = [replicate 30 7]"
    using start_sent [OF inv _ _ message30_permitted st] by (simp add: linkInit_def message30_def bufData_def)
  moreover have "reachableLink zeroMemory 20 st" by (rule reachableLink.step [OF i message30_permitted]) (simp add: st)
  ultimately show ?thesis using btp_delivers_in_order [of zeroMemory 20 st False] st by auto
qed

text \<open>
  C26.  A message that is handed to a quiet side and for which the window has room comes out on the other
  side after finitely many steps: \<open>2 * len b + 1\<close> operations are enough.
\<close>

theorem btp_transfer_delivers:
  assumes "reachableLink alloc F st" "5 \<le> F" "F < 65536" "quiet s st" "permitted alloc (Start s b False) st" "memoryFor alloc 0"
    and room: "(F - 2) * Suc (length (outstanding (node st s))) + len b \<le> 256 * (F - 2)" and fuel: "2 * len b + 1 \<le> n"
  shows "\<exists>st'. transfer n alloc s b st = Some st' \<and> delivered st' s = delivered st s @ [bufData b] \<and> quiet s st'"
proof -
  have inv: "linkInv F st" using reachable_inv assms(1-3) by blast
  obtain st1 where st1: "linkSend s [b] False st = Some st1" using start_ok [OF inv assms(2,3,5)] by blast
  note sn = start_sent [OF inv assms(2,3,5) st1]
  have ex: "exec alloc (Start s b False) st = Some st1" using st1 by simp
  have r1: "reachableLink alloc F st1" by (rule reachableLink.step [OF assms(1,5) ex])
  have "left s st1 \<le> len b" "length (chan st1 s) = 1" using sn assms(4) by (auto simp: left_def sent_def quiet_def split: if_splits)
  moreover have "enoughWindow F s st1" using sn room \<open>left s st1 \<le> len b\<close> by (auto simp: enoughWindow_def sent_def)
  ultimately obtain st' where st': "pump n alloc s st1 = Some st'" "reachableLink alloc F st'" "quiet s st'" "submitted st' s = submitted st1 s"
    using pump_ends [OF r1 assms(2,3) _ assms(6), of s n] fuel by auto
  have "delivered st s = submitted st s" "delivered st' s = submitted st' s"
    using linkInv_quiet [OF inv, of s] linkInv_quiet [OF reachable_inv [OF st'(2) assms(2,3)], of s] assms(4) st'(3) by auto
  then show ?thesis using st' sn ex by (simp add: transfer_def)
qed

theorem btp_transfer_delivers_witness:
  "\<exists>st'. transfer 61 zeroMemory False message30 (linkInit 20 (\<lambda>_. engine0)) = Some st' \<and>
     delivered st' False = [replicate 30 7] \<and> quiet False st'"
proof -
  let ?st = "linkInit 20 (\<lambda>_. engine0)"
  have q: "quiet False ?st" "length (outstanding (node ?st False)) = 0" "delivered ?st False = []"
    by (simp_all add: quiet_def outstanding_def linkInit_def SetTxFragmentSize_def SetRxFragmentSize_def BtpEngine_Init_def)
  have m: "memoryFor zeroMemory 0" by (simp add: memoryFor_def zeroMemory_def)
  have l: "len message30 = 30" "bufData message30 = replicate 30 7" by (simp_all add: message30_def bufData_def)
  from btp_transfer_delivers [OF reachableLink.init _ _ q(1) message30_permitted m, of 61] q l show ?thesis by simp
qed

text \<open>
  The open slots of the peer's window are the maximum less the fragments sent since the acknowledged
  one, modulo 256, but one too many when the newest number has wrapped behind the acknowledged one:
  the offset of a wrap is 256 and not 255.
\<close>

theorem adjusted_window_off_by_one:
  "AdjustRemoteReceiveWindow a m n = m - (n - a) + (if unat a + unat m > 255 \<and> n < a then 1 else 0)"
  by (simp add: AdjustRemoteReceiveWindow_word)

end
