(* ===== verification/Ble_Handshake.thy ===== *)
theory Ble_Handshake
  imports Packet_Buffer
begin

text \<open>
  The two messages of the BLE transport handshake, \<^verbatim>\<open>src/ble/BleLayer.cpp\<close>: the capabilities request of
  the central and the response of the peripheral, with the choice of the protocol version.
\<close>

unbundle bit_operations_syntax

section \<open>Messages\<close>

record BleTransportCapabilitiesRequestMessage =
  mSupportedProtocolVersions :: bytes
  mMtu :: u16
  reqWindowSize :: u8

record BleTransportCapabilitiesResponseMessage =
  mSelectedProtocolVersion :: u8
  mFragmentSize :: u16
  respWindowSize :: u8

definition CAPABILITIES_MSG_CHECK_BYTE_1 :: u8 where "CAPABILITIES_MSG_CHECK_BYTE_1 = 0x65"
definition CAPABILITIES_MSG_CHECK_BYTE_2 :: u8 where "CAPABILITIES_MSG_CHECK_BYTE_2 = 0x6C"
definition kCapabilitiesRequestSupportedVersionsLength :: nat where "kCapabilitiesRequestSupportedVersionsLength = 4"
definition kCapabilitiesRequestLength :: nat where "kCapabilitiesRequestLength = 9"
definition kCapabilitiesResponseLength :: nat where "kCapabilitiesResponseLength = 6"
definition NUM_SUPPORTED_PROTOCOL_VERSIONS :: nat where "NUM_SUPPORTED_PROTOCOL_VERSIONS = 8"
definition kBleTransportProtocolVersion_None :: u8 where "kBleTransportProtocolVersion_None = 0"
definition kBleTransportProtocolVersion_V4 :: u8 where "kBleTransportProtocolVersion_V4 = 4"
definition MIN_SUPPORTED_VERSION :: u8 where "MIN_SUPPORTED_VERSION = kBleTransportProtocolVersion_V4"
definition MAX_SUPPORTED_VERSION :: u8 where "MAX_SUPPORTED_VERSION = kBleTransportProtocolVersion_V4"

text \<open>Two versions share a byte, the one with the even index in the lower half.\<close>

definition SetSupportedProtocolVersion :: "nat \<Rightarrow> u8 \<Rightarrow> BleTransportCapabilitiesRequestMessage \<Rightarrow> BleTransportCapabilitiesRequestMessage" where
  "SetSupportedProtocolVersion index version msg =
     (let m = (if index mod 2 = 0 then 0x0F else 0xF0);
          v = (if index mod 2 = 0 then version else push_bit 4 version) AND m;
          vs = mSupportedProtocolVersions msg; slot = vs ! (index div 2)
      in msg\<lparr>mSupportedProtocolVersions := vs[index div 2 := (slot AND NOT m) OR v]\<rparr>)"

definition requestBytes :: "BleTransportCapabilitiesRequestMessage \<Rightarrow> bytes" where
  "requestBytes msg =
     [CAPABILITIES_MSG_CHECK_BYTE_1, CAPABILITIES_MSG_CHECK_BYTE_2] @ mSupportedProtocolVersions msg @ le_bytes 2 (mMtu msg) @
     [reqWindowSize msg]"

definition Request_Encode :: "BleTransportCapabilitiesRequestMessage \<Rightarrow> pbuf \<Rightarrow> pbuf result" where
  "Request_Encode msg b =
     verify (MaxDataLength b \<ge> kCapabilitiesRequestLength) CHIP_ERROR_NO_MEMORY
       (Inr (SetDataLength kCapabilitiesRequestLength (writeBytes (payload b) (requestBytes msg) b)))"

definition Request_Decode :: "pbuf \<Rightarrow> BleTransportCapabilitiesRequestMessage result" where
  "Request_Decode b =
     (let p = drop (payload b) (mem b) in
      verify (len b \<ge> kCapabilitiesRequestLength) CHIP_ERROR_MESSAGE_INCOMPLETE (
      verify (p ! 0 = CAPABILITIES_MSG_CHECK_BYTE_1) BLE_ERROR_INVALID_MESSAGE (
      verify (p ! 1 = CAPABILITIES_MSG_CHECK_BYTE_2) BLE_ERROR_INVALID_MESSAGE (
      Inr \<lparr>mSupportedProtocolVersions = take kCapabilitiesRequestSupportedVersionsLength (drop 2 p),
           mMtu = le_word (take 2 (drop 6 p)), reqWindowSize = p ! 8\<rparr>))))"

definition responseBytes :: "BleTransportCapabilitiesResponseMessage \<Rightarrow> bytes" where
  "responseBytes msg =
     [CAPABILITIES_MSG_CHECK_BYTE_1, CAPABILITIES_MSG_CHECK_BYTE_2, mSelectedProtocolVersion msg] @ le_bytes 2 (mFragmentSize msg) @
     [respWindowSize msg]"

definition Response_Encode :: "BleTransportCapabilitiesResponseMessage \<Rightarrow> pbuf \<Rightarrow> pbuf result" where
  "Response_Encode msg b =
     verify (MaxDataLength b \<ge> kCapabilitiesResponseLength) CHIP_ERROR_NO_MEMORY
       (Inr (SetDataLength kCapabilitiesResponseLength (writeBytes (payload b) (responseBytes msg) b)))"

definition Response_Decode :: "pbuf \<Rightarrow> BleTransportCapabilitiesResponseMessage result" where
  "Response_Decode b =
     (let p = drop (payload b) (mem b) in
      verify (len b \<ge> kCapabilitiesResponseLength) CHIP_ERROR_MESSAGE_INCOMPLETE (
      verify (p ! 0 = CAPABILITIES_MSG_CHECK_BYTE_1) BLE_ERROR_INVALID_MESSAGE (
      verify (p ! 1 = CAPABILITIES_MSG_CHECK_BYTE_2) BLE_ERROR_INVALID_MESSAGE (
      Inr \<lparr>mSelectedProtocolVersion = p ! 2, mFragmentSize = le_word (take 2 (drop 3 p)), respWindowSize = p ! 5\<rparr>))))"

text \<open>The loop over the versions, lower half of each byte first; version zero ends the list.\<close>

definition versionNibbles :: "bytes \<Rightarrow> u8 list" where
  "versionNibbles vs = concat (map (\<lambda>v. [v AND 0x0F, drop_bit 4 v AND 0x0F]) vs)"

fun highestLoop :: "u8 \<Rightarrow> u8 list \<Rightarrow> u8" where
  "highestLoop retVersion [] = retVersion"
| "highestLoop retVersion (version # vs) =
     (if version \<ge> MIN_SUPPORTED_VERSION \<and> version \<le> MAX_SUPPORTED_VERSION \<and> version > retVersion then highestLoop version vs
      else if version = kBleTransportProtocolVersion_None then retVersion
      else highestLoop retVersion vs)"

definition GetHighestSupportedProtocolVersion :: "BleTransportCapabilitiesRequestMessage \<Rightarrow> u8" where
  "GetHighestSupportedProtocolVersion reqMsg =
     highestLoop kBleTransportProtocolVersion_None
       (take NUM_SUPPORTED_PROTOCOL_VERSIONS (versionNibbles (mSupportedProtocolVersions reqMsg)))"

section \<open>Round trips\<close>

lemma length_requestBytes: "length (mSupportedProtocolVersions msg) = 4 \<Longrightarrow> length (requestBytes msg) = 9"
  by (simp add: requestBytes_def)

lemma length_responseBytes: "length (responseBytes msg) = 6"
  by (simp add: responseBytes_def)

text \<open>A buffer that holds given bytes is encoded in place and holds nothing else.\<close>

lemma encoded_buffer:
  assumes "chainOk [b]" "length bs = n" "n \<le> MaxDataLength b"
  shows "chainOk [SetDataLength n (writeBytes (payload b) bs b)] \<and> bufData (SetDataLength n (writeBytes (payload b) bs b)) = bs \<and>
    len (SetDataLength n (writeBytes (payload b) bs b)) = n \<and> ref (SetDataLength n (writeBytes (payload b) bs b)) = ref b"
proof -
  have fit: "payload b + length bs \<le> length (mem b)"
    using assms by (auto simp: MaxDataLength_def AllocSize_def ReservedSize_def bufOk_def)
  let ?b = "writeBytes (payload b) bs b"
  have ok: "chainOk [?b]" "n \<le> MaxDataLength ?b" using assms fit
    by (auto simp: writeBytes_def bufOk_def MaxDataLength_def AllocSize_def ReservedSize_def)
  have "take n (drop (payload ?b) (mem ?b)) = bs" using memcpy_at [OF fit] assms(2) by (simp add: writeBytes_def)
  then show ?thesis using SetDataLength_ok [OF ok] by (simp add: SetDataLength_def Let_def writeBytes_def)
qed

lemma bufData_prefix: "bufData b = bs \<Longrightarrow> \<exists>rest. drop (payload b) (mem b) = bs @ rest"
  unfolding bufData_def by (metis append_take_drop_id)

lemma Request_Decode_bytes:
  assumes "bufData b = requestBytes msg" "chainOk [b]" "length (mSupportedProtocolVersions msg) = 4"
  shows "Request_Decode b = Inr msg"
proof -
  obtain rest where r: "drop (payload b) (mem b) = requestBytes msg @ rest" using bufData_prefix [OF assms(1)] by blast
  have "len b = 9" using assms length_requestBytes by (metis chainOk_simps(2) length_bufData)
  moreover obtain v1 v2 v3 v4 where "mSupportedProtocolVersions msg = [v1, v2, v3, v4]"
    using assms(3) by (auto simp: numeral_eq_Suc length_Suc_conv)
  moreover have "le_bytes 2 (mMtu msg) = [ucast (mMtu msg), ucast (drop_bit 8 (mMtu msg))]" by (simp add: le_bytes_def upt_rec)
  moreover have "le_word (le_bytes 2 (mMtu msg)) = mMtu msg" by simp
  ultimately show ?thesis
    unfolding Request_Decode_def Let_def r
    by (simp add: requestBytes_def kCapabilitiesRequestLength_def kCapabilitiesRequestSupportedVersionsLength_def)
qed

lemma Response_Decode_bytes:
  assumes "bufData b = responseBytes msg" "chainOk [b]"
  shows "Response_Decode b = Inr msg"
proof -
  obtain rest where r: "drop (payload b) (mem b) = responseBytes msg @ rest" using bufData_prefix [OF assms(1)] by blast
  have "len b = 6" using assms length_responseBytes by (metis chainOk_simps(2) length_bufData)
  moreover have "le_bytes 2 (mFragmentSize msg) = [ucast (mFragmentSize msg), ucast (drop_bit 8 (mFragmentSize msg))]" by (simp add: le_bytes_def upt_rec)
  moreover have "le_word (le_bytes 2 (mFragmentSize msg)) = mFragmentSize msg" by simp
  ultimately show ?thesis
    unfolding Response_Decode_def Let_def r by (simp add: responseBytes_def kCapabilitiesResponseLength_def)
qed

text \<open>The chosen version is four exactly when it stands in the list before the first zero.\<close>

lemma highestLoop_4: "highestLoop 4 vs = 4"
  by (induction vs) (auto simp: MIN_SUPPORTED_VERSION_def MAX_SUPPORTED_VERSION_def kBleTransportProtocolVersion_V4_def)

lemma highestLoop_choice:
  "highestLoop kBleTransportProtocolVersion_None vs = (if 4 \<in> set (takeWhile (\<lambda>v. v \<noteq> 0) vs) then 4 else 0)"
proof (induction vs)
  case (Cons v vs)
  have "v \<ge> 4 \<and> v \<le> 4 \<longleftrightarrow> v = 4" by auto
  then show ?case using Cons highestLoop_4
    by (auto simp: MIN_SUPPORTED_VERSION_def MAX_SUPPORTED_VERSION_def kBleTransportProtocolVersion_V4_def kBleTransportProtocolVersion_None_def)
qed (simp add: kBleTransportProtocolVersion_None_def)

end
