(* ===== verification/Ble_EndPoint.thy ===== *)
theory Ble_EndPoint
  imports Btp_Link Ble_Handshake
begin

text \<open>
  BLE end points, \<^verbatim>\<open>src/ble/BLEEndPoint.cpp\<close>: the connection state, the receive windows, the timers and the
  transmit path around one \<open>BtpEngine\<close>.  The build without \<open>CHIP_ENABLE_CHIPOBLE_TEST\<close> is modelled.

  Calls to the platform, the transport and the application are recorded in \<open>outputs\<close>; what the
  platform answers to the \<open>n\<close>-th of them is given by the record \<open>platform\<close>.  The platform does not call back
  into the end point from within such a call.  A timer is the flag that it runs.  \<open>None\<close> is a crash: a failed
  \<open>VerifyOrDie\<close> or the use of a null pointer, in particular of \<open>mBle\<close> after the end point has been freed.
\<close>

section \<open>State\<close>

datatype epState = kState_Ready | kState_Connecting | kState_Aborting | kState_Connected | kState_Closing | kState_Closed

datatype BleRole = kBleRole_Central | kBleRole_Peripheral

datatype epOutput =
    WriteRequest bytes
  | Indication bytes
  | SubscribeCharacteristic
  | UnsubscribeCharacteristic
  | CloseConnection
  | NotifyChipConnectionClosed
  | OnEndPointConnectComplete "chip_error option"
  | OnEndPointConnectionClosed "chip_error option"
  | SetEndPoint
  | OnEndPointMessageReceived bytes

record BLEEndPoint =
  mState :: epState
  mBle :: bool
  mBleTransport :: bool
  mRefCount :: nat
  mConnObj :: bool
  mSendQueue :: "pbuf list"
  mAckToSend :: "pbuf list"
  mBtpEngine :: engine
  mRole :: BleRole
  kAutoClose :: bool
  kCapabilitiesConfReceived :: bool
  kCapabilitiesMsgReceived :: bool
  kDidBeginSubscribe :: bool
  kStandAloneAckInFlight :: bool
  kGattOperationInFlight :: bool
  kConnectTimerRunning :: bool
  kReceiveConnectionTimerRunning :: bool
  kAckReceivedTimerRunning :: bool
  kSendAckTimerRunning :: bool
  kUnsubscribeTimerRunning :: bool
  mLocalReceiveWindowSize :: u8
  mRemoteReceiveWindowSize :: u8
  mReceiveWindowMaxSize :: u8
  outputs :: "epOutput list"

record platform =
  allocator :: "nat \<Rightarrow> nat \<Rightarrow> bytes option"
  sendSucceeds :: "nat \<Rightarrow> bool"
  subscribeSucceeds :: "nat \<Rightarrow> bool"
  unsubscribeSucceeds :: "nat \<Rightarrow> bool"
  startTimer :: "nat \<Rightarrow> chip_error option"
  setEndPoint :: "nat \<Rightarrow> chip_error option"
  GetMTU :: u16

definition BLE_CONFIG_IMMEDIATE_ACK_WINDOW_THRESHOLD :: u8 where "BLE_CONFIG_IMMEDIATE_ACK_WINDOW_THRESHOLD = 1"
definition BTP_WINDOW_NO_ACK_SEND_THRESHOLD :: u8 where "BTP_WINDOW_NO_ACK_SEND_THRESHOLD = 1"
definition BLE_MAX_RECEIVE_WINDOW_SIZE :: u8 where "BLE_MAX_RECEIVE_WINDOW_SIZE = 6"

type_synonym epResult = "(chip_error option \<times> BLEEndPoint) option"

text \<open>\<open>ReturnErrorOnFailure\<close> or \<open>SuccessOrExit\<close>, and \<open>VerifyOrReturnError\<close>.\<close>

definition okThen :: "epResult \<Rightarrow> (BLEEndPoint \<Rightarrow> epResult) \<Rightarrow> epResult" where
  "okThen m k = (case m of None \<Rightarrow> None | Some (None, ep) \<Rightarrow> k ep | Some (Some e, ep) \<Rightarrow> Some (Some e, ep))"

definition emit :: "epOutput \<Rightarrow> BLEEndPoint \<Rightarrow> BLEEndPoint" where
  "emit x ep = ep\<lparr>outputs := outputs ep @ [x]\<rparr>"

definition outputNo :: "BLEEndPoint \<Rightarrow> nat" where
  "outputNo ep = length (outputs ep)"

section \<open>Timers\<close>

definition startTimerWith :: "platform \<Rightarrow> (BLEEndPoint \<Rightarrow> BLEEndPoint) \<Rightarrow> BLEEndPoint \<Rightarrow> epResult" where
  "startTimerWith env mark ep =
     (if \<not> mBle ep then None
      else (case startTimer env (outputNo ep) of Some e \<Rightarrow> Some (Some e, ep) | None \<Rightarrow> Some (None, mark ep)))"

definition cancelTimerWith :: "(BLEEndPoint \<Rightarrow> BLEEndPoint) \<Rightarrow> BLEEndPoint \<Rightarrow> BLEEndPoint option" where
  "cancelTimerWith clear ep = (if mBle ep then Some (clear ep) else None)"

definition StartConnectTimer :: "platform \<Rightarrow> BLEEndPoint \<Rightarrow> epResult" where
  "StartConnectTimer env = startTimerWith env (kConnectTimerRunning_update (\<lambda>_. True))"

definition StartReceiveConnectionTimer :: "platform \<Rightarrow> BLEEndPoint \<Rightarrow> epResult" where
  "StartReceiveConnectionTimer env = startTimerWith env (kReceiveConnectionTimerRunning_update (\<lambda>_. True))"

definition StartAckReceivedTimer :: "platform \<Rightarrow> BLEEndPoint \<Rightarrow> epResult" where
  "StartAckReceivedTimer env ep =
     (if \<not> kAckReceivedTimerRunning ep then startTimerWith env (kAckReceivedTimerRunning_update (\<lambda>_. True)) ep else Some (None, ep))"

definition StartSendAckTimer :: "platform \<Rightarrow> BLEEndPoint \<Rightarrow> epResult" where
  "StartSendAckTimer env ep =
     (if \<not> kSendAckTimerRunning ep then startTimerWith env (kSendAckTimerRunning_update (\<lambda>_. True)) ep else Some (None, ep))"

definition StartUnsubscribeTimer :: "platform \<Rightarrow> BLEEndPoint \<Rightarrow> epResult" where
  "StartUnsubscribeTimer env = startTimerWith env (kUnsubscribeTimerRunning_update (\<lambda>_. True))"

definition StopConnectTimer :: "BLEEndPoint \<Rightarrow> BLEEndPoint option" where
  "StopConnectTimer = cancelTimerWith (kConnectTimerRunning_update (\<lambda>_. False))"

definition StopReceiveConnectionTimer :: "BLEEndPoint \<Rightarrow> BLEEndPoint option" where
  "StopReceiveConnectionTimer = cancelTimerWith (kReceiveConnectionTimerRunning_update (\<lambda>_. False))"

definition StopAckReceivedTimer :: "BLEEndPoint \<Rightarrow> BLEEndPoint option" where
  "StopAckReceivedTimer = cancelTimerWith (kAckReceivedTimerRunning_update (\<lambda>_. False))"

definition StopSendAckTimer :: "BLEEndPoint \<Rightarrow> BLEEndPoint option" where
  "StopSendAckTimer = cancelTimerWith (kSendAckTimerRunning_update (\<lambda>_. False))"

definition StopUnsubscribeTimer :: "BLEEndPoint \<Rightarrow> BLEEndPoint option" where
  "StopUnsubscribeTimer = cancelTimerWith (kUnsubscribeTimerRunning_update (\<lambda>_. False))"

definition RestartAckReceivedTimer :: "platform \<Rightarrow> BLEEndPoint \<Rightarrow> epResult" where
  "RestartAckReceivedTimer env ep =
     (if \<not> kAckReceivedTimerRunning ep then Some (Some CHIP_ERROR_INCORRECT_STATE, ep)
      else Option.bind (StopAckReceivedTimer ep) (StartAckReceivedTimer env))"

section \<open>Closing\<close>

definition IsConnected :: "epState \<Rightarrow> bool" where
  "IsConnected st \<longleftrightarrow> st = kState_Connected \<or> st = kState_Closing"

definition IsUnsubscribePending :: "BLEEndPoint \<Rightarrow> bool" where
  "IsUnsubscribePending ep = kUnsubscribeTimerRunning ep"

definition Release :: "BLEEndPoint \<Rightarrow> BLEEndPoint option" where
  "Release ep =
     (if mRefCount ep = 0 then None
      else (let n = mRefCount ep - 1 in Some (ep\<lparr>mRefCount := n, mBle := (if n = 0 then False else mBle ep)\<rparr>)))"

definition ReleaseBleConnection :: "BLEEndPoint \<Rightarrow> BLEEndPoint option" where
  "ReleaseBleConnection ep =
     (if \<not> mConnObj ep then Some ep
      else if \<not> mBle ep then None
      else Some ((emit (if kAutoClose ep then CloseConnection else NotifyChipConnectionClosed) ep)\<lparr>mConnObj := False\<rparr>))"

definition FreeBtpEngine :: "BLEEndPoint \<Rightarrow> BLEEndPoint" where
  "FreeBtpEngine ep = ep\<lparr>mBtpEngine := snd (TakeRxPacket (snd (TakeTxPacket (mBtpEngine ep))))\<rparr>"

definition EndPoint_Free :: "BLEEndPoint \<Rightarrow> BLEEndPoint option" where
  "EndPoint_Free ep =
     Option.bind (ReleaseBleConnection ep) (\<lambda>ep.
     Option.bind (StopConnectTimer ((FreeBtpEngine ep)\<lparr>mAckToSend := []\<rparr>)) (\<lambda>ep.
     Option.bind (StopReceiveConnectionTimer ep) (\<lambda>ep.
     Option.bind (StopAckReceivedTimer ep) (\<lambda>ep.
     Option.bind (StopSendAckTimer ep) (\<lambda>ep.
     Option.bind (StopUnsubscribeTimer ep) (\<lambda>ep. Release (ep\<lparr>mConnObj := False\<rparr>)))))))"

definition DoCloseCallback :: "epState \<Rightarrow> chip_error option \<Rightarrow> BLEEndPoint \<Rightarrow> BLEEndPoint" where
  "DoCloseCallback state err ep =
     (if \<not> mBleTransport ep then ep
      else emit (if state = kState_Connecting then OnEndPointConnectComplete err else OnEndPointConnectionClosed err) ep)"

text \<open>The call on \<open>mBleTransport\<close> that the code makes without a test when callbacks are suppressed.\<close>

definition suppressedCallback :: "bool \<Rightarrow> chip_error option \<Rightarrow> BLEEndPoint \<Rightarrow> BLEEndPoint option" where
  "suppressedCallback suppress err ep =
     (if \<not> suppress then Some ep else if mBleTransport ep then Some (emit (OnEndPointConnectionClosed err) ep) else None)"

text \<open>The end of \<open>FinalizeClose\<close> for a central that has subscribed.\<close>

definition closeByUnsubscribe :: "platform \<Rightarrow> BLEEndPoint \<Rightarrow> BLEEndPoint option" where
  "closeByUnsubscribe env ep =
     Option.bind (StopAckReceivedTimer ep) (\<lambda>ep.
     Option.bind (StopSendAckTimer ep) (\<lambda>ep.
     let ok = unsubscribeSucceeds env (outputNo ep); ep = emit UnsubscribeCharacteristic ep in
     if \<not> ok then EndPoint_Free ep
     else if mConnObj ep
     then Option.bind (StartUnsubscribeTimer env ep) (\<lambda>(err, ep).
          map_option (kGattOperationInFlight_update (\<lambda>_. True)) (if err \<noteq> None then EndPoint_Free ep else Some ep))
     else Some ep))"

definition FinalizeClose :: "platform \<Rightarrow> epState \<Rightarrow> bool \<Rightarrow> chip_error option \<Rightarrow> BLEEndPoint \<Rightarrow> BLEEndPoint option" where
  "FinalizeClose env oldState suppress err ep =
     (let ep = ep\<lparr>mState := kState_Closed, mSendQueue := []\<rparr>;
          ep = (if oldState \<noteq> kState_Closing \<and> \<not> suppress then DoCloseCallback oldState err ep else ep) in
      Option.bind (suppressedCallback suppress err ep) (\<lambda>ep.
      if err = Some BLE_ERROR_REMOTE_DEVICE_DISCONNECTED \<or> err = Some BLE_ERROR_APP_CLOSED_CONNECTION
      then EndPoint_Free (ep\<lparr>mConnObj := False\<rparr>)
      else if mRole ep = kBleRole_Central \<and> kDidBeginSubscribe ep then closeByUnsubscribe env ep
      else EndPoint_Free ep))"

definition DoClose :: "platform \<Rightarrow> bool \<Rightarrow> bool \<Rightarrow> chip_error option \<Rightarrow> BLEEndPoint \<Rightarrow> BLEEndPoint option" where
  "DoClose env suppress abort err ep =
     (let oldState = mState ep in
      if (oldState \<noteq> kState_Closed \<and> oldState \<noteq> kState_Closing) \<or> (oldState = kState_Closing \<and> abort)
      then Option.bind (if mRole ep = kBleRole_Central then StopConnectTimer ep else StopReceiveConnectionTimer ep) (\<lambda>ep.
           if mTxState (mBtpEngine ep) = kState_Idle \<or> abort then FinalizeClose env oldState suppress err ep
           else (let ep = ep\<lparr>mState := kState_Closing\<rparr>; ep = (if \<not> suppress then DoCloseCallback oldState err ep else ep)
                 in suppressedCallback suppress err ep))
      else Some ep)"

text \<open>The common end of the operations: close on error.\<close>

definition closeOnError :: "platform \<Rightarrow> bool \<Rightarrow> epResult \<Rightarrow> epResult" where
  "closeOnError env suppress m =
     (case m of
        Some (Some e, ep) \<Rightarrow> map_option (\<lambda>ep. (Some e, ep)) (DoClose env suppress True (Some e) ep)
      | _ \<Rightarrow> m)"

definition EndPoint_Abort :: "platform \<Rightarrow> BLEEndPoint \<Rightarrow> BLEEndPoint option" where
  "EndPoint_Abort env = DoClose env True True None"

definition EndPoint_Close :: "platform \<Rightarrow> BLEEndPoint \<Rightarrow> BLEEndPoint option" where
  "EndPoint_Close env = DoClose env True False None"

definition HandleUnsubscribeComplete :: "BLEEndPoint \<Rightarrow> BLEEndPoint option" where
  "HandleUnsubscribeComplete = EndPoint_Free"

definition EndPoint_Init :: "bool \<Rightarrow> BleRole \<Rightarrow> bool \<Rightarrow> BLEEndPoint \<Rightarrow> chip_error option \<times> BLEEndPoint" where
  "EndPoint_Init connObj role autoClose ep =
     (if mBle ep then (Some CHIP_ERROR_INCORRECT_STATE, ep)
      else if \<not> connObj then (Some CHIP_ERROR_INVALID_ARGUMENT, ep)
      else (None, ep\<lparr>mBtpEngine := BtpEngine_Init (role = kBleRole_Peripheral) (mBtpEngine ep), mBle := True, mRefCount := 1,
        mConnObj := True, mRole := role, kConnectTimerRunning := False, kReceiveConnectionTimerRunning := False,
        kAckReceivedTimerRunning := False, kSendAckTimerRunning := False, kUnsubscribeTimerRunning := False,
        kCapabilitiesConfReceived := False, kCapabilitiesMsgReceived := False, kDidBeginSubscribe := False,
        kStandAloneAckInFlight := False, kGattOperationInFlight := False, kAutoClose := autoClose,
        mLocalReceiveWindowSize := 0, mRemoteReceiveWindowSize := 0, mReceiveWindowMaxSize := 0, mSendQueue := [],
        mAckToSend := [], mState := kState_Ready\<rparr>))"

definition EndPoint_AddRef :: "BLEEndPoint \<Rightarrow> BLEEndPoint option" where
  "EndPoint_AddRef ep = (if mRefCount ep < 4294967295 then Some (ep\<lparr>mRefCount := mRefCount ep + 1\<rparr>) else None)"

section \<open>Sending\<close>

definition SendWrite :: "platform \<Rightarrow> bytes \<Rightarrow> BLEEndPoint \<Rightarrow> (bool \<times> BLEEndPoint) option" where
  "SendWrite env bs ep =
     (if \<not> mBle ep then None
      else Some (sendSucceeds env (outputNo ep), emit (WriteRequest bs) (ep\<lparr>kGattOperationInFlight := True\<rparr>)))"

definition SendIndication :: "platform \<Rightarrow> bytes \<Rightarrow> BLEEndPoint \<Rightarrow> (bool \<times> BLEEndPoint) option" where
  "SendIndication env bs ep =
     (if \<not> mBle ep then None
      else Some (sendSucceeds env (outputNo ep), emit (Indication bs) (ep\<lparr>kGattOperationInFlight := True\<rparr>)))"

text \<open>The platform gets the payload of the first buffer of the handle.\<close>

definition SendCharacteristic :: "platform \<Rightarrow> pbuf list \<Rightarrow> BLEEndPoint \<Rightarrow> epResult" where
  "SendCharacteristic env buf ep =
     (case buf of
        [] \<Rightarrow> None
      | b # _ \<Rightarrow>
          (let shrink = (\<lambda>ep. ep\<lparr>mRemoteReceiveWindowSize := mRemoteReceiveWindowSize ep - 1\<rparr>) in
           if mRole ep = kBleRole_Central
           then map_option (\<lambda>(ok, ep). if ok then (None, shrink ep) else (Some BLE_ERROR_GATT_WRITE_FAILED, ep)) (SendWrite env (bufData b) ep)
           else map_option (\<lambda>(ok, ep). if ok then (None, shrink ep) else (Some BLE_ERROR_GATT_INDICATE_FAILED, ep))
                  (SendIndication env (bufData b) ep)))"

definition QueueTx :: "pbuf list \<Rightarrow> BLEEndPoint \<Rightarrow> BLEEndPoint option" where
  "QueueTx data ep =
     (if mSendQueue ep = [] then Some (ep\<lparr>mSendQueue := data\<rparr>)
      else map_option (\<lambda>q. ep\<lparr>mSendQueue := q\<rparr>) (AddToEnd (mSendQueue ep) data))"

definition PrepareNextFragment :: "pbuf list \<Rightarrow> BLEEndPoint \<Rightarrow> (bool \<times> bool \<times> BLEEndPoint) option" where
  "PrepareNextFragment data ep =
     (let sentAck = kSendAckTimerRunning ep;
          ep = (if sentAck then ep\<lparr>mLocalReceiveWindowSize := mReceiveWindowMaxSize ep\<rparr> else ep)
      in map_option (\<lambda>(ok, e). (ok, sentAck, ep\<lparr>mBtpEngine := e\<rparr>)) (HandleCharacteristicSend data sentAck (mBtpEngine ep)))"

text \<open>The common part of the next two: the fragment goes out, the timers follow.\<close>

definition sendPrepared :: "platform \<Rightarrow> (bool \<times> bool \<times> BLEEndPoint) option \<Rightarrow> epResult" where
  "sendPrepared env m =
     (case m of
        None \<Rightarrow> None
      | Some (ok, sentAck, ep) \<Rightarrow>
          if \<not> ok then Some (Some BLE_ERROR_CHIPOBLE_PROTOCOL_ABORT, ep)
          else okThen (SendCharacteristic env (mTxBuf (mBtpEngine ep)) ep) (\<lambda>ep.
               Option.bind (if sentAck then StopSendAckTimer ep else Some ep) (StartAckReceivedTimer env)))"

definition SendNextMessage :: "platform \<Rightarrow> BLEEndPoint \<Rightarrow> epResult" where
  "SendNextMessage env ep =
     (case PopHead (mSendQueue ep) of
        None \<Rightarrow> None
      | Some (b, q) \<Rightarrow> sendPrepared env (PrepareNextFragment [b] (ep\<lparr>mSendQueue := q\<rparr>)))"

definition ContinueMessageSend :: "platform \<Rightarrow> BLEEndPoint \<Rightarrow> epResult" where
  "ContinueMessageSend env ep = sendPrepared env (PrepareNextFragment [] ep)"

text \<open>The error of \<open>EncodeStandAloneAck\<close> is ignored.\<close>

definition DoSendStandAloneAck :: "platform \<Rightarrow> BLEEndPoint \<Rightarrow> epResult" where
  "DoSendStandAloneAck env ep =
     (case EncodeStandAloneAck (mAckToSend ep) (mBtpEngine ep) of
        None \<Rightarrow> None
      | Some (_, ack, e) \<Rightarrow>
          okThen (SendCharacteristic env ack (ep\<lparr>mAckToSend := ack, mBtpEngine := e\<rparr>)) (\<lambda>ep.
          StartAckReceivedTimer env (ep\<lparr>mLocalReceiveWindowSize := mReceiveWindowMaxSize ep, kStandAloneAckInFlight := True\<rparr>)))"

definition cannotSend :: "BLEEndPoint \<Rightarrow> bool" where
  "cannotSend ep \<longleftrightarrow>
     (mRemoteReceiveWindowSize ep \<le> BTP_WINDOW_NO_ACK_SEND_THRESHOLD \<and> \<not> kSendAckTimerRunning ep \<and> mAckToSend ep = []) \<or>
     mRemoteReceiveWindowSize ep = 0 \<or> kGattOperationInFlight ep"

definition DriveSending :: "platform \<Rightarrow> BLEEndPoint \<Rightarrow> epResult" where
  "DriveSending env ep =
     (if cannotSend ep then Some (None, ep)
      else if mAckToSend ep \<noteq> [] then DoSendStandAloneAck env ep
      else (case mTxState (mBtpEngine ep) of
              kState_Idle \<Rightarrow> if mSendQueue ep \<noteq> [] then SendNextMessage env ep else Some (None, ep)
            | kState_InProgress \<Rightarrow> ContinueMessageSend env ep
            | kState_Complete \<Rightarrow>
                (let ep = ep\<lparr>mBtpEngine := snd (TakeTxPacket (mBtpEngine ep))\<rparr> in
                 if mSendQueue ep \<noteq> [] then SendNextMessage env ep
                 else if mState ep = kState_Closing \<and> \<not> mExpectingAck (mBtpEngine ep)
                 then map_option (\<lambda>ep. (None, ep)) (FinalizeClose env (mState ep) True None ep)
                 else Some (None, ep))
            | kState_Error \<Rightarrow> Some (None, ep)))"

definition DriveStandAloneAck :: "platform \<Rightarrow> BLEEndPoint \<Rightarrow> epResult" where
  "DriveStandAloneAck env ep =
     Option.bind (StopSendAckTimer ep) (\<lambda>ep.
     if mAckToSend ep \<noteq> [] then DriveSending env ep
     else (case New (allocator env) (outputNo ep) kTransferProtocolStandaloneAckHeaderSize kDefaultHeaderReserve of
             None \<Rightarrow> Some (Some CHIP_ERROR_NO_MEMORY, ep)
           | Some b \<Rightarrow> DriveSending env (ep\<lparr>mAckToSend := [b]\<rparr>)))"

definition Send :: "platform \<Rightarrow> pbuf list \<Rightarrow> BLEEndPoint \<Rightarrow> epResult" where
  "Send env data ep =
     closeOnError env False
       (if data = [] then Some (Some CHIP_ERROR_INVALID_ARGUMENT, ep)
        else if \<not> IsConnected (mState ep) then Some (Some CHIP_ERROR_INCORRECT_STATE, ep)
        else Option.bind (if tl data \<noteq> [] then CompactHead data else Some data) (\<lambda>data.
             if tl data \<noteq> [] then Some (Some CHIP_ERROR_OUTBOUND_MESSAGE_TOO_BIG, ep)
             else Option.bind (QueueTx data ep) (DriveSending env)))"

section \<open>The handshake\<close>

definition HandleConnectComplete :: "BLEEndPoint \<Rightarrow> epResult" where
  "HandleConnectComplete ep =
     map_option (\<lambda>ep. if mBleTransport ep then (None, emit (OnEndPointConnectComplete None) ep)
                       else (Some BLE_ERROR_NO_CONNECT_COMPLETE_CALLBACK, ep))
       (StopConnectTimer (ep\<lparr>mState := kState_Connected\<rparr>))"

definition HandleReceiveConnectionComplete :: "platform \<Rightarrow> BLEEndPoint \<Rightarrow> epResult" where
  "HandleReceiveConnectionComplete env ep =
     map_option (\<lambda>ep. if mBleTransport ep then (setEndPoint env (outputNo ep), emit SetEndPoint ep)
                       else (Some BLE_ERROR_NO_CONNECTION_RECEIVED_CALLBACK, ep))
       (StopReceiveConnectionTimer (ep\<lparr>mState := kState_Connected\<rparr>))"

definition startRequest :: "platform \<Rightarrow> BleTransportCapabilitiesRequestMessage" where
  "startRequest env =
     SetSupportedProtocolVersion 0 MAX_SUPPORTED_VERSION
       \<lparr>mSupportedProtocolVersions = replicate 4 0, mMtu = GetMTU env, reqWindowSize = BLE_MAX_RECEIVE_WINDOW_SIZE\<rparr>"

definition StartConnect :: "platform \<Rightarrow> BLEEndPoint \<Rightarrow> epResult" where
  "StartConnect env ep =
     (case (if mState ep \<noteq> kState_Ready then Some (Some CHIP_ERROR_INCORRECT_STATE, ep)
            else (let ep = ep\<lparr>mState := kState_Connecting\<rparr> in
              (case New (allocator env) (outputNo ep) kMaxSize kDefaultHeaderReserve of
                 None \<Rightarrow> Some (Some CHIP_ERROR_NO_MEMORY, ep)
               | Some b \<Rightarrow>
                   if \<not> mBle ep then None
                   else (case Request_Encode (startRequest env) b of
                      Inl e \<Rightarrow> Some (Some e, ep)
                    | Inr b \<Rightarrow>
                        okThen (StartConnectTimer env ep) (\<lambda>ep.
                        Option.bind (SendWrite env (bufData b) ep) (\<lambda>(ok, ep).
                        if \<not> ok then Some (Some BLE_ERROR_GATT_WRITE_FAILED, ep)
                        else map_option (\<lambda>ep. (None, ep)) (QueueTx [b] ep))))))) of
        Some (Some e, ep) \<Rightarrow>
          Option.bind (StopConnectTimer ep) (\<lambda>ep. map_option (\<lambda>ep. (Some e, ep)) (DoClose env False True (Some e) ep))
      | r \<Rightarrow> r)"

definition HandleSubscribeReceived :: "platform \<Rightarrow> BLEEndPoint \<Rightarrow> BLEEndPoint option" where
  "HandleSubscribeReceived env ep =
     map_option snd (closeOnError env True
       (if mState ep \<noteq> kState_Connecting \<and> mState ep \<noteq> kState_Aborting then Some (Some CHIP_ERROR_INCORRECT_STATE, ep)
        else (case mSendQueue ep of
                [] \<Rightarrow> Some (Some CHIP_ERROR_INCORRECT_STATE, ep)
              | b # _ \<Rightarrow>
                  Option.bind (SendIndication env (bufData b) ep) (\<lambda>(ok, ep).
                  if \<not> ok then Some (Some BLE_ERROR_GATT_INDICATE_FAILED, ep\<lparr>mSendQueue := []\<rparr>)
                  else okThen (StartAckReceivedTimer env (ep\<lparr>mRemoteReceiveWindowSize := mRemoteReceiveWindowSize ep - 1\<rparr>)) (\<lambda>ep.
                       if mState ep \<noteq> kState_Aborting then HandleReceiveConnectionComplete env ep else Some (None, ep))))))"

definition HandleSubscribeComplete :: "platform \<Rightarrow> BLEEndPoint \<Rightarrow> BLEEndPoint option" where
  "HandleSubscribeComplete env ep =
     (case DriveSending env (ep\<lparr>kGattOperationInFlight := False\<rparr>) of
        Some (Some _, ep) \<Rightarrow> DoClose env False True None ep
      | r \<Rightarrow> map_option snd r)"

text \<open>The fragment size for an MTU: three bytes are the header of the attribute protocol; the
  subtraction is cast to 16 bits.\<close>

definition fragmentSizeFor :: "u16 \<Rightarrow> u16" where
  "fragmentSizeFor mtu = (if mtu > 0 then min (mtu - 3) (of_nat sMaxFragmentSize) else of_nat sDefaultFragmentSize)"

definition HandleCapabilitiesRequestReceived :: "platform \<Rightarrow> pbuf list \<Rightarrow> BLEEndPoint \<Rightarrow> epResult" where
  "HandleCapabilitiesRequestReceived env data ep =
     (case data of
        [] \<Rightarrow> Some (Some CHIP_ERROR_INVALID_ARGUMENT, ep)
      | d # _ \<Rightarrow>
          let ep = ep\<lparr>mState := kState_Connecting\<rparr> in
          (case Request_Decode d of
             Inl e \<Rightarrow> Some (Some e, ep)
           | Inr req \<Rightarrow>
               (case New (allocator env) (outputNo ep) kCapabilitiesResponseLength kDefaultHeaderReserve of
                  None \<Rightarrow> Some (Some CHIP_ERROR_NO_MEMORY, ep)
                | Some b \<Rightarrow>
                    if \<not> mBle ep then None
                    else let F = fragmentSizeFor (if mMtu req > 0 then mMtu req else GetMTU env);
                        w = min (reqWindowSize req) BLE_MAX_RECEIVE_WINDOW_SIZE; v = GetHighestSupportedProtocolVersion req;
                        ep = ep\<lparr>mReceiveWindowMaxSize := w, mLocalReceiveWindowSize := w, mRemoteReceiveWindowSize := w\<rparr>;
                        ep = (if v = kBleTransportProtocolVersion_None then ep\<lparr>mState := kState_Aborting\<rparr>
                              else ep\<lparr>mBtpEngine := SetTxFragmentSize (unat F) (SetRxFragmentSize (unat F) (mBtpEngine ep))\<rparr>)
                    in (case Response_Encode \<lparr>mSelectedProtocolVersion = v, mFragmentSize = F, respWindowSize = w\<rparr> b of
                          Inl e \<Rightarrow> Some (Some e, ep)
                        | Inr b \<Rightarrow> Option.bind (QueueTx [b] ep) (StartReceiveConnectionTimer env)))))"

definition HandleCapabilitiesResponseReceived :: "platform \<Rightarrow> pbuf list \<Rightarrow> BLEEndPoint \<Rightarrow> epResult" where
  "HandleCapabilitiesResponseReceived env data ep =
     (case data of
        [] \<Rightarrow> Some (Some CHIP_ERROR_INVALID_ARGUMENT, ep)
      | d # _ \<Rightarrow>
          (case Response_Decode d of
             Inl e \<Rightarrow> Some (Some e, ep)
           | Inr resp \<Rightarrow>
               if mFragmentSize resp = 0 then Some (Some BLE_ERROR_INVALID_FRAGMENT_SIZE, ep)
               else if mSelectedProtocolVersion resp < MIN_SUPPORTED_VERSION \<or> mSelectedProtocolVersion resp > MAX_SUPPORTED_VERSION
               then Some (Some BLE_ERROR_INCOMPATIBLE_PROTOCOL_VERSIONS, ep)
               else let F = unat (min (mFragmentSize resp) (of_nat sMaxFragmentSize)); w = respWindowSize resp;
                        ep = ep\<lparr>mBtpEngine := SetTxFragmentSize F (SetRxFragmentSize F (mBtpEngine ep)), mReceiveWindowMaxSize := w,
                                mLocalReceiveWindowSize := w - 1, mRemoteReceiveWindowSize := w\<rparr>
                    in okThen (StartSendAckTimer env ep) HandleConnectComplete))"

definition HandleHandshakeConfirmationReceived :: "platform \<Rightarrow> BLEEndPoint \<Rightarrow> epResult" where
  "HandleHandshakeConfirmationReceived env ep =
     (case FreeHead (mSendQueue ep) of
        None \<Rightarrow> None
      | Some q \<Rightarrow>
          let ep = ep\<lparr>mSendQueue := q\<rparr> in
          if mRole ep = kBleRole_Central
          then (if \<not> mBle ep then None
                else let ok = subscribeSucceeds env (outputNo ep); ep = emit SubscribeCharacteristic ep
                     in closeOnError env False
                          (if ok then Some (None, ep\<lparr>kDidBeginSubscribe := True, kGattOperationInFlight := True\<rparr>)
                           else Some (Some BLE_ERROR_GATT_SUBSCRIBE_FAILED, ep)))
          else if mState ep = kState_Connected
          then closeOnError env False
                 (if mLocalReceiveWindowSize ep \<le> BLE_CONFIG_IMMEDIATE_ACK_WINDOW_THRESHOLD \<and> mSendQueue ep = []
                  then DriveStandAloneAck env ep else DriveSending env ep)
          else if mState ep = kState_Aborting then closeOnError env True (Some (Some BLE_ERROR_INCOMPATIBLE_PROTOCOL_VERSIONS, ep))
          else Some (None, ep))"

definition HandleFragmentConfirmationReceived :: "platform \<Rightarrow> BLEEndPoint \<Rightarrow> epResult" where
  "HandleFragmentConfirmationReceived env ep =
     (if IsUnsubscribePending ep then Some (None, ep)
      else closeOnError env False
        (if \<not> IsConnected (mState ep) then Some (Some CHIP_ERROR_INCORRECT_STATE, ep)
         else (let ep = (if kStandAloneAckInFlight ep then ep\<lparr>mAckToSend := [], kStandAloneAckInFlight := False\<rparr> else ep) in
               if mLocalReceiveWindowSize ep \<le> BLE_CONFIG_IMMEDIATE_ACK_WINDOW_THRESHOLD \<and> mSendQueue ep = [] \<and>
                  mTxState (mBtpEngine ep) \<noteq> kState_InProgress
               then DriveStandAloneAck env ep else DriveSending env ep)))"

definition HandleGattSendConfirmationReceived :: "platform \<Rightarrow> BLEEndPoint \<Rightarrow> epResult" where
  "HandleGattSendConfirmationReceived env ep =
     (let ep = ep\<lparr>kGattOperationInFlight := False\<rparr> in
      if \<not> kCapabilitiesConfReceived ep then HandleHandshakeConfirmationReceived env (ep\<lparr>kCapabilitiesConfReceived := True\<rparr>)
      else HandleFragmentConfirmationReceived env ep)"

section \<open>Receiving\<close>

text \<open>The response to an acknowledgement.  The first component of the result tells that the end point has
  been closed and \<open>Receive\<close> is left.\<close>

definition respondToAck :: "platform \<Rightarrow> u8 \<Rightarrow> BLEEndPoint \<Rightarrow> (bool \<times> chip_error option \<times> BLEEndPoint) option" where
  "respondToAck env ack ep =
     (let drive = (\<lambda>ep. map_option (\<lambda>r. (False, r)) (DriveSending env
            (ep\<lparr>mRemoteReceiveWindowSize := AdjustRemoteReceiveWindow ack (mReceiveWindowMaxSize ep) (mTxNewestUnackedSeqNum (mBtpEngine ep))\<rparr>))) in
      if \<not> mExpectingAck (mBtpEngine ep)
      then Option.bind (StopAckReceivedTimer ep) (\<lambda>ep.
           if mState ep = kState_Closing \<and> mSendQueue ep = [] \<and> mTxState (mBtpEngine ep) = kState_Idle
           then map_option (\<lambda>ep. (True, None, ep)) (FinalizeClose env (mState ep) True None ep)
           else drive ep)
      else (case RestartAckReceivedTimer env ep of
              None \<Rightarrow> None
            | Some (Some e, ep) \<Rightarrow> Some (False, Some e, ep)
            | Some (None, ep) \<Rightarrow> drive ep))"

definition acknowledgeData :: "platform \<Rightarrow> BLEEndPoint \<Rightarrow> epResult" where
  "acknowledgeData env ep =
     (if \<not> HasUnackedData (mBtpEngine ep) then Some (None, ep)
      else if mLocalReceiveWindowSize ep \<le> BLE_CONFIG_IMMEDIATE_ACK_WINDOW_THRESHOLD \<and> \<not> kGattOperationInFlight ep
      then DriveStandAloneAck env ep else StartSendAckTimer env ep)"

definition passMessageUp :: "BLEEndPoint \<Rightarrow> BLEEndPoint" where
  "passMessageUp ep =
     (if mRxState (mBtpEngine ep) = kState_Complete
      then (let p = TakeRxPacket (mBtpEngine ep); ep = ep\<lparr>mBtpEngine := snd p\<rparr>
            in if mBleTransport ep \<and> mState ep \<noteq> kState_Closing then emit (OnEndPointMessageReceived (chainData (fst p))) ep else ep)
      else ep)"

definition receivePacket :: "platform \<Rightarrow> pbuf list \<Rightarrow> BLEEndPoint \<Rightarrow> epResult" where
  "receivePacket env data ep =
     (case HandleCharacteristicReceived (allocator env) (outputNo ep)
             \<lparr>rxEngine = mBtpEngine ep, rxData = data, receivedAck = 0, didReceiveAck = False\<rparr> of
        None \<Rightarrow> None
      | Some (Some e, v) \<Rightarrow> Some (Some e, ep\<lparr>mBtpEngine := rxEngine v\<rparr>)
      | Some (None, v) \<Rightarrow>
          let ep = ep\<lparr>mBtpEngine := rxEngine v, mLocalReceiveWindowSize := mLocalReceiveWindowSize ep - 1\<rparr> in
          (case (if didReceiveAck v then respondToAck env (receivedAck v) ep else Some (False, None, ep)) of
             None \<Rightarrow> None
           | Some (True, r) \<Rightarrow> Some r
           | Some (False, r) \<Rightarrow>
               okThen (okThen (Some r) (acknowledgeData env)) (\<lambda>ep. Some (None, passMessageUp ep))))"

definition Receive :: "platform \<Rightarrow> pbuf list \<Rightarrow> BLEEndPoint \<Rightarrow> epResult" where
  "Receive env data ep =
     (if IsUnsubscribePending ep then Some (None, ep)
      else if \<not> kCapabilitiesMsgReceived ep
      then (if mRole ep = kBleRole_Central
            then closeOnError env False
                   (if mState ep \<noteq> kState_Connecting then Some (Some CHIP_ERROR_INCORRECT_STATE, ep)
                    else HandleCapabilitiesResponseReceived env data (ep\<lparr>kCapabilitiesMsgReceived := True\<rparr>))
            else if mState ep \<noteq> kState_Ready then closeOnError env False (Some (Some CHIP_ERROR_INCORRECT_STATE, ep))
            else closeOnError env True (HandleCapabilitiesRequestReceived env data (ep\<lparr>kCapabilitiesMsgReceived := True\<rparr>)))
      else closeOnError env False
             (if \<not> IsConnected (mState ep) then Some (Some CHIP_ERROR_INCORRECT_STATE, ep) else receivePacket env data ep))"

section \<open>Expired timers\<close>

definition HandleConnectTimeout :: "platform \<Rightarrow> BLEEndPoint \<Rightarrow> BLEEndPoint option" where
  "HandleConnectTimeout env ep =
     (if kConnectTimerRunning ep
      then DoClose env False True (Some BLE_ERROR_CONNECT_TIMED_OUT) (ep\<lparr>kConnectTimerRunning := False\<rparr>) else Some ep)"

definition HandleReceiveConnectionTimeout :: "platform \<Rightarrow> BLEEndPoint \<Rightarrow> BLEEndPoint option" where
  "HandleReceiveConnectionTimeout env ep =
     (if kReceiveConnectionTimerRunning ep
      then DoClose env True True (Some BLE_ERROR_RECEIVE_TIMED_OUT) (ep\<lparr>kReceiveConnectionTimerRunning := False\<rparr>) else Some ep)"

definition HandleAckReceivedTimeout :: "platform \<Rightarrow> BLEEndPoint \<Rightarrow> BLEEndPoint option" where
  "HandleAckReceivedTimeout env ep =
     (if kAckReceivedTimerRunning ep
      then DoClose env False True (Some BLE_ERROR_FRAGMENT_ACK_TIMED_OUT) (ep\<lparr>kAckReceivedTimerRunning := False\<rparr>) else Some ep)"

definition HandleSendAckTimeout :: "platform \<Rightarrow> BLEEndPoint \<Rightarrow> BLEEndPoint option" where
  "HandleSendAckTimeout env ep =
     (if kSendAckTimerRunning ep
      then (let ep = ep\<lparr>kSendAckTimerRunning := False\<rparr> in
            if kStandAloneAckInFlight ep then Some ep
            else map_option snd (closeOnError env False (DriveStandAloneAck env ep)))
      else Some ep)"

definition HandleUnsubscribeTimeout :: "BLEEndPoint \<Rightarrow> BLEEndPoint option" where
  "HandleUnsubscribeTimeout ep =
     (if kUnsubscribeTimerRunning ep then HandleUnsubscribeComplete (ep\<lparr>kUnsubscribeTimerRunning := False\<rparr>) else Some ep)"

section \<open>Runs\<close>

text \<open>The events of an end point, as the BLE layer and the timers deliver them.\<close>

datatype epEvent =
    EvSend "pbuf list"
  | EvReceive "pbuf list"
  | EvConfirmation
  | EvSubscribeReceived
  | EvSubscribeComplete
  | EvUnsubscribeComplete
  | EvStartConnect
  | EvClose
  | EvAbort
  | EvConnectTimeout
  | EvReceiveConnectionTimeout
  | EvAckReceivedTimeout
  | EvSendAckTimeout
  | EvUnsubscribeTimeout

fun epStep :: "platform \<Rightarrow> epEvent \<Rightarrow> BLEEndPoint \<Rightarrow> BLEEndPoint option" where
  "epStep env (EvSend data) ep = map_option snd (Send env data ep)"
| "epStep env (EvReceive data) ep = map_option snd (Receive env data ep)"
| "epStep env EvConfirmation ep = map_option snd (HandleGattSendConfirmationReceived env ep)"
| "epStep env EvSubscribeReceived ep = HandleSubscribeReceived env ep"
| "epStep env EvSubscribeComplete ep = HandleSubscribeComplete env ep"
| "epStep env EvUnsubscribeComplete ep = HandleUnsubscribeComplete ep"
| "epStep env EvStartConnect ep = map_option snd (StartConnect env ep)"
| "epStep env EvClose ep = EndPoint_Close env ep"
| "epStep env EvAbort ep = EndPoint_Abort env ep"
| "epStep env EvConnectTimeout ep = HandleConnectTimeout env ep"
| "epStep env EvReceiveConnectionTimeout ep = HandleReceiveConnectionTimeout env ep"
| "epStep env EvAckReceivedTimeout ep = HandleAckReceivedTimeout env ep"
| "epStep env EvSendAckTimeout ep = HandleSendAckTimeout env ep"
| "epStep env EvUnsubscribeTimeout ep = HandleUnsubscribeTimeout ep"

text \<open>After it has been freed an end point is not found any more, and its timers are cancelled.\<close>

fun epRun :: "platform \<Rightarrow> epEvent list \<Rightarrow> BLEEndPoint \<Rightarrow> BLEEndPoint option" where
  "epRun env [] ep = Some ep"
| "epRun env (x # xs) ep =
     (if \<not> mBle ep then Some ep else (case epStep env x ep of None \<Rightarrow> None | Some ep' \<Rightarrow> epRun env xs ep'))"

end
