(* ===== verification/Ble_Connection.thy ===== *)
theory Ble_Connection
  imports Ble_EndPoint "HOL-Library.Code_Target_Nat"
begin

text \<open>
  Properties of whole runs of a BLE end point.  The locale \<open>run_laws\<close> collects what a predicate on
  the end point must satisfy to hold along every run; its first argument counts the events that
  permit one more GATT operation.  \<open>run_invariant\<close> is a simpler contract that gives these laws; its interpretations
  (\<open>paced\<close>, \<open>life\<close>) give the pace of sending and the order of the
  states.  The handshake between two end points leads to the link of \<open>Btp_Link\<close>, and concrete runs show
  where the code goes wrong.
\<close>

section \<open>Predicates along a run\<close>

lemma pred_option_bind [simp]: "pred_option P (Option.bind m f) \<longleftrightarrow> pred_option (\<lambda>x. pred_option P (f x)) m"
  by (cases m) simp_all

lemma pred_option_wp: "pred_option P m \<Longrightarrow> (\<And>x. P x \<Longrightarrow> Q x) \<Longrightarrow> pred_option Q m"
  by (cases m) simp_all

lemma pred_option_all: "(\<And>x. Q x) \<Longrightarrow> pred_option Q m"
  by (cases m) simp_all

abbreviation isSend :: "epOutput \<Rightarrow> bool" where
  "isSend x \<equiv> (case x of WriteRequest _ \<Rightarrow> True | Indication _ \<Rightarrow> True | _ \<Rightarrow> False)"

abbreviation sends :: "epOutput list \<Rightarrow> nat" where
  "sends xs \<equiv> length (filter isSend xs)"

fun stateRank :: "epState \<Rightarrow> nat" where
  "stateRank kState_Ready = 0"
| "stateRank kState_Connecting = 1"
| "stateRank kState_Aborting = 2"
| "stateRank kState_Connected = 3"
| "stateRank kState_Closing = 4"
| "stateRank kState_Closed = 5"

lemma stateRank_le_5: "stateRank st \<le> 5"
  by (cases st) simp_all

text \<open>The events after which one more operation may be handed to the platform.\<close>

fun permitsSend :: "epEvent \<Rightarrow> bool" where
  "permitsSend EvConfirmation \<longleftrightarrow> True"
| "permitsSend EvSubscribeReceived \<longleftrightarrow> True"
| "permitsSend EvSubscribeComplete \<longleftrightarrow> True"
| "permitsSend EvStartConnect \<longleftrightarrow> True"
| "permitsSend _ \<longleftrightarrow> False"

abbreviation holdsAfter :: "(BLEEndPoint \<Rightarrow> bool) \<Rightarrow> epResult \<Rightarrow> bool" where
  "holdsAfter P m \<equiv> pred_option (\<lambda>r. P (snd r)) m"

lemma okThen_wp:
  "holdsAfter Q m \<Longrightarrow> (\<And>ep. Q ep \<Longrightarrow> P ep) \<Longrightarrow> (\<And>ep. Q ep \<Longrightarrow> holdsAfter P (k ep)) \<Longrightarrow> holdsAfter P (okThen m k)"
  by (auto simp: okThen_def split: option.split)

text \<open>
  The laws of a predicate that holds along every run.  It may look at the connection state, the operation in flight, the
  recorded calls and what decides on the life of the end point; closing is a law of its own, since the predicate need not hold
  while it is under way.
\<close>

definition sameVisible :: "BLEEndPoint \<Rightarrow> BLEEndPoint \<Rightarrow> bool" where
  "sameVisible ep ep' \<longleftrightarrow> outputs ep' = outputs ep \<and> kGattOperationInFlight ep' = kGattOperationInFlight ep \<and> mState ep' = mState ep"

definition sameLife :: "BLEEndPoint \<Rightarrow> BLEEndPoint \<Rightarrow> bool" where
  "sameLife ep ep' \<longleftrightarrow>
     mBle ep' = mBle ep \<and> mBleTransport ep' = mBleTransport ep \<and> mRefCount ep' = mRefCount ep \<and> mConnObj ep' = mConnObj ep \<and>
     kUnsubscribeTimerRunning ep' = kUnsubscribeTimerRunning ep"

locale run_laws =
  fixes P :: "nat \<Rightarrow> BLEEndPoint \<Rightarrow> bool"
  assumes frame: "P n ep \<Longrightarrow> sameVisible ep ep' \<Longrightarrow> sameLife ep ep' \<Longrightarrow> P n ep'"
    and call: "P n ep \<Longrightarrow> \<not> isSend x \<Longrightarrow> P n (emit x ep)"
    and send: "P n ep \<Longrightarrow> \<not> kGattOperationInFlight ep \<Longrightarrow> P n (emit x (ep\<lparr>kGattOperationInFlight := True\<rparr>))"
    and busy: "P n ep \<Longrightarrow> P n (ep\<lparr>kGattOperationInFlight := True\<rparr>)"
    and advance: "P n ep \<Longrightarrow> stateRank (mState ep) \<le> stateRank st \<Longrightarrow> st \<noteq> kState_Closed \<Longrightarrow> P n (ep\<lparr>mState := st\<rparr>)"
    and permit: "P n ep \<Longrightarrow> P (Suc n) (ep\<lparr>kGattOperationInFlight := False\<rparr>)"
    and weaken: "P n ep \<Longrightarrow> P (Suc n) ep"
    and Free: "P n ep \<Longrightarrow> pred_option (P n) (EndPoint_Free ep)"
    and Free_expired: "P n ep \<Longrightarrow> pred_option (P n) (EndPoint_Free (ep\<lparr>kUnsubscribeTimerRunning := False\<rparr>))"
    and FinalizeClose: "P n ep \<Longrightarrow> pred_option (P n) (FinalizeClose env st s err ep)"
begin

lemma frame_iff: "sameVisible ep ep' \<Longrightarrow> sameLife ep ep' \<Longrightarrow> P n ep' = P n ep"
  using frame [of n ep ep'] frame [of n ep' ep] by (auto simp: sameVisible_def sameLife_def)

text \<open>The predicate does not see the other fields.\<close>

lemma frames [simp]:
  "P n (mSendQueue_update q ep) = P n ep" "P n (mAckToSend_update q ep) = P n ep" "P n (mBtpEngine_update e ep) = P n ep"
  "P n (kCapabilitiesConfReceived_update b ep) = P n ep" "P n (kCapabilitiesMsgReceived_update b ep) = P n ep"
  "P n (kDidBeginSubscribe_update b ep) = P n ep" "P n (kStandAloneAckInFlight_update b ep) = P n ep"
  "P n (kConnectTimerRunning_update b ep) = P n ep" "P n (kReceiveConnectionTimerRunning_update b ep) = P n ep"
  "P n (kAckReceivedTimerRunning_update b ep) = P n ep" "P n (kSendAckTimerRunning_update b ep) = P n ep"
  "P n (mLocalReceiveWindowSize_update w ep) = P n ep" "P n (mRemoteReceiveWindowSize_update w ep) = P n ep"
  "P n (mReceiveWindowMaxSize_update w ep) = P n ep"
  by (rule frame_iff; simp add: sameVisible_def sameLife_def)+

lemma advance_simp [simp]:
  "P n ep \<Longrightarrow> stateRank (mState ep) \<le> stateRank st \<Longrightarrow> st \<noteq> kState_Closed \<Longrightarrow> P n (ep\<lparr>mState := st\<rparr>)"
  by (rule advance)

lemma timers:
  assumes "P n ep"
  shows "holdsAfter (P n) (StartConnectTimer env ep)" "holdsAfter (P n) (StartReceiveConnectionTimer env ep)"
    "holdsAfter (P n) (StartAckReceivedTimer env ep)" "holdsAfter (P n) (StartSendAckTimer env ep)"
    "pred_option (P n) (StopConnectTimer ep)" "pred_option (P n) (StopReceiveConnectionTimer ep)"
    "pred_option (P n) (StopAckReceivedTimer ep)" "pred_option (P n) (StopSendAckTimer ep)"
  using assms
  by (simp_all add: startTimerWith_def cancelTimerWith_def StartConnectTimer_def StartReceiveConnectionTimer_def
      StartAckReceivedTimer_def StartSendAckTimer_def StopConnectTimer_def StopReceiveConnectionTimer_def
      StopAckReceivedTimer_def StopSendAckTimer_def split: option.split)

lemmas timers_wp = timers [THEN pred_option_wp]

lemma RestartAckReceivedTimer: "P n ep \<Longrightarrow> holdsAfter (P n) (RestartAckReceivedTimer env ep)"
  by (auto simp: RestartAckReceivedTimer_def intro!: timers_wp [of n])

lemma DoCloseCallback: "P n ep \<Longrightarrow> P n (DoCloseCallback st err ep)"
  by (simp add: DoCloseCallback_def call)

lemma suppressedCallback: "P n ep \<Longrightarrow> pred_option (P n) (suppressedCallback s err ep)"
  by (simp add: suppressedCallback_def call)

lemma closing: "P n ep \<Longrightarrow> mState ep \<noteq> kState_Closed \<Longrightarrow> P n (ep\<lparr>mState := kState_Closing\<rparr>)"
  by (rule advance) (cases "mState ep"; simp)+

lemma DoClose: "P n ep \<Longrightarrow> pred_option (P n) (DoClose env s abort err ep)"
  by (auto simp: DoClose_def Let_def StopConnectTimer_def StopReceiveConnectionTimer_def cancelTimerWith_def
      intro!: suppressedCallback DoCloseCallback FinalizeClose closing)

lemma closeOnError: "holdsAfter (P n) m \<Longrightarrow> holdsAfter (P n) (closeOnError env s m)"
  by (auto simp: closeOnError_def option.pred_map comp_def DoClose split: option.split)

lemma SendCharacteristic: "P n ep \<Longrightarrow> \<not> kGattOperationInFlight ep \<Longrightarrow> holdsAfter (P n) (SendCharacteristic env buf ep)"
  by (auto simp: SendCharacteristic_def SendWrite_def SendIndication_def send split: list.split)

lemma QueueTx: "P n ep \<Longrightarrow> pred_option (P n) (QueueTx data ep)"
  by (simp add: QueueTx_def option.pred_map comp_def pred_option_all)

lemma sendPrepared:
  assumes "P n ep" "\<not> kGattOperationInFlight ep"
  shows "holdsAfter (P n) (sendPrepared env (PrepareNextFragment data ep))"
proof -
  have "holdsAfter (P n) (sendPrepared env (Some (ok, sentAck, ep')))" if "P n ep'" "\<not> kGattOperationInFlight ep'" for ok sentAck ep'
    using that by (auto simp: sendPrepared_def intro!: okThen_wp [of "P n"] SendCharacteristic timers_wp [of n] timers)
  then show ?thesis using assms
    by (cases "HandleCharacteristicSend data (kSendAckTimerRunning ep) (mBtpEngine ep)")
      (auto simp: PrepareNextFragment_def Let_def sendPrepared_def [of _ None])
qed

lemma SendNextMessage: "P n ep \<Longrightarrow> \<not> kGattOperationInFlight ep \<Longrightarrow> holdsAfter (P n) (SendNextMessage env ep)"
  by (auto simp: SendNextMessage_def intro!: sendPrepared split: option.split)

lemma DoSendStandAloneAck: "P n ep \<Longrightarrow> \<not> kGattOperationInFlight ep \<Longrightarrow> holdsAfter (P n) (DoSendStandAloneAck env ep)"
  by (auto simp: DoSendStandAloneAck_def intro!: okThen_wp [of "P n"] SendCharacteristic timers split: option.split)

lemma DriveSending: "P n ep \<Longrightarrow> holdsAfter (P n) (DriveSending env ep)"
  by (auto simp: DriveSending_def cannotSend_def ContinueMessageSend_def Let_def option.pred_map comp_def
      intro!: DoSendStandAloneAck SendNextMessage sendPrepared FinalizeClose split: State_t.split)

lemma DriveStandAloneAck: "P n ep \<Longrightarrow> holdsAfter (P n) (DriveStandAloneAck env ep)"
  by (auto simp: DriveStandAloneAck_def intro!: timers_wp [of n] DriveSending split: option.split)

lemma Send: "P n ep \<Longrightarrow> holdsAfter (P n) (Send env data ep)"
  unfolding Send_def
  by (rule closeOnError) (auto intro!: QueueTx [THEN pred_option_wp] DriveSending pred_option_all [of _ "CompactHead data"])

text \<open>The handshake messages are sent without a look at the operation in flight.\<close>

lemma handshakeSend:
  assumes "P n ep"
  shows "pred_option (\<lambda>r. P (Suc n) (snd r) \<and> mState (snd r) = mState ep) (SendWrite env bs ep)"
    "pred_option (\<lambda>r. P (Suc n) (snd r) \<and> mState (snd r) = mState ep) (SendIndication env bs ep)"
  using send [OF permit [OF assms], of "WriteRequest bs"] send [OF permit [OF assms], of "Indication bs"]
  by (auto simp: SendWrite_def SendIndication_def emit_def)

lemma connectFailed:
  "holdsAfter (P n) m \<Longrightarrow> holdsAfter (P n)
     (case m of
        Some (Some e, ep) \<Rightarrow>
          Option.bind (StopConnectTimer ep) (\<lambda>ep. map_option (\<lambda>ep. (Some e, ep)) (DoClose env False True (Some e) ep))
      | r \<Rightarrow> r)"
  by (auto simp: option.pred_map comp_def intro!: timers_wp [of n] DoClose split: option.split)

lemma StartConnect: "P n ep \<Longrightarrow> holdsAfter (P (Suc n)) (StartConnect env ep)"
  unfolding StartConnect_def
  by (rule connectFailed) (auto simp: Let_def option.pred_map comp_def intro: weaken
      intro!: okThen_wp [of "P n"] timers handshakeSend [THEN pred_option_wp, of n] QueueTx split: option.split sum.split)

lemma HandleReceiveConnectionComplete:
  "P n ep \<Longrightarrow> stateRank (mState ep) \<le> 3 \<Longrightarrow> holdsAfter (P n) (HandleReceiveConnectionComplete env ep)"
  by (auto simp: HandleReceiveConnectionComplete_def option.pred_map comp_def call intro!: timers_wp [of n])

lemma HandleConnectComplete: "P n ep \<Longrightarrow> stateRank (mState ep) \<le> 3 \<Longrightarrow> holdsAfter (P n) (HandleConnectComplete ep)"
  by (auto simp: HandleConnectComplete_def option.pred_map comp_def call intro!: timers_wp [of n])

lemma timer_state:
  assumes "P n ep"
  shows "pred_option (\<lambda>r. P n (snd r) \<and> mState (snd r) = mState ep) (StartAckReceivedTimer env ep)"
    "pred_option (\<lambda>r. P n (snd r) \<and> mState (snd r) = mState ep) (StartSendAckTimer env ep)"
  using assms by (simp_all add: StartAckReceivedTimer_def StartSendAckTimer_def startTimerWith_def split: option.split)

lemma HandleSubscribeReceived: "P n ep \<Longrightarrow> pred_option (P (Suc n)) (HandleSubscribeReceived env ep)"
proof -
  assume p: "P n ep"
  let ?Q = "\<lambda>e. P (Suc n) e \<and> mState e = mState ep"
  have "holdsAfter (P (Suc n)) (okThen (StartAckReceivedTimer env e)
      (\<lambda>ep. if mState ep \<noteq> kState_Aborting then HandleReceiveConnectionComplete env ep else Some (None, ep)))"
    if "?Q e" "mState ep = kState_Connecting \<or> mState ep = kState_Aborting" for e
    using that by (auto intro!: okThen_wp [of ?Q] timer_state [THEN pred_option_wp, of "Suc n"] HandleReceiveConnectionComplete)
  then show ?thesis using p unfolding HandleSubscribeReceived_def option.pred_map comp_def
    by (intro closeOnError) (auto intro!: weaken handshakeSend [THEN pred_option_wp, of n] split: list.split)
qed

lemma HandleSubscribeComplete: "P n ep \<Longrightarrow> pred_option (P (Suc n)) (HandleSubscribeComplete env ep)"
  using DriveSending [OF permit, of n ep env]
  by (auto simp: HandleSubscribeComplete_def intro!: DoClose split: option.split)

lemma HandleCapabilitiesRequestReceived:
  assumes "P n ep" "mState ep = kState_Ready"
  shows "holdsAfter (P n) (HandleCapabilitiesRequestReceived env data ep)"
proof -
  have "P n (ep\<lparr>mState := kState_Connecting\<rparr>)" "P n (ep\<lparr>mState := kState_Aborting\<rparr>)" using assms by simp_all
  then show ?thesis using assms
    by (auto simp: HandleCapabilitiesRequestReceived_def Let_def intro!: QueueTx [THEN pred_option_wp, of n] timers
        split: list.split sum.split option.split)
qed

lemma HandleCapabilitiesResponseReceived:
  assumes "P n ep" "mState ep = kState_Connecting"
  shows "holdsAfter (P n) (HandleCapabilitiesResponseReceived env data ep)"
  using assms
  by (auto simp: HandleCapabilitiesResponseReceived_def Let_def
      intro!: okThen_wp [of "\<lambda>e. P n e \<and> mState e = mState ep"] timer_state [THEN pred_option_wp, of n] HandleConnectComplete
      split: list.split sum.split)

lemma HandleHandshakeConfirmationReceived: "P n ep \<Longrightarrow> holdsAfter (P n) (HandleHandshakeConfirmationReceived env ep)"
  unfolding HandleHandshakeConfirmationReceived_def Let_def
  by (simp add: busy call closeOnError DriveSending DriveStandAloneAck split: option.split)

lemma HandleFragmentConfirmationReceived: "P n ep \<Longrightarrow> holdsAfter (P n) (HandleFragmentConfirmationReceived env ep)"
  unfolding HandleFragmentConfirmationReceived_def Let_def
  by (simp add: closeOnError DriveSending DriveStandAloneAck)

lemma HandleGattSendConfirmationReceived: "P n ep \<Longrightarrow> holdsAfter (P (Suc n)) (HandleGattSendConfirmationReceived env ep)"
  by (simp add: HandleGattSendConfirmationReceived_def Let_def HandleHandshakeConfirmationReceived HandleFragmentConfirmationReceived permit)

lemma respondToAck: "P n ep \<Longrightarrow> pred_option (\<lambda>r. P n (snd (snd r))) (respondToAck env ack ep)"
  using RestartAckReceivedTimer [of n ep env]
  by (auto simp: respondToAck_def Let_def option.pred_map comp_def intro!: timers_wp [of n] DriveSending FinalizeClose split: option.split)

lemma acknowledgeData: "P n ep \<Longrightarrow> holdsAfter (P n) (acknowledgeData env ep)"
  by (simp add: acknowledgeData_def DriveStandAloneAck timers)

lemma passMessageUp: "P n ep \<Longrightarrow> P n (passMessageUp ep)"
  by (simp add: passMessageUp_def Let_def call)

lemma receivedAccepted:
  "P n (snd r) \<Longrightarrow> holdsAfter (P n) (okThen (okThen (Some r) (acknowledgeData env)) (\<lambda>ep. Some (None, passMessageUp ep)))"
  by (auto intro!: okThen_wp [of "P n"] acknowledgeData passMessageUp)

lemma receivePacket: "P n ep \<Longrightarrow> holdsAfter (P n) (receivePacket env data ep)"
proof -
  assume p: "P n ep"
  have "holdsAfter (P n)
      (case respondToAck env ack e of None \<Rightarrow> None | Some (True, r) \<Rightarrow> Some r
       | Some (False, r) \<Rightarrow> okThen (okThen (Some r) (acknowledgeData env)) (\<lambda>ep. Some (None, passMessageUp ep)))"
    if "P n e" for e ack
    using respondToAck [OF that, of env ack] receivedAccepted by (auto split: option.split bool.split)
  then show ?thesis using p receivedAccepted unfolding receivePacket_def Let_def by (simp split: option.split prod.split)
qed

lemma Receive: "P n ep \<Longrightarrow> holdsAfter (P n) (Receive env data ep)"
  by (auto simp: Receive_def intro!: closeOnError receivePacket HandleCapabilitiesRequestReceived HandleCapabilitiesResponseReceived)

lemma epStep: "P n ep \<Longrightarrow> pred_option (P (if permitsSend x then Suc n else n)) (epStep env x ep)"
  by (cases x) (auto simp: option.pred_map comp_def HandleConnectTimeout_def HandleReceiveConnectionTimeout_def
      HandleAckReceivedTimeout_def HandleSendAckTimeout_def HandleUnsubscribeTimeout_def HandleUnsubscribeComplete_def
      EndPoint_Close_def EndPoint_Abort_def Let_def
      intro!: Send Receive HandleGattSendConfirmationReceived HandleSubscribeReceived HandleSubscribeComplete StartConnect
        DoClose Free Free_expired closeOnError DriveStandAloneAck)

lemma weaken_le: "P n ep \<Longrightarrow> n \<le> m \<Longrightarrow> P m ep"
  by (induction m) (auto simp: le_Suc_eq intro: weaken)

lemma epRun: "P n ep \<Longrightarrow> epRun env xs ep = Some ep' \<Longrightarrow> P (n + length (filter permitsSend xs)) ep'"
proof (induction env xs ep arbitrary: n rule: epRun.induct)
  case (2 env x xs ep)
  show ?case
  proof (cases "mBle ep")
    case True
    with "2.prems" obtain e where e: "epStep env x ep = Some e" "epRun env xs e = Some ep'" by (auto split: option.splits)
    have "P (if permitsSend x then Suc n else n) e" using epStep [OF "2.prems"(1), of x env] e(1) by simp
    from "2.IH" [OF _ e(1) this e(2)] True show ?thesis by (auto split: if_splits)
  qed (use 2 weaken_le in auto)
qed simp

end

text \<open>A predicate that is kept by each elementary change satisfies the laws.\<close>

locale run_invariant =
  fixes P :: "nat \<Rightarrow> BLEEndPoint \<Rightarrow> bool"
  assumes visible: "P n ep \<Longrightarrow> sameVisible ep ep' \<Longrightarrow> P n ep'"
    and called: "P n ep \<Longrightarrow> \<not> isSend x \<Longrightarrow> P n (emit x ep)"
    and sent: "P n ep \<Longrightarrow> \<not> kGattOperationInFlight ep \<Longrightarrow> P n (emit x (ep\<lparr>kGattOperationInFlight := True\<rparr>))"
    and engaged: "P n ep \<Longrightarrow> P n (ep\<lparr>kGattOperationInFlight := True\<rparr>)"
    and moved: "P n ep \<Longrightarrow> stateRank (mState ep) \<le> stateRank st \<Longrightarrow> P n (ep\<lparr>mState := st\<rparr>)"
    and permitted: "P n ep \<Longrightarrow> P (Suc n) (ep\<lparr>kGattOperationInFlight := False\<rparr>)"
    and weakened: "P n ep \<Longrightarrow> P (Suc n) ep"
begin

lemma visible_iff: "sameVisible ep ep' \<Longrightarrow> P n ep' = P n ep"
  using visible [of n ep ep'] visible [of n ep' ep] by (auto simp: sameVisible_def)

lemma invisible [simp]:
  "P n (mBle_update b ep) = P n ep" "P n (mRefCount_update r ep) = P n ep" "P n (mConnObj_update b ep) = P n ep"
  "P n (mSendQueue_update q ep) = P n ep" "P n (mAckToSend_update q ep) = P n ep" "P n (mBtpEngine_update e ep) = P n ep"
  "P n (kConnectTimerRunning_update b ep) = P n ep" "P n (kReceiveConnectionTimerRunning_update b ep) = P n ep"
  "P n (kAckReceivedTimerRunning_update b ep) = P n ep" "P n (kSendAckTimerRunning_update b ep) = P n ep"
  "P n (kUnsubscribeTimerRunning_update b ep) = P n ep"
  by (rule visible_iff; simp add: sameVisible_def)+

lemma closed_simp [simp]: "P n ep \<Longrightarrow> P n (ep\<lparr>mState := kState_Closed\<rparr>)"
  by (rule moved) (simp_all add: stateRank_le_5)

lemma stopped:
  assumes "P n ep"
  shows "pred_option (P n) (StopConnectTimer ep)" "pred_option (P n) (StopReceiveConnectionTimer ep)"
    "pred_option (P n) (StopAckReceivedTimer ep)" "pred_option (P n) (StopSendAckTimer ep)"
    "pred_option (P n) (StopUnsubscribeTimer ep)" "holdsAfter (P n) (StartUnsubscribeTimer env ep)"
  using assms
  by (simp_all add: startTimerWith_def cancelTimerWith_def StartUnsubscribeTimer_def StopConnectTimer_def StopReceiveConnectionTimer_def
      StopAckReceivedTimer_def StopSendAckTimer_def StopUnsubscribeTimer_def split: option.split)

lemmas stopped_wp = stopped [THEN pred_option_wp]

lemma released: "P n ep \<Longrightarrow> pred_option (P n) (ReleaseBleConnection ep)"
  by (simp add: ReleaseBleConnection_def called)

lemma freed: "P n ep \<Longrightarrow> pred_option (P n) (EndPoint_Free ep)"
  by (auto simp: EndPoint_Free_def FreeBtpEngine_def Release_def Let_def intro!: stopped_wp [of n] released [THEN pred_option_wp])

lemma unsubscribed: "P n ep \<Longrightarrow> pred_option (P n) (closeByUnsubscribe env ep)"
  by (auto simp: closeByUnsubscribe_def Let_def option.pred_map comp_def engaged called
      intro!: stopped_wp [of n] freed freed [THEN pred_option_wp])

lemma finalized: "P n ep \<Longrightarrow> pred_option (P n) (FinalizeClose env st s err ep)"
  by (auto simp: FinalizeClose_def Let_def suppressedCallback_def DoCloseCallback_def called intro!: freed unsubscribed)

end

sublocale run_invariant \<subseteq> laws: run_laws P
  by unfold_locales (auto intro: visible called sent engaged moved permitted weakened freed finalized)

section \<open>The two invariants\<close>

interpretation paced: run_invariant "\<lambda>n ep. sends (outputs ep) \<le> k + n + of_bool (kGattOperationInFlight ep)" for k
  by unfold_locales (auto simp: sameVisible_def emit_def of_bool_def split: if_splits)

interpretation life: run_invariant "\<lambda>_ ep. k \<le> stateRank (mState ep)" for k
  by unfold_locales (auto simp: sameVisible_def emit_def)

section \<open>The handshake\<close>

text \<open>A platform on which memory is available and the calls succeed.\<close>

definition platformWorks :: "platform \<Rightarrow> bool" where
  "platformWorks env \<longleftrightarrow>
     (\<forall>i n. \<exists>m. allocator env i n = Some m \<and> length m = n) \<and>
     (\<forall>i. sendSucceeds env i \<and> subscribeSucceeds env i \<and> startTimer env i = None \<and> setEndPoint env i = None)"

lemma New_works:
  assumes "platformWorks env" "n + kDefaultHeaderReserve \<le> kMaxSizeWithoutReserve"
  obtains b where "New (allocator env) i n kDefaultHeaderReserve = Some b" "chainOk [b]" "n \<le> MaxDataLength b" "ref b = 1"
proof -
  obtain m where m: "allocator env i (kDefaultHeaderReserve + n) = Some m" "length m = kDefaultHeaderReserve + n"
    using assms(1) unfolding platformWorks_def by blast
  let ?b = "\<lparr>mem = m, payload = kDefaultHeaderReserve, len = 0, tot_len = 0, ref = 1\<rparr>"
  have "New (allocator env) i n kDefaultHeaderReserve = Some ?b"
    using m assms(2) by (simp add: New_def kMaxSizeWithoutReserve_def)
  moreover have "chainOk [?b]" "n \<le> MaxDataLength ?b"
    using m assms(2) by (simp_all add: bufOk_def MaxDataLength_def AllocSize_def ReservedSize_def kMaxSizeWithoutReserve_def)
  ultimately show ?thesis using that by simp
qed

lemma startRequest_bytes: "mSupportedProtocolVersions (startRequest env) = [4, 0, 0, 0]" "mMtu (startRequest env) = GetMTU env"
  "reqWindowSize (startRequest env) = 6"
  by (simp_all add: startRequest_def SetSupportedProtocolVersion_def MAX_SUPPORTED_VERSION_def kBleTransportProtocolVersion_V4_def
    BLE_MAX_RECEIVE_WINDOW_SIZE_def numeral_eq_Suc Let_def)

lemma startRequest_version: "GetHighestSupportedProtocolVersion (startRequest env) = 4"
  by (simp add: GetHighestSupportedProtocolVersion_def startRequest_bytes versionNibbles_def NUM_SUPPORTED_PROTOCOL_VERSIONS_def MIN_SUPPORTED_VERSION_def
      MAX_SUPPORTED_VERSION_def kBleTransportProtocolVersion_V4_def kBleTransportProtocolVersion_None_def)

lemma StartConnect_works:
  assumes "platformWorks env" "mState ep = kState_Ready" "mBle ep" "mSendQueue ep = []"
  shows "\<exists>b. StartConnect env ep = Some (None, ep\<lparr>mState := kState_Connecting, kConnectTimerRunning := True,
    kGattOperationInFlight := True, outputs := outputs ep @ [WriteRequest (requestBytes (startRequest env))], mSendQueue := [b]\<rparr>) \<and> ref b = 1"
proof -
  obtain b where b: "New (allocator env) (outputNo (ep\<lparr>mState := kState_Connecting\<rparr>)) kMaxSize kDefaultHeaderReserve = Some b" "chainOk [b]" "kMaxSize \<le> MaxDataLength b" "ref b = 1"
    by (rule New_works [OF assms(1), of kMaxSize "outputNo (ep\<lparr>mState := kState_Connecting\<rparr>)"]) (auto simp: kMaxSize_def kMaxSizeWithoutReserve_def kDefaultHeaderReserve_def)
  have n: "length (requestBytes (startRequest env)) = kCapabilitiesRequestLength" "kCapabilitiesRequestLength \<le> MaxDataLength b"
    using b(3) by (simp_all add: length_requestBytes startRequest_bytes kCapabilitiesRequestLength_def kMaxSize_def kMaxSizeWithoutReserve_def kDefaultHeaderReserve_def)
  note e = encoded_buffer [OF b(2) n]
  show ?thesis using assms b n e
    by (auto simp: StartConnect_def Request_Encode_def verify_def okThen_def StartConnectTimer_def startTimerWith_def platformWorks_def
      SendWrite_def emit_def QueueTx_def Let_def)
qed

text \<open>The MTU that counts is the central's, if it knows one; the response for a fragment size.\<close>

definition negotiatedMtu :: "platform \<Rightarrow> platform \<Rightarrow> u16" where
  "negotiatedMtu envC envP = (if GetMTU envC > 0 then GetMTU envC else GetMTU envP)"

definition handshakeResponse :: "u16 \<Rightarrow> BleTransportCapabilitiesResponseMessage" where
  "handshakeResponse F = \<lparr>mSelectedProtocolVersion = 4, mFragmentSize = F, respWindowSize = 6\<rparr>"

lemma Receive_request:
  assumes "platformWorks env" "mState ep = kState_Ready" "mRole ep = kBleRole_Peripheral" "mBle ep" "mSendQueue ep = []"
    "\<not> kUnsubscribeTimerRunning ep" "\<not> kCapabilitiesMsgReceived ep"
    "bufData d = requestBytes (startRequest envC)" "chainOk [d]"
  defines "F \<equiv> fragmentSizeFor (negotiatedMtu envC env)"
  shows "\<exists>b. Receive env [d] ep = Some (None, ep\<lparr>kCapabilitiesMsgReceived := True, mState := kState_Connecting,
      mReceiveWindowMaxSize := 6, mLocalReceiveWindowSize := 6, mRemoteReceiveWindowSize := 6,
      mBtpEngine := SetTxFragmentSize (unat F) (SetRxFragmentSize (unat F) (mBtpEngine ep)),
      mSendQueue := [b], kReceiveConnectionTimerRunning := True\<rparr>) \<and>
    ref b = 1 \<and> bufData b = responseBytes (handshakeResponse F)"
proof -
  have dec: "Request_Decode d = Inr (startRequest envC)"
    by (rule Request_Decode_bytes [OF assms(8,9)]) (simp add: startRequest_bytes)
  let ?e = "ep\<lparr>kCapabilitiesMsgReceived := True, mState := kState_Connecting\<rparr>"
  obtain b where b: "New (allocator env) (outputNo ?e) kCapabilitiesResponseLength kDefaultHeaderReserve = Some b" "chainOk [b]"
      "kCapabilitiesResponseLength \<le> MaxDataLength b" "ref b = 1"
    by (rule New_works [OF assms(1), of kCapabilitiesResponseLength "outputNo ?e"])
      (auto simp: kCapabilitiesResponseLength_def kMaxSizeWithoutReserve_def kDefaultHeaderReserve_def)
  have n: "length (responseBytes (handshakeResponse F)) = kCapabilitiesResponseLength"
    by (simp add: length_responseBytes kCapabilitiesResponseLength_def)
  note e = encoded_buffer [OF b(2) n b(3)]
  have R: "Response_Encode (handshakeResponse F) b =
      Inr (SetDataLength kCapabilitiesResponseLength (writeBytes (payload b) (responseBytes (handshakeResponse F)) b))"
    using b(3) by (simp add: Response_Encode_def verify_def)
  have w: "min 6 BLE_MAX_RECEIVE_WINDOW_SIZE = 6" "(4::u8) \<noteq> kBleTransportProtocolVersion_None"
    by (simp_all add: BLE_MAX_RECEIVE_WINDOW_SIZE_def kBleTransportProtocolVersion_None_def)
  show ?thesis using assms(1-7) b(1,4) e R w
    unfolding F_def negotiatedMtu_def handshakeResponse_def
    by (auto simp: Receive_def IsUnsubscribePending_def closeOnError_def HandleCapabilitiesRequestReceived_def dec startRequest_bytes
        startRequest_version Let_def QueueTx_def StartReceiveConnectionTimer_def startTimerWith_def platformWorks_def)
qed

lemma HandleSubscribeReceived_works:
  assumes "platformWorks env" "mState ep = kState_Connecting" "mBle ep" "mBleTransport ep" "mSendQueue ep = [b]" "\<not> kAckReceivedTimerRunning ep"
  shows "HandleSubscribeReceived env ep = Some (ep\<lparr>kGattOperationInFlight := True, mRemoteReceiveWindowSize := mRemoteReceiveWindowSize ep - 1,
     kAckReceivedTimerRunning := True, mState := kState_Connected, kReceiveConnectionTimerRunning := False,
     outputs := outputs ep @ [Indication (bufData b), SetEndPoint]\<rparr>)"
  using assms
  by (simp add: HandleSubscribeReceived_def closeOnError_def SendIndication_def okThen_def StartAckReceivedTimer_def startTimerWith_def
    HandleReceiveConnectionComplete_def StopReceiveConnectionTimer_def cancelTimerWith_def emit_def platformWorks_def)

lemma Confirmation_peripheral:
  assumes "mState ep = kState_Connected" "mBle ep" "mRole ep = kBleRole_Peripheral" "mSendQueue ep = [b]" "ref b = 1"
    "\<not> kCapabilitiesConfReceived ep" "mLocalReceiveWindowSize ep = 6" "mAckToSend ep = []" "mTxState (mBtpEngine ep) = kState_Idle"
  shows "HandleGattSendConfirmationReceived env ep =
    Some (None, ep\<lparr>kGattOperationInFlight := False, kCapabilitiesConfReceived := True, mSendQueue := []\<rparr>)"
proof -
  have "\<not> (6 :: u8) \<le> 1" by (simp add: word_le_nat_alt)
  then show ?thesis using assms
    by (simp add: HandleGattSendConfirmationReceived_def HandleHandshakeConfirmationReceived_def closeOnError_def FreeHead_def DriveSending_def Let_def
      BLE_CONFIG_IMMEDIATE_ACK_WINDOW_THRESHOLD_def)
qed

lemma Confirmation_central:
  assumes "platformWorks env" "mBle ep" "mRole ep = kBleRole_Central" "mSendQueue ep = [b]" "ref b = 1" "\<not> kCapabilitiesConfReceived ep"
  shows "HandleGattSendConfirmationReceived env ep =
    Some (None, ep\<lparr>kCapabilitiesConfReceived := True, mSendQueue := [], kDidBeginSubscribe := True, kGattOperationInFlight := True,
      outputs := outputs ep @ [SubscribeCharacteristic]\<rparr>)"
  using assms
  by (simp add: HandleGattSendConfirmationReceived_def HandleHandshakeConfirmationReceived_def closeOnError_def FreeHead_def emit_def
    platformWorks_def)

lemma SubscribeComplete_central:
  assumes "mRemoteReceiveWindowSize ep = 0"
  shows "HandleSubscribeComplete env ep = Some (ep\<lparr>kGattOperationInFlight := False\<rparr>)"
  using assms by (simp add: HandleSubscribeComplete_def DriveSending_def cannotSend_def)

lemma Receive_response:
  assumes "platformWorks env" "mState ep = kState_Connecting" "mRole ep = kBleRole_Central" "mBle ep" "mBleTransport ep"
    "\<not> kUnsubscribeTimerRunning ep" "\<not> kCapabilitiesMsgReceived ep" "\<not> kSendAckTimerRunning ep"
    "bufData d = responseBytes (handshakeResponse F)" "chainOk [d]" "0 < F" "F \<le> 244"
  shows "Receive env [d] ep = Some (None, ep\<lparr>kCapabilitiesMsgReceived := True, mBtpEngine := SetTxFragmentSize (unat F) (SetRxFragmentSize (unat F) (mBtpEngine ep)),
    mReceiveWindowMaxSize := 6, mLocalReceiveWindowSize := 5, mRemoteReceiveWindowSize := 6, kSendAckTimerRunning := True,
    mState := kState_Connected, kConnectTimerRunning := False, outputs := outputs ep @ [OnEndPointConnectComplete None]\<rparr>)"
proof -
  have dec: "Response_Decode d = Inr (handshakeResponse F)" by (rule Response_Decode_bytes [OF assms(9,10)])
  have m: "min F (of_nat sMaxFragmentSize) = F" "F \<noteq> 0" using assms(11,12) by (auto simp: sMaxFragmentSize_def min_def)
  show ?thesis using assms(1-8) m
    by (simp add: Receive_def IsUnsubscribePending_def closeOnError_def HandleCapabilitiesResponseReceived_def dec handshakeResponse_def
      Let_def StartSendAckTimer_def startTimerWith_def okThen_def HandleConnectComplete_def StopConnectTimer_def cancelTimerWith_def emit_def
      platformWorks_def MIN_SUPPORTED_VERSION_def MAX_SUPPORTED_VERSION_def kBleTransportProtocolVersion_V4_def)
qed

lemma fragmentSizeFor_bounds:
  assumes "mtu = 0 \<or> 8 \<le> mtu"
  shows "5 \<le> fragmentSizeFor mtu" "fragmentSizeFor mtu \<le> 244"
proof -
  have "5 \<le> unat (fragmentSizeFor mtu) \<and> unat (fragmentSizeFor mtu) \<le> 244"
    using assms by (auto simp: fragmentSizeFor_def sMaxFragmentSize_def sDefaultFragmentSize_def min_def unat_sub word_le_nat_alt)
  then show "5 \<le> fragmentSizeFor mtu" "fragmentSizeFor mtu \<le> 244" by (simp_all add: word_le_nat_alt)
qed


text \<open>What the two sides agree on: the engines of a fresh link and matching windows.\<close>

definition linked :: "nat \<Rightarrow> (bool \<Rightarrow> engine) \<Rightarrow> BLEEndPoint \<Rightarrow> BLEEndPoint \<Rightarrow> bool" where
  "linked F es c p \<longleftrightarrow>
     mState c = kState_Connected \<and> mState p = kState_Connected \<and>
     mBtpEngine c = node (linkInit F es) False \<and> mBtpEngine p = node (linkInit F es) True \<and>
     mRemoteReceiveWindowSize c = mLocalReceiveWindowSize p \<and> mRemoteReceiveWindowSize p = mLocalReceiveWindowSize c"

lemma central_handshake:
  assumes "platformWorks env" "EndPoint_Init True kBleRole_Central auto ep = (None, c)" "mBleTransport ep"
  shows "\<exists>c1. epRun env [EvStartConnect] c = Some c1 \<and> outputs c1 = outputs c @ [WriteRequest (requestBytes (startRequest env))] \<and>
    (\<forall>F d. bufData d = responseBytes (handshakeResponse F) \<longrightarrow> chainOk [d] \<longrightarrow> 0 < F \<longrightarrow> F \<le> 244 \<longrightarrow>
      (\<exists>c'. epRun env [EvConfirmation, EvSubscribeComplete, EvReceive [d]] c1 = Some c' \<and> mState c' = kState_Connected \<and>
        mBtpEngine c' = SetTxFragmentSize (unat F) (SetRxFragmentSize (unat F) (BtpEngine_Init False (mBtpEngine ep))) \<and>
        mRemoteReceiveWindowSize c' = 6 \<and> mLocalReceiveWindowSize c' = 5))"
proof -
  have c: "mState c = kState_Ready" "mBle c" "mSendQueue c = []" "mRole c = kBleRole_Central" "mBleTransport c"
      "mBtpEngine c = BtpEngine_Init False (mBtpEngine ep)" "\<not> kCapabilitiesConfReceived c" "\<not> kCapabilitiesMsgReceived c"
      "\<not> kUnsubscribeTimerRunning c" "\<not> kSendAckTimerRunning c" "mRemoteReceiveWindowSize c = 0"
    using assms(2,3) by (auto simp: EndPoint_Init_def split: if_splits)
  from StartConnect_works [OF assms(1) c(1-3)] obtain b where b: "ref b = 1" "StartConnect env c = Some (None, c\<lparr>mState := kState_Connecting,
    kConnectTimerRunning := True, kGattOperationInFlight := True, outputs := outputs c @ [WriteRequest (requestBytes (startRequest env))],
    mSendQueue := [b]\<rparr>)" by blast
  then show ?thesis using c assms(1)
    by (auto simp: Confirmation_central SubscribeComplete_central Receive_response)
qed

lemma peripheral_handshake:
  assumes "platformWorks env" "EndPoint_Init True kBleRole_Peripheral auto ep = (None, p)" "mBleTransport ep"
    "bufData d = requestBytes (startRequest envC)" "chainOk [d]"
  defines "F \<equiv> fragmentSizeFor (negotiatedMtu envC env)"
  shows "\<exists>p'. epRun env [EvReceive [d], EvSubscribeReceived, EvConfirmation] p = Some p' \<and>
    outputs p' = outputs p @ [Indication (responseBytes (handshakeResponse F)), SetEndPoint] \<and> mState p' = kState_Connected \<and>
    mBtpEngine p' = SetTxFragmentSize (unat F) (SetRxFragmentSize (unat F) (BtpEngine_Init True (mBtpEngine ep))) \<and>
    mRemoteReceiveWindowSize p' = 5 \<and> mLocalReceiveWindowSize p' = 6"
proof -
  have p: "mState p = kState_Ready" "mRole p = kBleRole_Peripheral" "mBle p" "mSendQueue p = []" "\<not> kUnsubscribeTimerRunning p"
      "\<not> kCapabilitiesMsgReceived p" "mBleTransport p" "\<not> kAckReceivedTimerRunning p" "mAckToSend p = []"
      "mBtpEngine p = BtpEngine_Init True (mBtpEngine ep)" "\<not> kCapabilitiesConfReceived p"
    using assms(2,3) by (auto simp: EndPoint_Init_def split: if_splits)
  obtain b where b: "ref b = 1" "bufData b = responseBytes (handshakeResponse F)"
    "Receive env [d] p = Some (None, p\<lparr>kCapabilitiesMsgReceived := True, mState := kState_Connecting,
      mReceiveWindowMaxSize := 6, mLocalReceiveWindowSize := 6, mRemoteReceiveWindowSize := 6,
      mBtpEngine := SetTxFragmentSize (unat F) (SetRxFragmentSize (unat F) (mBtpEngine p)),
      mSendQueue := [b], kReceiveConnectionTimerRunning := True\<rparr>)"
    using Receive_request [OF assms(1) p(1-6) assms(4,5)] unfolding F_def by blast
  have "mTxState (SetTxFragmentSize n (SetRxFragmentSize n (BtpEngine_Init True e))) = kState_Idle" for n e
    by (simp add: SetTxFragmentSize_def SetRxFragmentSize_def BtpEngine_Init_def)
  then show ?thesis using p b assms(1)
    by (simp add: HandleSubscribeReceived_works Confirmation_peripheral)
qed


section \<open>Concrete end points\<close>

text \<open>A platform on which every call succeeds, and a peripheral with it; a central asks for version 4, MTU 23
  and window 6.\<close>

definition workingPlatform :: "u16 \<Rightarrow> platform" where
  "workingPlatform mtu =
     \<lparr>allocator = zeroMemory, sendSucceeds = (\<lambda>_. True), subscribeSucceeds = (\<lambda>_. True), unsubscribeSucceeds = (\<lambda>_. True),
      startTimer = (\<lambda>_. None), setEndPoint = (\<lambda>_. None), GetMTU = mtu\<rparr>"

definition endPoint0 :: BLEEndPoint where
  "endPoint0 =
     \<lparr>mState = kState_Closed, mBle = False, mBleTransport = True, mRefCount = 0, mConnObj = False, mSendQueue = [], mAckToSend = [],
      mBtpEngine = engine0, mRole = kBleRole_Central, kAutoClose = False, kCapabilitiesConfReceived = False,
      kCapabilitiesMsgReceived = False, kDidBeginSubscribe = False, kStandAloneAckInFlight = False, kGattOperationInFlight = False,
      kConnectTimerRunning = False, kReceiveConnectionTimerRunning = False, kAckReceivedTimerRunning = False,
      kSendAckTimerRunning = False, kUnsubscribeTimerRunning = False, mLocalReceiveWindowSize = 0, mRemoteReceiveWindowSize = 0,
      mReceiveWindowMaxSize = 0, outputs = []\<rparr>"

definition newEndPoint :: "BleRole \<Rightarrow> BLEEndPoint" where
  "newEndPoint role = snd (EndPoint_Init True role False endPoint0)"

definition acceptConnection :: "epEvent list" where
  "acceptConnection = [EvReceive [platformBuffer [0x65, 0x6C, 4, 0, 0, 0, 23, 0, 6]], EvSubscribeReceived, EvConfirmation]"

definition message3 :: pbuf where
  "message3 = \<lparr>mem = replicate 8 7, payload = 5, len = 3, tot_len = 3, ref = 1\<rparr>"

definition acceptTinyMtu :: "epEvent list" where
  "acceptTinyMtu = [EvReceive [platformBuffer [0x65, 0x6C, 4, 0, 0, 0, 4, 0, 6]], EvSubscribeReceived, EvConfirmation]"

lemma peripheral_connects:
  "map_option mState (epRun (workingPlatform 23) acceptConnection (newEndPoint kBleRole_Peripheral)) = Some kState_Connected"
  by code_simp

lemma workingPlatform_works: "platformWorks (workingPlatform mtu)"
  by (simp add: platformWorks_def workingPlatform_def zeroMemory_def)

lemma newEndPoint_init: "EndPoint_Init True role False endPoint0 = (None, newEndPoint role)" "mBleTransport endPoint0"
  by (simp_all add: newEndPoint_def EndPoint_Init_def endPoint0_def)

section \<open>Properties\<close>

text \<open>
  C18.  On working platforms a handshake between an initialised central and an initialised peripheral connects both, with the
  messages each side sends delivered to the other.  The engines then have the state of a fresh link with a common
  fragment size between 5 and 244 bytes, the situation from which the link is shown to work, and each side's
  view of the other's window is the other's own.  The MTU, the central's or else the peripheral's, is
  unknown or at least 8.
\<close>

theorem handshake_agrees:
  assumes "platformWorks envC" "platformWorks envP"
    and "EndPoint_Init True kBleRole_Central autoC cEp = (None, c)" "EndPoint_Init True kBleRole_Peripheral autoP pEp = (None, p)"
    and "mBleTransport cEp" "mBleTransport pEp"
    and mtu: "mtu = negotiatedMtu envC envP" "mtu = 0 \<or> 8 \<le> mtu"
  shows "\<exists>F c1 request p' response c'.
     epRun envC [EvStartConnect] c = Some c1 \<and> outputs c1 = outputs c @ [WriteRequest request] \<and>
     epRun envP [EvReceive [platformBuffer request], EvSubscribeReceived, EvConfirmation] p = Some p' \<and>
     outputs p' = outputs p @ [Indication response, SetEndPoint] \<and>
     epRun envC [EvConfirmation, EvSubscribeComplete, EvReceive [platformBuffer response]] c1 = Some c' \<and>
     linked F (\<lambda>s. mBtpEngine (if s then pEp else cEp)) c' p' \<and> 5 \<le> F \<and> F \<le> 244"
proof -
  let ?F = "fragmentSizeFor mtu" and ?req = "requestBytes (startRequest envC)"
  let ?resp = "responseBytes (handshakeResponse ?F)"
  obtain c1 where c1: "epRun envC [EvStartConnect] c = Some c1" "outputs c1 = outputs c @ [WriteRequest ?req]"
    and rest: "\<And>F d. bufData d = responseBytes (handshakeResponse F) \<Longrightarrow> chainOk [d] \<Longrightarrow> 0 < F \<Longrightarrow> F \<le> 244 \<Longrightarrow>
      (\<exists>c'. epRun envC [EvConfirmation, EvSubscribeComplete, EvReceive [d]] c1 = Some c' \<and> mState c' = kState_Connected \<and>
        mBtpEngine c' = SetTxFragmentSize (unat F) (SetRxFragmentSize (unat F) (BtpEngine_Init False (mBtpEngine cEp))) \<and>
        mRemoteReceiveWindowSize c' = 6 \<and> mLocalReceiveWindowSize c' = 5)"
    using central_handshake [OF assms(1,3,5)] by blast
  have q: "bufData (platformBuffer ?req) = ?req" "chainOk [platformBuffer ?req]"
    by (simp_all add: platformBuffer_def bufData_def bufOk_def length_requestBytes startRequest_bytes)
  have r: "bufData (platformBuffer ?resp) = ?resp" "chainOk [platformBuffer ?resp]"
    by (simp_all add: platformBuffer_def bufData_def bufOk_def length_responseBytes)
  have F: "5 \<le> ?F" "?F \<le> 244" using fragmentSizeFor_bounds mtu(2) by auto
  have "0 < ?F" by (rule less_le_trans [OF _ F(1)]) simp
  obtain p' where p': "epRun envP [EvReceive [platformBuffer ?req], EvSubscribeReceived, EvConfirmation] p = Some p'"
      "outputs p' = outputs p @ [Indication ?resp, SetEndPoint]" "mState p' = kState_Connected"
      "mBtpEngine p' = SetTxFragmentSize (unat ?F) (SetRxFragmentSize (unat ?F) (BtpEngine_Init True (mBtpEngine pEp)))"
      "mRemoteReceiveWindowSize p' = 5" "mLocalReceiveWindowSize p' = 6"
    using peripheral_handshake [OF assms(2,4,6) q] unfolding mtu(1) [symmetric] by blast
  obtain c' where c': "epRun envC [EvConfirmation, EvSubscribeComplete, EvReceive [platformBuffer ?resp]] c1 = Some c'"
      "mState c' = kState_Connected"
      "mBtpEngine c' = SetTxFragmentSize (unat ?F) (SetRxFragmentSize (unat ?F) (BtpEngine_Init False (mBtpEngine cEp)))"
      "mRemoteReceiveWindowSize c' = 6" "mLocalReceiveWindowSize c' = 5"
    using rest [OF r \<open>0 < ?F\<close> F(2)] by blast
  have "linked (unat ?F) (\<lambda>s. mBtpEngine (if s then pEp else cEp)) c' p'" "5 \<le> unat ?F" "unat ?F \<le> 244"
    using p' c' F by (simp_all add: linked_def linkInit_def word_le_nat_alt)
  then show ?thesis using c1 p'(1,2) c'(1) by blast
qed

theorem handshake_agrees_witness:
  "\<exists>F c1 request p' response c'.
     epRun (workingPlatform 23) [EvStartConnect] (newEndPoint kBleRole_Central) = Some c1 \<and>
     epRun (workingPlatform 0) [EvReceive [platformBuffer request], EvSubscribeReceived, EvConfirmation] (newEndPoint kBleRole_Peripheral) = Some p' \<and>
     epRun (workingPlatform 23) [EvConfirmation, EvSubscribeComplete, EvReceive [platformBuffer response]] c1 = Some c' \<and>
     linked F (\<lambda>s. mBtpEngine (if s then endPoint0 else endPoint0)) c' p'"
proof -
  have m: "23 = negotiatedMtu (workingPlatform 23) (workingPlatform 0)" "(23::u16) = 0 \<or> 8 \<le> (23::u16)"
    by (simp_all add: negotiatedMtu_def workingPlatform_def)
  from handshake_agrees [OF workingPlatform_works workingPlatform_works newEndPoint_init(1) newEndPoint_init(1) newEndPoint_init(2)
      newEndPoint_init(2) m] show ?thesis by blast
qed

text \<open>
  C19.  In every run, on every platform and from every initialised end point, the end point hands a
  write or an indication to the platform only when the one before has been confirmed: there are never more
  of them than the confirmations (of sends and of subscriptions) and handshake events that came before,
  and one for the operation in flight.
\<close>

theorem gatt_sends_are_paced:
  assumes "EndPoint_Init c role auto ep = (None, ep0)" "epRun env xs ep0 = Some ep'"
  shows "sends (outputs ep') \<le> sends (outputs ep) + length (filter permitsSend xs) + of_bool (kGattOperationInFlight ep')"
proof -
  have "outputs ep0 = outputs ep" using assms(1) by (auto simp: EndPoint_Init_def split: if_splits)
  with paced.laws.epRun [where k = "sends (outputs ep)" and n = 0, OF _ assms(2)] show ?thesis by simp
qed

theorem gatt_sends_are_paced_witness:
  "\<exists>ep'. epRun (workingPlatform 23) acceptConnection (newEndPoint kBleRole_Peripheral) = Some ep' \<and>
     sends (outputs ep') \<le> 2 + of_bool (kGattOperationInFlight ep')"
proof -
  obtain ep' where r: "epRun (workingPlatform 23) acceptConnection (newEndPoint kBleRole_Peripheral) = Some ep'"
    using peripheral_connects by auto
  from gatt_sends_are_paced [OF newEndPoint_init(1) r] r show ?thesis by (simp add: endPoint0_def acceptConnection_def)
qed

text \<open>
  C20. The connection state only moves forward: ready, connecting, aborting, connected, closing, closed.
  No sequence of events reopens a connection.
\<close>

theorem connection_moves_forward:
  assumes "epRun env xs ep = Some ep'"
  shows "stateRank (mState ep) \<le> stateRank (mState ep')"
  using life.laws.epRun [where k = "stateRank (mState ep)", OF _ assms] by simp

theorem connection_moves_forward_witness:
  "\<exists>ep'. epRun (workingPlatform 23) acceptConnection (newEndPoint kBleRole_Peripheral) = Some ep' \<and>
     mState (newEndPoint kBleRole_Peripheral) = kState_Ready \<and> stateRank kState_Ready \<le> stateRank (mState ep')"
proof -
  obtain ep' where r: "epRun (workingPlatform 23) acceptConnection (newEndPoint kBleRole_Peripheral) = Some ep'"
    using peripheral_connects by auto
  have "mState (newEndPoint kBleRole_Peripheral) = kState_Ready" by (simp add: newEndPoint_def EndPoint_Init_def endPoint0_def)
  with connection_moves_forward [OF r] r show ?thesis by simp
qed

text \<open>
  A stand-alone acknowledgement that had to wait leaves the send-ack timer running.  A connected
  peripheral sends a long message; while its first fragment is in flight it receives a fragment, the
  send-ack timer expires, and it receives a second fragment, which starts the timer again.  The two confirmations then send
  the waiting acknowledgement, of both, and the next fragment of the message, which is to carry an acknowledgement because
  the timer runs.  Nothing is left to acknowledge, and the end point aborts the connection.
\<close>

theorem stale_ack_timer_aborts:
  "map_option (\<lambda>ep. (mState ep, mBle ep, drop 3 (outputs ep)))
     (epRun (workingPlatform 23)
       (acceptConnection @ [EvSend [message30], EvReceive [platformBuffer [8, 0, 0]], EvSendAckTimeout,
          EvReceive [platformBuffer [8, 1, 1]], EvConfirmation, EvConfirmation])
       (newEndPoint kBleRole_Peripheral)) =
   Some (kState_Closed, False,
     [Indication [8, 1, 2], OnEndPointConnectionClosed (Some BLE_ERROR_CHIPOBLE_PROTOCOL_ABORT), NotifyChipConnectionClosed])"
  by code_simp

text \<open>
  An end point that finishes its graceful close while it handles an acknowledgement is used after it has been freed.
  A peripheral has filled the window of the central with four messages and is closed by the application.
  The acknowledgement of all of them makes \<open>DriveSending\<close> free the end point, and \<open>Receive\<close> goes on to start a
  timer of the freed end point.
\<close>

theorem freed_end_point_used:
  "epRun (workingPlatform 23)
     (acceptConnection @ concat (replicate 4 [EvSend [message3], EvConfirmation]) @ [EvClose, EvReceive [platformBuffer [8, 4, 0]]])
     (newEndPoint kBleRole_Peripheral) = None"
  by code_simp

text \<open>
  A graceful close is reported to the transport twice, once when it begins and once when it ends, although the
  callback is said to fire once in the lifetime of an end point.
\<close>

lemma close_reported_twice:
  "map_option (\<lambda>ep. (mState ep, mBle ep, drop 3 (outputs ep)))
     (epRun (workingPlatform 23)
       (acceptConnection @ [EvSend [message3], EvClose, EvReceive [platformBuffer [8, 1, 0]], EvConfirmation])
       (newEndPoint kBleRole_Peripheral)) =
   Some (kState_Closed, False, [OnEndPointConnectionClosed None, OnEndPointConnectionClosed None, NotifyChipConnectionClosed])"
  by code_simp

text \<open>
  The MTU of the request is taken without a lower bound.  A peripheral that has accepted a request with MTU 4 uses
  fragments of one byte, less than a fragment header; each fragment starts one byte before the last one,
  and the third fragment of a message with five bytes of headroom is written before its buffer.
\<close>

theorem tiny_mtu_writes_before_buffer:
  "map_option (\<lambda>ep. map payload (mTxBuf (mBtpEngine ep)))
     (epRun (workingPlatform 23) (acceptTinyMtu @ [EvSend [message30], EvConfirmation]) (newEndPoint kBleRole_Peripheral)) = Some [0] \<and>
   epRun (workingPlatform 23) (acceptTinyMtu @ [EvSend [message30], EvConfirmation, EvConfirmation]) (newEndPoint kBleRole_Peripheral) = None"
  by code_simp

text \<open>A request with window size zero is accepted, and the window of the central wraps to 255.\<close>

lemma zero_window_wraps:
  "map_option mRemoteReceiveWindowSize
     (epRun (workingPlatform 23) [EvReceive [platformBuffer [0x65, 0x6C, 4, 0, 0, 0, 23, 0, 0]], EvSubscribeReceived]
       (newEndPoint kBleRole_Peripheral)) = Some 255"
  by code_simp

end
