(* ===== verification/Ble_Layer.thy ===== *)
theory Ble_Layer
  imports Ble_Connection
begin

text \<open>
  The BLE layer, \<^verbatim>\<open>src/ble/BleLayer.cpp\<close> with \<open>UUIDsMatch\<close> of \<^verbatim>\<open>src/ble/BleUUID.cpp\<close>: the pool of end points, the search
  for the end point of a connection, and the dispatch of what the platform reports.  A connection handle is a
  number, \<open>None\<close> the uninitialised handle; an end point's \<open>mConnObj\<close> tells whether it holds the handle of its
  slot.  As in \<open>Ble_EndPoint\<close>, \<open>None\<close> as a result is a crash.
\<close>

section \<open>State\<close>

record bleSlot =
  slotConn :: nat
  slotEp :: BLEEndPoint

datatype connTarget = ByDiscriminator nat | ByObject "nat option"

datatype layerCall =
    NotifyClosed "nat option"
  | OnBleConnectionComplete nat
  | OnBleConnectionError chip_error
  | NewConnection connTarget
  | CancelConnection

record BleLayer =
  kState_Initialized :: bool
  layerTransport :: bool
  mConnectionDelegate :: bool
  endPointPool :: "bleSlot list"
  layerCalls :: "layerCall list"

definition CHIP_BLE_SVC_ID :: bytes where
  "CHIP_BLE_SVC_ID = [0x00, 0x00, 0xFF, 0xF6, 0x00, 0x00, 0x10, 0x00, 0x80, 0x00, 0x00, 0x80, 0x5F, 0x9B, 0x34, 0xFB]"

definition CHIP_BLE_CHAR_1_ID :: bytes where
  "CHIP_BLE_CHAR_1_ID = [0x18, 0xEE, 0x2E, 0xF5, 0x26, 0x3D, 0x45, 0x59, 0x95, 0x9F, 0x4F, 0x9C, 0x42, 0x9F, 0x9D, 0x11]"

definition CHIP_BLE_CHAR_2_ID :: bytes where
  "CHIP_BLE_CHAR_2_ID = [0x18, 0xEE, 0x2E, 0xF5, 0x26, 0x3D, 0x45, 0x59, 0x95, 0x9F, 0x4F, 0x9C, 0x42, 0x9F, 0x9D, 0x12]"

definition CHIP_BLE_CHAR_3_ID :: bytes where
  "CHIP_BLE_CHAR_3_ID = [0x64, 0x63, 0x02, 0x38, 0x87, 0x72, 0x45, 0xF2, 0xB8, 0x7D, 0x74, 0x8A, 0x83, 0x21, 0x8F, 0x04]"

definition UUIDsMatch :: "bytes option \<Rightarrow> bytes option \<Rightarrow> bool" where
  "UUIDsMatch idOne idTwo = (case (idOne, idTwo) of (Some a, Some b) \<Rightarrow> a = b | _ \<Rightarrow> False)"

section \<open>The pool\<close>

fun findSlot :: "(bleSlot \<Rightarrow> bool) \<Rightarrow> bleSlot list \<Rightarrow> nat option" where
  "findSlot p [] = None"
| "findSlot p (s # ss) = (if p s then Some 0 else map_option Suc (findSlot p ss))"

definition holdsConn :: "nat \<Rightarrow> bleSlot \<Rightarrow> bool" where
  "holdsConn h s \<longleftrightarrow> mBle (slotEp s) \<and> mConnObj (slotEp s) \<and> slotConn s = h"

definition Pool_Find :: "nat option \<Rightarrow> bleSlot list \<Rightarrow> nat option" where
  "Pool_Find c pool = (case c of None \<Rightarrow> None | Some h \<Rightarrow> findSlot (holdsConn h) pool)"

definition GetFree :: "bleSlot list \<Rightarrow> nat option" where
  "GetFree pool = findSlot (\<lambda>s. \<not> mBle (slotEp s)) pool"

text \<open>A call on the end point of a slot.\<close>

definition onSlot :: "nat \<Rightarrow> (BLEEndPoint \<Rightarrow> BLEEndPoint option) \<Rightarrow> BleLayer \<Rightarrow> BleLayer option" where
  "onSlot i f layer =
     (let s = endPointPool layer ! i
      in map_option (\<lambda>ep. layer\<lparr>endPointPool := (endPointPool layer)[i := s\<lparr>slotEp := ep\<rparr>]\<rparr>) (f (slotEp s)))"

definition onConnection :: "nat option \<Rightarrow> (BLEEndPoint \<Rightarrow> BLEEndPoint option) \<Rightarrow> BleLayer \<Rightarrow> BleLayer option" where
  "onConnection connObj f layer =
     (case Pool_Find connObj (endPointPool layer) of None \<Rightarrow> Some layer | Some i \<Rightarrow> onSlot i f layer)"

definition layerCall_emit :: "layerCall \<Rightarrow> BleLayer \<Rightarrow> BleLayer" where
  "layerCall_emit x layer = layer\<lparr>layerCalls := layerCalls layer @ [x]\<rparr>"

section \<open>Operations\<close>

text \<open>The \<open>memset\<close> of \<open>Init\<close> clears the object \<open>sBLEEndPointPool\<close>, which has no members; the end points are in a static
  buffer inside \<open>Get\<close> and keep their contents.\<close>

definition BleLayer_Init :: "bool \<Rightarrow> bool \<Rightarrow> bool \<Rightarrow> bool \<Rightarrow> BleLayer \<Rightarrow> chip_error option \<times> BleLayer" where
  "BleLayer_Init platformDelegate connDelegate appDelegate systemLayer layer =
     (if \<not> platformDelegate \<or> \<not> appDelegate \<or> \<not> systemLayer then (Some CHIP_ERROR_INVALID_ARGUMENT, layer)
      else if kState_Initialized layer then (Some CHIP_ERROR_INCORRECT_STATE, layer)
      else (None, layer\<lparr>mConnectionDelegate := connDelegate, kState_Initialized := True\<rparr>))"

definition closeSlot :: "platform \<Rightarrow> BLEEndPoint \<Rightarrow> BLEEndPoint option" where
  "closeSlot env ep =
     Option.bind (if mState ep \<noteq> kState_Closed then EndPoint_Abort env ep else Some ep)
       (\<lambda>ep. if IsUnsubscribePending ep then EndPoint_Free ep else Some ep)"

fun closeLoop :: "platform \<Rightarrow> (bleSlot \<Rightarrow> bool) \<Rightarrow> bleSlot list \<Rightarrow> bleSlot list option" where
  "closeLoop env p [] = Some []"
| "closeLoop env p (s # ss) =
     Option.bind (if p s then map_option (\<lambda>ep. s\<lparr>slotEp := ep\<rparr>) (closeSlot env (slotEp s)) else Some s)
       (\<lambda>s. map_option (\<lambda>ss. s # ss) (closeLoop env p ss))"

definition CloseAllBleConnections :: "platform \<Rightarrow> BleLayer \<Rightarrow> BleLayer option" where
  "CloseAllBleConnections env layer =
     map_option (\<lambda>pool. layer\<lparr>endPointPool := pool\<rparr>) (closeLoop env (\<lambda>s. mBle (slotEp s)) (endPointPool layer))"

definition Shutdown :: "platform \<Rightarrow> BleLayer \<Rightarrow> BleLayer option" where
  "Shutdown env layer = CloseAllBleConnections env (layer\<lparr>kState_Initialized := False\<rparr>)"

text \<open>\<open>ConnectionObjectIs\<close> compares the handles, the uninitialised one included.\<close>

definition ConnectionObjectIs :: "nat option \<Rightarrow> bleSlot \<Rightarrow> bool" where
  "ConnectionObjectIs connObj s \<longleftrightarrow> connObj = (if mConnObj (slotEp s) then Some (slotConn s) else None)"

definition CloseBleConnection :: "platform \<Rightarrow> nat option \<Rightarrow> BleLayer \<Rightarrow> BleLayer option" where
  "CloseBleConnection env connObj layer =
     map_option (\<lambda>pool. layer\<lparr>endPointPool := pool\<rparr>)
       (closeLoop env (\<lambda>s. mBle (slotEp s) \<and> ConnectionObjectIs connObj s) (endPointPool layer))"

definition NewBleEndPoint :: "nat option \<Rightarrow> BleRole \<Rightarrow> bool \<Rightarrow> BleLayer \<Rightarrow> (chip_error + nat) \<times> BleLayer" where
  "NewBleEndPoint connObj role autoClose layer =
     (if \<not> kState_Initialized layer then (Inl CHIP_ERROR_INCORRECT_STATE, layer)
      else (case connObj of
              None \<Rightarrow> (Inl CHIP_ERROR_INVALID_ARGUMENT, layer)
            | Some h \<Rightarrow>
                (case GetFree (endPointPool layer) of
                   None \<Rightarrow> (Inl CHIP_ERROR_ENDPOINT_POOL_FULL, layer)
                 | Some i \<Rightarrow>
                     (let ep = snd (EndPoint_Init True role autoClose (slotEp (endPointPool layer ! i)))
                      in (Inr i, layer\<lparr>endPointPool :=
                            (endPointPool layer)[i := \<lparr>slotConn = h, slotEp = ep\<lparr>mBleTransport := layerTransport layer\<rparr>\<rparr>]\<rparr>)))))"

definition HandleBleTransportConnectionInitiated :: "platform \<Rightarrow> nat option \<Rightarrow> pbuf list \<Rightarrow> BleLayer \<Rightarrow> BleLayer option" where
  "HandleBleTransportConnectionInitiated env connObj pBuf layer =
     (case NewBleEndPoint connObj kBleRole_Peripheral False layer of
        (Inl e, layer) \<Rightarrow> Some (layerCall_emit (NotifyClosed connObj) layer)
      | (Inr i, layer) \<Rightarrow> onSlot i (\<lambda>ep. map_option snd (Receive env pBuf ep)) layer)"

text \<open>The handlers answer whether the service is the one of the layer.\<close>

definition ifService :: "bool \<Rightarrow> bytes option \<Rightarrow> bool \<Rightarrow> (BleLayer \<Rightarrow> BleLayer option) \<Rightarrow> BleLayer \<Rightarrow> (bool \<times> BleLayer) option" where
  "ifService otherwise svcId known f layer =
     (if \<not> UUIDsMatch (Some CHIP_BLE_SVC_ID) svcId then Some (otherwise, layer)
      else if known then map_option (\<lambda>layer. (True, layer)) (f layer) else Some (True, layer))"

definition isChar :: "bytes list \<Rightarrow> bytes option \<Rightarrow> bool" where
  "isChar ids charId \<longleftrightarrow> list_ex (\<lambda>i. UUIDsMatch (Some i) charId) ids"

definition HandleWriteReceived :: "platform \<Rightarrow> nat option \<Rightarrow> bytes option \<Rightarrow> bytes option \<Rightarrow> pbuf list \<Rightarrow> BleLayer \<Rightarrow> (bool \<times> BleLayer) option" where
  "HandleWriteReceived env connObj svcId charId pBuf =
     ifService True svcId (isChar [CHIP_BLE_CHAR_1_ID] charId) (\<lambda>layer.
       if pBuf = [] then Some layer
       else if Pool_Find connObj (endPointPool layer) \<noteq> None
       then onConnection connObj (\<lambda>ep. map_option snd (Receive env pBuf ep)) layer
       else HandleBleTransportConnectionInitiated env connObj pBuf layer)"

definition HandleIndicationReceived :: "platform \<Rightarrow> nat option \<Rightarrow> bytes option \<Rightarrow> bytes option \<Rightarrow> pbuf list \<Rightarrow> BleLayer \<Rightarrow> (bool \<times> BleLayer) option" where
  "HandleIndicationReceived env connObj svcId charId pBuf =
     ifService False svcId (isChar [CHIP_BLE_CHAR_2_ID] charId) (\<lambda>layer.
       if pBuf = [] then Some layer else onConnection connObj (\<lambda>ep. map_option snd (Receive env pBuf ep)) layer)"

definition Layer_HandleAckReceived :: "platform \<Rightarrow> nat option \<Rightarrow> BleLayer \<Rightarrow> BleLayer option" where
  "Layer_HandleAckReceived env connObj = onConnection connObj (\<lambda>ep. map_option snd (HandleGattSendConfirmationReceived env ep))"

definition HandleWriteConfirmation :: "platform \<Rightarrow> nat option \<Rightarrow> bytes option \<Rightarrow> bytes option \<Rightarrow> BleLayer \<Rightarrow> (bool \<times> BleLayer) option" where
  "HandleWriteConfirmation env connObj svcId charId =
     ifService False svcId (isChar [CHIP_BLE_CHAR_1_ID] charId) (Layer_HandleAckReceived env connObj)"

definition HandleIndicationConfirmation :: "platform \<Rightarrow> nat option \<Rightarrow> bytes option \<Rightarrow> bytes option \<Rightarrow> BleLayer \<Rightarrow> (bool \<times> BleLayer) option" where
  "HandleIndicationConfirmation env connObj svcId charId =
     ifService False svcId (isChar [CHIP_BLE_CHAR_2_ID] charId) (Layer_HandleAckReceived env connObj)"

definition Layer_HandleSubscribeReceived :: "platform \<Rightarrow> nat option \<Rightarrow> bytes option \<Rightarrow> bytes option \<Rightarrow> BleLayer \<Rightarrow> (bool \<times> BleLayer) option" where
  "Layer_HandleSubscribeReceived env connObj svcId charId =
     ifService False svcId (isChar [CHIP_BLE_CHAR_2_ID, CHIP_BLE_CHAR_3_ID] charId) (onConnection connObj (HandleSubscribeReceived env))"

definition Layer_HandleSubscribeComplete :: "platform \<Rightarrow> nat option \<Rightarrow> bytes option \<Rightarrow> bytes option \<Rightarrow> BleLayer \<Rightarrow> (bool \<times> BleLayer) option" where
  "Layer_HandleSubscribeComplete env connObj svcId charId =
     ifService False svcId (isChar [CHIP_BLE_CHAR_2_ID, CHIP_BLE_CHAR_3_ID] charId) (onConnection connObj (HandleSubscribeComplete env))"

definition HandleUnsubscribeReceived :: "platform \<Rightarrow> nat option \<Rightarrow> bytes option \<Rightarrow> bytes option \<Rightarrow> BleLayer \<Rightarrow> (bool \<times> BleLayer) option" where
  "HandleUnsubscribeReceived env connObj svcId charId =
     ifService False svcId (isChar [CHIP_BLE_CHAR_2_ID, CHIP_BLE_CHAR_3_ID] charId)
       (onConnection connObj (DoClose env False True (Some BLE_ERROR_CENTRAL_UNSUBSCRIBED)))"

definition Layer_HandleUnsubscribeComplete :: "nat option \<Rightarrow> bytes option \<Rightarrow> bytes option \<Rightarrow> BleLayer \<Rightarrow> (bool \<times> BleLayer) option" where
  "Layer_HandleUnsubscribeComplete connObj svcId charId =
     ifService False svcId (isChar [CHIP_BLE_CHAR_2_ID, CHIP_BLE_CHAR_3_ID] charId) (onConnection connObj HandleUnsubscribeComplete)"

definition HandleConnectionError :: "platform \<Rightarrow> nat option \<Rightarrow> chip_error option \<Rightarrow> BleLayer \<Rightarrow> BleLayer option" where
  "HandleConnectionError env connObj err =
     onConnection connObj (\<lambda>ep.
       if err = Some BLE_ERROR_GATT_UNSUBSCRIBE_FAILED \<and> IsUnsubscribePending ep then EndPoint_Free ep
       else DoClose env False True err ep)"

text \<open>Central connections.  \<open>OnConnectionComplete\<close> and \<open>OnConnectionError\<close> use \<open>mBleTransport\<close> without a test.\<close>

definition OnConnectionError :: "chip_error \<Rightarrow> BleLayer \<Rightarrow> BleLayer option" where
  "OnConnectionError err layer = (if layerTransport layer then Some (layerCall_emit (OnBleConnectionError err) layer) else None)"

definition OnConnectionComplete :: "nat option \<Rightarrow> BleLayer \<Rightarrow> BleLayer option" where
  "OnConnectionComplete connObj layer =
     (case NewBleEndPoint connObj kBleRole_Central True layer of
        (Inl e, layer) \<Rightarrow> OnConnectionError e layer
      | (Inr i, layer) \<Rightarrow> if layerTransport layer then Some (layerCall_emit (OnBleConnectionComplete i) layer) else None)"

definition NewBleConnectionByObject :: "nat option \<Rightarrow> BleLayer \<Rightarrow> (chip_error option \<times> BleLayer) option" where
  "NewBleConnectionByObject connObj layer =
     (if \<not> kState_Initialized layer \<or> \<not> layerTransport layer then Some (Some CHIP_ERROR_INCORRECT_STATE, layer)
      else map_option (\<lambda>layer. (None, layer)) (OnConnectionComplete connObj layer))"

text \<open>The two variants that hand the callbacks and the target to the delegate, which reports through the callbacks later.\<close>

definition NewBleConnection :: "connTarget \<Rightarrow> BleLayer \<Rightarrow> chip_error option \<times> BleLayer" where
  "NewBleConnection target layer =
     (if \<not> kState_Initialized layer \<or> \<not> mConnectionDelegate layer \<or> \<not> layerTransport layer then (Some CHIP_ERROR_INCORRECT_STATE, layer)
      else (None, layerCall_emit (NewConnection target) layer))"

definition CancelBleIncompleteConnection :: "chip_error option \<Rightarrow> BleLayer \<Rightarrow> chip_error option \<times> BleLayer" where
  "CancelBleIncompleteConnection delegateAnswer layer =
     (if \<not> kState_Initialized layer \<or> \<not> mConnectionDelegate layer then (Some CHIP_ERROR_INCORRECT_STATE, layer)
      else (delegateAnswer, layerCall_emit CancelConnection layer))"

section \<open>What holds of every end point of the pool\<close>

text \<open>An end point in use has its one reference, a connection and a transport; when it is closed, it waits for
  the end of the unsubscription.\<close>

definition heldOk :: "BLEEndPoint \<Rightarrow> bool" where
  "heldOk ep \<longleftrightarrow>
     (mBle ep \<longrightarrow> mRefCount ep = 1 \<and> mConnObj ep \<and> mBleTransport ep \<and> (mState ep = kState_Closed \<longrightarrow> kUnsubscribeTimerRunning ep))"

lemmas stop_defs = cancelTimerWith_def StopConnectTimer_def StopReceiveConnectionTimer_def StopAckReceivedTimer_def StopSendAckTimer_def
  StopUnsubscribeTimer_def

lemma EndPoint_Free_frees:
  assumes "mBle ep" "mRefCount ep = 1"
  shows "\<exists>ep'. EndPoint_Free ep = Some ep' \<and> \<not> mBle ep' \<and> \<not> kUnsubscribeTimerRunning ep'"
  using assms by (auto simp: EndPoint_Free_def ReleaseBleConnection_def FreeBtpEngine_def Release_def stop_defs Let_def emit_def)

lemma EndPoint_Free_None: "\<not> mBle ep \<Longrightarrow> EndPoint_Free ep = None"
  by (simp add: EndPoint_Free_def ReleaseBleConnection_def FreeBtpEngine_def stop_defs)

text \<open>What remains of an end point that is freed or waits for the end of its unsubscription.\<close>

definition goneOrWaiting :: "BLEEndPoint \<Rightarrow> bool" where
  "goneOrWaiting ep \<longleftrightarrow>
     (if mBle ep then mRefCount ep = 1 \<and> mConnObj ep \<and> mBleTransport ep \<and> kUnsubscribeTimerRunning ep
      else \<not> kUnsubscribeTimerRunning ep)"

lemma goneOrWaiting_held: "goneOrWaiting ep \<Longrightarrow> heldOk ep"
  by (simp add: goneOrWaiting_def heldOk_def)

lemma closeByUnsubscribe_total:
  assumes "mBle ep" "mRefCount ep = 1" "mConnObj ep" "mBleTransport ep"
  shows "\<exists>ep'. closeByUnsubscribe env ep = Some ep' \<and> goneOrWaiting ep'"
proof -
  let ?e = "emit UnsubscribeCharacteristic (ep\<lparr>kAckReceivedTimerRunning := False, kSendAckTimerRunning := False\<rparr>)"
  have e: "mBle ?e" "mRefCount ?e = 1" "mConnObj ?e" "mBleTransport ?e" using assms by (simp_all add: emit_def)
  obtain f where f: "EndPoint_Free ?e = Some f" "\<not> mBle f" "\<not> kUnsubscribeTimerRunning f" using EndPoint_Free_frees [OF e(1,2)] by blast
  then have "goneOrWaiting f" "goneOrWaiting (f\<lparr>kGattOperationInFlight := True\<rparr>)" by (simp_all add: goneOrWaiting_def)
  moreover have "goneOrWaiting (?e\<lparr>kUnsubscribeTimerRunning := True, kGattOperationInFlight := True\<rparr>)"
    using e by (simp add: goneOrWaiting_def)
  ultimately show ?thesis using assms e f
    by (auto simp: closeByUnsubscribe_def stop_defs Let_def StartUnsubscribeTimer_def startTimerWith_def split: option.split)
qed

lemma FinalizeClose_total:
  assumes "mBle ep" "mRefCount ep = 1" "mConnObj ep" "mBleTransport ep"
  shows "\<exists>ep'. FinalizeClose env st s err ep = Some ep' \<and> goneOrWaiting ep'"
proof -
  have free: "\<exists>f. EndPoint_Free e = Some f \<and> goneOrWaiting f" if "mBle e" "mRefCount e = 1" for e
    using EndPoint_Free_frees [OF that] by (auto simp: goneOrWaiting_def)
  show ?thesis using assms
    by (auto simp: FinalizeClose_def Let_def suppressedCallback_def DoCloseCallback_def emit_def
        intro!: free closeByUnsubscribe_total)
qed

lemma FinalizeClose_None: "\<not> mBle ep \<Longrightarrow> FinalizeClose env st s err ep = None"
  by (simp add: FinalizeClose_def Let_def suppressedCallback_def DoCloseCallback_def emit_def EndPoint_Free_None closeByUnsubscribe_def
      stop_defs)

interpretation held: run_laws "\<lambda>_. heldOk"
proof unfold_locales
  fix ep :: BLEEndPoint and b st s env err
  assume h: "heldOk ep"
  then have l: "mRefCount ep = 1" "mConnObj ep" "mBleTransport ep" if "mBle ep" using that by (simp_all add: heldOk_def)
  have "pred_option heldOk (EndPoint_Free (ep\<lparr>kUnsubscribeTimerRunning := b\<rparr>))" for b
  proof (cases "mBle ep")
    case True
    with EndPoint_Free_frees [of "ep\<lparr>kUnsubscribeTimerRunning := b\<rparr>"] l show ?thesis by (auto simp: heldOk_def)
  qed (simp add: EndPoint_Free_None)
  from this [of False] this [of "kUnsubscribeTimerRunning ep"]
  show "pred_option heldOk (EndPoint_Free ep)" "pred_option heldOk (EndPoint_Free (ep\<lparr>kUnsubscribeTimerRunning := False\<rparr>))"
    by simp_all
  show "pred_option heldOk (FinalizeClose env st s err ep)"
  proof (cases "mBle ep")
    case True
    with FinalizeClose_total [OF True l, of env st s err] show ?thesis by (auto intro: goneOrWaiting_held)
  qed (simp add: FinalizeClose_None)
qed (auto simp: heldOk_def sameVisible_def sameLife_def emit_def)

text \<open>No operation gives an end point its layer or its connection back.\<close>

lemma EndPoint_Free_dead: "EndPoint_Free ep = Some ep' \<Longrightarrow> \<not> mConnObj ep'"
  by (auto simp: EndPoint_Free_def ReleaseBleConnection_def FreeBtpEngine_def Release_def stop_defs Let_def split: if_splits)

interpretation lost: run_laws "\<lambda>_ ep. mBle ep \<and> mConnObj ep \<longrightarrow> k" for k
proof unfold_locales
  fix ep :: BLEEndPoint and b st s env err
  assume h: "mBle ep \<and> mConnObj ep \<longrightarrow> k"
  have free: "pred_option (\<lambda>ep. mBle ep \<and> mConnObj ep \<longrightarrow> k) (EndPoint_Free e)" for e
    using EndPoint_Free_dead [of e] by (cases "EndPoint_Free e") auto
  then show "pred_option (\<lambda>ep. mBle ep \<and> mConnObj ep \<longrightarrow> k) (EndPoint_Free ep)"
    "pred_option (\<lambda>ep. mBle ep \<and> mConnObj ep \<longrightarrow> k) (EndPoint_Free (ep\<lparr>kUnsubscribeTimerRunning := False\<rparr>))" by blast+
  have "pred_option (\<lambda>ep. mBle ep \<and> mConnObj ep \<longrightarrow> k) (closeByUnsubscribe env e)" if "mBle e \<and> mConnObj e \<longrightarrow> k" for e
    using that
    by (auto simp: closeByUnsubscribe_def stop_defs Let_def option.pred_map comp_def StartUnsubscribeTimer_def startTimerWith_def emit_def
        pred_option_all intro!: free split: option.split)
  then show "pred_option (\<lambda>ep. mBle ep \<and> mConnObj ep \<longrightarrow> k) (FinalizeClose env st s err ep)" using h
    by (auto simp: FinalizeClose_def Let_def suppressedCallback_def DoCloseCallback_def emit_def intro!: free)
qed (auto simp: sameVisible_def sameLife_def emit_def)


section \<open>Runs of the layer\<close>

text \<open>
  What can happen to an initialised layer: the reports of the platform, connections opened and closed by the
  application, and what the application and the timers do with the end point of a slot while it is in use.  A central
  connection is new: no end point holds its handle.
\<close>

datatype layerEvent =
    LWrite "nat option" "bytes option" "bytes option" "pbuf list"
  | LIndication "nat option" "bytes option" "bytes option" "pbuf list"
  | LWriteConfirmation "nat option" "bytes option" "bytes option"
  | LIndicationConfirmation "nat option" "bytes option" "bytes option"
  | LSubscribeReceived "nat option" "bytes option" "bytes option"
  | LSubscribeComplete "nat option" "bytes option" "bytes option"
  | LUnsubscribeReceived "nat option" "bytes option" "bytes option"
  | LUnsubscribeComplete "nat option" "bytes option" "bytes option"
  | LConnectionError "nat option" "chip_error option"
  | LNewConnection "nat option"
  | LCloseConnection "nat option"
  | LCloseAll
  | LEndPoint nat epEvent

fun layerStep :: "platform \<Rightarrow> layerEvent \<Rightarrow> BleLayer \<Rightarrow> BleLayer option" where
  "layerStep env (LWrite c s u b) layer = map_option snd (HandleWriteReceived env c s u b layer)"
| "layerStep env (LIndication c s u b) layer = map_option snd (HandleIndicationReceived env c s u b layer)"
| "layerStep env (LWriteConfirmation c s u) layer = map_option snd (HandleWriteConfirmation env c s u layer)"
| "layerStep env (LIndicationConfirmation c s u) layer = map_option snd (HandleIndicationConfirmation env c s u layer)"
| "layerStep env (LSubscribeReceived c s u) layer = map_option snd (Layer_HandleSubscribeReceived env c s u layer)"
| "layerStep env (LSubscribeComplete c s u) layer = map_option snd (Layer_HandleSubscribeComplete env c s u layer)"
| "layerStep env (LUnsubscribeReceived c s u) layer = map_option snd (HandleUnsubscribeReceived env c s u layer)"
| "layerStep env (LUnsubscribeComplete c s u) layer = map_option snd (Layer_HandleUnsubscribeComplete c s u layer)"
| "layerStep env (LConnectionError c e) layer = HandleConnectionError env c e layer"
| "layerStep env (LNewConnection c) layer = map_option snd (NewBleConnectionByObject c layer)"
| "layerStep env (LCloseConnection c) layer = CloseBleConnection env c layer"
| "layerStep env LCloseAll layer = CloseAllBleConnections env layer"
| "layerStep env (LEndPoint i x) layer =
     (if i < length (endPointPool layer) \<and> mBle (slotEp (endPointPool layer ! i)) then onSlot i (epStep env x) layer else Some layer)"

fun permittedEvent :: "BleLayer \<Rightarrow> layerEvent \<Rightarrow> bool" where
  "permittedEvent layer (LNewConnection c) \<longleftrightarrow> Pool_Find c (endPointPool layer) = None"
| "permittedEvent layer _ \<longleftrightarrow> True"

inductive reachableLayer :: "platform \<Rightarrow> BleLayer \<Rightarrow> bool" for env where
  start: "layerTransport layer \<Longrightarrow> kState_Initialized layer \<Longrightarrow> list_all (\<lambda>s. \<not> mBle (slotEp s)) (endPointPool layer) \<Longrightarrow> reachableLayer env layer"
| step: "reachableLayer env layer \<Longrightarrow> permittedEvent layer x \<Longrightarrow> layerStep env x layer = Some layer' \<Longrightarrow> reachableLayer env layer'"

section \<open>The invariant of the pool\<close>

definition poolOk :: "bleSlot list \<Rightarrow> bool" where
  "poolOk pool \<longleftrightarrow>
     (\<forall>s \<in> set pool. heldOk (slotEp s)) \<and>
     (\<forall>i < length pool. \<forall>j < length pool. \<forall>h. holdsConn h (pool ! i) \<longrightarrow> holdsConn h (pool ! j) \<longrightarrow> i = j)"

lemma findSlot_Some: "findSlot p ss = Some i \<Longrightarrow> i < length ss \<and> p (ss ! i)"
  by (induction ss arbitrary: i) (auto split: if_splits)

lemma findSlot_None: "findSlot p ss = None \<longleftrightarrow> (\<forall>s \<in> set ss. \<not> p s)"
  by (induction ss) auto

text \<open>A slot may be replaced by one that holds nothing the old one did not hold.\<close>

lemma poolOk_update:
  assumes "poolOk pool" "heldOk (slotEp s)" "\<And>h. holdsConn h s \<Longrightarrow> holdsConn h (pool ! i) \<or> (\<forall>t \<in> set pool. \<not> holdsConn h t)"
  shows "poolOk (pool[i := s])"
proof -
  have "heldOk (slotEp t)" if "t \<in> set (pool[i := s])" for t
    using that assms(1,2) set_update_subset_insert [of pool i s] by (auto simp: poolOk_def)
  moreover have "j = k" if "j < length pool" "k < length pool" "holdsConn h (pool[i := s] ! j)" "holdsConn h (pool[i := s] ! k)" for j k h
    using that assms(1) assms(3) [of h] nth_mem [of j pool] nth_mem [of k pool]
    by (cases "j = i"; cases "k = i") (auto simp: poolOk_def)
  ultimately show ?thesis by (simp add: poolOk_def)
qed


text \<open>The laws of an operation on one end point, as the pool needs them.\<close>

definition keepsSlot :: "(BLEEndPoint \<Rightarrow> BLEEndPoint option) \<Rightarrow> bool" where
  "keepsSlot f \<longleftrightarrow>
     (\<forall>ep ep'. f ep = Some ep' \<longrightarrow> (heldOk ep \<longrightarrow> heldOk ep') \<and> (mBle ep' \<and> mConnObj ep' \<longrightarrow> mBle ep \<and> mConnObj ep))"

lemma keepsSlotI:
  assumes "\<And>ep. heldOk ep \<Longrightarrow> pred_option heldOk (f ep)"
    "\<And>k ep. mBle ep \<and> mConnObj ep \<longrightarrow> k \<Longrightarrow> pred_option (\<lambda>ep'. mBle ep' \<and> mConnObj ep' \<longrightarrow> k) (f ep)"
  shows "keepsSlot f"
  unfolding keepsSlot_def
proof (intro allI impI conjI)
  fix ep ep' assume f: "f ep = Some ep'"
  show "heldOk ep'" if "heldOk ep" using assms(1) [OF that] f by simp
  show "mBle ep" "mConnObj ep" if "mBle ep' \<and> mConnObj ep'"
    using assms(2) [of ep "mBle ep \<and> mConnObj ep"] f that by simp_all
qed

lemma keeps_endpoint:
  "keepsSlot (\<lambda>ep. map_option snd (Receive env b ep))" "keepsSlot (\<lambda>ep. map_option snd (HandleGattSendConfirmationReceived env ep))"
  "keepsSlot (HandleSubscribeReceived env)" "keepsSlot (HandleSubscribeComplete env)" "keepsSlot (DoClose env s a e)"
  "keepsSlot EndPoint_Free" "keepsSlot (epStep env x)"
proof -
  show "keepsSlot (\<lambda>ep. map_option snd (Receive env b ep))"
    by (rule keepsSlotI) (auto simp: option.pred_map comp_def intro: held.Receive lost.Receive)
  show "keepsSlot (\<lambda>ep. map_option snd (HandleGattSendConfirmationReceived env ep))"
    by (rule keepsSlotI) (auto simp: option.pred_map comp_def
        intro: held.HandleGattSendConfirmationReceived lost.HandleGattSendConfirmationReceived)
qed (auto intro!: keepsSlotI intro: held.HandleSubscribeReceived held.HandleSubscribeComplete held.DoClose held.Free held.epStep
    lost.HandleSubscribeReceived lost.HandleSubscribeComplete lost.DoClose lost.Free lost.epStep)

definition sameFrame :: "BleLayer \<Rightarrow> BleLayer \<Rightarrow> bool" where
  "sameFrame layer layer' \<longleftrightarrow> layerTransport layer' = layerTransport layer \<and> length (endPointPool layer') = length (endPointPool layer)"

lemma onSlot_ok:
  assumes "keepsSlot f" "poolOk (endPointPool layer)" "i < length (endPointPool layer)" "onSlot i f layer = Some layer'"
  shows "poolOk (endPointPool layer') \<and> sameFrame layer layer'"
proof -
  let ?s = "endPointPool layer ! i"
  obtain ep where ep: "f (slotEp ?s) = Some ep" "layer' = layer\<lparr>endPointPool := (endPointPool layer)[i := ?s\<lparr>slotEp := ep\<rparr>]\<rparr>"
    using assms(4) by (auto simp: onSlot_def Let_def)
  have "heldOk (slotEp ?s)" using assms(2,3) by (simp add: poolOk_def)
  then have "heldOk ep" "mBle ep \<and> mConnObj ep \<longrightarrow> mBle (slotEp ?s) \<and> mConnObj (slotEp ?s)"
    using assms(1) ep(1) unfolding keepsSlot_def by blast+
  then have "poolOk ((endPointPool layer)[i := ?s\<lparr>slotEp := ep\<rparr>])"
    by (intro poolOk_update [OF assms(2)]) (auto simp: holdsConn_def)
  then show ?thesis by (simp add: ep(2) sameFrame_def)
qed

lemma onConnection_ok:
  assumes "keepsSlot f" "poolOk (endPointPool layer)" "onConnection c f layer = Some layer'"
  shows "poolOk (endPointPool layer') \<and> sameFrame layer layer'"
proof (cases "Pool_Find c (endPointPool layer)")
  case (Some i)
  then have "i < length (endPointPool layer)" by (auto simp: Pool_Find_def dest: findSlot_Some split: option.splits)
  then show ?thesis using onSlot_ok [OF assms(1,2)] assms(3) Some by (simp add: onConnection_def)
qed (use assms in \<open>simp add: onConnection_def sameFrame_def\<close>)

lemma NewBleEndPoint_ok:
  assumes "poolOk (endPointPool layer)" "layerTransport layer" "Pool_Find c (endPointPool layer) = None"
    "NewBleEndPoint c role auto layer = (r, layer')"
  shows "poolOk (endPointPool layer') \<and> sameFrame layer layer' \<and> (\<forall>i. r = Inr i \<longrightarrow> i < length (endPointPool layer))"
proof (cases r)
  case (Inr i)
  then obtain h where h: "c = Some h" "findSlot (\<lambda>s. \<not> mBle (slotEp s)) (endPointPool layer) = Some i"
      "layer' = layer\<lparr>endPointPool := (endPointPool layer)[i := \<lparr>slotConn = h,
        slotEp = (snd (EndPoint_Init True role auto (slotEp (endPointPool layer ! i))))\<lparr>mBleTransport := layerTransport layer\<rparr>\<rparr>]\<rparr>"
    using assms(4) by (auto simp: NewBleEndPoint_def GetFree_def Let_def split: if_splits option.splits)
  note f = findSlot_Some [OF h(2)]
  have "\<forall>t \<in> set (endPointPool layer). \<not> holdsConn h t" using assms(3) h(1) by (simp add: Pool_Find_def findSlot_None)
  then have "poolOk (endPointPool layer')" using f assms(2) unfolding h(3)
    by (simp, intro poolOk_update [OF assms(1)]) (auto simp: EndPoint_Init_def heldOk_def holdsConn_def)
  then show ?thesis using f Inr h(3) by (simp add: sameFrame_def)
qed (use assms in \<open>auto simp: NewBleEndPoint_def Let_def sameFrame_def split: if_splits option.splits\<close>)


section \<open>Closing all connections\<close>

lemma keeps_closeSlot: "keepsSlot (closeSlot env)"
proof (rule keepsSlotI)
  show "pred_option heldOk (closeSlot env ep)" if "heldOk ep" for ep
    using that by (auto simp: closeSlot_def EndPoint_Abort_def intro!: held.DoClose [THEN pred_option_wp] held.Free)
  show "pred_option (\<lambda>ep'. mBle ep' \<and> mConnObj ep' \<longrightarrow> k) (closeSlot env ep)" if "mBle ep \<and> mConnObj ep \<longrightarrow> k" for k ep
    using that lost.DoClose [OF that] lost.Free
    by (auto simp: closeSlot_def EndPoint_Abort_def intro!: pred_option_wp [OF lost.DoClose [OF that]] lost.Free)
qed

lemma closeLoop_slots:
  "closeLoop env p ss = Some ss' \<Longrightarrow>
   list_all2 (\<lambda>s s'. slotConn s' = slotConn s \<and> (s' = s \<and> \<not> p s \<or> p s \<and> closeSlot env (slotEp s) = Some (slotEp s'))) ss ss'"
  by (induction ss arbitrary: ss') (auto simp: bind_eq_Some_conv split: if_splits)

lemma closeLoop_ok:
  assumes "poolOk ss" "closeLoop env p ss = Some ss'"
  shows "poolOk ss' \<and> length ss' = length ss"
proof -
  note l = closeLoop_slots [OF assms(2)]
  have s: "(heldOk (slotEp (ss ! i)) \<longrightarrow> heldOk (slotEp (ss' ! i))) \<and> (holdsConn h (ss' ! i) \<longrightarrow> holdsConn h (ss ! i))" if "i < length ss" for i h
    using list_all2_nthD [OF l that] keeps_closeSlot [of env] unfolding keepsSlot_def holdsConn_def by auto
  have n: "length ss' = length ss" using list_all2_lengthD [OF l] by simp
  then have "heldOk (slotEp t)" if "t \<in> set ss'" for t
    using that assms(1) s unfolding poolOk_def by (metis in_set_conv_nth)
  moreover have "i = j" if "i < length ss" "j < length ss" "holdsConn h (ss' ! i)" "holdsConn h (ss' ! j)" for i j h
    using that assms(1) s unfolding poolOk_def by blast
  ultimately show ?thesis using n by (simp add: poolOk_def)
qed

lemma closeSlot_frees:
  assumes "heldOk ep" "mBle ep"
  shows "\<exists>ep'. closeSlot env ep = Some ep' \<and> \<not> mBle ep'"
proof (cases "mState ep = kState_Closed")
  case True
  then show ?thesis using assms EndPoint_Free_frees [of ep] by (auto simp: closeSlot_def heldOk_def IsUnsubscribePending_def)
next
  case False
  have "\<exists>e. EndPoint_Abort env ep = Some e \<and> goneOrWaiting e"
    using assms False
    by (auto simp: EndPoint_Abort_def DoClose_def Let_def stop_defs heldOk_def intro!: FinalizeClose_total)
  then obtain e where e: "EndPoint_Abort env ep = Some e" "goneOrWaiting e" by blast
  then show ?thesis using False EndPoint_Free_frees [of e]
    by (cases "mBle e") (auto simp: closeSlot_def IsUnsubscribePending_def goneOrWaiting_def)
qed

lemma closeLoop_frees:
  "\<forall>s \<in> set ss. heldOk (slotEp s) \<Longrightarrow>
   \<exists>ss'. closeLoop env (\<lambda>s. mBle (slotEp s)) ss = Some ss' \<and> list_all (\<lambda>s. \<not> mBle (slotEp s)) ss'"
proof (induction ss)
  case (Cons s ss)
  then show ?case using closeSlot_frees [of "slotEp s" env] by (cases "mBle (slotEp s)") auto
qed simp

section \<open>Every reachable layer\<close>

lemma ifService_step: "map_option snd (ifService b s known f layer) = Some layer' \<Longrightarrow> layer' = layer \<or> f layer = Some layer'"
  by (auto simp: ifService_def split: if_splits)

lemma layerCall_emit_frame: "poolOk (endPointPool (layerCall_emit x layer)) = poolOk (endPointPool layer)"
  "sameFrame l (layerCall_emit x layer) = sameFrame l layer" "layerTransport (layerCall_emit x layer) = layerTransport layer"
  by (simp_all add: layerCall_emit_def sameFrame_def)

lemma initiated_ok:
  assumes "poolOk (endPointPool layer)" "layerTransport layer" "Pool_Find c (endPointPool layer) = None"
    "HandleBleTransportConnectionInitiated env c b layer = Some layer'"
  shows "poolOk (endPointPool layer') \<and> sameFrame layer layer'"
proof -
  obtain r l where l: "NewBleEndPoint c kBleRole_Peripheral False layer = (r, l)" by fastforce
  note n = NewBleEndPoint_ok [OF assms(1-3) l]
  then show ?thesis
  proof (cases r)
    case (Inr i)
    then have "i < length (endPointPool l)" using n by (simp add: sameFrame_def)
    with onSlot_ok [OF keeps_endpoint(1) _ this] n assms(4) l Inr show ?thesis
      by (fastforce simp: HandleBleTransportConnectionInitiated_def sameFrame_def)
  qed (use n assms(4) l in \<open>auto simp: HandleBleTransportConnectionInitiated_def layerCall_emit_frame\<close>)
qed

lemma connectionComplete_ok:
  assumes "poolOk (endPointPool layer)" "layerTransport layer" "Pool_Find c (endPointPool layer) = None"
    "OnConnectionComplete c layer = Some layer'"
  shows "poolOk (endPointPool layer') \<and> sameFrame layer layer'"
proof -
  obtain r l where l: "NewBleEndPoint c kBleRole_Central True layer = (r, l)" by fastforce
  then show ?thesis using NewBleEndPoint_ok [OF assms(1-3) l] assms(4)
    by (auto simp: OnConnectionComplete_def OnConnectionError_def layerCall_emit_frame split: sum.splits if_splits)
qed

lemma keeps_error:
  "keepsSlot (\<lambda>ep. if err = e \<and> IsUnsubscribePending ep then EndPoint_Free ep else DoClose env False True err ep)"
  using keeps_endpoint(5,6) unfolding keepsSlot_def by auto

lemma layerStep_ok:
  assumes ok: "poolOk (endPointPool layer)" "layerTransport layer" and x: "permittedEvent layer x" "layerStep env x layer = Some layer'"
  shows "poolOk (endPointPool layer') \<and> sameFrame layer layer'"
proof -
  let ?Q = "\<lambda>l. poolOk (endPointPool l) \<and> sameFrame layer l"
  have refl: "?Q layer" using ok by (simp add: sameFrame_def)
  note conn = onConnection_ok [OF _ ok(1)]
  have close: "?Q l" if "map_option (\<lambda>pool. layer\<lparr>endPointPool := pool\<rparr>) (closeLoop env p (endPointPool layer)) = Some l" for p l
    using that closeLoop_ok [OF ok(1)] by (auto simp: sameFrame_def)
  show ?thesis
  proof (cases x)
    case (LWrite c s u b)
    with x(2) have "map_option snd (HandleWriteReceived env c s u b layer) = Some layer'" by simp
    from ifService_step [OF this [unfolded HandleWriteReceived_def]] show ?thesis
      using refl conn [OF keeps_endpoint(1)] initiated_ok [OF ok] by (auto split: if_splits)
  next
    case (LIndication c s u b)
    with x(2) have "map_option snd (HandleIndicationReceived env c s u b layer) = Some layer'" by simp
    from ifService_step [OF this [unfolded HandleIndicationReceived_def]] show ?thesis
      using refl conn [OF keeps_endpoint(1)] by (auto split: if_splits)
  next
    case (LNewConnection c)
    then show ?thesis using x refl connectionComplete_ok [OF ok] by (auto simp: NewBleConnectionByObject_def split: if_splits)
  next
    case (LEndPoint i e)
    then show ?thesis using x(2) refl onSlot_ok [OF keeps_endpoint(7) ok(1)] by (auto split: if_splits)
  next
    case (LConnectionError c e)
    then show ?thesis using x(2) conn [OF keeps_error] by (simp add: HandleConnectionError_def)
  next
    case (LCloseConnection c)
    then show ?thesis using x(2) close by (simp add: CloseBleConnection_def)
  next
    case LCloseAll
    then show ?thesis using x(2) close by (simp add: CloseAllBleConnections_def)
  qed (use x(2) refl conn [OF keeps_endpoint(2)] conn [OF keeps_endpoint(3)] conn [OF keeps_endpoint(4)] conn [OF keeps_endpoint(5)]
      conn [OF keeps_endpoint(6)] in \<open>auto simp: HandleWriteConfirmation_def HandleIndicationConfirmation_def
      Layer_HandleAckReceived_def Layer_HandleSubscribeReceived_def Layer_HandleSubscribeComplete_def HandleUnsubscribeReceived_def
      Layer_HandleUnsubscribeComplete_def HandleUnsubscribeComplete_def dest!: ifService_step simp del: map_option_eq_Some\<close>)
qed

lemma reachableLayer_ok: "reachableLayer env layer \<Longrightarrow> poolOk (endPointPool layer) \<and> layerTransport layer"
proof (induction rule: reachableLayer.induct)
  case (start layer)
  then show ?case by (auto simp: poolOk_def list_all_iff heldOk_def holdsConn_def)
next
  case (step layer x layer')
  then show ?case using layerStep_ok [of layer x env layer'] by (auto simp: sameFrame_def)
qed

text \<open>
  In every reachable state the pool has at most one end point for a connection, and \<open>Find\<close> returns exactly that
  one.
\<close>

lemma find_is_exact:
  assumes "reachableLayer env layer"
  shows "Pool_Find (Some h) (endPointPool layer) = Some i \<longleftrightarrow> i < length (endPointPool layer) \<and> holdsConn h (endPointPool layer ! i)"
proof
  let ?pool = "endPointPool layer"
  show "i < length ?pool \<and> holdsConn h (?pool ! i)" if "Pool_Find (Some h) ?pool = Some i"
    using that findSlot_Some [of "holdsConn h" ?pool i] by (simp add: Pool_Find_def)
  show "Pool_Find (Some h) ?pool = Some i" if i: "i < length ?pool \<and> holdsConn h (?pool ! i)"
  proof (cases "findSlot (holdsConn h) ?pool")
    case (Some j)
    then show ?thesis using findSlot_Some [OF Some] i reachableLayer_ok [OF assms] by (auto simp: Pool_Find_def poolOk_def)
  qed (use i findSlot_None in fastforce)
qed

section \<open>Properties\<close>

text \<open>
  C21.  However the layer got into its state, \<open>Shutdown\<close> returns, on any platform, and leaves no end point in use: those that were
  waiting for an unsubscription and those that start one on being closed included.
\<close>

theorem shutdown_frees_all:
  assumes "reachableLayer env layer"
  shows "\<exists>layer'. Shutdown env' layer = Some layer' \<and> list_all (\<lambda>s. \<not> mBle (slotEp s)) (endPointPool layer')"
proof -
  have "\<forall>s \<in> set (endPointPool layer). heldOk (slotEp s)" using reachableLayer_ok [OF assms] by (simp add: poolOk_def)
  from closeLoop_frees [OF this, of env'] show ?thesis by (auto simp: Shutdown_def CloseAllBleConnections_def)
qed

text \<open>A layer with two free end points, and a write of a central on connection 7.\<close>

definition layer0 :: BleLayer where
  "layer0 =
     \<lparr>kState_Initialized = True, layerTransport = True, mConnectionDelegate = False,
      endPointPool = replicate 2 \<lparr>slotConn = 0, slotEp = endPoint0\<rparr>, layerCalls = []\<rparr>"

definition firstWrite :: layerEvent where
  "firstWrite = LWrite (Some 7) (Some CHIP_BLE_SVC_ID) (Some CHIP_BLE_CHAR_1_ID) [platformBuffer [0x65, 0x6C, 4, 0, 0, 0, 23, 0, 6]]"

theorem shutdown_frees_all_witness:
  "\<exists>layer layer'. layerStep (workingPlatform 23) firstWrite layer0 = Some layer \<and> mBle (slotEp (hd (endPointPool layer))) \<and>
     Shutdown (workingPlatform 23) layer = Some layer' \<and> list_all (\<lambda>s. \<not> mBle (slotEp s)) (endPointPool layer')"
proof -
  have "map_option (\<lambda>l. mBle (slotEp (hd (endPointPool l)))) (layerStep (workingPlatform 23) firstWrite layer0) = Some True"
    by code_simp
  then obtain layer where l: "layerStep (workingPlatform 23) firstWrite layer0 = Some layer" "mBle (slotEp (hd (endPointPool layer)))"
    by auto
  have "reachableLayer (workingPlatform 23) layer0" by (rule reachableLayer.start) (simp_all add: layer0_def endPoint0_def numeral_2_eq_2)
  then have "reachableLayer (workingPlatform 23) layer" by (rule reachableLayer.step [OF _ _ l(1)]) (simp add: firstWrite_def)
  from shutdown_frees_all [OF this, of "workingPlatform 23"] l show ?thesis by blast
qed

end
