(* ===== verification/Spec2Isabelle.thy ===== *)
theory Spec2Isabelle
  imports Relay_Device Device_Identity Access_Control Peer_Counter Storage Group_Peers Msg_Header Base38 Verhoeff
    Setup_Payload Manual_Code QR_Optional Ble_Layer
begin

text \<open>
  A verification development for the ThirdReality relay: the relay application of
  \<^verbatim>\<open>examples/lighting-app/thirdreality\<close> and the parts of the Matter SDK under \<^verbatim>\<open>src/\<close> that carry
  its state, its security decisions and its wire formats.

  \<^bold>\<open>How the program is put together.\<close>  At start \<open>get_mac_init\<close> derives serial number and
  discriminator from the MAC address; the application task then handles events from timers, from
  Identify and from the callback the attribute store calls after every write.  The callback
  drives the relays.  The writes come from the On/Off server, whose commands hand over to the Level
  Control server for the fade, and from Level Control, which sets the on/off attribute when a level is
  reached.  A command reaches a cluster only through a secure message: the message
  header is decoded, the message counter is checked against the peer's window (a group message:
  against the table of group peers), and the access control module decides whether the subject
  may have the privilege the command needs.  Outgoing group messages take their counters from
  counters persisted through the storage delegate.  Before any of that the device is
  commissioned over BLE, where messages travel in fragments, with an onboarding payload, as a QR code (base-38 text) or as a manual pairing code
  with a Verhoeff check digit.  What the interaction model and the optional data of the payload carry is encoded as TLV.

  \<^bold>\<open>Theories, sources and what is shown.\<close>

  \<^item> \<open>Prelude\<close>: machine integers as words, error codes and early returns as a sum type
    (\<open>rbind\<close>, \<open>verify\<close>), little-endian bytes (\<^verbatim>\<open>lib/core/CHIPEncoding.h\<close>), the reader of
    \<^verbatim>\<open>lib/support/BufferReader.h\<close>, flag sets.
  \<^item> \<open>Relay_App\<close>: \<^verbatim>\<open>AppTask.cpp\<close>, \<^verbatim>\<open>ZclCallbacks.cpp\<close>, \<^verbatim>\<open>demo_pwm.c\<close>, \<^verbatim>\<open>LEDWidget.cpp\<close>.  State
    \<open>relayApp\<close>; one definition per handler; runs are sequences of operations from power-on.  Shown:
    relays follow their attributes in every run; they are restored after a restart; no factory
    reset without a cause; seven short power cycles reset the device, whatever happens before the confirmation.
  \<^item> \<open>OnOff_Server\<close>: \<^verbatim>\<open>app/clusters/on-off-server/on-off-server.cpp\<close>.  State \<open>onOffServer\<close>, which contains
    the application's; one definition per command and for the timer.  The locale \<open>level_effect\<close> is
    what the server asks of Level Control; in it every command keeps an invariant.
  \<^item> \<open>Level_Control\<close>: \<^verbatim>\<open>app/clusters/level-control/level-control.cpp\<close>.  State \<open>device\<close> extends the server's
    by the state table, the attributes and the timers; failed assertions and divisions by zero are
    values of \<open>fault\<close>.  Optional attributes are absent, present, or present
    and unreadable; clients write them.  Lemmas: the invariant of the state table, one per handler; a tick brings the
    level closer to its target, so that a transition ends.
  \<^item> \<open>Relay_Device\<close>: the three parts composed, as a step function and the inductive predicate
    \<open>reachable\<close>; interprets \<open>level_effect\<close> (\<open>relay\<close>).  Shown: no operation but a Move with rate zero
    fails; Off drives the relay low; Off and On restore the level; what a timed Off does during a
    fade.
  \<^item> \<open>Device_Identity\<close>: \<open>get_mac_init\<close>.  Its loops are \<open>partial_function (option)\<close>; shown: they end
    for every MAC address and the discriminator is valid; the exact serial number.
  \<^item> \<open>Access_Store\<close>: \<^verbatim>\<open>access/examples/ExampleAccessControlDelegate.cpp\<close>: packed subjects and targets,
    the list, the pools behind entry objects and iterators, with explicit references.  The locale
    \<open>acl_delegate\<close> states what the module asks of a delegate (count, delete one entry); it is
    interpreted on the delegate (\<open>example\<close>) and on the module's own \<open>DeleteEntry\<close> (\<open>module\<close>).
  \<^item> \<open>Access_Control\<close>: \<^verbatim>\<open>access/AccessControl.cpp\<close> with node ids and CASE tags.  Shown: the invariant
    of every sequence of operations (with the links between entry objects and delegates), \<open>Check\<close> decides exactly by
    the entries of the fabric and by what is free in the pools, group
    subjects never administer, changes act on per-fabric lists, a removed fabric loses access.
  \<^item> \<open>Peer_Counter\<close>: \<^verbatim>\<open>transport/PeerMessageCounter.h\<close>, \<^verbatim>\<open>SessionMessageCounter.h\<close> and the checks of
    \<^verbatim>\<open>SessionManager.cpp\<close>.  Shown: no replay, refinement to the set of seen counters, in-order
    delivery, retransmissions.
  \<^item> \<open>Group_Peers\<close>: \<^verbatim>\<open>transport/GroupPeerMessageCounter.cpp\<close>: the tables of group peers; refinement to
    a map, exact removal, no replay through the table.
  \<^item> \<open>Storage\<close>: the persistent storage delegate, persisted counters and the outgoing group counters;
    no reuse across restarts, and reuse after a failed write, however many messages follow it.
  \<^item> \<open>Msg_Header\<close>: \<^verbatim>\<open>transport/raw/MessageHeader.cpp\<close>: encoding and decoding of packet and payload
    headers; round trip, well-formedness and bounds.
  \<^item> \<open>Packet_Buffer\<close>: \<^verbatim>\<open>system/SystemPacketBuffer.cpp\<close>: a buffer is its memory with offset, lengths and
    reference count, a handle the list of its chain.  Lemmas: what each operation does to the bytes of a
    chain.  The locale \<open>byte_collector\<close> is what reassembly relies on (\<open>buffers\<close> interprets it).
  \<^item> \<open>Btp_Engine\<close>: \<^verbatim>\<open>ble/BtpEngine.cpp\<close>: sequence numbers, acknowledgements, fragmentation and
    reassembly over packet buffers.  Shown: the window refines a queue; sending and receiving refine
    abstract fragments (\<open>frag\<close>, \<open>rcv\<close>); any input is in sequence or an error.
  \<^item> \<open>Btp_Link\<close>: two engines and the fragments between them, as in \<^verbatim>\<open>ble/BLEEndPoint.cpp\<close>, with the
    inductive predicate \<open>reachableLink\<close>.  Shown: nothing permitted fails, messages arrive in order and
    complete, a transfer ends (its fuel, \<open>2 * len b + 1\<close>, is proved to be enough); the exact value
    of the remote window.
  \<^item> \<open>Ble_Handshake\<close>: the capabilities request and response of \<^verbatim>\<open>ble/BleLayer.cpp\<close> and the choice of the protocol
    version; the messages decode to what was encoded.
  \<^item> \<open>Ble_EndPoint\<close>: \<^verbatim>\<open>ble/BLEEndPoint.cpp\<close> in full.  State \<open>BLEEndPoint\<close> around one engine; the calls to the platform
    and the transport are recorded, their results are given by the record \<open>platform\<close>; \<open>None\<close> is a crash.
    A run is a list of events.
  \<^item> \<open>Ble_Connection\<close>: the locale \<open>run_laws\<close>, in which every operation of the end point is shown to keep a
    predicate, and \<open>run_invariant\<close>, a sublocale for predicates kept by elementary changes, interpreted for the number of GATT
    operations (\<open>paced\<close>) and the connection state (\<open>life\<close>).  Shown: sends wait for confirmations; states only move forward; the handshake leads both sides into the initial state
    of \<open>Btp_Link\<close>; runs that crash or abort although both sides keep to the protocol, or crash on a bad request.
  \<^item> \<open>Ble_Layer\<close>: \<^verbatim>\<open>ble/BleLayer.cpp\<close>: the pool of end points, the search by connection, the dispatch of platform reports;
    runs are the inductive predicate \<open>reachableLayer\<close>.  \<open>run_laws\<close> is interpreted for what an end point in use holds (\<open>held\<close>) and for what it
    cannot get back (\<open>lost\<close>).  Shown: \<open>Find\<close> is exact; \<open>Shutdown\<close> frees every end point.
  \<^item> \<open>Tlv_Types\<close>: \<^verbatim>\<open>lib/core/TLVTags.h\<close>, \<^verbatim>\<open>TLVTypes.h\<close>: tags, types, control bytes and the bytes of an element head.
  \<^item> \<open>Tlv_Reader\<close>: \<^verbatim>\<open>lib/core/TLVReader.cpp\<close>, state \<open>TLVReader\<close>, the backing store as a parameter.  Shown: on one buffer every operation
    returns and no sequence of them leaves the buffer, whatever the bytes are.
  \<^item> \<open>Tlv_Writer\<close>: \<^verbatim>\<open>lib/core/TLVWriter.cpp\<close>, state \<open>TLVWriter\<close>.  Shown: every sequence of operations returns and stays in the buffer, if
    the container writers it opens have no reserved space left over.
  \<^item> \<open>Tlv_Head\<close>, \<open>Tlv_Tree\<close>, \<open>Tlv_Walk\<close>, \<open>Tlv_Roundtrip\<close>: heads read back; trees of elements, their encoding and the calls that write
    it; the reader on such an encoding; the properties of both together: round trip (with texts cut at their separators), search and count, copying under a new
    tag, the end marker whose space is lost, and the buffer that is left when reserved space is left over.
  \<^item> \<open>Base38\<close>, \<open>Verhoeff\<close>, \<open>Setup_Payload\<close>, \<open>Manual_Code\<close>, \<open>QR_Code\<close>: \<^verbatim>\<open>setup_payload/\<close> and
    \<^verbatim>\<open>lib/support/verhoeff/\<close>; round trips, detection of mistyped digits, optional data as maps (locales
    \<open>tagged_store\<close> and \<open>tagged_store_remove\<close>, interpreted for vendor and for extension data).
  \<^item> \<open>QR_Optional\<close>: the optional data of the QR code over the TLV writer and reader.  Shown: the parser returns for any bytes; the
    estimated buffer is large enough; a payload with optional data survives the way into the QR text and back, its texts up to their first zero or separator.

  \<^bold>\<open>State and errors.\<close>  Structs are records, enums datatypes; functions that change state return
  it; \<open>CHIP_ERROR\<close> is the left side of a sum and a failed \<open>VerifyOrDie\<close> the error \<open>DIE\<close>.  Pointers into
  the access control list and its pools are places, since the fix-ups after a deletion depend on
  them.

  \<^bold>\<open>Bounds and fuel.\<close>  Of the code's loops only the one of \<open>AccessControl::Check\<close> uses fuel, one more
  than the size of the list; \<open>entriesLoop_decides\<close> shows that this is enough, because every turn moves the iterator
  forward.  The other loops are structural, have a measure, or are option-valued with a proof
  that they return.  The list has 24 places and an entry 4 subjects and 3 targets, the default
  configuration; the lemmas on the list hold for any length.

  \<^bold>\<open>Parameters.\<close>  GPIO, PWM, flash and the clock of the board, the device type resolver, the
  memory allocator and the cryptographic primitives are arguments or logged commands:
  their code is not part of what is modelled, and no property assumes more of them than is stated.

  \<^bold>\<open>Not modelled.\<close>  The interaction model engine, sessions and cryptography, commissioning
  windows, fabric table, discovery, OTA, the other clusters, platform ports, language bindings, generated and third-party code.  They
  are large, mostly I/O or glue around the parts above, or not used by the relay.  The
  \<open>BOOT_PIN_RESET\<close> build of the application and logging are left out.
\<close>

end
